(* ===== verification/Prelude.thy ===== *)
theory Prelude
  imports Main "HOL-Library.AList" "HOL-Library.Multiset"
begin

text \<open>
  Shared vocabulary of the development: Rust's unsigned 64 and 32 bit arithmetic on \<open>nat\<close> with
  the limit written out, hash maps as association lists with distinct keys, the generic
  notions of a run and of a reachable state, and the interfaces (locales) that several
  components implement: a keyed store, a store whose entries expire, a transition system with
  an invariant, and a ranking of candidates by a key.
\<close>

section \<open>Collections of rules\<close>

named_theorems rust_int_simps
named_theorems hmap_simps

section \<open>Unsigned machine integers\<close>

text \<open>
  A Rust \<open>u64\<close> (or \<open>u32\<close>, \<open>usize\<close> on a 64 bit target) is a natural number that does not exceed
  the type's maximum. Every operation the source applies to such a number where it could
  overflow names what happens (\<open>saturating_add\<close>, \<open>checked_add\<close>, \<open>wrapping_add\<close>), and so do the
  definitions. \<open>saturating_sub\<close> is the subtraction of \<open>nat\<close>.
\<close>

abbreviation u64_max :: nat where
  "u64_max \<equiv> 18446744073709551615"

abbreviation u32_max :: nat where
  "u32_max \<equiv> 4294967295"

definition saturating_add :: "nat \<Rightarrow> nat \<Rightarrow> nat" where
  "saturating_add a b = min (a + b) u64_max"

definition saturating_add32 :: "nat \<Rightarrow> nat \<Rightarrow> nat" where
  "saturating_add32 a b = min (a + b) u32_max"

definition saturating_mul :: "nat \<Rightarrow> nat \<Rightarrow> nat" where
  "saturating_mul a b = min (a * b) u64_max"

definition wrapping_add :: "nat \<Rightarrow> nat \<Rightarrow> nat" where
  "wrapping_add a b = (a + b) mod (u64_max + 1)"

definition checked_add :: "nat \<Rightarrow> nat \<Rightarrow> nat option" where
  "checked_add a b = (if a + b \<le> u64_max then Some (a + b) else None)"

definition checked_sub :: "nat \<Rightarrow> nat \<Rightarrow> nat option" where
  "checked_sub a b = (if b \<le> a then Some (a - b) else None)"

definition checked_mul :: "nat \<Rightarrow> nat \<Rightarrow> nat option" where
  "checked_mul a b = (if a * b \<le> u64_max then Some (a * b) else None)"

definition div_ceil :: "nat \<Rightarrow> nat \<Rightarrow> nat" where
  "div_ceil a b = (a + b - 1) div b"

definition clamp :: "nat \<Rightarrow> nat \<Rightarrow> nat \<Rightarrow> nat" where
  "clamp x lo hi = min (max x lo) hi"

lemma saturating_add_le [simp]: "saturating_add a b \<le> u64_max"
  by (simp add: saturating_add_def)

lemma saturating_add32_le [simp]: "saturating_add32 a b \<le> u32_max"
  by (simp add: saturating_add32_def)

lemma saturating_add_min_le [rust_int_simps]:
  "t \<le> u64_max \<Longrightarrow> min (saturating_add a b) t = min (a + b) t"
  by (simp add: saturating_add_def)

lemma saturating_add_exact [rust_int_simps]:
  "a + b \<le> u64_max \<Longrightarrow> saturating_add a b = a + b"
  by (simp add: saturating_add_def)

lemma saturating_add_mono:
  "a \<le> a' \<Longrightarrow> b \<le> b' \<Longrightarrow> saturating_add a b \<le> saturating_add a' b'"
  by (auto simp: saturating_add_def)

lemma saturating_mul_exact [rust_int_simps]:
  "a * b \<le> u64_max \<Longrightarrow> saturating_mul a b = a * b"
  by (simp add: saturating_mul_def)

lemma checked_add_SomeD [dest]:
  "checked_add a b = Some c \<Longrightarrow> c = a + b \<and> a + b \<le> u64_max"
  by (auto simp: checked_add_def split: if_splits)

lemma checked_sub_SomeD [dest]: "checked_sub a b = Some c \<Longrightarrow> c = a - b \<and> b \<le> a"
  by (auto simp: checked_sub_def split: if_splits)

lemma checked_mul_SomeD [dest]:
  "checked_mul a b = Some c \<Longrightarrow> c = a * b \<and> a * b \<le> u64_max"
  by (auto simp: checked_mul_def split: if_splits)

lemma div_ceil_mult_ge:
  assumes b: "0 < b"
  shows "a \<le> div_ceil a b * b"
proof -
  have "div_ceil a b * b + (a + b - 1) mod b = a + b - 1"
    unfolding div_ceil_def by (rule div_mult_mod_eq)
  moreover have "(a + b - 1) mod b < b"
    using b by (rule mod_less_divisor)
  ultimately show ?thesis using b by linarith
qed

lemma clamp_bounds: "lo \<le> hi \<Longrightarrow> lo \<le> clamp x lo hi \<and> clamp x lo hi \<le> hi"
  by (auto simp: clamp_def)

section \<open>Hash maps\<close>

text \<open>
  A \<open>HashMap\<close> or \<open>BTreeMap\<close> is an association list whose keys are distinct
  (\<open>hm_wf\<close>). The order of the list stands for the iteration order, which
  Rust leaves open for a hash map: a lemma about every such list holds for every order.
\<close>

type_synonym ('k, 'v) hmap = "('k \<times> 'v) list"

definition hm_get :: "('k, 'v) hmap \<Rightarrow> 'k \<Rightarrow> 'v option" where
  "hm_get m k = map_of m k"

definition hm_insert :: "'k \<Rightarrow> 'v \<Rightarrow> ('k, 'v) hmap \<Rightarrow> ('k, 'v) hmap" where
  "hm_insert k v m = AList.update k v m"

definition hm_remove :: "'k \<Rightarrow> ('k, 'v) hmap \<Rightarrow> ('k, 'v) hmap" where
  "hm_remove k m = AList.delete k m"

definition hm_retain :: "('k \<Rightarrow> 'v \<Rightarrow> bool) \<Rightarrow> ('k, 'v) hmap \<Rightarrow> ('k, 'v) hmap" where
  "hm_retain P m = filter (\<lambda>(k, v). P k v) m"

definition hm_values :: "('k, 'v) hmap \<Rightarrow> 'v list" where
  "hm_values m = map snd m"

definition hm_wf :: "('k, 'v) hmap \<Rightarrow> bool" where
  "hm_wf m \<longleftrightarrow> distinct (map fst m)"

lemma hm_get_insert [simp, hmap_simps]:
  "hm_get (hm_insert k v m) k' = (if k' = k then Some v else hm_get m k')"
  by (simp add: hm_get_def hm_insert_def update_conv')

lemma hm_get_remove [simp, hmap_simps]:
  "hm_get (hm_remove k m) k' = (if k' = k then None else hm_get m k')"
  by (simp add: hm_get_def hm_remove_def delete_conv')

lemma hm_get_empty [simp, hmap_simps]: "hm_get [] k = None"
  by (simp add: hm_get_def)

lemma hm_wf_empty [simp]: "hm_wf []"
  by (simp add: hm_wf_def)

lemma hm_wf_insert [simp]: "hm_wf m \<Longrightarrow> hm_wf (hm_insert k v m)"
  by (simp add: hm_wf_def hm_insert_def distinct_update)

lemma hm_wf_remove [simp]: "hm_wf m \<Longrightarrow> hm_wf (hm_remove k m)"
  by (simp add: hm_wf_def hm_remove_def distinct_delete)

lemma hm_wf_retain [simp]: "hm_wf m \<Longrightarrow> hm_wf (hm_retain P m)"
  unfolding hm_wf_def hm_retain_def by (rule distinct_map_filter)

lemma hm_get_Some_iff: "hm_wf m \<Longrightarrow> hm_get m k = Some v \<longleftrightarrow> (k, v) \<in> set m"
  by (simp add: hm_wf_def hm_get_def)

lemma hm_get_in_values: "hm_get m k = Some v \<Longrightarrow> v \<in> set (hm_values m)"
  by (force simp: hm_get_def hm_values_def dest: map_of_SomeD)

lemma hm_get_retain [hmap_simps]:
  "hm_wf m \<Longrightarrow>
    hm_get (hm_retain P m) k = (case hm_get m k of
      None \<Rightarrow> None | Some v \<Rightarrow> if P k v then Some v else None)"
proof -
  assume wf: "hm_wf m"
  have "hm_get (hm_retain P m) k = Some v \<longleftrightarrow> hm_get m k = Some v \<and> P k v" for v
    by (simp add: hm_get_Some_iff wf) (auto simp: hm_retain_def)
  note iff = this
  show ?thesis
  proof (cases "hm_get m k")
    case None
    then have "hm_get (hm_retain P m) k \<noteq> Some v" for v
      by (simp add: iff)
    then have "hm_get (hm_retain P m) k = None"
      by (cases "hm_get (hm_retain P m) k") blast+
    with None show ?thesis by simp
  next
    case (Some v)
    show ?thesis
    proof (cases "P k v")
      case True
      then show ?thesis using Some iff [of v] by simp
    next
      case False
      then have "hm_get (hm_retain P m) k \<noteq> Some w" for w
        using Some by (auto simp: iff)
      then have "hm_get (hm_retain P m) k = None"
        by (cases "hm_get (hm_retain P m) k") blast+
      with Some False show ?thesis by simp
    qed
  qed
qed

lemma hm_length_insert:
  "length (hm_insert k v m) = (if k \<in> fst ` set m then length m else Suc (length m))"
  unfolding hm_insert_def by (induction m) auto

lemma hm_length_remove_le: "length (hm_remove k m) \<le> length m"
  by (simp add: hm_remove_def length_delete_le)

lemma hm_length_retain_le: "length (hm_retain P m) \<le> length m"
  by (simp add: hm_retain_def)

lemma hm_get_None_iff: "hm_get m k = None \<longleftrightarrow> k \<notin> fst ` set m"
  by (simp add: hm_get_def map_of_eq_None_iff)

lemma hm_length_remove:
  "hm_wf m \<Longrightarrow> k \<in> fst ` set m \<Longrightarrow> length (hm_remove k m) < length m"
  by (induction m)
    (auto simp: hm_wf_def hm_remove_def length_delete_le less_Suc_eq_le image_iff Suc_le_eq)

text \<open>\<open>HashMap::retain\<close> with a closure that also changes the value it looks at.\<close>

definition hm_filter_map :: "('v \<Rightarrow> 'v option) \<Rightarrow> ('k, 'v) hmap \<Rightarrow> ('k, 'v) hmap" where
  "hm_filter_map f m = List.map_filter (\<lambda>(k, v). map_option (Pair k) (f v)) m"

lemma hm_filter_map_Cons:
  "hm_filter_map f ((k, v) # m) =
     (case f v of Some v' \<Rightarrow> [(k, v')] | None \<Rightarrow> []) @ hm_filter_map f m"
  by (simp add: hm_filter_map_def List.map_filter_simps split: option.split)

lemma hm_filter_map_Nil [simp]: "hm_filter_map f [] = []"
  by (simp add: hm_filter_map_def List.map_filter_simps)

lemma hm_filter_map_keys: "fst ` set (hm_filter_map f m) \<subseteq> fst ` set m"
proof (induction m)
  case (Cons p m)
  then show ?case by (cases p) (force simp: hm_filter_map_Cons split: option.splits)
qed simp

lemma hm_wf_filter_map [simp]: "hm_wf m \<Longrightarrow> hm_wf (hm_filter_map f m)"
proof (induction m)
  case (Cons p m)
  obtain k v where p: "p = (k, v)" by (cases p)
  from Cons.prems p have "k \<notin> fst ` set (hm_filter_map f m)"
    using hm_filter_map_keys [of f m] by (auto simp: hm_wf_def)
  moreover have "hm_wf (hm_filter_map f m)" using Cons by (simp add: hm_wf_def)
  ultimately show ?case by (auto simp: p hm_filter_map_Cons hm_wf_def split: option.split)
qed simp

lemma hm_get_filter_map [hmap_simps]:
  "hm_wf m \<Longrightarrow> hm_get (hm_filter_map f m) k = Option.bind (hm_get m k) f"
proof (induction m)
  case (Cons p m)
  obtain k' v where p: "p = (k', v)" by (cases p)
  have notin: "k' \<notin> fst ` set (hm_filter_map f m)"
    using Cons.prems hm_filter_map_keys [of f m] by (auto simp: p hm_wf_def)
  have ih: "hm_get (hm_filter_map f m) k = Option.bind (hm_get m k) f"
    using Cons by (simp add: hm_wf_def)
  show ?case
  proof (cases "k = k'")
    case True
    with notin show ?thesis
      by (auto simp: p hm_filter_map_Cons hm_get_def map_of_eq_None_iff split: option.split)
  next
    case False
    with ih show ?thesis by (simp add: p hm_filter_map_Cons hm_get_def split: option.split)
  qed
qed simp

subsection \<open>The keyed store interface\<close>

text \<open>
  What every component that keeps a map relies on. The laws are those of a partial map, with
  an invariant on the representation; \<open>hmap\<close> implements them.
\<close>

locale keyed_store =
  fixes get :: "'m \<Rightarrow> 'k \<Rightarrow> 'v option"
    and put :: "'k \<Rightarrow> 'v \<Rightarrow> 'm \<Rightarrow> 'm"
    and del :: "'k \<Rightarrow> 'm \<Rightarrow> 'm"
    and keep :: "('k \<Rightarrow> 'v \<Rightarrow> bool) \<Rightarrow> 'm \<Rightarrow> 'm"
    and wf :: "'m \<Rightarrow> bool"
  assumes get_put: "wf m \<Longrightarrow> get (put k v m) = (get m)(k \<mapsto> v)"
    and get_del: "wf m \<Longrightarrow> get (del k m) = (get m)(k := None)"
    and get_keep: "wf m \<Longrightarrow> get (keep P m) k =
          (case get m k of None \<Rightarrow> None | Some v \<Rightarrow> if P k v then Some v else None)"
    and wf_put: "wf m \<Longrightarrow> wf (put k v m)"
    and wf_del: "wf m \<Longrightarrow> wf (del k m)"
    and wf_keep: "wf m \<Longrightarrow> wf (keep P m)"
begin

lemma keep_only:
  "wf m \<Longrightarrow> get (keep P m) k = Some v \<Longrightarrow> get m k = Some v \<and> P k v"
  by (auto simp: get_keep split: option.splits if_splits)

lemma keep_all:
  "wf m \<Longrightarrow> (\<And>k v. get m k = Some v \<Longrightarrow> P k v) \<Longrightarrow> get (keep P m) = get m"
  by (rule ext) (auto simp: get_keep split: option.splits)

lemma put_all:
  "wf m \<Longrightarrow> (\<And>k' v'. get m k' = Some v' \<Longrightarrow> Q k' v') \<Longrightarrow> Q k v \<Longrightarrow>
    get (put k v m) k' = Some v' \<Longrightarrow> Q k' v'"
  by (auto simp: get_put split: if_splits)

end

interpretation hm: keyed_store hm_get hm_insert hm_remove hm_retain hm_wf
  by unfold_locales (auto simp: fun_eq_iff hm_get_retain)

section \<open>Runs and reachable states\<close>

text \<open>
  A component is a set of initial states and a labelled step relation. \<open>exec_run\<close> follows a list
  of labels; \<open>reachable\<close> is the set of states some run leads to.
\<close>

inductive exec_run :: "('s \<Rightarrow> 'l \<Rightarrow> 's \<Rightarrow> bool) \<Rightarrow> 's \<Rightarrow> 'l list \<Rightarrow> 's \<Rightarrow> bool"
  for step :: "'s \<Rightarrow> 'l \<Rightarrow> 's \<Rightarrow> bool" where
  exec_nil: "exec_run step s [] s"
| exec_cons: "step s l t \<Longrightarrow> exec_run step t ls u \<Longrightarrow> exec_run step s (l # ls) u"

inductive_cases exec_run_NilE: "exec_run step s [] t"
inductive_cases exec_run_ConsE: "exec_run step s (l # ls) t"

inductive reachable :: "('s \<Rightarrow> bool) \<Rightarrow> ('s \<Rightarrow> 'l \<Rightarrow> 's \<Rightarrow> bool) \<Rightarrow> 's \<Rightarrow> bool"
  for init :: "'s \<Rightarrow> bool" and step :: "'s \<Rightarrow> 'l \<Rightarrow> 's \<Rightarrow> bool" where
  reach_init: "init s \<Longrightarrow> reachable init step s"
| reach_step: "reachable init step s \<Longrightarrow> step s l t \<Longrightarrow> reachable init step t"

lemma reachable_exec_run:
  "exec_run step s ls t \<Longrightarrow> reachable init step s \<Longrightarrow> reachable init step t"
  by (induction rule: exec_run.induct) (auto intro: reach_step)

locale step_system =
  fixes init :: "'s \<Rightarrow> bool" and step :: "'s \<Rightarrow> 'l \<Rightarrow> 's \<Rightarrow> bool" and inv :: "'s \<Rightarrow> bool"
  assumes inv_init: "init s \<Longrightarrow> inv s"
    and inv_step: "inv s \<Longrightarrow> step s l t \<Longrightarrow> inv t"
begin

lemma reachable_inv: "reachable init step s \<Longrightarrow> inv s"
  by (induction rule: reachable.induct) (auto intro: inv_init inv_step)

lemma exec_run_inv: "exec_run step s ls t \<Longrightarrow> inv s \<Longrightarrow> inv t"
  by (induction rule: exec_run.induct) (auto intro: inv_step)

end

section \<open>Lists\<close>

text \<open>
  \<open>VecDeque::iter().position(p)\<close> followed by \<open>remove(index)\<close>: the first element that satisfies
  the predicate and the list without it.
\<close>

fun take_first :: "('a \<Rightarrow> bool) \<Rightarrow> 'a list \<Rightarrow> ('a \<times> 'a list) option" where
  "take_first P [] = None"
| "take_first P (x # xs) =
     (if P x then Some (x, xs) else map_option (\<lambda>(y, ys). (y, x # ys)) (take_first P xs))"

lemma take_first_None_iff [simp]: "take_first P xs = None \<longleftrightarrow> (\<forall>x \<in> set xs. \<not> P x)"
  by (induction xs) auto

lemma take_first_SomeD:
  "take_first P xs = Some (y, ys) \<Longrightarrow>
    P y \<and> (\<exists>pre post. xs = pre @ y # post \<and> ys = pre @ post \<and> (\<forall>x \<in> set pre. \<not> P x))"
proof (induction xs arbitrary: y ys)
  case Nil
  then show ?case by simp
next
  case (Cons x xs)
  show ?case
  proof (cases "P x")
    case True
    with Cons.prems have "P y \<and> x # xs = [] @ y # xs \<and> ys = [] @ xs" by simp
    then show ?thesis by fastforce
  next
    case False
    with Cons.prems obtain zs where zs: "take_first P xs = Some (y, zs)" "ys = x # zs"
      by auto
    from Cons.IH [OF zs(1)] obtain pre post where
      "P y" "xs = pre @ y # post" "zs = pre @ post" "\<forall>x \<in> set pre. \<not> P x" by blast
    with False zs(2) have "P y \<and> x # xs = (x # pre) @ y # post \<and> ys = (x # pre) @ post
        \<and> (\<forall>z \<in> set (x # pre). \<not> P z)" by simp
    then show ?thesis by blast
  qed
qed

lemma take_first_mset:
  "take_first P xs = Some (y, ys) \<Longrightarrow> mset xs = add_mset y (mset ys)"
  by (auto dest: take_first_SomeD)

lemma take_first_sorted:
  fixes f :: "'a \<Rightarrow> 'b::linorder"
  shows "take_first P xs = Some (y, ys) \<Longrightarrow> sorted (map f xs) \<Longrightarrow> sorted (map f ys)"
  by (auto dest!: take_first_SomeD simp: sorted_append)

lemma take_first_append_skip:
  "\<forall>x \<in> set xs. \<not> P x \<Longrightarrow> P y \<Longrightarrow> take_first P (xs @ y # ys) = Some (y, xs @ ys)"
  by (induction xs) auto

lemma sorted_map_butlast:
  fixes f :: "'a \<Rightarrow> 'b::linorder"
  shows "sorted (map f xs) \<Longrightarrow> sorted (map f (butlast xs))"
  by (metis map_butlast sorted_butlast butlast.simps(1) sorted0)

lemma distinct_map_mset_subset:
  assumes sub: "mset xs \<subseteq># mset ys" and dist: "distinct (map f ys)"
  shows "distinct (map f xs)"
proof -
  obtain zs where "mset ys = mset (xs @ zs)"
    using sub by (metis ex_mset mset_append mset_subset_eq_exists_conv)
  then have "mset (map f ys) = mset (map f (xs @ zs))"
    by (metis mset_map)
  with dist have "distinct (map f (xs @ zs))"
    using mset_eq_imp_distinct_iff by blast
  then show ?thesis by simp
qed

lemma sorted_wrt_snocI:
  "sorted_wrt R xs \<Longrightarrow> (\<And>x. x \<in> set xs \<Longrightarrow> R x y) \<Longrightarrow> sorted_wrt R (xs @ [y])"
  by (simp add: sorted_wrt_append)

end
