(* ===== verification/Ranking.thy ===== *)
theory Ranking
  imports Prelude
begin

text \<open>
  The parts of the Rust standard library that the components which order candidates use:
  \<open>Ordering\<close> with \<open>reverse\<close> and \<open>then_with\<close>, \<open>Ord::cmp\<close> on ordered types, options and pairs, the
  stable \<open>slice::sort_by\<close>, and \<open>BTreeMap\<close>, whose iteration order is the order of the keys. The
  laws of a comparison are a locale: sorting is proved correct once, from the laws, and every
  comparison a component passes to \<open>sort_by\<close> is an interpretation of it.
\<close>

section \<open>Comparisons\<close>

datatype ordering = Less | Equal | Greater

fun reverse_ordering :: "ordering \<Rightarrow> ordering" where
  "reverse_ordering Less = Greater"
| "reverse_ordering Equal = Equal"
| "reverse_ordering Greater = Less"

fun then_with :: "ordering \<Rightarrow> ordering \<Rightarrow> ordering" where
  "then_with Equal d = d"
| "then_with c d = c"

definition cmp :: "'a::linorder \<Rightarrow> 'a \<Rightarrow> ordering" where
  "cmp a b = (if a < b then Less else if a = b then Equal else Greater)"

definition cmp_pair :: "nat \<times> nat \<Rightarrow> nat \<times> nat \<Rightarrow> ordering" where
  "cmp_pair p q = then_with (cmp (fst p) (fst q)) (cmp (snd p) (snd q))"

text \<open>
  A comparison that \<open>sort_by\<close> accepts: swapping the arguments reverses the result, and not being
  greater is transitive.
\<close>

locale comparison =
  fixes c :: "'a \<Rightarrow> 'a \<Rightarrow> ordering"
  assumes swap: "c y x = reverse_ordering (c x y)"
    and not_greater_trans: "c x y \<noteq> Greater \<Longrightarrow> c y z \<noteq> Greater \<Longrightarrow> c x z \<noteq> Greater"
begin

lemma refl_equal: "c x x = Equal"
  using swap [of x x] by (cases "c x x") auto

lemma greater_swap: "c x y = Greater \<Longrightarrow> c y x = Less"
  using swap [of y x] by simp

lemma less_swap: "c x y = Less \<Longrightarrow> c y x = Greater"
  using swap [of y x] by simp

lemma equal_swap: "c x y = Equal \<Longrightarrow> c y x = Equal"
  using swap [of y x] by simp

lemma equal_left: "c x y = Equal \<Longrightarrow> c x z = c y z"
proof -
  assume e: "c x y = Equal"
  have le: "c x z \<noteq> Greater \<longleftrightarrow> c y z \<noteq> Greater"
    using not_greater_trans [of x y z] not_greater_trans [of y x z] e equal_swap [OF e] by auto
  have ge: "c z x \<noteq> Greater \<longleftrightarrow> c z y \<noteq> Greater"
    using not_greater_trans [of z x y] not_greater_trans [of z y x] e equal_swap [OF e] by auto
  show ?thesis
    using le ge swap [of z x] swap [of z y] by (cases "c x z"; cases "c y z") auto
qed

end

lemma comparison_then_with:
  assumes "comparison c" "comparison d"
  shows "comparison (\<lambda>x y. then_with (c x y) (d x y))"
proof
  fix x y
  show "then_with (c y x) (d y x) = reverse_ordering (then_with (c x y) (d x y))"
    using comparison.swap [OF assms(1), of y x] comparison.swap [OF assms(2), of y x]
    by (cases "c x y") auto
next
  fix x y z
  assume xy: "then_with (c x y) (d x y) \<noteq> Greater" and yz: "then_with (c y z) (d y z) \<noteq> Greater"
  show "then_with (c x z) (d x z) \<noteq> Greater"
  proof (cases "c x y = Equal")
    case True
    then have eq: "c x z = c y z" by (rule comparison.equal_left [OF assms(1)])
    show ?thesis
    proof (cases "c y z = Equal")
      case True
      with xy yz \<open>c x y = Equal\<close> have "d x y \<noteq> Greater" "d y z \<noteq> Greater" by auto
      then have "d x z \<noteq> Greater" by (rule comparison.not_greater_trans [OF assms(2)])
      with True eq show ?thesis by simp
    next
      case False
      with yz eq show ?thesis by (cases "c y z") auto
    qed
  next
    case False
    with xy have xy': "c x y = Less" by (cases "c x y") auto
    have yz': "c y z \<noteq> Greater" using yz by (cases "c y z") auto
    have "c x z \<noteq> Greater"
      using comparison.not_greater_trans [OF assms(1), of x y z] xy' yz' by simp
    moreover have "c x z \<noteq> Equal"
    proof
      assume "c x z = Equal"
      then have "c z y = Less"
        using comparison.equal_left [OF assms(1), of x z y] xy' by simp
      then show False using comparison.less_swap [OF assms(1), of z y] yz' by simp
    qed
    ultimately show ?thesis by (cases "c x z") auto
  qed
qed

lemma comparison_by_key: "comparison c \<Longrightarrow> comparison (\<lambda>x y. c (f x) (f y))"
  unfolding comparison_def by blast

lemma comparison_reversed: "comparison c \<Longrightarrow> comparison (\<lambda>x y. c y x)"
  unfolding comparison_def by blast

interpretation natural: comparison "cmp :: 'a::linorder \<Rightarrow> 'a \<Rightarrow> ordering"
  by unfold_locales (auto simp: cmp_def split: if_splits)

interpretation pairs: comparison cmp_pair
  unfolding cmp_pair_def
  by (rule comparison_then_with;
      rule comparison_by_key [of cmp, OF natural.comparison_axioms])

section \<open>Stable sorting\<close>

text \<open>
  \<open>slice::sort_by\<close> is a stable sort. The definition inserts the elements from the last to the
  first, each one in front of the elements it is equal to.
\<close>

fun insert_by :: "('a \<Rightarrow> 'a \<Rightarrow> ordering) \<Rightarrow> 'a \<Rightarrow> 'a list \<Rightarrow> 'a list" where
  "insert_by c x [] = [x]"
| "insert_by c x (y # ys) = (if c x y = Greater then y # insert_by c x ys else x # y # ys)"

definition sort_by :: "('a \<Rightarrow> 'a \<Rightarrow> ordering) \<Rightarrow> 'a list \<Rightarrow> 'a list" where
  "sort_by c xs = foldr (insert_by c) xs []"

lemma mset_insert_by [simp]: "mset (insert_by c x ys) = add_mset x (mset ys)"
  by (induction ys) auto

lemma sort_by_simps [simp]:
  "sort_by c [] = []" "sort_by c (x # xs) = insert_by c x (sort_by c xs)"
  by (simp_all add: sort_by_def)

lemma mset_sort_by [simp]: "mset (sort_by c xs) = mset xs"
  by (induction xs) auto

lemma set_sort_by [simp]: "set (sort_by c xs) = set xs"
  using mset_sort_by [of c xs] mset_eq_setD by blast

lemma length_sort_by [simp]: "length (sort_by c xs) = length xs"
  using mset_sort_by [of c xs] mset_eq_length by blast

lemma set_insert_by [simp]: "set (insert_by c x ys) = insert x (set ys)"
  by (induction ys) auto

context comparison
begin

lemma insert_by_sorted:
  "sorted_wrt (\<lambda>a b. c a b \<noteq> Greater) ys \<Longrightarrow>
    sorted_wrt (\<lambda>a b. c a b \<noteq> Greater) (insert_by c x ys)"
proof (induction ys)
  case (Cons y ys)
  show ?case
  proof (cases "c x y = Greater")
    case True
    then have "c y x \<noteq> Greater" using greater_swap by simp
    with Cons True show ?thesis by auto
  next
    case False
    with Cons.prems have "c x z \<noteq> Greater" if "z \<in> set ys" for z
      using that not_greater_trans [of x y z] by simp
    with False Cons.prems show ?thesis by simp
  qed
qed simp

lemma sort_by_sorted: "sorted_wrt (\<lambda>a b. c a b \<noteq> Greater) (sort_by c xs)"
  by (induction xs) (simp_all add: insert_by_sorted)

lemma insert_by_filter_other:
  "\<not> P x \<Longrightarrow> filter P (insert_by c x ys) = filter P ys"
  by (induction ys) auto

lemma insert_by_filter_equal:
  assumes "\<And>a b. P a \<Longrightarrow> P b \<Longrightarrow> c a b = Equal" and "P x"
  shows "filter P (insert_by c x ys) = x # filter P ys"
  using assms by (induction ys) auto

text \<open>Elements that compare equal keep their order.\<close>

lemma sort_by_stable:
  assumes "\<And>a b. P a \<Longrightarrow> P b \<Longrightarrow> c a b = Equal"
  shows "filter P (sort_by c xs) = filter P xs"
  using assms
  by (induction xs) (auto simp: insert_by_filter_other insert_by_filter_equal)

text \<open>A property that only smaller elements can have holds on a prefix of the sorted list.\<close>

lemma sort_by_prefix:
  assumes "\<And>a b. \<lbrakk>P a; \<not> P b\<rbrakk> \<Longrightarrow> c a b = Less"
  shows "sort_by c xs = filter P (sort_by c xs) @ filter (\<lambda>a. \<not> P a) (sort_by c xs)"
proof -
  have "sorted_wrt (\<lambda>a b. c a b \<noteq> Greater) ys \<Longrightarrow>
      ys = filter P ys @ filter (\<lambda>a. \<not> P a) ys" for ys
  proof (induction ys)
    case (Cons y ys)
    show ?case
    proof (cases "P y")
      case False
      then have "\<not> P z" if "z \<in> set ys" for z
        using Cons.prems that assms [of z y] less_swap [of z y] by auto
      then have "filter P ys = []" "filter (\<lambda>a. \<not> P a) ys = ys"
        by (auto simp: filter_empty_conv filter_id_conv)
      with False show ?thesis by simp
    qed (use Cons in auto)
  qed simp
  then show ?thesis using sort_by_sorted by blast
qed

end

section \<open>Ordered maps\<close>

text \<open>A \<open>BTreeMap\<close>: an association list in the order of its keys.\<close>

fun bt_insert :: "'k::linorder \<Rightarrow> 'v \<Rightarrow> ('k, 'v) hmap \<Rightarrow> ('k, 'v) hmap" where
  "bt_insert k v [] = [(k, v)]"
| "bt_insert k v ((k', v') # m) =
     (if k < k' then (k, v) # (k', v') # m
      else if k = k' then (k, v) # m
      else (k', v') # bt_insert k v m)"

definition bt_wf :: "('k::linorder, 'v) hmap \<Rightarrow> bool" where
  "bt_wf m \<longleftrightarrow> sorted_wrt (<) (map fst m)"

lemma bt_wf_hm_wf: "bt_wf m \<Longrightarrow> hm_wf m"
  unfolding bt_wf_def hm_wf_def using strict_sorted_iff by blast

lemma bt_wf_empty [simp]: "bt_wf []"
  by (simp add: bt_wf_def)

lemma bt_insert_keys: "fst ` set (bt_insert k v m) = insert k (fst ` set m)"
  by (induction k v m rule: bt_insert.induct) auto

lemma bt_get_insert [simp]:
  "bt_wf m \<Longrightarrow> hm_get (bt_insert k v m) k' = (if k' = k then Some v else hm_get m k')"
  by (induction k v m rule: bt_insert.induct) (auto simp: hm_get_def bt_wf_def)

lemma bt_wf_insert [simp]: "bt_wf m \<Longrightarrow> bt_wf (bt_insert k v m)"
proof (induction k v m rule: bt_insert.induct)
  case (2 k v k' v' m)
  have "\<forall>x \<in> fst ` set (bt_insert k v m). k' < x" if "k' < k"
    using "2.prems" that by (auto simp: bt_insert_keys bt_wf_def)
  then show ?case using 2 by (auto simp: bt_wf_def)
qed (simp add: bt_wf_def)

lemma bt_wf_retain [simp]: "bt_wf m \<Longrightarrow> bt_wf (hm_retain P m)"
  unfolding bt_wf_def hm_retain_def by (induction m) auto

lemma hm_remove_filter: "hm_remove k m = filter (\<lambda>p. fst p \<noteq> k) m"
  unfolding hm_remove_def by (induction m) auto

lemma bt_wf_remove [simp]: "bt_wf m \<Longrightarrow> bt_wf (hm_remove k m)"
  unfolding hm_remove_filter bt_wf_def by (induction m) auto

lemma bt_length_insert:
  "bt_wf m \<Longrightarrow>
    length (bt_insert k v m) = (if k \<in> fst ` set m then length m else Suc (length m))"
  by (induction k v m rule: bt_insert.induct) (force simp: bt_wf_def)+

interpretation bt: keyed_store hm_get bt_insert hm_remove hm_retain bt_wf
  by unfold_locales (auto simp: fun_eq_iff hm_get_retain bt_wf_hm_wf)

text \<open>Removing a list of keys one after the other.\<close>

definition remove_keys :: "'k list \<Rightarrow> ('k, 'v) hmap \<Rightarrow> ('k, 'v) hmap" where
  "remove_keys ks m = fold hm_remove ks m"

lemma remove_keys_filter: "remove_keys ks m = filter (\<lambda>p. fst p \<notin> set ks) m"
  unfolding remove_keys_def
  by (induction ks arbitrary: m) (auto simp: hm_remove_filter intro: filter_cong)

lemma remove_keys_retain: "remove_keys ks m = hm_retain (\<lambda>k _. k \<notin> set ks) m"
  unfolding remove_keys_filter hm_retain_def by (rule filter_cong) auto

lemma length_remove_keys:
  assumes "hm_wf m" "distinct ks" "set ks \<subseteq> fst ` set m"
  shows "length (remove_keys ks m) = length m - length ks"
proof -
  have keys: "map fst (remove_keys ks m) = filter (\<lambda>k. k \<notin> set ks) (map fst m)"
    unfolding remove_keys_filter by (induction m) auto
  have "length (remove_keys ks m) = length (map fst (remove_keys ks m))" by simp
  also have "\<dots> = card (set (filter (\<lambda>k. k \<notin> set ks) (map fst m)))"
    unfolding keys using assms(1) unfolding hm_wf_def
    by (intro distinct_card [symmetric] distinct_filter)
  also have "\<dots> = card (set (map fst m) - set ks)"
    by (rule arg_cong [of _ _ card]) auto
  also have "\<dots> = card (set (map fst m)) - card (set ks)"
    using assms(3) by (intro card_Diff_subset) auto
  also have "\<dots> = length (map fst m) - length ks"
    using assms(1,2) by (simp only: hm_wf_def distinct_card)
  also have "\<dots> = length m - length ks" by simp
  finally show ?thesis .
qed

end
