(* ===== verification/Fill_Scheduler.thy ===== *)
theory Fill_Scheduler
  imports Prelude
begin

text \<open>
  The HLS fill scheduler (\<open>hls_fill_scheduler.rs\<close>): two queues of cache-fill jobs, the job the
  worker runs now, and one preemption token per job. Every public method takes the mutex once
  (the two waiting methods once per turn of their loop), so a method is one atomic function on
  the state and the behaviour of the scheduler is the set of all sequences of these functions.
  The waiting methods are given by the critical section of one turn; the notifications between
  turns only decide when the next turn happens, and are not part of the state.

  The shared flags of a token (\<open>Arc<AtomicBool>\<close>) are cells of a heap \<open>fs_tokens\<close>, and a job holds
  the address of its cell, so that a clone of a job sees the flags the scheduler sets.
\<close>

section \<open>State\<close>

datatype hls_fill_priority = FillForeground | FillDemoted

datatype failure_mode = KeepPlayable | FailRestoredTask

record preemption_token =
  tk_preempted :: bool
  tk_cancelled :: bool

text \<open>The scheduler reads only the \<open>id\<close> of a playback session; the rest is carried along.\<close>

record 'p fill_session =
  fsn_id :: string
  fsn_rest :: 'p

record 'p fill_job =
  fj_task_id :: string
  fj_session :: "'p fill_session"
  fj_failure_mode :: failure_mode
  fj_priority :: hls_fill_priority
  fj_token :: nat
  fj_sequence :: nat

record 'p fill_scheduler =
  fs_foreground :: "'p fill_job list"
  fs_demoted :: "'p fill_job list"
  fs_current :: "'p fill_job option"
  fs_worker_started :: bool
  fs_closed :: bool
  fs_next_sequence :: nat
  fs_tokens :: "preemption_token list"

abbreviation fj_sid :: "'p fill_job \<Rightarrow> string" where
  "fj_sid j \<equiv> fsn_id (fj_session j)"

definition token_default :: preemption_token where
  "token_default = \<lparr>tk_preempted = False, tk_cancelled = False\<rparr>"

definition scheduler_default :: "'p fill_scheduler" where
  "scheduler_default = \<lparr>fs_foreground = [], fs_demoted = [], fs_current = None,
     fs_worker_started = False, fs_closed = False, fs_next_sequence = 0, fs_tokens = []\<rparr>"

section \<open>Tokens\<close>

definition token_preempt :: "nat \<Rightarrow> 'p fill_scheduler \<Rightarrow> 'p fill_scheduler" where
  "token_preempt a s = s\<lparr>fs_tokens := (fs_tokens s)[a := (fs_tokens s ! a)\<lparr>tk_preempted := True\<rparr>]\<rparr>"

definition token_is_preempted :: "'p fill_scheduler \<Rightarrow> nat \<Rightarrow> bool" where
  "token_is_preempted s a = tk_preempted (fs_tokens s ! a)"

definition token_cancel :: "nat \<Rightarrow> 'p fill_scheduler \<Rightarrow> 'p fill_scheduler" where
  "token_cancel a s = s\<lparr>fs_tokens := (fs_tokens s)[a := (fs_tokens s ! a)\<lparr>tk_cancelled := True\<rparr>]\<rparr>"

definition token_is_cancelled :: "'p fill_scheduler \<Rightarrow> nat \<Rightarrow> bool" where
  "token_is_cancelled s a = tk_cancelled (fs_tokens s ! a)"

section \<open>Operations of the inner state\<close>

definition create_job ::
  "string \<Rightarrow> 'p fill_session \<Rightarrow> failure_mode \<Rightarrow> hls_fill_priority \<Rightarrow> 'p fill_scheduler
     \<Rightarrow> 'p fill_job \<times> 'p fill_scheduler" where
  "create_job task_id session mode prio s =
     (let n = saturating_add (fs_next_sequence s) 1 in
      (\<lparr>fj_task_id = task_id, fj_session = session, fj_failure_mode = mode, fj_priority = prio,
        fj_token = length (fs_tokens s), fj_sequence = n\<rparr>,
       s\<lparr>fs_next_sequence := n, fs_tokens := fs_tokens s @ [token_default]\<rparr>))"

definition refresh_job ::
  "'p fill_job \<Rightarrow> hls_fill_priority \<Rightarrow> 'p fill_scheduler \<Rightarrow> 'p fill_job \<times> 'p fill_scheduler" where
  "refresh_job job prio s =
     (let n = saturating_add (fs_next_sequence s) 1 in
      (job\<lparr>fj_priority := prio, fj_token := length (fs_tokens s), fj_sequence := n\<rparr>,
       s\<lparr>fs_next_sequence := n, fs_tokens := fs_tokens s @ [token_default]\<rparr>))"

definition take_queued_session ::
  "string \<Rightarrow> 'p fill_scheduler \<Rightarrow> 'p fill_job option \<times> 'p fill_scheduler" where
  "take_queued_session sid s =
     (case take_first (\<lambda>j. fj_sid j = sid) (fs_foreground s) of
        Some (job, rest) \<Rightarrow> (Some job, s\<lparr>fs_foreground := rest\<rparr>)
      | None \<Rightarrow>
         (case take_first (\<lambda>j. fj_sid j = sid) (fs_demoted s) of
            Some (job, rest) \<Rightarrow> (Some job, s\<lparr>fs_demoted := rest\<rparr>)
          | None \<Rightarrow> (None, s)))"

definition has_queued_session :: "'p fill_scheduler \<Rightarrow> string \<Rightarrow> bool" where
  "has_queued_session s sid = list_ex (\<lambda>j. fj_sid j = sid) (fs_foreground s @ fs_demoted s)"

section \<open>Operations of the scheduler\<close>

definition enqueue ::
  "string \<Rightarrow> 'p fill_session \<Rightarrow> failure_mode \<Rightarrow> hls_fill_priority \<Rightarrow> bool \<Rightarrow> 'p fill_scheduler
     \<Rightarrow> bool \<times> 'p fill_scheduler" where
  "enqueue task_id session mode prio preempt_current s =
     (if fs_closed s then (False, s)
      else
        let s1 = (case fs_current s of
                    Some cur \<Rightarrow>
                      if preempt_current \<and> fj_sid cur \<noteq> fsn_id session
                      then token_preempt (fj_token cur) s else s
                  | None \<Rightarrow> s);
            (job, s2) = create_job task_id session mode prio s1;
            s3 = (case prio of
                    FillForeground \<Rightarrow> s2\<lparr>fs_foreground := fs_foreground s2 @ [job]\<rparr>
                  | FillDemoted \<Rightarrow> s2\<lparr>fs_demoted := fs_demoted s2 @ [job]\<rparr>)
        in (\<not> fs_worker_started s3, s3\<lparr>fs_worker_started := True\<rparr>))"

definition enqueue_foreground ::
  "string \<Rightarrow> 'p fill_session \<Rightarrow> failure_mode \<Rightarrow> 'p fill_scheduler \<Rightarrow> bool \<times> 'p fill_scheduler" where
  "enqueue_foreground task_id session mode s = enqueue task_id session mode FillForeground True s"

definition enqueue_demoted ::
  "string \<Rightarrow> 'p fill_session \<Rightarrow> failure_mode \<Rightarrow> 'p fill_scheduler \<Rightarrow> bool \<times> 'p fill_scheduler" where
  "enqueue_demoted task_id session mode s = enqueue task_id session mode FillDemoted False s"

text \<open>
  One turn of \<open>next_job_until_shutdown\<close>: the loop returns \<open>None\<close>, returns a job, or waits for a
  notification and looks again.
\<close>

datatype 'p next_job_poll = NextShutdown | NextJob "'p fill_job" | NextWait

definition next_job_until_shutdown :: "'p fill_scheduler \<Rightarrow> 'p next_job_poll \<times> 'p fill_scheduler" where
  "next_job_until_shutdown s =
     (if fs_closed s then (NextShutdown, s)
      else if fs_foreground s \<noteq> [] then
        let job = last (fs_foreground s) in
        (NextJob job, s\<lparr>fs_foreground := butlast (fs_foreground s), fs_current := Some job\<rparr>)
      else (case fs_demoted s of
              job # rest \<Rightarrow> (NextJob job, s\<lparr>fs_demoted := rest, fs_current := Some job\<rparr>)
            | [] \<Rightarrow> (NextWait, s)))"

definition finish_current :: "'p fill_job \<Rightarrow> bool \<Rightarrow> 'p fill_scheduler \<Rightarrow> 'p fill_scheduler" where
  "finish_current job requeue_preempted s =
     (case fs_current s of
        None \<Rightarrow> s
      | Some cur \<Rightarrow>
          if \<not> (fj_sequence cur = fj_sequence job \<and> fj_task_id cur = fj_task_id job) then s
          else
            let s1 = s\<lparr>fs_current := None\<rparr>;
                should_requeue = (requeue_preempted \<and> \<not> token_is_cancelled s1 (fj_token cur)
                                  \<and> \<not> fs_closed s1 \<and> \<not> has_queued_session s1 (fj_sid cur))
            in if should_requeue
               then let (j, s2) = refresh_job cur FillDemoted s1
                    in s2\<lparr>fs_demoted := fs_demoted s2 @ [j]\<rparr>
               else s1)"

definition is_idle :: "'p fill_scheduler \<Rightarrow> bool" where
  "is_idle s = (fs_current s = None \<and> fs_foreground s = [] \<and> fs_demoted s = [])"

definition owns_session :: "'p fill_scheduler \<Rightarrow> string \<Rightarrow> bool" where
  "owns_session s sid =
     ((case fs_current s of Some cur \<Rightarrow> fj_sid cur = sid | None \<Rightarrow> False)
      \<or> has_queued_session s sid)"

text \<open>
  The three cancelling critical sections drop the matching jobs of both queues and cancel the
  current job when it matches: \<open>cancel_matching\<close> is the text they share, and also tells whether
  the current job matched.
\<close>

definition cancel_matching ::
  "('p fill_job \<Rightarrow> bool) \<Rightarrow> 'p fill_scheduler \<Rightarrow> bool \<times> 'p fill_scheduler" where
  "cancel_matching P s =
     (let s1 = s\<lparr>fs_foreground := filter (\<lambda>j. \<not> P j) (fs_foreground s),
                 fs_demoted := filter (\<lambda>j. \<not> P j) (fs_demoted s)\<rparr>
      in case fs_current s1 of
           Some cur \<Rightarrow> if P cur then (True, token_cancel (fj_token cur) s1) else (False, s1)
         | None \<Rightarrow> (False, s1))"

definition cancel_task :: "string \<Rightarrow> 'p fill_scheduler \<Rightarrow> 'p fill_scheduler" where
  "cancel_task task_id s = snd (cancel_matching (\<lambda>j. fj_task_id j = task_id) s)"

definition cancel_sessions :: "string set \<Rightarrow> 'p fill_scheduler \<Rightarrow> bool \<times> 'p fill_scheduler" where
  "cancel_sessions sids s =
     (let (matching_current, s1) = cancel_matching (\<lambda>j. fj_sid j \<in> sids) s
      in (\<not> matching_current \<or> \<not> fs_worker_started s1, s1))"

text \<open>One turn of the waiting variants; the flag is \<open>should_wait\<close>.\<close>

definition cancel_task_and_wait :: "string \<Rightarrow> 'p fill_scheduler \<Rightarrow> bool \<times> 'p fill_scheduler" where
  "cancel_task_and_wait task_id s =
     (let (matching_current, s1) = cancel_matching (\<lambda>j. fj_task_id j = task_id) s
      in (matching_current \<and> fs_worker_started s1, s1))"

definition cancel_sessions_and_wait ::
  "string set \<Rightarrow> 'p fill_scheduler \<Rightarrow> bool \<times> 'p fill_scheduler" where
  "cancel_sessions_and_wait sids s =
     (let (matching_current, s1) = cancel_matching (\<lambda>j. fj_sid j \<in> sids) s
      in (matching_current \<and> fs_worker_started s1, s1))"

text \<open>The first critical section of \<open>shutdown_and_wait_for_worker\<close> and the test of its loop.\<close>

definition shutdown_scheduler :: "'p fill_scheduler \<Rightarrow> 'p fill_scheduler" where
  "shutdown_scheduler s =
     (let s1 = s\<lparr>fs_closed := True, fs_foreground := [], fs_demoted := []\<rparr>
      in case fs_current s1 of
           Some cur \<Rightarrow> token_preempt (fj_token cur) s1
         | None \<Rightarrow> s1)"

definition shutdown_must_wait :: "'p fill_scheduler \<Rightarrow> bool" where
  "shutdown_must_wait s = fs_worker_started s"

definition mark_worker_stopped :: "'p fill_scheduler \<Rightarrow> 'p fill_scheduler" where
  "mark_worker_stopped s = s\<lparr>fs_worker_started := False\<rparr>"

definition diagnostic_counts :: "'p fill_scheduler \<Rightarrow> bool \<times> nat \<times> nat" where
  "diagnostic_counts s =
     (fs_current s \<noteq> None, length (fs_foreground s), length (fs_demoted s))"

definition promote_session_to_foreground ::
  "string \<Rightarrow> bool \<Rightarrow> 'p fill_scheduler \<Rightarrow> bool \<times> 'p fill_scheduler" where
  "promote_session_to_foreground sid restart_current s =
     (if fs_closed s then (False, s)
      else
        let push_refreshed = (\<lambda>job s.
              let (j, s') = refresh_job job FillForeground s
              in s'\<lparr>fs_foreground := fs_foreground s' @ [j]\<rparr>);
            promote_queued =
              (case take_queued_session sid s of
                 (None, s1) \<Rightarrow> (False, s1)
               | (Some job, s1) \<Rightarrow>
                   let s2 = (case fs_current s1 of
                               Some cur \<Rightarrow> token_preempt (fj_token cur) s1 | None \<Rightarrow> s1)
                   in (True, push_refreshed job s2))
        in case fs_current s of
             None \<Rightarrow> promote_queued
           | Some cur \<Rightarrow>
               if fj_sid cur \<noteq> sid then promote_queued
               else if \<not> restart_current \<and> \<not> token_is_preempted s (fj_token cur) then (False, s)
               else
                 let s1 = token_preempt (fj_token cur) s
                 in case take_queued_session sid s1 of
                      (None, s2) \<Rightarrow> (True, push_refreshed cur s2)
                    | (Some job, s2) \<Rightarrow> (True, push_refreshed job s2))"

section \<open>Sequences of operations\<close>

text \<open>
  Any number of tasks call the public methods in any order. The worker holds a clone of the job
  it received and calls \<open>finish_current\<close> with it; other tasks may hold older clones, so the
  argument of \<open>OpFinish\<close> is any job.
\<close>

datatype 'p fill_op =
    OpEnqueueForeground string "'p fill_session" failure_mode
  | OpEnqueueDemoted string "'p fill_session" failure_mode
  | OpNextJob
  | OpFinish "'p fill_job" bool
  | OpCancelTask string
  | OpCancelSessions "string set"
  | OpCancelTaskAndWait string
  | OpCancelSessionsAndWait "string set"
  | OpShutdown
  | OpPromote string bool
  | OpWorkerStopped

fun fill_step :: "'p fill_scheduler \<Rightarrow> 'p fill_op \<Rightarrow> 'p fill_scheduler" where
  "fill_step s (OpEnqueueForeground t x m) = snd (enqueue_foreground t x m s)"
| "fill_step s (OpEnqueueDemoted t x m) = snd (enqueue_demoted t x m s)"
| "fill_step s OpNextJob = snd (next_job_until_shutdown s)"
| "fill_step s (OpFinish j r) = finish_current j r s"
| "fill_step s (OpCancelTask t) = cancel_task t s"
| "fill_step s (OpCancelSessions xs) = snd (cancel_sessions xs s)"
| "fill_step s (OpCancelTaskAndWait t) = snd (cancel_task_and_wait t s)"
| "fill_step s (OpCancelSessionsAndWait xs) = snd (cancel_sessions_and_wait xs s)"
| "fill_step s OpShutdown = shutdown_scheduler s"
| "fill_step s (OpPromote sid r) = snd (promote_session_to_foreground sid r s)"
| "fill_step s OpWorkerStopped = mark_worker_stopped s"

definition fill_run :: "'p fill_scheduler \<Rightarrow> 'p fill_op list \<Rightarrow> 'p fill_scheduler" where
  "fill_run s ops = foldl fill_step s ops"

section \<open>Invariant\<close>

definition queued_jobs :: "'p fill_scheduler \<Rightarrow> 'p fill_job list" where
  "queued_jobs s = fs_foreground s @ fs_demoted s"

definition fs_jobs :: "'p fill_scheduler \<Rightarrow> 'p fill_job list" where
  "fs_jobs s = queued_jobs s @ (case fs_current s of None \<Rightarrow> [] | Some j \<Rightarrow> [j])"

text \<open>
  \<open>token_inv\<close>: jobs have allocated, pairwise different tokens, and those of queued jobs are
  untouched. \<open>queue_inv\<close>: the queue a job is in is its priority and a closed scheduler has no
  queued job. \<open>sequence_inv\<close>: numbers never exceed the counter, each queue is ordered by
  them, and as long as the counter has not saturated no two jobs share one.
\<close>

definition token_inv :: "'p fill_scheduler \<Rightarrow> bool" where
  "token_inv s \<longleftrightarrow>
     (\<forall>j \<in> set (fs_jobs s). fj_token j < length (fs_tokens s))
     \<and> distinct (map fj_token (fs_jobs s))
     \<and> (\<forall>j \<in> set (queued_jobs s). fs_tokens s ! fj_token j = token_default)"

definition queue_inv :: "'p fill_scheduler \<Rightarrow> bool" where
  "queue_inv s \<longleftrightarrow>
     (\<forall>j \<in> set (fs_foreground s). fj_priority j = FillForeground)
     \<and> (\<forall>j \<in> set (fs_demoted s). fj_priority j = FillDemoted)
     \<and> (fs_closed s \<longrightarrow> fs_foreground s = [] \<and> fs_demoted s = [])"

definition sequence_inv :: "'p fill_scheduler \<Rightarrow> bool" where
  "sequence_inv s \<longleftrightarrow>
     fs_next_sequence s \<le> u64_max
     \<and> (\<forall>j \<in> set (fs_jobs s). fj_sequence j \<le> fs_next_sequence s)
     \<and> sorted (map fj_sequence (fs_foreground s))
     \<and> sorted (map fj_sequence (fs_demoted s))
     \<and> (fs_next_sequence s < u64_max \<longrightarrow> distinct (map fj_sequence (fs_jobs s)))"

definition fs_inv :: "'p fill_scheduler \<Rightarrow> bool" where
  "fs_inv s \<longleftrightarrow> token_inv s \<and> queue_inv s \<and> sequence_inv s"

lemmas token_op_defs = token_preempt_def token_cancel_def
lemmas fs_inv_defs = fs_inv_def token_inv_def queue_inv_def sequence_inv_def
lemmas fs_list_defs = fs_jobs_def queued_jobs_def

subsection \<open>Building blocks of preservation\<close>

lemma create_job_refresh:
  "create_job t x m p s =
     refresh_job \<lparr>fj_task_id = t, fj_session = x, fj_failure_mode = m, fj_priority = p,
                  fj_token = 0, fj_sequence = 0\<rparr> p s"
  by (simp add: create_job_def refresh_job_def Let_def)

lemma fs_inv_shrink:
  assumes inv: "fs_inv s"
    and jobs: "mset (fs_jobs s') \<subseteq># mset (fs_jobs s)"
    and fg: "set (fs_foreground s') \<subseteq> set (fs_foreground s)"
    and dm: "set (fs_demoted s') \<subseteq> set (fs_demoted s)"
    and sfg: "sorted (map fj_sequence (fs_foreground s'))"
    and sdm: "sorted (map fj_sequence (fs_demoted s'))"
    and same: "fs_tokens s' = fs_tokens s" "fs_next_sequence s' = fs_next_sequence s"
    and closed: "fs_closed s' \<Longrightarrow> fs_closed s \<or> fs_foreground s' = [] \<and> fs_demoted s' = []"
  shows "fs_inv s'"
proof -
  have sub: "set (fs_jobs s') \<subseteq> set (fs_jobs s)"
    using set_mset_mono [OF jobs] by simp
  have queued: "set (queued_jobs s') \<subseteq> set (queued_jobs s)"
    using fg dm by (auto simp: queued_jobs_def)
  have "token_inv s'"
    using inv sub queued distinct_map_mset_subset [OF jobs] same
    by (auto simp: fs_inv_def token_inv_def)
  moreover have "queue_inv s'"
    using inv fg dm closed by (auto simp: fs_inv_def queue_inv_def)
  moreover have "sequence_inv s'"
    using inv sub distinct_map_mset_subset [OF jobs] same sfg sdm
    by (auto simp: fs_inv_def sequence_inv_def)
  ultimately show ?thesis by (simp add: fs_inv_def)
qed

lemma fs_inv_touch_current:
  assumes inv: "fs_inv s" and cur: "fs_current s = Some cur"
  shows "fs_inv (s\<lparr>fs_tokens := (fs_tokens s)[fj_token cur := x]\<rparr>)"
proof -
  let ?s' = "s\<lparr>fs_tokens := (fs_tokens s)[fj_token cur := x]\<rparr>"
  have "fj_token cur \<noteq> fj_token j" if "j \<in> set (queued_jobs s)" for j
    using inv cur that by (auto simp: fs_inv_def token_inv_def fs_jobs_def)
  then have "token_inv ?s'"
    using inv by (simp add: fs_inv_def token_inv_def fs_list_defs)
  moreover have "queue_inv ?s' \<and> sequence_inv ?s'"
    using inv by (simp add: fs_inv_def queue_inv_def sequence_inv_def fs_list_defs)
  ultimately show ?thesis by (simp add: fs_inv_def)
qed

lemma fs_inv_preempt:
  "fs_inv s \<Longrightarrow> fs_current s = Some cur \<Longrightarrow> fs_inv (token_preempt (fj_token cur) s)"
  unfolding token_preempt_def by (rule fs_inv_touch_current)

lemma fs_inv_cancel:
  "fs_inv s \<Longrightarrow> fs_current s = Some cur \<Longrightarrow> fs_inv (token_cancel (fj_token cur) s)"
  unfolding token_cancel_def by (rule fs_inv_touch_current)

lemma fs_inv_worker_started [simp]:
  "fs_inv (s\<lparr>fs_worker_started := b\<rparr>) = fs_inv s"
  by (simp add: fs_inv_defs fs_list_defs)

definition push_job :: "hls_fill_priority \<Rightarrow> 'p fill_job \<Rightarrow> 'p fill_scheduler \<Rightarrow> 'p fill_scheduler" where
  "push_job p j s = (case p of FillForeground \<Rightarrow> s\<lparr>fs_foreground := fs_foreground s @ [j]\<rparr>
                              | FillDemoted \<Rightarrow> s\<lparr>fs_demoted := fs_demoted s @ [j]\<rparr>)"

lemma push_job_mset:
  "mset (fs_jobs (push_job p j s)) = add_mset j (mset (fs_jobs s))"
  by (cases p) (simp_all add: push_job_def fs_list_defs)

lemma push_job_set:
  "set (fs_jobs (push_job p j s)) = insert j (set (fs_jobs s))"
  "set (queued_jobs (push_job p j s)) = insert j (set (queued_jobs s))"
  by (cases p; auto simp add: push_job_def fs_list_defs)+

lemma push_job_sel [simp]:
  "fs_tokens (push_job p j s) = fs_tokens s"
  "fs_next_sequence (push_job p j s) = fs_next_sequence s"
  "fs_current (push_job p j s) = fs_current s"
  "fs_closed (push_job p j s) = fs_closed s"
  "fs_worker_started (push_job p j s) = fs_worker_started s"
  by (cases p; simp add: push_job_def)+

lemma push_job_distinct:
  "distinct (map f (fs_jobs (push_job p j s))) \<longleftrightarrow>
     f j \<notin> f ` set (fs_jobs s) \<and> distinct (map f (fs_jobs s))"
proof -
  have "mset (map f (fs_jobs (push_job p j s))) = mset (map f (j # fs_jobs s))"
    by (metis mset_map mset.simps(2) push_job_mset)
  then show ?thesis
    using mset_eq_imp_distinct_iff by fastforce
qed

lemma fs_inv_push:
  assumes inv: "fs_inv s" and open': "\<not> fs_closed s" and r: "refresh_job job p s = (j, s1)"
  shows "fs_inv (push_job p j s1)"
proof -
  have s1: "s1 = s\<lparr>fs_next_sequence := fj_sequence j, fs_tokens := fs_tokens s @ [token_default]\<rparr>"
    and j: "fj_priority j = p" "fj_token j = length (fs_tokens s)"
      "fj_sequence j = saturating_add (fs_next_sequence s) 1"
    using r by (auto simp: refresh_job_def Let_def)
  have lists: "fs_jobs s1 = fs_jobs s" "queued_jobs s1 = queued_jobs s"
    by (simp_all add: s1 fs_list_defs)
  have seq: "fs_next_sequence s \<le> fj_sequence j" "fj_sequence j \<le> u64_max"
    "fj_sequence j < u64_max \<Longrightarrow> fs_next_sequence s < fj_sequence j"
    using inv by (auto simp: j saturating_add_def fs_inv_def sequence_inv_def)
  have old: "fj_token x < length (fs_tokens s)" if "x \<in> set (fs_jobs s)" for x
    using inv that by (simp add: fs_inv_def token_inv_def)
  have queued: "set (queued_jobs s) \<subseteq> set (fs_jobs s)"
    by (simp add: fs_jobs_def)
  have tok: "token_inv (push_job p j s1)"
    using inv old queued unfolding token_inv_def push_job_distinct push_job_set lists
    by (fastforce simp: s1 j fs_inv_def token_inv_def nth_append less_Suc_eq)
  have q: "queue_inv (push_job p j s1)"
    using inv open' by (cases p) (auto simp: push_job_def s1 j fs_inv_def queue_inv_def)
  have bound: "fj_sequence x \<le> fs_next_sequence s" if "x \<in> set (fs_jobs s)" for x
    using inv that by (auto simp: fs_inv_def sequence_inv_def)
  have sorted: "sorted (map fj_sequence (fs_foreground (push_job p j s1)))"
    "sorted (map fj_sequence (fs_demoted (push_job p j s1)))"
    using inv bound seq(1)
    by (cases p; fastforce simp: push_job_def s1 fs_inv_def sequence_inv_def sorted_append fs_list_defs)+
  have "sequence_inv (push_job p j s1)"
    using inv bound seq sorted unfolding sequence_inv_def push_job_distinct push_job_set lists
    by (fastforce simp: s1 fs_inv_def sequence_inv_def)
  with tok q show ?thesis by (simp add: fs_inv_def)
qed

subsection \<open>Every operation keeps the invariant\<close>

lemma fs_inv_default: "fs_inv scheduler_default"
  by (simp add: scheduler_default_def fs_inv_defs fs_list_defs)

lemma enqueue_open:
  assumes "\<not> fs_closed s"
  obtains s1 j s2 where
    "s1 = (case fs_current s of
             Some cur \<Rightarrow> if pc \<and> fj_sid cur \<noteq> fsn_id x then token_preempt (fj_token cur) s else s
           | None \<Rightarrow> s)"
    "create_job t x m p s1 = (j, s2)"
    "enqueue t x m p pc s = (\<not> fs_worker_started s2, (push_job p j s2)\<lparr>fs_worker_started := True\<rparr>)"
proof -
  define s1 where "s1 = (case fs_current s of
             Some cur \<Rightarrow> if pc \<and> fj_sid cur \<noteq> fsn_id x then token_preempt (fj_token cur) s else s
           | None \<Rightarrow> s)"
  obtain j s2 where c: "create_job t x m p s1 = (j, s2)"
    by fastforce
  have "enqueue t x m p pc s = (\<not> fs_worker_started s2, (push_job p j s2)\<lparr>fs_worker_started := True\<rparr>)"
    using assms c by (cases p) (simp_all add: enqueue_def s1_def [symmetric] push_job_def)
  with s1_def c show ?thesis by (rule that)
qed

lemma fs_closed_touch [simp]:
  "fs_closed (token_preempt a s) = fs_closed s" "fs_closed (token_cancel a s) = fs_closed s"
  "fs_current (token_preempt a s) = fs_current s" "fs_current (token_cancel a s) = fs_current s"
  "fs_foreground (token_preempt a s) = fs_foreground s" "fs_foreground (token_cancel a s) = fs_foreground s"
  "fs_demoted (token_preempt a s) = fs_demoted s" "fs_demoted (token_cancel a s) = fs_demoted s"
  "fs_next_sequence (token_preempt a s) = fs_next_sequence s"
  "fs_next_sequence (token_cancel a s) = fs_next_sequence s"
  "fs_worker_started (token_preempt a s) = fs_worker_started s"
  "fs_worker_started (token_cancel a s) = fs_worker_started s"
  "length (fs_tokens (token_preempt a s)) = length (fs_tokens s)"
  "length (fs_tokens (token_cancel a s)) = length (fs_tokens s)"
  by (simp_all add: token_op_defs)

lemma fs_inv_enqueue:
  assumes inv: "fs_inv s"
  shows "fs_inv (snd (enqueue t x m p pc s))"
proof (cases "fs_closed s")
  case True
  with inv show ?thesis by (simp add: enqueue_def)
next
  case False
  then obtain s1 j s2 where s1: "s1 = (case fs_current s of
         Some cur \<Rightarrow> if pc \<and> fj_sid cur \<noteq> fsn_id x then token_preempt (fj_token cur) s else s
       | None \<Rightarrow> s)"
    and c: "create_job t x m p s1 = (j, s2)"
    and e: "enqueue t x m p pc s = (\<not> fs_worker_started s2, (push_job p j s2)\<lparr>fs_worker_started := True\<rparr>)"
    by (rule enqueue_open)
  have "fs_inv s1" "\<not> fs_closed s1"
    using inv False by (auto simp: s1 fs_inv_preempt split: option.split)
  then have "fs_inv (push_job p j s2)"
    using c unfolding create_job_refresh by (rule fs_inv_push)
  with e show ?thesis by simp
qed

lemma sorted_tl_map: "sorted (map f (x # xs)) \<Longrightarrow> sorted (map f xs)"
  by simp

lemma fs_inv_sorted:
  "fs_inv s \<Longrightarrow> sorted (map fj_sequence (fs_foreground s)) \<and> sorted (map fj_sequence (fs_demoted s))"
  by (simp add: fs_inv_def sequence_inv_def)

lemma next_job_foreground:
  assumes "\<not> fs_closed s" "fs_foreground s = js @ [j]"
  shows "next_job_until_shutdown s = (NextJob j, s\<lparr>fs_foreground := js, fs_current := Some j\<rparr>)"
  using assms by (simp add: next_job_until_shutdown_def)

lemma next_job_demoted:
  assumes "\<not> fs_closed s" "fs_foreground s = []" "fs_demoted s = j # js"
  shows "next_job_until_shutdown s = (NextJob j, s\<lparr>fs_demoted := js, fs_current := Some j\<rparr>)"
  using assms by (simp add: next_job_until_shutdown_def)

lemma fs_inv_next_job:
  assumes inv: "fs_inv s"
  shows "fs_inv (snd (next_job_until_shutdown s))"
proof -
  consider "fs_closed s" | js j where "\<not> fs_closed s" "fs_foreground s = js @ [j]"
    | j js where "\<not> fs_closed s" "fs_foreground s = []" "fs_demoted s = j # js"
    | "\<not> fs_closed s" "fs_foreground s = []" "fs_demoted s = []"
    by (metis list.exhaust rev_exhaust)
  then show ?thesis
  proof cases
    case 1
    with inv show ?thesis by (simp add: next_job_until_shutdown_def)
  next
    case (2 js j)
    then show ?thesis
      unfolding next_job_foreground [OF 2] using fs_inv_sorted [OF inv]
      by (auto intro!: fs_inv_shrink [OF inv] simp: fs_list_defs sorted_append split: option.split)
  next
    case (3 j js)
    then show ?thesis
      unfolding next_job_demoted [OF 3] using fs_inv_sorted [OF inv]
      by (auto intro!: fs_inv_shrink [OF inv] simp: fs_list_defs split: option.split)
  next
    case 4
    with inv show ?thesis by (simp add: next_job_until_shutdown_def)
  qed
qed

lemma fs_inv_drop_current: "fs_inv s \<Longrightarrow> fs_inv (s\<lparr>fs_current := None\<rparr>)"
  using fs_inv_sorted [of s]
  by (auto elim!: fs_inv_shrink simp: fs_list_defs)

lemma fs_inv_finish_current:
  assumes inv: "fs_inv s"
  shows "fs_inv (finish_current j r s)"
proof (cases "fs_current s")
  case None
  with inv show ?thesis by (simp add: finish_current_def)
next
  case (Some cur)
  obtain j' s2 where r: "refresh_job cur FillDemoted (s\<lparr>fs_current := None\<rparr>) = (j', s2)"
    by fastforce
  have "fs_inv (push_job FillDemoted j' s2)" if "\<not> fs_closed s"
    using that by (intro fs_inv_push [OF fs_inv_drop_current [OF inv] _ r]) simp
  with Some inv r show ?thesis
    by (auto simp: finish_current_def Let_def push_job_def fs_inv_drop_current)
qed

lemma fs_inv_cancel_matching:
  assumes inv: "fs_inv s"
  shows "fs_inv (snd (cancel_matching P s))"
proof -
  define s1 where "s1 = s\<lparr>fs_foreground := filter (\<lambda>j. \<not> P j) (fs_foreground s),
                          fs_demoted := filter (\<lambda>j. \<not> P j) (fs_demoted s)\<rparr>"
  have "fs_inv s1"
  proof (rule fs_inv_shrink [OF inv])
    show "mset (fs_jobs s1) \<subseteq># mset (fs_jobs s)"
      by (auto simp: s1_def fs_list_defs intro!: subset_mset.add_mono multiset_filter_subset)
  qed (use inv in \<open>auto simp: s1_def fs_inv_def sequence_inv_def queue_inv_def sorted_filter\<close>)
  then show ?thesis
    by (auto simp: cancel_matching_def s1_def [symmetric] Let_def fs_inv_cancel split: option.split)
qed

lemma fs_inv_shutdown:
  assumes inv: "fs_inv s"
  shows "fs_inv (shutdown_scheduler s)"
proof -
  define s1 where "s1 = s\<lparr>fs_closed := True, fs_foreground := [], fs_demoted := []\<rparr>"
  have "fs_inv s1"
    by (rule fs_inv_shrink [OF inv]) (simp_all add: s1_def fs_list_defs)
  then show ?thesis
    by (auto simp: shutdown_scheduler_def s1_def [symmetric] Let_def fs_inv_preempt split: option.split)
qed

lemma take_queued_session_inv:
  assumes inv: "fs_inv s" and t: "take_queued_session sid s = (r, s')"
  shows "fs_inv s' \<and> fs_current s' = fs_current s \<and> fs_closed s' = fs_closed s
         \<and> fs_tokens s' = fs_tokens s"
proof -
  have "fs_inv s'"
    using t fs_inv_sorted [OF inv] inv
    by (auto simp: take_queued_session_def fs_list_defs sorted_append
        split: option.splits prod.splits
        intro!: fs_inv_shrink [OF inv] dest: take_first_sorted dest!: take_first_SomeD)
  with t show ?thesis
    by (auto simp: take_queued_session_def split: option.splits prod.splits)
qed

definition promote_push :: "'p fill_job \<Rightarrow> 'p fill_scheduler \<Rightarrow> 'p fill_scheduler" where
  "promote_push job s = (let (j, s') = refresh_job job FillForeground s in push_job FillForeground j s')"

lemma promote_cases:
  assumes p: "promote_session_to_foreground sid r s = (b, s')"
  obtains
    (closed) "fs_closed s" "\<not> b" "s' = s"
  | (running) cur where "\<not> fs_closed s" "fs_current s = Some cur" "fj_sid cur = sid" "\<not> r"
      "\<not> token_is_preempted s (fj_token cur)" "\<not> b" "s' = s"
  | (unknown) "\<not> fs_closed s" "\<forall>cur. fs_current s = Some cur \<longrightarrow> fj_sid cur \<noteq> sid"
      "\<not> has_queued_session s sid" "\<not> b" "s' = s"
  | (restart) cur q s1 where "\<not> fs_closed s" "fs_current s = Some cur" "fj_sid cur = sid"
      "r \<or> token_is_preempted s (fj_token cur)" "b"
      "take_queued_session sid (token_preempt (fj_token cur) s) = (q, s1)"
      "s' = promote_push (case q of Some job \<Rightarrow> job | None \<Rightarrow> cur) s1"
  | (queued) job s1 where "\<not> fs_closed s" "\<forall>cur. fs_current s = Some cur \<longrightarrow> fj_sid cur \<noteq> sid"
      "take_queued_session sid s = (Some job, s1)" "b"
      "s' = promote_push job (case fs_current s1 of
                                Some cur \<Rightarrow> token_preempt (fj_token cur) s1 | None \<Rightarrow> s1)"
proof (cases "fs_closed s")
  case True
  with p show ?thesis by (auto simp: promote_session_to_foreground_def intro: closed)
next
  case False
  note op = False
  have tq: "q = None \<longleftrightarrow> \<not> has_queued_session s sid" "q = None \<Longrightarrow> s1 = s"
    if "take_queued_session sid s = (q, s1)" for q s1
    using that by (auto simp: take_queued_session_def has_queued_session_def list_ex_iff
        split: option.splits dest!: take_first_SomeD)
  show ?thesis
  proof (cases "\<exists>cur. fs_current s = Some cur \<and> fj_sid cur = sid")
    case True
    then obtain cur where cur: "fs_current s = Some cur" "fj_sid cur = sid" by blast
    obtain q s1 where q: "take_queued_session sid (token_preempt (fj_token cur) s) = (q, s1)"
      by fastforce
    show ?thesis
    proof (cases "\<not> r \<and> \<not> token_is_preempted s (fj_token cur)")
      case True
      with p op cur show ?thesis
        by (auto simp: promote_session_to_foreground_def intro!: running)
    next
      case False
      with p op cur q have "b" "s' = promote_push (case q of Some job \<Rightarrow> job | None \<Rightarrow> cur) s1"
        by (auto simp: promote_session_to_foreground_def promote_push_def push_job_def Let_def
            split: option.splits prod.splits)
      with False op cur q show ?thesis by (intro restart) auto
    qed
  next
    case False
    obtain q s1 where q: "take_queued_session sid s = (q, s1)" by fastforce
    from False have nc: "\<forall>cur. fs_current s = Some cur \<longrightarrow> fj_sid cur \<noteq> sid" by blast
    show ?thesis
    proof (cases q)
      case None
      with p op nc q tq [OF q] show ?thesis
        by (auto simp: promote_session_to_foreground_def Let_def split: option.splits intro!: unknown)
    next
      case (Some job)
      with p op nc q have "b" "s' = promote_push job (case fs_current s1 of
                                Some cur \<Rightarrow> token_preempt (fj_token cur) s1 | None \<Rightarrow> s1)"
        by (auto simp: promote_session_to_foreground_def promote_push_def push_job_def Let_def
            split: option.splits prod.splits)
      with Some op nc q show ?thesis by (intro queued) auto
    qed
  qed
qed

lemma fs_inv_promote_push:
  "fs_inv s \<Longrightarrow> \<not> fs_closed s \<Longrightarrow> fs_inv (promote_push job s)"
  by (auto simp: promote_push_def split: prod.split intro: fs_inv_push)

lemma fs_inv_promote:
  assumes inv: "fs_inv s"
  shows "fs_inv (snd (promote_session_to_foreground sid r s))"
proof -
  obtain b s' where p: "promote_session_to_foreground sid r s = (b, s')" by fastforce
  from p have "fs_inv s'"
  proof (cases rule: promote_cases)
    case (restart cur q s1)
    with take_queued_session_inv [OF fs_inv_preempt [OF inv restart(2)] restart(6)]
    show ?thesis by (simp add: fs_inv_promote_push)
  next
    case (queued job s1)
    with take_queued_session_inv [OF inv queued(3)] show ?thesis
      by (auto intro!: fs_inv_promote_push fs_inv_preempt split: option.split)
  qed (use inv in auto)
  with p show ?thesis by simp
qed

lemma fs_inv_step: "fs_inv s \<Longrightarrow> fs_inv (fill_step s op)"
  by (cases op)
    (auto simp: enqueue_foreground_def enqueue_demoted_def cancel_task_def cancel_sessions_def
      cancel_task_and_wait_def cancel_sessions_and_wait_def mark_worker_stopped_def Let_def split_beta
      fs_inv_enqueue fs_inv_next_job fs_inv_finish_current fs_inv_cancel_matching fs_inv_shutdown
      fs_inv_promote)

interpretation fill: step_system "\<lambda>s. s = scheduler_default" "\<lambda>s op t. t = fill_step s op" fs_inv
  by unfold_locales (auto simp: fs_inv_default fs_inv_step)

lemma fill_run_exec: "exec_run (\<lambda>s op t. t = fill_step s op) s ops (fill_run s ops)"
  by (induction ops arbitrary: s) (auto simp: fill_run_def intro: exec_run.intros)

section \<open>Properties\<close>

subsection \<open>The invariant in every reachable state\<close>

text \<open>
  C1. Whatever sequence of calls the scheduler has received, its invariant holds: the jobs it
  knows have allocated and pairwise different preemption tokens, the token of a job that still
  waits is neither preempted nor cancelled, a job is in the queue of its priority, a closed
  scheduler has no waiting job, each queue is ordered by sequence number, and the numbers are
  pairwise different as long as the 64 bit counter has not saturated.
\<close>

theorem scheduler_invariant: "fs_inv (fill_run scheduler_default ops)"
  by (rule fill.exec_run_inv [OF fill_run_exec fs_inv_default])

subsection \<open>Selection of the next job\<close>

lemma next_job_cases:
  assumes n: "next_job_until_shutdown s = (NextJob j, s')"
  obtains (fg) js where "\<not> fs_closed s" "fs_foreground s = js @ [j]"
      "s' = s\<lparr>fs_foreground := js, fs_current := Some j\<rparr>"
  | (dm) js where "\<not> fs_closed s" "fs_foreground s = []" "fs_demoted s = j # js"
      "s' = s\<lparr>fs_demoted := js, fs_current := Some j\<rparr>"
proof (cases "fs_closed s")
  case True
  with n show ?thesis by (simp add: next_job_until_shutdown_def)
next
  case False
  show ?thesis
  proof (cases "fs_foreground s" rule: rev_cases)
    case Nil
    with n False show ?thesis
      by (cases "fs_demoted s") (auto simp: next_job_until_shutdown_def intro: dm)
  next
    case (snoc js j')
    with n False next_job_foreground [OF False snoc] show ?thesis
      by (auto intro: fg)
  qed
qed

text \<open>
  The job handed to the worker is the newest foreground job, or the oldest demoted job when
  there is no foreground job; it becomes the current job, it leaves its queue, no other job is
  lost, and its token is neither preempted nor cancelled.
\<close>

theorem next_job_selection:
  assumes "fs_inv s" and "next_job_until_shutdown s = (NextJob j, s')"
  shows "fs_current s' = Some j \<and> mset (queued_jobs s) = add_mset j (mset (queued_jobs s'))
    \<and> (if fs_foreground s \<noteq> []
       then j \<in> set (fs_foreground s) \<and> (\<forall>x \<in> set (fs_foreground s). fj_sequence x \<le> fj_sequence j)
       else j \<in> set (fs_demoted s) \<and> (\<forall>x \<in> set (fs_demoted s). fj_sequence j \<le> fj_sequence x))
    \<and> \<not> token_is_preempted s' (fj_token j) \<and> \<not> token_is_cancelled s' (fj_token j)"
  using assms(2)
proof (cases rule: next_job_cases)
  case (fg js)
  with assms(1) show ?thesis
    by (auto simp: fs_inv_def token_inv_def sequence_inv_def queued_jobs_def sorted_append
        token_is_preempted_def token_is_cancelled_def token_default_def)
next
  case (dm js)
  with assms(1) show ?thesis
    by (auto simp: fs_inv_def token_inv_def sequence_inv_def queued_jobs_def
        token_is_preempted_def token_is_cancelled_def token_default_def)
qed

definition demo_session :: "string \<Rightarrow> nat fill_session" where
  "demo_session n = \<lparr>fsn_id = n, fsn_rest = 0\<rparr>"

definition demo_queue :: "nat fill_scheduler" where
  "demo_queue = fill_run scheduler_default
     [OpEnqueueDemoted ''a'' (demo_session ''s1'') KeepPlayable,
      OpEnqueueForeground ''b'' (demo_session ''s2'') KeepPlayable,
      OpEnqueueForeground ''c'' (demo_session ''s3'') FailRestoredTask]"

lemma demo_queue_inv: "fs_inv demo_queue"
  unfolding demo_queue_def by (rule fill.exec_run_inv [OF fill_run_exec fs_inv_default])

lemma demo_queue_eq:
  "demo_queue = \<lparr>fs_foreground =
       [\<lparr>fj_task_id = ''b'', fj_session = demo_session ''s2'', fj_failure_mode = KeepPlayable,
         fj_priority = FillForeground, fj_token = 1, fj_sequence = 2\<rparr>,
        \<lparr>fj_task_id = ''c'', fj_session = demo_session ''s3'', fj_failure_mode = FailRestoredTask,
         fj_priority = FillForeground, fj_token = 2, fj_sequence = 3\<rparr>],
     fs_demoted =
       [\<lparr>fj_task_id = ''a'', fj_session = demo_session ''s1'', fj_failure_mode = KeepPlayable,
         fj_priority = FillDemoted, fj_token = 0, fj_sequence = 1\<rparr>],
     fs_current = None, fs_worker_started = True, fs_closed = False, fs_next_sequence = 3,
     fs_tokens = [token_default, token_default, token_default]\<rparr>"
  by (simp add: demo_queue_def fill_run_def enqueue_foreground_def enqueue_demoted_def enqueue_def
      create_job_def scheduler_default_def saturating_add_def Let_def)

theorem next_job_selection_witness:
  "\<exists>j s'. next_job_until_shutdown demo_queue = (NextJob j, s')
     \<and> fj_task_id j = ''c'' \<and> fs_current s' = Some j"
proof -
  obtain j s' where n: "next_job_until_shutdown demo_queue = (NextJob j, s')" "fj_task_id j = ''c''"
    by (simp add: next_job_until_shutdown_def demo_queue_eq Let_def)
  from next_job_selection [OF demo_queue_inv n(1)] n show ?thesis by blast
qed

subsection \<open>The end of a job\<close>

definition session_jobs :: "string \<Rightarrow> 'p fill_scheduler \<Rightarrow> 'p fill_job list" where
  "session_jobs sid s = filter (\<lambda>j. fj_sid j = sid) (queued_jobs s)"

lemma session_jobs_empty: "session_jobs sid s = [] \<longleftrightarrow> \<not> has_queued_session s sid"
  by (auto simp: session_jobs_def has_queued_session_def queued_jobs_def list_ex_iff filter_empty_conv)

text \<open>
  When the worker reports the end of its preempted job, the scheduler has no current job and
  the foreground queue is untouched; the session of the job stays owned by the scheduler exactly
  when it was already queued, or its job was not cancelled and the scheduler is open; the
  requeued job is put at the end of the demoted queue with the same task, session and failure
  mode and a clean token, and a session is never queued a second time by this.
\<close>

theorem finish_preempted_job:
  assumes "fs_inv s" and "fs_current s = Some j"
  defines "s' \<equiv> finish_current j True s"
  shows "fs_current s' = None \<and> fs_foreground s' = fs_foreground s
    \<and> (owns_session s' (fj_sid j) \<longleftrightarrow>
         has_queued_session s (fj_sid j) \<or> \<not> token_is_cancelled s (fj_token j) \<and> \<not> fs_closed s)
    \<and> (has_queued_session s (fj_sid j) \<longrightarrow> queued_jobs s' = queued_jobs s)
    \<and> (\<not> has_queued_session s (fj_sid j) \<longrightarrow> length (session_jobs (fj_sid j) s') \<le> 1)
    \<and> (fs_demoted s' \<noteq> fs_demoted s \<longrightarrow>
         (\<exists>j'. fs_demoted s' = fs_demoted s @ [j'] \<and> fj_task_id j' = fj_task_id j
            \<and> fj_session j' = fj_session j \<and> fj_failure_mode j' = fj_failure_mode j
            \<and> fs_tokens s' ! fj_token j' = token_default))"
proof (cases "\<not> token_is_cancelled s (fj_token j) \<and> \<not> fs_closed s \<and> \<not> has_queued_session s (fj_sid j)")
  case True
  define j' where "j' = j\<lparr>fj_priority := FillDemoted, fj_token := length (fs_tokens s),
                     fj_sequence := saturating_add (fs_next_sequence s) 1\<rparr>"
  from True assms(2) have s': "s' = s\<lparr>fs_current := None,
       fs_next_sequence := fj_sequence j', fs_tokens := fs_tokens s @ [token_default],
       fs_demoted := fs_demoted s @ [j']\<rparr>"
    by (simp add: s'_def finish_current_def refresh_job_def Let_def token_is_cancelled_def
        has_queued_session_def j'_def)
  have "session_jobs (fj_sid j) s = []" using True by (simp add: session_jobs_empty)
  then have "length (session_jobs (fj_sid j) s') \<le> 1"
    by (simp add: s' session_jobs_def queued_jobs_def j'_def)
  with True show ?thesis
    by (simp add: s' owns_session_def has_queued_session_def j'_def)
next
  case False
  with assms(2) have s': "s' = s\<lparr>fs_current := None\<rparr>"
    by (auto simp: s'_def finish_current_def Let_def token_is_cancelled_def has_queued_session_def)
  have "\<not> has_queued_session s (fj_sid j) \<Longrightarrow> session_jobs (fj_sid j) s' = []"
    by (simp add: session_jobs_empty [symmetric]) (simp add: s' session_jobs_def queued_jobs_def)
  with False show ?thesis
    by (auto simp: s' owns_session_def has_queued_session_def queued_jobs_def)
qed

theorem finish_preempted_job_witness:
  "\<exists>j. fs_current (snd (next_job_until_shutdown demo_queue)) = Some j
     \<and> owns_session (finish_current j True (snd (next_job_until_shutdown demo_queue))) ''s3''"
proof -
  let ?s = "snd (next_job_until_shutdown demo_queue)"
  obtain j where cur: "fs_current ?s = Some j" and sid: "fj_sid j = ''s3''"
    and flags: "\<not> token_is_cancelled ?s (fj_token j)" "\<not> fs_closed ?s"
    by (simp add: next_job_until_shutdown_def demo_queue_eq Let_def demo_session_def
        token_is_cancelled_def token_default_def)
  from finish_preempted_job [OF fs_inv_next_job [OF demo_queue_inv] cur] sid flags cur
  show ?thesis by auto
qed

subsection \<open>Cancelling a task\<close>

text \<open>
  \<open>task_gone t\<close>: no queued job belongs to the task \<open>t\<close>, and if the current job does, its token is
  cancelled. \<open>op_keeps_gone t\<close> excludes the calls by which a task is deliberately brought back:
  a new job for it, and a promotion of a session.
\<close>

definition task_gone :: "string \<Rightarrow> 'p fill_scheduler \<Rightarrow> bool" where
  "task_gone t s \<longleftrightarrow> (\<forall>j \<in> set (queued_jobs s). fj_task_id j \<noteq> t)
     \<and> (case fs_current s of None \<Rightarrow> True
        | Some cur \<Rightarrow> fj_task_id cur = t \<longrightarrow> token_is_cancelled s (fj_token cur))"

fun op_keeps_gone :: "string \<Rightarrow> 'p fill_op \<Rightarrow> bool" where
  "op_keeps_gone t (OpEnqueueForeground t' x m) = (t' \<noteq> t)"
| "op_keeps_gone t (OpEnqueueDemoted t' x m) = (t' \<noteq> t)"
| "op_keeps_gone t (OpPromote sid r) = False"
| "op_keeps_gone t op = True"

lemma current_token_lt:
  "fs_inv s \<Longrightarrow> fs_current s = Some cur \<Longrightarrow> fj_token cur < length (fs_tokens s)"
  by (simp add: fs_inv_def token_inv_def fs_jobs_def)

lemma task_gone_enqueue:
  assumes inv: "fs_inv s" and gone: "task_gone t s" and neq: "t' \<noteq> t"
  shows "task_gone t (snd (enqueue t' x m p pc s))"
proof (cases "fs_closed s")
  case True
  with gone show ?thesis by (simp add: enqueue_def)
next
  case False
  from gone neq False current_token_lt [OF inv] show ?thesis
    by (cases p)
      (auto simp: enqueue_def create_job_def Let_def task_gone_def queued_jobs_def token_preempt_def
        token_is_cancelled_def nth_append nth_list_update split: option.splits)
qed

lemma task_gone_cancel_matching:
  "task_gone t s \<Longrightarrow> fs_inv s \<Longrightarrow> task_gone t (snd (cancel_matching P s))"
  by (auto simp: cancel_matching_def Let_def task_gone_def queued_jobs_def token_cancel_def
      token_is_cancelled_def nth_list_update current_token_lt split: option.splits)

lemma cancel_matching_task_gone:
  assumes "fs_inv s"
  shows "task_gone t (snd (cancel_matching (\<lambda>j. fj_task_id j = t) s))"
  using current_token_lt [OF assms]
  by (auto simp: cancel_matching_def Let_def task_gone_def queued_jobs_def token_cancel_def
      token_is_cancelled_def split: option.splits)

lemma task_gone_next_job:
  assumes "task_gone t s"
  shows "task_gone t (snd (next_job_until_shutdown s))"
proof (cases "next_job_until_shutdown s")
  case (Pair r s')
  show ?thesis
  proof (cases r)
    case (NextJob j)
    with Pair have "next_job_until_shutdown s = (NextJob j, s')" by simp
    then have "task_gone t s'"
      by (cases rule: next_job_cases) (use assms in \<open>auto simp: task_gone_def queued_jobs_def\<close>)
    with Pair show ?thesis by simp
  qed (use assms Pair in \<open>auto simp: next_job_until_shutdown_def Let_def split: if_splits list.splits\<close>)
qed

lemma task_gone_finish:
  "task_gone t s \<Longrightarrow> task_gone t (finish_current j r s)"
  by (auto simp: finish_current_def refresh_job_def Let_def task_gone_def queued_jobs_def
      token_is_cancelled_def split: option.splits if_splits)

lemma task_gone_shutdown:
  "fs_inv s \<Longrightarrow> task_gone t s \<Longrightarrow> task_gone t (shutdown_scheduler s)"
  by (auto simp: shutdown_scheduler_def Let_def task_gone_def queued_jobs_def token_preempt_def
      token_is_cancelled_def nth_list_update current_token_lt split: option.splits)

lemma task_gone_stopped: "task_gone t s \<Longrightarrow> task_gone t (mark_worker_stopped s)"
  by (auto simp: task_gone_def mark_worker_stopped_def queued_jobs_def token_is_cancelled_def
      split: option.splits)

lemma task_gone_step:
  assumes "fs_inv s" "task_gone t s" "op_keeps_gone t op"
  shows "task_gone t (fill_step s op)"
  using assms
  by (cases op)
    (simp_all add: enqueue_foreground_def enqueue_demoted_def cancel_task_def cancel_sessions_def
      cancel_task_and_wait_def cancel_sessions_and_wait_def Let_def split_beta
      task_gone_enqueue task_gone_cancel_matching task_gone_next_job task_gone_finish
      task_gone_shutdown task_gone_stopped)

interpretation gone: step_system "\<lambda>s. \<exists>s0. fs_inv s0 \<and> s = cancel_task t s0"
    "\<lambda>s op s'. op_keeps_gone t op \<and> s' = fill_step s op" "\<lambda>s. fs_inv s \<and> task_gone t s"
  for t :: string
  by unfold_locales
    (auto simp: cancel_task_def fs_inv_cancel_matching cancel_matching_task_gone fs_inv_step
      task_gone_step)

lemma gone_exec_run:
  "\<forall>op \<in> set ops. op_keeps_gone t op \<Longrightarrow>
    exec_run (\<lambda>s op s'. op_keeps_gone t op \<and> s' = fill_step s op) s ops (fill_run s ops)"
  by (induction ops arbitrary: s) (auto simp: fill_run_def intro: exec_run.intros)

text \<open>
  C2. A cancelled task does not come back: after \<open>cancel_task\<close>, however the other calls go on
  (the worker finishing the cancelled job and asking for a requeue included), the scheduler
  never hands out a job of that task, unless a new job of the task is enqueued or a session is
  promoted.
\<close>

theorem cancelled_task_not_resumed:
  assumes "fs_inv s" and "\<forall>op \<in> set ops. op_keeps_gone t op"
    and "next_job_until_shutdown (fill_run (cancel_task t s) ops) = (NextJob j, s')"
  shows "fj_task_id j \<noteq> t"
proof -
  let ?r = "fill_run (cancel_task t s) ops"
  have "fs_inv ?r \<and> task_gone t ?r"
    using gone.exec_run_inv [OF gone_exec_run [OF assms(2)]] gone.inv_init assms(1) by blast
  moreover have "j \<in> set (queued_jobs ?r)"
    by (cases rule: next_job_cases [OF assms(3)]) (simp_all add: queued_jobs_def)
  ultimately show ?thesis by (auto simp: task_gone_def)
qed

theorem cancelled_task_not_resumed_witness:
  "\<exists>j s'. next_job_until_shutdown (fill_run (cancel_task ''c'' demo_queue) [OpWorkerStopped])
       = (NextJob j, s') \<and> fj_task_id j \<noteq> ''c''"
proof -
  obtain j s' where n: "next_job_until_shutdown
      (fill_run (cancel_task ''c'' demo_queue) [OpWorkerStopped]) = (NextJob j, s')"
    by (simp add: fill_run_def cancel_task_def cancel_matching_def mark_worker_stopped_def
        next_job_until_shutdown_def demo_queue_eq Let_def)
  from cancelled_task_not_resumed [OF demo_queue_inv _ n] n show ?thesis by auto
qed

subsection \<open>Preemption by a foreground job\<close>

text \<open>
  C3. A foreground request for another session preempts the running job without losing it: the
  running job's token is set, once the worker gives it up the new job is the next one handed
  out, and the preempted job (same task, session and failure mode) waits at the end of the
  demoted queue, unless its session was queued already.
\<close>

theorem foreground_preempts_and_resumes:
  fixes t :: string and m :: failure_mode
  assumes "fs_inv s" and "\<not> fs_closed s" and "fs_current s = Some cur"
    and "fj_sid cur \<noteq> fsn_id x" and "\<not> token_is_cancelled s (fj_token cur)"
    and "\<not> has_queued_session s (fj_sid cur)"
  defines "s1 \<equiv> snd (enqueue_foreground t x m s)"
  defines "s2 \<equiv> finish_current cur True s1"
  shows "token_is_preempted s1 (fj_token cur)
    \<and> (\<exists>j s3. next_job_until_shutdown s2 = (NextJob j, s3) \<and> fj_task_id j = t \<and> fj_session j = x
          \<and> fj_failure_mode j = m \<and> \<not> token_is_preempted s3 (fj_token j))
    \<and> (\<exists>j. fs_demoted s2 = fs_demoted s @ [j] \<and> fj_task_id j = fj_task_id cur
          \<and> fj_session j = fj_session cur \<and> fj_failure_mode j = fj_failure_mode cur
          \<and> \<not> token_is_preempted s2 (fj_token j))"
proof -
  have lt: "fj_token cur < length (fs_tokens s)"
    using assms(1,3) by (rule current_token_lt)
  define j where "j = \<lparr>fj_task_id = t, fj_session = x, fj_failure_mode = m, fj_priority = FillForeground,
    fj_token = length (fs_tokens s), fj_sequence = saturating_add (fs_next_sequence s) 1\<rparr>"
  have s1: "s1 = (token_preempt (fj_token cur) s)\<lparr>fs_next_sequence := fj_sequence j,
      fs_tokens := (fs_tokens s)[fj_token cur := (fs_tokens s ! fj_token cur)\<lparr>tk_preempted := True\<rparr>]
        @ [token_default],
      fs_foreground := fs_foreground s @ [j], fs_worker_started := True\<rparr>"
    using assms(2-4) by (simp add: s1_def enqueue_foreground_def enqueue_def create_job_def Let_def
        token_preempt_def j_def)
  define j' where "j' = cur\<lparr>fj_priority := FillDemoted, fj_token := Suc (length (fs_tokens s)),
    fj_sequence := saturating_add (fj_sequence j) 1\<rparr>"
  have nq: "\<not> has_queued_session s1 (fj_sid cur)"
    using assms(4,6) by (auto simp: s1 has_queued_session_def j_def token_preempt_def)
  have s2: "s2 = s1\<lparr>fs_current := None, fs_next_sequence := fj_sequence j',
      fs_tokens := fs_tokens s1 @ [token_default], fs_demoted := fs_demoted s @ [j']\<rparr>"
    using assms(2,3,5) nq lt
    by (simp add: s2_def finish_current_def refresh_job_def Let_def s1 token_is_cancelled_def
        has_queued_session_def nth_append j'_def token_preempt_def)
  have "next_job_until_shutdown s2 = (NextJob j, s2\<lparr>fs_foreground := fs_foreground s, fs_current := Some j\<rparr>)"
    using assms(2) by (intro next_job_foreground) (simp_all add: s2 s1 token_preempt_def)
  moreover have "\<not> tk_preempted (fs_tokens s2 ! fj_token j)" "\<not> tk_preempted (fs_tokens s2 ! fj_token j')"
    by (simp_all add: s2 s1 j_def j'_def nth_append token_default_def)
  moreover have "token_is_preempted s1 (fj_token cur)"
    using lt by (simp add: s1 token_is_preempted_def nth_append)
  ultimately show ?thesis
    by (simp add: token_is_preempted_def) (simp add: s2 j_def j'_def)
qed

theorem foreground_preempts_and_resumes_witness:
  "\<exists>cur. fs_current (snd (next_job_until_shutdown demo_queue)) = Some cur
     \<and> token_is_preempted (snd (enqueue_foreground ''d'' (demo_session ''s4'') KeepPlayable
           (snd (next_job_until_shutdown demo_queue)))) (fj_token cur)"
proof -
  let ?s = "snd (next_job_until_shutdown demo_queue)"
  obtain cur where cur: "fs_current ?s = Some cur" "fj_sid cur \<noteq> fsn_id (demo_session ''s4'')"
      "\<not> token_is_cancelled ?s (fj_token cur)" "\<not> has_queued_session ?s (fj_sid cur)"
    and op: "\<not> fs_closed ?s"
    by (simp add: next_job_until_shutdown_def demo_queue_eq Let_def demo_session_def
        token_is_cancelled_def token_default_def has_queued_session_def)
  from foreground_preempts_and_resumes [OF fs_inv_next_job [OF demo_queue_inv] op cur] cur
  show ?thesis by auto
qed

subsection \<open>Promotion\<close>

lemma promote_push_next_job:
  assumes "\<not> fs_closed s"
  shows "\<exists>j s'. next_job_until_shutdown (promote_push job s) = (NextJob j, s')
     \<and> fj_task_id j = fj_task_id job \<and> fj_session j = fj_session job
     \<and> fj_priority j = FillForeground \<and> fs_tokens s' ! fj_token j = token_default"
  using assms
  by (simp add: promote_push_def refresh_job_def push_job_def next_job_until_shutdown_def Let_def)

lemma promote_push_tokens:
  "a < length (fs_tokens s) \<Longrightarrow> token_is_preempted (promote_push job s) a = token_is_preempted s a"
  by (simp add: promote_push_def refresh_job_def push_job_def token_is_preempted_def Let_def nth_append)

lemma preempt_preempted:
  "a < length (fs_tokens s) \<Longrightarrow> token_is_preempted (token_preempt a s) a"
  by (simp add: token_preempt_def token_is_preempted_def)

lemma take_queued_session_sid:
  "take_queued_session sid s = (Some job, s') \<Longrightarrow> fj_sid job = sid"
  by (auto simp: take_queued_session_def split: option.splits dest!: take_first_SomeD)

text \<open>
  A successful promotion takes effect at once: the next job handed out is a foreground job
  of the promoted session with a clean token, and the job running now, if any, is told to give
  way. A promotion is refused exactly when the scheduler is closed, when the session is running
  unpreempted and no restart was asked for, or when the scheduler does not own the session.
\<close>

theorem promotion_takes_effect:
  assumes "fs_inv s" and "promote_session_to_foreground sid restart s = (b, s')"
  shows "(b \<longrightarrow> (\<exists>j s''. next_job_until_shutdown s' = (NextJob j, s'') \<and> fj_sid j = sid
              \<and> fj_priority j = FillForeground \<and> fs_tokens s'' ! fj_token j = token_default)
            \<and> (\<forall>cur. fs_current s = Some cur \<longrightarrow> token_is_preempted s' (fj_token cur)))
    \<and> (\<not> b \<longrightarrow> s' = s)
    \<and> (b \<longleftrightarrow> \<not> fs_closed s \<and> owns_session s sid
          \<and> (\<forall>cur. fs_current s = Some cur \<and> fj_sid cur = sid
                \<longrightarrow> restart \<or> token_is_preempted s (fj_token cur)))"
  using assms(2)
proof (cases rule: promote_cases)
  case (restart cur q s1)
  have lt: "fj_token cur < length (fs_tokens s)"
    using assms(1) restart(2) by (rule current_token_lt)
  note s1 = take_queued_session_inv [OF fs_inv_preempt [OF assms(1) restart(2)] restart(6)]
  have sid: "fj_sid (case q of Some job \<Rightarrow> job | None \<Rightarrow> cur) = sid"
    using restart(3,6) by (auto dest: take_queued_session_sid split: option.split)
  have op: "\<not> fs_closed s1" using s1 restart(1) by simp
  have "token_is_preempted s1 (fj_token cur)" "fj_token cur < length (fs_tokens s1)"
    using s1 preempt_preempted [OF lt] lt by (simp_all add: token_is_preempted_def token_preempt_def)
  then have "token_is_preempted s' (fj_token cur)"
    by (simp add: restart(7) promote_push_tokens)
  moreover have "owns_session s sid" using restart(2,3) by (simp add: owns_session_def)
  ultimately show ?thesis
    using restart promote_push_next_job [OF op, of "case q of Some job \<Rightarrow> job | None \<Rightarrow> cur"] sid
    by auto
next
  case (queued job s1)
  note s1 = take_queued_session_inv [OF assms(1) queued(3)]
  let ?s2 = "case fs_current s1 of Some cur \<Rightarrow> token_preempt (fj_token cur) s1 | None \<Rightarrow> s1"
  have op: "\<not> fs_closed ?s2" using s1 queued(1) by (auto split: option.split)
  have pre: "token_is_preempted s' (fj_token cur)" if "fs_current s = Some cur" for cur
    using that s1 current_token_lt [OF assms(1) that]
    by (simp add: queued(5) promote_push_tokens preempt_preempted)
  have "owns_session s sid"
    using queued(3) by (auto simp: owns_session_def has_queued_session_def take_queued_session_def
        list_ex_iff split: option.splits dest!: take_first_SomeD)
  then show ?thesis
    using queued(1,2,4) promote_push_next_job [OF op, of job] take_queued_session_sid [OF queued(3)]
      pre by (auto simp: queued(5))
qed (auto simp: owns_session_def split: option.splits)

theorem promotion_takes_effect_witness:
  "\<exists>s'. promote_session_to_foreground ''s1'' False demo_queue = (True, s')
     \<and> (\<exists>j s''. next_job_until_shutdown s' = (NextJob j, s'') \<and> fj_sid j = ''s1'')"
proof -
  obtain s' where p: "promote_session_to_foreground ''s1'' False demo_queue = (True, s')"
    by (simp add: promote_session_to_foreground_def demo_queue_eq take_queued_session_def
        demo_session_def refresh_job_def Let_def)
  from promotion_takes_effect [OF demo_queue_inv p] p show ?thesis by blast
qed

subsection \<open>Shutdown\<close>

lemma closed_step:
  assumes "fs_inv s" "fs_closed s"
  shows "fs_closed (fill_step s op)"
proof -
  have "fs_closed (snd (promote_session_to_foreground sid r s))" for sid r
    using assms by (simp add: promote_session_to_foreground_def)
  then show ?thesis
    using assms
    by (cases op)
      (auto simp: enqueue_foreground_def enqueue_demoted_def enqueue_def next_job_until_shutdown_def
        cancel_task_def cancel_sessions_def cancel_task_and_wait_def cancel_sessions_and_wait_def
        cancel_matching_def mark_worker_stopped_def shutdown_scheduler_def finish_current_def Let_def
        split_beta split: option.splits)
qed

interpretation shut: step_system "\<lambda>s. \<exists>s0. fs_inv s0 \<and> s = shutdown_scheduler s0"
    "\<lambda>s op t. t = fill_step s op" "\<lambda>s. fs_inv s \<and> fs_closed s"
proof unfold_locales
  fix s :: "'p fill_scheduler"
  assume "\<exists>s0. fs_inv s0 \<and> s = shutdown_scheduler s0"
  then obtain s0 where "fs_inv s0" "s = shutdown_scheduler s0" by blast
  moreover have "fs_closed (shutdown_scheduler s0)"
    by (simp add: shutdown_scheduler_def Let_def split: option.split)
  ultimately show "fs_inv s \<and> fs_closed s"
    using fs_inv_shutdown by simp
qed (auto simp: fs_inv_step closed_step)

text \<open>
  Shutdown is final: after it, whatever calls follow, the worker's next request is answered
  with the end signal, no job waits, every attempt to enqueue or to promote is refused, and the
  job that was running has been told to give way.
\<close>

theorem shutdown_is_final:
  fixes ops :: "'p fill_op list"
  assumes "fs_inv s"
  defines "s' \<equiv> fill_run (shutdown_scheduler s) ops"
  shows "fst (next_job_until_shutdown s') = NextShutdown \<and> queued_jobs s' = []
    \<and> enqueue t x m p pc s' = (False, s')
    \<and> promote_session_to_foreground sid r s' = (False, s')
    \<and> (\<forall>cur. fs_current s = Some cur \<longrightarrow> token_is_preempted (shutdown_scheduler s) (fj_token cur))"
proof -
  have inv: "fs_inv s' \<and> fs_closed s'"
    unfolding s'_def using shut.exec_run_inv [OF fill_run_exec] shut.inv_init assms(1) by blast
  have "token_is_preempted (shutdown_scheduler s) (fj_token cur)" if "fs_current s = Some cur" for cur
    using that current_token_lt [OF assms(1) that]
    by (simp add: shutdown_scheduler_def preempt_preempted Let_def)
  with inv show ?thesis
    by (simp add: next_job_until_shutdown_def enqueue_def promote_session_to_foreground_def
        fs_inv_def queue_inv_def queued_jobs_def)
qed

theorem shutdown_is_final_witness:
  "queued_jobs (fill_run (shutdown_scheduler demo_queue)
     [OpEnqueueForeground ''d'' (demo_session ''s4'') KeepPlayable, OpPromote ''s1'' True]) = []"
  using shutdown_is_final [OF demo_queue_inv] by blast

subsection \<open>Waiting for a cancelled job\<close>

text \<open>
  C4. \<open>cancel_task_and_wait\<close> waits only for the worker's own job: a turn that decides to wait has
  cancelled the current job of the task while a worker runs; as soon as the worker finishes
  that job (with or without asking for a requeue) or stops, a further turn returns, and when the
  job was finished the scheduler holds no job of the task any more.
\<close>

theorem cancel_task_wait_ends:
  assumes "fs_inv s" and "cancel_task_and_wait t s = (True, s1)" and "fs_current s1 = Some cur"
  shows "fj_task_id cur = t \<and> token_is_cancelled s1 (fj_token cur) \<and> fs_worker_started s1
    \<and> (let s2 = finish_current cur r s1; (should_wait, s3) = cancel_task_and_wait t s2 in
         \<not> should_wait \<and> (\<forall>j \<in> set (fs_jobs s3). fj_task_id j \<noteq> t))
    \<and> \<not> fst (cancel_task_and_wait t (mark_worker_stopped s1))"
proof -
  obtain mc where m: "cancel_matching (\<lambda>j. fj_task_id j = t) s = (mc, s1)" and mc: "mc"
    and w: "fs_worker_started s1"
    using assms(2) by (auto simp: cancel_task_and_wait_def Let_def split: prod.splits)
  have cur0: "fs_current s = Some cur" and tid: "fj_task_id cur = t"
    using m mc assms(3)
    by (auto simp: cancel_matching_def Let_def split: option.splits if_splits)
  have gone: "task_gone t s1"
    using cancel_matching_task_gone [OF assms(1), of t] m by simp
  then have canc: "token_is_cancelled s1 (fj_token cur)"
    using assms(3) tid by (simp add: task_gone_def)
  have fin: "finish_current cur r s1 = s1\<lparr>fs_current := None\<rparr>"
    using assms(3) canc by (simp add: finish_current_def Let_def token_is_cancelled_def)
  from gone have "task_gone t (finish_current cur r s1)" by (rule task_gone_finish)
  then have "\<not> fst (cancel_task_and_wait t (finish_current cur r s1))
      \<and> (\<forall>j \<in> set (fs_jobs (snd (cancel_task_and_wait t (finish_current cur r s1)))). fj_task_id j \<noteq> t)"
    by (auto simp: fin cancel_task_and_wait_def cancel_matching_def Let_def fs_list_defs)
  moreover have "\<not> fst (cancel_task_and_wait t (mark_worker_stopped s1))"
    by (auto simp: cancel_task_and_wait_def cancel_matching_def mark_worker_stopped_def Let_def
        token_cancel_def split: option.splits prod.splits)
  ultimately show ?thesis using tid canc w by (simp add: Let_def split_beta)
qed

theorem cancel_task_wait_ends_witness:
  "\<exists>s1 cur. cancel_task_and_wait ''c'' (snd (next_job_until_shutdown demo_queue)) = (True, s1)
     \<and> fs_current s1 = Some cur \<and> token_is_cancelled s1 (fj_token cur)"
proof -
  obtain s1 cur where c: "cancel_task_and_wait ''c'' (snd (next_job_until_shutdown demo_queue)) = (True, s1)"
    "fs_current s1 = Some cur"
    by (simp add: cancel_task_and_wait_def cancel_matching_def next_job_until_shutdown_def
        demo_queue_eq Let_def token_cancel_def)
  from cancel_task_wait_ends [OF fs_inv_next_job [OF demo_queue_inv] c] c show ?thesis by blast
qed

end
