(* ===== verification/Range_Extents.thy ===== *)
theory Range_Extents
  imports Prelude
begin

text \<open>
  The byte-range bookkeeping of the HLS cache (\<open>hls_cache.rs\<close>, with the persisted types of
  \<open>hls_range_cache.rs\<close>): which bytes of a resource are durable, which are missing, how a
  resource is cut into chunks, how fragmented extents are merged, how a manifest read from disk
  is validated, and when a newer manifest may replace the one a transfer started from.

  A \<open>Range<u64>\<close> is a pair \<open>(start, end)\<close>. The abstract meaning of a list of extents is the set of
  bytes it covers (\<open>extent_bytes\<close>); the theorems relate the cursor loops of the source to it.
\<close>

section \<open>Data\<close>

datatype hls_range_error =
    RangeIo string
  | RangeNetwork string
  | UpstreamStatus nat
  | RangeUnsupported
  | InvalidResponse string
  | IdentityChanged
  | QuotaExceeded
  | RangeCancelled
  | RangePreempted
  | SessionRemoving

record range_extent =
  re_start :: nat
  re_end :: nat
  re_sha256 :: string

record range_origin =
  ro_origin :: string
  ro_prefix_sha256 :: string
  ro_strong_etag :: "string option"

record range_manifest =
  rm_schema_version :: nat
  rm_generation :: nat
  rm_resource_id :: string
  rm_representation_digest :: string
  rm_data_identity :: "string option"
  rm_total_length :: "nat option"
  rm_strong_etag :: "string option"
  rm_validator_origin :: "string option"
  rm_last_modified :: "string option"
  rm_prefix_length :: nat
  rm_prefix_sha256 :: "string option"
  rm_durable_bytes :: nat
  rm_validated_origins :: "range_origin list"
  rm_extents :: "range_extent list"

type_synonym byte_range = "nat \<times> nat"

definition RANGE_MANIFEST_SCHEMA_VERSION :: nat where
  "RANGE_MANIFEST_SCHEMA_VERSION = 1"

definition RANGE_FOREGROUND_CHUNK_BYTES :: nat where
  "RANGE_FOREGROUND_CHUNK_BYTES = 64 * 1024"

definition RANGE_STARTUP_CHUNK_BYTES :: nat where
  "RANGE_STARTUP_CHUNK_BYTES = 512 * 1024"

definition RANGE_MIN_CHUNK_BYTES :: nat where
  "RANGE_MIN_CHUNK_BYTES = 512 * 1024"

definition RANGE_MAX_CHUNK_BYTES :: nat where
  "RANGE_MAX_CHUNK_BYTES = 8 * 1024 * 1024"

definition RANGE_MAX_CHUNKS :: nat where
  "RANGE_MAX_CHUNKS = 8192"

definition RANGE_MAX_SIZE :: nat where
  "RANGE_MAX_SIZE = RANGE_STARTUP_CHUNK_BYTES + saturating_mul RANGE_MAX_CHUNK_BYTES (RANGE_MAX_CHUNKS - 1)"

lemmas range_consts = RANGE_FOREGROUND_CHUNK_BYTES_def RANGE_STARTUP_CHUNK_BYTES_def
  RANGE_MIN_CHUNK_BYTES_def RANGE_MAX_CHUNK_BYTES_def RANGE_MAX_CHUNKS_def RANGE_MAX_SIZE_def

section \<open>Coverage\<close>

text \<open>The \<open>for\<close> loop of \<open>range_is_covered\<close>, with its cursor.\<close>

fun covered_loop :: "range_extent list \<Rightarrow> nat \<Rightarrow> nat \<Rightarrow> bool" where
  "covered_loop [] cursor rend = False"
| "covered_loop (e # es) cursor rend =
     (if re_end e \<le> cursor then covered_loop es cursor rend
      else if re_start e > cursor then False
      else let cursor' = max cursor (re_end e)
           in if cursor' \<ge> rend then True else covered_loop es cursor' rend)"

fun range_is_covered :: "range_extent list \<Rightarrow> byte_range \<Rightarrow> bool" where
  "range_is_covered es (a, b) = (if a \<ge> b then False else covered_loop es a b)"

text \<open>
  The loop of \<open>missing_ranges_within\<close>: the gaps and the cursor at its end (a \<open>break\<close> ends it too).
\<close>

fun missing_within_loop :: "range_extent list \<Rightarrow> nat \<Rightarrow> nat \<Rightarrow> byte_range list \<times> nat" where
  "missing_within_loop [] cursor rend = ([], cursor)"
| "missing_within_loop (e # es) cursor rend =
     (if re_end e \<le> cursor then missing_within_loop es cursor rend
      else if re_start e \<ge> rend then ([], cursor)
      else
        let gap = (if cursor < re_start e then [(cursor, min (re_start e) rend)] else []);
            cursor' = max cursor (min (re_end e) rend)
        in if cursor' \<ge> rend then (gap, cursor')
           else let (gaps, c) = missing_within_loop es cursor' rend in (gap @ gaps, c))"

fun missing_ranges_within :: "range_extent list \<Rightarrow> byte_range \<Rightarrow> byte_range list" where
  "missing_ranges_within es (a, b) =
     (if a \<ge> b then []
      else let (gaps, cursor) = missing_within_loop es a b
           in gaps @ (if cursor < b then [(cursor, b)] else []))"

fun missing_ranges_loop :: "range_extent list \<Rightarrow> nat \<Rightarrow> nat \<Rightarrow> byte_range list" where
  "missing_ranges_loop [] cursor tot = (if cursor < tot then [(cursor, tot)] else [])"
| "missing_ranges_loop (e # es) cursor tot =
     (if cursor < re_start e then [(cursor, re_start e)] else [])
     @ missing_ranges_loop es (max cursor (re_end e)) tot"

definition missing_ranges :: "range_extent list \<Rightarrow> nat \<Rightarrow> byte_range list" where
  "missing_ranges es tot = missing_ranges_loop es 0 tot"

definition durable_extent_bytes :: "range_extent list \<Rightarrow> nat" where
  "durable_extent_bytes es = fold (\<lambda>e acc. saturating_add acc (re_end e - re_start e)) es 0"

section \<open>The plan of chunks\<close>

text \<open>
  The \<open>while\<close> loops that cut \<open>[start, tot)\<close> into pieces of \<open>sz\<close> bytes. The source's \<open>total\<close> (here \<open>tot\<close>) is a
  \<open>u64\<close> and its sizes are positive; the guard repeats this so that the recursion ends for all
  natural numbers.
\<close>

function cut_range :: "nat \<Rightarrow> nat \<Rightarrow> nat \<Rightarrow> byte_range list" where
  "cut_range sz start tot =
     (if start < tot \<and> tot \<le> u64_max \<and> 0 < sz
      then let e = min (saturating_add start sz) tot in (start, e) # cut_range sz e tot
      else [])"
  by pat_completeness auto
termination
  by (relation "measure (\<lambda>(sz, start, tot). tot - start)")
    (auto simp: saturating_add_def)

declare cut_range.simps [simp del]

definition range_size_is_resumable :: "nat \<Rightarrow> bool" where
  "range_size_is_resumable tot = (tot > 0 \<and> tot \<le> RANGE_MAX_SIZE)"

definition parent_size_of :: "nat \<Rightarrow> nat" where
  "parent_size_of remaining =
     clamp (div_ceil remaining (max (RANGE_MAX_CHUNKS - 1) 1)) RANGE_MIN_CHUNK_BYTES RANGE_MAX_CHUNK_BYTES"

definition planned_range_chunks :: "nat \<Rightarrow> byte_range list" where
  "planned_range_chunks tot =
     (if tot = 0 then []
      else let first_end = min tot RANGE_STARTUP_CHUNK_BYTES in
        if first_end = tot then [(0, first_end)]
        else (0, first_end) # cut_range (parent_size_of (tot - first_end)) first_end tot)"

definition logical_range_parent_with_index :: "nat \<Rightarrow> nat \<Rightarrow> (nat \<times> byte_range) option" where
  "logical_range_parent_with_index tot offset =
     (if tot = 0 \<or> offset \<ge> tot then None
      else
        let first_end = min tot RANGE_STARTUP_CHUNK_BYTES in
        if offset < first_end then Some (0, (0, first_end))
        else
          let parent_size = parent_size_of (tot - first_end);
              parent_index = (offset - first_end) div parent_size;
              start = saturating_add first_end (saturating_mul parent_index parent_size)
          in Some (parent_index + 1, (start, min (saturating_add start parent_size) tot)))"

definition logical_range_parent :: "nat \<Rightarrow> nat \<Rightarrow> byte_range option" where
  "logical_range_parent tot offset = map_option snd (logical_range_parent_with_index tot offset)"

section \<open>Compaction\<close>

text \<open>
  \<open>partition_point\<close> is applied to extents that are ordered, where it is the length of the longest
  prefix that satisfies the predicate; the loops then work on the rest of the slice.
\<close>

definition from_partition_point :: "nat \<Rightarrow> range_extent list \<Rightarrow> range_extent list" where
  "from_partition_point offset es = dropWhile (\<lambda>e. re_end e \<le> offset) es"

fun fully_covered_loop :: "range_extent list \<Rightarrow> nat \<Rightarrow> nat \<Rightarrow> bool" where
  "fully_covered_loop [] cursor pend = False"
| "fully_covered_loop (e # es) cursor pend =
     (if re_start e > cursor then False
      else let cursor' = max cursor (re_end e)
           in if cursor' \<ge> pend then True else fully_covered_loop es cursor' pend)"

fun parent_is_fully_covered :: "range_extent list \<Rightarrow> byte_range \<Rightarrow> bool" where
  "parent_is_fully_covered es (ps, pe) = fully_covered_loop (from_partition_point ps es) ps pe"

text \<open>The inner \<open>while next < len\<close> loop: how far the run that starts at \<open>start\<close> and ends at \<open>end\<close> reaches.\<close>

fun extend_run :: "nat \<Rightarrow> nat \<Rightarrow> nat \<Rightarrow> range_extent list \<Rightarrow> nat" where
  "extend_run start e pend [] = e"
| "extend_run start e pend (x # xs) =
     (if re_start x = e \<and> re_end x \<le> pend \<and> re_end x - start \<le> RANGE_MAX_CHUNK_BYTES
      then extend_run start (re_end x) pend xs else e)"

definition run_extends :: "nat \<Rightarrow> nat \<Rightarrow> nat \<Rightarrow> range_extent list \<Rightarrow> bool" where
  "run_extends start e pend xs =
     (case xs of [] \<Rightarrow> False
      | x # _ \<Rightarrow> re_start x = e \<and> re_end x \<le> pend \<and> re_end x - start \<le> RANGE_MAX_CHUNK_BYTES)"

fun fragmented_run_loop :: "nat \<Rightarrow> nat \<Rightarrow> range_extent list \<Rightarrow> byte_range option" where
  "fragmented_run_loop ps pe [] = None"
| "fragmented_run_loop ps pe (x # xs) =
     (if re_start x < pe then
        if re_start x < ps \<or> re_end x > pe then fragmented_run_loop ps pe xs
        else if run_extends (re_start x) (re_end x) pe xs
             then Some (re_start x, extend_run (re_start x) (re_end x) pe xs)
             else fragmented_run_loop ps pe xs
      else None)"

fun fragmented_extent_run_in_parent :: "range_extent list \<Rightarrow> byte_range \<Rightarrow> byte_range option" where
  "fragmented_extent_run_in_parent es (ps, pe) =
     (if \<not> parent_is_fully_covered es (ps, pe) then None
      else fragmented_run_loop ps pe (from_partition_point ps es))"

text \<open>
  The loop over the parents that intersect a request. A parent ends behind the offset it was
  computed for (\<open>logical_range_parent_progress\<close> below), so the loop ends; fuel is not needed, but
  the progress is part of the guard to have a total function.
\<close>

function compaction_in_request :: "range_extent list \<Rightarrow> nat \<Rightarrow> nat \<Rightarrow> nat \<Rightarrow> byte_range option" where
  "compaction_in_request es tot offset rend =
     (if offset < rend then
        (case logical_range_parent tot offset of
           None \<Rightarrow> None
         | Some (ps, pe) \<Rightarrow>
             (case fragmented_extent_run_in_parent es (ps, pe) of
                Some run \<Rightarrow> Some run
              | None \<Rightarrow> if offset < pe then compaction_in_request es tot pe rend else None))
      else None)"
  by pat_completeness auto
termination
  by (relation "measure (\<lambda>(es, tot, offset, rend). rend - offset)") auto

declare compaction_in_request.simps [simp del]

fun compaction_scan :: "range_extent list \<Rightarrow> nat \<Rightarrow> range_extent list \<Rightarrow> byte_range option" where
  "compaction_scan es tot (first # second # rest) =
     (if re_end first \<noteq> re_start second then compaction_scan es tot (second # rest)
      else
        case logical_range_parent tot (re_start first) of
          None \<Rightarrow> None
        | Some (ps, pe) \<Rightarrow>
            if re_start first < ps \<or> re_end second > pe \<or> \<not> parent_is_fully_covered es (ps, pe)
            then compaction_scan es tot (second # rest)
            else Some (re_start first, extend_run (re_start first) (re_end second) pe rest))"
| "compaction_scan es tot _ = None"

definition first_complete_parent_compaction ::
  "range_extent list \<Rightarrow> nat \<Rightarrow> byte_range option \<Rightarrow> byte_range option" where
  "first_complete_parent_compaction es tot intersecting =
     (if \<not> range_size_is_resumable tot then None
      else case intersecting of
          Some (a, b) \<Rightarrow>
            if a \<ge> b \<or> a \<ge> tot then None else compaction_in_request es tot a (min b tot)
        | None \<Rightarrow> compaction_scan es tot es)"

fun coalesce_loop ::
  "range_extent list \<Rightarrow> byte_range \<Rightarrow> bool \<Rightarrow> nat \<Rightarrow> range_extent list \<times> bool \<times> nat" where
  "coalesce_loop [] sel inserted removed = ([], inserted, removed)"
| "coalesce_loop (e # es) (a, b) inserted removed =
     (if re_start e \<ge> a \<and> re_end e \<le> b then
        let (rest, i, r) = coalesce_loop es (a, b) True (removed + 1)
        in ((if inserted then rest
             else \<lparr>re_start = a, re_end = b, re_sha256 = replicate 64 (CHR ''0'')\<rparr> # rest), i, r)
      else
        let (rest, i, r) = coalesce_loop es (a, b) inserted removed in (e # rest, i, r))"

definition coalesce_selected_range :: "range_extent list \<Rightarrow> byte_range \<Rightarrow> range_extent list \<times> bool" where
  "coalesce_selected_range es sel =
     (let (compacted, inserted, removed) = coalesce_loop es sel False 0
      in (compacted, inserted \<and> removed > 1))"

section \<open>Foreground chunks\<close>

definition foreground_chunks_of_parent ::
  "range_extent list \<Rightarrow> nat \<Rightarrow> nat \<Rightarrow> nat \<times> byte_range \<Rightarrow> (nat \<times> byte_range) list" where
  "foreground_chunks_of_parent es rstart rend parent =
     (case parent of (index, (ps, pe)) \<Rightarrow>
        map (Pair index)
          (filter (\<lambda>(a, b). a < rend \<and> rstart < b \<and> \<not> range_is_covered es (a, b))
             (cut_range RANGE_FOREGROUND_CHUNK_BYTES ps pe)))"

function foreground_loop ::
  "range_extent list \<Rightarrow> nat \<Rightarrow> nat \<Rightarrow> nat \<Rightarrow> nat \<Rightarrow> (nat \<times> byte_range) list \<times> nat" where
  "foreground_loop es tot rstart rend offset =
     (if offset < rend then
        (case logical_range_parent_with_index tot offset of
           None \<Rightarrow> ([], 0)
         | Some (index, (ps, pe)) \<Rightarrow>
             let chunks = foreground_chunks_of_parent es rstart rend (index, (ps, pe)) in
             if offset < pe then
               let (rest, visits) = foreground_loop es tot rstart rend pe
               in (chunks @ rest, visits + 1)
             else (chunks, 1))
      else ([], 0))"
  by pat_completeness auto
termination
  by (relation "measure (\<lambda>(es, tot, rstart, rend, offset). rend - offset)") auto

declare foreground_loop.simps [simp del]

definition planned_foreground_range_chunks_with_parent_visits ::
  "nat \<Rightarrow> byte_range \<Rightarrow> range_extent list \<Rightarrow> (nat \<times> byte_range) list \<times> nat" where
  "planned_foreground_range_chunks_with_parent_visits tot requested es =
     (case requested of (a, b) \<Rightarrow>
        if tot = 0 \<or> a \<ge> b \<or> a \<ge> tot then ([], 0)
        else foreground_loop es tot a (min b tot) a)"

definition planned_foreground_range_chunks ::
  "nat \<Rightarrow> byte_range \<Rightarrow> range_extent list \<Rightarrow> (nat \<times> byte_range) list" where
  "planned_foreground_range_chunks tot requested es =
     fst (planned_foreground_range_chunks_with_parent_visits tot requested es)"

section \<open>Well-formed extents and their bytes\<close>

text \<open>
  \<open>extents_from p\<close>: non-empty, in ascending order, without overlap, and none starts before \<open>p\<close>.
  This is what the loop of \<open>validate_range_manifest\<close> accepts.
\<close>

fun extents_from :: "nat \<Rightarrow> range_extent list \<Rightarrow> bool" where
  "extents_from p [] = True"
| "extents_from p (e # es) \<longleftrightarrow> p \<le> re_start e \<and> re_start e < re_end e \<and> extents_from (re_end e) es"

abbreviation extents_wf :: "range_extent list \<Rightarrow> bool" where
  "extents_wf \<equiv> extents_from 0"

definition extent_bytes :: "range_extent list \<Rightarrow> nat set" where
  "extent_bytes es = (\<Union>e \<in> set es. {re_start e..<re_end e})"

definition range_bytes :: "byte_range list \<Rightarrow> nat set" where
  "range_bytes rs = (\<Union>(a, b) \<in> set rs. {a..<b})"

text \<open>\<open>ranges_sep p\<close>: non-empty ranges in ascending order with at least one byte between two of them.\<close>

fun ranges_sep :: "nat \<Rightarrow> byte_range list \<Rightarrow> bool" where
  "ranges_sep p [] = True"
| "ranges_sep p ((a, b) # rs) \<longleftrightarrow> p \<le> a \<and> a < b \<and> ranges_sep (Suc b) rs"

lemma extent_bytes_simps [simp]:
  "extent_bytes [] = {}"
  "extent_bytes (e # es) = {re_start e..<re_end e} \<union> extent_bytes es"
  "extent_bytes (xs @ ys) = extent_bytes xs \<union> extent_bytes ys"
  by (auto simp: extent_bytes_def)

lemma range_bytes_simps [simp]:
  "range_bytes [] = {}"
  "range_bytes (r # rs) = {fst r..<snd r} \<union> range_bytes rs"
  "range_bytes (xs @ ys) = range_bytes xs \<union> range_bytes ys"
  by (auto simp: range_bytes_def split: prod.splits)

lemma extents_from_mono: "extents_from p es \<Longrightarrow> q \<le> p \<Longrightarrow> extents_from q es"
  by (cases es) auto

lemma extents_from_bytes: "extents_from p es \<Longrightarrow> x \<in> extent_bytes es \<Longrightarrow> p \<le> x"
  by (induction es arbitrary: p) force+

lemma extents_from_append:
  "extents_from p (xs @ ys) \<longleftrightarrow>
     extents_from p xs \<and> extents_from (if xs = [] then p else re_end (last xs)) ys"
  by (induction xs arbitrary: p) auto

lemma extents_from_dropWhile: "extents_from p es \<Longrightarrow> extents_from p (dropWhile P es)"
proof (induction es arbitrary: p)
  case (Cons e es)
  then have "extents_from p es" using extents_from_mono [of "re_end e" es p] by simp
  with Cons show ?case by simp
qed simp

lemma ranges_sep_mono: "ranges_sep p rs \<Longrightarrow> q \<le> p \<Longrightarrow> ranges_sep q rs"
  by (cases rs) auto

lemma ranges_sep_snoc:
  "ranges_sep p (rs @ [(a, b)]) \<longleftrightarrow>
     ranges_sep p rs \<and> a < b \<and> (if rs = [] then p \<le> a else snd (last rs) < a)"
  by (induction rs arbitrary: p) (auto simp: Suc_le_eq)

lemma ranges_sep_empty: "ranges_sep p rs \<Longrightarrow> rs = [] \<longleftrightarrow> range_bytes rs = {}"
  by (cases rs) auto

subsection \<open>Coverage\<close>

lemma covered_loop_bytes:
  "extents_from p es \<Longrightarrow> cursor < rend \<Longrightarrow>
     covered_loop es cursor rend \<longleftrightarrow> {cursor..<rend} \<subseteq> extent_bytes es"
proof (induction es arbitrary: p cursor)
  case Nil
  then show ?case by auto
next
  case (Cons e es)
  then have wf: "extents_from (re_end e) es" and ne: "re_start e < re_end e" by auto
  consider "re_end e \<le> cursor" | "cursor < re_end e" "cursor < re_start e"
    | "re_start e \<le> cursor" "cursor < re_end e" "rend \<le> re_end e"
    | "re_start e \<le> cursor" "cursor < re_end e" "re_end e < rend" by linarith
  then show ?case
  proof cases
    case 1
    then have "{cursor..<rend} \<subseteq> extent_bytes (e # es) \<longleftrightarrow> {cursor..<rend} \<subseteq> extent_bytes es"
      by auto
    with 1 Cons.IH [OF wf Cons.prems(2)] show ?thesis by simp
  next
    case 2
    then have "cursor \<notin> extent_bytes (e # es)"
      using extents_from_bytes [OF wf, of cursor] by auto
    with 2 Cons.prems(2) show ?thesis by auto
  next
    case 3
    then show ?thesis by auto
  next
    case 4
    then have "{cursor..<rend} = {cursor..<re_end e} \<union> {re_end e..<rend}"
      "{re_end e..<rend} \<inter> {re_start e..<re_end e} = {}" "{cursor..<re_end e} \<subseteq> {re_start e..<re_end e}"
      by auto
    then have "{cursor..<rend} \<subseteq> extent_bytes (e # es) \<longleftrightarrow> {re_end e..<rend} \<subseteq> extent_bytes es"
      by (simp only: extent_bytes_simps) blast
    with 4 Cons.IH [OF wf 4(3)] show ?thesis by (simp add: max_def)
  qed
qed

lemma range_is_covered_iff:
  "extents_wf es \<Longrightarrow> range_is_covered es (a, b) \<longleftrightarrow> a < b \<and> {a..<b} \<subseteq> extent_bytes es"
  by (auto simp: covered_loop_bytes)

lemma fully_covered_loop_covered:
  "extents_from p es \<Longrightarrow> (case es of [] \<Rightarrow> True | e # _ \<Rightarrow> cursor < re_end e) \<Longrightarrow>
     fully_covered_loop es cursor pend = covered_loop es cursor pend"
proof (induction es arbitrary: p cursor)
  case (Cons e es)
  then have "fully_covered_loop es (re_end e) pend = covered_loop es (re_end e) pend"
    by (intro Cons.IH [of "re_end e"]) (auto split: list.split)
  with Cons.prems show ?case by (auto simp: max_def)
qed simp

lemma covered_loop_dropWhile:
  "extents_from p es \<Longrightarrow> covered_loop (dropWhile (\<lambda>e. re_end e \<le> c) es) c rend = covered_loop es c rend"
  by (induction es arbitrary: p) auto

lemma parent_is_fully_covered_eq:
  assumes "extents_wf es" "ps < pe"
  shows "parent_is_fully_covered es (ps, pe) = range_is_covered es (ps, pe)"
proof -
  let ?d = "dropWhile (\<lambda>e. re_end e \<le> ps) es"
  have "case ?d of [] \<Rightarrow> True | e # _ \<Rightarrow> ps < re_end e"
    by (auto simp: dropWhile_eq_Cons_conv split: list.split)
  then have "fully_covered_loop ?d ps pe = covered_loop ?d ps pe"
    using assms(1) extents_from_dropWhile fully_covered_loop_covered by blast
  with assms show ?thesis
    by (simp add: from_partition_point_def covered_loop_dropWhile)
qed

text \<open>
  The cursor loop \<open>range_is_covered\<close> decides coverage: on ordered, disjoint extents a
  non-empty range is reported as covered exactly when every byte of it is in some extent, and
  the binary-search variant \<open>parent_is_fully_covered\<close> gives the same answer.
\<close>

theorem range_is_covered_correct:
  assumes "extents_wf es"
  shows "(range_is_covered es (a, b) \<longleftrightarrow> a < b \<and> (\<forall>x. a \<le> x \<and> x < b \<longrightarrow> (\<exists>e \<in> set es. re_start e \<le> x \<and> x < re_end e)))
    \<and> (a < b \<longrightarrow> parent_is_fully_covered es (a, b) = range_is_covered es (a, b))"
proof
  show "range_is_covered es (a, b) \<longleftrightarrow>
      a < b \<and> (\<forall>x. a \<le> x \<and> x < b \<longrightarrow> (\<exists>e \<in> set es. re_start e \<le> x \<and> x < re_end e))"
    by (subst range_is_covered_iff [OF assms]) (auto simp: extent_bytes_def subset_iff)
  show "a < b \<longrightarrow> parent_is_fully_covered es (a, b) = range_is_covered es (a, b)"
    using parent_is_fully_covered_eq [OF assms] by blast
qed

definition demo_extents :: "range_extent list" where
  "demo_extents = [\<lparr>re_start = 0, re_end = 10, re_sha256 = []\<rparr>,
                   \<lparr>re_start = 10, re_end = 20, re_sha256 = []\<rparr>,
                   \<lparr>re_start = 30, re_end = 40, re_sha256 = []\<rparr>]"

lemma demo_extents_wf: "extents_wf demo_extents"
  by (simp add: demo_extents_def)

theorem range_is_covered_correct_witness:
  "range_is_covered demo_extents (5, 20) \<and> parent_is_fully_covered demo_extents (5, 20)"
  using range_is_covered_correct [OF demo_extents_wf, of 5 20]
  by (simp add: demo_extents_def)

subsection \<open>Missing ranges\<close>

lemma missing_within_loop_spec:
  assumes "extents_from p es" "cursor < rend" "missing_within_loop es cursor rend = (gaps, c)"
  shows "cursor \<le> c \<and> c \<le> rend \<and> range_bytes gaps \<union> {c..<rend} = {cursor..<rend} - extent_bytes es
    \<and> ranges_sep cursor gaps \<and> (\<forall>(a, b) \<in> set gaps. b < c)"
  using assms
proof (induction es arbitrary: p cursor gaps c)
  case Nil
  then show ?case by auto
next
  case (Cons e es)
  then have wf: "extents_from (re_end e) es" and ne: "re_start e < re_end e" by auto
  note above = extents_from_bytes [OF wf]
  consider "re_end e \<le> cursor" | "cursor < re_end e" "rend \<le> re_start e"
    | "cursor < re_end e" "re_start e < rend" "rend \<le> re_end e"
    | "cursor < re_end e" "re_start e < rend" "re_end e < rend" by linarith
  then show ?case
  proof cases
    case 1
    with Cons.IH [OF wf Cons.prems(2)] Cons.prems(3) show ?thesis by auto
  next
    case 2
    with Cons.prems(3) have "c = cursor" "gaps = []" by auto
    moreover have "{cursor..<rend} - extent_bytes (e # es) = {cursor..<rend}"
      using 2 ne above by force
    ultimately show ?thesis using Cons.prems(2) by simp
  next
    case 3
    with Cons.prems(2,3) have "c = rend" "gaps = (if cursor < re_start e then [(cursor, re_start e)] else [])"
      by (auto simp: Let_def max_def min_def split: if_splits)
    moreover have "{cursor..<rend} - extent_bytes (e # es) = {cursor..<re_start e}"
      using 3 above by force
    ultimately show ?thesis using 3 Cons.prems(2) by auto
  next
    case 4
    obtain gs where l: "missing_within_loop es (re_end e) rend = (gs, c)"
      and g: "gaps = (if cursor < re_start e then [(cursor, re_start e)] else []) @ gs"
      using 4 Cons.prems(3) by (auto simp: Let_def max_def min_def split: prod.splits if_splits)
    from Cons.IH [OF wf 4(3) l] have ih: "re_end e \<le> c" "c \<le> rend"
      "range_bytes gs \<union> {c..<rend} = {re_end e..<rend} - extent_bytes es"
      "ranges_sep (re_end e) gs" "\<forall>(a, b) \<in> set gs. b < c" by auto
    have "range_bytes gaps \<union> {c..<rend} = {cursor..<min (re_start e) rend} \<union> ({re_end e..<rend} - extent_bytes es)"
      using ih(3) 4 by (auto simp: g)
    also have "\<dots> = {cursor..<rend} - extent_bytes (e # es)"
      using 4 ne above by force
    finally have bytes: "range_bytes gaps \<union> {c..<rend} = {cursor..<rend} - extent_bytes (e # es)" .
    have "ranges_sep cursor gaps"
      using ih(4) 4 ne by (auto simp: g elim!: ranges_sep_mono)
    moreover have "\<forall>(a, b) \<in> set gaps. b < c"
      using ih(1,5) ne by (auto simp: g)
    ultimately show ?thesis using ih(1,2) 4(1) bytes by auto
  qed
qed

lemma missing_within_spec:
  assumes "extents_wf es" "a < b"
  shows "range_bytes (missing_ranges_within es (a, b)) = {a..<b} - extent_bytes es
    \<and> ranges_sep a (missing_ranges_within es (a, b))"
proof -
  obtain gaps c where l: "missing_within_loop es a b = (gaps, c)" by fastforce
  note spec = missing_within_loop_spec [OF assms l]
  have m: "missing_ranges_within es (a, b) = gaps @ (if c < b then [(c, b)] else [])"
    using assms(2) l by simp
  have "range_bytes (missing_ranges_within es (a, b)) = {a..<b} - extent_bytes es"
    using spec unfolding m by (cases "c < b") auto
  moreover have "ranges_sep a (missing_ranges_within es (a, b))"
    using spec unfolding m by (auto simp: ranges_sep_snoc dest!: last_in_set)
  ultimately show ?thesis by blast
qed

lemma missing_within_bytes:
  "extents_wf es \<Longrightarrow> range_bytes (missing_ranges_within es (a, b)) = {a..<b} - extent_bytes es"
  using missing_within_spec [of es a b] by (cases "a < b") auto

text \<open>
  C5. \<open>missing_ranges_within\<close> returns exactly the bytes of the requested range that no extent
  covers, as non-empty ranges in ascending order that do not touch, all inside the request;
  in particular the result is empty exactly when the request is covered (or empty).
\<close>

theorem missing_ranges_within_correct:
  assumes "extents_wf es"
  shows "range_bytes (missing_ranges_within es (a, b)) = {a..<b} - extent_bytes es
    \<and> ranges_sep a (missing_ranges_within es (a, b))
    \<and> (a < b \<longrightarrow> (missing_ranges_within es (a, b) = [] \<longleftrightarrow> range_is_covered es (a, b)))"
proof (cases "a < b")
  case False
  then show ?thesis by simp
next
  case True
  note bytes = missing_within_bytes [OF assms] and sep = conjunct2 [OF missing_within_spec [OF assms True]]
  have "missing_ranges_within es (a, b) = [] \<longleftrightarrow> {a..<b} - extent_bytes es = {}"
    using bytes [of a b] ranges_sep_empty [OF sep] by (simp only:)
  then have "missing_ranges_within es (a, b) = [] \<longleftrightarrow> range_is_covered es (a, b)"
    using True by (simp only: range_is_covered_iff [OF assms] Diff_eq_empty_iff simp_thms)
  with bytes sep show ?thesis by blast
qed

theorem missing_ranges_within_correct_witness:
  "missing_ranges_within demo_extents (5, 50) = [(20, 30), (40, 50)]
   \<and> range_bytes (missing_ranges_within demo_extents (5, 50)) = {5..<50} - extent_bytes demo_extents"
  using missing_ranges_within_correct [OF demo_extents_wf, of 5 50]
  by (simp add: demo_extents_def)

lemma missing_ranges_loop_spec:
  assumes "extents_from p es" "c \<le> p" "c \<le> tot" "\<forall>e \<in> set es. re_end e \<le> tot"
  shows "missing_ranges_loop es c tot = missing_ranges_within es (c, tot)"
  using assms
proof (induction es arbitrary: p c)
  case Nil
  then show ?case by auto
next
  case (Cons e es)
  then have wf: "extents_from (re_end e) es" and e: "c \<le> re_start e" "re_start e < re_end e" "re_end e \<le> tot"
    by auto
  have "missing_ranges_loop es (re_end e) tot = missing_ranges_within es (re_end e, tot)"
    using Cons.prems e by (intro Cons.IH [OF wf]) auto
  then show ?case
    using e by (auto simp: Let_def max_def min_def split: prod.splits)
qed

lemma durable_extent_bytes_fold:
  "extents_from p es \<Longrightarrow> \<forall>e \<in> set es. re_end e \<le> u64_max \<Longrightarrow> acc + card (extent_bytes es) \<le> u64_max \<Longrightarrow>
     fold (\<lambda>e acc. saturating_add acc (re_end e - re_start e)) es acc = acc + card (extent_bytes es)"
proof (induction es arbitrary: p acc)
  case (Cons e es)
  have "finite (extent_bytes es)" by (simp add: extent_bytes_def)
  moreover have "{re_start e..<re_end e} \<inter> extent_bytes es = {}"
    using extents_from_bytes [of "re_end e" es] Cons.prems(1) by force
  ultimately have card: "card (extent_bytes (e # es)) = re_end e - re_start e + card (extent_bytes es)"
    by (simp add: card_Un_disjoint)
  with Cons.prems(3) have "saturating_add acc (re_end e - re_start e) = acc + (re_end e - re_start e)"
    by (intro saturating_add_exact) simp
  with Cons.prems card Cons.IH [of "re_end e" "acc + (re_end e - re_start e)"] show ?case
    by (simp del: extent_bytes_simps)
qed simp

text \<open>
  For extents inside the resource, \<open>missing_ranges\<close> is \<open>missing_ranges_within\<close> on the whole
  resource, and the durable bytes the manifest reports plus the missing bytes make up the total
  length.
\<close>

theorem missing_ranges_complement:
  assumes "extents_wf es" and "\<forall>e \<in> set es. re_end e \<le> tot" and "tot \<le> u64_max"
  shows "missing_ranges es tot = missing_ranges_within es (0, tot)
    \<and> durable_extent_bytes es + card (range_bytes (missing_ranges es tot)) = tot"
proof -
  have m: "missing_ranges es tot = missing_ranges_within es (0, tot)"
    unfolding missing_ranges_def using assms by (intro missing_ranges_loop_spec) auto
  have sub: "extent_bytes es \<subseteq> {0..<tot}"
    using assms(2) by (force simp: extent_bytes_def)
  then have le: "card (extent_bytes es) \<le> tot"
    using card_mono [of "{0..<tot}"] by simp
  have "durable_extent_bytes es = card (extent_bytes es)"
    unfolding durable_extent_bytes_def
    using durable_extent_bytes_fold [OF assms(1), of 0] assms(2,3) le by fastforce
  moreover have "range_bytes (missing_ranges_within es (0, tot)) = {0..<tot} - extent_bytes es"
    using missing_within_bytes [OF assms(1)] .
  moreover have "card ({0..<tot} - extent_bytes es) = tot - card (extent_bytes es)"
    using sub by (simp add: card_Diff_subset finite_subset)
  ultimately show ?thesis using m le by simp
qed

theorem missing_ranges_complement_witness:
  "missing_ranges demo_extents 50 = [(20, 30), (40, 50)]
   \<and> durable_extent_bytes demo_extents + card (range_bytes (missing_ranges demo_extents 50)) = 50"
proof -
  have "\<forall>e \<in> set demo_extents. re_end e \<le> 50" by (simp add: demo_extents_def)
  from missing_ranges_complement [OF demo_extents_wf this] show ?thesis
    by (simp add: missing_ranges_def) (simp add: demo_extents_def)
qed

section \<open>The plan of chunks\<close>

text \<open>\<open>contiguous a rs b\<close>: the non-empty ranges \<open>rs\<close> follow each other without a gap from \<open>a\<close> to \<open>b\<close>.\<close>

fun contiguous :: "nat \<Rightarrow> byte_range list \<Rightarrow> nat \<Rightarrow> bool" where
  "contiguous a [] b = (a = b)"
| "contiguous a ((x, y) # rs) b \<longleftrightarrow> x = a \<and> x < y \<and> contiguous y rs b"

lemma cut_range_step:
  assumes "start < tot" "tot \<le> u64_max" "0 < sz"
  shows "cut_range sz start tot = (start, min (start + sz) tot) # cut_range sz (min (start + sz) tot) tot"
  using assms by (subst cut_range.simps) (simp add: Let_def saturating_add_min_le)

lemma cut_range_stop [simp]: "tot \<le> start \<Longrightarrow> cut_range sz start tot = []"
  by (subst cut_range.simps) simp

lemma cut_range_contiguous:
  "start \<le> tot \<Longrightarrow> tot \<le> u64_max \<Longrightarrow> 0 < sz \<Longrightarrow>
     contiguous start (cut_range sz start tot) tot
     \<and> (\<forall>(a, b) \<in> set (cut_range sz start tot). start \<le> a \<and> b - a \<le> sz \<and> a < b \<and> b \<le> tot)"
proof (induction sz start tot rule: cut_range.induct)
  case (1 sz start tot)
  show ?case
  proof (cases "start < tot")
    case True
    let ?e = "min (start + sz) tot"
    have "min (saturating_add start sz) tot = ?e"
      using 1(3) by (simp add: saturating_add_min_le)
    then have "contiguous ?e (cut_range sz ?e tot) tot
        \<and> (\<forall>(a, b) \<in> set (cut_range sz ?e tot). ?e \<le> a \<and> b - a \<le> sz \<and> a < b \<and> b \<le> tot)"
      using 1 True by simp
    with True 1(3,4) show ?thesis
      by (auto simp: cut_range_step)
  next
    case False
    with 1(2) show ?thesis by simp
  qed
qed

lemma cut_range_nth:
  assumes "tot \<le> u64_max" "0 < sz"
  shows "start + q * sz < tot \<Longrightarrow> q < length (cut_range sz start tot)
     \<and> cut_range sz start tot ! q = (start + q * sz, min (start + Suc q * sz) tot)"
proof (induction q arbitrary: start)
  case 0
  with assms show ?case by (simp add: cut_range_step)
next
  case (Suc q)
  then have lt: "start < tot" and m: "min (start + sz) tot = start + sz" by auto
  from Suc.prems have "start + sz + q * sz < tot" by (simp add: algebra_simps)
  from Suc.IH [OF this] show ?case
    using assms by (simp add: cut_range_step [OF lt] m algebra_simps)
qed

lemma cut_range_length_le:
  assumes "tot \<le> u64_max" "0 < sz"
  shows "tot \<le> start + n * sz \<Longrightarrow> length (cut_range sz start tot) \<le> n"
proof (induction n arbitrary: start)
  case (Suc n)
  show ?case
  proof (cases "start < tot")
    case True
    have "length (cut_range sz (min (start + sz) tot) tot) \<le> n"
      using Suc by (intro Suc.IH) (auto simp: algebra_simps min_def)
    with True assms show ?thesis by (simp add: cut_range_step)
  qed simp
qed simp

lemma parent_size_pos: "0 < parent_size_of n"
  by (simp add: parent_size_of_def clamp_def range_consts)

lemma parent_size_le: "parent_size_of n \<le> RANGE_MAX_CHUNK_BYTES"
  by (simp add: parent_size_of_def clamp_def)

lemma div_ceil_le_iff: "0 < b \<Longrightarrow> div_ceil a b \<le> n \<longleftrightarrow> a \<le> n * b"
proof -
  assume b: "0 < b"
  have "div_ceil a b \<le> n \<longleftrightarrow> (a + b - 1) div b < Suc n" by (auto simp: div_ceil_def)
  also have "\<dots> \<longleftrightarrow> a + b - 1 < Suc n * b" using b by (rule div_less_iff_less_mult)
  also have "\<dots> \<longleftrightarrow> a \<le> n * b" using b by auto
  finally show ?thesis .
qed

lemma parent_size_enough:
  assumes "rem \<le> RANGE_MAX_CHUNK_BYTES * (RANGE_MAX_CHUNKS - 1)"
  shows "rem \<le> (RANGE_MAX_CHUNKS - 1) * parent_size_of rem"
proof -
  let ?n = "RANGE_MAX_CHUNKS - 1"
  have n: "0 < ?n" "max ?n 1 = ?n" by (simp_all add: range_consts)
  have "div_ceil rem ?n \<le> RANGE_MAX_CHUNK_BYTES"
    using assms n by (simp add: div_ceil_le_iff)
  then have "div_ceil rem ?n \<le> parent_size_of rem"
    unfolding parent_size_of_def n(2) clamp_def by simp
  then have "div_ceil rem ?n * ?n \<le> parent_size_of rem * ?n" by (rule mult_le_mono1)
  with div_ceil_mult_ge [OF n(1), of rem] show ?thesis
    by (metis le_trans mult.commute)
qed

lemma planned_chunks_facts:
  assumes "tot \<le> u64_max"
  shows "contiguous 0 (planned_range_chunks tot) tot
    \<and> (\<forall>(a, b) \<in> set (planned_range_chunks tot). b - a \<le> RANGE_MAX_CHUNK_BYTES)
    \<and> (range_size_is_resumable tot \<longrightarrow> length (planned_range_chunks tot) \<le> RANGE_MAX_CHUNKS)"
proof (cases "tot \<le> RANGE_STARTUP_CHUNK_BYTES")
  case True
  then show ?thesis
    by (auto simp: planned_range_chunks_def Let_def range_consts)
next
  case False
  let ?f = "RANGE_STARTUP_CHUNK_BYTES" and ?sz = "parent_size_of (tot - RANGE_STARTUP_CHUNK_BYTES)"
  from False have p: "planned_range_chunks tot = (0, ?f) # cut_range ?sz ?f tot"
    by (simp add: planned_range_chunks_def Let_def range_consts)
  have c: "contiguous ?f (cut_range ?sz ?f tot) tot
      \<and> (\<forall>(a, b) \<in> set (cut_range ?sz ?f tot). ?f \<le> a \<and> b - a \<le> ?sz \<and> a < b \<and> b \<le> tot)"
    using False assms parent_size_pos by (intro cut_range_contiguous) auto
  have "length (cut_range ?sz ?f tot) \<le> RANGE_MAX_CHUNKS - 1" if "tot \<le> RANGE_MAX_SIZE"
  proof (rule cut_range_length_le [OF assms parent_size_pos])
    have "tot - ?f \<le> RANGE_MAX_CHUNK_BYTES * (RANGE_MAX_CHUNKS - 1)"
      using that by (simp add: range_consts saturating_mul_def)
    from parent_size_enough [OF this] show "tot \<le> ?f + (RANGE_MAX_CHUNKS - 1) * ?sz" by simp
  qed
  moreover have "?f \<le> RANGE_MAX_CHUNK_BYTES" "0 < ?f" "0 < RANGE_MAX_CHUNKS" by (simp_all add: range_consts)
  ultimately show ?thesis
    using c parent_size_le [of "tot - ?f"] unfolding p range_size_is_resumable_def
    by (fastforce simp: le_diff_conv2)
qed

lemma planned_chunks_small:
  "tot \<le> u64_max \<Longrightarrow> \<forall>(a, b) \<in> set (planned_range_chunks tot). b - a \<le> RANGE_MAX_CHUNK_BYTES"
  using planned_chunks_facts [of tot] by blast

text \<open>
  The plan of a resource is a partition: for every length up to the 64 bit limit the planned
  chunks follow each other without gap or overlap from byte 0 to the end, none is larger than
  \<open>RANGE_MAX_CHUNK_BYTES\<close>, and a resource of resumable size has at most \<open>RANGE_MAX_CHUNKS\<close> chunks.
\<close>

theorem planned_chunks_partition:
  assumes "tot \<le> u64_max"
  shows "contiguous 0 (planned_range_chunks tot) tot
    \<and> (\<forall>(a, b) \<in> set (planned_range_chunks tot). b - a \<le> RANGE_MAX_CHUNK_BYTES)
    \<and> (range_size_is_resumable tot \<longrightarrow> length (planned_range_chunks tot) \<le> RANGE_MAX_CHUNKS)"
  using assms by (rule planned_chunks_facts)

theorem planned_chunks_partition_witness:
  "contiguous 0 (planned_range_chunks 1000000) 1000000 \<and> length (planned_range_chunks 1000000) \<le> 8192"
  using planned_chunks_partition [of 1000000]
  by (simp add: range_size_is_resumable_def range_consts saturating_mul_def)

subsection \<open>The parent of an offset\<close>

lemma parent_first:
  "offset < min tot RANGE_STARTUP_CHUNK_BYTES \<Longrightarrow>
    logical_range_parent_with_index tot offset = Some (0, (0, min tot RANGE_STARTUP_CHUNK_BYTES))"
  by (simp add: logical_range_parent_with_index_def Let_def)

lemma parent_later:
  assumes "RANGE_STARTUP_CHUNK_BYTES \<le> offset" "offset < tot" "tot \<le> u64_max"
  defines "f \<equiv> RANGE_STARTUP_CHUNK_BYTES"
  defines "sz \<equiv> parent_size_of (tot - f)"
  defines "q \<equiv> (offset - f) div sz"
  shows "logical_range_parent_with_index tot offset = Some (Suc q, (f + q * sz, min (f + Suc q * sz) tot))
    \<and> f + q * sz \<le> offset \<and> offset < min (f + Suc q * sz) tot"
proof -
  have sz: "0 < sz" by (simp add: sz_def parent_size_pos)
  have le: "f + q * sz \<le> offset"
    using assms(1) div_times_less_eq_dividend [of "offset - f" sz] unfolding q_def f_def by linarith
  have "offset - f < Suc q * sz"
    unfolding q_def using sz by (simp add: dividend_less_div_times)
  then have lt: "offset < f + Suc q * sz" using assms(1) by (simp add: f_def)
  have "saturating_mul q sz = q * sz" "saturating_add f (q * sz) = f + q * sz"
    using le assms(2,3) by (simp_all add: saturating_mul_def saturating_add_def)
  moreover have "min (saturating_add (f + q * sz) sz) tot = min (f + Suc q * sz) tot"
    using assms(3) by (simp add: saturating_add_min_le algebra_simps)
  moreover have "min tot f = f" "\<not> offset < f" "tot \<noteq> 0" using assms(1,2) by (auto simp: f_def)
  ultimately have "logical_range_parent_with_index tot offset = Some (Suc q, (f + q * sz, min (f + Suc q * sz) tot))"
    using assms(2) unfolding logical_range_parent_with_index_def f_def [symmetric]
    by (simp add: Let_def sz_def [symmetric] q_def [symmetric])
  with le lt assms(2) show ?thesis by simp
qed

lemma parent_props:
  assumes "offset < tot" "tot \<le> u64_max"
  obtains i a b where "logical_range_parent_with_index tot offset = Some (i, (a, b))"
    "a \<le> offset" "offset < b" "b \<le> tot" "i < length (planned_range_chunks tot)"
    "planned_range_chunks tot ! i = (a, b)"
    "b < tot \<Longrightarrow> \<exists>b'. logical_range_parent_with_index tot b = Some (Suc i, (b, b'))"
proof (cases "offset < RANGE_STARTUP_CHUNK_BYTES")
  case True
  let ?f = "min tot RANGE_STARTUP_CHUNK_BYTES"
  have "\<exists>b'. logical_range_parent_with_index tot ?f = Some (Suc 0, (?f, b'))" if "?f < tot"
    using that parent_later [of ?f tot] assms(2) by (auto simp: min_def split: if_splits)
  moreover have "0 < length (planned_range_chunks tot)" "planned_range_chunks tot ! 0 = (0, ?f)"
    using assms(1) by (auto simp: planned_range_chunks_def Let_def)
  ultimately show ?thesis
    using that [of 0 0 ?f] True assms(1) parent_first [of offset tot] by simp
next
  case False
  let ?f = "RANGE_STARTUP_CHUNK_BYTES"
  let ?sz = "parent_size_of (tot - ?f)"
  let ?q = "(offset - ?f) div ?sz"
  let ?b = "min (?f + Suc ?q * ?sz) tot"
  from False have le: "?f \<le> offset" by simp
  note p = parent_later [OF le assms]
  have pl: "planned_range_chunks tot = (0, ?f) # cut_range ?sz ?f tot"
    using le assms(1) by (simp add: planned_range_chunks_def Let_def range_consts)
  have n: "?q < length (cut_range ?sz ?f tot) \<and> cut_range ?sz ?f tot ! ?q = (?f + ?q * ?sz, ?b)"
    using p assms by (intro cut_range_nth parent_size_pos) auto
  have "\<exists>b'. logical_range_parent_with_index tot ?b = Some (Suc (Suc ?q), (?b, b'))" if "?b < tot"
  proof -
    have b: "?b = ?f + Suc ?q * ?sz" using that by simp
    have "(?b - ?f) div ?sz = Suc ?q" unfolding b using parent_size_pos [of "tot - ?f"] by simp
    moreover have "?f \<le> ?b" unfolding b by simp
    ultimately show ?thesis
      using parent_later [OF _ that assms(2)] b by metis
  qed
  with p n show ?thesis
    by (intro that [of "Suc ?q" "?f + ?q * ?sz" ?b]) (simp_all add: pl)
qed

text \<open>
  The direct computation of the chunk that contains an offset agrees with the plan: for every
  offset inside the resource \<open>logical_range_parent_with_index\<close> returns an index of the plan, the
  chunk planned at that index, and that chunk contains the offset.
\<close>

theorem logical_parent_matches_plan:
  assumes "offset < tot" and "tot \<le> u64_max"
  shows "\<exists>i a b. logical_range_parent_with_index tot offset = Some (i, (a, b))
    \<and> i < length (planned_range_chunks tot) \<and> planned_range_chunks tot ! i = (a, b)
    \<and> a \<le> offset \<and> offset < b"
  by (rule parent_props [OF assms]) blast

theorem logical_parent_matches_plan_witness:
  "\<exists>i a b. logical_range_parent_with_index 2000000 600000 = Some (i, (a, b)) \<and> a \<le> 600000 \<and> 600000 < b"
  using logical_parent_matches_plan [of 600000 2000000] by auto

subsection \<open>Foreground chunks\<close>

text \<open>What every chunk of a foreground plan satisfies, for the request \<open>[rstart, rend)\<close>.\<close>

definition foreground_chunk_ok ::
  "range_extent list \<Rightarrow> nat \<Rightarrow> nat \<Rightarrow> nat \<Rightarrow> nat \<times> byte_range \<Rightarrow> bool" where
  "foreground_chunk_ok es tot rstart rend c =
     (case c of (i, (x, y)) \<Rightarrow>
        x < y \<and> y - x \<le> RANGE_FOREGROUND_CHUNK_BYTES \<and> x < rend \<and> rstart < y
        \<and> \<not> range_is_covered es (x, y) \<and> i < length (planned_range_chunks tot)
        \<and> fst (planned_range_chunks tot ! i) \<le> x \<and> y \<le> snd (planned_range_chunks tot ! i))"

abbreviation chunk_before :: "nat \<times> byte_range \<Rightarrow> nat \<times> byte_range \<Rightarrow> bool" where
  "chunk_before c d \<equiv> snd (snd c) \<le> fst (snd d)"

lemma contiguous_sorted:
  "contiguous a rs b \<Longrightarrow> sorted_wrt (\<lambda>r r'. snd r \<le> fst r') rs \<and> (\<forall>r \<in> set rs. a \<le> fst r \<and> fst r < snd r \<and> snd r \<le> b)"
proof (induction rs arbitrary: a)
  case (Cons r rs)
  then have "contiguous (snd r) rs b" "fst r = a" "a < snd r" by (cases r; auto)+
  with Cons.IH [of "snd r"] show ?case by (cases rs) force+
qed simp

lemma contiguous_covers: "contiguous a rs b \<Longrightarrow> a \<le> x \<Longrightarrow> x < b \<Longrightarrow> \<exists>(p, q) \<in> set rs. p \<le> x \<and> x < q"
proof (induction rs arbitrary: a)
  case (Cons r rs)
  then show ?case by (cases "x < snd r"; cases r; fastforce)
qed simp

lemma foreground_parent_spec:
  fixes rstart :: nat
  assumes wf: "extents_wf es" and tot: "tot \<le> u64_max" and rend: "rend \<le> tot"
    and i: "i < length (planned_range_chunks tot)" "planned_range_chunks tot ! i = (ps, pe)"
    and p: "ps < pe" "pe \<le> tot"
  defines "cs \<equiv> foreground_chunks_of_parent es rstart rend (i, (ps, pe))"
  shows "(\<forall>c \<in> set cs. foreground_chunk_ok es tot rstart rend c \<and> ps \<le> fst (snd c) \<and> snd (snd c) \<le> pe)
    \<and> sorted_wrt chunk_before cs
    \<and> (\<forall>x. max rstart ps \<le> x \<longrightarrow> x < min rend pe \<longrightarrow> x \<notin> extent_bytes es
          \<longrightarrow> (\<exists>c \<in> set cs. fst (snd c) \<le> x \<and> x < snd (snd c)))"
proof -
  let ?rs = "cut_range RANGE_FOREGROUND_CHUNK_BYTES ps pe"
  have c: "contiguous ps ?rs pe" "\<forall>(a, b) \<in> set ?rs. ps \<le> a \<and> b - a \<le> RANGE_FOREGROUND_CHUNK_BYTES \<and> a < b \<and> b \<le> pe"
    using cut_range_contiguous [of ps pe RANGE_FOREGROUND_CHUNK_BYTES] p tot by (simp_all add: range_consts)
  have cs: "cs = map (Pair i) (filter (\<lambda>(a, b). a < rend \<and> rstart < b \<and> \<not> range_is_covered es (a, b)) ?rs)"
    by (simp add: cs_def foreground_chunks_of_parent_def)
  have "\<forall>c \<in> set cs. foreground_chunk_ok es tot rstart rend c \<and> ps \<le> fst (snd c) \<and> snd (snd c) \<le> pe"
    using c(2) i by (fastforce simp: cs foreground_chunk_ok_def)
  moreover have "sorted_wrt chunk_before cs"
    using contiguous_sorted [OF c(1)]
    by (auto simp: cs sorted_wrt_map sorted_wrt_filter)
  moreover have "\<exists>c \<in> set cs. fst (snd c) \<le> x \<and> x < snd (snd c)"
    if x: "max rstart ps \<le> x" "x < min rend pe" "x \<notin> extent_bytes es" for x
  proof -
    obtain a b where ab: "(a, b) \<in> set ?rs" "a \<le> x" "x < b"
      using contiguous_covers [OF c(1), of x] x by auto
    then have "\<not> range_is_covered es (a, b)"
      using x(3) by (auto simp only: range_is_covered_iff [OF wf] subset_iff atLeastLessThan_iff)
    with ab x have "(i, (a, b)) \<in> set cs" by (auto simp: cs simp del: range_is_covered.simps)
    with ab show ?thesis by force
  qed
  ultimately show ?thesis by blast
qed

lemma foreground_loop_spec:
  assumes "extents_wf es" "tot \<le> u64_max" "rend \<le> tot" "rstart \<le> offset"
    "foreground_loop es tot rstart rend offset = (cs, v)"
  shows "(\<forall>c \<in> set cs. foreground_chunk_ok es tot rstart rend c
        \<and> (\<forall>i a b. logical_range_parent_with_index tot offset = Some (i, (a, b)) \<longrightarrow> a \<le> fst (snd c)))
     \<and> sorted_wrt chunk_before cs
     \<and> (\<forall>x. offset \<le> x \<longrightarrow> x < rend \<longrightarrow> x \<notin> extent_bytes es
          \<longrightarrow> (\<exists>c \<in> set cs. fst (snd c) \<le> x \<and> x < snd (snd c)))"
  using assms
proof (induction es tot rstart rend offset arbitrary: cs v rule: foreground_loop.induct)
  case (1 es tot rstart rend offset)
  note wf = 1(2) and tot = 1(3) and rend = 1(4) and rs = 1(5)
  show ?case
  proof (cases "offset < rend")
    case False
    with 1(6) have "cs = []" by (simp add: foreground_loop.simps)
    with False show ?thesis by simp
  next
    case True
    then have lt: "offset < tot" using rend by simp
    obtain i a b where p: "logical_range_parent_with_index tot offset = Some (i, (a, b))"
      and ab: "a \<le> offset" "offset < b" "b \<le> tot"
      and i: "i < length (planned_range_chunks tot)" "planned_range_chunks tot ! i = (a, b)"
      and nxt: "b < tot \<Longrightarrow> \<exists>b'. logical_range_parent_with_index tot b = Some (Suc i, (b, b'))"
      using parent_props [OF lt tot] by metis
    let ?cs = "foreground_chunks_of_parent es rstart rend (i, (a, b))"
    obtain rest w where r: "foreground_loop es tot rstart rend b = (rest, w)" by fastforce
    have cs: "cs = ?cs @ rest"
      using 1(6) True p ab r by (subst (asm) foreground_loop.simps) (simp add: Let_def)
    have ih: "(\<forall>c \<in> set rest. foreground_chunk_ok es tot rstart rend c
        \<and> (\<forall>i a b'. logical_range_parent_with_index tot b = Some (i, (a, b')) \<longrightarrow> a \<le> fst (snd c)))
      \<and> sorted_wrt chunk_before rest
      \<and> (\<forall>x. b \<le> x \<longrightarrow> x < rend \<longrightarrow> x \<notin> extent_bytes es
          \<longrightarrow> (\<exists>c \<in> set rest. fst (snd c) \<le> x \<and> x < snd (snd c)))"
      using 1(1) [OF True p refl refl refl ab(2) wf tot rend _ r] rs ab by simp
    have ps: "(\<forall>c \<in> set ?cs. foreground_chunk_ok es tot rstart rend c \<and> a \<le> fst (snd c) \<and> snd (snd c) \<le> b)
      \<and> sorted_wrt chunk_before ?cs
      \<and> (\<forall>x. max rstart a \<le> x \<longrightarrow> x < min rend b \<longrightarrow> x \<notin> extent_bytes es
          \<longrightarrow> (\<exists>c \<in> set ?cs. fst (snd c) \<le> x \<and> x < snd (snd c)))"
      using ab by (intro foreground_parent_spec [OF wf tot rend i]) auto
    have later: "b \<le> fst (snd c)" if "c \<in> set rest" for c
    proof (cases "b < rend")
      case True
      with nxt rend ih that show ?thesis by fastforce
    next
      case False
      with r that show ?thesis by (simp add: foreground_loop.simps)
    qed
    have "sorted_wrt chunk_before cs"
      using ps ih later by (fastforce simp: cs sorted_wrt_append)
    moreover have "\<exists>c \<in> set cs. fst (snd c) \<le> x \<and> x < snd (snd c)"
      if x: "offset \<le> x" "x < rend" "x \<notin> extent_bytes es" for x
    proof (cases "x < b")
      case True
      then have "max rstart a \<le> x" "x < min rend b" using x rs ab(1) by simp_all
      with ps x(3) have "\<exists>c \<in> set ?cs. fst (snd c) \<le> x \<and> x < snd (snd c)" by blast
      then show ?thesis by (auto simp: cs)
    next
      case False
      then have "\<exists>c \<in> set rest. fst (snd c) \<le> x \<and> x < snd (snd c)" using ih x by simp
      then show ?thesis by (auto simp: cs)
    qed
    moreover have "foreground_chunk_ok es tot rstart rend c \<and> a \<le> fst (snd c)" if "c \<in> set cs" for c
    proof (cases "c \<in> set ?cs")
      case True
      with ps show ?thesis by blast
    next
      case False
      with that have "c \<in> set rest" by (simp add: cs)
      moreover from later [OF this] ab have "a \<le> fst (snd c)" by linarith
      ultimately show ?thesis using ih by blast
    qed
    ultimately show ?thesis using p by auto
  qed
qed

text \<open>
  The foreground plan of a request fetches what the request misses and nothing else: every
  byte of the request (cut at the end of the resource) that no extent covers lies in some chunk
  of the plan; every chunk meets the request, is not covered yet, has at most
  \<open>RANGE_FOREGROUND_CHUNK_BYTES\<close> bytes and lies inside the planned chunk whose index it carries;
  the chunks are in ascending order and do not overlap.
\<close>

theorem foreground_plan_correct:
  assumes "extents_wf es" and "tot \<le> u64_max" and "a < b" and "a < tot"
  defines "cs \<equiv> planned_foreground_range_chunks tot (a, b) es"
  shows "(\<forall>x. a \<le> x \<and> x < min b tot \<and> x \<notin> extent_bytes es \<longrightarrow> x \<in> range_bytes (map snd cs))
    \<and> (\<forall>c \<in> set cs. foreground_chunk_ok es tot a (min b tot) c)
    \<and> sorted_wrt chunk_before cs"
proof -
  obtain v where "foreground_loop es tot a (min b tot) a = (cs, v)"
    using assms(3,4) unfolding cs_def planned_foreground_range_chunks_def
      planned_foreground_range_chunks_with_parent_visits_def
    by (cases "foreground_loop es tot a (min b tot) a") simp
  from foreground_loop_spec [OF assms(1,2) _ _ this]
  have s: "(\<forall>c \<in> set cs. foreground_chunk_ok es tot a (min b tot) c) \<and> sorted_wrt chunk_before cs"
    and m: "\<And>x. a \<le> x \<Longrightarrow> x < min b tot \<Longrightarrow> x \<notin> extent_bytes es
      \<Longrightarrow> \<exists>c \<in> set cs. fst (snd c) \<le> x \<and> x < snd (snd c)" by auto
  have "x \<in> range_bytes (map snd cs)" if "a \<le> x" "x < min b tot" "x \<notin> extent_bytes es" for x
    using m [OF that] by (force simp: range_bytes_def split: prod.split)
  with s show ?thesis by blast
qed

theorem foreground_plan_correct_witness:
  "25 \<in> range_bytes (map snd (planned_foreground_range_chunks 100 (5, 50) demo_extents))"
proof -
  have "25 \<notin> extent_bytes demo_extents" by (simp add: demo_extents_def)
  with foreground_plan_correct [OF demo_extents_wf, of 100 5 50] show ?thesis by simp
qed

section \<open>Compaction keeps the bytes\<close>

text \<open>
  \<open>touching a mid b\<close>: the extents \<open>mid\<close> follow each other without gap from \<open>a\<close> to \<open>b\<close>.
  \<open>run_of es (a, b)\<close>: at least two neighbouring extents of \<open>es\<close> do.
\<close>

fun touching :: "nat \<Rightarrow> range_extent list \<Rightarrow> nat \<Rightarrow> bool" where
  "touching a [] b = (a = b)"
| "touching a (e # es) b \<longleftrightarrow> re_start e = a \<and> touching (re_end e) es b"

definition run_of :: "range_extent list \<Rightarrow> nat \<Rightarrow> nat \<Rightarrow> bool" where
  "run_of es a b \<longleftrightarrow> (\<exists>pre mid post. es = pre @ mid @ post \<and> 2 \<le> length mid \<and> touching a mid b)"

lemma run_of_Cons: "run_of es a b \<Longrightarrow> run_of (e # es) a b"
  unfolding run_of_def by (metis append_Cons)

lemma run_of_append: "run_of es a b \<Longrightarrow> run_of (pre @ es) a b"
  by (induction pre) (simp_all add: run_of_Cons)

lemma extend_run_touching:
  "\<exists>mid post. xs = mid @ post \<and> touching e mid (extend_run start e pend xs)
     \<and> (mid = [] \<longleftrightarrow> \<not> run_extends start e pend xs)
     \<and> (e \<le> pend \<longrightarrow> extend_run start e pend xs \<le> pend)"
proof (induction xs arbitrary: e)
  case Nil
  then show ?case by (simp add: run_extends_def)
next
  case (Cons x xs)
  show ?case
  proof (cases "run_extends start e pend (x # xs)")
    case True
    then have x: "re_start x = e" "re_end x \<le> pend" "re_end x - start \<le> RANGE_MAX_CHUNK_BYTES"
      by (simp_all add: run_extends_def)
    from Cons.IH [of "re_end x"] obtain mid post where
      "xs = mid @ post" "touching (re_end x) mid (extend_run start (re_end x) pend xs)"
      "extend_run start (re_end x) pend xs \<le> pend" using x(2) by blast
    with x True show ?thesis by (intro exI [of _ "x # mid"] exI [of _ post]) simp
  next
    case False
    then show ?thesis by (intro exI [of _ "[]"] exI [of _ "x # xs"]) (auto simp: run_extends_def)
  qed
qed

lemma fragmented_run_loop_run:
  "fragmented_run_loop ps pe xs = Some (a, b) \<Longrightarrow> run_of xs a b \<and> ps \<le> a \<and> b \<le> pe"
proof (induction xs)
  case (Cons x xs)
  show ?case
  proof (cases "ps \<le> re_start x \<and> re_end x \<le> pe \<and> run_extends (re_start x) (re_end x) pe xs")
    case True
    with Cons.prems have ab: "a = re_start x" "b = extend_run (re_start x) (re_end x) pe xs"
      by (auto split: if_splits)
    obtain mid post where m: "xs = mid @ post" "touching (re_end x) mid b" "mid \<noteq> []" "b \<le> pe"
      using extend_run_touching [of xs "re_end x" "re_start x" pe] True unfolding ab by blast
    then have "run_of (x # xs) a b"
      unfolding run_of_def ab(1)
      by (intro exI [of _ "[]"] exI [of _ "x # mid"] exI [of _ post]) (auto simp: Suc_le_eq)
    with m True ab show ?thesis by simp
  next
    case False
    with Cons show ?thesis by (auto simp: run_of_Cons split: if_splits)
  qed
qed simp

lemma fragmented_in_parent_run:
  "fragmented_extent_run_in_parent es (ps, pe) = Some (a, b) \<Longrightarrow> run_of es a b \<and> ps \<le> a \<and> b \<le> pe"
  using fragmented_run_loop_run [of ps pe "from_partition_point ps es" a b]
    run_of_append [of "from_partition_point ps es" a b "takeWhile (\<lambda>e. re_end e \<le> ps) es"]
  by (simp add: from_partition_point_def split: if_splits)

lemma parent_small:
  assumes "tot \<le> u64_max" "logical_range_parent tot offset = Some (ps, pe)"
  shows "pe - ps \<le> RANGE_MAX_CHUNK_BYTES"
proof -
  have lt: "offset < tot"
    using assms(2) by (auto simp: logical_range_parent_def logical_range_parent_with_index_def split: if_splits)
  from lt assms(1) obtain i where i: "i < length (planned_range_chunks tot)" "planned_range_chunks tot ! i = (ps, pe)"
    by (rule parent_props) (use assms(2) in \<open>auto simp: logical_range_parent_def\<close>)
  with planned_chunks_small [OF assms(1)] show ?thesis
    by (metis (no_types, lifting) case_prod_conv nth_mem)
qed

lemma compaction_in_request_run:
  "tot \<le> u64_max \<Longrightarrow> compaction_in_request es tot offset rend = Some (a, b) \<Longrightarrow>
     run_of es a b \<and> b - a \<le> RANGE_MAX_CHUNK_BYTES"
proof (induction es tot offset rend rule: compaction_in_request.induct)
  case (1 es tot offset rend)
  from 1(3) obtain ps pe where p: "offset < rend" "logical_range_parent tot offset = Some (ps, pe)"
    by (subst (asm) compaction_in_request.simps) (auto split: if_splits option.splits)
  show ?case
  proof (cases "fragmented_extent_run_in_parent es (ps, pe)")
    case None
    with p 1(3) have "offset < pe" "compaction_in_request es tot pe rend = Some (a, b)"
      by (subst (asm) compaction_in_request.simps, auto split: if_splits)+
    with 1(1) [OF p refl None] 1(2) show ?thesis by simp
  next
    case (Some run)
    with p 1(3) have "run = (a, b)"
      by (subst (asm) compaction_in_request.simps) auto
    with Some fragmented_in_parent_run [of es ps pe a b] parent_small [OF 1(2) p(2)]
    show ?thesis by auto
  qed
qed

lemma compaction_scan_run:
  assumes tot: "tot \<le> u64_max"
  shows "compaction_scan es tot xs = Some (a, b) \<Longrightarrow> run_of xs a b \<and> b - a \<le> RANGE_MAX_CHUNK_BYTES"
proof (induction xs)
  case (Cons x zs)
  show ?case
  proof (cases "compaction_scan es tot zs = Some (a, b)")
    case True
    with Cons.IH show ?thesis by (auto simp: run_of_Cons)
  next
    case False
    with Cons.prems obtain y xs where zs: "zs = y # xs" by (cases zs) auto
    note scan = Cons.prems [unfolded zs] and no = False [unfolded zs]
    have e: "re_end x = re_start y"
      using scan no by (simp only: compaction_scan.simps split: if_splits) simp
    obtain ps pe where lp: "logical_range_parent tot (re_start x) = Some (ps, pe)"
      using scan e by (cases "logical_range_parent tot (re_start x)") auto
    have p: "ps \<le> re_start x" "re_end y \<le> pe"
      and ab: "a = re_start x" "b = extend_run (re_start x) (re_end y) pe xs"
      using scan no e lp by (simp_all only: compaction_scan.simps option.case prod.case
          option.inject prod.inject not_less de_Morgan_disj simp_thms split: if_splits) blast+
    obtain mid post where m: "xs = mid @ post" "touching (re_end y) mid b" "b \<le> pe"
      using extend_run_touching [of xs "re_end y" "re_start x" pe] p(2) unfolding ab by blast
    then have "run_of (x # y # xs) a b"
      unfolding run_of_def ab(1) using e
      by (intro exI [of _ "[]"] exI [of _ "x # y # mid"] exI [of _ post]) auto
    moreover have "b - a \<le> RANGE_MAX_CHUNK_BYTES"
      using m(3) p(1) parent_small [OF tot lp] ab(1) by linarith
    ultimately show ?thesis by (simp add: zs)
  qed
qed simp

subsection \<open>Coalescing\<close>

abbreviation in_selected :: "byte_range \<Rightarrow> range_extent \<Rightarrow> bool" where
  "in_selected sel e \<equiv> fst sel \<le> re_start e \<and> re_end e \<le> snd sel"

definition merged_extent :: "byte_range \<Rightarrow> range_extent" where
  "merged_extent sel = \<lparr>re_start = fst sel, re_end = snd sel, re_sha256 = replicate 64 (CHR ''0'')\<rparr>"

lemma coalesce_loop_append:
  "coalesce_loop (xs @ ys) sel i r =
     (let (c1, i1, r1) = coalesce_loop xs sel i r; (c2, i2, r2) = coalesce_loop ys sel i1 r1
      in (c1 @ c2, i2, r2))"
proof (induction xs arbitrary: i r)
  case Nil
  show ?case by (cases sel) (simp split: prod.split)
next
  case (Cons x xs)
  then show ?case by (cases sel) (auto split: prod.splits)
qed

lemma coalesce_loop_skip:
  "\<forall>e \<in> set xs. \<not> in_selected sel e \<Longrightarrow> coalesce_loop xs sel i r = (xs, i, r)"
  by (induction xs arbitrary: i r) (cases sel; auto)+

lemma coalesce_loop_all:
  "\<forall>e \<in> set xs. in_selected sel e \<Longrightarrow>
     coalesce_loop xs sel i r =
       (if xs = [] \<or> i then [] else [merged_extent sel], i \<or> xs \<noteq> [], r + length xs)"
  by (induction xs arbitrary: i r) (cases sel; auto simp: merged_extent_def)+

lemma touching_bytes:
  "extents_from p mid \<Longrightarrow> touching a mid b \<Longrightarrow> extent_bytes mid = {a..<b} \<and> a \<le> b
     \<and> (\<forall>e \<in> set mid. a \<le> re_start e \<and> re_end e \<le> b)"
proof (induction mid arbitrary: p a)
  case (Cons e es)
  then have "extent_bytes es = {re_end e..<b} \<and> re_end e \<le> b
      \<and> (\<forall>x \<in> set es. re_end e \<le> re_start x \<and> re_end x \<le> b)" by auto
  with Cons.prems show ?case by force
qed simp

lemma touching_end: "touching a mid b \<Longrightarrow> mid \<noteq> [] \<Longrightarrow> re_end (last mid) = b"
  by (induction mid arbitrary: a) auto

lemma extents_from_upper: "extents_from p xs \<Longrightarrow> e \<in> set xs \<Longrightarrow> p \<le> re_start e \<and> re_start e < re_end e"
  by (induction xs arbitrary: p) fastforce+

lemma extents_from_lower:
  "extents_from p xs \<Longrightarrow> e \<in> set xs \<Longrightarrow> re_end e \<le> re_end (last xs)"
proof (induction xs arbitrary: p)
  case (Cons x xs)
  then show ?case
  proof (cases "xs = []")
    case False
    from False Cons.prems(1) have "re_end x \<le> re_end (last xs)"
      using extents_from_upper [of "re_end x" xs "last xs"] by force
    with Cons False show ?thesis by auto
  qed simp
qed simp

lemma coalesce_run:
  assumes wf: "extents_wf es" and r: "run_of es a b"
  obtains pre mid post where "es = pre @ mid @ post" "2 \<le> length mid" "extent_bytes mid = {a..<b}" "a < b"
    "coalesce_selected_range es (a, b) = (pre @ merged_extent (a, b) # post, True)"
    "extents_wf (pre @ merged_extent (a, b) # post)"
proof -
  obtain pre mid post where m: "es = pre @ mid @ post" "2 \<le> length mid" "touching a mid b"
    using r unfolding run_of_def by blast
  then have ne: "mid \<noteq> []" by auto
  let ?p = "if pre = [] then 0 else re_end (last pre)"
  have wpre: "extents_from 0 pre" and wmid: "extents_from ?p mid" and wpost: "extents_from b post"
    using wf m(3) ne touching_end [OF m(3) ne] by (simp_all add: m(1) extents_from_append)
  have a: "re_start (hd mid) = a" using m(3) ne by (cases mid) auto
  have pa: "?p \<le> a" using wmid ne a by (cases mid) auto
  note tb = touching_bytes [OF wmid m(3)]
  have ab: "a < b"
    using extents_from_upper [OF wmid hd_in_set [OF ne]] tb hd_in_set [OF ne] a
    by (metis le_trans linorder_not_less)
  have "\<not> in_selected (a, b) e" if "e \<in> set pre" for e
    using that extents_from_upper [OF wpre that] extents_from_lower [OF wpre that] pa by (auto split: if_splits)
  moreover have "\<not> in_selected (a, b) e" if "e \<in> set post" for e
    using extents_from_upper [OF wpost that] by auto
  ultimately have "coalesce_selected_range es (a, b) = (pre @ merged_extent (a, b) # post, True)"
    using tb ne m(2)
    by (simp add: m(1) coalesce_selected_range_def coalesce_loop_append coalesce_loop_skip coalesce_loop_all)
  moreover have "extents_wf (pre @ merged_extent (a, b) # post)"
    using wpre wpost pa ab by (simp add: extents_from_append merged_extent_def)
  ultimately show ?thesis using that m tb ab by blast
qed

text \<open>
  C6. Compaction is safe: a range selected by \<open>first_complete_parent_compaction\<close> (for a request or
  for the whole manifest) is fully covered and not larger than \<open>RANGE_MAX_CHUNK_BYTES\<close>, and
  coalescing it really merges extents: the new list is ordered and disjoint, covers exactly the
  same bytes and is strictly shorter, so that repeated compaction ends.
\<close>

theorem compaction_preserves_bytes:
  assumes "extents_wf es" and "first_complete_parent_compaction es tot req = Some (a, b)"
  shows "range_is_covered es (a, b) \<and> b - a \<le> RANGE_MAX_CHUNK_BYTES
    \<and> (\<exists>es'. coalesce_selected_range es (a, b) = (es', True) \<and> extents_wf es'
          \<and> extent_bytes es' = extent_bytes es \<and> length es' < length es)"
proof -
  have tot: "tot \<le> u64_max"
    using assms(2) by (auto simp: first_complete_parent_compaction_def range_size_is_resumable_def
        range_consts saturating_mul_def split: if_splits)
  have r: "run_of es a b \<and> b - a \<le> RANGE_MAX_CHUNK_BYTES"
    using assms(2) compaction_in_request_run [OF tot] compaction_scan_run [OF tot]
    by (auto simp: first_complete_parent_compaction_def split: if_splits option.splits prod.splits)
  obtain pre mid post where m: "es = pre @ mid @ post" "2 \<le> length mid" "extent_bytes mid = {a..<b}" "a < b"
    "coalesce_selected_range es (a, b) = (pre @ merged_extent (a, b) # post, True)"
    "extents_wf (pre @ merged_extent (a, b) # post)"
    by (rule coalesce_run [OF assms(1) conjunct1 [OF r]])
  have "extent_bytes (pre @ merged_extent (a, b) # post) = extent_bytes es"
    using m(3) by (auto simp: m(1) merged_extent_def)
  moreover have "range_is_covered es (a, b)"
    using m(3,4) by (simp only: range_is_covered_iff [OF assms(1)]) (auto simp: m(1))
  ultimately show ?thesis using m r by auto
qed

definition demo_fragments :: "range_extent list" where
  "demo_fragments = [\<lparr>re_start = 0, re_end = 10, re_sha256 = []\<rparr>,
                     \<lparr>re_start = 10, re_end = 20, re_sha256 = []\<rparr>]"

theorem compaction_preserves_bytes_witness:
  "first_complete_parent_compaction demo_fragments 20 None = Some (0, 20)
   \<and> (\<exists>es'. coalesce_selected_range demo_fragments (0, 20) = (es', True)
        \<and> extent_bytes es' = extent_bytes demo_fragments)"
proof -
  have wf: "extents_wf demo_fragments" by (simp add: demo_fragments_def)
  have f: "first_complete_parent_compaction demo_fragments 20 None = Some (0, 20)"
    by (simp add: demo_fragments_def first_complete_parent_compaction_def range_size_is_resumable_def
        range_consts saturating_mul_def logical_range_parent_def logical_range_parent_with_index_def
        from_partition_point_def)
  from compaction_preserves_bytes [OF wf f] f show ?thesis by blast
qed

end
