(* ===== verification/Range_Manifest.thy ===== *)
theory Range_Manifest
  imports Range_Extents
begin

text \<open>
  The persisted manifest of a range-cached resource (\<open>hls_cache.rs\<close>): entity tags, the
  validation of a manifest read from disk, the predicates that decide whether a newer manifest
  still agrees with the one a transfer started from, and the choice of samples by which a second
  server is compared with what is already stored.

  \<open>media_url_origin\<close> parses a URL with the \<open>url\<close> crate, and the representation digest is a SHA-256
  of the resource description: both are parameters (\<open>origin_of\<close>, \<open>digest\<close>).
\<close>

section \<open>Samples for comparing two servers\<close>

definition HLS_CROSS_CDN_SAMPLE_BYTES :: nat where
  "HLS_CROSS_CDN_SAMPLE_BYTES = 16 * 1024"

definition sample_intervals :: "range_extent list \<Rightarrow> nat \<Rightarrow> byte_range list" where
  "sample_intervals es prefix_length =
     List.map_filter (\<lambda>e. let start = max (re_start e) prefix_length
                     in if start < re_end e then Some (start, re_end e) else None) es"

text \<open>\<open>intervals.iter().find\<close> with the offset it counts down.\<close>

fun locate_offset :: "byte_range list \<Rightarrow> nat \<Rightarrow> (byte_range \<times> nat) option" where
  "locate_offset [] offset = None"
| "locate_offset ((a, b) # rest) offset =
     (if offset < b - a then Some ((a, b), offset) else locate_offset rest (offset - (b - a)))"

definition sample_at :: "byte_range \<Rightarrow> nat \<Rightarrow> byte_range" where
  "sample_at interval offset =
     (case interval of (a, b) \<Rightarrow>
        let len = min (b - a) HLS_CROSS_CDN_SAMPLE_BYTES;
            start = clamp (a + offset - len div 2) a (b - len)
        in (start, start + len))"

fun add_samples :: "byte_range list \<Rightarrow> nat list \<Rightarrow> byte_range list \<Rightarrow> byte_range list" where
  "add_samples intervals [] samples = samples"
| "add_samples intervals (target # targets) samples =
     (case locate_offset intervals target of
        None \<Rightarrow> add_samples intervals targets samples
      | Some (interval, offset) \<Rightarrow>
          let sample = sample_at interval offset in
          add_samples intervals targets
            (if list_ex (\<lambda>x. fst x < snd sample \<and> fst sample < snd x) samples
             then samples else samples @ [sample]))"

definition select_cross_cdn_sample_ranges :: "range_extent list \<Rightarrow> nat \<Rightarrow> byte_range list" where
  "select_cross_cdn_sample_ranges es prefix_length =
     (let intervals = sample_intervals es prefix_length;
          available_bytes = fold (\<lambda>(a, b) acc. wrapping_add acc (b - a)) intervals 0
      in if available_bytes = 0 then []
         else add_samples intervals [0, (available_bytes - 1) div 2, available_bytes - 1] [])"

section \<open>Entity tags\<close>

definition tag_byte :: "char \<Rightarrow> bool" where
  "tag_byte c = (let b = (of_char c :: nat) in b = 0x21 \<or> (0x23 \<le> b \<and> b \<le> 0x7e) \<or> b \<ge> 0x80)"

definition parse_entity_tag :: "string \<Rightarrow> bool option" where
  "parse_entity_tag bytes =
     (let (weak, opaque) = (case bytes of
            w # s # rest \<Rightarrow> if w = CHR ''W'' \<and> s = CHR ''/'' then (True, rest) else (False, bytes)
          | _ \<Rightarrow> (False, bytes))
      in if length opaque < 2 \<or> hd opaque \<noteq> CHR 0x22 \<or> last opaque \<noteq> CHR 0x22 then None
         else if list_all tag_byte (butlast (tl opaque)) then Some weak else None)"

definition strong_etag_string_is_valid :: "string \<Rightarrow> bool" where
  "strong_etag_string_is_valid s = (length s \<le> 512 \<and> parse_entity_tag s = Some False)"

text \<open>
  \<open>strong_etag\<close> and \<open>etag_header_syntax_valid\<close> read the \<open>ETag\<close> header, given here as its bytes if it
  is present; \<open>utf8\<close> tells whether they are valid UTF-8.
\<close>

definition strong_etag :: "(string \<Rightarrow> bool) \<Rightarrow> string option \<Rightarrow> string option" where
  "strong_etag utf8 header =
     (case header of None \<Rightarrow> None
      | Some bytes \<Rightarrow>
          if parse_entity_tag bytes \<noteq> Some False \<or> length bytes > 512 then None
          else if utf8 bytes then Some bytes else None)"

definition etag_header_syntax_valid :: "string option \<Rightarrow> bool" where
  "etag_header_syntax_valid header =
     (case header of None \<Rightarrow> False | Some bytes \<Rightarrow> parse_entity_tag bytes \<noteq> None)"

section \<open>Validation of a manifest\<close>

definition is_ascii_hexdigit :: "char \<Rightarrow> bool" where
  "is_ascii_hexdigit c = (let b = (of_char c :: nat) in
     (0x30 \<le> b \<and> b \<le> 0x39) \<or> (0x41 \<le> b \<and> b \<le> 0x46) \<or> (0x61 \<le> b \<and> b \<le> 0x66))"

fun validate_extents ::
  "nat option \<Rightarrow> range_extent list \<Rightarrow> nat \<Rightarrow> nat \<Rightarrow> hls_range_error + nat" where
  "validate_extents tot [] previous_end durable = Inr durable"
| "validate_extents tot (e # es) previous_end durable =
     (if re_start e \<ge> re_end e \<or> re_start e < previous_end
         \<or> (case tot of Some len \<Rightarrow> re_end e > len | None \<Rightarrow> False)
         \<or> length (re_sha256 e) \<noteq> 64 \<or> \<not> list_all is_ascii_hexdigit (re_sha256 e)
      then Inl (InvalidResponse ''invalid range checkpoint extents'')
      else validate_extents tot es (re_end e) (saturating_add durable (re_end e - re_start e)))"

definition etag_invalid :: "string option \<Rightarrow> bool" where
  "etag_invalid tag = (case tag of Some etag \<Rightarrow> \<not> strong_etag_string_is_valid etag | None \<Rightarrow> False)"

definition validate_range_manifest ::
  "(string \<Rightarrow> string option) \<Rightarrow> string \<Rightarrow> string \<Rightarrow> range_manifest \<Rightarrow> hls_range_error + unit" where
  "validate_range_manifest origin_of digest resource_id m =
     (if rm_schema_version m \<noteq> RANGE_MANIFEST_SCHEMA_VERSION
         \<or> rm_generation m = 0
         \<or> rm_resource_id m \<noteq> resource_id
         \<or> rm_representation_digest m \<noteq> digest
         \<or> length (rm_extents m) > RANGE_MAX_CHUNKS
         \<or> length (rm_validated_origins m) > 64
         \<or> etag_invalid (rm_strong_etag m)
      then Inl IdentityChanged
      else case validate_extents (rm_total_length m) (rm_extents m) 0 0 of
        Inl err \<Rightarrow> Inl err
      | Inr durable \<Rightarrow>
          if durable \<noteq> rm_durable_bytes m
             \<or> rm_prefix_length m > RANGE_STARTUP_CHUNK_BYTES
             \<or> (rm_prefix_length m = 0) \<noteq> (rm_prefix_sha256 m = None)
             \<or> (rm_prefix_length m > 0
                 \<and> (\<not> range_is_covered (rm_extents m) (0, rm_prefix_length m)
                    \<or> (case rm_prefix_sha256 m of None \<Rightarrow> True | Some d \<Rightarrow> length d \<noteq> 64)))
          then Inl (InvalidResponse ''invalid range checkpoint summary'')
          else if list_ex (\<lambda>entry.
               length (ro_origin entry) > 512
               \<or> length (ro_prefix_sha256 entry) \<noteq> 64
               \<or> etag_invalid (ro_strong_etag entry)
               \<or> origin_of (ro_origin entry) \<noteq> Some (ro_origin entry)) (rm_validated_origins m)
          then Inl (InvalidResponse ''invalid range checkpoint origin'')
          else Inr ())"

section \<open>Rebasing on a newer manifest\<close>

definition find_origin :: "range_manifest \<Rightarrow> string \<Rightarrow> range_origin option" where
  "find_origin m origin = find (\<lambda>b. ro_origin b = origin) (rm_validated_origins m)"

definition same_extent :: "range_extent \<Rightarrow> range_extent \<Rightarrow> bool" where
  "same_extent old new =
     (re_start new = re_start old \<and> re_end new = re_end old \<and> re_sha256 new = re_sha256 old)"

definition range_manifest_rebase_compatible_ignoring_origin ::
  "range_manifest \<Rightarrow> range_manifest \<Rightarrow> string option \<Rightarrow> bool \<Rightarrow> bool" where
  "range_manifest_rebase_compatible_ignoring_origin expected current ignored_origin allow_validator_update =
     (if rm_resource_id expected \<noteq> rm_resource_id current
         \<or> rm_representation_digest expected \<noteq> rm_representation_digest current
         \<or> rm_data_identity expected \<noteq> rm_data_identity current
         \<or> rm_generation current < rm_generation expected
         \<or> (case rm_total_length expected of Some len \<Rightarrow> rm_total_length current \<noteq> Some len | None \<Rightarrow> False)
         \<or> (case rm_prefix_sha256 expected of Some d \<Rightarrow> rm_prefix_sha256 current \<noteq> Some d | None \<Rightarrow> False)
      then False
      else if list_ex (\<lambda>old.
          ignored_origin \<noteq> Some (ro_origin old)
          \<and> (case find_origin current (ro_origin old) of
               None \<Rightarrow> True
             | Some new \<Rightarrow> ro_prefix_sha256 new \<noteq> ro_prefix_sha256 old
                 \<or> (\<not> allow_validator_update \<and> ro_strong_etag new \<noteq> ro_strong_etag old)))
          (rm_validated_origins expected)
      then False
      else list_all (\<lambda>old. list_ex (same_extent old) (rm_extents current)) (rm_extents expected))"

definition range_manifest_rebase_compatible :: "range_manifest \<Rightarrow> range_manifest \<Rightarrow> bool" where
  "range_manifest_rebase_compatible expected current =
     range_manifest_rebase_compatible_ignoring_origin expected current None False"

definition range_manifest_rebase_compatible_for_origin_validation ::
  "range_manifest \<Rightarrow> range_manifest \<Rightarrow> string \<Rightarrow> bool" where
  "range_manifest_rebase_compatible_for_origin_validation expected current target_origin =
     range_manifest_rebase_compatible_ignoring_origin expected current (Some target_origin) True"

definition binding_state :: "range_manifest \<Rightarrow> string \<Rightarrow> (string \<times> string option) option" where
  "binding_state m target_origin =
     map_option (\<lambda>b. (ro_prefix_sha256 b, ro_strong_etag b)) (find_origin m target_origin)"

definition range_manifest_rebase_compatible_for_extent_publication ::
  "range_manifest \<Rightarrow> range_manifest \<Rightarrow> string \<Rightarrow> bool" where
  "range_manifest_rebase_compatible_for_extent_publication expected current target_origin =
     (if \<not> range_manifest_rebase_compatible_ignoring_origin expected current None True then False
      else binding_state expected target_origin = binding_state current target_origin)"

definition range_manifest_target_validator_snapshot_is_stale ::
  "range_manifest \<Rightarrow> range_manifest \<Rightarrow> string \<Rightarrow> bool" where
  "range_manifest_target_validator_snapshot_is_stale expected current target_origin =
     (if \<not> range_manifest_rebase_compatible_ignoring_origin expected current (Some target_origin) False
      then False
      else case (find_origin expected target_origin, find_origin current target_origin) of
        (Some e, Some c) \<Rightarrow>
          ro_prefix_sha256 e = ro_prefix_sha256 c \<and> ro_strong_etag e \<noteq> ro_strong_etag c
      | _ \<Rightarrow> False)"

text \<open>The \<open>for\<close> loop over the origins in \<open>range_manifest_extent_rebase_failure_stage\<close>.\<close>

fun origin_failure_stage ::
  "range_manifest \<Rightarrow> string \<Rightarrow> range_origin list \<Rightarrow> string option" where
  "origin_failure_stage current target [] = None"
| "origin_failure_stage current target (old # rest) =
     (case find_origin current (ro_origin old) of
        None \<Rightarrow> Some (if ro_origin old = target
                      then ''extent-publish-rebase-target-origin-removed''
                      else ''extent-publish-rebase-existing-origin-prefix'')
      | Some new \<Rightarrow>
          if ro_prefix_sha256 new \<noteq> ro_prefix_sha256 old
          then Some (if ro_origin old = target
                     then ''extent-publish-rebase-target-origin-prefix''
                     else ''extent-publish-rebase-existing-origin-prefix'')
          else origin_failure_stage current target rest)"

definition range_manifest_extent_rebase_failure_stage ::
  "range_manifest \<Rightarrow> range_manifest \<Rightarrow> string \<Rightarrow> string option" where
  "range_manifest_extent_rebase_failure_stage expected current target =
     (if rm_resource_id expected \<noteq> rm_resource_id current
      then Some ''extent-publish-rebase-resource-id''
      else if rm_representation_digest expected \<noteq> rm_representation_digest current
      then Some ''extent-publish-rebase-representation''
      else if rm_data_identity expected \<noteq> rm_data_identity current
      then Some ''extent-publish-rebase-data-object-identity''
      else if rm_generation current < rm_generation expected
      then Some ''extent-publish-rebase-generation-regression''
      else if (case rm_total_length expected of Some len \<Rightarrow> rm_total_length current \<noteq> Some len | None \<Rightarrow> False)
      then Some ''extent-publish-rebase-total-length''
      else if (case rm_prefix_sha256 expected of Some d \<Rightarrow> rm_prefix_sha256 current \<noteq> Some d | None \<Rightarrow> False)
      then Some ''extent-publish-rebase-prefix-digest''
      else case origin_failure_stage current target (rm_validated_origins expected) of
        Some stage \<Rightarrow> Some stage
      | None \<Rightarrow>
          if list_ex (\<lambda>old. \<not> list_ex (same_extent old) (rm_extents current)) (rm_extents expected)
          then Some ''extent-publish-rebase-existing-extent''
          else case (find_origin expected target, find_origin current target) of
            (Some e, Some c) \<Rightarrow>
              if ro_prefix_sha256 e \<noteq> ro_prefix_sha256 c
              then Some ''extent-publish-rebase-target-origin-prefix''
              else if ro_strong_etag e \<noteq> ro_strong_etag c
              then Some ''extent-publish-rebase-target-origin-strong-etag''
              else None
          | (None, None) \<Rightarrow> None
          | (None, Some _) \<Rightarrow> Some ''extent-publish-rebase-target-origin-added''
          | (Some _, None) \<Rightarrow> Some ''extent-publish-rebase-target-origin-removed'')"

section \<open>Validated manifests\<close>

text \<open>What a validated manifest promises, without reference to the order of the checks.\<close>

definition manifest_ok :: "(string \<Rightarrow> string option) \<Rightarrow> string \<Rightarrow> string \<Rightarrow> range_manifest \<Rightarrow> bool" where
  "manifest_ok origin_of digest resource_id m \<longleftrightarrow>
     rm_schema_version m = 1 \<and> rm_generation m > 0 \<and> rm_resource_id m = resource_id
     \<and> rm_representation_digest m = digest \<and> length (rm_extents m) \<le> RANGE_MAX_CHUNKS
     \<and> length (rm_validated_origins m) \<le> 64
     \<and> (\<forall>t. rm_strong_etag m = Some t \<longrightarrow> strong_etag_string_is_valid t)
     \<and> extents_wf (rm_extents m)
     \<and> (\<forall>e \<in> set (rm_extents m). length (re_sha256 e) = 64 \<and> list_all is_ascii_hexdigit (re_sha256 e)
          \<and> (\<forall>len. rm_total_length m = Some len \<longrightarrow> re_end e \<le> len))
     \<and> rm_durable_bytes m = durable_extent_bytes (rm_extents m)
     \<and> rm_prefix_length m \<le> RANGE_STARTUP_CHUNK_BYTES
     \<and> (if rm_prefix_length m = 0 then rm_prefix_sha256 m = None
        else {0..<rm_prefix_length m} \<subseteq> extent_bytes (rm_extents m)
             \<and> (\<exists>d. rm_prefix_sha256 m = Some d \<and> length d = 64))
     \<and> (\<forall>o' \<in> set (rm_validated_origins m). length (ro_origin o') \<le> 512 \<and> length (ro_prefix_sha256 o') = 64
          \<and> (\<forall>t. ro_strong_etag o' = Some t \<longrightarrow> strong_etag_string_is_valid t)
          \<and> origin_of (ro_origin o') = Some (ro_origin o'))"

lemma validate_extents_iff:
  "validate_extents tot es p d = Inr r \<longleftrightarrow>
     extents_from p es
     \<and> (\<forall>e \<in> set es. length (re_sha256 e) = 64 \<and> list_all is_ascii_hexdigit (re_sha256 e)
          \<and> (\<forall>len. tot = Some len \<longrightarrow> re_end e \<le> len))
     \<and> r = fold (\<lambda>e acc. saturating_add acc (re_end e - re_start e)) es d"
proof (induction es arbitrary: p d)
  case Nil
  then show ?case by auto
next
  case (Cons e es)
  show ?case
    by (auto simp: Cons.IH not_less not_le split: option.splits)
qed

lemma etag_invalid_iff: "\<not> etag_invalid tag \<longleftrightarrow> (\<forall>t. tag = Some t \<longrightarrow> strong_etag_string_is_valid t)"
  by (auto simp: etag_invalid_def split: option.splits)

text \<open>
  C7. The validation of a manifest accepts exactly the manifests that satisfy \<open>manifest_ok\<close>: the
  schema, resource and digest match, the extents are ordered, disjoint, inside the resource and
  not more than \<open>RANGE_MAX_CHUNKS\<close>, every digest is 64 hexadecimal digits, the durable byte count is
  that of the extents, the prefix is covered by them, and every origin and entity tag is valid.
\<close>

theorem validate_manifest_iff:
  "validate_range_manifest origin_of digest resource_id m = Inr () \<longleftrightarrow> manifest_ok origin_of digest resource_id m"
proof (cases "validate_extents (rm_total_length m) (rm_extents m) 0 0")
  case (Inl err)
  then have "\<not> (extents_wf (rm_extents m) \<and> (\<forall>e \<in> set (rm_extents m). length (re_sha256 e) = 64
      \<and> list_all is_ascii_hexdigit (re_sha256 e)
      \<and> (\<forall>len. rm_total_length m = Some len \<longrightarrow> re_end e \<le> len)))"
    using validate_extents_iff [of "rm_total_length m" "rm_extents m" 0 0] by auto
  with Inl show ?thesis
    by (auto simp: validate_range_manifest_def manifest_ok_def)
next
  case (Inr r)
  note v = Inr [unfolded validate_extents_iff]
  have r: "r = durable_extent_bytes (rm_extents m)"
    using v by (simp add: durable_extent_bytes_def)
  define pre where "pre \<longleftrightarrow> (rm_prefix_length m = 0) \<noteq> (rm_prefix_sha256 m = None)
             \<or> (rm_prefix_length m > 0
                 \<and> (\<not> range_is_covered (rm_extents m) (0, rm_prefix_length m)
                    \<or> (case rm_prefix_sha256 m of None \<Rightarrow> True | Some d \<Rightarrow> length d \<noteq> 64)))"
  define org where "org \<longleftrightarrow> list_ex (\<lambda>entry. length (ro_origin entry) > 512
        \<or> length (ro_prefix_sha256 entry) \<noteq> 64 \<or> etag_invalid (ro_strong_etag entry)
        \<or> origin_of (ro_origin entry) \<noteq> Some (ro_origin entry)) (rm_validated_origins m)"
  have prefix: "(if rm_prefix_length m = 0 then rm_prefix_sha256 m = None
        else {0..<rm_prefix_length m} \<subseteq> extent_bytes (rm_extents m)
             \<and> (\<exists>d. rm_prefix_sha256 m = Some d \<and> length d = 64)) \<longleftrightarrow> \<not> pre"
    unfolding pre_def range_is_covered_iff [OF conjunct1 [OF v]]
    by (cases "rm_prefix_sha256 m"; cases "rm_prefix_length m = 0") simp_all
  have origins: "(\<forall>o' \<in> set (rm_validated_origins m). length (ro_origin o') \<le> 512 \<and> length (ro_prefix_sha256 o') = 64
          \<and> \<not> etag_invalid (ro_strong_etag o')
          \<and> origin_of (ro_origin o') = Some (ro_origin o')) \<longleftrightarrow> \<not> org"
    unfolding org_def list_ex_iff by (auto simp: not_less)
  have "validate_range_manifest origin_of digest resource_id m = Inr () \<longleftrightarrow>
      rm_schema_version m = 1 \<and> rm_generation m > 0 \<and> rm_resource_id m = resource_id
      \<and> rm_representation_digest m = digest \<and> length (rm_extents m) \<le> RANGE_MAX_CHUNKS
      \<and> length (rm_validated_origins m) \<le> 64 \<and> \<not> etag_invalid (rm_strong_etag m)
      \<and> rm_durable_bytes m = r \<and> rm_prefix_length m \<le> RANGE_STARTUP_CHUNK_BYTES \<and> \<not> pre \<and> \<not> org"
    unfolding validate_range_manifest_def Inr sum.case pre_def [symmetric] org_def [symmetric]
      RANGE_MANIFEST_SCHEMA_VERSION_def by auto
  then show ?thesis
    unfolding manifest_ok_def prefix origins etag_invalid_iff [symmetric] r using v by blast
qed

section \<open>Rebasing\<close>

lemma origin_failure_stage_None:
  "origin_failure_stage c t os = None \<longleftrightarrow>
     (\<forall>old \<in> set os. \<exists>new. find_origin c (ro_origin old) = Some new \<and> ro_prefix_sha256 new = ro_prefix_sha256 old)"
  by (induction os) (auto split: option.splits)

text \<open>The compatibility predicate without the order of its tests, in three parts.\<close>

definition rebase_identity :: "range_manifest \<Rightarrow> range_manifest \<Rightarrow> bool" where
  "rebase_identity e c \<longleftrightarrow>
     rm_resource_id e = rm_resource_id c \<and> rm_representation_digest e = rm_representation_digest c
     \<and> rm_data_identity e = rm_data_identity c \<and> rm_generation e \<le> rm_generation c
     \<and> (\<forall>len. rm_total_length e = Some len \<longrightarrow> rm_total_length c = Some len)
     \<and> (\<forall>d. rm_prefix_sha256 e = Some d \<longrightarrow> rm_prefix_sha256 c = Some d)"

definition rebase_origins :: "range_manifest \<Rightarrow> range_manifest \<Rightarrow> string option \<Rightarrow> bool \<Rightarrow> bool" where
  "rebase_origins e c ign allow \<longleftrightarrow>
     (\<forall>old \<in> set (rm_validated_origins e). ign \<noteq> Some (ro_origin old) \<longrightarrow>
        (\<exists>new. find_origin c (ro_origin old) = Some new \<and> ro_prefix_sha256 new = ro_prefix_sha256 old
           \<and> (allow \<or> ro_strong_etag new = ro_strong_etag old)))"

definition rebase_extents :: "range_manifest \<Rightarrow> range_manifest \<Rightarrow> bool" where
  "rebase_extents e c \<longleftrightarrow>
     (\<forall>old \<in> set (rm_extents e). \<exists>new \<in> set (rm_extents c). same_extent old new)"

lemma rebase_origins_list_ex:
  "rebase_origins e c ign allow \<longleftrightarrow> \<not> list_ex (\<lambda>old.
          ign \<noteq> Some (ro_origin old)
          \<and> (case find_origin c (ro_origin old) of
               None \<Rightarrow> True
             | Some new \<Rightarrow> ro_prefix_sha256 new \<noteq> ro_prefix_sha256 old
                 \<or> (\<not> allow \<and> ro_strong_etag new \<noteq> ro_strong_etag old)))
          (rm_validated_origins e)"
proof -
  have "(\<exists>new. x = Some new \<and> ro_prefix_sha256 new = p \<and> (allow \<or> ro_strong_etag new = t)) \<longleftrightarrow>
      \<not> (case x of None \<Rightarrow> True | Some new \<Rightarrow> ro_prefix_sha256 new \<noteq> p \<or> (\<not> allow \<and> ro_strong_etag new \<noteq> t))"
    for x :: "range_origin option" and p t by (cases x) auto
  then show ?thesis unfolding rebase_origins_def list_ex_iff by blast
qed

lemma rebase_ignoring_iff:
  "range_manifest_rebase_compatible_ignoring_origin e c ign allow \<longleftrightarrow>
     rebase_identity e c \<and> rebase_origins e c ign allow \<and> rebase_extents e c"
proof -
  have "list_all (\<lambda>old. list_ex (same_extent old) (rm_extents c)) (rm_extents e) \<longleftrightarrow> rebase_extents e c"
    by (simp add: rebase_extents_def list_all_iff list_ex_iff)
  moreover have "(rm_resource_id e \<noteq> rm_resource_id c
         \<or> rm_representation_digest e \<noteq> rm_representation_digest c
         \<or> rm_data_identity e \<noteq> rm_data_identity c
         \<or> rm_generation c < rm_generation e
         \<or> (case rm_total_length e of Some len \<Rightarrow> rm_total_length c \<noteq> Some len | None \<Rightarrow> False)
         \<or> (case rm_prefix_sha256 e of Some d \<Rightarrow> rm_prefix_sha256 c \<noteq> Some d | None \<Rightarrow> False))
       \<longleftrightarrow> \<not> rebase_identity e c"
    by (auto simp: rebase_identity_def not_less split: option.splits)
  ultimately show ?thesis
    unfolding range_manifest_rebase_compatible_ignoring_origin_def
    by (simp only: rebase_origins_list_ex) auto
qed

text \<open>
  The diagnostic function names a failure exactly when the predicate it mirrors fails: a
  transfer may publish its extents on top of the current manifest if and only if
  \<open>range_manifest_extent_rebase_failure_stage\<close> finds no failed signal.
\<close>

theorem rebase_failure_stage_mirrors:
  "range_manifest_rebase_compatible_for_extent_publication expected current target \<longleftrightarrow>
     range_manifest_extent_rebase_failure_stage expected current target = None"
proof -
  have "range_manifest_extent_rebase_failure_stage expected current target = None \<longleftrightarrow>
     rebase_identity expected current
     \<and> origin_failure_stage current target (rm_validated_origins expected) = None
     \<and> rebase_extents expected current
     \<and> binding_state expected target = binding_state current target"
    unfolding range_manifest_extent_rebase_failure_stage_def binding_state_def rebase_identity_def
      rebase_extents_def
    by (auto simp: list_ex_iff not_less split: option.splits if_splits)
  moreover have "origin_failure_stage current target (rm_validated_origins expected) = None
      \<longleftrightarrow> rebase_origins expected current None True"
    by (simp add: origin_failure_stage_None rebase_origins_def)
  ultimately show ?thesis
    unfolding range_manifest_rebase_compatible_for_extent_publication_def rebase_ignoring_iff
    by auto
qed

lemma find_origin_SomeD: "find_origin m t = Some b \<Longrightarrow> b \<in> set (rm_validated_origins m) \<and> ro_origin b = t"
  by (auto simp: find_origin_def find_Some_iff)

lemma same_extent_trans: "same_extent a b \<Longrightarrow> same_extent b c \<Longrightarrow> same_extent a c"
  by (simp add: same_extent_def)

lemma rebase_trans:
  assumes ab: "range_manifest_rebase_compatible_ignoring_origin a b ign allow"
    and bc: "range_manifest_rebase_compatible_ignoring_origin b c ign allow"
  shows "range_manifest_rebase_compatible_ignoring_origin a c ign allow"
proof -
  note ab' = ab [unfolded rebase_ignoring_iff] and bc' = bc [unfolded rebase_ignoring_iff]
  have "rebase_identity a c"
    using ab' bc' by (simp add: rebase_identity_def)
  moreover have "rebase_origins a c ign allow"
    unfolding rebase_origins_def
  proof (intro ballI impI)
    fix old assume old: "old \<in> set (rm_validated_origins a)" "ign \<noteq> Some (ro_origin old)"
    with ab' obtain mid where mid: "find_origin b (ro_origin old) = Some mid"
      "ro_prefix_sha256 mid = ro_prefix_sha256 old" "allow \<or> ro_strong_etag mid = ro_strong_etag old"
      unfolding rebase_origins_def by blast
    note m = find_origin_SomeD [OF mid(1)]
    with bc' old(2) obtain new where "find_origin c (ro_origin old) = Some new"
      "ro_prefix_sha256 new = ro_prefix_sha256 mid" "allow \<or> ro_strong_etag new = ro_strong_etag mid"
      unfolding rebase_origins_def by metis
    with mid(2,3) show "\<exists>new. find_origin c (ro_origin old) = Some new
        \<and> ro_prefix_sha256 new = ro_prefix_sha256 old \<and> (allow \<or> ro_strong_etag new = ro_strong_etag old)"
      by auto
  qed
  moreover have "rebase_extents a c"
    using ab' bc' same_extent_trans unfolding rebase_extents_def by meson
  ultimately show ?thesis by (simp add: rebase_ignoring_iff)
qed

lemma rebase_bytes:
  assumes "range_manifest_rebase_compatible_ignoring_origin e c ign allow"
  shows "extent_bytes (rm_extents e) \<subseteq> extent_bytes (rm_extents c)"
  using assms unfolding rebase_ignoring_iff rebase_extents_def extent_bytes_def same_extent_def
  by fastforce

text \<open>
  Compatibility with a newer manifest is transitive, so that a transfer may be rebased over any
  number of intermediate publications, and it never loses data: whatever was covered in the
  manifest the transfer started from is covered in the current one.
\<close>

theorem rebase_transitive_and_monotone:
  assumes "range_manifest_rebase_compatible a b" and "range_manifest_rebase_compatible b c"
    and "extents_wf (rm_extents a)" and "extents_wf (rm_extents c)"
  shows "range_manifest_rebase_compatible a c
    \<and> (\<forall>r. range_is_covered (rm_extents a) r \<longrightarrow> range_is_covered (rm_extents c) r)"
proof -
  have ac: "range_manifest_rebase_compatible a c"
    using assms(1,2) unfolding range_manifest_rebase_compatible_def by (rule rebase_trans)
  then have "extent_bytes (rm_extents a) \<subseteq> extent_bytes (rm_extents c)"
    unfolding range_manifest_rebase_compatible_def by (rule rebase_bytes)
  then have "range_is_covered (rm_extents c) r" if "range_is_covered (rm_extents a) r" for r
    using that by (cases r)
      (auto simp only: range_is_covered_iff [OF assms(3)] range_is_covered_iff [OF assms(4)])
  with ac show ?thesis by blast
qed

definition demo_manifest :: "nat \<Rightarrow> range_extent list \<Rightarrow> range_manifest" where
  "demo_manifest g es = \<lparr>rm_schema_version = 1, rm_generation = g, rm_resource_id = ''video'',
     rm_representation_digest = ''d'', rm_data_identity = None, rm_total_length = Some 40,
     rm_strong_etag = None, rm_validator_origin = None, rm_last_modified = None, rm_prefix_length = 0,
     rm_prefix_sha256 = None, rm_durable_bytes = 0, rm_validated_origins = [], rm_extents = es\<rparr>"

theorem rebase_transitive_and_monotone_witness:
  "range_manifest_rebase_compatible (demo_manifest 1 [hd demo_extents]) (demo_manifest 3 demo_extents)"
proof -
  have "range_manifest_rebase_compatible (demo_manifest 1 [hd demo_extents]) (demo_manifest 2 [hd demo_extents])"
    "range_manifest_rebase_compatible (demo_manifest 2 [hd demo_extents]) (demo_manifest 3 demo_extents)"
    by (simp_all add: range_manifest_rebase_compatible_def demo_manifest_def demo_extents_def
        range_manifest_rebase_compatible_ignoring_origin_def same_extent_def)
  moreover have "extents_wf (rm_extents (demo_manifest 1 [hd demo_extents]))"
    "extents_wf (rm_extents (demo_manifest 3 demo_extents))"
    by (simp_all add: demo_manifest_def demo_extents_def)
  ultimately show ?thesis using rebase_transitive_and_monotone by blast
qed

section \<open>Samples\<close>

definition intervals_length :: "byte_range list \<Rightarrow> nat" where
  "intervals_length rs = sum_list (map (\<lambda>(a, b). b - a) rs)"

lemma sample_intervals_Cons:
  "sample_intervals (e # es) p =
     (if max (re_start e) p < re_end e then [(max (re_start e) p, re_end e)] else []) @ sample_intervals es p"
  by (simp add: sample_intervals_def List.map_filter_simps Let_def)

lemma sample_intervals_mem:
  "(a, b) \<in> set (sample_intervals es p) \<Longrightarrow>
     a < b \<and> p \<le> a \<and> (\<exists>e \<in> set es. re_start e \<le> a \<and> b = re_end e)"
  by (induction es) (auto simp: sample_intervals_Cons sample_intervals_def List.map_filter_simps split: if_splits)

lemma available_bytes_exact:
  "extents_from q es \<Longrightarrow> \<forall>e \<in> set es. re_end e \<le> u64_max \<Longrightarrow> acc \<le> q \<Longrightarrow> acc \<le> u64_max \<Longrightarrow>
     fold (\<lambda>(a, b) acc. wrapping_add acc (b - a)) (sample_intervals es p) acc
       = acc + intervals_length (sample_intervals es p)"
proof (induction es arbitrary: q acc)
  case Nil
  then show ?case by (simp add: sample_intervals_def List.map_filter_simps intervals_length_def)
next
  case (Cons e es)
  let ?s = "max (re_start e) p"
  have e: "q \<le> re_start e" "re_start e < re_end e" "re_end e \<le> u64_max" "extents_from (re_end e) es"
    using Cons.prems by auto
  show ?case
  proof (cases "?s < re_end e")
    case True
    have le: "acc + (re_end e - ?s) \<le> re_end e" using e(1) Cons.prems(3) True by auto
    then have "wrapping_add acc (re_end e - ?s) = acc + (re_end e - ?s)"
      using e(3) by (simp add: wrapping_add_def)
    moreover have "fold (\<lambda>(a, b) acc. wrapping_add acc (b - a)) (sample_intervals es p) (acc + (re_end e - ?s))
        = acc + (re_end e - ?s) + intervals_length (sample_intervals es p)"
      using Cons.prems le e by (intro Cons.IH [OF e(4)]) auto
    ultimately show ?thesis
      using True by (simp add: sample_intervals_Cons intervals_length_def add.assoc)
  next
    case False
    with Cons.IH [OF e(4), of acc] Cons.prems e show ?thesis
      by (simp add: sample_intervals_Cons)
  qed
qed

lemma locate_offset_Some:
  "offset < intervals_length rs \<Longrightarrow>
     \<exists>a b o'. locate_offset rs offset = Some ((a, b), o') \<and> (a, b) \<in> set rs \<and> o' < b - a"
proof (induction rs arbitrary: offset)
  case (Cons r rs)
  obtain a b where r: "r = (a, b)" by (cases r)
  show ?case
  proof (cases "offset < b - a")
    case False
    with Cons.prems have "offset - (b - a) < intervals_length rs"
      by (auto simp: r intervals_length_def)
    from Cons.IH [OF this] False show ?thesis by (auto simp: r)
  qed (simp add: r)
qed (simp add: intervals_length_def)

lemma locate_offset_mem:
  "locate_offset rs offset = Some ((a, b), o') \<Longrightarrow> (a, b) \<in> set rs \<and> o' < b - a"
  by (induction rs offset rule: locate_offset.induct) (auto split: if_splits)

text \<open>A good sample lies inside one of the intervals and has the full sample size or is all of it.\<close>

definition sample_in :: "byte_range list \<Rightarrow> byte_range \<Rightarrow> bool" where
  "sample_in rs s \<longleftrightarrow> (\<exists>(a, b) \<in> set rs. a \<le> fst s \<and> snd s \<le> b \<and> fst s < snd s
     \<and> snd s - fst s = min (b - a) HLS_CROSS_CDN_SAMPLE_BYTES)"

lemma sample_at_in:
  assumes "(a, b) \<in> set rs" "o' < b - a"
  shows "sample_in rs (sample_at (a, b) o')"
proof -
  define len where "len = min (b - a) HLS_CROSS_CDN_SAMPLE_BYTES"
  define c where "c = clamp (a + o' - len div 2) a (b - len)"
  have len: "0 < len" "len \<le> b - a" using assms(2) by (auto simp: len_def HLS_CROSS_CDN_SAMPLE_BYTES_def)
  have c: "a \<le> c \<and> c \<le> b - len"
    unfolding c_def using len assms(2) by (intro clamp_bounds) linarith
  with len have "c + len \<le> b" by linarith
  moreover have "sample_at (a, b) o' = (c, c + len)"
    by (simp add: sample_at_def c_def len_def Let_def)
  ultimately show ?thesis
    unfolding sample_in_def len_def [symmetric]
    using assms(1) len c by (intro bexI [of _ "(a, b)"]) (simp_all add: len_def)
qed

abbreviation ranges_apart :: "byte_range \<Rightarrow> byte_range \<Rightarrow> bool" where
  "ranges_apart r s \<equiv> snd r \<le> fst s \<or> snd s \<le> fst r"

lemma add_samples_spec:
  "(\<forall>s \<in> set ss. sample_in rs s) \<Longrightarrow> sorted_wrt ranges_apart ss \<Longrightarrow>
     (\<forall>s \<in> set (add_samples rs ts ss). sample_in rs s) \<and> sorted_wrt ranges_apart (add_samples rs ts ss)
     \<and> length (add_samples rs ts ss) \<le> length ss + length ts \<and> (ss \<noteq> [] \<longrightarrow> add_samples rs ts ss \<noteq> [])"
proof (induction ts arbitrary: ss)
  case (Cons t ts)
  show ?case
  proof (cases "locate_offset rs t")
    case None
    with Cons.IH [OF Cons.prems] show ?thesis by auto
  next
    case (Some l)
    obtain a b o' where l: "l = ((a, b), o')" by (metis surj_pair)
    let ?s = "sample_at (a, b) o'"
    let ?ss = "if list_ex (\<lambda>x. fst x < snd ?s \<and> fst ?s < snd x) ss then ss else ss @ [?s]"
    have "sample_in rs ?s" using locate_offset_mem [OF Some [unfolded l]] sample_at_in by blast
    then have "\<forall>s \<in> set ?ss. sample_in rs s" using Cons.prems by auto
    moreover have "sorted_wrt ranges_apart ?ss"
      using Cons.prems(2) by (auto simp: sorted_wrt_append list_ex_iff not_less)
    ultimately have "(\<forall>s \<in> set (add_samples rs ts ?ss). sample_in rs s)
       \<and> sorted_wrt ranges_apart (add_samples rs ts ?ss)
       \<and> length (add_samples rs ts ?ss) \<le> length ?ss + length ts \<and> (?ss \<noteq> [] \<longrightarrow> add_samples rs ts ?ss \<noteq> [])"
      by (rule Cons.IH)
    moreover have "add_samples rs (t # ts) ss = add_samples rs ts ?ss"
      by (simp add: Some l Let_def)
    ultimately show ?thesis by (auto split: if_splits)
  qed
qed simp

text \<open>
  The samples compared across servers are sound: at most three, pairwise disjoint, none in the
  prefix, each inside a stored extent and at most \<open>HLS_CROSS_CDN_SAMPLE_BYTES\<close> long; and there is
  at least one sample as soon as any stored byte lies behind the prefix.
\<close>

theorem cross_cdn_samples_sound:
  fixes prefix_length :: nat
  assumes "extents_wf es" and "\<forall>e \<in> set es. re_end e \<le> u64_max"
  defines "ss \<equiv> select_cross_cdn_sample_ranges es prefix_length"
  shows "length ss \<le> 3 \<and> sorted_wrt ranges_apart ss
    \<and> (\<forall>(x, y) \<in> set ss. prefix_length \<le> x \<and> x < y \<and> y - x \<le> HLS_CROSS_CDN_SAMPLE_BYTES
          \<and> (\<exists>e \<in> set es. re_start e \<le> x \<and> y \<le> re_end e))
    \<and> ((\<exists>x \<in> extent_bytes es. prefix_length \<le> x) \<longrightarrow> ss \<noteq> [])"
proof -
  let ?rs = "sample_intervals es prefix_length"
  let ?n = "intervals_length ?rs"
  have n: "fold (\<lambda>(a, b) acc. wrapping_add acc (b - a)) ?rs 0 = ?n"
    using available_bytes_exact [OF assms(1,2), of 0] by simp
  have ss: "ss = (if ?n = 0 then [] else add_samples ?rs [0, (?n - 1) div 2, ?n - 1] [])"
    by (simp add: ss_def select_cross_cdn_sample_ranges_def n Let_def)
  have spec: "(\<forall>s \<in> set ss. sample_in ?rs s) \<and> sorted_wrt ranges_apart ss \<and> length ss \<le> 3"
    using add_samples_spec [of "[]" ?rs "[0, (?n - 1) div 2, ?n - 1]"] unfolding ss by auto
  have "prefix_length \<le> x \<and> x < y \<and> y - x \<le> HLS_CROSS_CDN_SAMPLE_BYTES
      \<and> (\<exists>e \<in> set es. re_start e \<le> x \<and> y \<le> re_end e)" if mem: "(x, y) \<in> set ss" for x y
  proof -
    obtain a b where ab: "(a, b) \<in> set ?rs" "a \<le> x" "y \<le> b" "x < y" "y - x = min (b - a) HLS_CROSS_CDN_SAMPLE_BYTES"
      using bspec [OF conjunct1 [OF spec] mem] unfolding sample_in_def by auto
    from sample_intervals_mem [OF ab(1)] obtain e where
      "prefix_length \<le> a" "e \<in> set es" "re_start e \<le> a" "b = re_end e" by blast
    with ab(2-5) show ?thesis by (auto intro!: bexI [of _ e])
  qed
  moreover have "ss \<noteq> []" if x: "x \<in> extent_bytes es" "prefix_length \<le> x" for x
  proof -
    have "\<exists>a b. (a, b) \<in> set ?rs"
      using x by (induction es) (fastforce simp: sample_intervals_Cons)+
    then obtain a b where ab: "(a, b) \<in> set ?rs" by blast
    then have "b - a \<in> set (map (\<lambda>(a, b). b - a) ?rs)" by force
    then have "b - a \<le> ?n" unfolding intervals_length_def by (simp add: member_le_sum_list)
    with sample_intervals_mem [OF ab] have pos: "0 < ?n" by linarith
    from locate_offset_Some [OF pos] obtain a b o' where l: "locate_offset ?rs 0 = Some ((a, b), o')"
      "(a, b) \<in> set ?rs" "o' < b - a" by blast
    have "ss = add_samples ?rs [(?n - 1) div 2, ?n - 1] [sample_at (a, b) o']"
      using pos l(1) by (simp add: ss Let_def)
    with add_samples_spec [of "[sample_at (a, b) o']" ?rs "[(?n - 1) div 2, ?n - 1]"] sample_at_in [OF l(2,3)]
    show ?thesis by simp
  qed
  ultimately show ?thesis using spec by blast
qed

theorem cross_cdn_samples_sound_witness:
  "select_cross_cdn_sample_ranges demo_extents 5 \<noteq> [] \<and> length (select_cross_cdn_sample_ranges demo_extents 5) \<le> 3"
proof -
  have "\<forall>e \<in> set demo_extents. re_end e \<le> u64_max" "7 \<in> extent_bytes demo_extents"
    by (simp_all add: demo_extents_def)
  with cross_cdn_samples_sound [OF demo_extents_wf, of 5] show ?thesis by force
qed

end
