(* ===== verification/Range_Cache.thy ===== *)
theory Range_Cache
  imports Range_Extents
begin

text \<open>
  The coordination state of the range cache (\<open>hls_range_cache.rs\<close>): which sessions are being
  published, removed or retired, which activities run, which chunk is downloaded by whom, and
  how many bytes are promised to unfinished downloads. Every method holds the mutex for its
  whole critical section, so it is one function on the state.

  The methods hand out guards whose \<open>Drop\<close> undoes them. The model of the whole component is the
  state together with the list of outstanding guards, and a step is one method call or the end
  of one guard. A completion channel (\<open>watch::Sender\<close>) is an identity taken from a counter.
\<close>

section \<open>State\<close>

datatype range_priority = RangeForeground | RangeBackground

datatype publication_mode = Fresh | Refresh | OwnedCompletion | OwnedRestoration

datatype fill_control = ControlContinue | ControlCancel | ControlPreempt

record resource_key =
  rk_session_id :: string
  rk_resource_id :: string
  rk_representation :: string

record chunk_key =
  ck_resource :: resource_key
  ck_total_length :: nat
  ck_range :: byte_range

record flight_state =
  fl_completion :: nat
  fl_foreground_interest :: nat

record range_reservation =
  rv_target_length :: nat
  rv_current_length :: nat

record range_state =
  rs_active :: nat
  rs_active_sessions :: "(string, nat) hmap"
  rs_active_foreground :: nat
  rs_removing :: "string set"
  rs_retired :: "string set"
  rs_unpublished :: "string set"
  rs_published :: "string set"
  rs_shutting_down :: bool
  rs_flights :: "(chunk_key, flight_state) hmap"
  rs_reservations :: "(resource_key, (nat, range_reservation) hmap) hmap"
  rs_next_reservation :: nat
  rs_next_channel :: nat

definition range_state_default :: range_state where
  "range_state_default = \<lparr>rs_active = 0, rs_active_sessions = [], rs_active_foreground = 0,
     rs_removing = {}, rs_retired = {}, rs_unpublished = {}, rs_published = {},
     rs_shutting_down = False, rs_flights = [], rs_reservations = [], rs_next_reservation = 0,
     rs_next_channel = 0\<rparr>"

text \<open>The guards, with the fields their \<open>Drop\<close> and \<open>commit\<close> read; \<open>RemovalWait\<close> is the pending future of
  \<open>begin_session_removal\<close>.\<close>

datatype range_guard =
    PublicationGuard string publication_mode
  | ActivityGuard string range_priority
  | FlightGuard chunk_key nat bool bool
  | LeaseGuard resource_key nat
  | RemovalGuard string
  | RemovalWait string

section \<open>Operations\<close>

definition session_count :: "range_state \<Rightarrow> string \<Rightarrow> nat" where
  "session_count s sid = (case hm_get (rs_active_sessions s) sid of Some n \<Rightarrow> n | None \<Rightarrow> 0)"

definition add_session :: "string \<Rightarrow> range_state \<Rightarrow> range_state" where
  "add_session sid s = s\<lparr>rs_active_sessions := hm_insert sid (session_count s sid + 1) (rs_active_sessions s)\<rparr>"

definition release_session :: "string \<Rightarrow> range_state \<Rightarrow> range_state" where
  "release_session sid s =
     (case hm_get (rs_active_sessions s) sid of
        Some n \<Rightarrow> s\<lparr>rs_active_sessions :=
            (if n - 1 = 0 then hm_remove sid (rs_active_sessions s)
             else hm_insert sid (n - 1) (rs_active_sessions s))\<rparr>
      | None \<Rightarrow> s)"

definition begin_session_publication ::
  "string \<Rightarrow> publication_mode \<Rightarrow> range_state \<Rightarrow> hls_range_error + range_guard \<times> range_state" where
  "begin_session_publication sid mode s =
     (if rs_shutting_down s \<or> sid \<in> rs_removing s \<or> sid \<in> rs_retired s then Inl SessionRemoving
      else
        let checked = (case mode of
              Fresh \<Rightarrow> if sid \<in> rs_published s \<or> session_count s sid \<noteq> 0 then Inl SessionRemoving
                      else Inr (s\<lparr>rs_unpublished := insert sid (rs_unpublished s)\<rparr>)
            | _ \<Rightarrow> if sid \<in> rs_unpublished s then Inl SessionRemoving else Inr s)
        in case checked of
             Inl e \<Rightarrow> Inl e
           | Inr s1 \<Rightarrow> Inr (PublicationGuard sid mode,
                          add_session sid (s1\<lparr>rs_active := rs_active s1 + 1\<rparr>)))"

definition try_begin_session_removal ::
  "string \<Rightarrow> range_state \<Rightarrow> hls_range_error + (range_guard \<times> range_state) option" where
  "try_begin_session_removal sid s =
     (if rs_shutting_down s \<or> sid \<in> rs_removing s then Inl SessionRemoving
      else if session_count s sid \<noteq> 0 then Inr None
      else Inr (Some (RemovalGuard sid, s\<lparr>rs_removing := insert sid (rs_removing s)\<rparr>)))"

definition range_activity_counts :: "range_state \<Rightarrow> nat \<times> nat" where
  "range_activity_counts s = (rs_active s, sum_list (map length (hm_values (rs_reservations s))))"

definition active_flight_count :: "resource_key \<Rightarrow> range_state \<Rightarrow> nat" where
  "active_flight_count key s = length (filter (\<lambda>(k, _). ck_resource k = key) (rs_flights s))"

definition session_blocked :: "range_state \<Rightarrow> string \<Rightarrow> bool" where
  "session_blocked s sid \<longleftrightarrow>
     rs_shutting_down s \<or> sid \<in> rs_removing s \<or> sid \<in> rs_retired s \<or> sid \<in> rs_unpublished s"

definition enter_range :: "string \<Rightarrow> range_priority \<Rightarrow> range_state \<Rightarrow> hls_range_error + range_guard \<times> range_state" where
  "enter_range sid priority s =
     (if session_blocked s sid then Inl SessionRemoving
      else
        let s1 = s\<lparr>rs_active := rs_active s + 1\<rparr>;
            s2 = (if priority = RangeForeground
                  then s1\<lparr>rs_active_foreground := rs_active_foreground s1 + 1\<rparr> else s1)
        in Inr (ActivityGuard sid priority, add_session sid s2))"

definition claim_chunk :: "chunk_key \<Rightarrow> range_priority \<Rightarrow> range_state \<Rightarrow> hls_range_error + range_guard \<times> range_state" where
  "claim_chunk key priority s =
     (if session_blocked s (rk_session_id (ck_resource key)) then Inl SessionRemoving
      else case hm_get (rs_flights s) key of
        Some flight \<Rightarrow>
          let flight' = (if priority = RangeForeground
                         then flight\<lparr>fl_foreground_interest := fl_foreground_interest flight + 1\<rparr> else flight)
          in Inr (FlightGuard key (fl_completion flight) False (priority = RangeForeground),
                  s\<lparr>rs_flights := hm_insert key flight' (rs_flights s)\<rparr>)
      | None \<Rightarrow>
          let flight = \<lparr>fl_completion = rs_next_channel s,
                        fl_foreground_interest = (if priority = RangeForeground then 1 else 0)\<rparr>
          in Inr (FlightGuard key (rs_next_channel s) True False,
                  s\<lparr>rs_flights := hm_insert key flight (rs_flights s),
                    rs_next_channel := rs_next_channel s + 1\<rparr>))"

text \<open>\<open>control\<close> is the closure the caller passes: its answer at the moment of the call.\<close>

definition check_priority_control ::
  "chunk_key \<Rightarrow> range_priority \<Rightarrow> fill_control \<Rightarrow> range_state \<Rightarrow> hls_range_error + unit" where
  "check_priority_control key priority control s =
     (if session_blocked s (rk_session_id (ck_resource key)) then Inl SessionRemoving
      else
        let promoted = (case hm_get (rs_flights s) key of
                          Some flight \<Rightarrow> fl_foreground_interest flight > 0 | None \<Rightarrow> False)
        in if priority = RangeBackground then
             let foreground_active = (rs_active_foreground s > 0) in
             if control = ControlCancel then Inl RangeCancelled
             else if control = ControlPreempt \<and> (\<not> promoted \<or> \<not> foreground_active) then Inl RangePreempted
             else if foreground_active \<and> \<not> promoted then Inl RangePreempted
             else Inr ()
           else case control of
             ControlCancel \<Rightarrow> Inl RangeCancelled
           | ControlPreempt \<Rightarrow> Inl RangePreempted
           | ControlContinue \<Rightarrow> Inr ())"

definition max_or_default :: "nat list \<Rightarrow> nat" where
  "max_or_default xs = fold max xs 0"

definition largest_target :: "(nat, range_reservation) hmap \<Rightarrow> nat" where
  "largest_target rs = max_or_default (map rv_target_length (hm_values rs))"

definition observed_length :: "(nat, range_reservation) hmap \<Rightarrow> nat" where
  "observed_length rs = max_or_default (map rv_current_length (hm_values rs))"

definition reserve ::
  "nat \<Rightarrow> resource_key \<Rightarrow> nat \<Rightarrow> nat \<Rightarrow> nat \<Rightarrow> range_state \<Rightarrow> hls_range_error + range_guard \<times> range_state" where
  "reserve quota_bytes key target_logical_length current_file_length managed_usage_bytes s =
     (if session_blocked s (rk_session_id key) then Inl SessionRemoving
      else
        let existing_additional = fold (\<lambda>(resource, rs) acc.
              saturating_add acc (largest_target rs -
                (if resource = key then max current_file_length (observed_length rs) else observed_length rs)))
              (rs_reservations s) 0;
            mine = (case hm_get (rs_reservations s) key of Some rs \<Rightarrow> rs | None \<Rightarrow> []);
            old_target = largest_target mine;
            target = max target_logical_length old_target;
            previous_current = observed_length mine;
            current_for_key = max current_file_length previous_current;
            old_additional = old_target - current_for_key;
            new_additional = target - current_for_key;
            projected = saturating_add
              (saturating_add managed_usage_bytes (existing_additional - old_additional)) new_additional
        in if quota_bytes > 0 \<and> projected > quota_bytes then Inl QuotaExceeded
           else
             let rid = max (wrapping_add (rs_next_reservation s) 1) 1 in
             Inr (LeaseGuard key rid,
                  s\<lparr>rs_next_reservation := rid,
                    rs_reservations := hm_insert key
                      (hm_insert rid \<lparr>rv_target_length = target, rv_current_length = current_for_key\<rparr> mine)
                      (rs_reservations s)\<rparr>))"

text \<open>The first critical section of \<open>begin_session_removal\<close>, and the test of its loop.\<close>

definition begin_session_removal :: "string \<Rightarrow> range_state \<Rightarrow> hls_range_error + range_guard \<times> range_state" where
  "begin_session_removal sid s =
     (if rs_shutting_down s \<or> sid \<in> rs_removing s then Inl SessionRemoving
      else Inr (RemovalWait sid, s\<lparr>rs_removing := insert sid (rs_removing s)\<rparr>))"

definition removal_idle :: "string \<Rightarrow> range_state \<Rightarrow> bool" where
  "removal_idle sid s = (session_count s sid = 0)"

definition drain :: "range_state \<Rightarrow> range_state" where
  "drain s = s\<lparr>rs_shutting_down := True\<rparr>"

definition drain_done :: "range_state \<Rightarrow> bool" where
  "drain_done s = (rs_active s = 0)"

definition note_file_length :: "resource_key \<Rightarrow> nat \<Rightarrow> range_state \<Rightarrow> range_state" where
  "note_file_length key file_length s =
     (case hm_get (rs_reservations s) key of
        Some rs \<Rightarrow> s\<lparr>rs_reservations := hm_insert key
            (map (\<lambda>(i, r). (i, r\<lparr>rv_current_length := max (rv_current_length r) file_length\<rparr>)) rs)
            (rs_reservations s)\<rparr>
      | None \<Rightarrow> s)"

definition release_foreground_interest :: "chunk_key \<Rightarrow> range_state \<Rightarrow> range_state" where
  "release_foreground_interest key s =
     (case hm_get (rs_flights s) key of
        Some flight \<Rightarrow> s\<lparr>rs_flights := hm_insert key
            (flight\<lparr>fl_foreground_interest := fl_foreground_interest flight - 1\<rparr>) (rs_flights s)\<rparr>
      | None \<Rightarrow> s)"

text \<open>\<open>active_foreground -= 1\<close> wraps around in a release build.\<close>

definition finish_activity :: "string \<Rightarrow> range_priority \<Rightarrow> range_state \<Rightarrow> range_state" where
  "finish_activity sid priority s =
     (let s1 = release_session sid (s\<lparr>rs_active := rs_active s - 1\<rparr>)
      in if priority = RangeForeground
         then s1\<lparr>rs_active_foreground :=
                (if rs_active_foreground s1 = 0 then u64_max else rs_active_foreground s1 - 1)\<rparr>
         else s1)"

definition finish_flight :: "chunk_key \<Rightarrow> nat \<Rightarrow> range_state \<Rightarrow> range_state" where
  "finish_flight key completion s =
     (case hm_get (rs_flights s) key of
        Some flight \<Rightarrow> if fl_completion flight = completion
                      then s\<lparr>rs_flights := hm_remove key (rs_flights s)\<rparr> else s
      | None \<Rightarrow> s)"

definition finish_reservation :: "resource_key \<Rightarrow> nat \<Rightarrow> range_state \<Rightarrow> range_state" where
  "finish_reservation key rid s =
     (case hm_get (rs_reservations s) key of
        Some rs \<Rightarrow>
          let rs' = hm_remove rid rs in
          s\<lparr>rs_reservations := (if rs' = [] then hm_remove key (rs_reservations s)
                                else hm_insert key rs' (rs_reservations s))\<rparr>
      | None \<Rightarrow> s)"

definition publication_commit :: "string \<Rightarrow> publication_mode \<Rightarrow> range_state \<Rightarrow> range_state" where
  "publication_commit sid mode s =
     (let s1 = (if mode = Fresh then s\<lparr>rs_unpublished := rs_unpublished s - {sid}\<rparr> else s);
          s2 = s1\<lparr>rs_published := insert sid (rs_published s1), rs_active := rs_active s1 - 1\<rparr>
      in release_session sid s2)"

definition removal_commit :: "string \<Rightarrow> range_state \<Rightarrow> range_state" where
  "removal_commit sid s = s\<lparr>rs_removing := rs_removing s - {sid}, rs_unpublished := rs_unpublished s - {sid},
     rs_published := rs_published s - {sid}, rs_retired := insert sid (rs_retired s)\<rparr>"

text \<open>\<open>Drop\<close> of each guard, when it has not been committed. A dropped \<open>begin_session_removal\<close> future has no \<open>Drop\<close>.\<close>

fun drop_guard :: "range_guard \<Rightarrow> range_state \<Rightarrow> range_state" where
  "drop_guard (PublicationGuard sid mode) s = finish_activity sid RangeBackground s"
| "drop_guard (ActivityGuard sid priority) s = finish_activity sid priority s"
| "drop_guard (FlightGuard key completion owner interest) s =
     (if owner then finish_flight key completion s
      else if interest then release_foreground_interest key s else s)"
| "drop_guard (LeaseGuard key rid) s = finish_reservation key rid s"
| "drop_guard (RemovalGuard sid) s = s\<lparr>rs_removing := rs_removing s - {sid}\<rparr>"
| "drop_guard (RemovalWait sid) s = s"

section \<open>The component with its guards\<close>

record range_world =
  rw_state :: range_state
  rw_guards :: "range_guard list"

definition world_default :: range_world where
  "world_default = \<lparr>rw_state = range_state_default, rw_guards = []\<rparr>"

definition with_guard :: "range_world \<Rightarrow> hls_range_error + range_guard \<times> range_state \<Rightarrow> range_world" where
  "with_guard w r = (case r of Inl _ \<Rightarrow> w | Inr (g, s) \<Rightarrow> \<lparr>rw_state = s, rw_guards = g # rw_guards w\<rparr>)"

definition without_guard :: "range_world \<Rightarrow> range_guard \<Rightarrow> (range_state \<Rightarrow> range_state) \<Rightarrow> range_world" where
  "without_guard w g f = \<lparr>rw_state = f (rw_state w), rw_guards = remove1 g (rw_guards w)\<rparr>"

inductive range_step :: "nat \<Rightarrow> range_world \<Rightarrow> range_world \<Rightarrow> bool" for quota :: nat where
  step_publish: "range_step quota w (with_guard w (begin_session_publication sid mode (rw_state w)))"
| step_enter: "range_step quota w (with_guard w (enter_range sid priority (rw_state w)))"
| step_claim: "range_step quota w (with_guard w (claim_chunk key priority (rw_state w)))"
| step_reserve: "range_step quota w (with_guard w (reserve quota rkey t c m (rw_state w)))"
| step_try_removal: "try_begin_session_removal sid (rw_state w) = Inr (Some (g, s)) \<Longrightarrow>
     range_step quota w \<lparr>rw_state = s, rw_guards = g # rw_guards w\<rparr>"
| step_begin_removal: "range_step quota w (with_guard w (begin_session_removal sid (rw_state w)))"
| step_removal_ready: "RemovalWait sid \<in> set (rw_guards w) \<Longrightarrow> removal_idle sid (rw_state w) \<Longrightarrow>
     range_step quota w (w\<lparr>rw_guards := RemovalGuard sid # remove1 (RemovalWait sid) (rw_guards w)\<rparr>)"
| step_drop: "g \<in> set (rw_guards w) \<Longrightarrow> range_step quota w (without_guard w g (drop_guard g))"
| step_publication_commit: "PublicationGuard sid mode \<in> set (rw_guards w) \<Longrightarrow>
     range_step quota w (without_guard w (PublicationGuard sid mode) (publication_commit sid mode))"
| step_removal_commit: "RemovalGuard sid \<in> set (rw_guards w) \<Longrightarrow>
     range_step quota w (without_guard w (RemovalGuard sid) (removal_commit sid))"
| step_drain: "range_step quota w (w\<lparr>rw_state := drain (rw_state w)\<rparr>)"
| step_note_length: "range_step quota w (w\<lparr>rw_state := note_file_length rkey n (rw_state w)\<rparr>)"

section \<open>Invariant\<close>

definition cnt :: "('a \<Rightarrow> bool) \<Rightarrow> 'a list \<Rightarrow> nat" where
  "cnt P xs = length (filter P xs)"

lemma cnt_simps [simp]:
  "cnt P [] = 0" "cnt P (x # xs) = (if P x then Suc (cnt P xs) else cnt P xs)"
  by (simp_all add: cnt_def)

lemma cnt_remove1: "x \<in> set xs \<Longrightarrow> cnt P (remove1 x xs) = (if P x then cnt P xs - 1 else cnt P xs)"
  by (simp add: cnt_def filter_remove1 length_remove1)

lemma cnt_pos: "x \<in> set xs \<Longrightarrow> P x \<Longrightarrow> 0 < cnt P xs"
  by (auto simp: cnt_def filter_empty_conv)

lemma cnt_zero: "cnt P xs = 0 \<longleftrightarrow> (\<forall>x \<in> set xs. \<not> P x)"
  by (auto simp: cnt_def filter_empty_conv)

text \<open>Which guards keep a session, the whole cache, or the foreground busy, and which own a flight.\<close>

fun holds_session :: "string \<Rightarrow> range_guard \<Rightarrow> bool" where
  "holds_session sid (PublicationGuard sid' _) = (sid' = sid)"
| "holds_session sid (ActivityGuard sid' _) = (sid' = sid)"
| "holds_session sid _ = False"

fun holds_cache :: "range_guard \<Rightarrow> bool" where
  "holds_cache (PublicationGuard _ _) = True"
| "holds_cache (ActivityGuard _ _) = True"
| "holds_cache _ = False"

fun holds_foreground :: "range_guard \<Rightarrow> bool" where
  "holds_foreground (ActivityGuard _ p) = (p = RangeForeground)"
| "holds_foreground _ = False"

fun removes_session :: "string \<Rightarrow> range_guard \<Rightarrow> bool" where
  "removes_session sid (RemovalGuard sid') = (sid' = sid)"
| "removes_session sid (RemovalWait sid') = (sid' = sid)"
| "removes_session sid _ = False"

fun owns_flight :: "chunk_key \<Rightarrow> range_guard \<Rightarrow> bool" where
  "owns_flight key (FlightGuard key' _ owner _) = (owner \<and> key' = key)"
| "owns_flight key _ = False"

definition activity_inv :: "range_state \<Rightarrow> range_guard list \<Rightarrow> bool" where
  "activity_inv s gs \<longleftrightarrow>
     rs_active s = cnt holds_cache gs \<and> rs_active_foreground s = cnt holds_foreground gs
     \<and> (\<forall>sid. hm_get (rs_active_sessions s) sid =
          (if cnt (holds_session sid) gs = 0 then None else Some (cnt (holds_session sid) gs)))"

definition removal_inv :: "range_state \<Rightarrow> range_guard list \<Rightarrow> bool" where
  "removal_inv s gs \<longleftrightarrow>
     (\<forall>sid. cnt (removes_session sid) gs \<le> (if sid \<in> rs_removing s then 1 else 0))
     \<and> (\<forall>sid. RemovalGuard sid \<in> set gs \<longrightarrow> cnt (holds_session sid) gs = 0)
     \<and> (\<forall>sid. sid \<in> rs_retired s \<longrightarrow> cnt (holds_session sid) gs = 0)"

definition publication_inv :: "range_state \<Rightarrow> range_guard list \<Rightarrow> bool" where
  "publication_inv s gs \<longleftrightarrow>
     (\<forall>sid. PublicationGuard sid Fresh \<in> set gs \<longrightarrow>
        sid \<in> rs_unpublished s \<and> cnt (holds_session sid) gs = 1)"

definition flight_inv :: "range_state \<Rightarrow> range_guard list \<Rightarrow> bool" where
  "flight_inv s gs \<longleftrightarrow>
     (\<forall>key. cnt (owns_flight key) gs = (if hm_get (rs_flights s) key = None then 0 else 1))
     \<and> (\<forall>key c f. FlightGuard key c True f \<in> set gs \<longrightarrow>
          (\<exists>fl. hm_get (rs_flights s) key = Some fl \<and> fl_completion fl = c))"

definition world_inv :: "range_world \<Rightarrow> bool" where
  "world_inv w \<longleftrightarrow> activity_inv (rw_state w) (rw_guards w) \<and> removal_inv (rw_state w) (rw_guards w)
     \<and> publication_inv (rw_state w) (rw_guards w) \<and> flight_inv (rw_state w) (rw_guards w)"

subsection \<open>Activities\<close>

lemma session_count_cnt: "activity_inv s gs \<Longrightarrow> session_count s sid = cnt (holds_session sid) gs"
  by (simp add: activity_inv_def session_count_def)

lemma activity_inv_cong:
  "activity_inv s gs \<Longrightarrow> rs_active s' = rs_active s \<Longrightarrow> rs_active_sessions s' = rs_active_sessions s \<Longrightarrow>
     rs_active_foreground s' = rs_active_foreground s \<Longrightarrow> activity_inv s' gs"
  by (simp add: activity_inv_def)

lemma activity_inv_update [simp]:
  "activity_inv (s\<lparr>rs_removing := x\<rparr>) gs = activity_inv s gs"
  "activity_inv (s\<lparr>rs_retired := x\<rparr>) gs = activity_inv s gs"
  "activity_inv (s\<lparr>rs_unpublished := x\<rparr>) gs = activity_inv s gs"
  "activity_inv (s\<lparr>rs_published := x\<rparr>) gs = activity_inv s gs"
  "activity_inv (s\<lparr>rs_shutting_down := b\<rparr>) gs = activity_inv s gs"
  "activity_inv (s\<lparr>rs_flights := f\<rparr>) gs = activity_inv s gs"
  "activity_inv (s\<lparr>rs_reservations := r\<rparr>) gs = activity_inv s gs"
  "activity_inv (s\<lparr>rs_next_reservation := n\<rparr>) gs = activity_inv s gs"
  "activity_inv (s\<lparr>rs_next_channel := n\<rparr>) gs = activity_inv s gs"
  by (simp_all add: activity_inv_def)

lemma activity_inv_other_guard:
  "\<not> holds_cache g \<Longrightarrow> activity_inv s (g # gs) = activity_inv s gs"
  by (cases g) (simp_all add: activity_inv_def)

lemma activity_inv_remove_other:
  assumes "\<not> holds_cache g"
  shows "activity_inv s (remove1 g gs) = activity_inv s gs"
proof (cases "g \<in> set gs")
  case True
  from assms have "\<not> holds_foreground g" "\<And>sid. \<not> holds_session sid g" by (cases g; simp)+
  with True assms show ?thesis by (simp add: activity_inv_def cnt_remove1)
qed (simp add: remove1_idem)

lemma activity_inv_add:
  assumes inv: "activity_inv s gs"
    and g: "\<And>sid'. holds_session sid' g \<longleftrightarrow> sid' = sid" "holds_cache g"
    and s': "rs_active s' = rs_active s + 1" "rs_active_sessions s' = rs_active_sessions s"
      "rs_active_foreground s' = rs_active_foreground s + (if holds_foreground g then 1 else 0)"
  shows "activity_inv (add_session sid s') (g # gs)"
proof -
  have "session_count s' sid = cnt (holds_session sid) gs"
    using inv s'(2) by (simp add: session_count_def activity_inv_def)
  then show ?thesis
    using inv g s' by (auto simp: activity_inv_def add_session_def)
qed

lemma activity_inv_release:
  assumes inv: "activity_inv s gs" and mem: "g \<in> set gs"
    and g: "\<And>sid'. holds_session sid' g \<longleftrightarrow> sid' = sid" "holds_cache g"
    and s': "rs_active s' = rs_active s - 1" "rs_active_sessions s' = rs_active_sessions s"
  shows "rs_active (release_session sid s') = cnt holds_cache (remove1 g gs)
    \<and> (\<forall>sid'. hm_get (rs_active_sessions (release_session sid s')) sid' =
          (if cnt (holds_session sid') (remove1 g gs) = 0 then None
           else Some (cnt (holds_session sid') (remove1 g gs))))
    \<and> rs_active_foreground (release_session sid s') = rs_active_foreground s'"
proof -
  have pos: "0 < cnt (holds_session sid) gs" by (rule cnt_pos [OF mem]) (simp add: g(1))
  have "cnt (holds_session sid') (remove1 g gs) =
      (if sid' = sid then cnt (holds_session sid) gs - 1 else cnt (holds_session sid') gs)" for sid'
    using mem g by (simp add: cnt_remove1)
  then show ?thesis
    using inv s' pos mem g(2) by (simp add: activity_inv_def release_session_def cnt_remove1)
qed

lemma activity_inv_finish:
  assumes inv: "activity_inv s gs" and mem: "g \<in> set gs"
    and g: "\<And>sid'. holds_session sid' g \<longleftrightarrow> sid' = sid" "holds_cache g"
      "holds_foreground g \<longleftrightarrow> p = RangeForeground"
  shows "activity_inv (finish_activity sid p s) (remove1 g gs)"
proof -
  note r = activity_inv_release [OF inv mem g(1-2), of "s\<lparr>rs_active := rs_active s - 1\<rparr>"]
  have fg: "rs_active_foreground s = cnt holds_foreground gs" using inv by (simp add: activity_inv_def)
  have "p = RangeForeground \<Longrightarrow> 0 < cnt holds_foreground gs" using g(3) cnt_pos [OF mem] by simp
  then show ?thesis
    using r fg mem g(3) by (auto simp: finish_activity_def Let_def activity_inv_def cnt_remove1)
qed

lemma activity_inv_commit:
  assumes inv: "activity_inv s gs" and mem: "PublicationGuard sid mode \<in> set gs"
  shows "activity_inv (publication_commit sid mode s) (remove1 (PublicationGuard sid mode) gs)"
proof -
  define s2 where "s2 = (if mode = Fresh then s\<lparr>rs_unpublished := rs_unpublished s - {sid}\<rparr> else s)
     \<lparr>rs_published := insert sid (rs_published s), rs_active := rs_active s - 1\<rparr>"
  have "publication_commit sid mode s = release_session sid s2"
    by (simp add: publication_commit_def s2_def Let_def)
  moreover have "rs_active s2 = rs_active s - 1" "rs_active_sessions s2 = rs_active_sessions s"
    "rs_active_foreground s2 = rs_active_foreground s" by (simp_all add: s2_def)
  moreover have g: "\<And>sid'. holds_session sid' (PublicationGuard sid mode) \<longleftrightarrow> sid' = sid" by auto
  moreover have "cnt holds_foreground (remove1 (PublicationGuard sid mode) gs) = rs_active_foreground s"
    using inv cnt_remove1 [OF mem, of holds_foreground] by (simp add: activity_inv_def)
  ultimately show ?thesis
    using activity_inv_release [OF inv mem g, of s2] unfolding activity_inv_def by auto
qed

lemma publication_cases:
  assumes "begin_session_publication sid mode s = Inr (g, s')"
  obtains "g = PublicationGuard sid mode" "sid \<notin> rs_removing s" "sid \<notin> rs_retired s"
    "s' = add_session sid (s\<lparr>rs_unpublished := (if mode = Fresh then insert sid (rs_unpublished s) else rs_unpublished s),
             rs_active := rs_active s + 1\<rparr>)"
    "if mode = Fresh then sid \<notin> rs_published s \<and> session_count s sid = 0 else sid \<notin> rs_unpublished s"
    "\<not> rs_shutting_down s"
  using assms
  by (cases mode) (auto simp: begin_session_publication_def Let_def split: if_splits)

lemma enter_cases:
  assumes "enter_range sid p s = Inr (g, s')"
  obtains "g = ActivityGuard sid p" "\<not> session_blocked s sid"
    "s' = add_session sid (s\<lparr>rs_active := rs_active s + 1,
        rs_active_foreground := rs_active_foreground s + (if p = RangeForeground then 1 else 0)\<rparr>)"
  using assms by (auto simp: enter_range_def Let_def split: if_splits)

lemma with_guard_cases:
  obtains (err) "with_guard w r = w"
  | (ok) g s where "r = Inr (g, s)" "with_guard w r = \<lparr>rw_state = s, rw_guards = g # rw_guards w\<rparr>"
  by (cases r) (auto simp: with_guard_def)

lemma guard_session_iff [simp]:
  "holds_session sid' (PublicationGuard sid mode) \<longleftrightarrow> sid' = sid"
  "holds_session sid' (ActivityGuard sid p) \<longleftrightarrow> sid' = sid"
  by auto

declare holds_session.simps(1,2) [simp del]

lemmas guard_op_defs = begin_session_publication_def enter_range_def claim_chunk_def reserve_def
  begin_session_removal_def try_begin_session_removal_def

lemma reserve_cases:
  assumes "reserve q key t c m s = Inr (g, s')"
  obtains rid r where "g = LeaseGuard key rid"
    "s' = s\<lparr>rs_next_reservation := rid, rs_reservations := r\<rparr>"
  using assms by (auto simp: reserve_def Let_def split: if_splits)

lemma claim_cases:
  assumes "claim_chunk key p s = Inr (g, s')"
  obtains (join) fl where "hm_get (rs_flights s) key = Some fl"
      "g = FlightGuard key (fl_completion fl) False (p = RangeForeground)"
      "s' = s\<lparr>rs_flights := hm_insert key (fl\<lparr>fl_foreground_interest :=
          fl_foreground_interest fl + (if p = RangeForeground then 1 else 0)\<rparr>) (rs_flights s)\<rparr>"
  | (own) "hm_get (rs_flights s) key = None"
      "g = FlightGuard key (rs_next_channel s) True False"
      "s' = s\<lparr>rs_flights := hm_insert key \<lparr>fl_completion = rs_next_channel s,
          fl_foreground_interest = (if p = RangeForeground then 1 else 0)\<rparr> (rs_flights s),
          rs_next_channel := rs_next_channel s + 1\<rparr>"
  using assms by (auto simp: claim_chunk_def Let_def split: if_splits option.splits)

lemma drop_other_activity:
  assumes "\<not> holds_cache g"
  shows "rs_active (drop_guard g s) = rs_active s \<and> rs_active_sessions (drop_guard g s) = rs_active_sessions s
    \<and> rs_active_foreground (drop_guard g s) = rs_active_foreground s"
  using assms by (cases g) (auto simp: finish_flight_def release_foreground_interest_def
      finish_reservation_def Let_def split: option.splits)

lemma activity_inv_step:
  assumes "range_step q w w'" and inv: "activity_inv (rw_state w) (rw_guards w)"
  shows "activity_inv (rw_state w') (rw_guards w')"
  using assms(1)
proof cases
  case (step_publish sid mode)
  show ?thesis
  proof (cases rule: with_guard_cases [of w "begin_session_publication sid mode (rw_state w)"])
    case (ok g s)
    from ok(1) show ?thesis
      by (rule publication_cases) (use inv step_publish ok in \<open>auto intro!: activity_inv_add\<close>)
  qed (use step_publish inv in simp)
next
  case (step_enter sid priority)
  show ?thesis
  proof (cases rule: with_guard_cases [of w "enter_range sid priority (rw_state w)"])
    case (ok g s)
    from ok(1) show ?thesis
      by (rule enter_cases) (use inv step_enter ok in \<open>auto intro!: activity_inv_add\<close>)
  qed (use step_enter inv in simp)
next
  case (step_claim key p)
  show ?thesis
  proof (cases rule: with_guard_cases [of w "claim_chunk key p (rw_state w)"])
    case (ok g s)
    from ok(1) show ?thesis
      by (cases rule: claim_cases)
        (use step_claim inv ok in \<open>auto simp: activity_inv_other_guard\<close>)
  qed (use step_claim inv in simp)
next
  case (step_reserve rkey t c m)
  show ?thesis
  proof (cases rule: with_guard_cases [of w "reserve q rkey t c m (rw_state w)"])
    case (ok g s)
    from ok(1) show ?thesis
      by (rule reserve_cases)
        (use step_reserve inv ok in \<open>auto simp: activity_inv_other_guard\<close>)
  qed (use step_reserve inv in simp)
next
  case (step_try_removal sid g s)
  with inv show ?thesis
    by (auto simp: try_begin_session_removal_def activity_inv_other_guard split: if_splits)
next
  case (step_begin_removal sid)
  with inv show ?thesis
    by (auto simp: with_guard_def begin_session_removal_def activity_inv_other_guard)
next
  case (step_removal_ready sid)
  with inv show ?thesis by (simp add: activity_inv_other_guard activity_inv_remove_other)
next
  case (step_drop g)
  show ?thesis
  proof (cases "holds_cache g")
    case True
    with step_drop inv show ?thesis
      by (cases g) (auto simp: without_guard_def intro!: activity_inv_finish)
  next
    case False
    with step_drop inv drop_other_activity [OF False, of "rw_state w"] show ?thesis
      by (auto simp: without_guard_def activity_inv_remove_other intro: activity_inv_cong)
  qed
next
  case (step_publication_commit sid mode)
  with inv show ?thesis by (simp add: without_guard_def activity_inv_commit)
next
  case (step_removal_commit sid)
  with inv show ?thesis
    by (auto simp: without_guard_def activity_inv_remove_other removal_commit_def)
next
  case step_drain
  with inv show ?thesis by (auto simp: drain_def)
next
  case (step_note_length rkey n)
  with inv show ?thesis
    by (auto simp: note_file_length_def split: option.split)
qed

subsection \<open>Removal, publication and flights\<close>

lemma add_session_fields [simp]:
  "rs_removing (add_session sid s) = rs_removing s" "rs_retired (add_session sid s) = rs_retired s"
  "rs_unpublished (add_session sid s) = rs_unpublished s" "rs_published (add_session sid s) = rs_published s"
  "rs_flights (add_session sid s) = rs_flights s"
  by (simp_all add: add_session_def)

lemma release_session_fields [simp]:
  "rs_removing (release_session sid s) = rs_removing s" "rs_retired (release_session sid s) = rs_retired s"
  "rs_unpublished (release_session sid s) = rs_unpublished s"
  "rs_published (release_session sid s) = rs_published s"
  "rs_flights (release_session sid s) = rs_flights s"
  by (simp_all add: release_session_def split: option.split)

lemma finish_activity_fields [simp]:
  "rs_removing (finish_activity sid p s) = rs_removing s" "rs_retired (finish_activity sid p s) = rs_retired s"
  "rs_unpublished (finish_activity sid p s) = rs_unpublished s" "rs_flights (finish_activity sid p s) = rs_flights s"
  by (simp_all add: finish_activity_def Let_def)

lemma drop_guard_fields [simp]:
  "rs_removing (drop_guard g s) = (case g of RemovalGuard sid \<Rightarrow> rs_removing s - {sid} | _ \<Rightarrow> rs_removing s)"
  "rs_retired (drop_guard g s) = rs_retired s" "rs_unpublished (drop_guard g s) = rs_unpublished s"
  by (cases g; simp add: finish_flight_def release_foreground_interest_def finish_reservation_def
      Let_def split: option.split)+

lemma publication_commit_fields [simp]:
  "rs_removing (publication_commit sid mode s) = rs_removing s"
  "rs_retired (publication_commit sid mode s) = rs_retired s"
  "rs_unpublished (publication_commit sid mode s) =
     (if mode = Fresh then rs_unpublished s - {sid} else rs_unpublished s)"
  "rs_flights (publication_commit sid mode s) = rs_flights s"
  by (simp_all add: publication_commit_def Let_def)

lemma note_file_length_fields [simp]:
  "rs_removing (note_file_length k n s) = rs_removing s" "rs_retired (note_file_length k n s) = rs_retired s"
  "rs_unpublished (note_file_length k n s) = rs_unpublished s" "rs_flights (note_file_length k n s) = rs_flights s"
  by (simp_all add: note_file_length_def split: option.split)

lemma removal_guard_removing:
  "removal_inv s gs \<Longrightarrow> g \<in> set gs \<Longrightarrow> removes_session sid g \<Longrightarrow> sid \<in> rs_removing s"
  using cnt_pos [of g gs "removes_session sid"]
  by (auto simp: removal_inv_def split: if_splits)

lemma removal_inv_add_activity:
  assumes "removal_inv s gs" "holds_session sid g" "\<And>sid'. holds_session sid' g \<longleftrightarrow> sid' = sid"
    "sid \<notin> rs_removing s" "sid \<notin> rs_retired s" "rs_removing s' = rs_removing s" "rs_retired s' = rs_retired s"
  shows "removal_inv s' (g # gs)"
proof -
  have "\<not> removes_session sid' g" for sid' using assms(2) by (cases g) auto
  moreover have "g \<noteq> RemovalGuard sid'" for sid' using assms(2) by auto
  moreover have "RemovalGuard sid \<notin> set gs"
    using removal_guard_removing [OF assms(1), of "RemovalGuard sid" sid] assms(4) by auto
  ultimately show ?thesis
    using assms by (auto simp: removal_inv_def)
qed

lemma removal_inv_remove1:
  assumes inv: "removal_inv s gs" and mem: "g \<in> set gs"
    and s': "rs_removing s' = (case g of RemovalGuard sid \<Rightarrow> rs_removing s - {sid} | _ \<Rightarrow> rs_removing s)"
      "\<And>sid. sid \<in> rs_retired s' \<Longrightarrow> sid \<in> rs_retired s \<or> g = RemovalGuard sid"
  shows "removal_inv s' (remove1 g gs)"
proof -
  have le: "cnt P (remove1 g gs) \<le> cnt P gs" for P using mem by (simp add: cnt_remove1)
  have "cnt (removes_session sid) (remove1 g gs) \<le> (if sid \<in> rs_removing s' then 1 else 0)" for sid
    using inv mem s'(1) by (auto simp: removal_inv_def cnt_remove1 split: range_guard.splits if_splits)
  moreover have "cnt (holds_session sid) (remove1 g gs) = 0"
    if "RemovalGuard sid \<in> set (remove1 g gs) \<or> sid \<in> rs_retired s'" for sid
  proof -
    have "RemovalGuard sid \<in> set gs \<or> sid \<in> rs_retired s"
      using that s'(2) [of sid] mem notin_set_remove1 by metis
    with inv have "cnt (holds_session sid) gs = 0" by (auto simp: removal_inv_def)
    with le [of "holds_session sid"] show ?thesis by simp
  qed
  ultimately show ?thesis by (auto simp: removal_inv_def)
qed

lemma removal_inv_other:
  assumes "removal_inv s gs" "\<not> holds_cache g" "\<And>sid. \<not> removes_session sid g"
    "rs_removing s' = rs_removing s" "rs_retired s' = rs_retired s"
  shows "removal_inv s' (g # gs)"
proof -
  have "\<not> holds_session sid g" for sid using assms(2) by (cases g) auto
  moreover have "RemovalGuard sid \<noteq> g" for sid using assms(3) [of sid] by auto
  moreover note assms(3)
  ultimately show ?thesis
    using assms(1,4,5) unfolding removal_inv_def by simp
qed

lemma removal_inv_step:
  assumes "range_step q w w'" and act: "activity_inv (rw_state w) (rw_guards w)"
    and inv: "removal_inv (rw_state w) (rw_guards w)"
  shows "removal_inv (rw_state w') (rw_guards w')"
  using assms(1)
proof cases
  case (step_publish sid mode)
  show ?thesis
  proof (cases rule: with_guard_cases [of w "begin_session_publication sid mode (rw_state w)"])
    case (ok g s)
    from ok(1) show ?thesis
      by (rule publication_cases)
        (use inv step_publish ok in \<open>auto intro!: removal_inv_add_activity [OF inv, of sid]\<close>)
  qed (use step_publish inv in simp)
next
  case (step_enter sid priority)
  show ?thesis
  proof (cases rule: with_guard_cases [of w "enter_range sid priority (rw_state w)"])
    case (ok g s)
    from ok(1) show ?thesis
      by (rule enter_cases)
        (use inv step_enter ok in \<open>auto simp: session_blocked_def intro!: removal_inv_add_activity [OF inv, of sid]\<close>)
  qed (use step_enter inv in simp)
next
  case (step_claim key p)
  show ?thesis
  proof (cases rule: with_guard_cases [of w "claim_chunk key p (rw_state w)"])
    case (ok g s)
    from ok(1) show ?thesis
      by (cases rule: claim_cases) (use step_claim inv ok in \<open>auto intro!: removal_inv_other [OF inv]\<close>)
  qed (use step_claim inv in simp)
next
  case (step_reserve rkey t c m)
  show ?thesis
  proof (cases rule: with_guard_cases [of w "reserve q rkey t c m (rw_state w)"])
    case (ok g s)
    from ok(1) show ?thesis
      by (rule reserve_cases) (use step_reserve inv ok in \<open>auto intro!: removal_inv_other [OF inv]\<close>)
  qed (use step_reserve inv in simp)
next
  case (step_try_removal sid g s)
  with inv session_count_cnt [OF act, of sid] show ?thesis
    by (auto simp: try_begin_session_removal_def removal_inv_def split: if_splits)
next
  case (step_begin_removal sid)
  with inv show ?thesis
    by (auto simp: with_guard_def begin_session_removal_def removal_inv_def split: if_splits)
next
  case (step_removal_ready sid)
  let ?gs = "RemovalGuard sid # remove1 (RemovalWait sid) (rw_guards w)"
  have pos: "0 < cnt (removes_session sid) (rw_guards w)"
    using step_removal_ready(2) by (rule cnt_pos) simp
  have "cnt (removes_session sid') ?gs = cnt (removes_session sid') (rw_guards w)"
    "cnt (holds_session sid') ?gs = cnt (holds_session sid') (rw_guards w)" for sid'
    using step_removal_ready(2) pos by (cases "sid = sid'"; auto simp: cnt_remove1)+
  moreover have "cnt (holds_session sid) (rw_guards w) = 0"
    using step_removal_ready(3) session_count_cnt [OF act, of sid] by (simp add: removal_idle_def)
  ultimately show ?thesis
    using inv step_removal_ready(1) notin_set_remove1
    by (auto simp: removal_inv_def simp del: cnt_simps dest: notin_set_remove1 [rotated])
next
  case (step_drop g)
  then show ?thesis
    unfolding step_drop(1) without_guard_def
    by (auto intro!: removal_inv_remove1 [OF inv] split: range_guard.split)
next
  case (step_publication_commit sid mode)
  then show ?thesis
    by (auto simp: without_guard_def intro!: removal_inv_remove1 [OF inv])
next
  case (step_removal_commit sid)
  then show ?thesis
    by (auto simp: without_guard_def removal_commit_def intro!: removal_inv_remove1 [OF inv])
next
  case step_drain
  with inv show ?thesis by (simp add: drain_def removal_inv_def)
next
  case (step_note_length rkey n)
  with inv show ?thesis by (simp add: removal_inv_def)
qed

lemma publication_inv_add:
  assumes "publication_inv s gs" "\<And>sid. g \<noteq> PublicationGuard sid Fresh"
    "\<And>sid. holds_session sid g \<Longrightarrow> sid \<notin> rs_unpublished s" "rs_unpublished s \<subseteq> rs_unpublished s'"
  shows "publication_inv s' (g # gs)"
  unfolding publication_inv_def
proof (intro allI impI)
  fix sid assume "PublicationGuard sid Fresh \<in> set (g # gs)"
  with assms(2) [of sid] have "PublicationGuard sid Fresh \<in> set gs" by auto
  with assms(1) have "sid \<in> rs_unpublished s" "cnt (holds_session sid) gs = 1"
    by (auto simp: publication_inv_def)
  with assms(3) [of sid] assms(4) show "sid \<in> rs_unpublished s' \<and> cnt (holds_session sid) (g # gs) = 1"
    by auto
qed

lemma publication_inv_remove1:
  assumes inv: "publication_inv s gs" and mem: "g \<in> set gs"
    and s': "\<And>sid. sid \<in> rs_unpublished s \<Longrightarrow> cnt (holds_session sid) gs = 1 \<Longrightarrow> \<not> holds_session sid g
       \<Longrightarrow> sid \<in> rs_unpublished s'"
  shows "publication_inv s' (remove1 g gs)"
  unfolding publication_inv_def
proof (intro allI impI)
  fix sid assume p: "PublicationGuard sid Fresh \<in> set (remove1 g gs)"
  then have old: "sid \<in> rs_unpublished s" "cnt (holds_session sid) gs = 1"
    using inv notin_set_remove1 by (fastforce simp: publication_inv_def)+
  have "0 < cnt (holds_session sid) (remove1 g gs)" using p by (rule cnt_pos) simp
  with old(2) mem have "\<not> holds_session sid g" "cnt (holds_session sid) (remove1 g gs) = 1"
    by (auto simp: cnt_remove1 split: if_splits)
  with s' old show "sid \<in> rs_unpublished s' \<and> cnt (holds_session sid) (remove1 g gs) = 1" by blast
qed

lemma publication_inv_step:
  assumes "range_step q w w'" and act: "activity_inv (rw_state w) (rw_guards w)"
    and rem: "removal_inv (rw_state w) (rw_guards w)" and inv: "publication_inv (rw_state w) (rw_guards w)"
  shows "publication_inv (rw_state w') (rw_guards w')"
  using assms(1)
proof cases
  case (step_publish sid mode)
  show ?thesis
  proof (cases rule: with_guard_cases [of w "begin_session_publication sid mode (rw_state w)"])
    case (ok g s)
    show ?thesis
    proof (rule publication_cases [OF ok(1)])
      assume p: "g = PublicationGuard sid mode"
        "s = add_session sid (rw_state w\<lparr>rs_unpublished := (if mode = Fresh
           then insert sid (rs_unpublished (rw_state w)) else rs_unpublished (rw_state w)),
           rs_active := rs_active (rw_state w) + 1\<rparr>)"
        "if mode = Fresh then sid \<notin> rs_published (rw_state w) \<and> session_count (rw_state w) sid = 0
         else sid \<notin> rs_unpublished (rw_state w)"
      show ?thesis
      proof (cases "mode = Fresh")
        case True
        with p(3) session_count_cnt [OF act, of sid] have "cnt (holds_session sid) (rw_guards w) = 0" by simp
        moreover have "sid' \<noteq> sid" if "PublicationGuard sid' Fresh \<in> set (rw_guards w)" for sid'
          using that inv calculation by (auto simp: publication_inv_def)
        ultimately show ?thesis
          using inv p ok step_publish True by (auto simp: publication_inv_def)
      next
        case False
        with inv p ok step_publish show ?thesis by (auto intro!: publication_inv_add [OF inv])
      qed
    qed
  qed (use step_publish inv in simp)
next
  case (step_enter sid priority)
  show ?thesis
  proof (cases rule: with_guard_cases [of w "enter_range sid priority (rw_state w)"])
    case (ok g s)
    from ok(1) show ?thesis
      by (rule enter_cases)
        (use inv step_enter ok in \<open>auto simp: session_blocked_def intro!: publication_inv_add [OF inv]\<close>)
  qed (use step_enter inv in simp)
next
  case (step_claim key p)
  show ?thesis
  proof (cases rule: with_guard_cases [of w "claim_chunk key p (rw_state w)"])
    case (ok g s)
    from ok(1) show ?thesis
      by (cases rule: claim_cases) (use step_claim inv ok in \<open>auto intro!: publication_inv_add [OF inv]\<close>)
  qed (use step_claim inv in simp)
next
  case (step_reserve rkey t c m)
  show ?thesis
  proof (cases rule: with_guard_cases [of w "reserve q rkey t c m (rw_state w)"])
    case (ok g s)
    from ok(1) show ?thesis
      by (rule reserve_cases) (use step_reserve inv ok in \<open>auto intro!: publication_inv_add [OF inv]\<close>)
  qed (use step_reserve inv in simp)
next
  case (step_try_removal sid g s)
  with inv show ?thesis
    by (auto simp: try_begin_session_removal_def split: if_splits intro!: publication_inv_add [OF inv])
next
  case (step_begin_removal sid)
  with inv show ?thesis
    by (auto simp: with_guard_def begin_session_removal_def intro!: publication_inv_add [OF inv])
next
  case (step_removal_ready sid)
  have "publication_inv (rw_state w) (remove1 (RemovalWait sid) (rw_guards w))"
    by (rule publication_inv_remove1 [OF inv step_removal_ready(2)]) simp
  from publication_inv_add [OF this, of "RemovalGuard sid" "rw_state w"] step_removal_ready(1)
  show ?thesis by simp
next
  case (step_drop g)
  then show ?thesis
    by (auto simp: without_guard_def intro!: publication_inv_remove1 [OF inv])
next
  case (step_publication_commit sid mode)
  then show ?thesis
    by (auto simp: without_guard_def intro!: publication_inv_remove1 [OF inv])
next
  case (step_removal_commit sid)
  moreover from this rem have "cnt (holds_session sid) (rw_guards w) = 0" by (simp add: removal_inv_def)
  ultimately show ?thesis
    by (auto simp: without_guard_def removal_commit_def intro!: publication_inv_remove1 [OF inv])
next
  case step_drain
  with inv show ?thesis by (simp add: drain_def publication_inv_def)
next
  case (step_note_length rkey n)
  with inv show ?thesis by (simp add: publication_inv_def)
qed

lemma flight_inv_same:
  assumes "flight_inv s gs" "rs_flights s' = rs_flights s" "\<And>key. \<not> owns_flight key g"
  shows "flight_inv s' (g # gs)"
proof -
  have "g \<noteq> FlightGuard key c True f" for key c f using assms(3) [of key] by auto
  then have "FlightGuard key c True f \<in> set (g # gs) \<longleftrightarrow> FlightGuard key c True f \<in> set gs" for key c f
    by auto
  with assms show ?thesis by (simp only: flight_inv_def cnt_simps if_False) blast
qed

lemma flight_inv_remove_same:
  assumes "flight_inv s gs" "rs_flights s' = rs_flights s" "\<And>key. \<not> owns_flight key g"
  shows "flight_inv s' (remove1 g gs)"
proof (cases "g \<in> set gs")
  case True
  have "FlightGuard key c True f \<in> set gs" if "FlightGuard key c True f \<in> set (remove1 g gs)" for key c f
    using that by (meson notin_set_remove1)
  moreover have "cnt (owns_flight key) (remove1 g gs) = cnt (owns_flight key) gs" for key
    using True assms(3) by (simp add: cnt_remove1)
  ultimately show ?thesis using assms(1,2) unfolding flight_inv_def by metis
next
  case False
  with assms show ?thesis by (simp add: flight_inv_def remove1_idem)
qed

lemma flight_inv_interest:
  assumes "flight_inv s gs" "hm_get (rs_flights s) key = Some fl" "fl_completion fl' = fl_completion fl"
  shows "flight_inv (s\<lparr>rs_flights := hm_insert key fl' (rs_flights s)\<rparr>) gs"
proof -
  have "\<exists>x. hm_get (hm_insert key fl' (rs_flights s)) k = Some x \<and> fl_completion x = c"
    if "FlightGuard k c True f \<in> set gs" for k c f
  proof -
    from assms(1) that obtain x where "hm_get (rs_flights s) k = Some x" "fl_completion x = c"
      unfolding flight_inv_def by blast
    with assms(2,3) show ?thesis by (cases "k = key") auto
  qed
  then show ?thesis using assms(1,2) unfolding flight_inv_def by auto
qed

lemma flight_inv_own:
  assumes inv: "flight_inv s gs" and free: "hm_get (rs_flights s) key = None" and c: "fl_completion fl = c"
  shows "flight_inv (s\<lparr>rs_flights := hm_insert key fl (rs_flights s), rs_next_channel := n\<rparr>)
           (FlightGuard key c True f # gs)"
proof -
  have "FlightGuard key c' True f' \<notin> set gs" for c' f'
    using inv free unfolding flight_inv_def by fastforce
  then have "\<exists>x. hm_get (hm_insert key fl (rs_flights s)) k = Some x \<and> fl_completion x = c'"
    if "FlightGuard k c' True f' \<in> set (FlightGuard key c True f # gs)" for k c' f'
    using that inv c unfolding flight_inv_def by (cases "k = key") (auto, blast)
  moreover have "cnt (owns_flight k) (FlightGuard key c True f # gs) =
      (if hm_get (hm_insert key fl (rs_flights s)) k = None then 0 else 1)" for k
    using inv free by (auto simp: flight_inv_def)
  ultimately show ?thesis unfolding flight_inv_def by simp
qed

lemma flight_inv_finish:
  assumes inv: "flight_inv s gs" and mem: "FlightGuard key c True f \<in> set gs"
  shows "flight_inv (finish_flight key c s) (remove1 (FlightGuard key c True f) gs)"
proof -
  let ?g = "FlightGuard key c True f"
  obtain fl where fl: "hm_get (rs_flights s) key = Some fl" "fl_completion fl = c"
    using inv mem unfolding flight_inv_def by blast
  then have fin: "finish_flight key c s = s\<lparr>rs_flights := hm_remove key (rs_flights s)\<rparr>"
    by (simp add: finish_flight_def)
  have one: "cnt (owns_flight key) gs = 1" using inv fl by (simp add: flight_inv_def)
  have cnt: "cnt (owns_flight k) (remove1 ?g gs) = (if k = key then 0 else cnt (owns_flight k) gs)" for k
    using mem one by (auto simp: cnt_remove1)
  have "\<exists>fl'. hm_get (hm_remove key (rs_flights s)) k = Some fl' \<and> fl_completion fl' = c'"
    if m: "FlightGuard k c' True f' \<in> set (remove1 ?g gs)" for k c' f'
  proof -
    have "0 < cnt (owns_flight k) (remove1 ?g gs)" using m by (rule cnt_pos) simp
    with cnt [of k] have "k \<noteq> key" by (auto split: if_splits)
    moreover have "FlightGuard k c' True f' \<in> set gs" using m by (meson notin_set_remove1)
    ultimately have "k \<noteq> key" "\<exists>x. hm_get (rs_flights s) k = Some x \<and> fl_completion x = c'"
      using inv unfolding flight_inv_def by blast+
    then show ?thesis by simp
  qed
  moreover have "cnt (owns_flight k) (remove1 ?g gs) = (if hm_get (hm_remove key (rs_flights s)) k = None then 0 else 1)" for k
    using inv cnt [of k] by (auto simp: flight_inv_def)
  ultimately show ?thesis unfolding fin flight_inv_def by simp
qed

lemma flight_inv_step:
  assumes "range_step q w w'" and inv: "flight_inv (rw_state w) (rw_guards w)"
  shows "flight_inv (rw_state w') (rw_guards w')"
  using assms(1)
proof cases
  case (step_publish sid mode)
  show ?thesis
  proof (cases rule: with_guard_cases [of w "begin_session_publication sid mode (rw_state w)"])
    case (ok g s)
    from ok(1) show ?thesis
      by (rule publication_cases) (use inv step_publish ok in \<open>auto intro!: flight_inv_same [OF inv]\<close>)
  qed (use step_publish inv in simp)
next
  case (step_enter sid priority)
  show ?thesis
  proof (cases rule: with_guard_cases [of w "enter_range sid priority (rw_state w)"])
    case (ok g s)
    from ok(1) show ?thesis
      by (rule enter_cases) (use inv step_enter ok in \<open>auto intro!: flight_inv_same [OF inv]\<close>)
  qed (use step_enter inv in simp)
next
  case (step_claim key p)
  show ?thesis
  proof (cases rule: with_guard_cases [of w "claim_chunk key p (rw_state w)"])
    case (ok g s)
    from ok(1) show ?thesis
    proof (cases rule: claim_cases)
      case (join fl)
      have "flight_inv s (rw_guards w)" unfolding join(3) by (rule flight_inv_interest [OF inv join(1)]) simp
      from flight_inv_same [OF this, of s g] join(2) step_claim ok show ?thesis by simp
    next
      case own
      have "flight_inv s (g # rw_guards w)"
        using flight_inv_own [OF inv own(1)] unfolding own(2,3) by simp
      with step_claim ok show ?thesis by simp
    qed
  qed (use step_claim inv in simp)
next
  case (step_reserve rkey t c m)
  show ?thesis
  proof (cases rule: with_guard_cases [of w "reserve q rkey t c m (rw_state w)"])
    case (ok g s)
    from ok(1) show ?thesis
      by (rule reserve_cases) (use step_reserve inv ok in \<open>auto intro!: flight_inv_same [OF inv]\<close>)
  qed (use step_reserve inv in simp)
next
  case (step_try_removal sid g s)
  with inv show ?thesis
    by (auto simp: try_begin_session_removal_def split: if_splits intro!: flight_inv_same [OF inv])
next
  case (step_begin_removal sid)
  with inv show ?thesis
    by (auto simp: with_guard_def begin_session_removal_def intro!: flight_inv_same [OF inv])
next
  case (step_removal_ready sid)
  then show ?thesis
    by (auto intro!: flight_inv_same [OF flight_inv_remove_same [OF inv]])
next
  case (step_drop g)
  show ?thesis
  proof (cases g)
    case (FlightGuard key c owner interest)
    consider "owner" | fl where "\<not> owner" "interest" "hm_get (rs_flights (rw_state w)) key = Some fl"
      | "\<not> owner" "interest \<longrightarrow> hm_get (rs_flights (rw_state w)) key = None" by (cases "hm_get (rs_flights (rw_state w)) key") auto
    then show ?thesis
    proof cases
      case 1
      with FlightGuard step_drop flight_inv_finish [OF inv] show ?thesis by (simp add: without_guard_def)
    next
      case (2 fl)
      have "flight_inv (release_foreground_interest key (rw_state w)) (rw_guards w)"
        using flight_inv_interest [OF inv 2(3)] 2(3) by (simp add: release_foreground_interest_def)
      from flight_inv_remove_same [OF this, of _ g] 2 FlightGuard step_drop show ?thesis
        by (simp add: without_guard_def)
    next
      case 3
      then have "drop_guard g (rw_state w) = rw_state w"
        using FlightGuard by (auto simp: release_foreground_interest_def)
      with 3 FlightGuard step_drop flight_inv_remove_same [OF inv, of "rw_state w" g] show ?thesis
        by (simp add: without_guard_def)
    qed
  qed (use step_drop in \<open>auto simp: without_guard_def finish_reservation_def Let_def
        intro!: flight_inv_remove_same [OF inv] split: option.split\<close>)
next
  case (step_publication_commit sid mode)
  then show ?thesis by (auto simp: without_guard_def intro!: flight_inv_remove_same [OF inv])
next
  case (step_removal_commit sid)
  then show ?thesis
    by (auto simp: without_guard_def removal_commit_def intro!: flight_inv_remove_same [OF inv])
next
  case step_drain
  with inv show ?thesis by (simp add: drain_def flight_inv_def)
next
  case (step_note_length rkey n)
  with inv show ?thesis by (simp add: flight_inv_def)
qed

interpretation ranges: step_system "\<lambda>w. w = world_default" "\<lambda>w (u::unit) w'. range_step q w w'" world_inv
  for q :: nat
proof unfold_locales
  fix w assume "w = world_default"
  then show "world_inv w"
    by (simp add: world_inv_def world_default_def range_state_default_def activity_inv_def removal_inv_def
        publication_inv_def flight_inv_def)
next
  fix w w' and u :: unit assume "world_inv w" "range_step q w w'"
  then show "world_inv w'"
    using activity_inv_step removal_inv_step publication_inv_step flight_inv_step
    unfolding world_inv_def by blast
qed

section \<open>Properties of the guards\<close>

abbreviation range_reachable :: "nat \<Rightarrow> range_world \<Rightarrow> bool" where
  "range_reachable q \<equiv> reachable (\<lambda>w. w = world_default) (\<lambda>w (u::unit) w'. range_step q w w')"

lemma range_reachable_default: "range_reachable q world_default"
  by (rule reach_init) simp

lemma range_reachable_step: "range_reachable q w \<Longrightarrow> range_step q w w' \<Longrightarrow> range_reachable q w'"
  by (rule reach_step [where l = "()"])

text \<open>
  C8. The counters are exact in every reachable state: the number of active operations, of
  operations per session and of foreground operations is the number of guards outstanding. So
  the unchecked decrement of \<open>active_foreground\<close> never underflows, a drain is finished exactly when
  no activity or publication is outstanding, and a chunk is in flight exactly when one guard
  owns its download, never two.
\<close>

theorem range_counters_exact:
  assumes "range_reachable q w"
  shows "rs_active (rw_state w) = cnt holds_cache (rw_guards w)
    \<and> session_count (rw_state w) sid = cnt (holds_session sid) (rw_guards w)
    \<and> (drain_done (rw_state w) \<longleftrightarrow> (\<forall>g \<in> set (rw_guards w). \<not> holds_cache g))
    \<and> (ActivityGuard sid RangeForeground \<in> set (rw_guards w) \<longrightarrow> 0 < rs_active_foreground (rw_state w))
    \<and> cnt (owns_flight key) (rw_guards w) = (if hm_get (rs_flights (rw_state w)) key = None then 0 else 1)"
proof -
  have inv: "world_inv w" using assms by (rule ranges.reachable_inv)
  then have act: "activity_inv (rw_state w) (rw_guards w)" by (simp add: world_inv_def)
  have "0 < rs_active_foreground (rw_state w)" if "ActivityGuard sid RangeForeground \<in> set (rw_guards w)"
    using act cnt_pos [OF that, of holds_foreground] by (simp add: activity_inv_def)
  with inv session_count_cnt [OF act, of sid] show ?thesis
    by (simp add: world_inv_def activity_inv_def flight_inv_def drain_done_def cnt_zero)
qed

definition demo_world :: range_world where
  "demo_world = with_guard world_default (enter_range ''s'' RangeForeground range_state_default)"

lemma demo_world_reachable: "range_reachable q demo_world"
proof -
  have "range_step q world_default demo_world"
    unfolding demo_world_def using step_enter [of q world_default "''s''" RangeForeground]
    by (simp add: world_default_def)
  then show ?thesis by (rule range_reachable_step [OF range_reachable_default])
qed

lemma demo_world_guards: "rw_guards demo_world = [ActivityGuard ''s'' RangeForeground]"
  by (simp add: demo_world_def with_guard_def enter_range_def session_blocked_def range_state_default_def
      world_default_def Let_def)

theorem range_counters_exact_witness:
  "rs_active (rw_state demo_world) = 1 \<and> \<not> drain_done (rw_state demo_world)"
  using range_counters_exact [OF demo_world_reachable [of 0], of "''s''" undefined]
  by (simp add: demo_world_guards drain_done_def)

text \<open>
  C9. Removal and first publication are exclusive: in every reachable state, while a removal guard
  of a session is held no activity and no publication of that session is running, at most one
  removal of it is under way, and while its first publication is running nothing else uses it
  and every other request for it is refused.
\<close>

theorem removal_and_publication_exclusive:
  assumes "range_reachable q w"
  shows "(RemovalGuard sid \<in> set (rw_guards w) \<longrightarrow>
            (\<forall>g \<in> set (rw_guards w). \<not> holds_session sid g)
            \<and> enter_range sid p (rw_state w) = Inl SessionRemoving
            \<and> begin_session_publication sid mode (rw_state w) = Inl SessionRemoving)
    \<and> cnt (removes_session sid) (rw_guards w) \<le> 1
    \<and> (PublicationGuard sid Fresh \<in> set (rw_guards w) \<longrightarrow>
            cnt (holds_session sid) (rw_guards w) = 1
            \<and> enter_range sid p (rw_state w) = Inl SessionRemoving
            \<and> begin_session_publication sid mode (rw_state w) = Inl SessionRemoving)"
proof -
  have inv: "world_inv w" using assms by (rule ranges.reachable_inv)
  then have rem: "removal_inv (rw_state w) (rw_guards w)" and act: "activity_inv (rw_state w) (rw_guards w)"
    and pub: "publication_inv (rw_state w) (rw_guards w)" by (simp_all add: world_inv_def)
  have one: "cnt (removes_session sid) (rw_guards w) \<le> 1"
    using spec [OF conjunct1 [OF rem [unfolded removal_inv_def]], of sid] by (auto split: if_splits)
  have r: "(\<forall>g \<in> set (rw_guards w). \<not> holds_session sid g) \<and> sid \<in> rs_removing (rw_state w)"
    if "RemovalGuard sid \<in> set (rw_guards w)"
    using rem that removal_guard_removing [OF rem that] by (simp add: removal_inv_def cnt_zero)
  have f: "cnt (holds_session sid) (rw_guards w) = 1 \<and> sid \<in> rs_unpublished (rw_state w)
      \<and> session_count (rw_state w) sid = 1" if "PublicationGuard sid Fresh \<in> set (rw_guards w)"
    using pub that session_count_cnt [OF act, of sid] by (simp add: publication_inv_def)
  show ?thesis
    using one r f
    by (auto simp: enter_range_def session_blocked_def begin_session_publication_def Let_def
        split: publication_mode.split)
qed

definition demo_removal :: range_world where
  "demo_removal = \<lparr>rw_state = range_state_default\<lparr>rs_removing := {''s''}\<rparr>, rw_guards = [RemovalGuard ''s'']\<rparr>"

lemma demo_removal_reachable: "range_reachable q demo_removal"
proof -
  have "range_step q world_default demo_removal"
    unfolding demo_removal_def
    using step_try_removal [of "''s''" world_default "RemovalGuard ''s''" "range_state_default\<lparr>rs_removing := {''s''}\<rparr>" q]
    by (simp add: world_default_def try_begin_session_removal_def range_state_default_def session_count_def)
  then show ?thesis by (rule range_reachable_step [OF range_reachable_default])
qed

definition demo_exclusive :: range_world where
  "demo_exclusive = with_guard demo_removal (begin_session_publication ''t'' Fresh (rw_state demo_removal))"

lemma demo_exclusive_reachable: "range_reachable q demo_exclusive"
  unfolding demo_exclusive_def by (rule range_reachable_step [OF demo_removal_reachable step_publish])

lemma demo_exclusive_guards:
  "rw_guards demo_exclusive = [PublicationGuard ''t'' Fresh, RemovalGuard ''s'']"
  by (simp add: demo_exclusive_def demo_removal_def with_guard_def begin_session_publication_def
      range_state_default_def session_count_def Let_def)

theorem removal_and_publication_exclusive_witness:
  "range_reachable 0 demo_exclusive
    \<and> set (rw_guards demo_exclusive) = {RemovalGuard ''s'', PublicationGuard ''t'' Fresh}
    \<and> cnt (holds_session ''s'') (rw_guards demo_exclusive) = 0
    \<and> cnt (removes_session ''s'') (rw_guards demo_exclusive) \<le> 1
    \<and> enter_range ''s'' RangeForeground (rw_state demo_exclusive) = Inl SessionRemoving
    \<and> begin_session_publication ''s'' Fresh (rw_state demo_exclusive) = Inl SessionRemoving
    \<and> cnt (holds_session ''t'') (rw_guards demo_exclusive) = 1
    \<and> enter_range ''t'' RangeForeground (rw_state demo_exclusive) = Inl SessionRemoving
    \<and> begin_session_publication ''t'' Refresh (rw_state demo_exclusive) = Inl SessionRemoving"
  using demo_exclusive_reachable [of 0]
    removal_and_publication_exclusive [OF demo_exclusive_reachable [of 0], of "''s''" RangeForeground Fresh]
    removal_and_publication_exclusive [OF demo_exclusive_reachable [of 0], of "''t''" RangeForeground Refresh]
  by (simp add: demo_exclusive_guards cnt_zero insert_commute)

subsection \<open>Retirement and abandoned removals\<close>

lemma retired_step: "range_step q w w' \<Longrightarrow> rs_retired (rw_state w) \<subseteq> rs_retired (rw_state w')"
proof (induction rule: range_step.induct)
  case (step_publish w sid mode)
  then show ?case
    by (cases rule: with_guard_cases [of w "begin_session_publication sid mode (rw_state w)"])
      (auto elim!: publication_cases)
next
  case (step_enter w sid p)
  then show ?case
    by (cases rule: with_guard_cases [of w "enter_range sid p (rw_state w)"]) (auto elim!: enter_cases)
next
  case (step_claim w key p)
  then show ?case
    by (cases rule: with_guard_cases [of w "claim_chunk key p (rw_state w)"]) (auto elim!: claim_cases)
next
  case (step_reserve w rkey t c m)
  then show ?case
    by (cases rule: with_guard_cases [of w "reserve q rkey t c m (rw_state w)"]) (auto elim!: reserve_cases)
qed (auto simp: with_guard_def without_guard_def begin_session_removal_def try_begin_session_removal_def
      removal_commit_def drain_def split: if_splits)

lemma retired_run:
  "exec_run (\<lambda>w (u::unit) w'. range_step q w w') w us w' \<Longrightarrow>
     rs_retired (rw_state w) \<subseteq> rs_retired (rw_state w')"
  by (induction rule: exec_run.induct) (auto dest!: retired_step)

text \<open>
  A removed session never comes back: once a removal is committed, after any further steps the
  session is still retired, nothing uses it, and every attempt to publish it, to enter it, to
  claim a chunk of it or to reserve space for it is refused.
\<close>

theorem retired_session_stays_closed:
  assumes "range_reachable q w" and "RemovalGuard sid \<in> set (rw_guards w)"
    and "exec_run (\<lambda>w (u::unit) w'. range_step q w w') (without_guard w (RemovalGuard sid) (removal_commit sid)) us w'"
    and "rk_session_id (ck_resource key) = sid"
  shows "(\<forall>g \<in> set (rw_guards w'). \<not> holds_session sid g)
    \<and> begin_session_publication sid mode (rw_state w') = Inl SessionRemoving
    \<and> enter_range sid p (rw_state w') = Inl SessionRemoving
    \<and> claim_chunk key p (rw_state w') = Inl SessionRemoving
    \<and> reserve q (ck_resource key) t c m (rw_state w') = Inl SessionRemoving"
proof -
  let ?w = "without_guard w (RemovalGuard sid) (removal_commit sid)"
  have "range_step q w ?w" using assms(2) by (rule step_removal_commit)
  then have "range_reachable q ?w" by (rule range_reachable_step [OF assms(1)])
  then have "range_reachable q w'" using reachable_exec_run [OF assms(3)] by blast
  then have "removal_inv (rw_state w') (rw_guards w')"
    using ranges.reachable_inv by (auto simp: world_inv_def)
  moreover have "sid \<in> rs_retired (rw_state w')"
    using retired_run [OF assms(3)] by (auto simp: without_guard_def removal_commit_def)
  ultimately show ?thesis
    using assms(4)
    by (simp add: removal_inv_def cnt_zero begin_session_publication_def enter_range_def claim_chunk_def
        reserve_def session_blocked_def)
qed

theorem retired_session_stays_closed_witness:
  "\<exists>w'. begin_session_publication ''s'' Fresh (rw_state w') = Inl SessionRemoving
     \<and> w' = without_guard demo_removal (RemovalGuard ''s'') (removal_commit ''s'')"
proof -
  let ?k = "\<lparr>ck_resource = \<lparr>rk_session_id = ''s'', rk_resource_id = [], rk_representation = []\<rparr>,
             ck_total_length = 0, ck_range = (0, 0)\<rparr>"
  have "RemovalGuard ''s'' \<in> set (rw_guards demo_removal)" by (simp add: demo_removal_def)
  from retired_session_stays_closed [OF demo_removal_reachable this exec_nil, of ?k] show ?thesis by simp
qed

definition removal_abandoned :: "string \<Rightarrow> range_world \<Rightarrow> bool" where
  "removal_abandoned sid w \<longleftrightarrow>
     sid \<in> rs_removing (rw_state w) \<and> (\<forall>g \<in> set (rw_guards w). \<not> removes_session sid g)"

lemma removal_abandoned_remove:
  "removal_abandoned sid w \<Longrightarrow> g \<in> set (rw_guards w) \<Longrightarrow>
     rs_removing s' = (case g of RemovalGuard x \<Rightarrow> rs_removing (rw_state w) - {x} | _ \<Rightarrow> rs_removing (rw_state w)) \<Longrightarrow>
     removal_abandoned sid \<lparr>rw_state = s', rw_guards = remove1 g (rw_guards w)\<rparr>"
  by (cases g) (auto simp: removal_abandoned_def dest: notin_set_remove1)

lemma removal_abandoned_add:
  "removal_abandoned sid w \<Longrightarrow> \<not> removes_session sid g \<Longrightarrow> rs_removing (rw_state w) \<subseteq> rs_removing s' \<Longrightarrow>
     removal_abandoned sid \<lparr>rw_state = s', rw_guards = g # rw_guards w\<rparr>"
  by (auto simp: removal_abandoned_def)

lemma removal_abandoned_step:
  assumes "range_step q w w'" and inv: "removal_abandoned sid w"
  shows "removal_abandoned sid w'"
  using assms(1)
proof cases
  case (step_publish sid' mode)
  with inv show ?thesis
    by (cases rule: with_guard_cases [of w "begin_session_publication sid' mode (rw_state w)"])
      (auto elim!: publication_cases intro!: removal_abandoned_add)
next
  case (step_enter sid' p)
  with inv show ?thesis
    by (cases rule: with_guard_cases [of w "enter_range sid' p (rw_state w)"])
      (auto elim!: enter_cases intro!: removal_abandoned_add)
next
  case (step_claim key p)
  with inv show ?thesis
    by (cases rule: with_guard_cases [of w "claim_chunk key p (rw_state w)"])
      (auto elim!: claim_cases intro!: removal_abandoned_add)
next
  case (step_reserve rkey t c m)
  with inv show ?thesis
    by (cases rule: with_guard_cases [of w "reserve q rkey t c m (rw_state w)"])
      (auto elim!: reserve_cases intro!: removal_abandoned_add)
next
  case (step_try_removal sid' g s)
  with inv show ?thesis
    by (auto simp: try_begin_session_removal_def removal_abandoned_def split: if_splits)
next
  case (step_begin_removal sid')
  with inv show ?thesis
    by (auto simp: with_guard_def begin_session_removal_def removal_abandoned_def)
next
  case (step_removal_ready sid')
  with inv show ?thesis
    by (auto simp: removal_abandoned_def dest: notin_set_remove1)
next
  case (step_drop g)
  with inv show ?thesis by (auto simp: without_guard_def intro!: removal_abandoned_remove)
next
  case (step_publication_commit sid' mode)
  with inv show ?thesis by (auto simp: without_guard_def intro!: removal_abandoned_remove)
next
  case (step_removal_commit sid')
  with inv show ?thesis
    by (auto simp: without_guard_def removal_commit_def intro!: removal_abandoned_remove)
next
  case step_drain
  with inv show ?thesis by (simp add: removal_abandoned_def drain_def)
next
  case (step_note_length rkey n)
  with inv show ?thesis by (simp add: removal_abandoned_def)
qed

text \<open>
  C10. A removal whose future is dropped while it waits for the session to become idle is never
  undone: the session stays marked as being removed whatever happens later, so every later
  attempt to remove it, to publish it or to use it is refused.
\<close>

theorem dropped_removal_blocks_session:
  assumes "range_reachable q w" and "RemovalWait sid \<in> set (rw_guards w)"
    and "exec_run (\<lambda>w (u::unit) w'. range_step q w w')
           (without_guard w (RemovalWait sid) (drop_guard (RemovalWait sid))) us w'"
  shows "begin_session_removal sid (rw_state w') = Inl SessionRemoving
    \<and> try_begin_session_removal sid (rw_state w') = Inl SessionRemoving
    \<and> enter_range sid p (rw_state w') = Inl SessionRemoving
    \<and> begin_session_publication sid mode (rw_state w') = Inl SessionRemoving"
proof -
  let ?w = "without_guard w (RemovalWait sid) (drop_guard (RemovalWait sid))"
  have inv: "removal_inv (rw_state w) (rw_guards w)"
    using ranges.reachable_inv [OF assms(1)] by (simp add: world_inv_def)
  have mem: "sid \<in> rs_removing (rw_state w)"
    using removal_guard_removing [OF inv assms(2)] by simp
  then have "cnt (removes_session sid) (rw_guards w) \<le> 1"
    using spec [OF conjunct1 [OF inv [unfolded removal_inv_def]], of sid] by (auto split: if_splits)
  then have "cnt (removes_session sid) (remove1 (RemovalWait sid) (rw_guards w)) = 0"
    using assms(2) by (simp add: cnt_remove1)
  with mem have "removal_abandoned sid ?w"
    by (simp add: removal_abandoned_def without_guard_def cnt_zero)
  with assms(3) have "removal_abandoned sid w'"
    by (induction rule: exec_run.induct) (auto intro: removal_abandoned_step)
  then show ?thesis
    by (simp add: removal_abandoned_def begin_session_removal_def try_begin_session_removal_def
        enter_range_def session_blocked_def begin_session_publication_def)
qed

definition demo_waiting :: range_world where
  "demo_waiting = with_guard demo_world (begin_session_removal ''s'' (rw_state demo_world))"

theorem dropped_removal_blocks_session_witness:
  "begin_session_removal ''s'' (rw_state
     (without_guard demo_waiting (RemovalWait ''s'') (drop_guard (RemovalWait ''s'')))) = Inl SessionRemoving"
proof -
  have r: "range_reachable 0 demo_waiting"
    unfolding demo_waiting_def by (rule range_reachable_step [OF demo_world_reachable step_begin_removal])
  have m: "RemovalWait ''s'' \<in> set (rw_guards demo_waiting)"
    by (simp add: demo_waiting_def demo_world_def with_guard_def begin_session_removal_def enter_range_def
        session_blocked_def range_state_default_def world_default_def add_session_def Let_def)
  from dropped_removal_blocks_session [OF r m exec_nil] show ?thesis by blast
qed

subsection \<open>Foreground interest\<close>

text \<open>
  Background downloads give way: while any foreground activity is outstanding, a background
  download whose chunk no foreground reader has joined is told to stop, whatever its own
  control says; and a background download goes on only if its session is open and its control
  did not cancel it.
\<close>

theorem background_yields_to_foreground:
  assumes "range_reachable q w" and "ActivityGuard sid RangeForeground \<in> set (rw_guards w)"
    and "case hm_get (rs_flights (rw_state w)) key of Some fl \<Rightarrow> fl_foreground_interest fl = 0 | None \<Rightarrow> True"
  shows "check_priority_control key RangeBackground control (rw_state w) \<in>
      {Inl SessionRemoving, Inl RangeCancelled, Inl RangePreempted}
    \<and> (check_priority_control key RangeBackground control (rw_state w) = Inl RangePreempted \<longleftrightarrow>
        \<not> session_blocked (rw_state w) (rk_session_id (ck_resource key)) \<and> control \<noteq> ControlCancel)"
proof -
  have "activity_inv (rw_state w) (rw_guards w)"
    using ranges.reachable_inv [OF assms(1)] by (simp add: world_inv_def)
  then have "0 < rs_active_foreground (rw_state w)"
    using cnt_pos [OF assms(2), of holds_foreground] by (simp add: activity_inv_def)
  with assms(3) show ?thesis
    by (auto simp: check_priority_control_def Let_def split: option.splits)
qed

definition demo_chunk :: chunk_key where
  "demo_chunk = \<lparr>ck_resource = \<lparr>rk_session_id = ''s'', rk_resource_id = ''v'', rk_representation = ''d''\<rparr>,
     ck_total_length = 100, ck_range = (0, 100)\<rparr>"

theorem background_yields_to_foreground_witness:
  "check_priority_control demo_chunk RangeBackground ControlContinue (rw_state demo_world) = Inl RangePreempted"
proof -
  have f: "hm_get (rs_flights (rw_state demo_world)) demo_chunk = None"
    and b: "\<not> session_blocked (rw_state demo_world) (rk_session_id (ck_resource demo_chunk))"
    by (simp_all add: demo_world_def with_guard_def enter_range_def session_blocked_def
        range_state_default_def world_default_def add_session_def Let_def)
  from background_yields_to_foreground [OF demo_world_reachable [of 0], of "''s''" demo_chunk ControlContinue] f b
  show ?thesis by (simp add: demo_world_guards)
qed

text \<open>
  Channels are numbered in the order in which flights begin, so a guard whose channel is not that
  of the current flight of its chunk belongs to an earlier flight.
\<close>

definition channel_inv :: "range_state \<Rightarrow> range_guard list \<Rightarrow> bool" where
  "channel_inv s gs \<longleftrightarrow>
     (\<forall>key fl. hm_get (rs_flights s) key = Some fl \<longrightarrow> fl_completion fl < rs_next_channel s)
     \<and> (\<forall>key c owner interest. FlightGuard key c owner interest \<in> set gs \<longrightarrow>
          c < rs_next_channel s \<and> (\<forall>fl. hm_get (rs_flights s) key = Some fl \<longrightarrow> c \<le> fl_completion fl))"

lemma channel_inv_same:
  assumes "channel_inv s gs" and "rs_next_channel s' = rs_next_channel s"
    and "\<And>key fl'. hm_get (rs_flights s') key = Some fl' \<Longrightarrow>
      \<exists>fl. hm_get (rs_flights s) key = Some fl \<and> fl_completion fl = fl_completion fl'"
    and "\<And>key c owner interest. FlightGuard key c owner interest \<in> set gs' \<Longrightarrow>
      FlightGuard key c owner interest \<in> set gs"
  shows "channel_inv s' gs'"
  unfolding channel_inv_def
proof (intro conjI allI impI)
  fix key fl assume "hm_get (rs_flights s') key = Some fl"
  with assms(1-3) show "fl_completion fl < rs_next_channel s'" unfolding channel_inv_def by metis
next
  fix key c owner interest assume g: "FlightGuard key c owner interest \<in> set gs'"
  with assms(1,2,4) show "c < rs_next_channel s'" unfolding channel_inv_def by metis
  fix fl assume "hm_get (rs_flights s') key = Some fl"
  with assms(1,3) assms(4) [OF g] show "c \<le> fl_completion fl" unfolding channel_inv_def by metis
qed

lemma next_channel_fields [simp]:
  "rs_next_channel (add_session sid s) = rs_next_channel s"
  "rs_next_channel (release_session sid s) = rs_next_channel s"
  "rs_next_channel (finish_activity sid p s) = rs_next_channel s"
  "rs_next_channel (publication_commit sid mode s) = rs_next_channel s"
  "rs_next_channel (removal_commit sid s) = rs_next_channel s"
  "rs_next_channel (note_file_length rkey n s) = rs_next_channel s"
  "rs_next_channel (drop_guard g s) = rs_next_channel s"
proof -
  show r: "rs_next_channel (release_session sid s) = rs_next_channel s" for sid s
    by (simp add: release_session_def split: option.split)
  show f: "rs_next_channel (finish_activity sid p s) = rs_next_channel s" for sid p s
    by (simp add: finish_activity_def Let_def r)
  show "rs_next_channel (drop_guard g s) = rs_next_channel s"
    by (cases g) (simp_all add: f finish_flight_def release_foreground_interest_def finish_reservation_def
        Let_def split: option.split)
qed (simp_all add: add_session_def publication_commit_def removal_commit_def note_file_length_def Let_def
      release_session_def split: option.split)

lemma drop_guard_flights:
  assumes "hm_get (rs_flights (drop_guard g s)) key = Some fl'"
  shows "\<exists>fl. hm_get (rs_flights s) key = Some fl \<and> fl_completion fl = fl_completion fl'"
  using assms
  by (cases g) (auto simp: finish_flight_def release_foreground_interest_def finish_reservation_def Let_def
      split: option.splits if_splits)

lemma channel_inv_step:
  assumes "range_step q w w'" and inv: "channel_inv (rw_state w) (rw_guards w)"
  shows "channel_inv (rw_state w') (rw_guards w')"
  using assms(1)
proof cases
  case (step_publish sid mode)
  with inv show ?thesis
    by (cases rule: with_guard_cases [of w "begin_session_publication sid mode (rw_state w)"])
      (auto elim!: publication_cases intro!: channel_inv_same [OF inv])
next
  case (step_enter sid p)
  with inv show ?thesis
    by (cases rule: with_guard_cases [of w "enter_range sid p (rw_state w)"])
      (auto elim!: enter_cases intro!: channel_inv_same [OF inv])
next
  case (step_claim key p)
  show ?thesis
  proof (cases rule: with_guard_cases [of w "claim_chunk key p (rw_state w)"])
    case (ok g s)
    from ok(1) show ?thesis
    proof (cases rule: claim_cases)
      case (join fl)
      with inv step_claim ok show ?thesis by (auto simp: channel_inv_def)
    next
      case own
      have "c < rs_next_channel (rw_state w)" if "FlightGuard k c owner interest \<in> set (rw_guards w)"
        for k c owner interest
        using inv that unfolding channel_inv_def by blast
      with inv own step_claim ok show ?thesis by (fastforce simp: channel_inv_def less_Suc_eq)
    qed
  qed (use step_claim inv in simp)
next
  case (step_reserve rkey t c m)
  with inv show ?thesis
    by (cases rule: with_guard_cases [of w "reserve q rkey t c m (rw_state w)"])
      (auto elim!: reserve_cases intro!: channel_inv_same [OF inv])
next
  case (step_try_removal sid g s)
  with inv show ?thesis
    by (auto simp: try_begin_session_removal_def split: if_splits intro!: channel_inv_same [OF inv])
next
  case (step_begin_removal sid)
  with inv show ?thesis
    by (auto simp: with_guard_def begin_session_removal_def intro!: channel_inv_same [OF inv])
next
  case (step_removal_ready sid)
  with inv show ?thesis
    by (auto intro!: channel_inv_same [OF inv] dest: notin_set_remove1)
next
  case (step_drop g)
  have "channel_inv (drop_guard g (rw_state w)) (remove1 g (rw_guards w))"
    using inv by (rule channel_inv_same) (simp_all add: drop_guard_flights, meson notin_set_remove1)
  with step_drop show ?thesis by (simp add: without_guard_def)
next
  case (step_publication_commit sid mode)
  with inv show ?thesis
    by (auto simp: without_guard_def intro!: channel_inv_same [OF inv] dest: notin_set_remove1)
next
  case (step_removal_commit sid)
  with inv show ?thesis
    by (auto simp: without_guard_def removal_commit_def intro!: channel_inv_same [OF inv] dest: notin_set_remove1)
next
  case step_drain
  with inv show ?thesis by (simp add: drain_def channel_inv_def)
next
  case (step_note_length rkey n)
  with inv show ?thesis by (simp add: channel_inv_def)
qed

interpretation channels: step_system "\<lambda>w. w = world_default" "\<lambda>w (u::unit) w'. range_step q w w'"
    "\<lambda>w. channel_inv (rw_state w) (rw_guards w)"
  for q :: nat
proof unfold_locales
  fix w assume "w = world_default"
  then show "channel_inv (rw_state w) (rw_guards w)"
    by (simp add: world_default_def range_state_default_def channel_inv_def)
next
  fix w w' and u :: unit assume "channel_inv (rw_state w) (rw_guards w)" "range_step q w w'"
  then show "channel_inv (rw_state w') (rw_guards w')" by (blast intro: channel_inv_step)
qed

lemma earlier_flight_ended:
  assumes "range_reachable q w" and "FlightGuard key c owner interest \<in> set (rw_guards w)"
    and "hm_get (rs_flights (rw_state w)) key = Some fl" and "c \<noteq> fl_completion fl"
  shows "c < fl_completion fl \<and> FlightGuard key c True i \<notin> set (rw_guards w)"
proof -
  have "c \<le> fl_completion fl"
    using channels.reachable_inv [OF assms(1)] assms(2,3) unfolding channel_inv_def by blast
  moreover have "flight_inv (rw_state w) (rw_guards w)"
    using ranges.reachable_inv [OF assms(1)] by (simp add: world_inv_def)
  ultimately show ?thesis using assms(3,4) unfolding flight_inv_def by fastforce
qed

text \<open>
  C11. A late reader of an earlier flight takes the interest of another reader away. Let a
  foreground reader still hold its guard of a flight that ended, while a new flight of the same
  chunk runs. When a foreground reader joins the new flight, its interest is counted; when the
  late guard is then dropped, the new flight's count goes back to what it was before the reader
  joined, although that reader still holds its guard and waits. If nobody else was counted and a
  foreground activity runs, the background download the reader waits for, which was to go on, is
  now told to stop.
\<close>

theorem stale_reader_releases_interest:
  assumes "range_reachable q w"
    and late: "FlightGuard key c False True \<in> set (rw_guards w)"
    and new: "hm_get (rs_flights (rw_state w)) key = Some fl" "fl_completion fl \<noteq> c"
    and unblocked: "\<not> session_blocked (rw_state w) (rk_session_id (ck_resource key))"
    and joined: "w1 = with_guard w (claim_chunk key RangeForeground (rw_state w))"
    and dropped: "w2 = without_guard w1 (FlightGuard key c False True) (drop_guard (FlightGuard key c False True))"
    and reader: "reader = FlightGuard key (fl_completion fl) False True"
  shows "c < fl_completion fl \<and> list_all (\<lambda>g. \<forall>i. g \<noteq> FlightGuard key c True i) (rw_guards w)
    \<and> rw_guards w1 = reader # rw_guards w
    \<and> hm_get (rs_flights (rw_state w1)) key =
        Some (fl\<lparr>fl_foreground_interest := fl_foreground_interest fl + 1\<rparr>)
    \<and> cnt ((=) reader) (rw_guards w2) = cnt ((=) reader) (rw_guards w) + 1
    \<and> hm_get (rs_flights (rw_state w2)) key = Some fl
    \<and> (fl_foreground_interest fl = 0 \<and> 0 < rs_active_foreground (rw_state w) \<longrightarrow>
        check_priority_control key RangeBackground ControlContinue (rw_state w1) = Inr ()
        \<and> check_priority_control key RangeBackground ControlContinue (rw_state w2) = Inl RangePreempted)"
proof -
  let ?s1 = "rw_state w\<lparr>rs_flights := hm_insert key
      (fl\<lparr>fl_foreground_interest := fl_foreground_interest fl + 1\<rparr>) (rs_flights (rw_state w))\<rparr>"
  have w1: "w1 = \<lparr>rw_state = ?s1, rw_guards = reader # rw_guards w\<rparr>"
    using new(1) unblocked by (simp add: joined reader with_guard_def claim_chunk_def Let_def)
  have s2: "rw_state w2 = rw_state w\<lparr>rs_flights := hm_insert key fl (hm_insert key
      (fl\<lparr>fl_foreground_interest := fl_foreground_interest fl + 1\<rparr>) (rs_flights (rw_state w)))\<rparr>"
    by (simp add: dropped w1 without_guard_def release_foreground_interest_def)
  have g2: "rw_guards w2 = reader # remove1 (FlightGuard key c False True) (rw_guards w)"
    using new(2) by (simp add: dropped w1 without_guard_def reader)
  have count: "cnt ((=) reader) (remove1 (FlightGuard key c False True) (rw_guards w)) = cnt ((=) reader) (rw_guards w)"
    using late new(2) by (simp add: cnt_remove1 reader)
  from earlier_flight_ended [OF assms(1) late new(1)] new(2)
  have "c < fl_completion fl \<and> list_all (\<lambda>g. \<forall>i. g \<noteq> FlightGuard key c True i) (rw_guards w)"
    by (auto simp: list_all_iff)
  then show ?thesis
    using unblocked
    by (simp add: w1 s2 g2 count check_priority_control_def session_blocked_def)
qed

definition demo_late :: range_world where
  "demo_late =
     (let w1 = with_guard demo_world (claim_chunk demo_chunk RangeBackground (rw_state demo_world));
          w2 = with_guard w1 (claim_chunk demo_chunk RangeForeground (rw_state w1));
          w3 = without_guard w2 (FlightGuard demo_chunk 0 True False) (drop_guard (FlightGuard demo_chunk 0 True False))
      in with_guard w3 (claim_chunk demo_chunk RangeBackground (rw_state w3)))"

lemma demo_late_eq:
  "demo_late = \<lparr>rw_state = (rw_state demo_world)\<lparr>
       rs_flights := [(demo_chunk, \<lparr>fl_completion = 1, fl_foreground_interest = 0\<rparr>)], rs_next_channel := 2\<rparr>,
     rw_guards = [FlightGuard demo_chunk 1 True False, FlightGuard demo_chunk 0 False True,
       ActivityGuard ''s'' RangeForeground]\<rparr>"
  by (simp add: demo_late_def demo_world_def with_guard_def without_guard_def enter_range_def claim_chunk_def
      session_blocked_def range_state_default_def world_default_def add_session_def finish_flight_def
      hm_insert_def hm_get_def hm_remove_def Let_def)

lemma demo_late_reachable: "range_reachable q demo_late"
proof -
  let ?w1 = "with_guard demo_world (claim_chunk demo_chunk RangeBackground (rw_state demo_world))"
  let ?w2 = "with_guard ?w1 (claim_chunk demo_chunk RangeForeground (rw_state ?w1))"
  have r: "range_reachable q ?w2"
    by (intro range_reachable_step [OF _ step_claim] demo_world_reachable)
  have m: "FlightGuard demo_chunk 0 True False \<in> set (rw_guards ?w2)"
    by (simp add: demo_world_def with_guard_def enter_range_def claim_chunk_def session_blocked_def
        range_state_default_def world_default_def add_session_def hm_insert_def hm_get_def Let_def)
  show ?thesis
    unfolding demo_late_def Let_def
    by (rule range_reachable_step [OF range_reachable_step [OF r step_drop [OF m]] step_claim])
qed

theorem stale_reader_releases_interest_witness:
  "\<exists>w1 w2. w1 = with_guard demo_late (claim_chunk demo_chunk RangeForeground (rw_state demo_late))
    \<and> w2 = without_guard w1 (FlightGuard demo_chunk 0 False True) (drop_guard (FlightGuard demo_chunk 0 False True))
    \<and> range_reachable 0 demo_late
    \<and> rw_guards w2 = [FlightGuard demo_chunk 1 False True, FlightGuard demo_chunk 1 True False,
        ActivityGuard ''s'' RangeForeground]
    \<and> cnt ((=) (FlightGuard demo_chunk 1 False True)) (rw_guards w2) = 1
    \<and> check_priority_control demo_chunk RangeBackground ControlContinue (rw_state w1) = Inr ()
    \<and> check_priority_control demo_chunk RangeBackground ControlContinue (rw_state w2) = Inl RangePreempted"
proof -
  define w1 where "w1 = with_guard demo_late (claim_chunk demo_chunk RangeForeground (rw_state demo_late))"
  define w2 where "w2 = without_guard w1 (FlightGuard demo_chunk 0 False True)
    (drop_guard (FlightGuard demo_chunk 0 False True))"
  have b: "\<not> session_blocked (rw_state demo_late) (rk_session_id (ck_resource demo_chunk))"
    "0 < rs_active_foreground (rw_state demo_late)"
    by (simp_all add: demo_late_eq demo_world_def with_guard_def enter_range_def session_blocked_def
        range_state_default_def world_default_def add_session_def Let_def)
  have g: "hm_get (rs_flights (rw_state demo_late)) demo_chunk = Some \<lparr>fl_completion = 1, fl_foreground_interest = 0\<rparr>"
    "FlightGuard demo_chunk 0 False True \<in> set (rw_guards demo_late)"
    by (simp_all add: demo_late_eq hm_get_def)
  have "rw_guards w1 = FlightGuard demo_chunk 1 False True # rw_guards demo_late
    \<and> cnt ((=) (FlightGuard demo_chunk 1 False True)) (rw_guards w2) = 1
    \<and> check_priority_control demo_chunk RangeBackground ControlContinue (rw_state w1) = Inr ()
    \<and> check_priority_control demo_chunk RangeBackground ControlContinue (rw_state w2) = Inl RangePreempted"
    using stale_reader_releases_interest [OF demo_late_reachable g(2,1) _ b(1) w1_def w2_def refl] b(2)
    by (simp add: demo_late_eq)
  then show ?thesis
    using demo_late_reachable [of 0] w1_def w2_def
    by (auto simp: without_guard_def demo_late_eq)
qed

section \<open>Quota\<close>

lemma max_or_default_eq:
  assumes "x \<in> set xs" "\<And>y. y \<in> set xs \<Longrightarrow> y \<le> x"
  shows "max_or_default xs = x"
proof -
  have "fold max xs a = Max (insert a (set xs))" for a
    by (simp add: Max.set_eq_fold [symmetric])
  then have "max_or_default xs = Max (insert 0 (set xs))" by (simp add: max_or_default_def)
  also have "\<dots> = x" using assms by (intro Max_eqI) auto
  finally show ?thesis .
qed

lemma max_or_default_ge: "x \<in> set xs \<Longrightarrow> x \<le> max_or_default xs"
proof -
  assume x: "x \<in> set xs"
  have "fold max xs 0 = Max (insert 0 (set xs))" by (simp add: Max.set_eq_fold [symmetric])
  with x show ?thesis by (simp add: max_or_default_def)
qed

lemma hm_insert_values: "set (hm_values (hm_insert k v m)) \<subseteq> insert v (set (hm_values m))"
  unfolding hm_insert_def hm_values_def by (induction m) auto

lemma hm_insert_value_mem: "v \<in> set (hm_values (hm_insert k v m))"
  unfolding hm_insert_def hm_values_def by (induction m) auto

lemma hm_sum_remove:
  "hm_wf m \<Longrightarrow> sum_list (map (\<lambda>(k, v). f k v) m) =
     (case hm_get m k of Some v \<Rightarrow> f k v | None \<Rightarrow> 0) + sum_list (map (\<lambda>(k, v). f k v) (hm_remove k m))"
  for f :: "'k \<Rightarrow> 'v \<Rightarrow> nat"
proof (induction m)
  case (Cons p m)
  obtain k' v where p: "p = (k', v)" by (cases p)
  show ?case
  proof (cases "k' = k")
    case True
    with Cons.prems p have "hm_remove k m = m" by (simp add: hm_wf_def hm_remove_def)
    with True show ?thesis by (simp add: p hm_get_def hm_remove_def)
  next
    case False
    with Cons.IH Cons.prems show ?thesis by (simp add: p hm_wf_def hm_get_def hm_remove_def)
  qed
qed (simp add: hm_remove_def)

lemma hm_remove_insert: "hm_remove k (hm_insert k v m) = hm_remove k m"
  unfolding hm_remove_def hm_insert_def by (induction m) auto

lemma hm_sum_insert:
  fixes f :: "'k \<Rightarrow> 'v \<Rightarrow> nat"
  assumes "hm_wf m"
  shows "sum_list (map (\<lambda>(k, v). f k v) (hm_insert k v m)) =
     f k v + sum_list (map (\<lambda>(k, v). f k v) (hm_remove k m))"
  using hm_sum_remove [OF hm_wf_insert [OF assms], of f k v k] by (simp add: hm_remove_insert)

lemma fold_min_sum:
  "a \<le> M \<Longrightarrow> fold (\<lambda>x acc. min (acc + f x) M) xs a = min (a + sum_list (map f xs)) (M::nat)"
proof (induction xs arbitrary: a)
  case (Cons x xs)
  have "fold (\<lambda>x acc. min (acc + f x) M) xs (min (a + f x) M) = min (min (a + f x) M + sum_list (map f xs)) M"
    by (rule Cons.IH) simp
  also have "\<dots> = min (a + f x + sum_list (map f xs)) M" by (auto simp: min_def)
  finally show ?case by (simp add: add.assoc)
qed simp

lemma fold_saturating:
  "a \<le> u64_max \<Longrightarrow> fold (\<lambda>x acc. saturating_add acc (f x)) xs a = min (a + sum_list (map f xs)) u64_max"
  unfolding saturating_add_def by (rule fold_min_sum)

definition pending_bytes :: "range_state \<Rightarrow> nat" where
  "pending_bytes s = sum_list (map (\<lambda>(_, rs). largest_target rs - observed_length rs) (rs_reservations s))"

lemma reservation_measure:
  assumes "\<And>r. r \<in> set (hm_values mine) \<Longrightarrow> rv_target_length r \<le> target \<and> rv_current_length r \<le> cur"
  shows "largest_target (hm_insert rid \<lparr>rv_target_length = target, rv_current_length = cur\<rparr> mine) = target
    \<and> observed_length (hm_insert rid \<lparr>rv_target_length = target, rv_current_length = cur\<rparr> mine) = cur"
proof -
  let ?r = "\<lparr>rv_target_length = target, rv_current_length = cur\<rparr>"
  let ?vs = "hm_values (hm_insert rid ?r mine)"
  have r: "?r \<in> set ?vs" by (rule hm_insert_value_mem)
  have "rv_target_length x \<le> target \<and> rv_current_length x \<le> cur" if "x \<in> set ?vs" for x
    using that hm_insert_values [of rid ?r mine] assms by auto
  then show ?thesis
    unfolding largest_target_def observed_length_def
    using r by (intro conjI max_or_default_eq) force+
qed

text \<open>
  A granted reservation respects the quota: when the sum of the bytes promised so far fits in
  64 bits, the bytes in use plus all bytes still promised to unfinished downloads, the new
  reservation included, do not exceed the configured quota.
\<close>

theorem reserve_within_quota:
  assumes "hm_wf (rs_reservations s)" and "0 < quota" and "quota < u64_max"
    and "sum_list (map (\<lambda>(resource, rs). largest_target rs -
            (if resource = key then max current (observed_length rs) else observed_length rs))
            (rs_reservations s)) \<le> u64_max"
    and "reserve quota key target current managed s = Inr (g, s')"
  shows "managed + pending_bytes s' \<le> quota"
proof -
  define mine where "mine = (case hm_get (rs_reservations s) key of Some rs \<Rightarrow> rs | None \<Rightarrow> [])"
  define tgt where "tgt = max target (largest_target mine)"
  define cur where "cur = max current (observed_length mine)"
  define f where "f resource rs = largest_target rs -
      (if resource = key then max current (observed_length rs) else observed_length rs)" for resource rs
  define rest where "rest = sum_list (map (\<lambda>(_, rs). largest_target rs - observed_length rs)
      (hm_remove key (rs_reservations s)))"
  have others: "sum_list (map (\<lambda>(k, v). f k v) (hm_remove key (rs_reservations s))) = rest"
    unfolding rest_def f_def
    by (rule arg_cong [where f = sum_list]) (auto simp: hm_remove_def AList.delete_eq)
  have mine_f: "(case hm_get (rs_reservations s) key of Some v \<Rightarrow> f key v | None \<Rightarrow> 0) = largest_target mine - cur"
    by (auto simp: mine_def cur_def f_def largest_target_def observed_length_def max_or_default_def
        hm_values_def split: option.split)
  have sum: "sum_list (map (\<lambda>(k, v). f k v) (rs_reservations s)) = (largest_target mine - cur) + rest"
    using hm_sum_remove [OF assms(1), of f key] by (simp add: mine_f others)
  have ex: "fold (\<lambda>(resource, rs) acc. saturating_add acc (f resource rs)) (rs_reservations s) 0
      = (largest_target mine - cur) + rest"
    using fold_saturating [of 0 "\<lambda>(k, v). f k v" "rs_reservations s"] assms(4) sum
    by (simp add: f_def case_prod_beta')
  have "\<not> saturating_add (saturating_add managed rest) (tgt - cur) > quota"
    and s': "\<exists>rid. rs_reservations s' = hm_insert key (hm_insert rid
         \<lparr>rv_target_length = tgt, rv_current_length = cur\<rparr> mine) (rs_reservations s)"
    using assms(2,5) ex
    by (auto simp: reserve_def Let_def mine_def [symmetric] tgt_def [symmetric] cur_def [symmetric]
        f_def [symmetric] split: if_splits)
  then have le: "managed + rest + (tgt - cur) \<le> quota"
    using assms(3) by (auto simp: saturating_add_def min_def not_less split: if_splits)
  from s' obtain rid where s'': "rs_reservations s' = hm_insert key (hm_insert rid
         \<lparr>rv_target_length = tgt, rv_current_length = cur\<rparr> mine) (rs_reservations s)" by blast
  have "largest_target (hm_insert rid \<lparr>rv_target_length = tgt, rv_current_length = cur\<rparr> mine) = tgt
    \<and> observed_length (hm_insert rid \<lparr>rv_target_length = tgt, rv_current_length = cur\<rparr> mine) = cur"
  proof (rule reservation_measure)
    fix r assume "r \<in> set (hm_values mine)"
    then have "rv_target_length r \<le> largest_target mine" "rv_current_length r \<le> observed_length mine"
      by (simp_all add: largest_target_def observed_length_def max_or_default_ge)
    then show "rv_target_length r \<le> tgt \<and> rv_current_length r \<le> cur" unfolding tgt_def cur_def
      by (meson le_trans max.cobounded2)
  qed
  then have "pending_bytes s' = (tgt - cur) + rest"
    using hm_sum_insert [OF assms(1), of "\<lambda>_ rs. largest_target rs - observed_length rs" key]
    by (simp add: pending_bytes_def s'' rest_def)
  with le show ?thesis by simp
qed

theorem reserve_within_quota_witness:
  "\<exists>g s'. reserve 1000 (ck_resource demo_chunk) 600 100 300 range_state_default = Inr (g, s')
     \<and> 300 + pending_bytes s' \<le> 1000"
proof -
  obtain g s' where r: "reserve 1000 (ck_resource demo_chunk) 600 100 300 range_state_default = Inr (g, s')"
    by (simp add: reserve_def range_state_default_def session_blocked_def Let_def largest_target_def
        observed_length_def max_or_default_def hm_values_def saturating_add_def)
  from reserve_within_quota [OF _ _ _ _ r] r show ?thesis
    by (simp add: range_state_default_def)
qed

end
