(* ===== verification/Network_Policy.thy ===== *)
theory Network_Policy
  imports Prelude
begin

text \<open>
  The weak-network policy of HLS playback (\<open>hls_network_policy.rs\<close>): per session and variant it
  remembers retries, slow answers and failures, hides degraded variants from the master playlist
  for a while (or for good, under \<open>HoldDowngrade\<close>), and fences events of an older generation of a
  session. Times (\<open>SystemTime\<close>) and durations are integers, in nanoseconds; the limits of the
  platform's clock representation are not modelled. The \<open>u32\<close> counters wrap around.
\<close>

section \<open>State\<close>

datatype weak_network_preference = Adaptive | HoldDowngrade | AvPlayerManaged

datatype weak_network_reason = SlowUpstream | UpstreamFailedReason

datatype weak_network_state = WnNormal | WnRetrying | WnDegraded | WnCacheOnly | WnUpstreamFailed

record variant_network_state =
  vn_consecutive_failures :: nat
  vn_consecutive_slow_responses :: nat
  vn_retrying_until :: "int option"
  vn_unhealthy_until :: "int option"
  vn_unhealthy_reason :: "weak_network_reason option"
  vn_hold_degraded :: bool

record session_network_state =
  sn_variants :: "(string, variant_network_state) hmap"
  sn_cache_only_until :: "int option"

record network_policy_state =
  np_session_generations :: "(string, nat) hmap"
  np_sessions :: "(string, session_network_state) hmap"
  np_last_changed_at :: "int option"

record weak_network_snapshot =
  ws_state :: weak_network_state
  ws_message :: string
  ws_degraded_session_count :: nat
  ws_unhealthy_variant_count :: nat
  ws_retrying_variant_count :: nat
  ws_cache_only_session_count :: nat
  ws_last_changed_at :: "int option"

definition secs :: "int \<Rightarrow> int" where
  "secs n = n * 1000000000"

definition RETRYING_WINDOW :: int where "RETRYING_WINDOW = secs 30"

definition CACHE_ONLY_WINDOW :: int where "CACHE_ONLY_WINDOW = secs 30"

definition DEGRADE_DURATION :: int where "DEGRADE_DURATION = secs 120"

definition SLOW_RESPONSE_THRESHOLD :: int where "SLOW_RESPONSE_THRESHOLD = secs 3"

definition SLOW_RESPONSE_DEGRADE_COUNT :: nat where "SLOW_RESPONSE_DEGRADE_COUNT = 2"

lemmas network_consts = RETRYING_WINDOW_def CACHE_ONLY_WINDOW_def DEGRADE_DURATION_def
  SLOW_RESPONSE_THRESHOLD_def SLOW_RESPONSE_DEGRADE_COUNT_def secs_def

definition variant_default :: variant_network_state where
  "variant_default = \<lparr>vn_consecutive_failures = 0, vn_consecutive_slow_responses = 0,
     vn_retrying_until = None, vn_unhealthy_until = None, vn_unhealthy_reason = None,
     vn_hold_degraded = False\<rparr>"

definition session_default :: session_network_state where
  "session_default = \<lparr>sn_variants = [], sn_cache_only_until = None\<rparr>"

definition network_policy_default :: network_policy_state where
  "network_policy_default = \<lparr>np_session_generations = [], np_sessions = [], np_last_changed_at = None\<rparr>"

section \<open>Variants and sessions\<close>

definition inc_u32 :: "nat \<Rightarrow> nat" where
  "inc_u32 n = (n + 1) mod (u32_max + 1)"

definition after :: "int \<Rightarrow> int option \<Rightarrow> bool" where
  "after now until = (case until of Some t \<Rightarrow> t > now | None \<Rightarrow> False)"

definition is_degraded :: "int \<Rightarrow> variant_network_state \<Rightarrow> bool" where
  "is_degraded now v = (vn_hold_degraded v \<or> after now (vn_unhealthy_until v))"

definition has_degraded_variant :: "int \<Rightarrow> session_network_state \<Rightarrow> bool" where
  "has_degraded_variant now s = list_ex (is_degraded now) (hm_values (sn_variants s))"

definition has_active_state :: "session_network_state \<Rightarrow> bool" where
  "has_active_state s = (sn_variants s \<noteq> [] \<or> sn_cache_only_until s \<noteq> None)"

definition set_variant_degraded ::
  "weak_network_preference \<Rightarrow> int \<Rightarrow> variant_network_state \<Rightarrow> variant_network_state" where
  "set_variant_degraded pref now v =
     (if pref = HoldDowngrade then v\<lparr>vn_hold_degraded := True, vn_unhealthy_until := None\<rparr>
      else v\<lparr>vn_unhealthy_until := Some (now + DEGRADE_DURATION)\<rparr>)"

definition filter_until :: "int \<Rightarrow> int option \<Rightarrow> int option" where
  "filter_until now until = (if after now until then until else None)"

text \<open>The closure of \<open>variants.retain\<close> in \<open>prune_session_state\<close>.\<close>

definition prune_variant :: "int \<Rightarrow> variant_network_state \<Rightarrow> variant_network_state option" where
  "prune_variant now v =
     (let v1 = v\<lparr>vn_retrying_until := filter_until now (vn_retrying_until v)\<rparr>;
          expired = (case vn_unhealthy_until v1 of Some t \<Rightarrow> t \<le> now | None \<Rightarrow> False);
          v2 = (if \<not> vn_hold_degraded v1 \<and> expired
                then v1\<lparr>vn_unhealthy_until := None, vn_unhealthy_reason := None,
                        vn_consecutive_failures := 0, vn_consecutive_slow_responses := 0\<rparr>
                else v1)
      in if vn_retrying_until v2 \<noteq> None \<or> vn_unhealthy_until v2 \<noteq> None \<or> vn_hold_degraded v2
         then Some v2 else None)"

definition prune_session_state :: "int \<Rightarrow> session_network_state \<Rightarrow> session_network_state" where
  "prune_session_state now s =
     (let s1 = s\<lparr>sn_variants := hm_filter_map (prune_variant now) (sn_variants s)\<rparr>
      in s1\<lparr>sn_cache_only_until :=
            (case sn_cache_only_until s1 of
               Some t \<Rightarrow> if t > now \<and> has_degraded_variant now s1 then Some t else None
             | None \<Rightarrow> None)\<rparr>)"

section \<open>Operations on the state\<close>

definition prune_session :: "string \<Rightarrow> int \<Rightarrow> network_policy_state \<Rightarrow> network_policy_state" where
  "prune_session sid now s =
     (case hm_get (np_sessions s) sid of
        None \<Rightarrow> s
      | Some sess \<Rightarrow>
          let sess' = prune_session_state now sess in
          s\<lparr>np_sessions := (if has_active_state sess' then hm_insert sid sess' (np_sessions s)
                            else hm_remove sid (np_sessions s))\<rparr>)"

definition prune_expired :: "int \<Rightarrow> network_policy_state \<Rightarrow> network_policy_state" where
  "prune_expired now s = s\<lparr>np_sessions := hm_filter_map (\<lambda>sess.
     let sess' = prune_session_state now sess in if has_active_state sess' then Some sess' else None)
     (np_sessions s)\<rparr>"

text \<open>
  \<open>variant_mut\<close> hands out a mutable reference; here it takes the change \<open>f\<close> that the caller makes
  through it. \<open>None\<close>: the event belongs to an older generation of the session.
\<close>

definition variant_mut ::
  "string \<Rightarrow> nat \<Rightarrow> string \<Rightarrow> (variant_network_state \<Rightarrow> variant_network_state) \<Rightarrow> network_policy_state
     \<Rightarrow> network_policy_state option" where
  "variant_mut sid generation vid f s =
     (let current = hm_get (np_session_generations s) sid;
          should_advance = (case current of None \<Rightarrow> True | Some c \<Rightarrow> c < generation);
          s1 = (if should_advance
                then s\<lparr>np_session_generations := hm_insert sid generation (np_session_generations s),
                       np_sessions := hm_remove sid (np_sessions s)\<rparr>
                else s)
      in if \<not> should_advance \<and> current \<noteq> Some generation then None
         else
           let sess = (case hm_get (np_sessions s1) sid of Some x \<Rightarrow> x | None \<Rightarrow> session_default);
               v = (case hm_get (sn_variants sess) vid of Some x \<Rightarrow> x | None \<Rightarrow> variant_default)
           in Some (s1\<lparr>np_sessions := hm_insert sid
                  (sess\<lparr>sn_variants := hm_insert vid (f v) (sn_variants sess)\<rparr>) (np_sessions s1)\<rparr>))"

definition variant_is_advertisable ::
  "weak_network_preference \<Rightarrow> string \<Rightarrow> nat \<Rightarrow> string \<Rightarrow> int \<Rightarrow> network_policy_state
     \<Rightarrow> bool \<times> network_policy_state" where
  "variant_is_advertisable pref sid generation vid now s =
     (if pref = AvPlayerManaged then (True, s)
      else
        let s1 = prune_session sid now s in
        if hm_get (np_session_generations s1) sid \<noteq> Some generation then (True, s1)
        else
          (case Option.bind (hm_get (np_sessions s1) sid) (\<lambda>sess. hm_get (sn_variants sess) vid) of
             None \<Rightarrow> True | Some v \<Rightarrow> \<not> is_degraded now v, s1))"

definition record_upstream_retry ::
  "weak_network_preference \<Rightarrow> string \<Rightarrow> nat \<Rightarrow> string \<Rightarrow> int \<Rightarrow> network_policy_state
     \<Rightarrow> network_policy_state" where
  "record_upstream_retry pref sid generation vid now s =
     (if pref = AvPlayerManaged then s
      else
        let s1 = prune_session sid now s in
        case variant_mut sid generation vid
               (\<lambda>v. v\<lparr>vn_retrying_until := Some (now + RETRYING_WINDOW)\<rparr>) s1 of
          None \<Rightarrow> s1
        | Some s2 \<Rightarrow> s2\<lparr>np_last_changed_at := Some now\<rparr>)"

definition note_success ::
  "weak_network_preference \<Rightarrow> int \<Rightarrow> int \<Rightarrow> variant_network_state \<Rightarrow> variant_network_state" where
  "note_success pref response_time now v =
     (let v1 = v\<lparr>vn_consecutive_failures := 0\<rparr> in
      if response_time \<ge> SLOW_RESPONSE_THRESHOLD then
        let v2 = v1\<lparr>vn_consecutive_slow_responses := inc_u32 (vn_consecutive_slow_responses v1),
                    vn_retrying_until := Some (now + RETRYING_WINDOW)\<rparr>
        in if vn_consecutive_slow_responses v2 \<ge> SLOW_RESPONSE_DEGRADE_COUNT
           then (set_variant_degraded pref now v2)\<lparr>vn_unhealthy_reason := Some SlowUpstream\<rparr>
           else v2
      else v1\<lparr>vn_consecutive_slow_responses := 0\<rparr>)"

definition record_upstream_success ::
  "weak_network_preference \<Rightarrow> string \<Rightarrow> nat \<Rightarrow> string \<Rightarrow> int \<Rightarrow> int \<Rightarrow> network_policy_state
     \<Rightarrow> network_policy_state" where
  "record_upstream_success pref sid generation vid response_time now s =
     (if pref = AvPlayerManaged then s
      else
        let s1 = prune_session sid now s in
        case variant_mut sid generation vid (note_success pref response_time now) s1 of
          None \<Rightarrow> s1
        | Some s2 \<Rightarrow> prune_session sid now (s2\<lparr>np_last_changed_at := Some now\<rparr>))"

definition note_failure ::
  "weak_network_preference \<Rightarrow> int \<Rightarrow> variant_network_state \<Rightarrow> variant_network_state" where
  "note_failure pref now v =
     (set_variant_degraded pref now
        (v\<lparr>vn_consecutive_failures := inc_u32 (vn_consecutive_failures v),
           vn_retrying_until := Some (now + RETRYING_WINDOW)\<rparr>))\<lparr>vn_unhealthy_reason := Some UpstreamFailedReason\<rparr>"

definition record_upstream_failure ::
  "weak_network_preference \<Rightarrow> string \<Rightarrow> nat \<Rightarrow> string \<Rightarrow> int \<Rightarrow> network_policy_state
     \<Rightarrow> network_policy_state" where
  "record_upstream_failure pref sid generation vid now s =
     (if pref = AvPlayerManaged then s
      else
        let s1 = prune_session sid now s in
        case variant_mut sid generation vid (note_failure pref now) s1 of
          None \<Rightarrow> s1
        | Some s2 \<Rightarrow> s2\<lparr>np_last_changed_at := Some now\<rparr>)"

definition record_cache_hit ::
  "weak_network_preference \<Rightarrow> string \<Rightarrow> nat \<Rightarrow> int \<Rightarrow> network_policy_state \<Rightarrow> network_policy_state" where
  "record_cache_hit pref sid generation now s =
     (if pref = AvPlayerManaged then s
      else
        let s1 = prune_session sid now s in
        if hm_get (np_session_generations s1) sid \<noteq> Some generation then s1
        else case hm_get (np_sessions s1) sid of
          None \<Rightarrow> s1
        | Some sess \<Rightarrow>
            if \<not> has_degraded_variant now sess then s1
            else s1\<lparr>np_sessions := hm_insert sid
                     (sess\<lparr>sn_cache_only_until := Some (now + CACHE_ONLY_WINDOW)\<rparr>) (np_sessions s1),
                   np_last_changed_at := Some now\<rparr>)"

text \<open>\<open>sessions.remove(id).is_some()\<close> with the change of the timestamp.\<close>

definition forget_session :: "string \<Rightarrow> int \<Rightarrow> network_policy_state \<Rightarrow> network_policy_state" where
  "forget_session sid now s =
     (if hm_get (np_sessions s) sid \<noteq> None
      then s\<lparr>np_sessions := hm_remove sid (np_sessions s), np_last_changed_at := Some now\<rparr> else s)"

definition advance_session_generation ::
  "string \<Rightarrow> nat \<Rightarrow> int \<Rightarrow> network_policy_state \<Rightarrow> network_policy_state" where
  "advance_session_generation sid generation now s =
     (let s1 = prune_session sid now s in
      if (case hm_get (np_session_generations s1) sid of None \<Rightarrow> True | Some c \<Rightarrow> c < generation)
      then forget_session sid now
             (s1\<lparr>np_session_generations := hm_insert sid generation (np_session_generations s1)\<rparr>)
      else s1)"

definition remove_session_generation ::
  "string \<Rightarrow> nat \<Rightarrow> int \<Rightarrow> network_policy_state \<Rightarrow> network_policy_state" where
  "remove_session_generation sid generation now s =
     (let s1 = prune_session sid now s in
      if (case hm_get (np_session_generations s1) sid of None \<Rightarrow> False | Some c \<Rightarrow> c \<le> generation)
      then forget_session sid now
             (s1\<lparr>np_session_generations := hm_remove sid (np_session_generations s1)\<rparr>)
      else s1)"

section \<open>Snapshot\<close>

fun network_message :: "weak_network_state \<Rightarrow> string" where
  "network_message WnNormal = ''HLS upstream policy normal.''"
| "network_message WnRetrying = ''Retrying HLS upstream requests via backup URLs.''"
| "network_message WnDegraded = ''Weak upstream detected; advertising lower HLS variants temporarily.''"
| "network_message WnCacheOnly = ''Serving HLS from local cache while upstream is degraded.''"
| "network_message WnUpstreamFailed =
     ''HLS upstream failed; playback may continue from cache when available.''"

definition policy_snapshot :: "int \<Rightarrow> network_policy_state \<Rightarrow> weak_network_snapshot" where
  "policy_snapshot now s =
     (let sessions = hm_values (np_sessions s);
          variants = concat (map (\<lambda>x. hm_values (sn_variants x)) sessions);
          retrying = length (filter (\<lambda>v. after now (vn_retrying_until v)) variants);
          unhealthy = length (filter (is_degraded now) variants);
          degraded = length (filter (has_degraded_variant now) sessions);
          cache_only = length (filter (\<lambda>x. after now (sn_cache_only_until x)) sessions);
          saw_failure = list_ex (\<lambda>v. is_degraded now v \<and> vn_unhealthy_reason v = Some UpstreamFailedReason) variants;
          state = (if cache_only > 0 then WnCacheOnly
                   else if saw_failure then WnUpstreamFailed
                   else if degraded > 0 then WnDegraded
                   else if retrying > 0 then WnRetrying
                   else WnNormal)
      in \<lparr>ws_state = state, ws_message = network_message state, ws_degraded_session_count = degraded,
          ws_unhealthy_variant_count = unhealthy, ws_retrying_variant_count = retrying,
          ws_cache_only_session_count = cache_only, ws_last_changed_at = np_last_changed_at s\<rparr>)"

definition snapshot_at :: "int \<Rightarrow> network_policy_state \<Rightarrow> weak_network_snapshot \<times> network_policy_state" where
  "snapshot_at now s = (let s1 = prune_expired now s in (policy_snapshot now s1, s1))"

section \<open>Well-formedness and lookup\<close>

definition net_wf :: "network_policy_state \<Rightarrow> bool" where
  "net_wf s \<longleftrightarrow> hm_wf (np_sessions s)
     \<and> (\<forall>sid sess. hm_get (np_sessions s) sid = Some sess \<longrightarrow> hm_wf (sn_variants sess))"

definition lookup_variant :: "network_policy_state \<Rightarrow> string \<Rightarrow> string \<Rightarrow> variant_network_state option" where
  "lookup_variant s sid vid = Option.bind (hm_get (np_sessions s) sid) (\<lambda>sess. hm_get (sn_variants sess) vid)"

definition degraded_at :: "int \<Rightarrow> variant_network_state option \<Rightarrow> bool" where
  "degraded_at now v = (case v of None \<Rightarrow> False | Some x \<Rightarrow> is_degraded now x)"

lemma prune_session_state_variants [simp]:
  "sn_variants (prune_session_state now sess) = hm_filter_map (prune_variant now) (sn_variants sess)"
  by (simp add: prune_session_state_def Let_def)

lemma inactive_no_variants:
  "\<not> has_active_state sess \<Longrightarrow> sn_variants sess = []"
  by (simp add: has_active_state_def)

lemma net_wf_prune [simp]: "net_wf s \<Longrightarrow> net_wf (prune_session sid now s)"
  by (auto simp: net_wf_def prune_session_def Let_def split: option.split)

lemma prune_session_generations [simp]:
  "np_session_generations (prune_session sid now s) = np_session_generations s"
  by (simp add: prune_session_def Let_def split: option.split)

lemma lookup_prune:
  assumes wf: "net_wf s"
  shows "lookup_variant (prune_session sid now s) sid' vid =
     (if sid' = sid then Option.bind (lookup_variant s sid vid) (prune_variant now) else lookup_variant s sid' vid)"
proof (cases "hm_get (np_sessions s) sid")
  case None
  then show ?thesis by (simp add: prune_session_def lookup_variant_def)
next
  case (Some sess)
  then have "hm_wf (sn_variants sess)" using wf by (auto simp: net_wf_def)
  then have v: "hm_get (sn_variants (prune_session_state now sess)) vid = Option.bind (hm_get (sn_variants sess) vid) (prune_variant now)"
    by (simp add: hm_get_filter_map)
  show ?thesis
  proof (cases "has_active_state (prune_session_state now sess)")
    case True
    with Some v show ?thesis by (simp add: prune_session_def lookup_variant_def Let_def)
  next
    case False
    from inactive_no_variants [OF False] v have "Option.bind (hm_get (sn_variants sess) vid) (prune_variant now) = None"
      by simp
    with Some False show ?thesis by (simp add: prune_session_def lookup_variant_def Let_def)
  qed
qed

lemma prune_variant_degraded:
  assumes "now \<le> t"
  shows "degraded_at t (prune_variant now v) = is_degraded t v"
  using assms
  by (auto simp: prune_variant_def degraded_at_def is_degraded_def after_def filter_until_def Let_def
      split: option.splits)

lemma degraded_prune:
  assumes "net_wf s" "now \<le> t"
  shows "degraded_at t (lookup_variant (prune_session sid now s) sid' vid) = degraded_at t (lookup_variant s sid' vid)"
  using prune_variant_degraded [OF assms(2)]
  by (cases "lookup_variant s sid vid") (auto simp: lookup_prune [OF assms(1)] degraded_at_def)

lemma advertisable_iff:
  assumes "net_wf s" "pref \<noteq> AvPlayerManaged"
  shows "fst (variant_is_advertisable pref sid g vid now s) \<longleftrightarrow>
     \<not> (hm_get (np_session_generations s) sid = Some g \<and> degraded_at now (lookup_variant s sid vid))"
  using assms(2) degraded_prune [OF assms(1) order_refl [of now], of sid sid vid]
  by (auto simp: variant_is_advertisable_def Let_def lookup_variant_def degraded_at_def split: option.split)

subsection \<open>Changes of one variant\<close>

lemma variant_mut_cases:
  assumes "variant_mut sid g vid f s = Some s'" "net_wf s"
  shows "net_wf s' \<and> hm_get (np_session_generations s') sid = Some g
    \<and> (\<forall>x. x \<noteq> sid \<longrightarrow> hm_get (np_session_generations s') x = hm_get (np_session_generations s) x
          \<and> hm_get (np_sessions s') x = hm_get (np_sessions s) x)
    \<and> (hm_get (np_session_generations s) sid = Some g \<longrightarrow>
        (\<forall>x. lookup_variant s' sid x =
          (if x = vid then Some (f (case lookup_variant s sid vid of Some v \<Rightarrow> v | None \<Rightarrow> variant_default))
           else lookup_variant s sid x)))
    \<and> (hm_get (np_session_generations s) sid \<noteq> Some g \<longrightarrow>
        (\<forall>x. lookup_variant s' sid x = (if x = vid then Some (f variant_default) else None)))"
proof (cases "hm_get (np_session_generations s) sid = Some g")
  case True
  with assms show ?thesis
    by (auto simp: variant_mut_def Let_def net_wf_def lookup_variant_def session_default_def
        split: option.splits if_splits)
next
  case False
  with assms have adv: "case hm_get (np_session_generations s) sid of None \<Rightarrow> True | Some c \<Rightarrow> c < g"
    by (auto simp: variant_mut_def Let_def split: if_splits)
  with assms False show ?thesis
    by (auto simp: variant_mut_def Let_def net_wf_def lookup_variant_def session_default_def
        split: option.splits if_splits)
qed

lemma variant_mut_None_iff:
  "variant_mut sid g vid f s = None \<longleftrightarrow>
     (\<exists>c. hm_get (np_session_generations s) sid = Some c \<and> g < c)"
  by (auto simp: variant_mut_def Let_def split: option.splits)

subsection \<open>Generations fence old events\<close>

text \<open>
  Events of an older generation of a session are ignored: once a newer generation is known, a
  retry, success, failure or cache hit reported for an older one changes neither which variants
  are degraded, nor the generation, nor the time of the last change.
\<close>

theorem stale_generation_ignored:
  assumes "net_wf s" and "hm_get (np_session_generations s) sid = Some c" and "g < c"
    and "s' \<in> {record_upstream_retry pref sid g vid now s, record_upstream_success pref sid g vid rt now s,
               record_upstream_failure pref sid g vid now s, record_cache_hit pref sid g now s}"
    and "now \<le> t"
  shows "degraded_at t (lookup_variant s' sid' vid') = degraded_at t (lookup_variant s sid' vid')
    \<and> np_session_generations s' = np_session_generations s \<and> np_last_changed_at s' = np_last_changed_at s"
proof -
  have none: "variant_mut sid g vid f (prune_session sid now s) = None" for f
    using assms(2,3) by (simp add: variant_mut_None_iff)
  have "s' = s \<or> s' = prune_session sid now s"
    using assms(2,3,4)
    by (auto simp: record_upstream_retry_def record_upstream_success_def record_upstream_failure_def
        record_cache_hit_def none Let_def)
  moreover have "np_last_changed_at (prune_session sid now s) = np_last_changed_at s"
    by (simp add: prune_session_def Let_def split: option.split)
  ultimately show ?thesis using degraded_prune [OF assms(1,5)] by auto
qed

definition demo_policy :: network_policy_state where
  "demo_policy = network_policy_default\<lparr>np_session_generations := [(''s'', 2)]\<rparr>"

lemma demo_policy_wf: "net_wf demo_policy"
  by (simp add: demo_policy_def network_policy_default_def net_wf_def)

theorem stale_generation_ignored_witness:
  "np_session_generations (record_upstream_failure Adaptive ''s'' 1 ''v'' 0 demo_policy)
     = np_session_generations demo_policy"
proof -
  have "hm_get (np_session_generations demo_policy) ''s'' = Some 2"
    by (simp add: demo_policy_def network_policy_default_def hm_get_def)
  from stale_generation_ignored [OF demo_policy_wf this, of 1
      "record_upstream_failure Adaptive ''s'' 1 ''v'' 0 demo_policy" Adaptive "''v''" 0 0 0]
  show ?thesis by simp
qed

section \<open>Sequences of events\<close>

datatype net_op =
    NetRetry weak_network_preference string nat string int
  | NetSuccess weak_network_preference string nat string int int
  | NetFailure weak_network_preference string nat string int
  | NetCacheHit weak_network_preference string nat int
  | NetAdvance string nat int
  | NetRemove string nat int
  | NetQuery weak_network_preference string nat string int
  | NetSnapshot int

fun net_step :: "network_policy_state \<Rightarrow> net_op \<Rightarrow> network_policy_state" where
  "net_step s (NetRetry p sid g vid t) = record_upstream_retry p sid g vid t s"
| "net_step s (NetSuccess p sid g vid rt t) = record_upstream_success p sid g vid rt t s"
| "net_step s (NetFailure p sid g vid t) = record_upstream_failure p sid g vid t s"
| "net_step s (NetCacheHit p sid g t) = record_cache_hit p sid g t s"
| "net_step s (NetAdvance sid g t) = advance_session_generation sid g t s"
| "net_step s (NetRemove sid g t) = remove_session_generation sid g t s"
| "net_step s (NetQuery p sid g vid t) = snd (variant_is_advertisable p sid g vid t s)"
| "net_step s (NetSnapshot t) = snd (snapshot_at t s)"

fun op_time :: "net_op \<Rightarrow> int" where
  "op_time (NetRetry p sid g vid t) = t"
| "op_time (NetSuccess p sid g vid rt t) = t"
| "op_time (NetFailure p sid g vid t) = t"
| "op_time (NetCacheHit p sid g t) = t"
| "op_time (NetAdvance sid g t) = t"
| "op_time (NetRemove sid g t) = t"
| "op_time (NetQuery p sid g vid t) = t"
| "op_time (NetSnapshot t) = t"

text \<open>An operation that ends the generation \<open>g\<close> of the session \<open>sid\<close>.\<close>

fun op_ends :: "string \<Rightarrow> nat \<Rightarrow> net_op \<Rightarrow> bool" where
  "op_ends sid g (NetRetry p sid' g' vid t) = (sid' = sid \<and> g' > g)"
| "op_ends sid g (NetSuccess p sid' g' vid rt t) = (sid' = sid \<and> g' > g)"
| "op_ends sid g (NetFailure p sid' g' vid t) = (sid' = sid \<and> g' > g)"
| "op_ends sid g (NetAdvance sid' g' t) = (sid' = sid \<and> g' > g)"
| "op_ends sid g (NetRemove sid' g' t) = (sid' = sid \<and> g' \<ge> g)"
| "op_ends sid g _ = False"

definition net_run :: "network_policy_state \<Rightarrow> net_op list \<Rightarrow> network_policy_state" where
  "net_run s ops = foldl net_step s ops"

text \<open>The variant is degraded at least until the time \<open>T\<close>.\<close>

definition degraded_till :: "int \<Rightarrow> variant_network_state \<Rightarrow> bool" where
  "degraded_till T v \<longleftrightarrow> vn_hold_degraded v \<or> (\<exists>u. vn_unhealthy_until v = Some u \<and> T \<le> u)"

definition stays_degraded :: "int \<Rightarrow> string \<Rightarrow> nat \<Rightarrow> string \<Rightarrow> network_policy_state \<Rightarrow> bool" where
  "stays_degraded T sid g vid s \<longleftrightarrow> net_wf s \<and> hm_get (np_session_generations s) sid = Some g
     \<and> (\<exists>v. lookup_variant s sid vid = Some v \<and> degraded_till T v)"

lemma prune_variant_till:
  "degraded_till T v \<Longrightarrow> now < T \<Longrightarrow> \<exists>v'. prune_variant now v = Some v' \<and> degraded_till T v'"
  by (auto simp: prune_variant_def degraded_till_def Let_def)

lemma stays_degraded_prune:
  assumes "stays_degraded T sid g vid s" "now < T"
  shows "stays_degraded T sid g vid (prune_session sid' now s)"
  using assms prune_variant_till [of T _ now]
  by (fastforce simp: stays_degraded_def lookup_prune)

lemma stays_degraded_changed [simp]:
  "stays_degraded T sid g vid (s\<lparr>np_last_changed_at := x\<rparr>) = stays_degraded T sid g vid s"
  by (simp add: stays_degraded_def net_wf_def lookup_variant_def)

lemma stays_degraded_mut:
  assumes inv: "stays_degraded T sid g vid s" and m: "variant_mut sid' g' vid' f s = Some s'"
    and f: "\<And>v. degraded_till T v \<Longrightarrow> degraded_till T (f v)" and old: "sid' = sid \<longrightarrow> g' \<le> g"
  shows "stays_degraded T sid g vid s'"
proof -
  have wf: "net_wf s" and gen: "hm_get (np_session_generations s) sid = Some g"
    using inv by (simp_all add: stays_degraded_def)
  obtain v where v: "lookup_variant s sid vid = Some v" "degraded_till T v"
    using inv by (auto simp: stays_degraded_def)
  note c = variant_mut_cases [OF m wf]
  show ?thesis
  proof (cases "sid' = sid")
    case True
    have "g' = g"
      using m gen old True by (cases "g' < g") (auto simp: variant_mut_def Let_def)
    with c True gen v f show ?thesis by (auto simp: stays_degraded_def)
  next
    case False
    then have "lookup_variant s' sid vid = lookup_variant s sid vid"
      using c by (simp add: lookup_variant_def)
    with c False gen v show ?thesis by (auto simp: stays_degraded_def)
  qed
qed

lemma set_variant_degraded_till:
  "T \<le> now + DEGRADE_DURATION \<Longrightarrow> degraded_till T (set_variant_degraded pref now v)"
  by (auto simp: set_variant_degraded_def degraded_till_def)

lemma degraded_till_update [simp]:
  "degraded_till T (v\<lparr>vn_retrying_until := x\<rparr>) = degraded_till T v"
  "degraded_till T (v\<lparr>vn_consecutive_failures := n\<rparr>) = degraded_till T v"
  "degraded_till T (v\<lparr>vn_consecutive_slow_responses := n\<rparr>) = degraded_till T v"
  "degraded_till T (v\<lparr>vn_unhealthy_reason := y\<rparr>) = degraded_till T v"
  by (simp_all add: degraded_till_def)

lemma note_success_till:
  "T \<le> now + DEGRADE_DURATION \<Longrightarrow> degraded_till T v \<Longrightarrow> degraded_till T (note_success pref rt now v)"
  by (simp add: note_success_def Let_def set_variant_degraded_till)

lemma note_failure_till: "T \<le> now + DEGRADE_DURATION \<Longrightarrow> degraded_till T (note_failure pref now v)"
  by (simp add: note_failure_def set_variant_degraded_till)

lemma stays_degraded_session:
  assumes "stays_degraded T sid g vid s" "net_wf s'"
    "hm_get (np_session_generations s') sid = hm_get (np_session_generations s) sid"
    "lookup_variant s' sid vid = lookup_variant s sid vid"
  shows "stays_degraded T sid g vid s'"
  using assms by (simp add: stays_degraded_def)

lemma net_wf_forget: "net_wf s \<Longrightarrow> net_wf (forget_session sid now s)"
  by (auto simp: net_wf_def forget_session_def)

lemma lookup_forget: "sid' \<noteq> sid \<Longrightarrow> lookup_variant (forget_session sid' now s) sid vid = lookup_variant s sid vid"
  by (simp add: forget_session_def lookup_variant_def)

lemma forget_session_generations [simp]:
  "np_session_generations (forget_session sid now s) = np_session_generations s"
  by (simp add: forget_session_def)

lemma net_wf_generations [simp]: "net_wf (s\<lparr>np_session_generations := x\<rparr>) = net_wf s"
  by (simp add: net_wf_def)

lemma lookup_generations [simp]: "lookup_variant (s\<lparr>np_session_generations := x\<rparr>) sid vid = lookup_variant s sid vid"
  by (simp add: lookup_variant_def)

lemma net_wf_prune_expired: "net_wf s \<Longrightarrow> net_wf (prune_expired now s)"
  by (fastforce simp: net_wf_def prune_expired_def hm_get_filter_map Let_def split: if_splits option.splits
      bind_splits)

lemma lookup_prune_expired:
  assumes "net_wf s"
  shows "lookup_variant (prune_expired now s) sid vid = Option.bind (lookup_variant s sid vid) (prune_variant now)"
proof (cases "hm_get (np_sessions s) sid")
  case None
  with assms show ?thesis by (simp add: lookup_variant_def prune_expired_def hm_get_filter_map net_wf_def)
next
  case (Some sess)
  then have "hm_wf (sn_variants sess)" using assms by (auto simp: net_wf_def)
  then have v: "hm_get (sn_variants (prune_session_state now sess)) vid = Option.bind (hm_get (sn_variants sess) vid) (prune_variant now)"
    by (simp add: hm_get_filter_map)
  have "hm_wf (np_sessions s)" using assms by (simp add: net_wf_def)
  with Some v inactive_no_variants [of "prune_session_state now sess"] show ?thesis
    by (auto simp: lookup_variant_def prune_expired_def hm_get_filter_map Let_def)
qed

lemma stays_degraded_step:
  assumes inv: "stays_degraded T sid g vid s" and op: "\<not> op_ends sid g op"
    and t: "op_time op < T" "T \<le> op_time op + DEGRADE_DURATION"
  shows "stays_degraded T sid g vid (net_step s op)"
proof (cases op)
  case (NetRetry p sid' g' vid' now)
  have pr: "stays_degraded T sid g vid (prune_session sid' now s)" using inv t NetRetry by (simp add: stays_degraded_prune)
  show ?thesis
    using NetRetry inv pr op stays_degraded_mut [OF pr]
    by (auto simp: record_upstream_retry_def Let_def split: option.split)
next
  case (NetSuccess p sid' g' vid' rt now)
  have pr: "stays_degraded T sid g vid (prune_session sid' now s)" using inv t NetSuccess by (simp add: stays_degraded_prune)
  show ?thesis
    using NetSuccess inv pr op t stays_degraded_mut [OF pr] note_success_till
    by (auto simp: record_upstream_success_def Let_def split: option.split intro!: stays_degraded_prune)
next
  case (NetFailure p sid' g' vid' now)
  have pr: "stays_degraded T sid g vid (prune_session sid' now s)" using inv t NetFailure by (simp add: stays_degraded_prune)
  show ?thesis
    using NetFailure inv pr op t stays_degraded_mut [OF pr] note_failure_till
    by (auto simp: record_upstream_failure_def Let_def split: option.split)
next
  case (NetCacheHit p sid' g' now)
  define s1 where "s1 = prune_session sid' now s"
  have pr: "stays_degraded T sid g vid s1" using inv t NetCacheHit by (simp add: s1_def stays_degraded_prune)
  have "stays_degraded T sid g vid (s1\<lparr>np_sessions := hm_insert sid' (sess\<lparr>sn_cache_only_until := x\<rparr>) (np_sessions s1)\<rparr>)"
    if "hm_get (np_sessions s1) sid' = Some sess" for sess x
    using that pr
    by (intro stays_degraded_session [OF pr]) (auto simp: stays_degraded_def net_wf_def lookup_variant_def split: if_splits)
  with NetCacheHit inv pr show ?thesis
    by (auto simp: record_cache_hit_def s1_def [symmetric] Let_def split: option.split)
next
  case (NetAdvance sid' g' now)
  define s1 where "s1 = prune_session sid' now s"
  have pr: "stays_degraded T sid g vid s1" using inv t NetAdvance by (simp add: s1_def stays_degraded_prune)
  have "sid' \<noteq> sid" if "case hm_get (np_session_generations s1) sid' of None \<Rightarrow> True | Some c \<Rightarrow> c < g'"
    using that pr op NetAdvance by (auto simp: stays_degraded_def)
  with NetAdvance pr show ?thesis
    by (auto simp: advance_session_generation_def s1_def [symmetric] Let_def lookup_forget stays_degraded_def
        net_wf_forget)
next
  case (NetRemove sid' g' now)
  define s1 where "s1 = prune_session sid' now s"
  have pr: "stays_degraded T sid g vid s1" using inv t NetRemove by (simp add: s1_def stays_degraded_prune)
  have "sid' \<noteq> sid" if "case hm_get (np_session_generations s1) sid' of None \<Rightarrow> False | Some c \<Rightarrow> c \<le> g'"
    using that pr op NetRemove by (auto simp: stays_degraded_def)
  with NetRemove pr show ?thesis
    by (auto simp: remove_session_generation_def s1_def [symmetric] Let_def lookup_forget stays_degraded_def
        net_wf_forget)
next
  case (NetQuery p sid' g' vid' now)
  with inv t show ?thesis by (simp add: variant_is_advertisable_def Let_def stays_degraded_prune)
next
  case (NetSnapshot now)
  with inv t prune_variant_till [of T _ now] show ?thesis
    by (fastforce simp: snapshot_at_def Let_def stays_degraded_def net_wf_prune_expired lookup_prune_expired
        prune_expired_def [THEN arg_cong, of np_session_generations])
qed

subsection \<open>How long a failed variant is hidden\<close>

lemma failure_variant:
  assumes wf: "net_wf s" and gen: "\<forall>c. hm_get (np_session_generations s) sid = Some c \<longrightarrow> c \<le> g"
    and pref: "pref \<noteq> AvPlayerManaged"
  shows "net_wf (record_upstream_failure pref sid g vid now s)
    \<and> hm_get (np_session_generations (record_upstream_failure pref sid g vid now s)) sid = Some g
    \<and> (\<exists>v. lookup_variant (record_upstream_failure pref sid g vid now s) sid vid = Some (note_failure pref now v)
         \<and> (vn_hold_degraded v \<longrightarrow> (\<exists>v0. lookup_variant s sid vid = Some v0 \<and> vn_hold_degraded v0)))"
proof -
  define s1 where "s1 = prune_session sid now s"
  have wf1: "net_wf s1" using wf by (simp add: s1_def)
  obtain s2 where m: "variant_mut sid g vid (note_failure pref now) s1 = Some s2"
    using variant_mut_None_iff [of sid g vid "note_failure pref now" s1] gen
    by (cases "variant_mut sid g vid (note_failure pref now) s1") (auto simp: s1_def)
  then have r: "record_upstream_failure pref sid g vid now s = s2\<lparr>np_last_changed_at := Some now\<rparr>"
    using pref by (simp add: record_upstream_failure_def s1_def [symmetric] Let_def)
  have keep: "lookup_variant (s2\<lparr>np_last_changed_at := x\<rparr>) = lookup_variant s2" for x
    by (intro ext) (simp add: lookup_variant_def)
  have hold: "\<exists>v0. lookup_variant s sid vid = Some v0 \<and> vn_hold_degraded v0"
    if "lookup_variant s1 sid vid = Some v" "vn_hold_degraded v" for v
    using that lookup_prune [OF wf, of sid now sid vid]
    by (auto simp: s1_def prune_variant_def Let_def split: if_splits bind_splits)
  note c = variant_mut_cases [OF m wf1]
  have "\<exists>v. lookup_variant s2 sid vid = Some (note_failure pref now v)
         \<and> (vn_hold_degraded v \<longrightarrow> (\<exists>v0. lookup_variant s sid vid = Some v0 \<and> vn_hold_degraded v0))"
  proof (cases "hm_get (np_session_generations s1) sid = Some g \<and> lookup_variant s1 sid vid \<noteq> None")
    case True
    then obtain v where "lookup_variant s1 sid vid = Some v" by blast
    with True c hold show ?thesis by (intro exI [of _ v]) auto
  next
    case False
    with c show ?thesis by (intro exI [of _ variant_default]) (auto simp: variant_default_def)
  qed
  with c show ?thesis unfolding r keep by (simp add: net_wf_def)
qed

text \<open>
  C12. A variant whose upstream failed is hidden for the whole degrade duration: at every moment
  before it has passed, whatever other events, queries, cache hits and prunings happen in
  between (for any session, and even successes of the same variant), the variant is not
  advertised, unless a newer generation of the session begins or the session is removed.
\<close>

theorem failed_variant_stays_hidden:
  assumes "net_wf s" and "\<forall>c. hm_get (np_session_generations s) sid = Some c \<longrightarrow> c \<le> g"
    and "pref \<noteq> AvPlayerManaged" and "pref' \<noteq> AvPlayerManaged"
    and "\<forall>op \<in> set ops. \<not> op_ends sid g op \<and> now \<le> op_time op \<and> op_time op < now + DEGRADE_DURATION"
    and "t < now + DEGRADE_DURATION"
  shows "\<not> fst (variant_is_advertisable pref' sid g vid t (net_run (record_upstream_failure pref sid g vid now s) ops))"
proof -
  let ?T = "now + DEGRADE_DURATION"
  let ?s = "record_upstream_failure pref sid g vid now s"
  have "stays_degraded ?T sid g vid ?s"
    using failure_variant [OF assms(1-3), of vid now] note_failure_till [of ?T now pref]
    by (auto simp: stays_degraded_def)
  then have "stays_degraded ?T sid g vid (net_run ?s ops)"
    using assms(5) unfolding net_run_def
    by (induction ops arbitrary: s rule: rev_induct) (auto intro!: stays_degraded_step)
  moreover from this assms(6) have "degraded_at t (lookup_variant (net_run ?s ops) sid vid)"
    by (auto simp: stays_degraded_def degraded_at_def degraded_till_def is_degraded_def after_def)
  ultimately show ?thesis
    using assms(4) by (simp add: advertisable_iff stays_degraded_def)
qed

theorem failed_variant_stays_hidden_witness:
  "\<not> fst (variant_is_advertisable Adaptive ''s'' 2 ''v'' (secs 100)
       (net_run (record_upstream_failure Adaptive ''s'' 2 ''v'' 0 demo_policy)
          [NetSuccess Adaptive ''s'' 2 ''v'' 0 (secs 50), NetSnapshot (secs 60)]))"
  by (rule failed_variant_stays_hidden [OF demo_policy_wf])
    (simp_all add: demo_policy_def network_policy_default_def hm_get_def network_consts)

text \<open>
  What a failure means afterwards: under \<open>Adaptive\<close> the variant (not held before) is advertised
  again from the end of the degrade duration on, and under \<open>HoldDowngrade\<close> it is never advertised
  again within the same generation of the session.
\<close>

theorem failed_variant_recovery:
  assumes "net_wf s" and "\<forall>c. hm_get (np_session_generations s) sid = Some c \<longrightarrow> c \<le> g"
    and "pref' \<noteq> AvPlayerManaged" and "\<forall>v. lookup_variant s sid vid = Some v \<longrightarrow> \<not> vn_hold_degraded v"
  shows "(now + DEGRADE_DURATION \<le> t \<longrightarrow>
           fst (variant_is_advertisable pref' sid g vid t (record_upstream_failure Adaptive sid g vid now s)))
    \<and> \<not> fst (variant_is_advertisable pref' sid g vid t (record_upstream_failure HoldDowngrade sid g vid now s))"
proof -
  note a = failure_variant [OF assms(1,2), of Adaptive vid now]
    and h = failure_variant [OF assms(1,2), of HoldDowngrade vid now]
  from a obtain v where v: "lookup_variant (record_upstream_failure Adaptive sid g vid now s) sid vid
      = Some (note_failure Adaptive now v)" "\<not> vn_hold_degraded v"
    using assms(4) by auto
  from v(2) have "now + DEGRADE_DURATION \<le> t \<longrightarrow> \<not> is_degraded t (note_failure Adaptive now v)"
    by (simp add: note_failure_def set_variant_degraded_def is_degraded_def after_def)
  moreover obtain v' where v': "lookup_variant (record_upstream_failure HoldDowngrade sid g vid now s) sid vid
      = Some (note_failure HoldDowngrade now v')" using h by auto
  moreover have "is_degraded t (note_failure HoldDowngrade now v')"
    by (simp add: note_failure_def set_variant_degraded_def is_degraded_def)
  ultimately show ?thesis
    using a h v(1) assms(3) by (simp add: advertisable_iff degraded_at_def)
qed

theorem failed_variant_recovery_witness:
  "fst (variant_is_advertisable Adaptive ''s'' 2 ''v'' (secs 120)
       (record_upstream_failure Adaptive ''s'' 2 ''v'' 0 demo_policy))"
proof -
  have l: "lookup_variant demo_policy ''s'' ''v'' = None"
    and g: "\<forall>c. hm_get (np_session_generations demo_policy) ''s'' = Some c \<longrightarrow> c \<le> 2"
    by (simp_all add: demo_policy_def network_policy_default_def lookup_variant_def hm_get_def)
  from failed_variant_recovery [OF demo_policy_wf g, of Adaptive "''v''" 0 "secs 120"] l
  show ?thesis by (simp add: network_consts)
qed

subsection \<open>The snapshot\<close>

lemma pruned_variant_counts:
  "prune_variant now v = Some v' \<Longrightarrow> after now (vn_retrying_until v') \<or> is_degraded now v'"
  by (auto simp: prune_variant_def filter_until_def is_degraded_def after_def Let_def
      split: if_splits option.splits)

lemma hm_filter_map_mem: "v' \<in> set (hm_values (hm_filter_map f m)) \<Longrightarrow> \<exists>v \<in> set (hm_values m). f v = Some v'"
proof (induction m)
  case (Cons p m)
  obtain k v where p: "p = (k, v)" by (cases p)
  show ?case
  proof (cases "f v = Some v'")
    case True
    then show ?thesis by (simp add: p hm_values_def)
  next
    case False
    with Cons.prems have "v' \<in> set (hm_values (hm_filter_map f m))"
      by (auto simp: p hm_values_def hm_filter_map_Cons split: option.splits)
    from Cons.IH [OF this] show ?thesis by (auto simp: hm_values_def)
  qed
qed (simp add: hm_values_def)

lemma pruned_session_active:
  assumes "x \<in> set (hm_values (np_sessions (prune_expired now s)))"
  shows "sn_variants x \<noteq> [] \<and> (\<forall>v \<in> set (hm_values (sn_variants x)). after now (vn_retrying_until v) \<or> is_degraded now v)"
proof -
  obtain sess where x: "x = prune_session_state now sess" "has_active_state x"
    using hm_filter_map_mem [of x] assms by (fastforce simp: prune_expired_def Let_def split: if_splits)
  have "sn_variants x \<noteq> []"
    using x by (auto simp: has_active_state_def prune_session_state_def Let_def has_degraded_variant_def hm_values_def
        split: option.splits if_splits)
  moreover have "after now (vn_retrying_until v) \<or> is_degraded now v"
    if "v \<in> set (hm_values (sn_variants x))" for v
    using that x(1) hm_filter_map_mem [of v "prune_variant now"] pruned_variant_counts by fastforce
  ultimately show ?thesis by blast
qed

text \<open>
  The reported state is exact: the snapshot reports \<open>Normal\<close> exactly when nothing is remembered
  about any session any more, and it reports cache-only playback or a failed upstream only while
  some session really has a degraded variant.
\<close>

theorem snapshot_state_exact:
  assumes "snapshot_at now s = (snap, s')"
  shows "(ws_state snap = WnNormal \<longleftrightarrow> np_sessions s' = [])
    \<and> (ws_state snap = WnUpstreamFailed \<or> ws_state snap = WnDegraded \<longrightarrow> ws_degraded_session_count snap > 0)
    \<and> (ws_state snap = WnCacheOnly \<longrightarrow>
         (\<exists>sess \<in> set (hm_values (np_sessions s')). after now (sn_cache_only_until sess)))"
proof -
  have s': "s' = prune_expired now s" and snap: "snap = policy_snapshot now s'"
    using assms by (auto simp: snapshot_at_def Let_def)
  let ?ss = "hm_values (np_sessions s')"
  let ?vs = "concat (map (\<lambda>x. hm_values (sn_variants x)) ?ss)"
  note act = pruned_session_active [of _ now s, folded s']
  have normal: "ws_state snap = WnNormal \<longleftrightarrow> np_sessions s' = []"
  proof
    assume n: "ws_state snap = WnNormal"
    show "np_sessions s' = []"
    proof (rule ccontr)
      assume "np_sessions s' \<noteq> []"
      then obtain x where x: "x \<in> set ?ss" by (cases "np_sessions s'") (auto simp: hm_values_def)
      then obtain v where v: "v \<in> set (hm_values (sn_variants x))"
        using act [OF x] by (cases "sn_variants x") (auto simp: hm_values_def)
      then have "v \<in> set ?vs" using x by auto
      moreover have "after now (vn_retrying_until v) \<or> is_degraded now v" using act [OF x] v by blast
      moreover have "is_degraded now v \<Longrightarrow> has_degraded_variant now x"
        using v by (auto simp: has_degraded_variant_def list_ex_iff)
      ultimately show False
        using n x by (auto simp: snap policy_snapshot_def Let_def filter_empty_conv split: if_splits)
    qed
  qed (simp add: snap policy_snapshot_def Let_def hm_values_def)
  have failed: "ws_degraded_session_count snap > 0" if "ws_state snap = WnUpstreamFailed"
    using that by (fastforce simp: snap policy_snapshot_def Let_def list_ex_iff filter_empty_conv
        has_degraded_variant_def split: if_splits)
  have degr: "ws_degraded_session_count snap > 0" if "ws_state snap = WnDegraded"
    using that by (simp add: snap policy_snapshot_def Let_def split: if_splits)
  have cache: "filter (\<lambda>x. after now (sn_cache_only_until x)) ?ss \<noteq> []" if "ws_state snap = WnCacheOnly"
    using that by (simp add: snap policy_snapshot_def Let_def split: if_splits)
  from normal failed degr cache show ?thesis unfolding filter_empty_conv by blast
qed

theorem snapshot_state_exact_witness:
  "ws_state (fst (snapshot_at 0 demo_policy)) = WnNormal"
  using snapshot_state_exact [of 0 demo_policy "fst (snapshot_at 0 demo_policy)" "snd (snapshot_at 0 demo_policy)"]
  by (simp add: snapshot_at_def prune_expired_def demo_policy_def network_policy_default_def Let_def)

end
