(* ===== verification/Mp4_Segments.thy ===== *)
theory Mp4_Segments
  imports Prelude "HOL-Library.Word" "HOL-Library.Code_Target_Nat"
begin

unbundle bit_operations_syntax

text \<open>
  The fragmented-MP4 segmenter (\<open>mp4_segments.rs\<close>): it walks the boxes of a file, reads the time
  scale and default durations from the \<open>moov\<close> box and cuts the rest into segments, one per
  \<open>moof\<close>/\<open>mdat\<close> pair, with their durations.

  The file is its list of bytes; the only I/O error a read of it can give is the end of the
  file. \<open>io::Result<Option<T>>\<close> is \<open>mp4_io_error + T option\<close>. \<open>usize\<close> is a 64 bit number. The
  closures of \<open>visit_child_boxes\<close> change captured variables: here they pass that state along.
\<close>

section \<open>Data\<close>

type_synonym byte = "8 word"

datatype mp4_io_error = UnexpectedEof

record mp4_segment_range =
  sg_offset :: nat
  sg_length :: nat
  sg_duration_millis :: nat

record mp4_box_header =
  bh_offset :: nat
  bh_header_length :: nat
  bh_size :: nat
  bh_kind :: "byte list"

record mp4_timing_context =
  tc_timescale_by_track :: "(nat, nat) hmap"
  tc_default_sample_duration_by_track :: "(nat, nat) hmap"

definition MAX_TIMING_BOX_PAYLOAD_LENGTH :: nat where
  "MAX_TIMING_BOX_PAYLOAD_LENGTH = 16 * 1024 * 1024"

text \<open>A byte string literal such as \<open>b"moof"\<close>.\<close>

definition fourcc :: "string \<Rightarrow> byte list" where
  "fourcc s = map (\<lambda>c. of_nat (of_char c)) s"

definition from_be_bytes :: "byte list \<Rightarrow> nat" where
  "from_be_bytes bs = foldl (\<lambda>acc b. acc * 256 + unat b) 0 bs"

definition box_end :: "mp4_box_header \<Rightarrow> nat option" where
  "box_end h = checked_add (bh_offset h) (bh_size h)"

definition payload_offset :: "mp4_box_header \<Rightarrow> nat option" where
  "payload_offset h = checked_add (bh_offset h) (bh_header_length h)"

definition payload_length :: "mp4_box_header \<Rightarrow> nat option" where
  "payload_length h = checked_sub (bh_size h) (bh_header_length h)"

text \<open>\<open>let Some(x) = f()? else \{ return Ok(None) \}\<close>.\<close>

definition and_then :: "mp4_io_error + 'a option \<Rightarrow> ('a \<Rightarrow> mp4_io_error + 'b option) \<Rightarrow> mp4_io_error + 'b option" where
  "and_then r f = (case r of Inl e \<Rightarrow> Inl e | Inr None \<Rightarrow> Inr None | Inr (Some x) \<Rightarrow> f x)"

section \<open>Reading boxes\<close>

text \<open>\<open>seek\<close> to an offset and \<open>read_exact\<close>.\<close>

definition read_exact_at :: "byte list \<Rightarrow> nat \<Rightarrow> nat \<Rightarrow> mp4_io_error + byte list" where
  "read_exact_at file offset n =
     (if offset + n \<le> length file then Inr (take n (drop offset file)) else Inl UnexpectedEof)"

definition finish_box_header ::
  "nat \<Rightarrow> nat \<Rightarrow> byte list \<Rightarrow> nat \<Rightarrow> nat \<Rightarrow> mp4_io_error + mp4_box_header option" where
  "finish_box_header offset total_length kind header_length sz =
     (if sz < header_length then Inr None
      else case checked_add offset sz of
        None \<Rightarrow> Inr None
      | Some e \<Rightarrow>
          if e > total_length then Inr None
          else Inr (Some \<lparr>bh_offset = offset, bh_header_length = header_length, bh_size = sz, bh_kind = kind\<rparr>))"

definition read_box_header :: "byte list \<Rightarrow> nat \<Rightarrow> nat \<Rightarrow> mp4_io_error + mp4_box_header option" where
  "read_box_header file offset total_length =
     (case checked_add offset 8 of
        None \<Rightarrow> Inr None
      | Some header_end \<Rightarrow>
          if header_end > total_length then Inr None
          else case read_exact_at file offset 8 of
            Inl e \<Rightarrow> Inl e
          | Inr bytes \<Rightarrow>
              let size32 = from_be_bytes (take 4 bytes); kind = take 4 (drop 4 bytes) in
              if size32 = 0 then Inr None
              else if size32 = 1 then
                (case checked_add offset 16 of
                   None \<Rightarrow> Inr None
                 | Some large_header_end \<Rightarrow>
                     if large_header_end > total_length then Inr None
                     else case read_exact_at file (offset + 8) 8 of
                       Inl e \<Rightarrow> Inl e
                     | Inr large \<Rightarrow> finish_box_header offset total_length kind 16 (from_be_bytes large))
              else finish_box_header offset total_length kind 8 size32)"

definition read_box_payload_limited ::
  "byte list \<Rightarrow> mp4_box_header \<Rightarrow> nat \<Rightarrow> mp4_io_error + byte list option" where
  "read_box_payload_limited file header max_payload_length =
     (case (payload_offset header, payload_length header) of
        (Some po, Some pl) \<Rightarrow>
          if pl > max_payload_length then Inr None
          else (case read_exact_at file po pl of Inl e \<Rightarrow> Inl e | Inr bytes \<Rightarrow> Inr (Some bytes))
      | _ \<Rightarrow> Inr None)"

definition read_slice_box :: "byte list \<Rightarrow> nat \<Rightarrow> (byte list \<times> nat \<times> nat \<times> nat) option" where
  "read_slice_box payload offset =
     Option.bind (checked_add offset 8) (\<lambda>header_end.
       if header_end > length payload then None
       else
         let size32 = from_be_bytes (take 4 (drop offset payload));
             kind = take 4 (drop (offset + 4) payload)
         in Option.bind
              (if size32 = 1 then
                 Option.bind (checked_add offset 16) (\<lambda>large_header_end.
                   if large_header_end > length payload then None
                   else Some (16, from_be_bytes (take 8 (drop (offset + 8) payload))))
               else if size32 = 0 then None
               else Some (8, size32))
              (\<lambda>(header_length, sz).
                 if sz < header_length then None
                 else Option.bind (checked_add offset sz) (\<lambda>next_offset.
                   if next_offset > length payload then None
                   else Some (kind, offset + header_length, next_offset, next_offset))))"

lemma read_slice_box_progress:
  "read_slice_box payload offset = Some (kind, ps, pe, nxt) \<Longrightarrow>
     offset < nxt \<and> nxt \<le> length payload \<and> offset < ps \<and> ps \<le> pe \<and> pe = nxt"
  by (auto simp: read_slice_box_def Let_def checked_add_def split: if_splits bind_splits)

function visit_from ::
  "(byte list \<Rightarrow> byte list \<Rightarrow> 's \<Rightarrow> 's option) \<Rightarrow> byte list \<Rightarrow> nat \<Rightarrow> 's \<Rightarrow> 's option" where
  "visit_from visit payload offset s =
     (if offset < length payload then
        (case read_slice_box payload offset of
           None \<Rightarrow> None
         | Some (kind, payload_start, payload_end, next_offset) \<Rightarrow>
             (case visit kind (take (payload_end - payload_start) (drop payload_start payload)) s of
                None \<Rightarrow> None
              | Some s' \<Rightarrow> visit_from visit payload next_offset s'))
      else Some s)"
  by pat_completeness auto
termination
  by (relation "measure (\<lambda>(visit, payload, offset, s). length payload - offset)")
    (auto dest: read_slice_box_progress)

declare visit_from.simps [simp del]

definition visit_child_boxes ::
  "(byte list \<Rightarrow> byte list \<Rightarrow> 's \<Rightarrow> 's option) \<Rightarrow> byte list \<Rightarrow> 's \<Rightarrow> 's option" where
  "visit_child_boxes visit payload s = visit_from visit payload 0 s"

definition full_box_flags :: "byte list \<Rightarrow> nat option" where
  "full_box_flags payload =
     (if length payload < 4 then None
      else Some (from_be_bytes [0, payload ! 1, payload ! 2, payload ! 3]))"

definition read_u32 :: "byte list \<Rightarrow> nat \<Rightarrow> nat option" where
  "read_u32 payload offset =
     Option.bind (checked_add offset 4) (\<lambda>e.
       if e \<le> length payload then Some (from_be_bytes (take 4 (drop offset payload))) else None)"

section \<open>Timing of the tracks\<close>

text \<open>The \<open>match\<close> that stores a first value and accepts only equal ones later.\<close>

definition agree :: "nat option \<Rightarrow> nat \<Rightarrow> nat option option" where
  "agree stored parsed =
     (case stored of
        Some existing \<Rightarrow> if existing \<noteq> parsed then None else Some (Some existing)
      | None \<Rightarrow> Some (Some parsed))"

definition parse_versioned_u32 :: "byte list \<Rightarrow> nat option" where
  "parse_versioned_u32 payload =
     (case payload of
        [] \<Rightarrow> None
      | version # _ \<Rightarrow>
          if version = 0 then read_u32 payload 12
          else if version = 1 then read_u32 payload 20
          else None)"

definition parse_tkhd_track_id :: "byte list \<Rightarrow> nat option" where
  "parse_tkhd_track_id payload = parse_versioned_u32 payload"

definition parse_mdhd_timescale :: "byte list \<Rightarrow> nat option" where
  "parse_mdhd_timescale payload = parse_versioned_u32 payload"

definition parse_mdia_timescale :: "byte list \<Rightarrow> nat option option" where
  "parse_mdia_timescale payload =
     visit_child_boxes (\<lambda>kind child timescale.
       if kind \<noteq> fourcc ''mdhd'' then Some timescale
       else Option.bind (parse_mdhd_timescale child) (\<lambda>parsed.
         if parsed = 0 then None else agree timescale parsed)) payload None"

definition visit_trak_child ::
  "byte list \<Rightarrow> byte list \<Rightarrow> nat option \<times> nat option \<Rightarrow> (nat option \<times> nat option) option" where
  "visit_trak_child kind child st =
     (case st of (track_id, timescale) \<Rightarrow>
        if kind = fourcc ''tkhd'' then
          Option.bind (parse_tkhd_track_id child) (\<lambda>parsed.
            if parsed = 0 then None else map_option (\<lambda>t. (t, timescale)) (agree track_id parsed))
        else if kind = fourcc ''mdia'' then
          Option.bind (parse_mdia_timescale child) (\<lambda>inner.
            case inner of
              None \<Rightarrow> Some (track_id, timescale)
            | Some parsed \<Rightarrow>
                if parsed = 0 then None else map_option (\<lambda>t. (track_id, t)) (agree timescale parsed))
        else Some (track_id, timescale))"

definition parse_trak_timing :: "byte list \<Rightarrow> mp4_timing_context \<Rightarrow> mp4_timing_context option" where
  "parse_trak_timing payload ctx =
     (case visit_child_boxes visit_trak_child payload (None, None) of
        Some (Some track_id, Some timescale) \<Rightarrow>
          (case hm_get (tc_timescale_by_track ctx) track_id of
             Some existing \<Rightarrow> if existing \<noteq> timescale then None else Some ctx
           | None \<Rightarrow> Some (ctx\<lparr>tc_timescale_by_track := hm_insert track_id timescale (tc_timescale_by_track ctx)\<rparr>))
      | _ \<Rightarrow> None)"

definition parse_trex_default_sample_duration :: "byte list \<Rightarrow> (nat \<times> nat) option" where
  "parse_trex_default_sample_duration payload =
     Option.bind (read_u32 payload 4) (\<lambda>track_id.
       Option.bind (read_u32 payload 12) (\<lambda>duration. Some (track_id, duration)))"

definition parse_mvex_defaults :: "byte list \<Rightarrow> mp4_timing_context \<Rightarrow> mp4_timing_context option" where
  "parse_mvex_defaults payload ctx =
     visit_child_boxes (\<lambda>kind child ctx.
       if kind \<noteq> fourcc ''trex'' then Some ctx
       else Option.bind (parse_trex_default_sample_duration child) (\<lambda>(track_id, duration).
         if duration = 0 then Some ctx
         else case hm_get (tc_default_sample_duration_by_track ctx) track_id of
           Some existing \<Rightarrow> if existing \<noteq> duration then None else Some ctx
         | None \<Rightarrow> Some (ctx\<lparr>tc_default_sample_duration_by_track :=
                       hm_insert track_id duration (tc_default_sample_duration_by_track ctx)\<rparr>))) payload ctx"

definition parse_moov_timing :: "byte list \<Rightarrow> mp4_timing_context \<Rightarrow> mp4_timing_context option" where
  "parse_moov_timing payload ctx =
     visit_child_boxes (\<lambda>kind child ctx.
       if kind = fourcc ''trak'' then parse_trak_timing child ctx
       else if kind = fourcc ''mvex'' then parse_mvex_defaults child ctx
       else Some ctx) payload ctx"

section \<open>Durations of a fragment\<close>

definition flag_set :: "nat \<Rightarrow> nat \<Rightarrow> bool" where
  "flag_set flags m = (flags AND m \<noteq> 0)"

record tfhd =
  tf_track_id :: nat
  tf_default_sample_duration :: "nat option"

definition parse_tfhd :: "byte list \<Rightarrow> tfhd option" where
  "parse_tfhd payload =
     Option.bind (full_box_flags payload) (\<lambda>flags.
       Option.bind (read_u32 payload 4) (\<lambda>track_id.
         let offset = 8 + (if flag_set flags 0x000001 then 8 else 0) + (if flag_set flags 0x000002 then 4 else 0)
         in if flag_set flags 0x000008
            then Option.bind (read_u32 payload offset) (\<lambda>duration.
              Some \<lparr>tf_track_id = track_id,
                    tf_default_sample_duration = (if duration > 0 then Some duration else None)\<rparr>)
            else Some \<lparr>tf_track_id = track_id, tf_default_sample_duration = None\<rparr>))"

text \<open>The \<open>for _ in 0..sample_count\<close> loop; \<open>entry_bytes\<close> is the sum of its \<open>checked_add(4)\<close> steps.\<close>

fun sum_sample_durations :: "byte list \<Rightarrow> nat \<Rightarrow> nat \<Rightarrow> nat \<Rightarrow> nat \<Rightarrow> nat option" where
  "sum_sample_durations payload entry_bytes 0 offset acc = Some acc"
| "sum_sample_durations payload entry_bytes (Suc n) offset acc =
     Option.bind (read_u32 payload offset) (\<lambda>sample_duration.
       Option.bind (checked_add acc sample_duration) (\<lambda>acc'.
         Option.bind (checked_add offset entry_bytes) (\<lambda>offset'.
           if offset' > length payload then None
           else sum_sample_durations payload entry_bytes n offset' acc')))"

definition trun_entry_bytes :: "nat \<Rightarrow> nat" where
  "trun_entry_bytes flags =
     (if flag_set flags 0x000100 then 4 else 0) + (if flag_set flags 0x000200 then 4 else 0)
     + (if flag_set flags 0x000400 then 4 else 0) + (if flag_set flags 0x000800 then 4 else 0)"

definition trun_first_entry :: "nat \<Rightarrow> nat" where
  "trun_first_entry flags =
     8 + (if flag_set flags 0x000001 then 4 else 0) + (if flag_set flags 0x000004 then 4 else 0)"

definition parse_trun_duration_units :: "byte list \<Rightarrow> nat option \<Rightarrow> nat option" where
  "parse_trun_duration_units payload default_sample_duration =
     Option.bind (full_box_flags payload) (\<lambda>flags.
       Option.bind (read_u32 payload 4) (\<lambda>sample_count.
         let offset = trun_first_entry flags; entry_bytes = trun_entry_bytes flags in
         Option.bind (checked_mul entry_bytes sample_count) (\<lambda>sample_bytes.
           Option.bind (checked_add offset sample_bytes) (\<lambda>needed.
             if needed > length payload then None
             else if \<not> flag_set flags 0x000100
             then Option.bind default_sample_duration (\<lambda>d. checked_mul d sample_count)
             else sum_sample_durations payload entry_bytes sample_count offset 0))))"

definition trun_has_sample_duration :: "byte list \<Rightarrow> bool" where
  "trun_has_sample_duration payload =
     (case full_box_flags payload of Some flags \<Rightarrow> flag_set flags 0x000100 | None \<Rightarrow> False)"

definition visit_traf_child ::
  "mp4_timing_context \<Rightarrow> byte list \<Rightarrow> byte list \<Rightarrow> nat option \<times> nat option \<times> nat
     \<Rightarrow> (nat option \<times> nat option \<times> nat) option" where
  "visit_traf_child timing kind child st =
     (case st of (track_id, default_duration, duration_units) \<Rightarrow>
        if kind = fourcc ''tfhd'' then
          Option.bind (parse_tfhd child) (\<lambda>parsed.
            Some (Some (tf_track_id parsed),
                  (case tf_default_sample_duration parsed of
                     Some d \<Rightarrow> Some d
                   | None \<Rightarrow> hm_get (tc_default_sample_duration_by_track timing) (tf_track_id parsed)),
                  duration_units))
        else if kind = fourcc ''trun'' then
          Option.bind track_id (\<lambda>tid.
            Option.bind (parse_trun_duration_units child default_duration) (\<lambda>d.
              Option.bind (checked_add duration_units d) (\<lambda>units.
                if hm_get (tc_default_sample_duration_by_track timing) tid \<noteq> None
                   \<or> default_duration \<noteq> None \<or> trun_has_sample_duration child
                then Some (track_id, default_duration, units) else None)))
        else Some (track_id, default_duration, duration_units))"

definition parse_traf_duration_units :: "byte list \<Rightarrow> mp4_timing_context \<Rightarrow> (nat \<times> nat) option" where
  "parse_traf_duration_units payload timing =
     (case visit_child_boxes (visit_traf_child timing) payload (None, None, 0) of
        Some (Some track_id, _, duration_units) \<Rightarrow>
          if duration_units > 0 then Some (track_id, duration_units) else None
      | _ \<Rightarrow> None)"

definition visit_moof_child ::
  "mp4_timing_context \<Rightarrow> byte list \<Rightarrow> byte list \<Rightarrow> (nat, nat) hmap \<Rightarrow> (nat, nat) hmap option" where
  "visit_moof_child timing kind child units =
     (if kind \<noteq> fourcc ''traf'' then Some units
      else Option.bind (parse_traf_duration_units child timing) (\<lambda>(track_id, d).
        if hm_get (tc_timescale_by_track timing) track_id = None then None
        else
          let old = (case hm_get units track_id of Some n \<Rightarrow> n | None \<Rightarrow> 0) in
          Option.bind (checked_add old d) (\<lambda>n. Some (hm_insert track_id n units))))"

definition track_duration_millis :: "mp4_timing_context \<Rightarrow> nat \<Rightarrow> nat \<Rightarrow> nat option" where
  "track_duration_millis timing track_id units =
     Option.bind (hm_get (tc_timescale_by_track timing) track_id) (\<lambda>timescale.
       if timescale > 0
       then Option.bind (checked_mul units 1000) (\<lambda>d.
              map_option (\<lambda>x. x div timescale) (checked_add d (timescale - 1)))
       else None)"

fun max_track_duration :: "mp4_timing_context \<Rightarrow> (nat, nat) hmap \<Rightarrow> nat option \<Rightarrow> nat option option" where
  "max_track_duration timing [] acc = Some acc"
| "max_track_duration timing ((track_id, units) # rest) acc =
     Option.bind (track_duration_millis timing track_id units) (\<lambda>millis.
       max_track_duration timing rest
         (Some (max (case acc of Some m \<Rightarrow> m | None \<Rightarrow> 0) millis)))"

definition parse_moof_duration_millis_from_payload :: "byte list \<Rightarrow> mp4_timing_context \<Rightarrow> nat option" where
  "parse_moof_duration_millis_from_payload payload timing =
     Option.bind (visit_child_boxes (visit_moof_child timing) payload []) (\<lambda>units.
       Option.bind (max_track_duration timing units None) (\<lambda>acc.
         case acc of Some d \<Rightarrow> if d > 0 then Some d else None | None \<Rightarrow> None))"

definition parse_moof_duration_millis ::
  "byte list \<Rightarrow> mp4_box_header \<Rightarrow> mp4_timing_context \<Rightarrow> mp4_io_error + nat option" where
  "parse_moof_duration_millis file header timing =
     and_then (read_box_payload_limited file header MAX_TIMING_BOX_PAYLOAD_LENGTH)
       (\<lambda>payload. Inr (parse_moof_duration_millis_from_payload payload timing))"

section \<open>The walk over the file\<close>

lemma read_box_header_progress:
  "read_box_header file offset tot = Inr (Some h) \<Longrightarrow>
     bh_offset h = offset \<and> box_end h = Some (offset + bh_size h) \<and> 8 \<le> bh_header_length h
     \<and> bh_header_length h \<le> bh_size h \<and> offset + bh_size h \<le> tot"
  by (auto simp: read_box_header_def finish_box_header_def box_end_def Let_def checked_add_def
      split: if_splits option.splits sum.splits)

function parse_timing_loop ::
  "byte list \<Rightarrow> nat \<Rightarrow> nat \<Rightarrow> nat \<Rightarrow> mp4_timing_context \<Rightarrow> mp4_io_error + mp4_timing_context option" where
  "parse_timing_loop file initialization_length total_length offset ctx =
     (if offset < initialization_length then
        (case read_box_header file offset total_length of
           Inl e \<Rightarrow> Inl e
         | Inr None \<Rightarrow> Inr None
         | Inr (Some header) \<Rightarrow>
             (case box_end header of
                None \<Rightarrow> Inr None
              | Some e \<Rightarrow>
                  if e > initialization_length then Inr None
                  else if bh_kind header = fourcc ''moov'' then
                    (case read_box_payload_limited file header MAX_TIMING_BOX_PAYLOAD_LENGTH of
                       Inl err \<Rightarrow> Inl err
                     | Inr None \<Rightarrow> Inr None
                     | Inr (Some payload) \<Rightarrow>
                         (case parse_moov_timing payload ctx of
                            None \<Rightarrow> Inr None
                          | Some ctx' \<Rightarrow> parse_timing_loop file initialization_length total_length e ctx'))
                  else parse_timing_loop file initialization_length total_length e ctx))
      else Inr (Some ctx))"
  by pat_completeness auto
termination
  by (relation "measure (\<lambda>(file, il, tl, offset, ctx). il - offset)")
    (auto dest!: read_box_header_progress)

declare parse_timing_loop.simps [simp del]

definition parse_timing_context ::
  "byte list \<Rightarrow> nat \<Rightarrow> nat \<Rightarrow> mp4_io_error + mp4_timing_context option" where
  "parse_timing_context file initialization_length total_length =
     and_then (parse_timing_loop file initialization_length total_length 0
                 \<lparr>tc_timescale_by_track = [], tc_default_sample_duration_by_track = []\<rparr>)
       (\<lambda>ctx. if tc_timescale_by_track ctx \<noteq> [] then Inr (Some ctx) else Inr None)"

function find_fragment_end :: "byte list \<Rightarrow> nat \<Rightarrow> nat \<Rightarrow> mp4_io_error + nat option" where
  "find_fragment_end file offset total_length =
     (if offset < total_length then
        (case read_box_header file offset total_length of
           Inl e \<Rightarrow> Inl e
         | Inr None \<Rightarrow> Inr None
         | Inr (Some header) \<Rightarrow>
             if bh_kind header = fourcc ''mdat'' then Inr (box_end header)
             else if bh_kind header = fourcc ''moof'' then Inr None
             else (case box_end header of
                     None \<Rightarrow> Inr None
                   | Some next_offset \<Rightarrow> find_fragment_end file next_offset total_length))
      else Inr None)"
  by pat_completeness auto
termination
  by (relation "measure (\<lambda>(file, offset, tl). tl - offset)") (auto dest!: read_box_header_progress)

declare find_fragment_end.simps [simp del]

lemma find_fragment_end_bounds:
  "find_fragment_end bs offset tot = Inr (Some e) \<Longrightarrow> offset + 8 \<le> e \<and> e \<le> tot"
proof (induction bs offset tot rule: find_fragment_end.induct)
  case (1 bs offset tot)
  show ?case
  proof (cases "read_box_header bs offset tot")
    case (Inl e)
    with 1(2) show ?thesis by (simp add: find_fragment_end.simps split: if_splits)
  next
    case (Inr r)
    with 1(2) obtain h where h: "read_box_header bs offset tot = Inr (Some h)" "offset < tot"
      by (cases r) (simp_all add: find_fragment_end.simps split: if_splits)
    note p = read_box_header_progress [OF h(1)]
    show ?thesis
    proof (cases "bh_kind h = fourcc ''mdat'' \<or> bh_kind h = fourcc ''moof''")
      case True
      with 1(2) h p show ?thesis by (auto simp: find_fragment_end.simps [of bs offset] split: if_splits)
    next
      case False
      with 1(2) h p have "find_fragment_end bs (offset + bh_size h) tot = Inr (Some e)"
        by (simp add: find_fragment_end.simps [of bs offset])
      with 1(1) [OF h(2) h(1)] False p show ?thesis by force
    qed
  qed
qed

text \<open>
  The main loop. Its outcome is \<open>Ok(None)\<close>, \<open>Ok(Some(list))\<close> or an error; \<open>pending\<close> is
  \<open>pending_segment_start\<close>. Each turn moves the offset behind at least one box header, so the loop
  ends.
\<close>

function fragment_loop ::
  "byte list \<Rightarrow> mp4_timing_context \<Rightarrow> nat \<Rightarrow> nat \<Rightarrow> nat option \<Rightarrow> mp4_segment_range list
     \<Rightarrow> mp4_io_error + mp4_segment_range list option" where
  "fragment_loop file timing total_length offset pending segments =
     (if offset < total_length then
        (case read_box_header file offset total_length of
           Inl e \<Rightarrow> Inl e
         | Inr None \<Rightarrow> Inr None
         | Inr (Some header) \<Rightarrow>
             if bh_kind header = fourcc ''moof'' then
               let segment_start = (case pending of Some p \<Rightarrow> p | None \<Rightarrow> bh_offset header) in
               (case box_end header of
                  None \<Rightarrow> Inr None
                | Some fragment_body_start \<Rightarrow>
                    (case parse_moof_duration_millis file header timing of
                       Inl e \<Rightarrow> Inl e
                     | Inr None \<Rightarrow> Inr (Some [])
                     | Inr (Some duration_millis) \<Rightarrow>
                         (case find_fragment_end file fragment_body_start total_length of
                            Inl e \<Rightarrow> Inl e
                          | Inr None \<Rightarrow> Inr None
                          | Inr (Some segment_end) \<Rightarrow>
                              if segment_end \<le> segment_start then Inr None
                              else fragment_loop file timing total_length segment_end None
                                (segments @ [\<lparr>sg_offset = segment_start,
                                   sg_length = segment_end - segment_start,
                                   sg_duration_millis = duration_millis\<rparr>]))))
             else if bh_kind header = fourcc ''mdat'' then Inr None
             else (case box_end header of
                     None \<Rightarrow> Inr None
                   | Some next_offset \<Rightarrow>
                       fragment_loop file timing total_length next_offset
                         (case pending of Some p \<Rightarrow> Some p | None \<Rightarrow> Some (bh_offset header)) segments))
      else if pending \<noteq> None then Inr (Some [])
      else if length segments < 2 then Inr (Some [])
      else Inr (Some segments))"
  by pat_completeness auto
termination
  by (relation "measure (\<lambda>(file, timing, tl, offset, pending, segments). tl - offset)")
    (auto dest!: read_box_header_progress find_fragment_end_bounds)

declare fragment_loop.simps [simp del]

definition parse_mp4_fragment_ranges ::
  "byte list \<Rightarrow> nat \<Rightarrow> nat \<Rightarrow> mp4_io_error + mp4_segment_range list option" where
  "parse_mp4_fragment_ranges file initialization_length total_length =
     (case parse_timing_context file initialization_length total_length of
        Inl e \<Rightarrow> Inl e
      | Inr None \<Rightarrow> Inr (Some [])
      | Inr (Some timing) \<Rightarrow> fragment_loop file timing total_length initialization_length None [])"

definition mp4_fragment_ranges :: "byte list \<Rightarrow> nat \<Rightarrow> nat \<Rightarrow> mp4_io_error + mp4_segment_range list" where
  "mp4_fragment_ranges file initialization_length total_length =
     (if initialization_length \<ge> total_length then Inr []
      else case parse_mp4_fragment_ranges file initialization_length total_length of
        Inl e \<Rightarrow> Inl e
      | Inr r \<Rightarrow> Inr (case r of Some segs \<Rightarrow> segs | None \<Rightarrow> []))"

section \<open>The segments partition the media part of the file\<close>

text \<open>
  \<open>seg_chain a segs b\<close>: the segments follow each other without gap from \<open>a\<close> to \<open>b\<close>, each has room for
  its two box headers and a positive duration.
\<close>

fun seg_chain :: "nat \<Rightarrow> mp4_segment_range list \<Rightarrow> nat \<Rightarrow> bool" where
  "seg_chain a [] b \<longleftrightarrow> a = b"
| "seg_chain a (s # ss) b \<longleftrightarrow>
     sg_offset s = a \<and> 16 \<le> sg_length s \<and> 0 < sg_duration_millis s \<and> seg_chain (a + sg_length s) ss b"

lemma seg_chain_snoc:
  "seg_chain a (ss @ [s]) b \<longleftrightarrow>
     (\<exists>m. seg_chain a ss m \<and> sg_offset s = m \<and> 16 \<le> sg_length s \<and> 0 < sg_duration_millis s \<and> m + sg_length s = b)"
  by (induction ss arbitrary: a) auto

lemma moof_duration_pos:
  "parse_moof_duration_millis bs h timing = Inr (Some d) \<Longrightarrow> 0 < d"
  by (auto simp: parse_moof_duration_millis_def and_then_def parse_moof_duration_millis_from_payload_def
      split: sum.splits option.splits bind_splits if_splits)

lemma fragment_loop_chain:
  assumes "fragment_loop bs timing tot offset pending segs = Inr (Some res)" "res \<noteq> []"
    "(case pending of Some p \<Rightarrow> p | None \<Rightarrow> offset) \<le> offset" "offset \<le> tot"
    "seg_chain start segs (case pending of Some p \<Rightarrow> p | None \<Rightarrow> offset)"
  shows "seg_chain start res tot \<and> 2 \<le> length res"
  using assms
proof (induction bs timing tot offset pending segs rule: fragment_loop.induct)
  case (1 bs timing tot offset pending segs)
  show ?case
  proof (cases "offset < tot")
    case False
    with 1(3-7) show ?thesis
      by (auto simp: fragment_loop.simps [of bs timing tot offset] split: if_splits)
  next
    case True
    with 1(3) obtain h where h: "read_box_header bs offset tot = Inr (Some h)"
      by (cases "read_box_header bs offset tot")
        (auto simp: fragment_loop.simps [of bs timing tot offset] split: option.splits)
    note p = read_box_header_progress [OF h]
    let ?st = "case pending of Some p \<Rightarrow> p | None \<Rightarrow> bh_offset h"
    show ?thesis
    proof (cases "bh_kind h = fourcc ''moof''")
      case moof: True
      obtain d e where d: "parse_moof_duration_millis bs h timing = Inr (Some d)"
        and e: "find_fragment_end bs (offset + bh_size h) tot = Inr (Some e)" "\<not> e \<le> ?st"
        and r: "fragment_loop bs timing tot e None
           (segs @ [\<lparr>sg_offset = ?st, sg_length = e - ?st, sg_duration_millis = d\<rparr>]) = Inr (Some res)"
        using 1(3,4) True h p moof
        by (auto simp: fragment_loop.simps [of bs timing tot offset] Let_def split: sum.splits option.splits if_splits)
      note eb = find_fragment_end_bounds [OF e(1)]
      have st: "?st \<le> offset" "seg_chain start segs ?st" using 1(5,7) p by (auto split: option.splits)
      have "seg_chain start (segs @ [\<lparr>sg_offset = ?st, sg_length = e - ?st, sg_duration_millis = d\<rparr>]) e"
        using st eb p moof_duration_pos [OF d] by (auto simp: seg_chain_snoc)
      with 1(1) [OF True h refl moof refl _ d refl e(1) refl e(2) r 1(4)] p eb show ?thesis by simp
    next
      case other: False
      have mdat: "bh_kind h \<noteq> fourcc ''mdat''"
        and r: "fragment_loop bs timing tot (offset + bh_size h)
           (case pending of Some p \<Rightarrow> Some p | None \<Rightarrow> Some (bh_offset h)) segs = Inr (Some res)"
        using 1(3) True h p other
        by (auto simp: fragment_loop.simps [of bs timing tot offset] split: if_splits)
      have "seg_chain start res tot \<and> 2 \<le> length res"
        using p 1(5-7) by (intro 1(2) [OF True h refl other mdat _ r 1(4)]) (auto split: option.splits)
      then show ?thesis .
    qed
  qed
qed

lemma mp4_segments_partition_of:
  assumes "mp4_fragment_ranges bs init tot = Inr segs" and "segs \<noteq> []"
  shows "2 \<le> length segs \<and> seg_chain init segs tot"
proof -
  from assms have lt: "init < tot" by (auto simp: mp4_fragment_ranges_def split: if_splits)
  with assms have "parse_mp4_fragment_ranges bs init tot = Inr (Some segs)"
    by (auto simp: mp4_fragment_ranges_def split: sum.splits option.splits)
  with assms(2) obtain timing where "fragment_loop bs timing tot init None [] = Inr (Some segs)"
    by (auto simp: parse_mp4_fragment_ranges_def split: sum.splits option.splits)
  from fragment_loop_chain [OF this assms(2), of init] lt show ?thesis by simp
qed

text \<open>
  C13. The segments found in a fragmented MP4 file tile its media part: unless the file is left
  unsegmented (an empty list), there are at least two segments, the first begins where the
  initialization part ends, each begins where the previous one ends, the last ends at the total
  length, and each has a positive duration.
\<close>

theorem mp4_segments_partition:
  assumes "mp4_fragment_ranges bs init tot = Inr segs" and "segs \<noteq> []"
  shows "2 \<le> length segs \<and> seg_chain init segs tot"
  by (rule mp4_segments_partition_of [OF assms])

definition demo_box :: "string \<Rightarrow> byte list \<Rightarrow> byte list" where
  "demo_box kind payload = [0, 0, 0, of_nat (8 + length payload)] @ fourcc kind @ payload"

definition demo_mp4 :: "byte list" where
  "demo_mp4 =
     (let tkhd = demo_box ''tkhd'' (replicate 12 0 @ [0, 0, 0, 1]);
          mdia = demo_box ''mdia'' (demo_box ''mdhd'' (replicate 12 0 @ [0, 0, 3, 232]));
          moov = demo_box ''moov'' (demo_box ''trak'' (tkhd @ mdia));
          tfhd = demo_box ''tfhd'' [0, 0, 0, 8, 0, 0, 0, 1, 0, 0, 3, 232];
          trun = demo_box ''trun'' [0, 0, 0, 0, 0, 0, 0, 1];
          moof = demo_box ''moof'' (demo_box ''traf'' (tfhd @ trun));
          fragment = moof @ demo_box ''mdat'' []
      in moov @ fragment @ fragment)"

lemma demo_mp4_ranges:
  "mp4_fragment_ranges demo_mp4 72 192 =
     Inr [\<lparr>sg_offset = 72, sg_length = 60, sg_duration_millis = 1000\<rparr>,
          \<lparr>sg_offset = 132, sg_length = 60, sg_duration_millis = 1000\<rparr>]"
  by code_simp

theorem mp4_segments_partition_witness:
  "\<exists>segs. mp4_fragment_ranges demo_mp4 72 192 = Inr segs \<and> seg_chain 72 segs 192"
  using mp4_segments_partition [OF demo_mp4_ranges] demo_mp4_ranges by blast

section \<open>A complete file gives no read error\<close>

definition no_error :: "mp4_io_error + 'a \<Rightarrow> bool" where
  "no_error r \<longleftrightarrow> (\<exists>x. r = Inr x)"

lemma no_error_simps [simp]: "no_error (Inr x)" "\<not> no_error (Inl e)"
  by (auto simp: no_error_def)

lemma read_box_header_no_error: "tot \<le> length bs \<Longrightarrow> no_error (read_box_header bs offset tot)"
  by (auto simp: read_box_header_def finish_box_header_def read_exact_at_def Let_def checked_add_def
      split: option.splits)

lemma read_payload_no_error:
  assumes "tot \<le> length bs" "read_box_header bs offset tot = Inr (Some h)"
  shows "no_error (read_box_payload_limited bs h n)"
  using read_box_header_progress [OF assms(2)] assms(1)
  by (auto simp: read_box_payload_limited_def read_exact_at_def payload_offset_def payload_length_def
      checked_add_def checked_sub_def split: option.splits)

lemma moof_duration_no_error:
  "tot \<le> length bs \<Longrightarrow> read_box_header bs offset tot = Inr (Some h) \<Longrightarrow>
     no_error (parse_moof_duration_millis bs h timing)"
  using read_payload_no_error [of tot bs offset h MAX_TIMING_BOX_PAYLOAD_LENGTH]
  by (auto simp: parse_moof_duration_millis_def and_then_def no_error_def split: option.splits)

lemma timing_loop_no_error:
  "tot \<le> length bs \<Longrightarrow> no_error (parse_timing_loop bs il tot offset ctx)"
proof (induction bs il tot offset ctx rule: parse_timing_loop.induct)
  case (1 bs il tot offset ctx)
  obtain r where r: "read_box_header bs offset tot = Inr r"
    using read_box_header_no_error [OF 1(3), of offset] by (auto simp: no_error_def)
  have p: "no_error (read_box_payload_limited bs h n)" if "r = Some h" for h n
    using read_payload_no_error [OF 1(3)] r that by blast
  then have "\<exists>x. read_box_payload_limited bs h n = Inr x" if "r = Some h" for h n
    using that by (auto simp: no_error_def)
  then show ?case
    using 1 r by (subst parse_timing_loop.simps) (fastforce split: option.split sum.split)
qed

lemma find_fragment_end_no_error:
  "tot \<le> length bs \<Longrightarrow> no_error (find_fragment_end bs offset tot)"
proof (induction bs offset tot rule: find_fragment_end.induct)
  case (1 bs offset tot)
  obtain r where r: "read_box_header bs offset tot = Inr r"
    using read_box_header_no_error [OF 1(2), of offset] by (auto simp: no_error_def)
  with 1 show ?case
    by (subst find_fragment_end.simps) (auto split: option.split)
qed

lemma fragment_loop_no_error:
  "tot \<le> length bs \<Longrightarrow> no_error (fragment_loop bs timing tot offset pending segs)"
proof (induction bs timing tot offset pending segs rule: fragment_loop.induct)
  case (1 bs timing tot offset pending segs)
  obtain r where r: "read_box_header bs offset tot = Inr r"
    using read_box_header_no_error [OF 1(3), of offset] by (auto simp: no_error_def)
  show ?case
  proof (cases "\<exists>h. offset < tot \<and> r = Some h")
    case False
    with r show ?thesis by (subst fragment_loop.simps) (auto split: option.split)
  next
    case True
    then obtain h where lt: "offset < tot" and h: "read_box_header bs offset tot = Inr (Some h)" using r by auto
    obtain d where d: "parse_moof_duration_millis bs h timing = Inr d"
      using moof_duration_no_error [OF 1(3) h] by (auto simp: no_error_def)
    obtain e where e: "find_fragment_end bs (offset + bh_size h) tot = Inr e"
      using find_fragment_end_no_error [OF 1(3)] by (auto simp: no_error_def)
    note p = read_box_header_progress [OF h]
    show ?thesis
      using 1(1) [OF lt h refl] 1(2) [OF lt h refl] 1(3) lt h d e p
      by (subst fragment_loop.simps) (auto simp: Let_def split: option.split)
  qed
qed

text \<open>
  Segmenting a file that is at least as long as the total length never fails with a read
  error: every read the walk makes lies inside the file, whatever the box sizes in it claim.
\<close>

theorem mp4_no_read_past_end:
  assumes "tot \<le> length bs"
  shows "\<exists>segs. mp4_fragment_ranges bs init tot = Inr segs"
proof -
  have "no_error (parse_timing_context bs init tot)"
    using timing_loop_no_error [OF assms, of init 0
        "\<lparr>tc_timescale_by_track = [], tc_default_sample_duration_by_track = []\<rparr>"]
    by (auto simp: parse_timing_context_def and_then_def no_error_def split: option.split)
  then obtain r where r: "parse_timing_context bs init tot = Inr r" by (auto simp: no_error_def)
  have "no_error (parse_mp4_fragment_ranges bs init tot)"
    using fragment_loop_no_error [OF assms] r
    by (simp add: parse_mp4_fragment_ranges_def split: option.split)
  then show ?thesis by (auto simp: mp4_fragment_ranges_def no_error_def)
qed

theorem mp4_no_read_past_end_witness:
  "\<exists>segs. mp4_fragment_ranges (replicate 64 0) 16 64 = Inr segs"
  by (rule mp4_no_read_past_end) simp

section \<open>Sample durations\<close>

lemma from_be_bytes_bound: "from_be_bytes bs < 256 ^ length bs"
proof (induction bs rule: rev_induct)
  case (snoc b bs)
  have "unat b < 256" using unsigned_less [of b] by simp
  with snoc have "from_be_bytes bs * 256 + unat b < (from_be_bytes bs + 1) * 256" by simp
  also have "\<dots> \<le> 256 ^ length bs * 256" using snoc by (intro mult_le_mono1) simp
  finally show ?case by (simp add: from_be_bytes_def mult.commute)
qed (simp add: from_be_bytes_def)

definition be32_at :: "byte list \<Rightarrow> nat \<Rightarrow> nat" where
  "be32_at payload offset = from_be_bytes (take 4 (drop offset payload))"

lemma be32_at_bound: "be32_at payload offset \<le> u32_max"
proof -
  have "be32_at payload offset < 256 ^ length (take 4 (drop offset payload))"
    unfolding be32_at_def by (rule from_be_bytes_bound)
  also have "\<dots> \<le> 256 ^ 4" by (rule power_increasing) simp_all
  finally show ?thesis by simp
qed

lemma read_u32_eq:
  "length payload \<le> u64_max \<Longrightarrow>
     read_u32 payload offset = (if offset + 4 \<le> length payload then Some (be32_at payload offset) else None)"
  by (auto simp: read_u32_def be32_at_def checked_add_def)

lemma sum_sample_durations_exact:
  assumes len: "length payload \<le> u64_max" and eb: "4 \<le> eb"
  shows "offset + n * eb \<le> length payload \<Longrightarrow> acc + n * u32_max \<le> u64_max \<Longrightarrow>
     sum_sample_durations payload eb n offset acc = Some (acc + (\<Sum>i<n. be32_at payload (offset + i * eb)))"
proof (induction n arbitrary: offset acc)
  case (Suc n)
  let ?d = "be32_at payload offset"
  have d: "?d \<le> u32_max" by (rule be32_at_bound)
  have off: "offset + eb + n * eb \<le> length payload" using Suc.prems(1) by simp
  have acc: "acc + ?d + n * u32_max \<le> u64_max" using Suc.prems(2) d by simp
  have ih: "sum_sample_durations payload eb n (offset + eb) (acc + ?d) =
      Some (acc + ?d + (\<Sum>i<n. be32_at payload (offset + eb + i * eb)))"
    using off acc by (rule Suc.IH)
  have sum: "(\<Sum>i<Suc n. be32_at payload (offset + i * eb)) = ?d + (\<Sum>i<n. be32_at payload (offset + eb + i * eb))"
    by (subst sum.lessThan_Suc_shift) (simp add: add.assoc)
  have "read_u32 payload offset = Some ?d" using off eb len by (simp add: read_u32_eq)
  moreover have "checked_add acc ?d = Some (acc + ?d)" using acc by (simp add: checked_add_def)
  moreover have "checked_add offset eb = Some (offset + eb)" "\<not> offset + eb > length payload"
    using off len by (simp_all add: checked_add_def)
  ultimately show ?case using ih sum by (simp del: sum.lessThan_Suc)
qed simp

text \<open>
  The per-sample durations of a \<open>trun\<close> box are summed exactly: when the box carries them, the
  parser succeeds exactly when the table the header announces fits into the payload, its result
  is the sum of the 32 bit durations at their places in the table, and neither a read nor the
  64 bit sum can fail in between.
\<close>

theorem trun_durations_exact:
  assumes "length payload \<le> u64_max" and "full_box_flags payload = Some flags" and "flag_set flags 0x000100"
    and "read_u32 payload 4 = Some n"
  shows "parse_trun_duration_units payload dflt =
    (if trun_first_entry flags + trun_entry_bytes flags * n \<le> length payload
     then Some (\<Sum>i<n. be32_at payload (trun_first_entry flags + i * trun_entry_bytes flags))
     else None)"
proof -
  let ?f = "trun_first_entry flags" and ?e = "trun_entry_bytes flags"
  have e: "4 \<le> ?e" "?e \<le> 16" using assms(3) by (auto simp: trun_entry_bytes_def)
  have f: "?f \<le> 16" by (simp add: trun_first_entry_def)
  have n: "n \<le> u32_max"
    using assms(4) be32_at_bound [of payload 4] by (auto simp: read_u32_eq [OF assms(1)] split: if_splits)
  have en: "?e * n \<le> 16 * u32_max" using e(2) n by (rule mult_le_mono)
  then have m: "checked_mul ?e n = Some (?e * n)" "checked_add ?f (?e * n) = Some (?f + ?e * n)"
    using f by (simp_all add: checked_mul_def checked_add_def)
  show ?thesis
  proof (cases "?f + ?e * n \<le> length payload")
    case True
    have "0 + n * u32_max \<le> u64_max" using n mult_le_mono1 [OF n, of u32_max] by simp
    moreover have "?f + n * ?e \<le> length payload" using True by (simp add: mult.commute)
    ultimately have "sum_sample_durations payload ?e n ?f 0 = Some (0 + (\<Sum>i<n. be32_at payload (?f + i * ?e)))"
      using sum_sample_durations_exact [OF assms(1) e(1)] by blast
    with True assms m show ?thesis by (simp add: parse_trun_duration_units_def Let_def)
  next
    case False
    with assms m show ?thesis by (simp add: parse_trun_duration_units_def Let_def)
  qed
qed

theorem trun_durations_exact_witness:
  "parse_trun_duration_units [0, 0, 1, 0, 0, 0, 0, 1, 0, 0, 3, 232] None = Some 1000"
proof -
  let ?p = "[0, 0, 1, 0, 0, 0, 0, 1, 0, 0, 3, 232] :: byte list"
  have "full_box_flags ?p = Some 0x100" "flag_set 0x100 0x000100" "read_u32 ?p 4 = Some 1"
    "trun_first_entry 0x100 = 8" "trun_entry_bytes 0x100 = 4" "be32_at ?p 8 = 1000"
    by code_simp+
  with trun_durations_exact [of ?p "0x100" 1 None] show ?thesis by simp
qed

end
