(* ===== verification/Rust_Text.thy ===== *)
theory Rust_Text
  imports Prelude
begin

text \<open>
  Rust strings and the functions on them that the sources use: \<open>trim\<close>, \<open>strip_prefix\<close>,
  \<open>strip_suffix\<close>, \<open>split_once\<close>, \<open>rsplit_once\<close>, \<open>str::parse::<u64>\<close> and the decimal output of
  \<open>format!\<close>. A string is a list of characters below 256: \<open>trim\<close> knows the white space among them, not
  the further one of Unicode.
\<close>

section \<open>Characters\<close>

definition is_whitespace :: "char \<Rightarrow> bool" where
  "is_whitespace c = (let b = (of_char c :: nat) in (9 \<le> b \<and> b \<le> 13) \<or> b = 32 \<or> b = 133 \<or> b = 160)"

definition is_control :: "char \<Rightarrow> bool" where
  "is_control c = (let b = (of_char c :: nat) in b < 32 \<or> (127 \<le> b \<and> b \<le> 159))"

definition trim :: "string \<Rightarrow> string" where
  "trim s = rev (dropWhile is_whitespace (rev (dropWhile is_whitespace s)))"

fun decimal :: "nat \<Rightarrow> string" where
  "decimal n = (if n < 10 then [char_of (48 + n)] else decimal (n div 10) @ [char_of (48 + n mod 10)])"

declare decimal.simps [simp del]

text \<open>\<open>to_ascii_lowercase\<close>.\<close>

definition ascii_lower :: "char \<Rightarrow> char" where
  "ascii_lower c = (let b = (of_char c :: nat) in if 65 \<le> b \<and> b \<le> 90 then char_of (b + 32) else c)"

section \<open>Splitting\<close>

definition strip_prefix :: "string \<Rightarrow> string \<Rightarrow> string option" where
  "strip_prefix p s = (if take (length p) s = p then Some (drop (length p) s) else None)"

definition strip_suffix :: "string \<Rightarrow> string \<Rightarrow> string option" where
  "strip_suffix p s = map_option rev (strip_prefix (rev p) (rev s))"

fun split_once :: "char \<Rightarrow> string \<Rightarrow> (string \<times> string) option" where
  "split_once c [] = None"
| "split_once c (x # xs) =
     (if x = c then Some ([], xs) else map_option (\<lambda>(a, b). (x # a, b)) (split_once c xs))"

definition rsplit_once :: "char \<Rightarrow> string \<Rightarrow> (string \<times> string) option" where
  "rsplit_once c s = map_option (\<lambda>(a, b). (rev b, rev a)) (split_once c (rev s))"

text \<open>\<open>str::split\<close> on a character.\<close>

fun split_on :: "char \<Rightarrow> string \<Rightarrow> string list" where
  "split_on c [] = [[]]"
| "split_on c (x # xs) =
     (if x = c then [] # split_on c xs
      else case split_on c xs of [] \<Rightarrow> [[x]] | p # ps \<Rightarrow> (x # p) # ps)"

text \<open>\<open>str::contains\<close>.\<close>

fun contains_text :: "string \<Rightarrow> string \<Rightarrow> bool" where
  "contains_text p [] = (p = [])"
| "contains_text p (c # cs) = (take (length p) (c # cs) = p \<or> contains_text p cs)"

section \<open>UTF-8\<close>

definition is_continuation :: "nat \<Rightarrow> bool" where
  "is_continuation b \<longleftrightarrow> 128 \<le> b \<and> b \<le> 191"

definition second_byte_ok :: "nat \<Rightarrow> nat \<Rightarrow> bool" where
  "second_byte_ok a b =
     (if a = 224 then 160 \<le> b \<and> b \<le> 191
      else if a = 237 then 128 \<le> b \<and> b \<le> 159
      else if a = 240 then 144 \<le> b \<and> b \<le> 191
      else if a = 244 then 128 \<le> b \<and> b \<le> 143
      else is_continuation b)"

definition char_width :: "nat \<Rightarrow> nat" where
  "char_width b =
     (if b < 128 then 1
      else if 194 \<le> b \<and> b \<le> 223 then 2
      else if 224 \<le> b \<and> b \<le> 239 then 3
      else if 240 \<le> b \<and> b \<le> 244 then 4
      else 0)"

text \<open>\<open>String::from_utf8\<close>: whether the bytes are the encoding of a text.\<close>

function utf8_valid :: "nat list \<Rightarrow> bool" where
  "utf8_valid s =
     (case s of
        [] \<Rightarrow> True
      | a # cs \<Rightarrow>
          let w = char_width a in
          if w = 0 \<or> length s < w then False
          else (w \<ge> 2 \<longrightarrow> second_byte_ok a (s ! 1)) \<and> list_all is_continuation (drop 2 (take w s))
            \<and> utf8_valid (drop w s))"
  by pat_completeness auto
termination by (relation "measure length") auto

declare utf8_valid.simps [simp del]

section \<open>Numbers\<close>

definition digit_value :: "char \<Rightarrow> nat option" where
  "digit_value c = (let b = (of_char c :: nat) in if 48 \<le> b \<and> b \<le> 57 then Some (b - 48) else None)"

fun parse_digits :: "string \<Rightarrow> nat \<Rightarrow> nat option" where
  "parse_digits [] acc = Some acc"
| "parse_digits (c # cs) acc =
     (case digit_value c of
        None \<Rightarrow> None
      | Some d \<Rightarrow> if acc * 10 + d \<le> u64_max then parse_digits cs (acc * 10 + d) else None)"

text \<open>\<open>str::parse::<u64>\<close>: a sign \<open>+\<close> is allowed, no digit at all is an error.\<close>

definition parse_u64 :: "string \<Rightarrow> nat option" where
  "parse_u64 s =
     (case s of
        [] \<Rightarrow> None
      | c # cs \<Rightarrow> if c = CHR ''+'' then (if cs = [] then None else parse_digits cs 0)
                else parse_digits s 0)"

section \<open>Laws\<close>

lemma strip_prefix_append [simp]: "strip_prefix p (p @ s) = Some s"
  by (simp add: strip_prefix_def)

lemma strip_prefix_Some_iff: "strip_prefix p s = Some t \<longleftrightarrow> s = p @ t"
  by (auto simp: strip_prefix_def) (metis append_take_drop_id)

lemma strip_suffix_Some_iff: "strip_suffix p s = Some t \<longleftrightarrow> s = t @ p"
  by (auto simp: strip_suffix_def strip_prefix_Some_iff) (metis rev_append rev_rev_ident)

lemma split_once_append: "c \<notin> set a \<Longrightarrow> split_once c (a @ c # b) = Some (a, b)"
  by (induction a) auto

lemma split_once_None_iff: "split_once c s = None \<longleftrightarrow> c \<notin> set s"
  by (induction s) auto

lemma split_once_SomeD: "split_once c s = Some (a, b) \<Longrightarrow> s = a @ c # b \<and> c \<notin> set a"
  by (induction s arbitrary: a b) (auto split: if_splits)

lemma rsplit_once_append: "c \<notin> set b \<Longrightarrow> rsplit_once c (a @ c # b) = Some (a, b)"
  by (simp add: rsplit_once_def split_once_append)

lemma decimal_not_empty [simp]: "decimal n \<noteq> []"
  by (subst decimal.simps) simp

definition is_digit :: "char \<Rightarrow> bool" where
  "is_digit c \<longleftrightarrow> digit_value c \<noteq> None"

lemma digit_value_char: "d < 10 \<Longrightarrow> digit_value (char_of (48 + d)) = Some d"
  by (simp add: digit_value_def)

lemma decimal_digits: "\<forall>c \<in> set (decimal n). is_digit c"
proof (induction n rule: decimal.induct)
  case (1 n)
  have "is_digit (char_of (48 + n mod 10))" by (simp add: is_digit_def digit_value_char)
  then show ?case using 1 by (subst decimal.simps) (simp add: is_digit_def digit_value_char)
qed

lemma parse_digits_append:
  "parse_digits (a @ b) acc = Option.bind (parse_digits a acc) (parse_digits b)"
  by (induction a arbitrary: acc) (auto split: option.split)

text \<open>Numbers survive being printed and parsed.\<close>

lemma parse_digits_decimal: "n \<le> u64_max \<Longrightarrow> parse_digits (decimal n) 0 = Some n"
proof (induction n rule: decimal.induct)
  case (1 n)
  show ?case
  proof (cases "n < 10")
    case True
    then show ?thesis using 1(2) by (subst decimal.simps) (simp add: digit_value_char)
  next
    case False
    have "digit_value (char_of (48 + n mod 10)) = Some (n mod 10)" by (simp add: digit_value_char)
    then show ?thesis
      using False 1 by (subst decimal.simps) (simp add: parse_digits_append)
  qed
qed

lemma decimal_no_sign: "hd (decimal n) \<noteq> CHR ''+''"
proof -
  have "hd (decimal n) \<in> set (decimal n)" by simp
  then show ?thesis using decimal_digits [of n] by (force simp: is_digit_def digit_value_def)
qed

lemma parse_u64_decimal [simp]: "n \<le> u64_max \<Longrightarrow> parse_u64 (decimal n) = Some n"
  using decimal_no_sign [of n] parse_digits_decimal [of n]
  by (cases "decimal n") (auto simp: parse_u64_def)

lemma parse_digits_le: "parse_digits s acc = Some n \<Longrightarrow> acc \<le> u64_max \<Longrightarrow> n \<le> u64_max"
  by (induction s arbitrary: acc) (auto split: option.splits if_splits)

lemma parse_u64_le: "parse_u64 s = Some n \<Longrightarrow> n \<le> u64_max"
  by (auto simp: parse_u64_def simp del: parse_digits.simps(2) split: list.splits if_splits
      dest: parse_digits_le)

lemma parse_u64_Nil [simp]: "parse_u64 [] = None"
  by (simp add: parse_u64_def)

lemma not_digit: "\<not> is_digit CHR ''-''" "\<not> is_digit CHR '',''" "\<not> is_digit CHR ''/''"
  "\<not> is_digit CHR '' ''" "\<not> is_digit CHR ''*''" "\<not> is_digit CHR ''=''"
  by code_simp+

lemma decimal_not_in: "\<not> is_digit c \<Longrightarrow> c \<notin> set (decimal n)"
  using decimal_digits by blast

lemma split_on_absent: "c \<notin> set xs \<Longrightarrow> split_on c xs = [xs]"
  by (induction xs) auto

lemma split_on_append: "c \<notin> set xs \<Longrightarrow> split_on c (xs @ c # ys) = xs # split_on c ys"
  by (induction xs) auto

lemma split_on_not_empty: "split_on c xs \<noteq> []"
  by (induction xs) (auto split: list.splits)

lemma split_on_prefix: "\<exists>ps. split_on c (xs @ c # ys) = ps @ split_on c ys \<and> ps \<noteq> []"
proof (induction xs)
  case (Cons x xs)
  then obtain ps where ps: "split_on c (xs @ c # ys) = ps @ split_on c ys" "ps \<noteq> []" by auto
  then show ?case
    by (cases "x = c") (auto split: list.splits simp: Cons_eq_append_conv neq_Nil_conv)
qed auto

section \<open>UTF-8 of a text made of texts\<close>

lemma utf8_valid_Nil [simp]: "utf8_valid []"
  by (simp add: utf8_valid.simps)

lemma utf8_valid_ascii: "a < 128 \<Longrightarrow> utf8_valid (a # s) = utf8_valid s"
  by (subst utf8_valid.simps) (simp add: char_width_def Let_def)

lemma utf8_valid_step:
  "s \<noteq> [] \<Longrightarrow> utf8_valid s \<longleftrightarrow>
     (let w = char_width (hd s) in w \<noteq> 0 \<and> w \<le> length s \<and> (2 \<le> w \<longrightarrow> second_byte_ok (hd s) (s ! 1))
        \<and> list_all is_continuation (drop 2 (take w s)) \<and> utf8_valid (drop w s))"
  by (cases s) (simp, subst utf8_valid.simps, simp add: Let_def)

lemma utf8_valid_append: "utf8_valid s \<Longrightarrow> utf8_valid t \<Longrightarrow> utf8_valid (s @ t)"
proof (induction s rule: utf8_valid.induct)
  case (1 s)
  show ?case
  proof (cases s)
    case (Cons a cs)
    then have ne: "s \<noteq> []" "s @ t \<noteq> []" "hd s = a" "hd (s @ t) = a" by simp_all
    let ?w = "char_width a"
    have w: "?w \<noteq> 0" "?w \<le> length s"
      "?w \<ge> 2 \<longrightarrow> second_byte_ok a (s ! 1)" "list_all is_continuation (drop 2 (take ?w s))"
      "utf8_valid (drop ?w s)"
      using "1.prems"(1) unfolding utf8_valid_step [OF ne(1)] ne(3) Let_def by blast+
    have "utf8_valid (drop ?w s @ t)"
      using "1.IH" [OF Cons refl] w "1.prems"(2) by simp
    moreover have "?w \<ge> 2 \<longrightarrow> (s @ t) ! 1 = s ! 1" using w(2) by (auto simp: nth_append)
    ultimately show ?thesis
      using w unfolding utf8_valid_step [OF ne(2)] ne(4) Let_def by simp
  qed (use "1.prems" in simp)
qed

end
