(* ===== verification/Resolver_Health.thy ===== *)
theory Resolver_Health
  imports Ranking Rust_Text
begin

text \<open>
  The health record of the resolver hosts (\<open>resolver_health.rs\<close>) and the host identifiers that key
  it (\<open>resolver_settings.rs\<close>). The tracker keeps at most 128 hosts; it measures the first response
  as a moving average, cools a failing host down with exponential backoff, decides when a host is
  probed again, and orders candidates by health. An \<open>Instant\<close> is the number of nanoseconds of a
  monotonic clock whose seconds are a signed 64 bit number, a \<open>Duration\<close> a number of nanoseconds.
  Strings hold code points below 256. The URL parser is a parameter of the definitions.
\<close>

section \<open>Host identifiers\<close>

text \<open>What the sources read of a parsed URL: the interface of the \<open>url\<close> crate.\<close>

datatype url_host = Domain string | Ipv4 string | Ipv6 string

record parsed_url =
  pu_scheme :: string
  pu_username :: string
  pu_password :: "string option"
  pu_host :: "url_host option"
  pu_port :: "nat option"
  pu_path :: string
  pu_query :: "string option"
  pu_fragment :: "string option"
  pu_origin :: string

type_synonym url_parser = "string \<Rightarrow> parsed_url option"

definition format_host_id :: "string \<Rightarrow> nat option \<Rightarrow> string" where
  "format_host_id host port = (case port of Some p \<Rightarrow> host @ '':'' @ decimal p | None \<Rightarrow> host)"

definition host_id_char_refused :: "char \<Rightarrow> bool" where
  "host_id_char_refused c = (is_whitespace c \<or> is_control c \<or> c \<in> set ''@/?#'' \<or> c = CHR 0x5C)"

definition normalize_resolver_host_id :: "url_parser \<Rightarrow> string \<Rightarrow> string option" where
  "normalize_resolver_host_id parse host_id =
     (if host_id = [] \<or> host_id \<noteq> trim host_id \<or> list_ex host_id_char_refused host_id then None
      else case parse (''https://'' @ host_id @ ''/'') of
        None \<Rightarrow> None
      | Some url \<Rightarrow>
          (case pu_host url of
             Some (Domain host) \<Rightarrow>
               let normalized = format_host_id host (pu_port url) in
               if normalized \<noteq> host_id \<or> pu_port url = Some 0 \<or> pu_path url \<noteq> ''/''
                  \<or> pu_query url \<noteq> None \<or> pu_fragment url \<noteq> None
               then None else Some normalized
           | _ \<Rightarrow> None))"

definition validate_host_id :: "url_parser \<Rightarrow> string \<Rightarrow> string option" where
  "validate_host_id parse host_id = normalize_resolver_host_id parse host_id"

section \<open>State\<close>

definition MAX_HOSTS :: nat where "MAX_HOSTS = 128"

definition RECORD_TTL_SECS :: nat where "RECORD_TTL_SECS = 24 * 60 * 60"

definition BASE_COOLDOWN_SECS :: nat where "BASE_COOLDOWN_SECS = 5"

definition MAX_COOLDOWN_SECS :: nat where "MAX_COOLDOWN_SECS = 5 * 60"

definition EWMA_SAMPLE_LIMIT_MICROS :: nat where "EWMA_SAMPLE_LIMIT_MICROS = 60000000"

definition PROBE_REFRESH_SECS :: nat where "PROBE_REFRESH_SECS = 10 * 60"

lemmas health_consts = MAX_HOSTS_def RECORD_TTL_SECS_def BASE_COOLDOWN_SECS_def
  MAX_COOLDOWN_SECS_def EWMA_SAMPLE_LIMIT_MICROS_def PROBE_REFRESH_SECS_def

datatype probe_failure = Connectivity | Tls | Timeout | Authentication | RegionContent
  | HttpStatus nat

datatype probe_outcome = ProbeSuccess | ProbeTransportFailure

record host_health =
  hh_last_probe :: "nat option"
  hh_last_success :: "nat option"
  hh_last_failure :: "nat option"
  hh_latest_outcome :: "probe_outcome option"
  hh_revalidation_due :: bool
  hh_last_updated :: nat
  hh_first_response_ewma_micros :: "nat option"
  hh_consecutive_connectivity_failures :: nat
  hh_cooldown_until :: "nat option"

type_synonym health_tracker = "(string, host_health) hmap"

text \<open>\<open>Instant::checked_duration_since\<close>, \<open>Duration::as_secs\<close> and \<open>Instant::checked_add\<close>.\<close>

definition checked_duration_since :: "nat \<Rightarrow> nat \<Rightarrow> nat option" where
  "checked_duration_since now t = (if t \<le> now then Some (now - t) else None)"

definition as_secs :: "nat \<Rightarrow> nat" where
  "as_secs d = d div 1000000000"

definition from_secs :: "nat \<Rightarrow> nat" where
  "from_secs n = n * 1000000000"

definition instant_limit :: nat where
  "instant_limit = from_secs 9223372036854775808"

definition instant_checked_add :: "nat \<Rightarrow> nat \<Rightarrow> nat option" where
  "instant_checked_add t d = (if t + d < instant_limit then Some (t + d) else None)"

definition fresh_health :: "nat \<Rightarrow> host_health" where
  "fresh_health now = \<lparr>hh_last_probe = None, hh_last_success = None, hh_last_failure = None,
     hh_latest_outcome = None, hh_revalidation_due = False, hh_last_updated = now,
     hh_first_response_ewma_micros = None, hh_consecutive_connectivity_failures = 0,
     hh_cooldown_until = None\<rparr>"

definition cooling :: "host_health \<Rightarrow> nat \<Rightarrow> bool" where
  "cooling h now = (case hh_cooldown_until h of Some until \<Rightarrow> now < until | None \<Rightarrow> False)"

section \<open>Operations\<close>

definition expire_old :: "nat \<Rightarrow> health_tracker \<Rightarrow> health_tracker" where
  "expire_old now m = hm_retain (\<lambda>_ h.
     case checked_duration_since now (hh_last_updated h) of
       None \<Rightarrow> True | Some age \<Rightarrow> as_secs age < RECORD_TTL_SECS) m"

text \<open>\<open>min_by_key\<close> returns the first of the smallest elements.\<close>

fun min_by_updated :: "(string \<times> host_health) list \<Rightarrow> (string \<times> host_health) option" where
  "min_by_updated [] = None"
| "min_by_updated (p # ps) =
     (case min_by_updated ps of
        None \<Rightarrow> Some p
      | Some q \<Rightarrow> if hh_last_updated (snd q) < hh_last_updated (snd p) then Some q else Some p)"

definition ensure_capacity :: "string \<Rightarrow> health_tracker \<Rightarrow> health_tracker" where
  "ensure_capacity host_id m =
     (if hm_get m host_id \<noteq> None \<or> length m < MAX_HOSTS then m
      else case min_by_updated m of
        Some (oldest, _) \<Rightarrow> hm_remove oldest m
      | None \<Rightarrow> m)"

definition probe_due :: "string \<Rightarrow> nat \<Rightarrow> health_tracker \<Rightarrow> bool \<times> health_tracker" where
  "probe_due host_id now m =
     (let m1 = expire_old now m in
      (case hm_get m1 host_id of
         None \<Rightarrow> True
       | Some h \<Rightarrow>
           if cooling h now then False
           else if hh_revalidation_due h then True
           else (case hh_last_probe h of
                   None \<Rightarrow> True
                 | Some probe \<Rightarrow>
                     (case checked_duration_since now probe of
                        None \<Rightarrow> True
                      | Some age \<Rightarrow> as_secs age \<ge> PROBE_REFRESH_SECS)), m1))"

definition recently_healthy :: "string \<Rightarrow> nat \<Rightarrow> health_tracker \<Rightarrow> bool \<times> health_tracker" where
  "recently_healthy host_id now m =
     (let m1 = expire_old now m in
      (case hm_get m1 host_id of
         None \<Rightarrow> False
       | Some h \<Rightarrow>
           hh_latest_outcome h = Some ProbeSuccess
           \<and> (case hh_last_success h of
                None \<Rightarrow> False
              | Some success \<Rightarrow>
                  (case checked_duration_since now success of
                     None \<Rightarrow> False
                   | Some age \<Rightarrow> as_secs age < PROBE_REFRESH_SECS))
           \<and> (case hh_cooldown_until h of None \<Rightarrow> True | Some until \<Rightarrow> now \<ge> until), m1))"

text \<open>
  The three recording operations look the entry up or create it (\<open>entry\<close> with \<open>or_insert_with\<close>) and
  change it through the reference: \<open>update_entry\<close> takes the change. The flag is the return value.
\<close>

definition update_entry ::
  "string \<Rightarrow> nat \<Rightarrow> (host_health \<Rightarrow> host_health) \<Rightarrow> health_tracker \<Rightarrow> health_tracker" where
  "update_entry host_id now f m =
     (let m1 = ensure_capacity host_id (expire_old now m);
          entry = (case hm_get m1 host_id of Some h \<Rightarrow> h | None \<Rightarrow> fresh_health now)
      in hm_insert host_id (f entry) m1)"

definition note_probe_success :: "nat \<Rightarrow> nat \<Rightarrow> host_health \<Rightarrow> host_health" where
  "note_probe_success now first_response h =
     (let sample = min (first_response div 1000) EWMA_SAMPLE_LIMIT_MICROS in
      h\<lparr>hh_first_response_ewma_micros := Some (case hh_first_response_ewma_micros h of
            Some previous \<Rightarrow> (previous * 7 + sample) div 8
          | None \<Rightarrow> sample),
        hh_last_probe := Some now,
        hh_last_success := Some now,
        hh_latest_outcome := Some ProbeSuccess,
        hh_revalidation_due := False,
        hh_last_updated := now,
        hh_consecutive_connectivity_failures := 0,
        hh_cooldown_until := None\<rparr>)"

definition record_success ::
  "url_parser \<Rightarrow> string \<Rightarrow> nat \<Rightarrow> nat \<Rightarrow> health_tracker \<Rightarrow> bool \<times> health_tracker" where
  "record_success parse host_id now first_response m =
     (case validate_host_id parse host_id of
        None \<Rightarrow> (False, m)
      | Some host_id' \<Rightarrow> (True, update_entry host_id' now (note_probe_success now first_response) m))"

definition cooldown_secs_after :: "nat \<Rightarrow> nat" where
  "cooldown_secs_after failures = min (BASE_COOLDOWN_SECS * 2 ^ min (failures - 1) 6) MAX_COOLDOWN_SECS"

definition note_probe_failure :: "nat \<Rightarrow> host_health \<Rightarrow> host_health" where
  "note_probe_failure now h =
     (let failures = saturating_add32 (hh_consecutive_connectivity_failures h) 1 in
      h\<lparr>hh_last_probe := Some now,
        hh_last_failure := Some now,
        hh_latest_outcome := Some ProbeTransportFailure,
        hh_revalidation_due := True,
        hh_last_updated := now,
        hh_consecutive_connectivity_failures := failures,
        hh_cooldown_until := instant_checked_add now (from_secs (cooldown_secs_after failures))\<rparr>)"

definition record_failure ::
  "url_parser \<Rightarrow> string \<Rightarrow> nat \<Rightarrow> probe_failure \<Rightarrow> health_tracker \<Rightarrow> bool \<times> health_tracker" where
  "record_failure parse host_id now failure m =
     (case validate_host_id parse host_id of
        None \<Rightarrow> (False, m)
      | Some host_id' \<Rightarrow>
          if failure \<noteq> Connectivity \<and> failure \<noteq> Tls \<and> failure \<noteq> Timeout then (False, m)
          else (True, update_entry host_id' now (note_probe_failure now) m))"

definition note_neutral_probe :: "nat \<Rightarrow> host_health \<Rightarrow> host_health" where
  "note_neutral_probe now h =
     h\<lparr>hh_last_probe := Some now, hh_revalidation_due := False, hh_last_updated := now\<rparr>"

definition record_neutral_probe ::
  "url_parser \<Rightarrow> string \<Rightarrow> nat \<Rightarrow> health_tracker \<Rightarrow> bool \<times> health_tracker" where
  "record_neutral_probe parse host_id now m =
     (case validate_host_id parse host_id of
        None \<Rightarrow> (False, m)
      | Some host_id' \<Rightarrow> (True, update_entry host_id' now (note_neutral_probe now) m))"

definition rank_key :: "host_health option \<Rightarrow> nat \<Rightarrow> bool \<times> nat \<times> nat \<times> nat" where
  "rank_key health now =
     (case health of
        Some h \<Rightarrow>
          let success_age = (case hh_last_success h of
                  None \<Rightarrow> u64_max
                | Some t \<Rightarrow> (case checked_duration_since now t of
                      None \<Rightarrow> u64_max | Some age \<Rightarrow> as_secs age));
              quality = (if hh_last_success h \<noteq> None then 0 else 2)
          in (cooling h now, quality, success_age,
              (case hh_first_response_ewma_micros h of Some e \<Rightarrow> e | None \<Rightarrow> u64_max))
      | None \<Rightarrow> (False, 1, u64_max, u64_max))"

text \<open>\<open>Ord::cmp\<close> on the key tuples.\<close>

definition rank_key_cmp :: "bool \<times> nat \<times> nat \<times> nat \<Rightarrow> bool \<times> nat \<times> nat \<times> nat \<Rightarrow> ordering" where
  "rank_key_cmp k l =
     then_with (cmp (fst k) (fst l))
       (then_with (cmp (fst (snd k)) (fst (snd l)))
          (cmp_pair (snd (snd k)) (snd (snd l))))"

definition health_key :: "health_tracker \<Rightarrow> nat \<Rightarrow> string \<Rightarrow> bool \<times> nat \<times> nat \<times> nat" where
  "health_key m now host = rank_key (hm_get m host) now"

definition health_cmp :: "health_tracker \<Rightarrow> nat \<Rightarrow> string \<Rightarrow> string \<Rightarrow> ordering" where
  "health_cmp m now left right =
     rank_key_cmp (health_key m now left) (health_key m now right)"

definition rank_candidates ::
  "string list \<Rightarrow> nat \<Rightarrow> health_tracker \<Rightarrow> string list \<times> health_tracker" where
  "rank_candidates candidates now m =
     (let m1 = expire_old now m in (sort_by (health_cmp m1 now) candidates, m1))"

section \<open>Interfaces\<close>

interpretation rank_keys: comparison rank_key_cmp
  unfolding rank_key_cmp_def
  by (intro comparison_then_with;
      rule comparison_by_key [of cmp, OF natural.comparison_axioms]
        comparison_by_key [of cmp_pair, OF pairs.comparison_axioms])

interpretation health: comparison "health_cmp m now" for m now
  unfolding health_cmp_def by (rule comparison_by_key) (rule rank_keys.comparison_axioms)

text \<open>The tracker as a transition system: one label per operation.\<close>

datatype health_op =
    OpProbeDue string nat
  | OpRecentlyHealthy string nat
  | OpSuccess string nat nat
  | OpFailure string nat probe_failure
  | OpNeutral string nat
  | OpRank "string list" nat

fun health_apply :: "url_parser \<Rightarrow> health_op \<Rightarrow> health_tracker \<Rightarrow> health_tracker" where
  "health_apply parse (OpProbeDue h now) m = snd (probe_due h now m)"
| "health_apply parse (OpRecentlyHealthy h now) m = snd (recently_healthy h now m)"
| "health_apply parse (OpSuccess h now d) m = snd (record_success parse h now d m)"
| "health_apply parse (OpFailure h now f) m = snd (record_failure parse h now f m)"
| "health_apply parse (OpNeutral h now) m = snd (record_neutral_probe parse h now m)"
| "health_apply parse (OpRank cs now) m = snd (rank_candidates cs now m)"

definition health_step :: "url_parser \<Rightarrow> health_tracker \<Rightarrow> health_op \<Rightarrow> health_tracker \<Rightarrow> bool" where
  "health_step parse m l m' \<longleftrightarrow> m' = health_apply parse l m"

definition health_init :: "health_tracker \<Rightarrow> bool" where
  "health_init m \<longleftrightarrow> m = []"

definition health_record_ok :: "host_health \<Rightarrow> bool" where
  "health_record_ok h \<longleftrightarrow>
     (case hh_first_response_ewma_micros h of None \<Rightarrow> True | Some e \<Rightarrow> e \<le> EWMA_SAMPLE_LIMIT_MICROS)
     \<and> hh_consecutive_connectivity_failures h \<le> u32_max
     \<and> (hh_last_success h = None \<longleftrightarrow> hh_first_response_ewma_micros h = None)
     \<and> (case hh_cooldown_until h of
          None \<Rightarrow> True
        | Some until \<Rightarrow> hh_latest_outcome h = Some ProbeTransportFailure
            \<and> 0 < hh_consecutive_connectivity_failures h
            \<and> (\<exists>failed. hh_last_failure h = Some failed \<and> until = failed
                 + from_secs (cooldown_secs_after (hh_consecutive_connectivity_failures h))))"

definition health_inv :: "url_parser \<Rightarrow> health_tracker \<Rightarrow> bool" where
  "health_inv parse m \<longleftrightarrow> hm_wf m \<and> length m \<le> MAX_HOSTS
     \<and> (\<forall>k h. hm_get m k = Some h \<longrightarrow> validate_host_id parse k = Some k \<and> health_record_ok h)"

section \<open>Lemmas\<close>

lemma validate_host_id_same: "validate_host_id parse h = Some h' \<Longrightarrow> h' = h"
  by (auto simp: validate_host_id_def normalize_resolver_host_id_def Let_def
      split: if_splits option.splits url_host.splits)

lemma expire_old_sub:
  "hm_wf m \<Longrightarrow> hm_get (expire_old now m) k = Some h \<Longrightarrow> hm_get m k = Some h"
  unfolding expire_old_def by (rule hm.keep_only [THEN conjunct1])

lemma expire_old_inv: "health_inv parse m \<Longrightarrow> health_inv parse (expire_old now m)"
  unfolding health_inv_def
  by (auto dest: expire_old_sub simp: expire_old_def intro: le_trans [OF hm_length_retain_le])

lemma min_by_updated_mem: "ps \<noteq> [] \<Longrightarrow> \<exists>q. min_by_updated ps = Some q \<and> q \<in> set ps"
  by (induction ps) (fastforce split: option.splits)+

lemma ensure_capacity_room:
  assumes "hm_wf m" "length m \<le> MAX_HOSTS" "hm_get m k = None"
  shows "length (ensure_capacity k m) < MAX_HOSTS"
proof (cases "length m < MAX_HOSTS")
  case False
  then obtain q where q: "min_by_updated m = Some q" "q \<in> set m"
    using min_by_updated_mem [of m] by (force simp: health_consts)
  have "length (hm_remove (fst q) m) < length m"
    using assms(1) q(2) by (intro hm_length_remove) auto
  with False assms q(1) show ?thesis
    by (cases q) (simp add: ensure_capacity_def)
qed (use assms in \<open>simp add: ensure_capacity_def\<close>)

lemma ensure_capacity_sub:
  "hm_wf m \<Longrightarrow> hm_wf (ensure_capacity k m)
     \<and> (\<forall>k' h. hm_get (ensure_capacity k m) k' = Some h \<longrightarrow> hm_get m k' = Some h)"
  by (auto simp: ensure_capacity_def split: option.splits if_splits prod.splits)

lemma ensure_capacity_known: "hm_get m k \<noteq> None \<Longrightarrow> ensure_capacity k m = m"
  by (simp add: ensure_capacity_def)

lemma ensure_capacity_get_same:
  "hm_wf m \<Longrightarrow> hm_get (ensure_capacity k m) k = hm_get m k"
  by (auto simp: ensure_capacity_def split: option.splits prod.splits)

lemma update_entry_inv:
  assumes inv: "health_inv parse m" and valid: "validate_host_id parse k = Some k"
    and f: "\<And>h. health_record_ok h \<Longrightarrow> health_record_ok (f h)"
  shows "health_inv parse (update_entry k now f m)"
proof -
  define m1 where "m1 = expire_old now m"
  define m2 where "m2 = ensure_capacity k m1"
  have m1: "hm_wf m1" "length m1 \<le> MAX_HOSTS"
    "\<And>k h. hm_get m1 k = Some h \<Longrightarrow> validate_host_id parse k = Some k \<and> health_record_ok h"
    using expire_old_inv [OF inv, of now] by (auto simp: health_inv_def m1_def)
  have m2: "hm_wf m2" "\<And>k' h. hm_get m2 k' = Some h \<Longrightarrow> hm_get m1 k' = Some h"
    using ensure_capacity_sub [OF m1(1)] by (auto simp: m2_def)
  have len: "length (hm_insert k v m2) \<le> MAX_HOSTS" for v
  proof (cases "hm_get m1 k")
    case None
    then have "length m2 < MAX_HOSTS" using ensure_capacity_room [OF m1(1,2)] by (simp add: m2_def)
    then show ?thesis by (simp add: hm_length_insert)
  next
    case (Some h)
    then have "m2 = m1" by (simp add: m2_def ensure_capacity_known)
    with Some m1(2) show ?thesis
      using hm_get_None_iff [of m1 k] by (auto simp: hm_length_insert)
  qed
  have "health_record_ok (fresh_health now)"
    by (simp add: health_record_ok_def fresh_health_def)
  then have "health_record_ok (case hm_get m2 k of Some h \<Rightarrow> h | None \<Rightarrow> fresh_health now)"
    using m1(3) m2(2) by (auto split: option.split)
  then have "health_record_ok (f (case hm_get m2 k of Some h \<Rightarrow> h | None \<Rightarrow> fresh_health now))"
    by (rule f)
  moreover have "validate_host_id parse k' = Some k' \<and> health_record_ok h"
    if "hm_get m2 k' = Some h" for k' h
    using m1(3) m2(2) that by blast
  ultimately show ?thesis using len m2(1) valid
    unfolding update_entry_def health_inv_def Let_def m1_def [symmetric] m2_def [symmetric]
    by auto
qed

lemma ewma_bound: "p \<le> L \<Longrightarrow> s \<le> L \<Longrightarrow> (p * 7 + s) div 8 \<le> (L::nat)"
  by simp

lemma note_probe_success_ok: "health_record_ok h \<Longrightarrow> health_record_ok (note_probe_success now d h)"
  by (auto simp: health_record_ok_def note_probe_success_def Let_def ewma_bound split: option.splits)

lemma note_probe_failure_ok: "health_record_ok h \<Longrightarrow> health_record_ok (note_probe_failure now h)"
  by (auto simp: health_record_ok_def note_probe_failure_def Let_def instant_checked_add_def
      saturating_add32_def split: option.splits)

lemma note_neutral_probe_ok: "health_record_ok h \<Longrightarrow> health_record_ok (note_neutral_probe now h)"
  by (auto simp: health_record_ok_def note_neutral_probe_def split: option.splits)

lemma health_apply_inv:
  assumes "health_inv parse m"
  shows "health_inv parse (health_apply parse l m)"
  using assms
  by (cases l)
    (auto simp: probe_due_def recently_healthy_def rank_candidates_def record_success_def
      record_failure_def record_neutral_probe_def Let_def
      split: option.split dest: validate_host_id_same
      intro!: expire_old_inv update_entry_inv note_probe_success_ok note_probe_failure_ok
        note_neutral_probe_ok)

interpretation tracker: step_system health_init "health_step parse" "health_inv parse" for parse
  by unfold_locales
    (auto simp: health_init_def health_step_def health_apply_inv, simp add: health_inv_def)

lemma health_inv_get:
  "health_inv parse m \<Longrightarrow> hm_get m k = Some h \<Longrightarrow> health_record_ok h"
  by (simp add: health_inv_def)

lemma cooldown_secs_after_bounds:
  "BASE_COOLDOWN_SECS \<le> cooldown_secs_after n" "cooldown_secs_after n \<le> MAX_COOLDOWN_SECS"
  by (simp_all add: cooldown_secs_after_def health_consts)

lemma expire_old_keeps:
  "hm_wf m \<Longrightarrow> hm_get m k = Some h \<Longrightarrow> now < hh_last_updated h + from_secs RECORD_TTL_SECS \<Longrightarrow>
    hm_get (expire_old now m) k = Some h"
  unfolding expire_old_def
  by (subst hm.get_keep)
    (auto simp: checked_duration_since_def as_secs_def from_secs_def health_consts
      intro: div_less_iff_less_mult [THEN iffD2] split: option.splits)

lemma update_entry_wf: "hm_wf m \<Longrightarrow> hm_wf (update_entry k now f m)"
  using ensure_capacity_sub [of "expire_old now m" k]
  by (simp add: update_entry_def Let_def expire_old_def)

lemma update_entry_get:
  assumes "hm_wf m"
  shows "hm_get (update_entry k now f m) k =
    Some (f (case hm_get (expire_old now m) k of Some h \<Rightarrow> h | None \<Rightarrow> fresh_health now))"
  using assms ensure_capacity_get_same [of "expire_old now m" k]
  by (simp add: update_entry_def Let_def expire_old_def)

section \<open>Properties\<close>

text \<open>
  In every state the tracker can reach, whatever hosts are reported in whatever order, it
  keeps at most 128 hosts, each under its own valid identifier; a measured average never exceeds
  one minute, the failure counter does not wrap around, and a host that is cooling down does so
  from its last failure for between 5 and 300 seconds, doubling with the number of consecutive
  failures, with a transport failure as its latest outcome.
\<close>

theorem resolver_health_bounded:
  assumes "reachable health_init (health_step parse) m"
  shows "length m \<le> 128 \<and> distinct (map fst m)
    \<and> (\<forall>k h. hm_get m k = Some h \<longrightarrow>
        validate_host_id parse k = Some k
        \<and> (\<forall>e. hh_first_response_ewma_micros h = Some e \<longrightarrow> e \<le> 60000000)
        \<and> hh_consecutive_connectivity_failures h \<le> u32_max
        \<and> (\<forall>until. hh_cooldown_until h = Some until \<longrightarrow>
             hh_latest_outcome h = Some ProbeTransportFailure
             \<and> (\<exists>failed. hh_last_failure h = Some failed
                  \<and> until = failed + from_secs (min (5 * 2 ^ min (hh_consecutive_connectivity_failures h - 1) 6) 300)
                  \<and> failed + from_secs 5 \<le> until \<and> until \<le> failed + from_secs 300)))"
proof -
  have inv: "health_inv parse m" using assms by (rule tracker.reachable_inv)
  have "\<exists>failed. hh_last_failure h = Some failed
      \<and> until = failed + from_secs (min (5 * 2 ^ min (hh_consecutive_connectivity_failures h - 1) 6) 300)
      \<and> failed + from_secs 5 \<le> until \<and> until \<le> failed + from_secs 300"
    if "hm_get m k = Some h" "hh_cooldown_until h = Some until" for k h until
    using health_inv_get [OF inv that(1)] that(2)
      cooldown_secs_after_bounds [of "hh_consecutive_connectivity_failures h"]
    by (auto simp: health_record_ok_def cooldown_secs_after_def health_consts from_secs_def)
  moreover have "hh_latest_outcome h = Some ProbeTransportFailure"
    if "hm_get m k = Some h" "hh_cooldown_until h = Some until" for k h until
    using health_inv_get [OF inv that(1)] that(2) by (simp add: health_record_ok_def)
  moreover have "e \<le> 60000000"
    if "hm_get m k = Some h" "hh_first_response_ewma_micros h = Some e" for k h e
    using health_inv_get [OF inv that(1)] that(2) by (simp add: health_record_ok_def health_consts)
  moreover have "hh_consecutive_connectivity_failures h \<le> u32_max" if "hm_get m k = Some h" for k h
    using health_inv_get [OF inv that] by (simp add: health_record_ok_def)
  ultimately show ?thesis
    using inv by (simp add: health_inv_def hm_wf_def health_consts)
qed

text \<open>
  A reported connection, TLS or timeout failure of a valid host counts one more consecutive
  failure (of the record that has not expired), and until the backoff for that count has passed
  the host is neither probed nor considered healthy, and it is ranked behind every host that is
  not cooling down; once it has passed and while the record lives, the host is due for a probe.
\<close>

theorem failure_backs_off:
  assumes valid: "validate_host_id parse host = Some host" and wf: "hm_wf m"
    and failure: "failure \<in> {Connectivity, Tls, Timeout}"
    and clock: "now + from_secs 300 < instant_limit"
    and m': "(ok, m') = record_failure parse host now failure m"
    and n: "n = (case hm_get (expire_old now m) host of
               Some h \<Rightarrow> saturating_add32 (hh_consecutive_connectivity_failures h) 1 | None \<Rightarrow> 1)"
    and t: "now \<le> t" "t < now + from_secs 86400"
  shows "ok \<and> (fst (probe_due host t m') \<longleftrightarrow> now + from_secs (min (5 * 2 ^ min (n - 1) 6) 300) \<le> t)
    \<and> \<not> fst (recently_healthy host t m')
    \<and> fst (rank_key (hm_get (expire_old t m') host) t) =
        (t < now + from_secs (min (5 * 2 ^ min (n - 1) 6) 300))"
proof -
  define h0 where "h0 = (case hm_get (expire_old now m) host of Some h \<Rightarrow> h | None \<Rightarrow> fresh_health now)"
  have ok: "ok" and m'_eq: "m' = update_entry host now (note_probe_failure now) m"
    using m' valid failure by (auto simp: record_failure_def)
  have get: "hm_get m' host = Some (note_probe_failure now h0)"
    unfolding m'_eq h0_def by (rule update_entry_get [OF wf])
  have "hh_last_updated (note_probe_failure now h0) = now"
    by (simp add: note_probe_failure_def Let_def)
  then have live: "hm_get (expire_old t m') host = Some (note_probe_failure now h0)"
    using update_entry_wf [OF wf] get t(2)
    by (intro expire_old_keeps) (auto simp: m'_eq health_consts)
  have "saturating_add32 (hh_consecutive_connectivity_failures h0) 1 = n"
    by (simp add: h0_def n fresh_health_def saturating_add32_def split: option.split)
  then have until: "hh_cooldown_until (note_probe_failure now h0) =
      Some (now + from_secs (min (5 * 2 ^ min (n - 1) 6) 300))"
    using clock
    by (simp add: note_probe_failure_def Let_def instant_checked_add_def cooldown_secs_after_def
        health_consts from_secs_def min_def)
  have "hh_revalidation_due (note_probe_failure now h0)"
    "hh_latest_outcome (note_probe_failure now h0) = Some ProbeTransportFailure"
    by (simp_all add: note_probe_failure_def Let_def)
  then show ?thesis
    by (auto simp: ok probe_due_def recently_healthy_def rank_key_def Let_def live cooling_def until)
qed

text \<open>
  Ranking reorders the candidates without losing or duplicating one, hosts that are cooling
  down come after all others, hosts that have answered come before hosts never heard of and those
  before hosts that have only failed, then the more recent success and the faster answer decide, and
  candidates with equal keys keep their order.
\<close>

theorem rank_candidates_correct:
  assumes "(ranked, m') = rank_candidates candidates now m"
  shows "mset ranked = mset candidates
    \<and> sorted_wrt (\<lambda>a b. rank_key_cmp (health_key m' now a) (health_key m' now b) \<noteq> Greater) ranked
    \<and> sorted_wrt (\<lambda>a b. fst (health_key m' now a) < fst (health_key m' now b) \<or> (fst (health_key m' now a) = fst (health_key m' now b)
          \<and> fst (snd (health_key m' now a)) \<le> fst (snd (health_key m' now b)))) ranked
    \<and> ranked = filter (\<lambda>c. \<not> fst (health_key m' now c)) ranked @ filter (\<lambda>c. fst (health_key m' now c)) ranked
    \<and> filter (\<lambda>c. health_key m' now c = k) ranked = filter (\<lambda>c. health_key m' now c = k) candidates"
proof -
  have r: "ranked = sort_by (health_cmp m' now) candidates"
    using assms(1) by (simp add: rank_candidates_def Let_def)
  have sorted: "sorted_wrt (\<lambda>a b. health_cmp m' now a b \<noteq> Greater) ranked"
    unfolding r by (rule health.sort_by_sorted)
  have tiers: "sorted_wrt (\<lambda>a b. fst (health_key m' now a) < fst (health_key m' now b) \<or> (fst (health_key m' now a) = fst (health_key m' now b)
          \<and> fst (snd (health_key m' now a)) \<le> fst (snd (health_key m' now b)))) ranked"
    by (rule sorted_wrt_mono_rel [OF _ sorted])
      (auto simp: health_cmp_def rank_key_cmp_def cmp_def split: if_splits)
  have "ranked = filter (\<lambda>c. \<not> fst (health_key m' now c)) ranked @ filter (\<lambda>c. \<not> \<not> fst (health_key m' now c)) ranked"
    unfolding r
    by (rule health.sort_by_prefix) (auto simp: health_cmp_def rank_key_cmp_def cmp_def)
  moreover have "filter (\<lambda>c. health_key m' now c = k) ranked = filter (\<lambda>c. health_key m' now c = k) candidates"
    unfolding r
    by (rule health.sort_by_stable) (simp add: health_cmp_def rank_keys.refl_equal)
  ultimately show ?thesis using tiers sorted [unfolded health_cmp_def] by (simp add: r)
qed

section \<open>Witnesses\<close>

definition demo_parse :: url_parser where
  "demo_parse s =
     (if take 8 s = ''https://'' \<and> last s = CHR ''/'' then
        Some \<lparr>pu_scheme = ''https'', pu_username = [], pu_password = None,
          pu_host = Some (Domain (butlast (drop 8 s))), pu_port = None, pu_path = ''/'',
          pu_query = None, pu_fragment = None, pu_origin = butlast s\<rparr>
      else None)"

lemma demo_valid: "validate_host_id demo_parse ''a.b'' = Some ''a.b''"
  by code_simp

definition demo_tracker :: health_tracker where
  "demo_tracker = snd (record_failure demo_parse ''a.b'' 7000000000 Timeout [])"

lemma demo_tracker_eq:
  "demo_tracker = [(''a.b'', note_probe_failure 7000000000 (fresh_health 7000000000))]"
  by (simp add: demo_tracker_def record_failure_def demo_valid update_entry_def expire_old_def
      hm_retain_def ensure_capacity_def hm_insert_def hm_get_def health_consts)

theorem resolver_health_bounded_witness:
  "length demo_tracker \<le> 128 \<and> reachable health_init (health_step demo_parse) demo_tracker
    \<and> (\<exists>h. hm_get demo_tracker ''a.b'' = Some h \<and> hh_cooldown_until h = Some 12000000000)"
proof -
  have "reachable health_init (health_step demo_parse) demo_tracker"
    by (rule reach_step [where s = "[]" and l = "OpFailure ''a.b'' 7000000000 Timeout"])
      (auto intro: reach_init simp: health_init_def health_step_def demo_tracker_def)
  then show ?thesis
    using resolver_health_bounded [of demo_parse demo_tracker]
    by (simp add: demo_tracker_eq hm_get_def note_probe_failure_def fresh_health_def
        instant_checked_add_def instant_limit_def from_secs_def cooldown_secs_after_def
        health_consts saturating_add32_def)
qed

theorem failure_backs_off_witness:
  "fst (probe_due ''a.b'' 12000000000 demo_tracker) \<and> \<not> fst (probe_due ''a.b'' 11999999999 demo_tracker)"
  using failure_backs_off [OF demo_valid hm_wf_empty, of Timeout 7000000000 True demo_tracker 1 12000000000]
    failure_backs_off [OF demo_valid hm_wf_empty, of Timeout 7000000000 True demo_tracker 1 11999999999]
  by (simp add: demo_tracker_def record_failure_def demo_valid expire_old_def hm_retain_def
      instant_limit_def from_secs_def)

theorem rank_candidates_correct_witness:
  "mset (fst (rank_candidates [''a.b'', ''c.d''] 8000000000 demo_tracker)) = {#''a.b'', ''c.d''#}
    \<and> fst (rank_candidates [''a.b'', ''c.d''] 8000000000 demo_tracker) = [''c.d'', ''a.b'']"
  using rank_candidates_correct [OF prod.collapse, of "[''a.b'', ''c.d'']" 8000000000 demo_tracker]
  by (simp add: rank_candidates_def Let_def demo_tracker_eq expire_old_def hm_retain_def
      checked_duration_since_def as_secs_def health_consts note_probe_failure_def fresh_health_def
      instant_checked_add_def instant_limit_def from_secs_def cooldown_secs_after_def
      saturating_add32_def health_cmp_def health_key_def hm_get_def rank_key_def rank_key_cmp_def
      cmp_def cooling_def)

end
