(* ===== verification/Cdn_History.thy ===== *)
theory Cdn_History
  imports Resolver_Health Range_Manifest "HOL-Library.Char_ord" "HOL-Library.List_Lexorder" "HOL-Library.Sublist"
begin

text \<open>
  The history of the content delivery hosts (\<open>cdn_history.rs\<close>): what was observed of an origin in
  general and of an origin for one media representation, how the candidate addresses of a media
  request are ranked from it, how range requests rotate over up to three origins, and what is
  dropped when a record expires, the tables are full or a stored file is loaded. Times are seconds
  (\<open>u64\<close>), durations nanoseconds, strings byte sequences. Parameters: the URL parser, and the SHA-256
  function on byte lists. The file system, the JSON encoding and the background writer are left
  out.
\<close>

section \<open>Constants and records\<close>

definition CDN_VERSION :: nat where "CDN_VERSION = 1"

definition HOST_TTL_SECS :: nat where "HOST_TTL_SECS = 24 * 60 * 60"

definition REPRESENTATION_TTL_SECS :: nat where "REPRESENTATION_TTL_SECS = 6 * 60 * 60"

definition CDN_BASE_COOLDOWN_SECS :: nat where "CDN_BASE_COOLDOWN_SECS = 10"

definition CDN_MAX_COOLDOWN_SECS :: nat where "CDN_MAX_COOLDOWN_SECS = 10 * 60"

definition CDN_MAX_HOSTS :: nat where "CDN_MAX_HOSTS = 256"

definition MAX_REPRESENTATIONS :: nat where "MAX_REPRESENTATIONS = 512"

definition MAX_ORIGINS_PER_REPRESENTATION :: nat where "MAX_ORIGINS_PER_REPRESENTATION = 3"

definition MAX_CANDIDATES :: nat where "MAX_CANDIDATES = 32"

definition MAX_CONTENT_ID_BYTES :: nat where "MAX_CONTENT_ID_BYTES = 256"

definition MAX_CODEC_BYTES :: nat where "MAX_CODEC_BYTES = 128"

lemmas cdn_consts = CDN_VERSION_def HOST_TTL_SECS_def REPRESENTATION_TTL_SECS_def
  CDN_BASE_COOLDOWN_SECS_def CDN_MAX_COOLDOWN_SECS_def CDN_MAX_HOSTS_def MAX_REPRESENTATIONS_def
  MAX_ORIGINS_PER_REPRESENTATION_def MAX_CANDIDATES_def MAX_CONTENT_ID_BYTES_def MAX_CODEC_BYTES_def

datatype media_request_kind = Video | Audio | FlvSegment

record media_cache_key =
  mk_content_id :: string
  mk_media_kind :: media_request_kind
  mk_stream_id :: "nat option"
  mk_codecs :: "string option"
  mk_source_hash :: string

text \<open>The fields of \<open>BilibiliMediaRequest\<close> that the history reads.\<close>

record media_request =
  mr_kind :: media_request_kind
  mr_stream_id :: "nat option"
  mr_url :: string
  mr_backup_urls :: "string list"
  mr_codecs :: "string option"
  mr_bandwidth :: "nat option"
  mr_width :: "nat option"
  mr_height :: "nat option"
  mr_size :: "nat option"
  mr_duration_seconds :: "nat option"
  mr_cache_key :: media_cache_key

datatype health_event = HealthSuccess | HealthTransportFailure

record host_record =
  hr_updated_at :: nat
  hr_event_sequence :: nat
  hr_latest :: health_event
  hr_failures :: nat
  hr_cooldown_until :: "nat option"
  hr_throughput_bps :: "nat option"
  hr_latency_micros :: "nat option"
  hr_range_supported :: "bool option"

record representation_record =
  rp_digest :: string
  rp_origin :: string
  rp_updated_at :: nat
  rp_event_sequence :: nat
  rp_latest :: health_event
  rp_failures :: nat
  rp_cooldown_until :: "nat option"
  rp_quarantined_until :: "nat option"
  rp_throughput_bps :: "nat option"
  rp_latency_micros :: "nat option"
  rp_range_supported :: "bool option"

record history_state =
  hs_version :: nat
  hs_sequence :: nat
  hs_hosts :: "(string, host_record) hmap"
  hs_representations :: "(string, representation_record) hmap"

definition history_default :: history_state where
  "history_default = \<lparr>hs_version = CDN_VERSION, hs_sequence = 0, hs_hosts = [], hs_representations = []\<rparr>"

datatype observation_source = PlaybackSource | ProbeSource | DownloadShard

datatype observation_outcome = Complete | Partial | Cancelled | ConnectionFailure | TimeoutFailure
  | ServerFailure | SourceUnavailable | IntegrityMismatch

record cdn_observation =
  ob_source :: observation_source
  ob_outcome :: observation_outcome
  ob_bytes :: nat
  ob_elapsed :: "nat option"
  ob_first_byte_latency :: "nat option"
  ob_range_supported :: "bool option"

definition observation_new :: "observation_source \<Rightarrow> observation_outcome \<Rightarrow> nat \<Rightarrow> cdn_observation" where
  "observation_new source outcome bytes =
     \<lparr>ob_source = source, ob_outcome = outcome, ob_bytes = bytes, ob_elapsed = None,
      ob_first_byte_latency = None, ob_range_supported = None\<rparr>"

definition download_shard :: "nat \<Rightarrow> cdn_observation" where
  "download_shard bytes = observation_new DownloadShard Complete bytes"

section \<open>Identifiers\<close>

fun dedup_from :: "string set \<Rightarrow> string list \<Rightarrow> string list" where
  "dedup_from seen [] = []"
| "dedup_from seen (u # us) =
     (if u \<in> seen then dedup_from seen us else u # dedup_from (insert u seen) us)"

definition request_candidates :: "media_request \<Rightarrow> string list" where
  "request_candidates r = dedup_from {} (mr_url r # mr_backup_urls r)"

definition canonical_origin :: "url_parser \<Rightarrow> string \<Rightarrow> string option" where
  "canonical_origin parse v =
     (if length v > 16 * 1024 then None
      else case parse v of
        None \<Rightarrow> None
      | Some url \<Rightarrow>
          if (pu_scheme url \<noteq> ''http'' \<and> pu_scheme url \<noteq> ''https'') \<or> pu_host url = None
             \<or> pu_username url \<noteq> [] \<or> pu_password url \<noteq> None
          then None else Some (pu_origin url))"

definition representation_map_key :: "string \<Rightarrow> string \<Rightarrow> string" where
  "representation_map_key digest origin = digest @ ''|'' @ origin"

fun to_be_bytes :: "nat \<Rightarrow> nat \<Rightarrow> nat list" where
  "to_be_bytes 0 v = []"
| "to_be_bytes (Suc k) v = to_be_bytes k (v div 256) @ [v mod 256]"

definition as_bytes :: "string \<Rightarrow> nat list" where
  "as_bytes s = map of_char s"

definition hash_field :: "nat list \<Rightarrow> nat list" where
  "hash_field v = to_be_bytes 8 (length v) @ v"

definition hash_optional_string :: "string option \<Rightarrow> nat list" where
  "hash_optional_string v = (case v of Some s \<Rightarrow> [1] @ hash_field (as_bytes s) | None \<Rightarrow> [0])"

definition hash_optional_u32 :: "nat option \<Rightarrow> nat list" where
  "hash_optional_u32 v = (case v of Some n \<Rightarrow> [1] @ hash_field (to_be_bytes 4 n) | None \<Rightarrow> [0])"

definition hash_optional_u64 :: "nat option \<Rightarrow> nat list" where
  "hash_optional_u64 v = (case v of Some n \<Rightarrow> [1] @ hash_field (to_be_bytes 8 n) | None \<Rightarrow> [0])"

text \<open>The \<open>Debug\<close> form of the request kind.\<close>

fun kind_debug :: "media_request_kind \<Rightarrow> string" where
  "kind_debug Video = ''Video''"
| "kind_debug Audio = ''Audio''"
| "kind_debug FlvSegment = ''FlvSegment''"

text \<open>The bytes that \<open>representation_digest\<close> feeds to the hash, in order.\<close>

definition digest_input :: "media_request \<Rightarrow> nat list" where
  "digest_input r =
     hash_field (as_bytes (mk_content_id (mr_cache_key r)))
     @ hash_field (as_bytes (kind_debug (mk_media_kind (mr_cache_key r))))
     @ hash_optional_u32 (mr_stream_id r)
     @ hash_optional_string (mr_codecs r)
     @ hash_optional_u32 (mr_width r)
     @ hash_optional_u32 (mr_height r)
     @ hash_optional_u64 (mr_size r)
     @ hash_optional_u64 (mr_bandwidth r)
     @ hash_optional_u32 (mr_duration_seconds r)"

definition hex_char :: "nat \<Rightarrow> char" where
  "hex_char n = ''0123456789abcdef'' ! n"

definition hex_digest :: "nat list \<Rightarrow> string" where
  "hex_digest bytes = concat (map (\<lambda>b. [hex_char (b div 16), hex_char (b mod 16)]) bytes)"

definition representation_digest :: "(nat list \<Rightarrow> nat list) \<Rightarrow> media_request \<Rightarrow> string option" where
  "representation_digest sha256 r =
     (if mr_kind r = FlvSegment
         \<or> length (mk_content_id (mr_cache_key r)) > MAX_CONTENT_ID_BYTES
         \<or> mk_content_id (mr_cache_key r) = []
         \<or> (case mr_codecs r of Some v \<Rightarrow> length v > MAX_CODEC_BYTES | None \<Rightarrow> False)
      then None
      else Some (hex_digest (sha256 (digest_input r))))"

section \<open>Recording observations\<close>

definition ewma :: "nat option \<Rightarrow> nat \<Rightarrow> nat" where
  "ewma previous sample = (case previous of None \<Rightarrow> sample | Some old \<Rightarrow> (old * 3 + sample) div 4)"

definition cdn_cooldown_secs :: "nat \<Rightarrow> nat" where
  "cdn_cooldown_secs failures =
     min (saturating_mul CDN_BASE_COOLDOWN_SECS (2 ^ min (failures - 1) 6)) CDN_MAX_COOLDOWN_SECS"

definition update_metrics ::
  "cdn_observation \<Rightarrow> nat option \<times> nat option \<times> bool option \<Rightarrow> nat option \<times> nat option \<times> bool option" where
  "update_metrics ob m =
     (let (throughput, latency, range_supported) = m;
          throughput' = (if ob_source ob = DownloadShard then throughput
             else case ob_elapsed ob of
               None \<Rightarrow> throughput
             | Some elapsed \<Rightarrow>
                 if elapsed = 0 then throughput
                 else Some (ewma throughput
                        (min (ob_bytes ob * 8 * 1000000 div max (elapsed div 1000) 1) u64_max)));
          latency' = (if ob_source ob = DownloadShard then latency
             else case ob_first_byte_latency ob of
               None \<Rightarrow> latency
             | Some first_byte \<Rightarrow> Some (ewma latency (min (first_byte div 1000) u64_max)));
          range_supported' = (case ob_range_supported ob of
               Some supported \<Rightarrow> Some supported | None \<Rightarrow> range_supported)
      in (throughput', latency', range_supported'))"

definition update_host :: "cdn_observation \<Rightarrow> nat \<Rightarrow> nat \<Rightarrow> bool \<Rightarrow> host_record \<Rightarrow> host_record" where
  "update_host ob now seq failure e0 =
     (let e = e0\<lparr>hr_updated_at := now, hr_event_sequence := seq\<rparr> in
      if failure then
        let failures = saturating_add32 (hr_failures e) 1 in
        e\<lparr>hr_latest := HealthTransportFailure, hr_failures := failures,
          hr_cooldown_until := Some (saturating_add now (cdn_cooldown_secs failures)),
          hr_throughput_bps := None, hr_latency_micros := None, hr_range_supported := None\<rparr>
      else
        let (t, l, r) = update_metrics ob (hr_throughput_bps e, hr_latency_micros e, hr_range_supported e) in
        e\<lparr>hr_latest := HealthSuccess, hr_failures := 0, hr_cooldown_until := None,
          hr_throughput_bps := t, hr_latency_micros := l, hr_range_supported := r\<rparr>)"

definition update_representation ::
  "cdn_observation \<Rightarrow> nat \<Rightarrow> nat \<Rightarrow> bool \<Rightarrow> bool \<Rightarrow> representation_record \<Rightarrow> representation_record" where
  "update_representation ob now seq failure integrity_mismatch e0 =
     (let e = e0\<lparr>rp_updated_at := now, rp_event_sequence := seq\<rparr> in
      if integrity_mismatch then
        e\<lparr>rp_quarantined_until := Some (saturating_add now REPRESENTATION_TTL_SECS),
          rp_latest := HealthTransportFailure,
          rp_throughput_bps := None, rp_latency_micros := None, rp_range_supported := None\<rparr>
      else if failure then
        let failures = saturating_add32 (rp_failures e) 1 in
        e\<lparr>rp_latest := HealthTransportFailure, rp_failures := failures,
          rp_cooldown_until := Some (saturating_add now (cdn_cooldown_secs failures)),
          rp_throughput_bps := None, rp_latency_micros := None, rp_range_supported := None\<rparr>
      else if ob_outcome ob \<noteq> Complete then e
      else
        let (t, l, r) = update_metrics ob (rp_throughput_bps e, rp_latency_micros e, rp_range_supported e) in
        e\<lparr>rp_latest := HealthSuccess, rp_failures := 0, rp_cooldown_until := None,
          rp_quarantined_until := None,
          rp_throughput_bps := t, rp_latency_micros := l, rp_range_supported := r\<rparr>)"

text \<open>\<open>sort_by_key\<close> with \<open>Reverse((updated_at, event_sequence))\<close>.\<close>

definition newest_first ::
  "string \<times> representation_record \<Rightarrow> string \<times> representation_record \<Rightarrow> ordering" where
  "newest_first a b =
     cmp_pair (rp_updated_at (snd b), rp_event_sequence (snd b))
              (rp_updated_at (snd a), rp_event_sequence (snd a))"

definition prune_representation_top_k :: "string \<Rightarrow> history_state \<Rightarrow> history_state" where
  "prune_representation_top_k digest st =
     (let entries = filter (\<lambda>(_, rec). rp_digest rec = digest) (hs_representations st);
          sorted_entries = sort_by newest_first entries
      in st\<lparr>hs_representations :=
            remove_keys (map fst (drop MAX_ORIGINS_PER_REPRESENTATION sorted_entries)) (hs_representations st)\<rparr>)"

definition prune_oldest :: "('v \<Rightarrow> nat) \<Rightarrow> nat \<Rightarrow> (string, 'v) hmap \<Rightarrow> (string, 'v) hmap" where
  "prune_oldest updated limit m =
     (if length m > limit then
        let oldest = sort_by (\<lambda>a b. cmp (updated (snd a)) (updated (snd b))) m
        in remove_keys (map fst (take (length m - limit) oldest)) m
      else m)"

definition prune :: "nat \<Rightarrow> history_state \<Rightarrow> history_state" where
  "prune now st =
     (let hosts = hm_retain (\<lambda>_ r. now - hr_updated_at r < HOST_TTL_SECS) (hs_hosts st);
          reps = hm_retain (\<lambda>_ r. now - rp_updated_at r < REPRESENTATION_TTL_SECS) (hs_representations st)
      in st\<lparr>hs_hosts := prune_oldest hr_updated_at CDN_MAX_HOSTS hosts,
            hs_representations := prune_oldest rp_updated_at MAX_REPRESENTATIONS reps\<rparr>)"

definition fresh_host :: "nat \<Rightarrow> nat \<Rightarrow> bool \<Rightarrow> host_record" where
  "fresh_host now sequence completed =
     \<lparr>hr_updated_at = now, hr_event_sequence = sequence,
      hr_latest = (if completed then HealthSuccess else HealthTransportFailure),
      hr_failures = 0, hr_cooldown_until = None, hr_throughput_bps = None,
      hr_latency_micros = None, hr_range_supported = None\<rparr>"

definition fresh_representation :: "string \<Rightarrow> string \<Rightarrow> nat \<Rightarrow> nat \<Rightarrow> bool \<Rightarrow> representation_record" where
  "fresh_representation digest origin now sequence failed =
     \<lparr>rp_digest = digest, rp_origin = origin, rp_updated_at = now, rp_event_sequence = sequence,
      rp_latest = (if failed then HealthTransportFailure else HealthSuccess),
      rp_failures = 0, rp_cooldown_until = None, rp_quarantined_until = None,
      rp_throughput_bps = None, rp_latency_micros = None, rp_range_supported = None\<rparr>"

definition record_host :: "cdn_observation \<Rightarrow> string \<Rightarrow> nat \<Rightarrow> bool \<Rightarrow> bool \<Rightarrow> history_state \<Rightarrow> history_state" where
  "record_host ob origin now transport_failure completed st =
     (if transport_failure \<or> completed then
        let entry = (case hm_get (hs_hosts st) origin of
                Some e \<Rightarrow> e | None \<Rightarrow> fresh_host now (hs_sequence st) completed)
        in st\<lparr>hs_hosts := bt_insert origin
              (update_host ob now (hs_sequence st) transport_failure entry) (hs_hosts st)\<rparr>
      else st)"

definition record_representation ::
  "cdn_observation \<Rightarrow> string \<Rightarrow> string option \<Rightarrow> nat \<Rightarrow> bool \<Rightarrow> bool \<Rightarrow> bool \<Rightarrow> history_state \<Rightarrow> history_state" where
  "record_representation ob origin digest now transport_failure completed mismatch st =
     (case digest of
        None \<Rightarrow> st
      | Some d \<Rightarrow>
          if completed \<or> transport_failure \<or> mismatch then
            let k = representation_map_key d origin;
                entry = (case hm_get (hs_representations st) k of
                  Some e \<Rightarrow> e
                | None \<Rightarrow> fresh_representation d origin now (hs_sequence st) (transport_failure \<or> mismatch));
                st1 = st\<lparr>hs_representations := bt_insert k
                  (update_representation ob now (hs_sequence st) transport_failure mismatch entry)
                  (hs_representations st)\<rparr>
            in prune_representation_top_k d st1
          else st)"

definition is_transport_failure :: "observation_outcome \<Rightarrow> bool" where
  "is_transport_failure outcome =
     (outcome = ConnectionFailure \<or> outcome = TimeoutFailure \<or> outcome = ServerFailure)"

definition record_at ::
  "url_parser \<Rightarrow> string \<Rightarrow> cdn_observation \<Rightarrow> string option \<Rightarrow> nat \<Rightarrow> history_state \<Rightarrow> history_state" where
  "record_at parse url ob digest now st =
     (case canonical_origin parse url of
        None \<Rightarrow> st
      | Some origin \<Rightarrow>
          let st1 = prune now st;
              st2 = st1\<lparr>hs_sequence := saturating_add (hs_sequence st1) 1\<rparr>;
              transport_failure = is_transport_failure (ob_outcome ob);
              completed = (ob_outcome ob = Complete);
              integrity_mismatch = (ob_outcome ob = IntegrityMismatch);
              st3 = record_host ob origin now transport_failure completed st2;
              st4 = record_representation ob origin digest now transport_failure completed integrity_mismatch st3
          in prune now st4)"

definition record_request_at ::
  "url_parser \<Rightarrow> (nat list \<Rightarrow> nat list) \<Rightarrow> media_request \<Rightarrow> string \<Rightarrow> cdn_observation \<Rightarrow> nat
     \<Rightarrow> history_state \<Rightarrow> history_state" where
  "record_request_at parse sha256 r url ob now st =
     record_at parse url ob (representation_digest sha256 r) now st"

definition record_origin_at ::
  "url_parser \<Rightarrow> string \<Rightarrow> cdn_observation \<Rightarrow> nat \<Rightarrow> history_state \<Rightarrow> history_state" where
  "record_origin_at parse url ob now st = record_at parse url ob None now st"

section \<open>Ranking\<close>

definition active :: "nat \<Rightarrow> nat option \<Rightarrow> bool" where
  "active now limit = (case limit of Some until \<Rightarrow> now < until | None \<Rightarrow> False)"

definition host_of :: "url_parser \<Rightarrow> history_state \<Rightarrow> string \<Rightarrow> host_record option" where
  "host_of parse st url = Option.bind (canonical_origin parse url) (hm_get (hs_hosts st))"

definition rep_of ::
  "url_parser \<Rightarrow> history_state \<Rightarrow> string option \<Rightarrow> string \<Rightarrow> representation_record option" where
  "rep_of parse st digest url =
     Option.bind digest (\<lambda>d. Option.bind (canonical_origin parse url)
       (\<lambda>origin. hm_get (hs_representations st) (representation_map_key d origin)))"

record ranked_candidate =
  rc_tier :: nat
  rc_throughput :: "nat option"
  rc_latency :: "nat option"
  rc_recent :: "nat \<times> nat"
  rc_index :: nat
  rc_url :: string

definition rep_success :: "representation_record \<Rightarrow> bool" where
  "rep_success r = (rp_latest r = HealthSuccess)"

definition host_success :: "host_record \<Rightarrow> bool" where
  "host_success r = (hr_latest r = HealthSuccess)"

definition opt_is :: "('a \<Rightarrow> bool) \<Rightarrow> 'a option \<Rightarrow> bool" where
  "opt_is P v = (case v of Some x \<Rightarrow> P x | None \<Rightarrow> False)"

text \<open>The closure of \<open>map\<close> in \<open>rank_request_at\<close>.\<close>

definition rank_candidate ::
  "url_parser \<Rightarrow> history_state \<Rightarrow> string option \<Rightarrow> nat \<Rightarrow> nat \<times> string \<Rightarrow> ranked_candidate" where
  "rank_candidate parse st digest now c =
     (let (index, url) = c;
          rep = rep_of parse st digest url;
          host = host_of parse st url;
          quarantine = active now (Option.bind rep rp_quarantined_until);
          cooldown = (active now (Option.bind rep rp_cooldown_until)
                      \<or> active now (Option.bind host hr_cooldown_until));
          host_failed = opt_is (\<lambda>e. \<not> host_success e) host;
          known_healthy =
            (opt_is (\<lambda>e. rep_success e \<and> \<not> host_failed \<and> \<not> cooldown \<and> \<not> quarantine) rep
             \<or> (rep = None \<and> \<not> host_failed \<and> opt_is (\<lambda>e. host_success e \<and> \<not> cooldown) host));
          tier = (if quarantine \<or> cooldown then 2 else if known_healthy then 0 else 1);
          rep_metrics = Option.bind rep (\<lambda>e. if rep_success e \<and> \<not> host_failed
             then Some (rp_throughput_bps e, rp_latency_micros e) else None);
          host_metrics = Option.bind host (\<lambda>e. if host_success e \<and> \<not> host_failed
             then Some (hr_throughput_bps e, hr_latency_micros e) else None);
          (throughput, latency) = (case rep_metrics of
             Some m \<Rightarrow> m
           | None \<Rightarrow> (case host_metrics of Some m \<Rightarrow> m | None \<Rightarrow> (None, None)));
          recent = (case rep of
             Some e \<Rightarrow> if rep_success e \<and> \<not> host_failed \<and> \<not> cooldown \<and> \<not> quarantine
               then (rp_updated_at e, rp_event_sequence e) else (0, 0)
           | None \<Rightarrow> (0, 0))
      in \<lparr>rc_tier = tier, rc_throughput = throughput, rc_latency = latency, rc_recent = recent,
          rc_index = index, rc_url = url\<rparr>)"

text \<open>\<open>tap_sort\<close>: a known value comes before an unknown one.\<close>

fun cmp_known :: "(nat \<Rightarrow> nat \<Rightarrow> ordering) \<Rightarrow> nat option \<Rightarrow> nat option \<Rightarrow> ordering" where
  "cmp_known c (Some a) (Some b) = c a b"
| "cmp_known c (Some _) None = Less"
| "cmp_known c None (Some _) = Greater"
| "cmp_known c None None = Equal"

definition candidate_cmp :: "ranked_candidate \<Rightarrow> ranked_candidate \<Rightarrow> ordering" where
  "candidate_cmp l r =
     then_with (cmp (rc_tier l) (rc_tier r))
       (then_with (cmp_known (\<lambda>a b. cmp b a) (rc_throughput l) (rc_throughput r))
          (then_with (cmp_known cmp (rc_latency l) (rc_latency r))
             (then_with (cmp_pair (rc_recent r) (rc_recent l))
                (cmp (rc_index l) (rc_index r)))))"

definition tap_sort :: "ranked_candidate list \<Rightarrow> string list" where
  "tap_sort cs = map rc_url (sort_by candidate_cmp cs)"

definition rank_prefix ::
  "url_parser \<Rightarrow> history_state \<Rightarrow> string option \<Rightarrow> nat \<Rightarrow> string list \<Rightarrow> ranked_candidate list" where
  "rank_prefix parse st digest now urls = map (rank_candidate parse st digest now) (enumerate 0 urls)"

definition rank_request_at ::
  "url_parser \<Rightarrow> (nat list \<Rightarrow> nat list) \<Rightarrow> media_request \<Rightarrow> nat \<Rightarrow> history_state
     \<Rightarrow> string list \<times> history_state" where
  "rank_request_at parse sha256 r now st =
     (let candidates = request_candidates r;
          digest = representation_digest sha256 r;
          st1 = prune now st;
          bounded_prefix = take MAX_CANDIDATES candidates;
          unchanged_tail = drop MAX_CANDIDATES candidates
      in (tap_sort (rank_prefix parse st1 digest now bounded_prefix) @ unchanged_tail, st1))"

definition range_blocked :: "url_parser \<Rightarrow> history_state \<Rightarrow> string option \<Rightarrow> nat \<Rightarrow> string \<Rightarrow> bool" where
  "range_blocked parse st digest now url =
     (let host = host_of parse st url; rep = rep_of parse st digest url in
      active now (Option.bind host hr_cooldown_until)
      \<or> active now (Option.bind rep rp_cooldown_until)
      \<or> active now (Option.bind rep rp_quarantined_until)
      \<or> opt_is (\<lambda>e. hr_range_supported e = Some False) host
      \<or> opt_is (\<lambda>e. rp_range_supported e = Some False) rep)"

text \<open>The loop of \<open>rank_request_for_range_at\<close> over the first 32 ranked addresses.\<close>

fun select_origins ::
  "url_parser \<Rightarrow> history_state \<Rightarrow> string option \<Rightarrow> nat \<Rightarrow> (nat \<times> string) list \<Rightarrow> string set \<Rightarrow> nat list \<Rightarrow> nat list" where
  "select_origins parse st digest now [] origins selected = selected"
| "select_origins parse st digest now ((index, url) # rest) origins selected =
     (case canonical_origin parse url of
        None \<Rightarrow> select_origins parse st digest now rest origins selected
      | Some origin \<Rightarrow>
          if \<not> range_blocked parse st digest now url \<and> origin \<notin> origins then
            let selected' = selected @ [index] in
            if length selected' = MAX_ORIGINS_PER_REPRESENTATION then selected'
            else select_origins parse st digest now rest (insert origin origins) selected'
          else select_origins parse st digest now rest origins selected)"

definition rotate_ranked :: "nat \<Rightarrow> nat list \<Rightarrow> string list \<Rightarrow> string list" where
  "rotate_ranked chunk_index selected ranked =
     (if length selected < 2 then ranked
      else
        let rotation = chunk_index mod length selected in
        map (\<lambda>offset. ranked ! (selected ! ((rotation + offset) mod length selected))) [0..<length selected]
        @ map snd (filter (\<lambda>(index, _). index \<notin> set selected) (enumerate 0 ranked)))"

text \<open>
  The ranking and the selection are two critical sections: \<open>between\<close> is what other threads do to the
  state after the first has released the lock.
\<close>

definition rank_request_for_range_at ::
  "url_parser \<Rightarrow> (nat list \<Rightarrow> nat list) \<Rightarrow> (history_state \<Rightarrow> history_state) \<Rightarrow> media_request \<Rightarrow> nat \<Rightarrow> nat
     \<Rightarrow> history_state \<Rightarrow> string list \<times> history_state" where
  "rank_request_for_range_at parse sha256 between r chunk_index now st =
     (let (ranked, st1) = rank_request_at parse sha256 r now st;
          digest = representation_digest sha256 r;
          st2 = prune now (between st1);
          selected = select_origins parse st2 digest now (enumerate 0 (take MAX_CANDIDATES ranked)) {} []
      in (rotate_ranked chunk_index selected ranked, st2))"

section \<open>Loading\<close>

definition cooldown_plausible :: "nat option \<Rightarrow> nat \<Rightarrow> nat \<Rightarrow> bool" where
  "cooldown_plausible limit updated_at ttl =
     (case limit of None \<Rightarrow> True | Some v \<Rightarrow> v \<le> saturating_add updated_at ttl)"

definition prune_digests :: "string list \<Rightarrow> history_state \<Rightarrow> history_state" where
  "prune_digests digests st = fold prune_representation_top_k digests st"

text \<open>
  The set of digests is iterated in an order that Rust leaves open; \<open>order\<close> is a list of its elements.
\<close>

definition validate_loaded_state ::
  "url_parser \<Rightarrow> (string set \<Rightarrow> string list) \<Rightarrow> history_state \<Rightarrow> history_state" where
  "validate_loaded_state parse order st =
     (let st1 = st\<lparr>hs_hosts := hm_retain (\<lambda>origin r.
            canonical_origin parse origin = Some origin
            \<and> cooldown_plausible (hr_cooldown_until r) (hr_updated_at r) CDN_MAX_COOLDOWN_SECS) (hs_hosts st),
          hs_representations := hm_retain (\<lambda>k r.
            k = representation_map_key (rp_digest r) (rp_origin r)
            \<and> length (rp_digest r) = 64 \<and> list_all is_ascii_hexdigit (rp_digest r)
            \<and> canonical_origin parse (rp_origin r) = Some (rp_origin r)
            \<and> cooldown_plausible (rp_cooldown_until r) (rp_updated_at r) CDN_MAX_COOLDOWN_SECS
            \<and> cooldown_plausible (rp_quarantined_until r) (rp_updated_at r) REPRESENTATION_TTL_SECS)
            (hs_representations st)\<rparr>;
          digests = order (rp_digest ` set (hm_values (hs_representations st1)));
          st2 = prune_digests digests st1
      in st2\<lparr>hs_hosts := hm_retain (\<lambda>origin r. length origin \<le> 512 \<and> hr_failures r \<le> 1000000) (hs_hosts st2)\<rparr>)"

section \<open>Comparisons of the component\<close>

lemma comparison_known:
  assumes "comparison c"
  shows "comparison (cmp_known c)"
proof
  fix x y :: "nat option"
  show "cmp_known c y x = reverse_ordering (cmp_known c x y)"
    using comparison.swap [OF assms, of "the y" "the x"] by (cases x; cases y) auto
next
  fix x y z :: "nat option"
  assume "cmp_known c x y \<noteq> Greater" "cmp_known c y z \<noteq> Greater"
  then show "cmp_known c x z \<noteq> Greater"
    using comparison.not_greater_trans [OF assms, of "the x" "the y" "the z"]
    by (cases x; cases y; cases z) auto
qed

lemmas by_cmp = comparison_by_key [of cmp, OF natural.comparison_axioms]

lemma by_throughput: "comparison (\<lambda>l r. cmp_known (\<lambda>a b. cmp b a) (rc_throughput l) (rc_throughput r))"
  by (rule comparison_by_key [of "cmp_known (\<lambda>a b. cmp b a)"], rule comparison_known,
      rule comparison_reversed [of cmp], rule natural.comparison_axioms)

lemma by_latency: "comparison (\<lambda>l r. cmp_known cmp (rc_latency l) (rc_latency r))"
  by (rule comparison_by_key [of "cmp_known cmp"], rule comparison_known,
      rule natural.comparison_axioms)

lemma by_recent: "comparison (\<lambda>l r. cmp_pair (rc_recent r) (rc_recent l))"
  by (rule comparison_reversed [of "\<lambda>l r. cmp_pair (rc_recent l) (rc_recent r)"],
      rule comparison_by_key [of cmp_pair], rule pairs.comparison_axioms)

interpretation candidates: comparison candidate_cmp
  unfolding candidate_cmp_def
  by (rule comparison_then_with [OF by_cmp [of rc_tier] comparison_then_with [OF by_throughput
        comparison_then_with [OF by_latency comparison_then_with [OF by_recent by_cmp [of rc_index]]]]])

interpretation newest: comparison newest_first
  unfolding newest_first_def
  by (rule comparison_reversed, rule comparison_by_key [of cmp_pair], rule pairs.comparison_axioms)

section \<open>Pruning\<close>

lemma filter_remove_keys: "filter P (remove_keys ks m) = remove_keys ks (filter P m)"
  unfolding remove_keys_filter filter_filter by (rule filter_cong) auto

lemma hm_wf_filter: "hm_wf m \<Longrightarrow> hm_wf (filter P m)"
  unfolding hm_wf_def by (rule distinct_map_filter)

lemma length_remove_sorted_part:
  assumes "hm_wf m" "mset part \<subseteq># mset m"
  shows "length (remove_keys (map fst part) m) = length m - length part"
proof -
  have "distinct (map fst part)"
    using distinct_map_mset_subset [OF assms(2)] assms(1) by (simp add: hm_wf_def)
  moreover have "set part \<subseteq> set m" using assms(2) by (metis set_mset_mono set_mset_mset)
  ultimately show ?thesis
    using length_remove_keys [OF assms(1), of "map fst part"] by auto
qed

lemma mset_take_sort_by: "mset (take n (sort_by c xs)) \<subseteq># mset xs"
  by (metis append_take_drop_id mset_append mset_sort_by mset_subset_eq_add_left)

lemma mset_drop_sort_by: "mset (drop n (sort_by c xs)) \<subseteq># mset xs"
  by (metis append_take_drop_id mset_append mset_sort_by mset_subset_eq_add_right)

lemma prune_oldest_length: "hm_wf m \<Longrightarrow> length (prune_oldest f n m) \<le> n"
  by (simp add: prune_oldest_def Let_def length_remove_sorted_part mset_take_sort_by)

lemma prune_oldest_small: "length m \<le> n \<Longrightarrow> prune_oldest f n m = m"
  by (simp add: prune_oldest_def)

text \<open>Every pruning operation keeps some of the entries, unchanged and in order.\<close>

lemma prune_oldest_retain: "\<exists>P. prune_oldest f n m = hm_retain P m"
proof (cases "length m > n")
  case True
  then show ?thesis by (auto simp: prune_oldest_def Let_def remove_keys_retain)
next
  case False
  then have "prune_oldest f n m = hm_retain (\<lambda>_ _. True) m"
    by (simp add: prune_oldest_def hm_retain_def)
  then show ?thesis by blast
qed

lemma hm_retain_retain: "hm_retain P (hm_retain Q m) = hm_retain (\<lambda>k v. Q k v \<and> P k v) m"
  unfolding hm_retain_def filter_filter by (rule filter_cong) auto

lemma prune_retain:
  "\<exists>P Q. hs_hosts (prune now st) = hm_retain P (hs_hosts st)
       \<and> hs_representations (prune now st) = hm_retain Q (hs_representations st)"
proof -
  obtain P Q where
    "prune_oldest hr_updated_at CDN_MAX_HOSTS
       (hm_retain (\<lambda>_ r. now - hr_updated_at r < HOST_TTL_SECS) (hs_hosts st)) =
     hm_retain P (hm_retain (\<lambda>_ r. now - hr_updated_at r < HOST_TTL_SECS) (hs_hosts st))"
    "prune_oldest rp_updated_at MAX_REPRESENTATIONS
       (hm_retain (\<lambda>_ r. now - rp_updated_at r < REPRESENTATION_TTL_SECS) (hs_representations st)) =
     hm_retain Q (hm_retain (\<lambda>_ r. now - rp_updated_at r < REPRESENTATION_TTL_SECS) (hs_representations st))"
    using prune_oldest_retain by metis
  then show ?thesis by (auto simp: prune_def Let_def hm_retain_retain)
qed

lemma prune_sequence [simp]: "hs_sequence (prune now st) = hs_sequence st"
  "hs_version (prune now st) = hs_version st"
  by (simp_all add: prune_def Let_def)

lemma top_k_retain:
  "\<exists>Q. prune_representation_top_k d st = st\<lparr>hs_representations := hm_retain Q (hs_representations st)\<rparr>"
  by (auto simp: prune_representation_top_k_def Let_def remove_keys_retain)

definition digest_count :: "string \<Rightarrow> (string, representation_record) hmap \<Rightarrow> nat" where
  "digest_count d m = length (filter (\<lambda>(_, r). rp_digest r = d) m)"

lemma digest_count_retain: "digest_count d (hm_retain Q m) \<le> digest_count d m"
proof -
  have "filter P (filter R m) = filter R (filter P m)" for P R :: "_ \<Rightarrow> bool"
    unfolding filter_filter by (rule filter_cong) auto
  then show ?thesis unfolding digest_count_def hm_retain_def by (metis length_filter_le)
qed

lemma top_k_count:
  assumes "hm_wf (hs_representations st)"
  shows "digest_count d (hs_representations (prune_representation_top_k d st)) \<le> 3"
proof -
  define E where "E = filter (\<lambda>(_, r). rp_digest r = d) (hs_representations st)"
  have wf: "hm_wf E" using assms by (simp add: E_def hm_wf_filter)
  have "digest_count d (hs_representations (prune_representation_top_k d st)) =
      length (remove_keys (map fst (drop 3 (sort_by newest_first E))) E)"
    by (simp add: digest_count_def prune_representation_top_k_def Let_def filter_remove_keys cdn_consts
        flip: E_def)
  also have "\<dots> = length E - (length E - 3)"
    by (simp add: length_remove_sorted_part [OF wf mset_drop_sort_by])
  finally show ?thesis by simp
qed

lemma top_k_id:
  assumes "digest_count d (hs_representations st) \<le> 3"
  shows "prune_representation_top_k d st = st"
  using assms by (simp add: prune_representation_top_k_def Let_def digest_count_def cdn_consts remove_keys_def)

section \<open>The bounds of the tables\<close>

definition host_bounds :: "host_record \<Rightarrow> bool" where
  "host_bounds h \<longleftrightarrow> hr_failures h \<le> u32_max
     \<and> cooldown_plausible (hr_cooldown_until h) (hr_updated_at h) CDN_MAX_COOLDOWN_SECS
     \<and> (hr_latest h = HealthSuccess \<longleftrightarrow> hr_cooldown_until h = None)"

definition history_inv :: "history_state \<Rightarrow> bool" where
  "history_inv st \<longleftrightarrow> bt_wf (hs_hosts st) \<and> bt_wf (hs_representations st)
     \<and> length (hs_hosts st) \<le> CDN_MAX_HOSTS \<and> length (hs_representations st) \<le> MAX_REPRESENTATIONS
     \<and> (\<forall>d. digest_count d (hs_representations st) \<le> 3)
     \<and> (\<forall>o' h. hm_get (hs_hosts st) o' = Some h \<longrightarrow> host_bounds h)"

text \<open>What holds between the two prunings of \<open>record_at\<close>.\<close>

definition history_shape :: "history_state \<Rightarrow> bool" where
  "history_shape st \<longleftrightarrow> bt_wf (hs_hosts st) \<and> bt_wf (hs_representations st)
     \<and> (\<forall>d. digest_count d (hs_representations st) \<le> 3)
     \<and> (\<forall>o' h. hm_get (hs_hosts st) o' = Some h \<longrightarrow> host_bounds h)"

lemma history_inv_shape: "history_inv st \<Longrightarrow> history_shape st"
  by (simp add: history_inv_def history_shape_def)

lemma prune_inv:
  assumes "history_shape st"
  shows "history_inv (prune now st)"
proof -
  obtain P Q where PQ: "hs_hosts (prune now st) = hm_retain P (hs_hosts st)"
    "hs_representations (prune now st) = hm_retain Q (hs_representations st)"
    using prune_retain by blast
  have "length (hs_hosts (prune now st)) \<le> CDN_MAX_HOSTS"
    "length (hs_representations (prune now st)) \<le> MAX_REPRESENTATIONS"
    using assms by (simp_all add: prune_def Let_def prune_oldest_length bt_wf_hm_wf history_shape_def)
  moreover have "digest_count d (hm_retain Q (hs_representations st)) \<le> 3" for d
    using assms le_trans [OF digest_count_retain [of d Q]] by (simp add: history_shape_def)
  moreover have "host_bounds h" if "hm_get (hm_retain P (hs_hosts st)) o' = Some h" for o' h
    using assms bt.keep_only [OF _ that] by (auto simp: history_shape_def)
  ultimately show ?thesis using assms by (simp add: history_inv_def history_shape_def PQ)
qed

lemma cdn_cooldown_bounds: "10 \<le> cdn_cooldown_secs n" "cdn_cooldown_secs n \<le> 600"
proof -
  have "(1::nat) \<le> 2 ^ min (n - 1) 6" by simp
  moreover have "(2::nat) ^ min (n - 1) 6 \<le> 2 ^ 6" by (rule power_increasing) auto
  ultimately show "10 \<le> cdn_cooldown_secs n" "cdn_cooldown_secs n \<le> 600"
    by (simp_all add: cdn_cooldown_secs_def cdn_consts saturating_mul_def)
qed

lemma update_host_bounds:
  assumes "host_bounds h \<or> h = fresh_host now seq c"
  shows "host_bounds (update_host ob now seq failure h)"
  using cdn_cooldown_bounds(2)
  by (auto simp: host_bounds_def update_host_def Let_def cooldown_plausible_def cdn_consts
      intro: saturating_add_mono split: prod.split)

lemma update_representation_digest [simp]:
  "rp_digest (update_representation ob now seq f im e) = rp_digest e"
  "rp_origin (update_representation ob now seq f im e) = rp_origin e"
  "rp_updated_at (update_representation ob now seq f im e) = now"
  by (simp_all add: update_representation_def Let_def split: prod.split)

lemma digest_count_insert_known:
  "bt_wf m \<Longrightarrow> hm_get m k = Some e \<Longrightarrow> rp_digest e' = rp_digest e \<Longrightarrow>
    digest_count d (bt_insert k e' m) = digest_count d m"
proof (induction k e' m rule: bt_insert.induct)
  case (2 k v k' v' m)
  then have "hm_get m k = None" if "k < k'"
    using that by (auto simp: bt_wf_def hm_get_None_iff)
  with 2 show ?case by (auto simp: digest_count_def hm_get_def bt_wf_def)
qed (simp add: hm_get_def)

lemma digest_count_insert:
  "digest_count d (bt_insert k e m) \<le> digest_count d m + (if rp_digest e = d then 1 else 0)"
  by (induction k e m rule: bt_insert.induct) (auto simp: digest_count_def)

lemma record_host_shape:
  assumes "history_shape st"
  shows "history_shape (record_host ob origin now failure completed st)"
proof (cases "failure \<or> completed")
  case True
  define e where "e = (case hm_get (hs_hosts st) origin of
      Some e \<Rightarrow> e | None \<Rightarrow> fresh_host now (hs_sequence st) completed)"
  have "host_bounds e \<or> e = fresh_host now (hs_sequence st) completed"
    using assms by (auto simp: e_def history_shape_def split: option.split)
  then have "host_bounds (update_host ob now (hs_sequence st) failure e)"
    by (rule update_host_bounds)
  with True assms show ?thesis
    by (simp add: record_host_def Let_def history_shape_def e_def [symmetric])
qed (use assms in \<open>simp add: record_host_def\<close>)

lemma record_representation_shape:
  assumes "history_shape st"
  shows "history_shape (record_representation ob origin digest now failure completed im st)"
proof (cases "\<exists>d. digest = Some d \<and> (completed \<or> failure \<or> im)")
  case True
  then obtain d where d: "digest = Some d" "completed \<or> failure \<or> im" by blast
  define k where "k = representation_map_key d origin"
  define e where "e = (case hm_get (hs_representations st) k of
      Some e \<Rightarrow> e | None \<Rightarrow> fresh_representation d origin now (hs_sequence st) (failure \<or> im))"
  define st1 where "st1 = st\<lparr>hs_representations := bt_insert k
      (update_representation ob now (hs_sequence st) failure im e) (hs_representations st)\<rparr>"
  have eq: "record_representation ob origin digest now failure completed im st =
      prune_representation_top_k d st1"
    unfolding record_representation_def st1_def e_def k_def using d by (simp add: Let_def)
  obtain Q where Q: "prune_representation_top_k d st1 =
      st1\<lparr>hs_representations := hm_retain Q (hs_representations st1)\<rparr>"
    using top_k_retain by blast
  have wf1: "bt_wf (hs_representations st1)"
    using assms by (simp add: st1_def history_shape_def)
  have other: "digest_count d' (hs_representations st1) \<le> digest_count d' (hs_representations st)"
    if "d' \<noteq> d" for d'
  proof (cases "hm_get (hs_representations st) k")
    case None
    then have "rp_digest e = d" by (simp add: e_def fresh_representation_def)
    with that show ?thesis
      using digest_count_insert [of d' k "update_representation ob now (hs_sequence st) failure im e"
          "hs_representations st"]
      by (simp add: st1_def)
  next
    case (Some e0)
    then show ?thesis
      using assms digest_count_insert_known [of "hs_representations st" k e0]
      by (simp add: st1_def e_def history_shape_def)
  qed
  have "digest_count d' (hm_retain Q (hs_representations st1)) \<le> 3" for d'
  proof (cases "d' = d")
    case True
    then show ?thesis using top_k_count [OF bt_wf_hm_wf [OF wf1], of d] Q by simp
  next
    case False
    have "digest_count d' (hs_representations st) \<le> 3" using assms by (simp add: history_shape_def)
    then show ?thesis using other [OF False] digest_count_retain [of d' Q] le_trans by blast
  qed
  moreover have "hs_hosts st1 = hs_hosts st" by (simp add: st1_def)
  ultimately show ?thesis
    using assms wf1 by (simp add: eq Q history_shape_def)
next
  case False
  then show ?thesis using assms by (auto simp: record_representation_def split: option.split)
qed

lemma history_shape_sequence [simp]: "history_shape (st\<lparr>hs_sequence := n\<rparr>) = history_shape st"
  by (simp add: history_shape_def)

lemma record_at_inv:
  assumes "history_inv st"
  shows "history_inv (record_at parse url ob digest now st)"
  using assms prune_inv [OF history_inv_shape [OF assms], of now]
  by (auto simp: record_at_def Let_def history_inv_shape
      intro!: prune_inv record_representation_shape record_host_shape split: option.split)

section \<open>The history as a transition system\<close>

datatype history_op =
    OpRankRequest media_request nat
  | OpRankRange media_request nat nat
  | OpRecordRequest media_request string cdn_observation nat
  | OpRecordOrigin string cdn_observation nat

text \<open>Steps of other threads inside a range ranking are steps of their own.\<close>

fun history_apply ::
  "url_parser \<Rightarrow> (nat list \<Rightarrow> nat list) \<Rightarrow> history_op \<Rightarrow> history_state \<Rightarrow> history_state" where
  "history_apply parse sha256 (OpRankRequest r now) st = snd (rank_request_at parse sha256 r now st)"
| "history_apply parse sha256 (OpRankRange r chunk now) st =
     snd (rank_request_for_range_at parse sha256 (\<lambda>s. s) r chunk now st)"
| "history_apply parse sha256 (OpRecordRequest r url ob now) st =
     record_request_at parse sha256 r url ob now st"
| "history_apply parse sha256 (OpRecordOrigin url ob now) st = record_origin_at parse url ob now st"

definition history_step ::
  "url_parser \<Rightarrow> (nat list \<Rightarrow> nat list) \<Rightarrow> history_state \<Rightarrow> history_op \<Rightarrow> history_state \<Rightarrow> bool" where
  "history_step parse sha256 st l st' \<longleftrightarrow> st' = history_apply parse sha256 l st"

definition history_init :: "history_state \<Rightarrow> bool" where
  "history_init st \<longleftrightarrow> st = history_default"

lemma history_default_inv: "history_inv history_default"
  by (simp add: history_inv_def history_default_def digest_count_def)

lemma history_apply_inv: "history_inv st \<Longrightarrow> history_inv (history_apply parse sha256 l st)"
  by (cases l)
    (auto simp: rank_request_at_def rank_request_for_range_at_def record_request_at_def
      record_origin_at_def Let_def intro!: prune_inv history_inv_shape record_at_inv)

interpretation history: step_system history_init "history_step parse sha256" history_inv
  for parse sha256
  by unfold_locales (auto simp: history_init_def history_step_def history_default_inv history_apply_inv)

end
