(* ===== verification/Cdn_Ranking.thy ===== *)
theory Cdn_Ranking
  imports Cdn_History
begin

text \<open>
  What the ranking of candidate addresses and the rotation over origins of \<open>cdn_history.rs\<close>
  guarantee: nothing is lost, set-aside origins come last, and range requests take turns over
  origins that may be used. Then what a recorded failure does to later rankings.
\<close>

section \<open>Ranking\<close>

lemma dedup_from_props:
  "distinct (dedup_from seen us) \<and> set (dedup_from seen us) = set us - seen"
  by (induction seen us rule: dedup_from.induct) auto

lemma sort_by_id: "sorted_wrt (\<lambda>a b. c a b \<noteq> Greater) xs \<Longrightarrow> sort_by c xs = xs"
proof (induction xs)
  case (Cons x xs)
  then have "sort_by c xs = xs" by simp
  with Cons.prems show ?case by (cases xs) auto
qed simp

definition tier_of :: "url_parser \<Rightarrow> history_state \<Rightarrow> string option \<Rightarrow> nat \<Rightarrow> string \<Rightarrow> nat" where
  "tier_of parse st digest now url = rc_tier (rank_candidate parse st digest now (0, url))"

definition throughput_of :: "url_parser \<Rightarrow> history_state \<Rightarrow> string option \<Rightarrow> nat \<Rightarrow> string \<Rightarrow> nat option" where
  "throughput_of parse st digest now url = rc_throughput (rank_candidate parse st digest now (0, url))"

text \<open>An address is set aside: its origin or representation cools down or is quarantined.\<close>

definition set_aside :: "url_parser \<Rightarrow> history_state \<Rightarrow> string option \<Rightarrow> nat \<Rightarrow> string \<Rightarrow> bool" where
  "set_aside parse st digest now url \<longleftrightarrow>
     active now (Option.bind (rep_of parse st digest url) rp_quarantined_until)
     \<or> active now (Option.bind (rep_of parse st digest url) rp_cooldown_until)
     \<or> active now (Option.bind (host_of parse st url) hr_cooldown_until)"

lemma rank_candidate_url [simp]: "rc_url (rank_candidate parse st digest now (i, url)) = url"
  by (simp add: rank_candidate_def Let_def split: prod.split)

lemma rank_candidate_tier:
  "rc_tier (rank_candidate parse st digest now (i, url)) = tier_of parse st digest now url"
  by (simp add: rank_candidate_def tier_of_def Let_def split: prod.split)

lemma rank_candidate_throughput:
  "rc_throughput (rank_candidate parse st digest now (i, url)) = throughput_of parse st digest now url"
  by (simp add: rank_candidate_def throughput_of_def Let_def split: prod.split)

lemma tier_of_2: "tier_of parse st digest now url = 2 \<longleftrightarrow> set_aside parse st digest now url"
  by (auto simp: tier_of_def rank_candidate_def set_aside_def Let_def split: prod.split)

lemma tier_of_le: "tier_of parse st digest now url \<le> 2"
  by (simp add: tier_of_def rank_candidate_def Let_def split: prod.split)

lemma rank_prefix_mem:
  "c \<in> set (rank_prefix parse st digest now urls) \<Longrightarrow>
    \<exists>i url. c = rank_candidate parse st digest now (i, url) \<and> url \<in> set urls"
  by (auto simp: rank_prefix_def in_set_enumerate_eq) (metis nth_mem)

lemma rank_prefix_urls: "map rc_url (rank_prefix parse st digest now urls) = urls"
proof -
  have "map rc_url (rank_prefix parse st digest now urls) = map snd (enumerate 0 urls)"
    unfolding rank_prefix_def map_map by (rule map_cong) auto
  then show ?thesis by simp
qed

lemma tap_sort_mset: "mset (tap_sort (rank_prefix parse st digest now urls)) = mset urls"
  unfolding tap_sort_def by (metis mset_map mset_sort_by rank_prefix_urls)

lemma tap_sort_length: "length (tap_sort (rank_prefix parse st digest now urls)) = length urls"
  using tap_sort_mset mset_eq_length by blast

definition better :: "url_parser \<Rightarrow> history_state \<Rightarrow> string option \<Rightarrow> nat \<Rightarrow> string \<Rightarrow> string \<Rightarrow> bool" where
  "better parse st digest now u v \<longleftrightarrow>
     tier_of parse st digest now u < tier_of parse st digest now v
     \<or> (tier_of parse st digest now u = tier_of parse st digest now v
        \<and> cmp_known (\<lambda>a b. cmp b a) (throughput_of parse st digest now u)
             (throughput_of parse st digest now v) \<noteq> Greater)"

lemma tap_sort_better:
  "sorted_wrt (better parse st digest now) (tap_sort (rank_prefix parse st digest now urls))"
proof -
  define cs where "cs = sort_by candidate_cmp (rank_prefix parse st digest now urls)"
  have "sorted_wrt (\<lambda>a b. candidate_cmp a b \<noteq> Greater) cs"
    unfolding cs_def by (rule candidates.sort_by_sorted)
  then have "sorted_wrt (\<lambda>a b. better parse st digest now (rc_url a) (rc_url b)) cs"
  proof (rule sorted_wrt_mono_rel [rotated])
    fix a b
    assume "a \<in> set cs" "b \<in> set cs" and le: "candidate_cmp a b \<noteq> Greater"
    then obtain i u j v where "a = rank_candidate parse st digest now (i, u)"
      "b = rank_candidate parse st digest now (j, v)"
      unfolding cs_def by (metis rank_prefix_mem set_sort_by)
    with le show "better parse st digest now (rc_url a) (rc_url b)"
      unfolding better_def candidate_cmp_def
      by (cases "cmp_known (\<lambda>a b. cmp b a) (throughput_of parse st digest now u)
             (throughput_of parse st digest now v)")
        (auto simp: rank_candidate_tier rank_candidate_throughput cmp_def split: if_splits)
  qed
  then show ?thesis by (simp add: tap_sort_def cs_def sorted_wrt_map)
qed

lemma tap_sort_unknown:
  assumes "\<forall>u \<in> set urls. host_of parse st u = None \<and> rep_of parse st digest u = None"
  shows "tap_sort (rank_prefix parse st digest now urls) = urls"
proof -
  let ?cs = "rank_prefix parse st digest now urls"
  have item: "rank_candidate parse st digest now (i, u) =
      \<lparr>rc_tier = 1, rc_throughput = None, rc_latency = None, rc_recent = (0, 0), rc_index = i, rc_url = u\<rparr>"
    if "u \<in> set urls" for i u
    using assms that by (simp add: rank_candidate_def Let_def active_def opt_is_def)
  have cs: "?cs = map (\<lambda>(i, u). \<lparr>rc_tier = 1, rc_throughput = None, rc_latency = None,
      rc_recent = (0, 0), rc_index = i, rc_url = u\<rparr>) (enumerate 0 urls)"
    unfolding rank_prefix_def
    by (rule map_cong) (auto simp: item in_set_enumerate_eq)
  have "sorted_wrt (\<lambda>a b. candidate_cmp a b \<noteq> Greater) ?cs"
    unfolding cs sorted_wrt_map
    by (rule sorted_wrt_mono_rel [OF _ sorted_wrt_map [THEN iffD1, of "(<)" fst]])
      (auto simp: candidate_cmp_def cmp_def cmp_pair_def)
  then show ?thesis by (simp add: tap_sort_def sort_by_id rank_prefix_urls)
qed

section \<open>Rotation over origins\<close>

definition eligible ::
  "url_parser \<Rightarrow> history_state \<Rightarrow> string option \<Rightarrow> nat \<Rightarrow> string \<Rightarrow> bool" where
  "eligible parse st digest now url \<longleftrightarrow>
     canonical_origin parse url \<noteq> None \<and> \<not> range_blocked parse st digest now url"

lemma select_origins_spec:
  assumes "length selected < 3"
  shows "\<exists>new. select_origins parse st digest now l origins selected = selected @ map fst new
    \<and> subseq new l \<and> length selected + length new \<le> 3
    \<and> (\<forall>(i, u) \<in> set new. eligible parse st digest now u
         \<and> canonical_origin parse u \<notin> Some ` origins)
    \<and> distinct (map (\<lambda>p. canonical_origin parse (snd p)) new)
    \<and> (length selected + length new < 3 \<longrightarrow> (\<forall>(i, u) \<in> set l. eligible parse st digest now u \<longrightarrow>
         canonical_origin parse u \<in> Some ` origins \<union> (\<lambda>p. canonical_origin parse (snd p)) ` set new))"
  using assms
proof (induction l arbitrary: origins selected)
  case Nil
  show ?case by (rule exI [of _ "[]"]) (use Nil in simp)
next
  case (Cons p l)
  obtain i u where p: "p = (i, u)" by (cases p)
  show ?case
  proof (cases "eligible parse st digest now u \<and> canonical_origin parse u \<notin> Some ` origins")
    case False
    have step: "select_origins parse st digest now (p # l) origins selected =
        select_origins parse st digest now l origins selected"
      using False by (auto simp: p eligible_def split: option.split)
    from Cons.IH [OF Cons.prems, of origins] obtain new where
      "select_origins parse st digest now l origins selected = selected @ map fst new"
      "subseq new l" and rest: "length selected + length new \<le> 3
        \<and> (\<forall>(i, u) \<in> set new. eligible parse st digest now u
             \<and> canonical_origin parse u \<notin> Some ` origins)
        \<and> distinct (map (\<lambda>p. canonical_origin parse (snd p)) new)"
      "length selected + length new < 3 \<longrightarrow> (\<forall>(i, u) \<in> set l. eligible parse st digest now u \<longrightarrow>
         canonical_origin parse u \<in> Some ` origins \<union> (\<lambda>p. canonical_origin parse (snd p)) ` set new)"
      by blast
    then show ?thesis
      using False unfolding step by (intro exI [of _ new]) (auto simp: p intro: list_emb_Cons)
  next
    case True
    then obtain origin where origin: "canonical_origin parse u = Some origin" "origin \<notin> origins"
      by (auto simp: eligible_def)
    have nblocked: "\<not> range_blocked parse st digest now u" using True by (simp add: eligible_def)
    show ?thesis
    proof (cases "length selected = 2")
      case full: True
      have "select_origins parse st digest now (p # l) origins selected = selected @ map fst [p]"
        by (simp add: p origin nblocked full cdn_consts)
      then show ?thesis using full True by (intro exI [of _ "[p]"]) (auto simp: p)
    next
      case False
      with Cons.prems have len: "length (selected @ [i]) < 3" by simp
      have step: "select_origins parse st digest now (p # l) origins selected =
          select_origins parse st digest now l (insert origin origins) (selected @ [i])"
        using False by (simp add: p origin nblocked cdn_consts)
      from Cons.IH [OF len, of "insert origin origins"] obtain new where new:
        "select_origins parse st digest now l (insert origin origins) (selected @ [i]) =
          (selected @ [i]) @ map fst new" "subseq new l"
        "length (selected @ [i]) + length new \<le> 3"
        "\<forall>(i, u) \<in> set new. eligible parse st digest now u
           \<and> canonical_origin parse u \<notin> Some ` insert origin origins"
        "distinct (map (\<lambda>p. canonical_origin parse (snd p)) new)"
        "length (selected @ [i]) + length new < 3 \<longrightarrow> (\<forall>(i, u) \<in> set l. eligible parse st digest now u \<longrightarrow>
           canonical_origin parse u \<in> Some ` insert origin origins \<union> (\<lambda>p. canonical_origin parse (snd p)) ` set new)"
        by blast
      have "Some origin \<notin> (\<lambda>p. canonical_origin parse (snd p)) ` set new"
        using new(4) by (auto simp: image_iff)
      then show ?thesis
        using new True origin unfolding step by (intro exI [of _ "p # new"]) (fastforce simp: p)
    qed
  qed
qed

lemma enumerate_as_upt: "enumerate 0 xs = map (\<lambda>i. (i, xs ! i)) [0..<length xs]"
  by (rule nth_equalityI) (simp_all add: nth_enumerate_eq)

lemma rotate_ranked_first:
  assumes "2 \<le> length selected"
  shows "rotate_ranked n selected ranked =
    map (nth ranked) (rotate (n mod length selected) selected)
    @ map snd (filter (\<lambda>(i, _). i \<notin> set selected) (enumerate 0 ranked))"
proof -
  have "map (\<lambda>k. ranked ! (selected ! ((n mod length selected + k) mod length selected)))
      [0..<length selected] = map (nth ranked) (rotate (n mod length selected) selected)"
    by (rule nth_equalityI) (simp_all add: nth_rotate)
  with assms show ?thesis by (simp add: rotate_ranked_def Let_def)
qed

lemma mset_rotate_by: "mset (rotate k xs) = mset xs"
  by (metis append_take_drop_id mset_append rotate_drop_take union_commute)

lemma rotate_ranked_mset:
  assumes "distinct selected" "\<forall>i \<in> set selected. i < length ranked"
  shows "mset (rotate_ranked n selected ranked) = mset ranked"
proof (cases "length selected < 2")
  case True
  then show ?thesis by (simp add: rotate_ranked_def)
next
  case False
  have sel: "mset selected = mset (filter (\<lambda>i. i \<in> set selected) [0..<length ranked])"
    using assms by (intro set_eq_iff_mset_eq_distinct [THEN iffD1]) auto
  have rest: "map snd (filter (\<lambda>(i, _). i \<notin> set selected) (enumerate 0 ranked)) =
      map (nth ranked) (filter (\<lambda>i. i \<notin> set selected) [0..<length ranked])"
    by (simp add: enumerate_as_upt filter_map comp_def)
  have "mset (map (nth ranked) (rotate (n mod length selected) selected)) =
      image_mset (nth ranked) (mset selected)"
    by (simp add: mset_rotate_by)
  then have "mset (rotate_ranked n selected ranked) =
      image_mset (nth ranked) (mset (filter (\<lambda>i. i \<in> set selected) [0..<length ranked]))
      + image_mset (nth ranked) (mset (filter (\<lambda>i. i \<notin> set selected) [0..<length ranked]))"
    using False sel by (simp add: rotate_ranked_first rest del: mset_filter)
  also have "\<dots> = image_mset (nth ranked) (mset [0..<length ranked])"
    by (metis image_mset_union mset_filter multiset_partition)
  also have "\<dots> = mset ranked" by (metis map_nth mset_map)
  finally show ?thesis .
qed

lemma subseq_set_sub: "subseq xs ys \<Longrightarrow> set xs \<subseteq> set ys"
  by (induction rule: list_emb.induct) auto

lemma subseq_increasing:
  fixes ys :: "nat list"
  shows "subseq xs ys \<Longrightarrow> sorted_wrt (<) ys \<Longrightarrow> sorted_wrt (<) xs"
  by (induction rule: list_emb.induct) (auto dest: subseq_set_sub)

lemma selected_props:
  fixes parse :: url_parser and st :: history_state and digest :: "string option" and now :: nat
    and ranked :: "string list"
  defines "n \<equiv> min 32 (length ranked)"
  defines "sel \<equiv> select_origins parse st digest now (enumerate 0 (take MAX_CANDIDATES ranked)) {} []"
  shows "length sel \<le> 3" "sorted_wrt (<) sel"
    "\<forall>i \<in> set sel. i < n \<and> eligible parse st digest now (ranked ! i)"
    "distinct (map (\<lambda>i. canonical_origin parse (ranked ! i)) sel)"
    "length sel < 3 \<longrightarrow> (\<forall>i < n. eligible parse st digest now (ranked ! i) \<longrightarrow>
       (\<exists>j \<in> set sel. canonical_origin parse (ranked ! j) = canonical_origin parse (ranked ! i)))"
proof -
  let ?l = "enumerate 0 (take 32 ranked)"
  have l: "?l = map (\<lambda>i. (i, ranked ! i)) [0..<n]"
    by (simp add: enumerate_as_upt n_def min.commute)
  obtain new where new: "sel = map fst new" "subseq new ?l" "length new \<le> 3"
    "\<forall>(i, u) \<in> set new. eligible parse st digest now u"
    "distinct (map (\<lambda>p. canonical_origin parse (snd p)) new)"
    "length new < 3 \<longrightarrow> (\<forall>(i, u) \<in> set ?l. eligible parse st digest now u \<longrightarrow>
         canonical_origin parse u \<in> (\<lambda>p. canonical_origin parse (snd p)) ` set new)"
    using select_origins_spec [of "[]" parse st digest now ?l "{}"]
    by (auto simp: sel_def cdn_consts)
  have sub: "set new \<subseteq> set ?l" using new(2) by (rule subseq_set_sub)
  have new_eq: "(i, u) \<in> set new \<Longrightarrow> u = ranked ! i \<and> i < n" for i u
    using sub by (auto simp: l)
  show "length sel \<le> 3" using new(1,3) by simp
  have "subseq sel [0..<n]"
    using subseq_map [OF new(2), of fst] by (simp add: new(1) l comp_def)
  then show "sorted_wrt (<) sel" by (rule subseq_increasing) simp
  show "\<forall>i \<in> set sel. i < n \<and> eligible parse st digest now (ranked ! i)"
    using new(1,4) new_eq by fastforce
  have "map (\<lambda>i. canonical_origin parse (ranked ! i)) sel = map (\<lambda>p. canonical_origin parse (snd p)) new"
    using new_eq by (auto simp: new(1))
  then show "distinct (map (\<lambda>i. canonical_origin parse (ranked ! i)) sel)" using new(5) by simp
  show "length sel < 3 \<longrightarrow> (\<forall>i < n. eligible parse st digest now (ranked ! i) \<longrightarrow>
       (\<exists>j \<in> set sel. canonical_origin parse (ranked ! j) = canonical_origin parse (ranked ! i)))"
  proof (intro impI allI)
    fix i assume "length sel < 3" "i < n" "eligible parse st digest now (ranked ! i)"
    with new(1,6) have "canonical_origin parse (ranked ! i) \<in> (\<lambda>p. canonical_origin parse (snd p)) ` set new"
      by (auto simp: l)
    then obtain j u where "(j, u) \<in> set new" "canonical_origin parse u = canonical_origin parse (ranked ! i)"
      by auto
    with new_eq new(1) show "\<exists>j \<in> set sel. canonical_origin parse (ranked ! j) = canonical_origin parse (ranked ! i)"
      by force
  qed
qed

section \<open>Properties of the ranking\<close>

text \<open>
  C14. Ranking a request yields each of its addresses exactly once; the addresses after the
  thirty-second keep their places; among the first 32, addresses set aside by a cooldown or a
  quarantine come after all others, known healthy ones come before unknown ones, and within a
  tier a higher known throughput comes first; if the history knows none of them the order of the
  request is kept.
\<close>

theorem cdn_ranking_correct:
  assumes "(ranked, st') = rank_request_at parse sha256 r now st"
  defines "tier \<equiv> tier_of parse st' (representation_digest sha256 r) now"
  shows "mset ranked = mset (request_candidates r)
    \<and> distinct ranked \<and> set ranked = set (mr_url r # mr_backup_urls r)
    \<and> drop 32 ranked = drop 32 (request_candidates r)
    \<and> sorted_wrt (better parse st' (representation_digest sha256 r) now) (take 32 ranked)
    \<and> sorted (map tier (take 32 ranked))
    \<and> (\<forall>u. tier u \<le> 2 \<and> (tier u = 2 \<longleftrightarrow> set_aside parse st' (representation_digest sha256 r) now u))
    \<and> ((\<forall>u \<in> set ranked. host_of parse st' u = None
          \<and> rep_of parse st' (representation_digest sha256 r) u = None) \<longrightarrow> ranked = request_candidates r)"
proof -
  define cs where "cs = request_candidates r"
  define digest where "digest = representation_digest sha256 r"
  define head where "head = tap_sort (rank_prefix parse st' digest now (take 32 cs))"
  have ranked: "ranked = head @ drop 32 cs"
    using assms(1) by (simp add: rank_request_at_def Let_def cs_def digest_def head_def cdn_consts)
  have len: "length head = min 32 (length cs)" by (simp add: head_def tap_sort_length)
  then have parts: "take 32 ranked = head" "drop 32 ranked = drop 32 cs"
    unfolding ranked by (simp_all add: min_def split: if_splits)
  have m: "mset ranked = mset cs"
    unfolding ranked head_def mset_append tap_sort_mset by (metis append_take_drop_id mset_append)
  have d: "distinct cs" "set cs = set (mr_url r # mr_backup_urls r)"
    using dedup_from_props [of "{}"] unfolding cs_def request_candidates_def by blast+
  have b: "sorted_wrt (better parse st' digest now) head"
    unfolding head_def by (rule tap_sort_better)
  then have "sorted_wrt (\<lambda>u v. tier u \<le> tier v) head"
    by (rule sorted_wrt_mono_rel [rotated]) (auto simp: better_def tier_def digest_def)
  then have sorted: "sorted (map tier head)" by (simp add: sorted_map)
  have "ranked = cs" if "\<forall>u \<in> set ranked. host_of parse st' u = None \<and> rep_of parse st' digest u = None"
  proof -
    have "set (take 32 cs) \<subseteq> set ranked" using m mset_eq_setD set_take_subset by metis
    with that have "head = take 32 cs" unfolding head_def by (intro tap_sort_unknown) blast
    then show ?thesis by (simp add: ranked)
  qed
  moreover have "distinct ranked" "set ranked = set cs"
    using d(1) m mset_eq_imp_distinct_iff mset_eq_setD by blast+
  ultimately show ?thesis
    using m d(2) parts b sorted tier_of_le tier_of_2
    by (simp add: tier_def cs_def digest_def)
qed

text \<open>
  A range request is offered every ranked address exactly once. At most three of the first 32
  are put in front: in increasing rank, with pairwise different origins, none cooling down,
  quarantined or known not to serve ranges, and fewer than three only if no other origin qualifies;
  the chunk index decides which of them comes first, so that consecutive chunks take turns; the
  rest follows in ranked order. What other threads record between the two critical sections does
  not matter.
\<close>

theorem range_rotation_correct:
  assumes "(ordered, st') = rank_request_for_range_at parse sha256 between r chunk_index now st"
    and "ranked = fst (rank_request_at parse sha256 r now st)"
    and "digest = representation_digest sha256 r"
  shows "\<exists>sel. mset ordered = mset ranked \<and> length sel \<le> 3 \<and> sorted_wrt (<) sel
    \<and> (\<forall>i \<in> set sel. i < min 32 (length ranked) \<and> eligible parse st' digest now (ranked ! i))
    \<and> distinct (map (\<lambda>i. canonical_origin parse (ranked ! i)) sel)
    \<and> (length sel < 3 \<longrightarrow> (\<forall>i < min 32 (length ranked). eligible parse st' digest now (ranked ! i) \<longrightarrow>
         (\<exists>j \<in> set sel. canonical_origin parse (ranked ! j) = canonical_origin parse (ranked ! i))))
    \<and> (length sel < 2 \<longrightarrow> ordered = ranked)
    \<and> (2 \<le> length sel \<longrightarrow> hd ordered = ranked ! (sel ! (chunk_index mod length sel))
         \<and> take (length sel) ordered = map (nth ranked) (rotate (chunk_index mod length sel) sel)
         \<and> drop (length sel) ordered =
             map (nth ranked) (filter (\<lambda>i. i \<notin> set sel) [0..<length ranked]))"
proof -
  define sel where "sel = select_origins parse st' digest now (enumerate 0 (take MAX_CANDIDATES ranked)) {} []"
  note sel = selected_props [where parse = parse and st = st' and digest = digest and now = now and ranked = ranked, folded sel_def]
  have ordered: "ordered = rotate_ranked chunk_index sel ranked"
    using assms by (simp add: rank_request_for_range_at_def Let_def sel_def split: prod.splits)
  have dist: "distinct sel" using sel(2) strict_sorted_iff by blast
  have "mset ordered = mset ranked"
    unfolding ordered using dist sel(3) by (intro rotate_ranked_mset) auto
  moreover have "ordered = ranked" if "length sel < 2"
    using that by (simp add: ordered rotate_ranked_def)
  moreover have "hd ordered = ranked ! (sel ! (chunk_index mod length sel))
      \<and> take (length sel) ordered = map (nth ranked) (rotate (chunk_index mod length sel) sel)
      \<and> drop (length sel) ordered = map (nth ranked) (filter (\<lambda>i. i \<notin> set sel) [0..<length ranked])"
    if two: "2 \<le> length sel"
  proof -
    have "sel \<noteq> []" using two by auto
    then have "hd (map (nth ranked) (rotate (chunk_index mod length sel) sel)) =
        ranked ! (sel ! (chunk_index mod length sel))"
      by (simp add: hd_map hd_rotate_conv_nth)
    moreover have "map snd (filter (\<lambda>(i, _). i \<notin> set sel) (enumerate 0 ranked)) =
        map (nth ranked) (filter (\<lambda>i. i \<notin> set sel) [0..<length ranked])"
      by (simp add: enumerate_as_upt filter_map comp_def)
    ultimately show ?thesis
      using \<open>sel \<noteq> []\<close> by (simp add: ordered rotate_ranked_first [OF two])
  qed
  ultimately show ?thesis using sel by (intro exI [of _ sel]) blast
qed

section \<open>Properties of the records\<close>

text \<open>
  In every state the history can reach it holds at most 256 origins and 512 representations,
  at most three of them for one representation digest, each table in the order of its keys and
  without duplicates; an origin cools down exactly while its latest event is a failure, and never
  for more than ten minutes after that event.
\<close>

theorem cdn_history_bounded:
  assumes "reachable history_init (history_step parse sha256) st"
  shows "length (hs_hosts st) \<le> 256 \<and> length (hs_representations st) \<le> 512
    \<and> sorted_wrt (<) (map fst (hs_hosts st)) \<and> sorted_wrt (<) (map fst (hs_representations st))
    \<and> (\<forall>d. length (filter (\<lambda>(_, r). rp_digest r = d) (hs_representations st)) \<le> 3)
    \<and> (\<forall>origin h. hm_get (hs_hosts st) origin = Some h \<longrightarrow>
         (hr_latest h = HealthTransportFailure \<longleftrightarrow> hr_cooldown_until h \<noteq> None)
         \<and> (\<forall>until. hr_cooldown_until h = Some until \<longrightarrow> until \<le> hr_updated_at h + 600))"
proof -
  have inv: "history_inv st" using assms by (rule history.reachable_inv)
  have "(hr_latest h = HealthTransportFailure \<longleftrightarrow> hr_cooldown_until h \<noteq> None)
      \<and> (\<forall>until. hr_cooldown_until h = Some until \<longrightarrow> until \<le> hr_updated_at h + 600)"
    if "hm_get (hs_hosts st) origin = Some h" for origin h
  proof -
    have "host_bounds h" using inv that by (simp add: history_inv_def)
    then show ?thesis
      by (cases "hr_latest h")
        (auto simp: host_bounds_def cooldown_plausible_def saturating_add_def cdn_consts)
  qed
  then show ?thesis
    using inv by (simp add: history_inv_def bt_wf_def digest_count_def cdn_consts)
qed

lemma prune_keeps_host:
  assumes "bt_wf (hs_hosts st)" "length (hs_hosts st) \<le> 256" "hm_get (hs_hosts st) origin = Some h"
    and "now - hr_updated_at h < 86400"
  shows "hm_get (hs_hosts (prune now st)) origin = Some h"
proof -
  let ?m = "hm_retain (\<lambda>_ r. now - hr_updated_at r < HOST_TTL_SECS) (hs_hosts st)"
  have "length ?m \<le> CDN_MAX_HOSTS"
    using hm_length_retain_le [of _ "hs_hosts st"] assms(2) le_trans by (fastforce simp: cdn_consts)
  then have "hs_hosts (prune now st) = ?m" by (simp add: prune_def Let_def prune_oldest_small)
  then show ?thesis using assms by (simp add: bt.get_keep cdn_consts)
qed

lemma update_host_failure:
  "\<exists>c. 10 \<le> c \<and> hr_cooldown_until (update_host ob now seq True h) = Some (saturating_add now c)
     \<and> hr_updated_at (update_host ob now seq True h) = now"
  using cdn_cooldown_bounds(1) by (auto simp: update_host_def Let_def)

lemma record_representation_hosts:
  "hs_hosts (record_representation ob origin digest now f c im st) = hs_hosts st"
  by (simp add: record_representation_def prune_representation_top_k_def Let_def split: option.split)

text \<open>
  After a connection failure, a timeout or a server failure of one address, every address of the
  same origin is set aside by every ranking of the next ten seconds, for whatever request it is
  made, provided the table had room for the origin or knew it.
\<close>

theorem failed_origin_set_aside:
  assumes inv: "history_inv st" and origin: "canonical_origin parse url = Some origin"
    and failed: "ob_outcome ob \<in> {ConnectionFailure, TimeoutFailure, ServerFailure}"
    and room: "length (hs_hosts (prune now st)) < 256 \<or> hm_get (hs_hosts (prune now st)) origin \<noteq> None"
    and same: "canonical_origin parse u = Some origin"
    and t: "now \<le> t" "t < now + 10" "now + 10 \<le> u64_max"
    and ranked: "(ranked, st') = rank_request_at parse sha256 r t (record_at parse url ob digest now st)"
  shows "set_aside parse st' (representation_digest sha256 r) t u
    \<and> tier_of parse st' (representation_digest sha256 r) t u = 2"
proof -
  define st2 where "st2 = (prune now st)\<lparr>hs_sequence := saturating_add (hs_sequence st) 1\<rparr>"
  define e where "e = (case hm_get (hs_hosts st2) origin of
      Some e \<Rightarrow> e | None \<Rightarrow> fresh_host now (hs_sequence st2) False)"
  define h where "h = update_host ob now (hs_sequence st2) True e"
  define st4 where "st4 = record_representation ob origin digest now True False False
      (record_host ob origin now True False st2)"
  have inv2: "history_inv (prune now st)" using inv by (intro prune_inv history_inv_shape)
  then have wf: "bt_wf (hs_hosts st2)" by (simp add: st2_def history_inv_def)
  have rec: "record_at parse url ob digest now st = prune now st4"
    using failed origin by (auto simp: record_at_def Let_def is_transport_failure_def st2_def st4_def)
  have hosts: "hs_hosts st4 = bt_insert origin h (hs_hosts st2)"
    unfolding st4_def record_representation_hosts
    by (simp add: record_host_def Let_def h_def e_def)
  have "length (hs_hosts st4) \<le> 256"
    using room inv2 wf hm_get_None_iff [of "hs_hosts st2" origin]
    by (auto simp: hosts bt_length_insert st2_def history_inv_def cdn_consts)
  moreover have "bt_wf (hs_hosts st4)" "hm_get (hs_hosts st4) origin = Some h"
    using wf by (simp_all add: hosts)
  moreover obtain c where c: "10 \<le> c" "hr_cooldown_until h = Some (saturating_add now c)"
      "hr_updated_at h = now"
    using update_host_failure [of ob now "hs_sequence st2" e] unfolding h_def by blast
  ultimately have get: "hm_get (hs_hosts (prune now st4)) origin = Some h"
    by (intro prune_keeps_host) auto
  have "history_inv (prune now st4)"
    using record_at_inv [OF inv, of parse url ob digest now] by (simp add: rec)
  then have "hm_get (hs_hosts (prune t (prune now st4))) origin = Some h"
    using get c(3) t by (intro prune_keeps_host [of "prune now st4"]) (auto simp: history_inv_def cdn_consts)
  moreover have "st' = prune t (prune now st4)"
    using ranked by (simp add: rank_request_at_def Let_def rec)
  ultimately have "host_of parse st' u = Some h" by (simp add: host_of_def same)
  moreover have "t < saturating_add now c" using c(1) t by (simp add: saturating_add_def)
  ultimately have "set_aside parse st' (representation_digest sha256 r) t u"
    using c(2) by (simp add: set_aside_def active_def)
  then show ?thesis by (simp add: tier_of_2)
qed

section \<open>Witnesses\<close>

definition demo_request :: media_request where
  "demo_request = \<lparr>mr_kind = Video, mr_stream_id = Some 80, mr_url = ''https://a/x'',
     mr_backup_urls = [''https://b/x'', ''https://c/x''], mr_codecs = None, mr_bandwidth = None,
     mr_width = None, mr_height = None, mr_size = None, mr_duration_seconds = None,
     mr_cache_key = \<lparr>mk_content_id = ''av1'', mk_media_kind = Video, mk_stream_id = Some 80,
       mk_codecs = None, mk_source_hash = []\<rparr>\<rparr>"

text \<open>A parser that knows addresses whose host has one letter.\<close>

definition demo_url_parse :: url_parser where
  "demo_url_parse s =
     (if take 8 s = ''https://'' then
        Some \<lparr>pu_scheme = ''https'', pu_username = [], pu_password = None,
          pu_host = Some (Domain (take 1 (drop 8 s))), pu_port = None, pu_path = drop 9 s,
          pu_query = None, pu_fragment = None, pu_origin = take 9 s\<rparr>
      else None)"

definition demo_sha :: "nat list \<Rightarrow> nat list" where
  "demo_sha bs = replicate 32 (length bs mod 256)"

lemma demo_origin: "canonical_origin demo_url_parse ''https://a/x'' = Some ''https://a''"
  "canonical_origin demo_url_parse ''https://b/x'' = Some ''https://b''"
  "canonical_origin demo_url_parse ''https://c/x'' = Some ''https://c''"
  by code_simp+

lemma demo_candidates: "request_candidates demo_request = [''https://a/x'', ''https://b/x'', ''https://c/x'']"
  by (simp add: request_candidates_def demo_request_def)

theorem cdn_ranking_correct_witness:
  "drop 32 (fst (rank_request_at demo_url_parse demo_sha demo_request 5 history_default)) = []
   \<and> distinct (fst (rank_request_at demo_url_parse demo_sha demo_request 5 history_default))"
  using cdn_ranking_correct [OF prod.collapse, of demo_url_parse demo_sha demo_request 5 history_default]
  by (simp add: demo_candidates)

theorem range_rotation_correct_witness:
  "mset (fst (rank_request_for_range_at demo_url_parse demo_sha (\<lambda>s. s) demo_request 4 5 history_default))
     = {#''https://a/x'', ''https://b/x'', ''https://c/x''#}"
proof -
  have same: "fst (rank_request_at demo_url_parse demo_sha demo_request 5 history_default)
      = [''https://a/x'', ''https://b/x'', ''https://c/x'']"
    by (simp add: rank_request_at_def Let_def demo_candidates cdn_consts prune_def prune_oldest_def
        history_default_def hm_retain_def tap_sort_unknown host_of_def rep_of_def demo_origin
        split: option.split)
  show ?thesis
    using range_rotation_correct [OF prod.collapse refl refl, of demo_url_parse demo_sha "\<lambda>s. s"
        demo_request 4 5 history_default]
    by (auto simp: same)
qed

definition demo_failed :: history_state where
  "demo_failed = record_origin_at demo_url_parse ''https://a/x''
     (observation_new PlaybackSource TimeoutFailure 0) 100 history_default"

theorem cdn_history_bounded_witness:
  "reachable history_init (history_step demo_url_parse demo_sha) demo_failed
   \<and> length (hs_hosts demo_failed) \<le> 256"
proof -
  have "reachable history_init (history_step demo_url_parse demo_sha) demo_failed"
    by (rule reach_step [where s = history_default and l = "OpRecordOrigin ''https://a/x''
          (observation_new PlaybackSource TimeoutFailure 0) 100"])
      (auto intro: reach_init simp: history_init_def history_step_def demo_failed_def)
  then show ?thesis using cdn_history_bounded by blast
qed

theorem failed_origin_set_aside_witness:
  "tier_of demo_url_parse (snd (rank_request_at demo_url_parse demo_sha demo_request 109 demo_failed))
     (representation_digest demo_sha demo_request) 109 ''https://a/x'' = 2"
  using failed_origin_set_aside [OF history_default_inv demo_origin(1) _ _ demo_origin(1) _ _ _ prod.collapse,
      of "observation_new PlaybackSource TimeoutFailure 0" 100 109 demo_sha demo_request None]
  by (simp add: demo_failed_def record_origin_at_def observation_new_def prune_def prune_oldest_def
      hm_retain_def history_default_def)

end
