(* ===== verification/Cdn_Reload.thy ===== *)
theory Cdn_Reload
  imports Cdn_Ranking
begin

text \<open>
  What \<open>validate_loaded_state\<close> of \<open>cdn_history.rs\<close> accepts: a state that the running server built
  passes it unchanged, as long as its clock did not go backwards, so nothing that was learned is
  lost over a restart. The hypotheses on the parameters state documented behaviour: a SHA-256 value
  has 32 bytes, and the serialized origin of a URL is a URL with that origin.
\<close>

section \<open>Well-formed identifiers\<close>

definition sha_ok :: "(nat list \<Rightarrow> nat list) \<Rightarrow> bool" where
  "sha_ok sha256 \<longleftrightarrow> (\<forall>bs. length (sha256 bs) = 32 \<and> (\<forall>b \<in> set (sha256 bs). b < 256))"

definition origins_ok :: "url_parser \<Rightarrow> bool" where
  "origins_ok parse \<longleftrightarrow>
     (\<forall>u origin. canonical_origin parse u = Some origin \<longrightarrow> canonical_origin parse origin = Some origin)"

lemma hex_char_digit: "n < 16 \<Longrightarrow> is_ascii_hexdigit (hex_char n)"
proof -
  have "\<forall>n \<in> {0..<16}. is_ascii_hexdigit (hex_char n)" by code_simp
  then show "n < 16 \<Longrightarrow> is_ascii_hexdigit (hex_char n)" by simp
qed

lemma length_hex_digest [simp]: "length (hex_digest bs) = 2 * length bs"
  by (induction bs) (simp_all add: hex_digest_def)

lemma hex_digest_digits: "\<forall>b \<in> set bs. b < 256 \<Longrightarrow> list_all is_ascii_hexdigit (hex_digest bs)"
  by (induction bs) (auto simp: hex_digest_def hex_char_digit)

definition digest_ok :: "string \<Rightarrow> bool" where
  "digest_ok d \<longleftrightarrow> length d = 64 \<and> list_all is_ascii_hexdigit d"

lemma representation_digest_ok:
  "sha_ok sha256 \<Longrightarrow> representation_digest sha256 r = Some d \<Longrightarrow> digest_ok d"
  by (auto simp: sha_ok_def digest_ok_def representation_digest_def hex_digest_digits split: if_splits)

section \<open>The history with a clock\<close>

fun op_now :: "history_op \<Rightarrow> nat" where
  "op_now (OpRankRequest r now) = now"
| "op_now (OpRankRange r chunk now) = now"
| "op_now (OpRecordRequest r url ob now) = now"
| "op_now (OpRecordOrigin url ob now) = now"

text \<open>Runs in which the wall clock does not go backwards; the state carries the last time.\<close>

definition clocked_step ::
  "url_parser \<Rightarrow> (nat list \<Rightarrow> nat list) \<Rightarrow> nat \<times> history_state \<Rightarrow> history_op \<Rightarrow> nat \<times> history_state \<Rightarrow> bool" where
  "clocked_step parse sha256 s l t \<longleftrightarrow>
     fst s \<le> op_now l \<and> t = (op_now l, history_apply parse sha256 l (snd s))"

definition clocked_init :: "nat \<times> history_state \<Rightarrow> bool" where
  "clocked_init s \<longleftrightarrow> snd s = history_default"

definition host_valid :: "url_parser \<Rightarrow> nat \<Rightarrow> string \<Rightarrow> host_record \<Rightarrow> bool" where
  "host_valid parse clock origin h \<longleftrightarrow> canonical_origin parse origin = Some origin
     \<and> hr_updated_at h \<le> clock
     \<and> cooldown_plausible (hr_cooldown_until h) (hr_updated_at h) CDN_MAX_COOLDOWN_SECS"

definition rep_valid :: "url_parser \<Rightarrow> nat \<Rightarrow> string \<Rightarrow> representation_record \<Rightarrow> bool" where
  "rep_valid parse clock k r \<longleftrightarrow> k = representation_map_key (rp_digest r) (rp_origin r)
     \<and> digest_ok (rp_digest r) \<and> canonical_origin parse (rp_origin r) = Some (rp_origin r)
     \<and> rp_updated_at r \<le> clock
     \<and> cooldown_plausible (rp_cooldown_until r) (rp_updated_at r) CDN_MAX_COOLDOWN_SECS
     \<and> cooldown_plausible (rp_quarantined_until r) (rp_updated_at r) REPRESENTATION_TTL_SECS"

definition all_valid :: "url_parser \<Rightarrow> nat \<Rightarrow> history_state \<Rightarrow> bool" where
  "all_valid parse clock st \<longleftrightarrow> bt_wf (hs_hosts st) \<and> bt_wf (hs_representations st)
     \<and> (\<forall>k h. hm_get (hs_hosts st) k = Some h \<longrightarrow> host_valid parse clock k h)
     \<and> (\<forall>k r. hm_get (hs_representations st) k = Some r \<longrightarrow> rep_valid parse clock k r)"

definition clocked_inv :: "url_parser \<Rightarrow> nat \<times> history_state \<Rightarrow> bool" where
  "clocked_inv parse s \<longleftrightarrow> history_inv (snd s) \<and> all_valid parse (fst s) (snd s)"

lemma history_default_valid: "all_valid parse c history_default"
  by (simp add: all_valid_def history_default_def)

lemma all_valid_later: "all_valid parse c st \<Longrightarrow> c \<le> now \<Longrightarrow> all_valid parse now st"
  unfolding all_valid_def host_valid_def rep_valid_def by (meson le_trans)

lemma prune_valid:
  assumes "all_valid parse c st"
  shows "all_valid parse c (prune now st)"
proof -
  obtain P Q where "hs_hosts (prune now st) = hm_retain P (hs_hosts st)"
    "hs_representations (prune now st) = hm_retain Q (hs_representations st)"
    using prune_retain by blast
  then show ?thesis using assms by (auto simp: all_valid_def dest: bt.keep_only)
qed

lemma plausible_later:
  "cooldown_plausible limit updated ttl \<Longrightarrow> updated \<le> now \<Longrightarrow> cooldown_plausible limit now ttl"
  by (auto simp: cooldown_plausible_def saturating_add_def split: option.splits)

lemma plausible_cooldown:
  "cooldown_plausible (Some (saturating_add now (cdn_cooldown_secs n))) now CDN_MAX_COOLDOWN_SECS"
  using cdn_cooldown_bounds(2) [of n]
  by (simp add: cooldown_plausible_def cdn_consts saturating_add_mono)

lemma plausible_simps [simp]: "cooldown_plausible None now ttl"
  "cooldown_plausible (Some (saturating_add now ttl)) now ttl"
  by (simp_all add: cooldown_plausible_def)

lemma record_host_valid:
  assumes "all_valid parse now st" and "canonical_origin parse origin = Some origin"
  shows "all_valid parse now (record_host ob origin now failure completed st)"
proof (cases "failure \<or> completed")
  case True
  have "host_valid parse now origin (update_host ob now seq failure e)" for seq e
    using assms(2) by (auto simp: host_valid_def update_host_def Let_def plausible_cooldown split: prod.split)
  with True assms(1) show ?thesis by (auto simp: record_host_def Let_def all_valid_def)
qed (use assms in \<open>simp add: record_host_def\<close>)

lemma update_representation_valid:
  assumes "rep_valid parse now k e"
  shows "rep_valid parse now k (update_representation ob now seq failure im e)"
proof -
  have "cooldown_plausible (rp_cooldown_until e) now CDN_MAX_COOLDOWN_SECS"
    "cooldown_plausible (rp_quarantined_until e) now REPRESENTATION_TTL_SECS"
    using assms plausible_later by (auto simp: rep_valid_def)
  then show ?thesis
    using assms
    by (auto simp: rep_valid_def update_representation_def Let_def plausible_cooldown split: prod.split)
qed

lemma record_representation_valid:
  assumes "all_valid parse now st" and "canonical_origin parse origin = Some origin"
    and "\<And>d. digest = Some d \<Longrightarrow> digest_ok d"
  shows "all_valid parse now (record_representation ob origin digest now failure completed im st)"
proof (cases "\<exists>d. digest = Some d \<and> (completed \<or> failure \<or> im)")
  case True
  then obtain d where d: "digest = Some d" "completed \<or> failure \<or> im" by blast
  define k where "k = representation_map_key d origin"
  define e where "e = (case hm_get (hs_representations st) k of
      Some e \<Rightarrow> e | None \<Rightarrow> fresh_representation d origin now (hs_sequence st) (failure \<or> im))"
  define st1 where "st1 = st\<lparr>hs_representations := bt_insert k
      (update_representation ob now (hs_sequence st) failure im e) (hs_representations st)\<rparr>"
  have eq: "record_representation ob origin digest now failure completed im st =
      prune_representation_top_k d st1"
    unfolding record_representation_def st1_def e_def k_def using d by (simp add: Let_def)
  obtain Q where Q: "prune_representation_top_k d st1 =
      st1\<lparr>hs_representations := hm_retain Q (hs_representations st1)\<rparr>"
    using top_k_retain by blast
  have "rep_valid parse now k e"
    using assms d(1)
    by (auto simp: e_def all_valid_def rep_valid_def fresh_representation_def k_def split: option.split)
  then have "all_valid parse now st1"
    using assms(1) update_representation_valid by (auto simp: st1_def all_valid_def)
  then show ?thesis
    unfolding eq Q all_valid_def by (auto dest: bt.keep_only)
next
  case False
  then show ?thesis using assms(1) by (auto simp: record_representation_def split: option.split)
qed

lemma all_valid_sequence [simp]: "all_valid parse c (st\<lparr>hs_sequence := n\<rparr>) = all_valid parse c st"
  by (simp add: all_valid_def)

lemma record_at_valid:
  assumes "all_valid parse c st" "c \<le> now" "origins_ok parse" "\<And>d. digest = Some d \<Longrightarrow> digest_ok d"
  shows "all_valid parse now (record_at parse url ob digest now st)"
  using assms(3) all_valid_later [OF assms(1,2)] assms(4)
  by (auto simp: record_at_def Let_def origins_ok_def
      intro!: prune_valid record_representation_valid record_host_valid split: option.split)

lemma clocked_step_inv:
  assumes "sha_ok sha256" "origins_ok parse" "clocked_inv parse s" "clocked_step parse sha256 s l t"
  shows "clocked_inv parse t"
proof -
  have "all_valid parse (op_now l) (history_apply parse sha256 l (snd s))"
    using assms all_valid_later [of parse "fst s" "snd s" "op_now l"]
      record_at_valid [of parse "fst s" "snd s"] representation_digest_ok [OF assms(1)]
    by (cases l)
      (auto simp: clocked_step_def clocked_inv_def rank_request_at_def rank_request_for_range_at_def
        record_request_at_def record_origin_at_def Let_def intro!: prune_valid)
  with assms(3,4) show ?thesis
    by (auto simp: clocked_inv_def clocked_step_def history_apply_inv)
qed

section \<open>Reloading\<close>

lemma hm_retain_all: "hm_wf m \<Longrightarrow> (\<And>k v. hm_get m k = Some v \<Longrightarrow> P k v) \<Longrightarrow> hm_retain P m = m"
  unfolding hm_retain_def by (rule filter_True) (auto simp: hm_get_Some_iff)

lemma prune_digests_id:
  "(\<And>d. digest_count d (hs_representations st) \<le> 3) \<Longrightarrow> prune_digests ds st = st"
  unfolding prune_digests_def by (induction ds) (simp_all add: top_k_id)

text \<open>
  Every state that the history reaches while the clock does not go backwards passes the
  validation of a loaded file unchanged, in whatever order the digests are visited, if its origins
  have at most 512 bytes and no origin failed more than a million times in a row.
\<close>

theorem reload_keeps_history:
  assumes params: "sha_ok sha256" "origins_ok parse"
    and run: "reachable clocked_init (clocked_step parse sha256) (clock, st)"
    and small: "\<forall>(origin, h) \<in> set (hs_hosts st). length origin \<le> 512 \<and> hr_failures h \<le> 1000000"
  shows "validate_loaded_state parse order st = st"
proof -
  have "clocked_inv parse s" if "reachable clocked_init (clocked_step parse sha256) s" for s
    using that
  proof induction
    case (reach_init s)
    then show ?case
      by (simp add: clocked_init_def clocked_inv_def history_default_inv history_default_valid)
  next
    case (reach_step s l t)
    then show ?case using clocked_step_inv [OF params] by blast
  qed
  then have inv: "history_inv st" "all_valid parse clock st" using run by (auto simp: clocked_inv_def)
  then have wf: "hm_wf (hs_hosts st)" "hm_wf (hs_representations st)"
    by (simp_all add: all_valid_def bt_wf_hm_wf)
  have hosts: "hm_retain (\<lambda>origin r. canonical_origin parse origin = Some origin
      \<and> cooldown_plausible (hr_cooldown_until r) (hr_updated_at r) CDN_MAX_COOLDOWN_SECS) (hs_hosts st) = hs_hosts st"
    using inv(2) by (intro hm_retain_all wf) (auto simp: all_valid_def host_valid_def)
  have reps: "hm_retain (\<lambda>k r. k = representation_map_key (rp_digest r) (rp_origin r)
      \<and> length (rp_digest r) = 64 \<and> list_all is_ascii_hexdigit (rp_digest r)
      \<and> canonical_origin parse (rp_origin r) = Some (rp_origin r)
      \<and> cooldown_plausible (rp_cooldown_until r) (rp_updated_at r) CDN_MAX_COOLDOWN_SECS
      \<and> cooldown_plausible (rp_quarantined_until r) (rp_updated_at r) REPRESENTATION_TTL_SECS)
      (hs_representations st) = hs_representations st"
    using inv(2) by (intro hm_retain_all wf) (auto simp: all_valid_def rep_valid_def digest_ok_def)
  have last: "hm_retain (\<lambda>origin r. length origin \<le> 512 \<and> hr_failures r \<le> 1000000) (hs_hosts st) = hs_hosts st"
    using small by (intro hm_retain_all wf) (auto simp: hm_get_Some_iff wf)
  have "prune_digests ds st = st" for ds
    using inv(1) by (intro prune_digests_id) (simp add: history_inv_def)
  then show ?thesis
    by (simp add: validate_loaded_state_def Let_def hosts reps last)
qed

section \<open>Witness\<close>

lemma demo_sha_ok: "sha_ok demo_sha"
  by (simp add: sha_ok_def demo_sha_def)

lemma demo_origins_ok: "origins_ok demo_url_parse"
  by (auto simp: origins_ok_def canonical_origin_def demo_url_parse_def min_def split: if_splits)

lemma demo_failed_reached: "reachable clocked_init (clocked_step demo_url_parse demo_sha) (100, demo_failed)"
  by (rule reach_step [where s = "(0, history_default)" and l = "OpRecordOrigin ''https://a/x''
        (observation_new PlaybackSource TimeoutFailure 0) 100"])
    (auto intro: reach_init simp: clocked_init_def clocked_step_def demo_failed_def)

lemma demo_failed_hosts: "\<forall>(origin, h) \<in> set (hs_hosts demo_failed). length origin \<le> 512 \<and> hr_failures h \<le> 1000000"
  by (simp add: demo_failed_def record_origin_at_def record_at_def demo_origin prune_def
      prune_oldest_def hm_retain_def history_default_def observation_new_def is_transport_failure_def
      record_host_def record_representation_def fresh_host_def update_host_def cdn_consts
      saturating_add32_def Let_def)

theorem reload_keeps_history_witness:
  "validate_loaded_state demo_url_parse (\<lambda>_. []) demo_failed = demo_failed"
  by (rule reload_keeps_history [OF demo_sha_ok demo_origins_ok demo_failed_reached demo_failed_hosts])

end
