(* ===== verification/Http_Ranges.thy ===== *)
theory Http_Ranges
  imports Rust_Text
begin

text \<open>
  Byte ranges in the media service (\<open>media.rs\<close>): the \<open>Range\<close> and \<open>Content-Range\<close> headers, when an
  upstream answer to a range request is refused, and the answer that serves an opened file. A
  header value is a byte sequence, a header map the list of its entries with lower-case names. The
  HTTP date functions are parameters.
\<close>

section \<open>Headers and responses\<close>

type_synonym header_map = "(string \<times> string) list"

text \<open>\<open>HeaderValue::to_str\<close> and \<open>HeaderValue::from_str\<close>.\<close>

definition visible :: "char \<Rightarrow> bool" where
  "visible c = (let b = (of_char c :: nat) in (32 \<le> b \<and> b < 127) \<or> b = 9)"

definition to_str :: "string \<Rightarrow> string option" where
  "to_str v = (if list_all visible v then Some v else None)"

definition header_from_str :: "string \<Rightarrow> string option" where
  "header_from_str v =
     (if list_all (\<lambda>c. let b = (of_char c :: nat) in (32 \<le> b \<and> b \<noteq> 127) \<or> b = 9) v then Some v else None)"

definition header_get :: "header_map \<Rightarrow> string \<Rightarrow> string option" where
  "header_get h name = map_of h name"

definition header_get_all :: "header_map \<Rightarrow> string \<Rightarrow> string list" where
  "header_get_all h name = map snd (filter (\<lambda>(n, _). n = name) h)"

record http_response =
  hp_status :: nat
  hp_headers :: "(string, string) hmap"
  hp_body :: string

definition empty_response :: "nat \<Rightarrow> http_response" where
  "empty_response status = \<lparr>hp_status = status, hp_headers = [], hp_body = []\<rparr>"

definition with_header :: "string \<Rightarrow> string \<Rightarrow> http_response \<Rightarrow> http_response" where
  "with_header name v r = r\<lparr>hp_headers := hm_insert name v (hp_headers r)\<rparr>"

definition is_success :: "nat \<Rightarrow> bool" where
  "is_success status = (200 \<le> status \<and> status < 300)"

definition is_server_error :: "nat \<Rightarrow> bool" where
  "is_server_error status = (500 \<le> status \<and> status < 600)"

section \<open>Range headers\<close>

record byte_range =
  br_start :: nat
  br_end :: nat

definition range_length :: "byte_range \<Rightarrow> nat" where
  "range_length r = br_end r - br_start r + 1"

text \<open>\<open>Inl ()\<close> is \<open>Err(())\<close>, \<open>Inr None\<close> is \<open>Ok(None)\<close>.\<close>

definition parse_range :: "string option \<Rightarrow> nat \<Rightarrow> unit + byte_range option" where
  "parse_range header file_size =
     (case header of
        None \<Rightarrow> Inr None
      | Some h \<Rightarrow>
     (case to_str h of
        None \<Rightarrow> Inl ()
      | Some v \<Rightarrow>
     (case strip_prefix ''bytes='' v of
        None \<Rightarrow> Inl ()
      | Some spec \<Rightarrow>
          if CHR '','' \<in> set spec \<or> file_size = 0 then Inl ()
          else
     (case split_once CHR ''-'' spec of
        None \<Rightarrow> Inl ()
      | Some (start, end_text) \<Rightarrow>
          if start = [] then
            (case parse_u64 end_text of
               None \<Rightarrow> Inl ()
             | Some suffix_length \<Rightarrow>
                 if suffix_length = 0 then Inl ()
                 else Inr (Some \<lparr>br_start = file_size - suffix_length, br_end = file_size - 1\<rparr>))
          else
            (case parse_u64 start of
               None \<Rightarrow> Inl ()
             | Some start_number \<Rightarrow>
                 if start_number \<ge> file_size then Inl ()
                 else
                   let finish = (\<lambda>last. if last < start_number then Inl ()
                                 else Inr (Some \<lparr>br_start = start_number, br_end = last\<rparr>))
                   in if end_text = [] then finish (file_size - 1)
                      else (case parse_u64 end_text of
                              None \<Rightarrow> Inl ()
                            | Some e \<Rightarrow> finish (min e (file_size - 1))))))))"

definition range_header_is_well_formed :: "string \<Rightarrow> bool" where
  "range_header_is_well_formed header =
     (case to_str header of
        None \<Rightarrow> False
      | Some v \<Rightarrow>
     (case strip_prefix ''bytes='' v of
        None \<Rightarrow> False
      | Some spec \<Rightarrow>
          if CHR '','' \<in> set spec then False
          else
     (case split_once CHR ''-'' spec of
        None \<Rightarrow> False
      | Some (start, end_text) \<Rightarrow>
          if start = [] then (case parse_u64 end_text of Some n \<Rightarrow> n > 0 | None \<Rightarrow> False)
          else parse_u64 start \<noteq> None \<and> (end_text = [] \<or> parse_u64 end_text \<noteq> None))))"

definition single_range_header :: "header_map \<Rightarrow> unit + string option" where
  "single_range_header headers =
     (case header_get_all headers ''range'' of
        [] \<Rightarrow> Inr None
      | [first] \<Rightarrow> Inr (Some first)
      | _ \<Rightarrow> Inl ())"

section \<open>Upstream answers\<close>

definition content_range_byte_range :: "header_map \<Rightarrow> (byte_range \<times> nat) option" where
  "content_range_byte_range headers =
     Option.bind (header_get headers ''content-range'') (\<lambda>h.
     Option.bind (to_str h) (\<lambda>v.
     Option.bind (strip_prefix ''bytes '' v) (\<lambda>spec.
     Option.bind (rsplit_once CHR ''/'' spec) (\<lambda>(rng, tot).
       if tot = ''*'' then None
       else
     Option.bind (parse_u64 tot) (\<lambda>total_length.
     Option.bind (split_once CHR ''-'' rng) (\<lambda>(start, end_text).
     Option.bind (parse_u64 start) (\<lambda>s.
     Option.bind (parse_u64 end_text) (\<lambda>e.
       if total_length = 0 \<or> s > e \<or> e \<ge> total_length then None
       else Some (\<lparr>br_start = s, br_end = e\<rparr>, total_length)))))))))"

definition range_response_invalid ::
  "string option \<Rightarrow> nat \<Rightarrow> header_map \<Rightarrow> nat option \<Rightarrow> bool" where
  "range_response_invalid requested_range status headers expected_total_length =
     (case requested_range of
        None \<Rightarrow> False
      | Some requested \<Rightarrow>
          if \<not> is_success status then False
          else if status \<noteq> 206 then True
          else
     (case content_range_byte_range headers of
        None \<Rightarrow> True
      | Some (returned_range, total_length) \<Rightarrow>
          if (case expected_total_length of Some e \<Rightarrow> e \<noteq> total_length | None \<Rightarrow> False) then True
          else
     (case parse_range (Some requested) total_length of
        Inr (Some expected_range) \<Rightarrow> returned_range \<noteq> expected_range
      | _ \<Rightarrow> True)))"

definition expected_media_body_bytes ::
  "header_map \<Rightarrow> nat \<Rightarrow> string option \<Rightarrow> nat option \<Rightarrow> nat option" where
  "expected_media_body_bytes headers status requested_range known_total_length =
     (let declared_length = Option.bind (header_get headers ''content-length'')
            (\<lambda>v. Option.bind (to_str v) parse_u64)
      in case requested_range of
           Some requested \<Rightarrow>
             Option.bind (content_range_byte_range headers) (\<lambda>(returned_range, total_length).
               if status \<noteq> 206 then None
               else if (case known_total_length of Some known \<Rightarrow> known \<noteq> total_length | None \<Rightarrow> False)
               then None
               else (case parse_range (Some requested) total_length of
                       Inr (Some r) \<Rightarrow> if r \<noteq> returned_range then None
                                      else Some (range_length returned_range)
                     | _ \<Rightarrow> None))
         | None \<Rightarrow> (case known_total_length of Some n \<Rightarrow> Some n | None \<Rightarrow> declared_length))"

definition should_retry_hls_upstream_status :: "nat \<Rightarrow> bool" where
  "should_retry_hls_upstream_status status =
     (is_server_error status \<or> status \<in> set [401, 403, 404, 410, 429])"

definition is_expired_media_status :: "nat \<Rightarrow> bool" where
  "is_expired_media_status status = (status \<in> set [401, 403, 404, 410])"

section \<open>Serving a file\<close>

record opened_media_file =
  of_content :: string
  of_seek_ok :: bool
  of_content_type :: string
  of_last_modified :: int
  of_size_bytes :: nat

definition content_type_header_value :: "string \<Rightarrow> string" where
  "content_type_header_value v =
     (if v = [] then ''application/octet-stream''
      else case header_from_str v of Some h \<Rightarrow> h | None \<Rightarrow> ''application/octet-stream'')"

definition content_range_text :: "nat \<Rightarrow> nat \<Rightarrow> nat \<Rightarrow> string" where
  "content_range_text s e tot = ''bytes '' @ decimal s @ ''-'' @ decimal e @ ''/'' @ decimal tot"

definition build_file_response ::
  "(int \<Rightarrow> string) \<Rightarrow> opened_media_file \<Rightarrow> byte_range option \<Rightarrow> bool \<Rightarrow> http_response" where
  "build_file_response fmt_http_date file rng head_only =
     (let file_size = of_size_bytes file;
          (status, start, len, content_range) = (case rng of
             Some r \<Rightarrow> (206, br_start r, range_length r,
                        Some (content_range_text (br_start r) (br_end r) file_size))
           | None \<Rightarrow> (200, 0, file_size, None))
      in if \<not> head_only \<and> \<not> of_seek_ok file then empty_response 404
         else
           let body = (if head_only then [] else take len (drop start (of_content file)));
               response = \<lparr>hp_status = status,
                 hp_headers = [(''content-type'', content_type_header_value (of_content_type file)),
                   (''accept-ranges'', ''bytes''), (''content-length'', decimal len),
                   (''last-modified'', fmt_http_date (of_last_modified file))],
                 hp_body = body\<rparr>
           in case content_range of
                Some v \<Rightarrow> with_header ''content-range'' v response
              | None \<Rightarrow> response)"

definition unsatisfiable_text :: "nat \<Rightarrow> string" where
  "unsatisfiable_text n = ''bytes */'' @ decimal n"

text \<open>\<open>opened\<close> is what the library opened for the item and the variant.\<close>

definition media_response ::
  "(int \<Rightarrow> string) \<Rightarrow> opened_media_file option \<Rightarrow> header_map \<Rightarrow> bool \<Rightarrow> http_response" where
  "media_response fmt_http_date opened headers head_only =
     (case opened of
        None \<Rightarrow> empty_response 404
      | Some file \<Rightarrow>
          (case parse_range (header_get headers ''range'') (of_size_bytes file) of
             Inr rng \<Rightarrow> build_file_response fmt_http_date file rng head_only
           | Inl _ \<Rightarrow> with_header ''content-range'' (unsatisfiable_text (of_size_bytes file))
                        (empty_response 416)))"

section \<open>The meaning of a range request\<close>

text \<open>The three forms of a range, how they are written, and the positions they ask for.\<close>

datatype range_spec = FromTo nat nat | FromOn nat | LastBytes nat

fun spec_text :: "range_spec \<Rightarrow> string" where
  "spec_text (FromTo a b) = ''bytes='' @ decimal a @ ''-'' @ decimal b"
| "spec_text (FromOn a) = ''bytes='' @ decimal a @ ''-''"
| "spec_text (LastBytes n) = ''bytes=-'' @ decimal n"

fun spec_positions :: "range_spec \<Rightarrow> nat \<Rightarrow> nat set" where
  "spec_positions (FromTo a b) n = {i. a \<le> i \<and> i \<le> b \<and> i < n}"
| "spec_positions (FromOn a) n = {i. a \<le> i \<and> i < n}"
| "spec_positions (LastBytes k) n = {i. n - k \<le> i \<and> i < n}"

fun spec_fits :: "range_spec \<Rightarrow> bool" where
  "spec_fits (FromTo a b) \<longleftrightarrow> a \<le> u64_max \<and> b \<le> u64_max"
| "spec_fits (FromOn a) \<longleftrightarrow> a \<le> u64_max"
| "spec_fits (LastBytes k) \<longleftrightarrow> k \<le> u64_max"

definition range_positions :: "byte_range \<Rightarrow> nat set" where
  "range_positions r = {i. br_start r \<le> i \<and> i \<le> br_end r}"

section \<open>Lemmas\<close>

lemma to_str_decimal_parts:
  "list_all visible (decimal n)"
proof -
  have "visible c" if "is_digit c" for c
    using that by (auto simp: is_digit_def digit_value_def visible_def Let_def split: if_splits)
  then show ?thesis using decimal_digits [of n] by (auto simp: list_all_iff)
qed

lemma to_str_spec [simp]: "to_str (spec_text s) = Some (spec_text s)"
proof -
  have "visible CHR ''b''" "visible CHR ''y''" "visible CHR ''t''" "visible CHR ''e''"
    "visible CHR ''s''" "visible CHR ''=''" "visible CHR ''-''"
    by code_simp+
  then show ?thesis by (cases s) (simp_all add: to_str_def to_str_decimal_parts)
qed

lemma to_str_content_range [simp]:
  "to_str (content_range_text s e t) = Some (content_range_text s e t)"
proof -
  have "visible CHR ''b''" "visible CHR ''y''" "visible CHR ''t''" "visible CHR ''e''"
    "visible CHR ''s''" "visible CHR '' ''" "visible CHR ''-''" "visible CHR ''/''"
    by code_simp+
  then show ?thesis by (simp add: to_str_def to_str_decimal_parts content_range_text_def)
qed

lemma split_decimal [simp]:
  "split_once CHR ''-'' (decimal a @ CHR ''-'' # b) = Some (decimal a, b)"
  by (simp add: split_once_append decimal_not_in not_digit)

lemma no_comma [simp]: "CHR '','' \<notin> set (decimal n)"
  by (simp add: decimal_not_in not_digit)

lemma parse_range_FromTo:
  assumes "a \<le> u64_max" "b \<le> u64_max"
  shows "parse_range (Some (spec_text (FromTo a b))) n =
    (if n = 0 \<or> n \<le> a \<or> min b (n - 1) < a then Inl ()
     else Inr (Some \<lparr>br_start = a, br_end = min b (n - 1)\<rparr>))"
proof -
  have p: "strip_prefix ''bytes='' (spec_text (FromTo a b)) = Some (decimal a @ CHR ''-'' # decimal b)"
    by (simp add: strip_prefix_def)
  show ?thesis
    unfolding parse_range_def option.case to_str_spec p
    using assms by (auto simp: Let_def min_def)
qed

lemma parse_range_FromOn:
  assumes "a \<le> u64_max"
  shows "parse_range (Some (spec_text (FromOn a))) n =
    (if n = 0 \<or> n \<le> a then Inl () else Inr (Some \<lparr>br_start = a, br_end = n - 1\<rparr>))"
proof -
  have p: "strip_prefix ''bytes='' (spec_text (FromOn a)) = Some (decimal a @ CHR ''-'' # [])"
    by (simp add: strip_prefix_def)
  show ?thesis
    unfolding parse_range_def option.case to_str_spec p
    using assms by (auto simp: Let_def min_def)
qed

lemma parse_range_LastBytes:
  assumes "k \<le> u64_max"
  shows "parse_range (Some (spec_text (LastBytes k))) n =
    (if n = 0 \<or> k = 0 then Inl () else Inr (Some \<lparr>br_start = n - k, br_end = n - 1\<rparr>))"
proof -
  have p: "strip_prefix ''bytes='' (spec_text (LastBytes k)) = Some (CHR ''-'' # decimal k)"
    by (simp add: strip_prefix_def)
  show ?thesis
    unfolding parse_range_def option.case to_str_spec p
    using assms by simp
qed

lemma take_drop_upt_map: "s + k \<le> length xs \<Longrightarrow> take k (drop s xs) = map (nth xs) [s..<s + k]"
  by (rule nth_equalityI) auto

lemma parse_range_inside:
  "parse_range h n = Inr (Some r) \<Longrightarrow> br_start r \<le> br_end r \<and> br_end r < n"
  by (auto simp: parse_range_def Let_def split: option.splits if_splits prod.splits)

lemma content_range_roundtrip:
  assumes "e < t" "s \<le> e" "t \<le> u64_max" and "header_get headers ''content-range'' = Some (content_range_text s e t)"
  shows "content_range_byte_range headers = Some (\<lparr>br_start = s, br_end = e\<rparr>, t)"
proof -
  have p: "strip_prefix ''bytes '' (content_range_text s e t) =
      Some ((decimal s @ CHR ''-'' # decimal e) @ CHR ''/'' # decimal t)"
    by (simp add: strip_prefix_def content_range_text_def)
  have star: "decimal t \<noteq> ''*''"
    using decimal_digits [of t] not_digit(5) by (metis list.set_intros(1))
  have "rsplit_once CHR ''/'' ((decimal s @ CHR ''-'' # decimal e) @ CHR ''/'' # decimal t) =
      Some (decimal s @ CHR ''-'' # decimal e, decimal t)"
    by (rule rsplit_once_append) (simp add: decimal_not_in not_digit)
  then show ?thesis
    using assms p star by (simp add: content_range_byte_range_def)
qed

section \<open>Properties\<close>

text \<open>
  C15. A range request in any of the three forms is answered with exactly the positions of the file
  that it asks for, as one interval; it is refused exactly when there is none, in particular for an
  empty file, a start behind the end of the file and a suffix of length zero. Whatever the header
  is, an accepted range lies inside the file.
\<close>

theorem parse_range_exact:
  assumes "spec_fits s"
  shows "parse_range (Some (spec_text s)) n =
      (if spec_positions s n = {} then Inl ()
       else Inr (Some \<lparr>br_start = Min (spec_positions s n), br_end = Max (spec_positions s n)\<rparr>))
    \<and> (\<forall>h r. parse_range h n = Inr (Some r) \<longrightarrow> range_positions r \<noteq> {} \<and> range_positions r \<subseteq> {..<n})"
proof
  have interval: "P = {a..b} \<Longrightarrow> a \<le> b \<Longrightarrow> Min P = a \<and> Max P = b" for P and a b :: nat
    by (auto intro!: Min_eqI Max_eqI)
  show "parse_range (Some (spec_text s)) n =
      (if spec_positions s n = {} then Inl ()
       else Inr (Some \<lparr>br_start = Min (spec_positions s n), br_end = Max (spec_positions s n)\<rparr>))"
  proof (cases s)
    case (FromTo a b)
    have "spec_positions s n = (if n = 0 \<or> n \<le> a \<or> min b (n - 1) < a then {} else {a..min b (n - 1)})"
      by (auto simp: FromTo)
    then show ?thesis
      using assms interval [of "spec_positions s n" a "min b (n - 1)"]
      unfolding FromTo by (subst parse_range_FromTo) (auto simp del: spec_positions.simps spec_text.simps)
  next
    case (FromOn a)
    have "spec_positions s n = (if n = 0 \<or> n \<le> a then {} else {a..n - 1})" by (auto simp: FromOn)
    then show ?thesis
      using assms interval [of "spec_positions s n" a "n - 1"]
      unfolding FromOn by (subst parse_range_FromOn) (auto simp del: spec_positions.simps spec_text.simps)
  next
    case (LastBytes k)
    have "spec_positions s n = (if n = 0 \<or> k = 0 then {} else {n - k..n - 1})" by (auto simp: LastBytes)
    then show ?thesis
      using assms interval [of "spec_positions s n" "n - k" "n - 1"]
      unfolding LastBytes by (subst parse_range_LastBytes) (auto simp del: spec_positions.simps spec_text.simps)
  qed
  show "\<forall>h r. parse_range h n = Inr (Some r) \<longrightarrow> range_positions r \<noteq> {} \<and> range_positions r \<subseteq> {..<n}"
    by (auto simp: range_positions_def dest!: parse_range_inside)
qed

text \<open>
  C16. The service and its own check of upstream answers agree: what \<open>media_response\<close> answers to a
  range request is never refused by \<open>range_response_invalid\<close> for the same request, and its body has
  the length that \<open>expected_media_body_bytes\<close> computes from its headers; the body is the requested
  part of the file.
\<close>

theorem media_response_accepted:
  assumes fil: "length (of_content f) = of_size_bytes f" "of_size_bytes f \<le> u64_max" "of_seek_ok f"
    and req: "header_get headers ''range'' = Some h"
    and r: "r = media_response fmt (Some f) headers False"
  shows "\<not> range_response_invalid (Some h) (hp_status r) (hp_headers r) (Some (of_size_bytes f))
    \<and> (is_success (hp_status r) \<longrightarrow>
        (\<exists>rng. parse_range (Some h) (of_size_bytes f) = Inr (Some rng)
          \<and> hp_status r = 206
          \<and> hp_body r = map (nth (of_content f)) [br_start rng..<Suc (br_end rng)]
          \<and> expected_media_body_bytes (hp_headers r) (hp_status r) (Some h) None = Some (length (hp_body r))))"
proof (cases "parse_range (Some h) (of_size_bytes f)")
  case (Inl e)
  then show ?thesis
    by (simp add: r media_response_def req with_header_def empty_response_def range_response_invalid_def
        is_success_def)
next
  case (Inr x)
  then obtain rng where rng: "parse_range (Some h) (of_size_bytes f) = Inr (Some rng)"
    by (cases x) (auto simp: parse_range_def Let_def split: option.splits if_splits prod.splits)
  note inside = parse_range_inside [OF rng]
  have r_eq: "r = build_file_response fmt f (Some rng) False"
    using r req rng by (simp add: media_response_def)
  have status: "hp_status r = 206" by (simp add: r_eq build_file_response_def fil with_header_def)
  have "header_get (hp_headers r) ''content-range'' =
      Some (content_range_text (br_start rng) (br_end rng) (of_size_bytes f))"
    by (simp add: r_eq build_file_response_def fil with_header_def header_get_def hm_insert_def)
  then have cr: "content_range_byte_range (hp_headers r) = Some (rng, of_size_bytes f)"
    using inside fil(2) content_range_roundtrip [of "br_end rng" "of_size_bytes f" "br_start rng"] by simp
  have body: "hp_body r = map (nth (of_content f)) [br_start rng..<Suc (br_end rng)]"
  proof -
    have "hp_body r = take (range_length rng) (drop (br_start rng) (of_content f))"
      by (simp add: r_eq build_file_response_def fil with_header_def)
    also have "\<dots> = map (nth (of_content f)) [br_start rng..<br_start rng + range_length rng]"
      using inside fil(1) by (intro take_drop_upt_map) (simp add: range_length_def)
    finally show ?thesis using inside by (simp add: range_length_def)
  qed
  have "length (hp_body r) = range_length rng" using inside by (simp add: body range_length_def)
  then show ?thesis
    using rng status cr body by (simp add: range_response_invalid_def expected_media_body_bytes_def)
qed

section \<open>Witnesses\<close>

theorem parse_range_exact_witness:
  "parse_range (Some ''bytes=5-99'') 10 = Inr (Some \<lparr>br_start = 5, br_end = 9\<rparr>)"
proof -
  have d: "decimal 5 = ''5''" "decimal 99 = ''99''" by code_simp+
  have "spec_positions (FromTo 5 99) 10 = {5..9}" by auto
  moreover have "Min {5..9::nat} = 5" by (rule Min_eqI) auto
  moreover have "Max {5..9::nat} = 9" by (rule Max_eqI) auto
  ultimately show ?thesis using parse_range_exact [of "FromTo 5 99" 10] by (simp add: d)
qed

definition demo_file :: opened_media_file where
  "demo_file = \<lparr>of_content = ''abcdefgh'', of_seek_ok = True, of_content_type = ''video/mp4'',
     of_last_modified = 0, of_size_bytes = 8\<rparr>"

theorem media_response_accepted_witness:
  "\<not> range_response_invalid (Some ''bytes=2-3'')
      (hp_status (media_response (\<lambda>_. ''now'') (Some demo_file) [(''range'', ''bytes=2-3'')] False))
      (hp_headers (media_response (\<lambda>_. ''now'') (Some demo_file) [(''range'', ''bytes=2-3'')] False)) (Some 8)"
  using media_response_accepted [of demo_file "[(''range'', ''bytes=2-3'')]" "''bytes=2-3''" _ "\<lambda>_. ''now''", OF _ _ _ _ refl]
  by (simp add: demo_file_def header_get_def)

end
