(* ===== verification/Http_Resource.thy ===== *)
theory Http_Resource
  imports Http_Ranges
begin

text \<open>
  Task resources over HTTP (\<open>media.rs\<close>): entity tags, the conditional headers \<open>If-None-Match\<close>,
  \<open>If-Modified-Since\<close> and \<open>If-Range\<close>, and the handler \<open>resource_response\<close> with every early return.
  What the task registry opens is an argument of the handler; the functions of the \<open>httpdate\<close>
  crate are parameters. A time is a number of nanoseconds relative to the epoch.
\<close>

section \<open>Entity tags\<close>

definition quote :: char where "quote = CHR 0x22"

definition is_etag_char :: "char \<Rightarrow> bool" where
  "is_etag_char c = (let b = (of_char c :: nat) in b = 33 \<or> (35 \<le> b \<and> b \<le> 126))"

definition quoted_etag_header_value :: "string \<Rightarrow> string option" where
  "quoted_etag_header_value v =
     (if v = [] then None
      else
        let opaque = (case Option.bind (strip_prefix [quote] v) (strip_suffix [quote]) of
                        Some x \<Rightarrow> x | None \<Rightarrow> v)
        in if opaque = [] \<or> \<not> list_all is_etag_char opaque then None
           else header_from_str ([quote] @ opaque @ [quote]))"

definition weak_etag_value :: "string \<Rightarrow> string" where
  "weak_etag_value v = (case strip_prefix ''W/'' v of Some x \<Rightarrow> x | None \<Rightarrow> v)"

definition is_ows :: "char \<Rightarrow> bool" where
  "is_ows c = (c = CHR '' '' \<or> c = CHR 0x09)"

text \<open>The rest of the value stands for the offset into it.\<close>

definition skip_optional_whitespace :: "string \<Rightarrow> string" where
  "skip_optional_whitespace s = dropWhile is_ows s"

text \<open>The inner loop: the characters up to the closing quote.\<close>

fun scan_opaque :: "string \<Rightarrow> (string \<times> string) option" where
  "scan_opaque [] = None"
| "scan_opaque (c # cs) =
     (if c = quote then Some ([], cs)
      else if \<not> is_etag_char c then None
      else map_option (\<lambda>(x, rest). (c # x, rest)) (scan_opaque cs))"

text \<open>One turn of the outer loop up to the candidate: the candidate and what follows it.\<close>

definition next_etag :: "string \<Rightarrow> (string \<times> string) option" where
  "next_etag s =
     (let (prefix, s1) = (if take 2 s = ''W/'' then (''W/'', drop 2 s) else ([], s))
      in case s1 of
           [] \<Rightarrow> None
         | c # cs \<Rightarrow>
             if c \<noteq> quote then None
             else map_option (\<lambda>(x, rest). (prefix @ [quote] @ x @ [quote], rest)) (scan_opaque cs))"

lemma scan_opaque_shorter: "scan_opaque s = Some (x, rest) \<Longrightarrow> length rest < length s"
  by (induction s arbitrary: x rest) (auto split: if_splits intro: less_SucI)

lemma next_etag_shorter: "next_etag s = Some (x, rest) \<Longrightarrow> length rest < length s"
  by (auto simp: next_etag_def Let_def split: if_splits list.splits
      dest!: scan_opaque_shorter arg_cong [of "drop 2 s" _ length])

function etag_loop :: "string option \<Rightarrow> bool \<Rightarrow> string \<Rightarrow> bool" where
  "etag_loop current matched s =
     (case next_etag (skip_optional_whitespace s) of
        None \<Rightarrow> False
      | Some (candidate, rest) \<Rightarrow>
          let matched' = (matched \<or> (case current of
                Some c \<Rightarrow> weak_etag_value candidate = weak_etag_value c | None \<Rightarrow> False))
          in case skip_optional_whitespace rest of
               [] \<Rightarrow> matched'
             | c # cs \<Rightarrow> if c \<noteq> CHR '','' then False else etag_loop current matched' cs)"
  by pat_completeness auto
termination
proof (relation "measure (\<lambda>(current, matched, s). length s)", simp, clarsimp)
  fix s :: string and cand rest :: string and cs
  assume n: "next_etag (skip_optional_whitespace s) = Some (cand, rest)"
    and r: "skip_optional_whitespace rest = CHR '','' # cs"
  have "length cs < length (skip_optional_whitespace rest)" by (simp add: r)
  also have "\<dots> \<le> length rest" by (simp add: skip_optional_whitespace_def length_dropWhile_le)
  also have "\<dots> < length (skip_optional_whitespace s)" using n by (rule next_etag_shorter)
  also have "\<dots> \<le> length s" by (simp add: skip_optional_whitespace_def length_dropWhile_le)
  finally show "length cs < length s" .
qed

declare etag_loop.simps [simp del]

definition if_none_match_field_matches :: "string \<Rightarrow> string option \<Rightarrow> bool" where
  "if_none_match_field_matches v etag =
     (case to_str v of
        None \<Rightarrow> False
      | Some s \<Rightarrow>
          let current = Option.bind etag to_str;
              s1 = skip_optional_whitespace s
          in case s1 of
               c # cs \<Rightarrow> if c = CHR ''*'' then skip_optional_whitespace cs = []
                        else etag_loop current False s1
             | [] \<Rightarrow> etag_loop current False s1)"

section \<open>Conditional requests\<close>

type_synonym http_date_parser = "string \<Rightarrow> int option"

definition is_not_modified_since :: "int \<Rightarrow> int \<Rightarrow> bool" where
  "is_not_modified_since last_modified comparison_time =
     (if last_modified < 0 \<or> comparison_time < 0 then False
      else last_modified div 1000000000 \<le> comparison_time div 1000000000)"

definition resource_is_not_modified ::
  "http_date_parser \<Rightarrow> header_map \<Rightarrow> string option \<Rightarrow> int \<Rightarrow> bool" where
  "resource_is_not_modified parse_date headers etag last_modified =
     (if header_get headers ''if-none-match'' \<noteq> None then
        list_ex (\<lambda>v. if_none_match_field_matches v etag) (header_get_all headers ''if-none-match'')
      else
        (case Option.bind (Option.bind (header_get headers ''if-modified-since'') to_str) parse_date of
           Some date \<Rightarrow> is_not_modified_since last_modified date
         | None \<Rightarrow> False))"

definition range_validator_matches ::
  "http_date_parser \<Rightarrow> header_map \<Rightarrow> string option \<Rightarrow> int \<Rightarrow> bool" where
  "range_validator_matches parse_date headers etag last_modified =
     (case header_get headers ''if-range'' of
        None \<Rightarrow> True
      | Some h \<Rightarrow>
     (case to_str h of
        None \<Rightarrow> False
      | Some if_range \<Rightarrow>
          if take 1 if_range = [quote] \<or> take 3 if_range = ''W/'' @ [quote] then
            take 2 if_range \<noteq> ''W/'' \<and> (case Option.bind etag to_str of Some e \<Rightarrow> e = if_range | None \<Rightarrow> False)
          else (case parse_date if_range of
                  Some date \<Rightarrow> is_not_modified_since last_modified date
                | None \<Rightarrow> False)))"

section \<open>The handler\<close>

record task_resource_info =
  tr_size_known :: bool
  tr_size_bytes :: int
  tr_etag :: string
  tr_content_type :: string
  tr_supports_byte_ranges :: bool

definition resource_not_found_response :: http_response where
  "resource_not_found_response =
     with_header ''x-content-type-options'' ''nosniff''
       (with_header ''cache-control'' ''no-store'' (empty_response 404))"

definition resource_open_busy_response :: http_response where
  "resource_open_busy_response =
     with_header ''retry-after'' ''1'' (with_header ''cache-control'' ''no-store'' (empty_response 503))"

definition apply_resource_headers :: "bool \<Rightarrow> string \<Rightarrow> http_response \<Rightarrow> http_response" where
  "apply_resource_headers supports_byte_ranges etag r =
     (let r1 = with_header ''cache-control'' ''private, no-cache'' r;
          r2 = with_header ''accept-ranges'' (if supports_byte_ranges then ''bytes'' else ''none'') r1;
          r3 = with_header ''x-content-type-options'' ''nosniff'' r2
      in case quoted_etag_header_value etag of
           Some e \<Rightarrow> with_header ''etag'' e r3
         | None \<Rightarrow> r3)"

definition resource_range_not_satisfiable_response ::
  "nat \<Rightarrow> string \<Rightarrow> bool \<Rightarrow> string \<Rightarrow> http_response" where
  "resource_range_not_satisfiable_response n content_type supports_byte_ranges etag =
     apply_resource_headers supports_byte_ranges etag
       (with_header ''content-type'' (content_type_header_value content_type)
         (with_header ''content-range'' (unsatisfiable_text n) (empty_response 416)))"

definition resource_not_modified_response ::
  "(int \<Rightarrow> string) \<Rightarrow> string \<Rightarrow> bool \<Rightarrow> string option \<Rightarrow> int \<Rightarrow> http_response" where
  "resource_not_modified_response fmt_http_date content_type supports_byte_ranges etag last_modified =
     (let r1 = with_header ''content-type'' (content_type_header_value content_type) (empty_response 304);
          r2 = with_header ''last-modified'' (fmt_http_date last_modified) r1;
          r3 = apply_resource_headers supports_byte_ranges [] r2
      in case etag of Some e \<Rightarrow> with_header ''etag'' e r3 | None \<Rightarrow> r3)"

text \<open>
  \<open>permit\<close>: a permit to open was free. \<open>outcome\<close>: \<open>Inl ()\<close> when the storage or the worker failed,
  \<open>Inr None\<close> when there is no such resource. The content type of the opened file is the
  resource's.
\<close>

definition resource_response ::
  "(int \<Rightarrow> string) \<Rightarrow> http_date_parser \<Rightarrow> bool \<Rightarrow> unit + (task_resource_info \<times> opened_media_file) option
     \<Rightarrow> header_map \<Rightarrow> bool \<Rightarrow> http_response" where
  "resource_response fmt_http_date parse_date permit outcome headers head_only =
     (if \<not> permit then resource_open_busy_response
      else case outcome of
        Inl _ \<Rightarrow> resource_open_busy_response
      | Inr None \<Rightarrow> resource_not_found_response
      | Inr (Some (resource, opened)) \<Rightarrow>
          if tr_size_known resource \<and> tr_size_bytes resource \<noteq> int (of_size_bytes opened)
          then resource_not_found_response
          else
            let etag = quoted_etag_header_value (tr_etag resource) in
            if resource_is_not_modified parse_date headers etag (of_last_modified opened)
            then resource_not_modified_response fmt_http_date (tr_content_type resource)
                   (tr_supports_byte_ranges resource) etag (of_last_modified opened)
            else
              let refused = resource_range_not_satisfiable_response (of_size_bytes opened)
                    (tr_content_type resource) (tr_supports_byte_ranges resource) (tr_etag resource);
                  range_header = (if \<not> head_only \<and> tr_supports_byte_ranges resource
                      \<and> range_validator_matches parse_date headers etag (of_last_modified opened)
                    then single_range_header headers else Inr None)
              in case range_header of
                   Inl _ \<Rightarrow> refused
                 | Inr h \<Rightarrow>
                     (case parse_range h (of_size_bytes opened) of
                        Inl _ \<Rightarrow> refused
                      | Inr requested_range \<Rightarrow>
                          let response = build_file_response fmt_http_date
                                (opened\<lparr>of_content_type := tr_content_type resource\<rparr>) requested_range head_only
                          in if \<not> is_success (hp_status response) then resource_not_found_response
                             else apply_resource_headers (tr_supports_byte_ranges resource) (tr_etag resource)
                                    response))"

section \<open>Lists of entity tags\<close>

text \<open>
  An entity tag is a weakness flag and an opaque part; a field is a comma-separated list of tags
  with optional white space around each.
\<close>

type_synonym etag = "bool \<times> string"

definition etag_text :: "etag \<Rightarrow> string" where
  "etag_text t = (if fst t then ''W/'' else []) @ [quote] @ snd t @ [quote]"

type_synonym spaced_etag = "string \<times> etag \<times> string"

definition spaced_ok :: "spaced_etag \<Rightarrow> bool" where
  "spaced_ok p \<longleftrightarrow> list_all is_ows (fst p) \<and> list_all is_ows (snd (snd p))
     \<and> list_all is_etag_char (snd (fst (snd p)))"

definition spaced_text :: "spaced_etag \<Rightarrow> string" where
  "spaced_text p = fst p @ etag_text (fst (snd p)) @ snd (snd p)"

fun field_text :: "spaced_etag list \<Rightarrow> string" where
  "field_text [] = []"
| "field_text [p] = spaced_text p"
| "field_text (p # ps) = spaced_text p @ '','' @ field_text ps"

lemma etag_char_facts: "\<not> is_etag_char quote" "\<not> is_ows quote" "\<not> is_ows CHR ''W''" "\<not> is_ows CHR '',''"
  "is_etag_char c \<Longrightarrow> visible c" "is_ows c \<Longrightarrow> visible c" "visible quote" "visible CHR '',''"
  "visible CHR ''W''" "visible CHR ''/''"
  by (auto simp: is_etag_char_def is_ows_def quote_def visible_def Let_def)

lemma quote_neq: "quote \<noteq> CHR ''W''" "quote \<noteq> CHR ''*''" "quote \<noteq> CHR '',''"
  by (simp_all add: quote_def)

lemma scan_opaque_text:
  "list_all is_etag_char x \<Longrightarrow> scan_opaque (x @ quote # rest) = Some (x, rest)"
  by (induction x) (auto simp: etag_char_facts)

lemma next_etag_text:
  "list_all is_etag_char (snd t) \<Longrightarrow> next_etag (etag_text t @ rest) = Some (etag_text t, rest)"
  by (cases "fst t") (auto simp: next_etag_def etag_text_def scan_opaque_text numeral_2_eq_2 quote_neq)


lemma skip_spaces:
  "list_all is_ows w \<Longrightarrow> skip_optional_whitespace (w @ etag_text t @ rest) = etag_text t @ rest"
  by (induction w) (auto simp: skip_optional_whitespace_def etag_text_def etag_char_facts)

lemma skip_spaces_end: "list_all is_ows w \<Longrightarrow> skip_optional_whitespace w = []"
  by (simp add: skip_optional_whitespace_def list_all_iff)

lemma skip_spaces_comma:
  "list_all is_ows w \<Longrightarrow> skip_optional_whitespace (w @ CHR '','' # rest) = CHR '','' # rest"
  by (induction w) (auto simp: skip_optional_whitespace_def etag_char_facts)

lemma etag_loop_skip: "etag_loop current m (skip_optional_whitespace s) = etag_loop current m s"
proof -
  have "skip_optional_whitespace (skip_optional_whitespace s) = skip_optional_whitespace s"
    by (simp add: skip_optional_whitespace_def)
  then show ?thesis by (simp only: etag_loop.simps [of _ _ s] etag_loop.simps [of _ _ "skip_optional_whitespace s"])
qed

definition tag_matches :: "string option \<Rightarrow> spaced_etag \<Rightarrow> bool" where
  "tag_matches current p \<longleftrightarrow>
     (case current of
        Some c \<Rightarrow> weak_etag_value (etag_text (fst (snd p))) = weak_etag_value c | None \<Rightarrow> False)"

lemma etag_loop_field:
  "ps \<noteq> [] \<Longrightarrow> list_all spaced_ok ps \<Longrightarrow>
    etag_loop current matched (field_text ps) = (matched \<or> list_ex (tag_matches current) ps)"
proof (induction ps arbitrary: matched rule: field_text.induct)
  case (2 p)
  then show ?case
    by (subst etag_loop.simps)
      (simp add: spaced_ok_def spaced_text_def skip_spaces next_etag_text skip_spaces_end tag_matches_def)
next
  case (3 p q ps)
  then have ih: "etag_loop current m (field_text (q # ps)) = (m \<or> list_ex (tag_matches current) (q # ps))"
    for m by simp
  have "skip_optional_whitespace (snd (snd p) @ '','' @ field_text (q # ps)) = '','' @ field_text (q # ps)"
    using "3.prems" by (simp add: spaced_ok_def skip_spaces_comma)
  then show ?case
    using "3.prems"
    by (subst etag_loop.simps)
      (simp add: spaced_ok_def spaced_text_def skip_spaces next_etag_text ih [unfolded field_text.simps]
        tag_matches_def ih disj_assoc del: field_text.simps(3) add: field_text.simps(3) [of p q ps])
qed simp

lemma visible_etag: "list_all is_etag_char (snd t) \<Longrightarrow> list_all visible (etag_text t)"
  by (auto simp: etag_text_def list_all_iff etag_char_facts)

lemma visible_spaced: "spaced_ok p \<Longrightarrow> list_all visible (spaced_text p)"
  using visible_etag [of "fst (snd p)"]
  by (auto simp: spaced_ok_def spaced_text_def list_all_iff etag_char_facts)

lemma visible_field: "list_all spaced_ok ps \<Longrightarrow> list_all visible (field_text ps)"
  by (induction ps rule: field_text.induct) (simp_all add: visible_spaced etag_char_facts)

section \<open>Properties\<close>

text \<open>
  On every well-formed field, a nonempty list of strong or weak entity tags with any optional
  white space, the hand-written scanner finds a match exactly when one of the tags equals the
  current one up to weakness; without a current tag it finds none.
\<close>

theorem if_none_match_exact:
  assumes "ps \<noteq> []" and "list_all spaced_ok ps"
  shows "if_none_match_field_matches (field_text ps) etag \<longleftrightarrow>
    (\<exists>p \<in> set ps. \<exists>c. Option.bind etag to_str = Some c
       \<and> weak_etag_value (etag_text (fst (snd p))) = weak_etag_value c)"
proof -
  obtain p rest where ps: "field_text ps = fst p @ etag_text (fst (snd p)) @ rest" "spaced_ok p"
    using assms by (cases ps rule: field_text.cases) (auto simp: spaced_text_def)
  then have skip: "skip_optional_whitespace (field_text ps) = etag_text (fst (snd p)) @ rest"
    by (simp add: spaced_ok_def skip_spaces)
  have loop: "etag_loop current False (etag_text (fst (snd p)) @ rest) =
      list_ex (tag_matches current) ps" for current
    using etag_loop_field [OF assms, of current False] etag_loop_skip [of current False "field_text ps"]
    by (simp add: skip)
  obtain c cs where c: "etag_text (fst (snd p)) @ rest = c # cs" "c \<noteq> CHR ''*''"
    by (cases "fst (fst (snd p))") (simp_all add: etag_text_def quote_neq)
  have "if_none_match_field_matches (field_text ps) etag =
      list_ex (tag_matches (Option.bind etag to_str)) ps"
    using c(2) visible_field [OF assms(2)] loop [unfolded c(1)]
    by (simp add: if_none_match_field_matches_def to_str_def skip c(1) Let_def)
  then show ?thesis
    by (cases "Option.bind etag to_str") (simp_all add: tag_matches_def list_ex_iff)
qed

lemma single_range_header_Inr: "single_range_header headers = Inr h \<Longrightarrow> h = header_get headers ''range''"
proof -
  assume h: "single_range_header headers = Inr h"
  have "map_of headers k = (case map snd (filter (\<lambda>(n, _). n = k) headers) of [] \<Rightarrow> None | v # _ \<Rightarrow> Some v)"
    for k
    by (induction headers) auto
  with h show ?thesis
    by (auto simp: single_range_header_def header_get_def header_get_all_def split: list.splits)
qed

lemma with_header_simps [simp]: "hp_status (with_header n v r) = hp_status r"
  "hp_body (with_header n v r) = hp_body r"
  by (simp_all add: with_header_def)

lemma apply_resource_headers_simps [simp]: "hp_status (apply_resource_headers s e r) = hp_status r"
  "hp_body (apply_resource_headers s e r) = hp_body r"
  by (simp_all add: apply_resource_headers_def Let_def split: option.split)

lemma fixed_responses [simp]: "hp_status resource_open_busy_response = 503"
  "hp_status resource_not_found_response = 404"
  "hp_status (resource_range_not_satisfiable_response n ct s e) = 416"
  "hp_status (resource_not_modified_response f ct s et lm) = 304"
  "hp_body resource_open_busy_response = []" "hp_body resource_not_found_response = []"
  "hp_body (resource_range_not_satisfiable_response n ct s e) = []"
  "hp_body (resource_not_modified_response f ct s et lm) = []"
  by (simp_all add: resource_open_busy_response_def resource_not_found_response_def
      resource_range_not_satisfiable_response_def resource_not_modified_response_def empty_response_def
      Let_def split: option.split)

lemma build_file_response_simps:
  "hp_status (build_file_response fmt f rng head) =
     (if \<not> head \<and> \<not> of_seek_ok f then 404 else if rng = None then 200 else 206)"
  "hp_body (build_file_response fmt f rng head) =
     (if head \<or> \<not> of_seek_ok f then []
      else case rng of None \<Rightarrow> take (of_size_bytes f) (of_content f)
           | Some r \<Rightarrow> take (range_length r) (drop (br_start r) (of_content f)))"
  by (auto simp: build_file_response_def empty_response_def Let_def split: option.split)

definition finish_response ::
  "(int \<Rightarrow> string) \<Rightarrow> task_resource_info \<Rightarrow> opened_media_file \<Rightarrow> bool \<Rightarrow> byte_range option \<Rightarrow> http_response" where
  "finish_response fmt res f head_only rng =
     (let response = build_file_response fmt (f\<lparr>of_content_type := tr_content_type res\<rparr>) rng head_only
      in if \<not> is_success (hp_status response) then resource_not_found_response
         else apply_resource_headers (tr_supports_byte_ranges res) (tr_etag res) response)"

lemma finish_response_cases:
  "finish_response fmt res f head_only rng = resource_not_found_response
   \<or> (hp_status (finish_response fmt res f head_only rng) = (if rng = None then 200 else 206)
      \<and> hp_body (finish_response fmt res f head_only rng) = (if head_only then [] else case rng of
             None \<Rightarrow> take (of_size_bytes f) (of_content f)
           | Some x \<Rightarrow> take (range_length x) (drop (br_start x) (of_content f))))"
  by (cases "head_only \<or> of_seek_ok f")
    (auto simp: finish_response_def build_file_response_simps is_success_def Let_def)

text \<open>
  C17. The resource handler answers with one of seven states. Bytes leave it only in answer to a GET
  for a resource whose size is the recorded one and which the client does not already have: the
  whole file with 200, or with 206 the requested part, and then only if the resource supports
  ranges, the request has exactly one range header and its \<open>If-Range\<close> validator still matches. A
  304 is sent only when the conditional headers say that nothing changed.
\<close>

theorem resource_response_safe:
  assumes "r = resource_response fmt parse_date permit outcome headers head_only"
  shows "hp_status r \<in> {200, 206, 304, 404, 416, 503}
    \<and> (hp_status r \<notin> {200, 206} \<or> head_only \<longrightarrow> hp_body r = [])
    \<and> (hp_status r \<in> {200, 206, 304} \<longrightarrow> (\<exists>res f. outcome = Inr (Some (res, f)) \<and> permit
        \<and> (tr_size_known res \<longrightarrow> tr_size_bytes res = int (of_size_bytes f))
        \<and> (hp_status r = 304 \<longleftrightarrow> resource_is_not_modified parse_date headers
             (quoted_etag_header_value (tr_etag res)) (of_last_modified f))
        \<and> (hp_status r = 200 \<and> \<not> head_only \<longrightarrow> hp_body r = take (of_size_bytes f) (of_content f))
        \<and> (hp_status r = 206 \<longrightarrow> \<not> head_only \<and> tr_supports_byte_ranges res
             \<and> range_validator_matches parse_date headers (quoted_etag_header_value (tr_etag res)) (of_last_modified f)
             \<and> length (header_get_all headers ''range'') = 1
             \<and> (\<exists>rng. parse_range (header_get headers ''range'') (of_size_bytes f) = Inr (Some rng)
                  \<and> hp_body r = take (range_length rng) (drop (br_start rng) (of_content f))))))"
proof (cases "permit \<and> (\<exists>res f. outcome = Inr (Some (res, f))
    \<and> (tr_size_known res \<longrightarrow> tr_size_bytes res = int (of_size_bytes f)))")
  case False
  then have "r = resource_open_busy_response \<or> r = resource_not_found_response"
    using assms by (auto simp: resource_response_def split: sum.splits option.splits)
  then show ?thesis by auto
next
  case True
  then obtain res f where out: "outcome = Inr (Some (res, f))" "permit"
    "tr_size_known res \<longrightarrow> tr_size_bytes res = int (of_size_bytes f)" by blast
  have sized: "\<not> (tr_size_known res \<and> tr_size_bytes res \<noteq> int (of_size_bytes f))" using out(3) by blast
  define etag where "etag = quoted_etag_header_value (tr_etag res)"
  show ?thesis
  proof (cases "resource_is_not_modified parse_date headers etag (of_last_modified f)")
    case True
    then have "r = resource_not_modified_response fmt (tr_content_type res) (tr_supports_byte_ranges res)
        etag (of_last_modified f)"
      using assms out(1,2) sized by (simp only: resource_response_def etag_def Let_def if_False if_True simp_thms sum.case option.case prod.case)
    then show ?thesis using out True by (auto simp: etag_def)
  next
    case modified: False
    define ranged where "ranged \<longleftrightarrow> \<not> head_only \<and> tr_supports_byte_ranges res
        \<and> range_validator_matches parse_date headers etag (of_last_modified f)"
    define refused where "refused = resource_range_not_satisfiable_response (of_size_bytes f)
        (tr_content_type res) (tr_supports_byte_ranges res) (tr_etag res)"
    have r: "r = (case if ranged then single_range_header headers else Inr None of
        Inl _ \<Rightarrow> refused
      | Inr h \<Rightarrow> (case parse_range h (of_size_bytes f) of
          Inl _ \<Rightarrow> refused
        | Inr rng \<Rightarrow> finish_response fmt res f head_only rng))"
      using assms out(1,2) sized modified
      by (simp only: resource_response_def finish_response_def etag_def ranged_def refused_def Let_def if_False if_True simp_thms sum.case option.case prod.case)
    have one: "length (header_get_all headers ''range'') = 1 \<and> h = header_get headers ''range''"
      if "single_range_header headers = Inr h" "h \<noteq> None" for h
      using that single_range_header_Inr [OF that(1)]
      by (auto simp: single_range_header_def split: list.splits)
    have none: "rng = None" if "parse_range None n = Inr rng" for n rng
      using that by (simp add: parse_range_def)
    have none': "h = None" if "parse_range h n = Inr None" for h n
      using that by (auto simp: parse_range_def Let_def split: option.splits if_splits prod.splits)
    consider "r = refused" | "r = resource_not_found_response"
      | h rng where "(if ranged then single_range_header headers else Inr None) = Inr h"
          "parse_range h (of_size_bytes f) = Inr rng"
          "hp_status r = (if rng = None then 200 else 206)"
          "hp_body r = (if head_only then [] else case rng of
             None \<Rightarrow> take (of_size_bytes f) (of_content f)
           | Some x \<Rightarrow> take (range_length x) (drop (br_start x) (of_content f)))"
    proof (cases "if ranged then single_range_header headers else Inr None")
      case (Inl e)
      then show ?thesis using that(1) r by simp
    next
      case h: (Inr h)
      show ?thesis
      proof (cases "parse_range h (of_size_bytes f)")
        case (Inl e)
        then show ?thesis using that(1) r h by simp
      next
        case (Inr rng)
        then have "r = finish_response fmt res f head_only rng" using r h by simp
        then show ?thesis
          using finish_response_cases [of fmt res f head_only rng] that(2) that(3) [OF h Inr] by metis
      qed
    qed
    then show ?thesis
    proof cases
      case (3 h rng)
      show ?thesis
      proof (cases rng)
        case None
        then show ?thesis using 3 out modified by (auto simp: etag_def)
      next
        case (Some x)
        have "h \<noteq> None" using 3(2) Some none [of "of_size_bytes f" rng] by (cases h) auto
        then have ranged using 3(1) by (auto split: if_splits)
        with one [of h] 3(1) \<open>h \<noteq> None\<close> have h: "length (header_get_all headers ''range'') = 1" "h = header_get headers ''range''"
          by auto
        then show ?thesis
          using 3 Some out modified \<open>ranged\<close> by (auto simp: etag_def ranged_def)
      qed
    qed (use modified out in \<open>auto simp: refused_def\<close>)
  qed
qed

section \<open>Witnesses\<close>

theorem if_none_match_exact_witness:
  "if_none_match_field_matches (field_text [([], (True, ''a''), ''  ''), ('' '', (False, ''b''), [])])
     (Some (etag_text (False, ''a'')))"
  using if_none_match_exact [of "[([], (True, ''a''), ''  ''), ('' '', (False, ''b''), [])]"
      "Some (etag_text (False, ''a''))"]
  by (simp add: spaced_ok_def is_ows_def is_etag_char_def to_str_def etag_text_def quote_def
      visible_def weak_etag_value_def strip_prefix_def)

definition demo_resource :: task_resource_info where
  "demo_resource = \<lparr>tr_size_known = True, tr_size_bytes = 8, tr_etag = ''v1'', tr_content_type = ''text/plain'',
     tr_supports_byte_ranges = True\<rparr>"

theorem resource_response_safe_witness:
  "hp_body (resource_response (\<lambda>_. ''now'') (\<lambda>_. None) True (Inr (Some (demo_resource, demo_file)))
     [(''range'', ''bytes=2-3'')] True) = []"
  using resource_response_safe [OF refl, of "\<lambda>_. ''now''" "\<lambda>_. None" True
      "Inr (Some (demo_resource, demo_file))" "[(''range'', ''bytes=2-3'')]" True]
  by blast

end
