(* ===== verification/Hls_Stream.thy ===== *)
theory Hls_Stream
  imports Http_Ranges Cdn_History
begin

text \<open>
  The bodies that the media service streams (\<open>media.rs\<close>): the stream over cached ranges with its
  fallback to an uncached upstream answer, the stream that passes an upstream body through and
  judges it, the observation each of them keeps, and the request for the tail of a partly cached
  resource. A stream is a function that is polled; what a poll meets outside (the control of the
  session, the range cache, the upstream servers, the clock) is its argument. Events are the calls
  on the network policy and on the history, in order.
\<close>

section \<open>Verdicts and outcomes\<close>

text \<open>The methods of \<open>HlsNetworkPolicyRecorder\<close> that a stream calls.\<close>

datatype policy_event = CacheHit | UpstreamRetry | UpstreamSuccess nat | UpstreamFailure

text \<open>What the sources ask of an error of the HTTP client.\<close>

record transport_error =
  te_is_timeout :: bool
  te_is_connect :: bool
  te_is_body :: bool
  te_is_decode :: bool
  te_url :: "string option"

definition cdn_outcome_for_status :: "nat \<Rightarrow> observation_outcome" where
  "cdn_outcome_for_status status =
     (if is_server_error status then ServerFailure
      else if status = 408 \<or> status = 504 then TimeoutFailure
      else SourceUnavailable)"

definition cdn_outcome_for_transport :: "transport_error \<Rightarrow> observation_outcome" where
  "cdn_outcome_for_transport e =
     (if te_is_timeout e then TimeoutFailure
      else if te_is_connect e then ConnectionFailure
      else if te_is_body e \<or> te_is_decode e then IntegrityMismatch
      else SourceUnavailable)"

definition playback_observation ::
  "observation_outcome \<Rightarrow> nat \<Rightarrow> nat option \<Rightarrow> nat option \<Rightarrow> bool option \<Rightarrow> cdn_observation" where
  "playback_observation outcome bytes elapsed first_byte_latency range_supported =
     \<lparr>ob_source = PlaybackSource, ob_outcome = outcome, ob_bytes = bytes, ob_elapsed = elapsed,
      ob_first_byte_latency = first_byte_latency, ob_range_supported = range_supported\<rparr>"

text \<open>
  \<open>observation_candidate_url\<close>: the first address of the request with the origin of the final
  address. \<open>url_origin\<close> is the origin of a parsed URL (of the \<open>url\<close> crate).
\<close>

definition observation_candidate_url ::
  "(string \<Rightarrow> string option) \<Rightarrow> media_request \<Rightarrow> string \<Rightarrow> string option" where
  "observation_candidate_url url_origin r final_url =
     Option.bind (url_origin final_url) (\<lambda>final_origin.
       List.find (\<lambda>candidate. url_origin candidate = Some final_origin) (mr_url r # mr_backup_urls r))"

section \<open>The observation of a cached range\<close>

record range_observation =
  ro_expected_bytes :: nat
  ro_emitted_bytes :: nat
  ro_fetched :: bool
  ro_cache_hit :: bool
  ro_started_at :: nat
  ro_finished :: bool
  ro_delegated :: bool

definition range_observation_new :: "nat \<Rightarrow> bool \<Rightarrow> nat \<Rightarrow> range_observation" where
  "range_observation_new expected_bytes first_was_fetched now =
     \<lparr>ro_expected_bytes = expected_bytes, ro_emitted_bytes = 0, ro_fetched = first_was_fetched,
      ro_cache_hit = (\<not> first_was_fetched), ro_started_at = now, ro_finished = False,
      ro_delegated = False\<rparr>"

definition ro_observe :: "nat \<Rightarrow> bool \<Rightarrow> range_observation \<Rightarrow> range_observation" where
  "ro_observe len fetched o1 =
     o1\<lparr>ro_emitted_bytes := saturating_add (ro_emitted_bytes o1) len,
        ro_fetched := (ro_fetched o1 \<or> fetched),
        ro_cache_hit := (ro_cache_hit o1 \<or> \<not> fetched)\<rparr>"

definition ro_delegate_to_proxy :: "range_observation \<Rightarrow> range_observation" where
  "ro_delegate_to_proxy o1 = o1\<lparr>ro_delegated := True\<rparr>"

definition ro_fail :: "range_observation \<Rightarrow> range_observation \<times> policy_event list" where
  "ro_fail o1 =
     (if \<not> ro_finished o1 \<and> \<not> ro_delegated o1 then (o1\<lparr>ro_finished := True\<rparr>, [UpstreamFailure])
      else (o1, []))"

text \<open>\<open>drop\<close> of the observation is \<open>finish\<close>.\<close>

definition ro_finish :: "nat \<Rightarrow> range_observation \<Rightarrow> range_observation \<times> policy_event list" where
  "ro_finish now o1 =
     (if ro_finished o1 \<or> ro_delegated o1 \<or> ro_emitted_bytes o1 \<noteq> ro_expected_bytes o1 then (o1, [])
      else (o1\<lparr>ro_finished := True\<rparr>,
            if ro_fetched o1 then [UpstreamSuccess (now - ro_started_at o1)]
            else if ro_cache_hit o1 then [CacheHit] else []))"

section \<open>The stream over cached ranges\<close>

definition HLS_MEDIA_STREAM_CHUNK_BYTES :: nat where
  "HLS_MEDIA_STREAM_CHUNK_BYTES = RANGE_MAX_CHUNK_BYTES"

text \<open>
  What \<open>read_hls_media_stream_chunk\<close> returns for the rest of the range, and what the proxy answers
  when the cache has no room: status, \<open>Content-Range\<close> and the body as the items of its stream.
\<close>

record proxy_answer =
  px_status :: nat
  px_content_range :: "string option"
  px_items :: "(unit + string) list"

datatype chunk_read = ReadBytes string bool | ReadQuotaExceeded proxy_answer | ReadFailed

record poll_env =
  pe_control_ok :: bool
  pe_read :: chunk_read
  pe_now :: nat

record cached_stream =
  cs_offset :: nat
  cs_end :: nat
  cs_total_length :: nat
  cs_first_bytes :: "string option"
  cs_first_was_fetched :: bool
  cs_upstream_tail :: "(unit + string) list option"
  cs_observation :: range_observation

definition stream_fail :: "cached_stream \<Rightarrow> cached_stream \<times> policy_event list" where
  "stream_fail st = (let (ob, ev) = ro_fail (cs_observation st) in (st\<lparr>cs_observation := ob\<rparr>, ev))"

fun tail_next :: "cached_stream \<Rightarrow> (unit + string) list \<Rightarrow> (unit + string) option \<times> cached_stream" where
  "tail_next st [] = (None, st\<lparr>cs_upstream_tail := Some []\<rparr>)"
| "tail_next st (item # rest) = (Some item, st\<lparr>cs_upstream_tail := Some rest\<rparr>)"

text \<open>
  One poll. The item is \<open>None\<close> at the end, \<open>Inl ()\<close> for an error. The loop of the source turns
  a second time only after the fallback has installed the tail.
\<close>

definition stream_poll ::
  "poll_env \<Rightarrow> cached_stream \<Rightarrow> (unit + string) option \<times> cached_stream \<times> policy_event list" where
  "stream_poll env st =
     (case cs_upstream_tail st of
        Some items \<Rightarrow> (let (item, st') = tail_next st items in (item, st', []))
      | None \<Rightarrow>
     (if (cs_first_bytes st \<noteq> None \<or> cs_offset st < cs_end st) \<and> \<not> pe_control_ok env then
        (let (st', ev) = stream_fail st in (Some (Inl ()), st', ev))
      else
     (case cs_first_bytes st of
        Some bytes \<Rightarrow>
          (Some (Inr bytes),
           st\<lparr>cs_first_bytes := None,
              cs_observation := ro_observe (length bytes) (cs_first_was_fetched st) (cs_observation st)\<rparr>, [])
      | None \<Rightarrow>
     (if cs_offset st \<ge> cs_end st then
        (let (ob, ev) = ro_finish (pe_now env) (cs_observation st)
         in (None, st\<lparr>cs_observation := ob\<rparr>, ev))
      else
     (case pe_read env of
        ReadBytes bytes fetched \<Rightarrow>
          if bytes = [] \<or> length bytes > HLS_MEDIA_STREAM_CHUNK_BYTES
             \<or> length bytes > cs_end st - cs_offset st
          then (let (st', ev) = stream_fail st in (Some (Inl ()), st', UpstreamFailure # ev))
          else (Some (Inr bytes),
                st\<lparr>cs_offset := cs_offset st + length bytes,
                   cs_observation := ro_observe (length bytes) fetched (cs_observation st)\<rparr>, [])
      | ReadQuotaExceeded answer \<Rightarrow>
          (let tail_end = cs_end st - 1;
               st1 = st\<lparr>cs_observation := ro_delegate_to_proxy (cs_observation st)\<rparr>
           in if px_status answer \<noteq> 206
                 \<or> Option.bind (px_content_range answer) to_str
                   \<noteq> Some (content_range_text (cs_offset st) tail_end (cs_total_length st))
              then (Some (Inl ()), st1, [])
              else (let (item, st') = tail_next st1 (px_items answer) in (item, st', [])))
      | ReadFailed \<Rightarrow>
          (let (st', ev) = stream_fail st in (Some (Inl ()), st', UpstreamFailure # ev)))))))"

text \<open>
  The consumer polls until the stream ends or yields an error, then drops it. \<open>envs\<close> is what the
  polls meet; \<open>None\<close> when the consumer went away before the end.
\<close>

fun stream_run ::
  "poll_env list \<Rightarrow> cached_stream \<Rightarrow> string list \<times> unit option option \<times> cached_stream \<times> policy_event list" where
  "stream_run [] st = ([], None, st, [])"
| "stream_run (env # envs) st =
     (case stream_poll env st of
        (None, st', ev) \<Rightarrow> ([], Some None, st', ev)
      | (Some (Inl e), st', ev) \<Rightarrow> ([], Some (Some e), st', ev)
      | (Some (Inr bytes), st', ev) \<Rightarrow>
          (let (rest, outcome, st'', ev') = stream_run envs st' in (bytes # rest, outcome, st'', ev @ ev')))"

section \<open>The observation of an upstream body\<close>

record body_observation =
  bo_url :: "string option"
  bo_started_at :: nat
  bo_range_supported :: "bool option"
  bo_expected_body_bytes :: "nat option"
  bo_content_length_validated :: bool
  bo_bytes :: nat
  bo_first_byte_latency :: "nat option"
  bo_runtime :: bool
  bo_finished :: bool

definition body_observation_new ::
  "string option \<Rightarrow> nat \<Rightarrow> bool option \<Rightarrow> nat option \<Rightarrow> bool \<Rightarrow> bool \<Rightarrow> body_observation" where
  "body_observation_new url started_at range_supported expected validated runtime =
     \<lparr>bo_url = url, bo_started_at = started_at, bo_range_supported = range_supported,
      bo_expected_body_bytes = expected, bo_content_length_validated = validated, bo_bytes = 0,
      bo_first_byte_latency = None, bo_runtime = runtime, bo_finished = False\<rparr>"

definition observe_chunk :: "nat \<Rightarrow> nat \<Rightarrow> body_observation \<Rightarrow> body_observation" where
  "observe_chunk now len b =
     (if len = 0 then b
      else b\<lparr>bo_bytes := saturating_add (bo_bytes b) len,
             bo_first_byte_latency := (case bo_first_byte_latency b of
               Some l \<Rightarrow> Some l | None \<Rightarrow> Some (now - bo_started_at b))\<rparr>)"

text \<open>A record for the history: the address and the observation.\<close>

type_synonym history_record = "string \<times> cdn_observation"

definition body_finish ::
  "nat \<Rightarrow> observation_outcome \<Rightarrow> body_observation
     \<Rightarrow> observation_outcome \<times> body_observation \<times> history_record list" where
  "body_finish now outcome b =
     (if bo_finished b then (outcome, b, [])
      else
        let outcome' = (if outcome = Complete
              \<and> (case bo_expected_body_bytes b of Some e \<Rightarrow> e \<noteq> bo_bytes b | None \<Rightarrow> False)
            then IntegrityMismatch else outcome);
            records = (case bo_url b of
                Some url \<Rightarrow> [(url, playback_observation outcome' (bo_bytes b)
                   (Some (now - bo_started_at b)) (bo_first_byte_latency b) (bo_range_supported b))]
              | None \<Rightarrow> [])
        in (outcome', b\<lparr>bo_finished := True\<rparr>, records))"

definition body_drop :: "nat \<Rightarrow> body_observation \<Rightarrow> history_record list" where
  "body_drop now b =
     (if bo_finished b \<or> (bo_bytes b = 0 \<and> \<not> bo_content_length_validated b) then []
      else case bo_url b of
        None \<Rightarrow> []
      | Some url \<Rightarrow>
          if \<not> bo_runtime b then []
          else
            let outcome = (case bo_expected_body_bytes b of
                  Some expected \<Rightarrow>
                    if bo_bytes b > expected then IntegrityMismatch
                    else if bo_content_length_validated b \<and> bo_bytes b = expected then Complete
                    else Partial
                | None \<Rightarrow> Partial)
            in [(url, playback_observation outcome (bo_bytes b) (Some (now - bo_started_at b))
                   (bo_first_byte_latency b) (bo_range_supported b))])"

section \<open>The stream that passes an upstream body through\<close>

datatype upstream_item = UpBytes string | UpError transport_error

record proxy_stream =
  ps_response_time :: nat
  ps_observation :: body_observation
  ps_failed :: bool

text \<open>One poll: \<open>None\<close> is the end of the upstream body.\<close>

definition proxy_poll ::
  "nat \<Rightarrow> upstream_item option \<Rightarrow> proxy_stream
     \<Rightarrow> upstream_item option \<times> proxy_stream \<times> policy_event list \<times> history_record list" where
  "proxy_poll now next_item st =
     (case next_item of
        Some (UpBytes bytes) \<Rightarrow>
          (Some (UpBytes bytes),
           st\<lparr>ps_observation := observe_chunk now (length bytes) (ps_observation st)\<rparr>, [], [])
      | Some (UpError e) \<Rightarrow>
          (if \<not> ps_failed st then
             let (_, ob, recs) = body_finish now (cdn_outcome_for_transport e) (ps_observation st)
             in (Some (UpError e), st\<lparr>ps_observation := ob, ps_failed := True\<rparr>, [UpstreamFailure], recs)
           else (Some (UpError e), st\<lparr>ps_failed := True\<rparr>, [], []))
      | None \<Rightarrow>
          (if \<not> ps_failed st then
             let (outcome, ob, recs) = body_finish now Complete (ps_observation st)
             in (None, st\<lparr>ps_observation := ob\<rparr>,
                 [if outcome = Complete then UpstreamSuccess (ps_response_time st) else UpstreamFailure], recs)
           else (None, st, [], [])))"

text \<open>
  The life of the stream: the upstream items it is polled for, whether it is polled to the end, and
  the drop. The clock only moves the durations, so one time is enough.
\<close>

fun proxy_items ::
  "nat \<Rightarrow> upstream_item list \<Rightarrow> proxy_stream \<Rightarrow> proxy_stream \<times> policy_event list \<times> history_record list" where
  "proxy_items now [] st = (st, [], [])"
| "proxy_items now (i # is) st =
     (let (_, st', ev, recs) = proxy_poll now (Some i) st;
          (st'', ev', recs') = proxy_items now is st'
      in (st'', ev @ ev', recs @ recs'))"

definition proxy_life ::
  "nat \<Rightarrow> upstream_item list \<Rightarrow> bool \<Rightarrow> proxy_stream \<Rightarrow> policy_event list \<times> history_record list" where
  "proxy_life now items to_end st =
     (let (st1, ev1, recs1) = proxy_items now items st;
          (st2, ev2, recs2) = (if to_end then (let (_, s, e, r) = proxy_poll now None st1 in (s, e, r))
                               else (st1, [], []))
      in (ev1 @ ev2, recs1 @ recs2 @ body_drop now (ps_observation st2)))"

section \<open>The tail of a partly cached resource\<close>

record upstream_answer =
  ua_status :: nat
  ua_headers :: header_map
  ua_content_length :: "nat option"
  ua_final_url :: string
  ua_response_time :: nat

record upstream_tail =
  ut_upstream :: upstream_answer
  ut_length :: nat
  ut_content_length_validated :: bool

text \<open>\<open>StatusCode::from_u16(..).unwrap_or(BAD_GATEWAY)\<close>.\<close>

definition status_code :: "nat \<Rightarrow> nat" where
  "status_code n = (if 100 \<le> n \<and> n < 1000 then n else 502)"

definition observe_candidate ::
  "string option \<Rightarrow> observation_outcome \<Rightarrow> bool option \<Rightarrow> history_record list" where
  "observe_candidate url outcome range_supported =
     (case url of
        Some u \<Rightarrow> [(u, playback_observation outcome 0 None None range_supported)]
      | None \<Rightarrow> [])"

text \<open>
  The loop of \<open>open_hls_upstream_tail_response\<close> over the ranked addresses; \<open>send\<close> is the request for
  \<open>bytes=start-stop\<close> to an address. \<open>None\<close> is \<open>Err(())\<close>.
\<close>

fun open_tail_loop ::
  "(string \<Rightarrow> string option) \<Rightarrow> (string \<Rightarrow> transport_error + upstream_answer) \<Rightarrow> media_request
     \<Rightarrow> nat \<Rightarrow> nat \<Rightarrow> nat \<Rightarrow> string list
     \<Rightarrow> upstream_tail option \<times> policy_event list \<times> history_record list" where
  "open_tail_loop url_origin send r start stop total_length [] = (None, [], [])"
| "open_tail_loop url_origin send r start stop total_length (url # urls) =
     (let retry = (\<lambda>recs. let (res, ev, recs') = open_tail_loop url_origin send r start stop total_length urls
                    in (res, UpstreamRetry # ev, recs @ recs'))
      in case send url of
           Inl e \<Rightarrow>
             retry (observe_candidate (Option.bind (te_url e) (observation_candidate_url url_origin r))
                      (cdn_outcome_for_transport e) None)
         | Inr upstream \<Rightarrow>
             let status = status_code (ua_status upstream);
                 observed = observation_candidate_url url_origin r (ua_final_url upstream)
             in if should_retry_hls_upstream_status status \<or> \<not> is_success status
                then retry (observe_candidate observed (cdn_outcome_for_status status) None)
                else
                  (case content_range_byte_range (ua_headers upstream) of
                     None \<Rightarrow> retry (observe_candidate observed IntegrityMismatch (Some False))
                   | Some (returned_range, returned_total_length) \<Rightarrow>
                       let expected_range = \<lparr>br_start = start, br_end = stop\<rparr>;
                           declared = ua_content_length upstream
                       in if status \<noteq> 206 \<or> returned_range \<noteq> expected_range
                             \<or> returned_total_length \<noteq> total_length
                             \<or> (case declared of Some n \<Rightarrow> n \<noteq> range_length expected_range | None \<Rightarrow> False)
                          then retry (observe_candidate observed IntegrityMismatch (Some (status = 206)))
                          else (Some \<lparr>ut_upstream = upstream, ut_length = range_length expected_range,
                                  ut_content_length_validated = (declared = Some (range_length expected_range))\<rparr>,
                                [], [])))"

definition usable_urls :: "string list \<Rightarrow> string list" where
  "usable_urls urls = filter (\<lambda>u. trim u \<noteq> []) urls"

definition open_hls_upstream_tail_response ::
  "url_parser \<Rightarrow> (nat list \<Rightarrow> nat list) \<Rightarrow> (string \<Rightarrow> string option)
     \<Rightarrow> (string \<Rightarrow> transport_error + upstream_answer) \<Rightarrow> media_request \<Rightarrow> nat \<Rightarrow> nat \<Rightarrow> nat \<Rightarrow> nat
     \<Rightarrow> history_state \<Rightarrow> upstream_tail option \<times> policy_event list \<times> history_record list" where
  "open_hls_upstream_tail_response parse sha256 url_origin send r start stop total_length now st =
     open_tail_loop url_origin send r start stop total_length
       (usable_urls (fst (rank_request_at parse sha256 r now st)))"

section \<open>What a stream delivers\<close>

definition slice :: "string \<Rightarrow> nat \<Rightarrow> nat \<Rightarrow> string" where
  "slice c a b = take (b - a) (drop a c)"

lemma slice_split: "a \<le> b \<Longrightarrow> b \<le> d \<Longrightarrow> slice c a d = slice c a b @ slice c b d"
proof -
  assume "a \<le> b" "b \<le> d"
  then have "d - a = (b - a) + (d - b)" "drop b c = drop (b - a) (drop a c)" by simp_all
  then show ?thesis unfolding slice_def by (simp only: take_add)
qed

lemma slice_self [simp]: "slice c a a = []"
  by (simp add: slice_def)

fun ok_bytes :: "(unit + string) list \<Rightarrow> string" where
  "ok_bytes [] = []"
| "ok_bytes (Inr b # items) = b @ ok_bytes items"
| "ok_bytes (Inl e # items) = []"

definition all_ok :: "(unit + string) list \<Rightarrow> bool" where
  "all_ok items \<longleftrightarrow> (\<forall>i \<in> set items. \<exists>b. i = Inr b)"

lemma all_ok_simps [simp]: "all_ok []" "all_ok (Inr b # items) = all_ok items" "\<not> all_ok (Inl e # items)"
  by (auto simp: all_ok_def)

text \<open>
  The bytes a chunk read returns are those of the resource at the position of the stream. Nothing is
  asked of the body of a fallback answer: it may break off, end early or hold other bytes.
\<close>

definition read_ok :: "string \<Rightarrow> cached_stream \<Rightarrow> poll_env \<Rightarrow> bool" where
  "read_ok c st env \<longleftrightarrow>
     (case pe_read env of
        ReadBytes b fetched \<Rightarrow> b = take (length b) (drop (cs_offset st) c)
      | _ \<Rightarrow> True)"

fun envs_ok :: "string \<Rightarrow> poll_env list \<Rightarrow> cached_stream \<Rightarrow> bool" where
  "envs_ok c [] st = True"
| "envs_ok c (env # envs) st =
     (read_ok c st env
      \<and> (case stream_poll env st of (Some (Inr b), st', ev) \<Rightarrow> envs_ok c envs st' | _ \<Rightarrow> True))"

text \<open>The answers a stream accepts in place of the cache: the requested range of the known total length.\<close>

definition fallback_accepted :: "cached_stream \<Rightarrow> proxy_answer \<Rightarrow> bool" where
  "fallback_accepted st a \<longleftrightarrow> px_status a = 206
     \<and> Option.bind (px_content_range a) to_str
       = Some (content_range_text (cs_offset st) (cs_end st - 1) (cs_total_length st))"

definition fallback_answers :: "poll_env list \<Rightarrow> proxy_answer list" where
  "fallback_answers envs = concat (map (\<lambda>env. case pe_read env of ReadQuotaExceeded a \<Rightarrow> [a] | _ \<Rightarrow> []) envs)"

lemma fallback_answers_simps [simp]:
  "fallback_answers [] = []"
  "fallback_answers (env # envs) =
     (case pe_read env of ReadQuotaExceeded a \<Rightarrow> [a] | _ \<Rightarrow> []) @ fallback_answers envs"
  by (simp_all add: fallback_answers_def)

text \<open>The bytes still to come while the stream reads the cache, and once it has a tail.\<close>

definition cache_left :: "string \<Rightarrow> cached_stream \<Rightarrow> string" where
  "cache_left c st = (case cs_first_bytes st of Some b \<Rightarrow> b | None \<Rightarrow> []) @ slice c (cs_offset st) (cs_end st)"

definition same_range :: "cached_stream \<Rightarrow> cached_stream \<Rightarrow> bool" where
  "same_range st st' \<longleftrightarrow> cs_end st' = cs_end st \<and> cs_total_length st' = cs_total_length st"

lemma same_range_trans: "same_range st st1 \<Longrightarrow> same_range st1 st' \<Longrightarrow> same_range st st'"
  by (simp add: same_range_def)

lemma tail_next_cases:
  assumes "tail_next st items = (item, st')"
  obtains (over) "items = []" "item = None" "st' = st\<lparr>cs_upstream_tail := Some []\<rparr>"
  | (bytes) b rest where "items = Inr b # rest" "item = Some (Inr b)" "st' = st\<lparr>cs_upstream_tail := Some rest\<rparr>"
  | (err) e rest where "items = Inl e # rest" "item = Some (Inl e)" "st' = st\<lparr>cs_upstream_tail := Some rest\<rparr>"
  using assms
proof (induction st items rule: tail_next.induct)
  case (2 st i rest)
  then show ?case by (cases i) auto
qed auto

text \<open>One poll of a stream that still reads the cache: it stops, or gives the next bytes, or takes a tail.\<close>

lemma stream_poll_cached:
  assumes no_tail: "cs_upstream_tail st = None" and ok: "read_ok c st env"
    and poll: "stream_poll env st = (item, st', ev)"
  obtains (finished) "item = None" "cache_left c st = []" "cs_upstream_tail st' = None" "same_range st st'"
  | (failed) e where "item = Some (Inl e)" "cs_upstream_tail st' = None"
  | (bytes) b where "item = Some (Inr b)" "cs_upstream_tail st' = None" "cache_left c st = b @ cache_left c st'"
      "same_range st st'" "cs_offset st \<le> cs_offset st'" "cs_offset st \<le> cs_end st \<Longrightarrow> cs_offset st' \<le> cs_end st"
  | (tail) a st1 where "pe_read env = ReadQuotaExceeded a" "fallback_accepted st a" "cs_first_bytes st = None"
      "cs_offset st < cs_end st" "cs_offset st1 = cs_offset st" "same_range st st1"
      "tail_next st1 (px_items a) = (item, st')"
proof -
  consider (stop) "(cs_first_bytes st \<noteq> None \<or> cs_offset st < cs_end st) \<and> \<not> pe_control_ok env"
    | (first) b where "cs_first_bytes st = Some b" "pe_control_ok env"
    | (over) "cs_first_bytes st = None" "cs_end st \<le> cs_offset st"
    | (more) "cs_first_bytes st = None" "cs_offset st < cs_end st" "pe_control_ok env"
    by (cases "cs_first_bytes st"; cases "pe_control_ok env"; cases "cs_offset st < cs_end st"; simp add: not_less)
  then show thesis
  proof cases
    case stop
    with poll no_tail show thesis
      by (intro failed) (auto simp: stream_poll_def stream_fail_def Let_def split: prod.splits)
  next
    case (first b)
    with poll no_tail show thesis
      by (intro bytes) (auto simp: stream_poll_def cache_left_def same_range_def)
  next
    case over
    with poll no_tail show thesis
      by (intro finished) (auto simp: stream_poll_def cache_left_def same_range_def slice_def Let_def split: prod.splits)
  next
    case more
    show thesis
    proof (cases "pe_read env")
      case (ReadBytes b fetched)
      show thesis
      proof (cases "b = [] \<or> length b > HLS_MEDIA_STREAM_CHUNK_BYTES \<or> length b > cs_end st - cs_offset st")
        case True
        with poll no_tail more ReadBytes show thesis
          by (intro failed) (auto simp: stream_poll_def stream_fail_def Let_def split: prod.splits)
      next
        case False
        then have "slice c (cs_offset st) (cs_end st) =
            slice c (cs_offset st) (cs_offset st + length b) @ slice c (cs_offset st + length b) (cs_end st)"
          using more by (intro slice_split) auto
        moreover have "slice c (cs_offset st) (cs_offset st + length b) = b"
          using ok ReadBytes by (simp add: read_ok_def slice_def)
        ultimately show thesis
          using poll no_tail more ReadBytes False
          by (intro bytes) (auto simp: stream_poll_def cache_left_def same_range_def)
      qed
    next
      case (ReadQuotaExceeded a)
      show thesis
      proof (cases "fallback_accepted st a")
        case True
        with poll no_tail more ReadQuotaExceeded show thesis
          by (intro tail [of a "st\<lparr>cs_observation := ro_delegate_to_proxy (cs_observation st)\<rparr>"])
            (auto simp: stream_poll_def fallback_accepted_def same_range_def Let_def split: prod.splits)
      next
        case False
        with poll no_tail more ReadQuotaExceeded show thesis
          by (intro failed) (auto simp: stream_poll_def fallback_accepted_def Let_def split: prod.splits if_splits)
      qed
    next
      case ReadFailed
      with poll no_tail more show thesis
        by (intro failed) (auto simp: stream_poll_def stream_fail_def Let_def split: prod.splits)
    qed
  qed
qed

text \<open>A stream with a tail only hands on the items of the tail.\<close>

lemma stream_run_tail:
  "cs_upstream_tail st = Some items \<Longrightarrow> stream_run envs st = (chunks, outcome, st', ev) \<Longrightarrow>
    cs_upstream_tail st' \<noteq> None \<and> cs_offset st' = cs_offset st \<and> same_range st st'
    \<and> (\<exists>more. ok_bytes items = concat chunks @ more \<and> (outcome = Some None \<longrightarrow> more = [] \<and> all_ok items))"
proof (induction envs arbitrary: st items chunks outcome st' ev)
  case (Cons env envs)
  obtain item st1 where nxt: "tail_next st items = (item, st1)" by (metis prod.collapse)
  have poll: "stream_poll env st = (item, st1, [])" using Cons.prems(1) nxt by (simp add: stream_poll_def)
  from nxt show ?case
  proof (cases rule: tail_next_cases)
    case (bytes b rest)
    obtain chunks' outcome' st2 ev2 where run: "stream_run envs st1 = (chunks', outcome', st2, ev2)"
      by (metis prod_cases4)
    have "cs_upstream_tail st1 = Some rest" using bytes by simp
    from Cons.IH [OF this run] bytes Cons.prems(2) poll run show ?thesis
      by (auto simp: same_range_def)
  qed (use Cons.prems(2) poll in \<open>auto simp: same_range_def\<close>)
qed (simp add: same_range_def)

text \<open>What a run delivers, by whether a fallback answer was taken.\<close>

definition delivered :: "cached_stream \<Rightarrow> proxy_answer list \<Rightarrow> string \<Rightarrow> string \<Rightarrow> unit option option \<Rightarrow> cached_stream \<Rightarrow> string \<Rightarrow> bool" where
  "delivered st answers c pending outcome st' out \<longleftrightarrow>
     (case cs_upstream_tail st' of
        None \<Rightarrow> (\<exists>rest. pending = out @ rest \<and> (outcome = Some None \<longrightarrow> rest = []))
      | Some left \<Rightarrow> (\<exists>a \<in> set answers. fallback_accepted st' a \<and> cs_offset st \<le> cs_offset st'
          \<and> cs_offset st' < cs_end st \<and> same_range st st'
          \<and> (\<exists>cached body more. out = cached @ body \<and> pending = cached @ slice c (cs_offset st') (cs_end st)
              \<and> ok_bytes (px_items a) = body @ more
              \<and> (outcome = Some None \<longrightarrow> more = [] \<and> all_ok (px_items a)))))"

lemma stream_run_delivers:
  "cs_upstream_tail st = None \<Longrightarrow> cs_offset st \<le> cs_end st \<Longrightarrow> envs_ok c envs st \<Longrightarrow>
    stream_run envs st = (chunks, outcome, st', ev) \<Longrightarrow>
    delivered st (fallback_answers envs) c (cache_left c st) outcome st' (concat chunks)"
proof (induction envs arbitrary: st chunks outcome st' ev)
  case (Cons env envs)
  obtain item st1 ev1 where poll: "stream_poll env st = (item, st1, ev1)" by (metis prod_cases3)
  obtain chunks' outcome' st2 ev2 where run: "stream_run envs st1 = (chunks', outcome', st2, ev2)"
    by (metis prod_cases4)
  have ok: "read_ok c st env" using Cons.prems(3) by simp
  from Cons.prems(1) ok poll show ?case
  proof (cases rule: stream_poll_cached)
    case finished
    then show ?thesis using Cons.prems(4) poll by (auto simp: delivered_def)
  next
    case (failed e)
    then show ?thesis using Cons.prems(4) poll by (auto simp: delivered_def)
  next
    case (bytes b)
    have "envs_ok c envs st1" "cs_offset st1 \<le> cs_end st1"
      using Cons.prems(2,3) poll bytes by (auto simp: same_range_def)
    from Cons.IH [OF bytes(2) this(2,1) run]
    have ih: "delivered st1 (fallback_answers envs) c (cache_left c st1) outcome' st2 (concat chunks')" .
    have out: "chunks = b # chunks'" "outcome = outcome'" "st' = st2"
      using Cons.prems(4) poll bytes(1) run by auto
    show ?thesis
    proof (cases "cs_upstream_tail st2")
      case None
      with ih bytes(3) show ?thesis by (auto simp: delivered_def out)
    next
      case (Some left)
      then obtain a cached body more where a: "a \<in> set (fallback_answers envs)" "fallback_accepted st2 a"
        "cs_offset st1 \<le> cs_offset st2" "cs_offset st2 < cs_end st1" "same_range st1 st2"
        "concat chunks' = cached @ body" "cache_left c st1 = cached @ slice c (cs_offset st2) (cs_end st1)"
        "ok_bytes (px_items a) = body @ more" "outcome' = Some None \<longrightarrow> more = [] \<and> all_ok (px_items a)"
        using ih unfolding delivered_def by auto
      have "concat chunks = (b @ cached) @ body"
        "cache_left c st = (b @ cached) @ slice c (cs_offset st') (cs_end st)"
        using a(6,7) bytes(3,4) by (simp_all add: out same_range_def)
      moreover have "a \<in> set (fallback_answers (env # envs))" "fallback_accepted st' a"
        "cs_offset st \<le> cs_offset st'" "cs_offset st' < cs_end st" "same_range st st'"
        using a(1-5) bytes(4,5) same_range_trans [OF bytes(4) a(5)] by (auto simp: out same_range_def)
      ultimately show ?thesis
        using a(8,9) Some unfolding delivered_def out by (simp only: option.case) blast
    qed
  next
    case (tail a st0)
    have mem: "a \<in> set (fallback_answers (env # envs))" using tail(1) by simp
    have left: "cache_left c st = slice c (cs_offset st) (cs_end st)" using tail(3) by (simp add: cache_left_def)
    have "\<exists>body more. concat chunks = body \<and> ok_bytes (px_items a) = body @ more
        \<and> (outcome = Some None \<longrightarrow> more = [] \<and> all_ok (px_items a))
        \<and> cs_upstream_tail st' \<noteq> None \<and> cs_offset st' = cs_offset st \<and> same_range st st'"
      using tail(7)
    proof (cases rule: tail_next_cases)
      case (bytes b rest)
      from stream_run_tail [OF _ run, of rest] bytes Cons.prems(4) poll run tail(5,6) show ?thesis
        by (auto simp: same_range_def)
    qed (use Cons.prems(4) poll tail(5,6) in \<open>auto simp: same_range_def\<close>)
    moreover from this tail(2) have "fallback_accepted st' a"
      by (auto simp: fallback_accepted_def same_range_def)
    ultimately show ?thesis
      using mem left tail(4) unfolding delivered_def by fastforce
  qed
qed (simp add: delivered_def)

section \<open>How long a stream takes\<close>

definition stream_left :: "cached_stream \<Rightarrow> nat" where
  "stream_left st = (case cs_upstream_tail st of
     Some items \<Rightarrow> length items
   | None \<Rightarrow> (if cs_first_bytes st = None then 0 else 1) + (cs_end st - cs_offset st))"

definition answer_length :: "poll_env \<Rightarrow> nat" where
  "answer_length env = (case pe_read env of ReadQuotaExceeded a \<Rightarrow> length (px_items a) | _ \<Rightarrow> 0)"

definition stream_potential :: "nat \<Rightarrow> cached_stream \<Rightarrow> nat" where
  "stream_potential k st = stream_left st + (if cs_upstream_tail st = None then k else 0)"

lemma tail_next_left:
  "tail_next st items = (Some item, st') \<Longrightarrow>
    length items = Suc (stream_left st') \<and> cs_upstream_tail st' \<noteq> None"
  by (cases items) (auto simp: stream_left_def)

lemma stream_poll_left:
  assumes poll: "stream_poll env st = (Some (Inr b), st', ev)" and k: "answer_length env \<le> k"
  shows "stream_potential k st' < stream_potential k st"
proof (cases "cs_upstream_tail st")
  case (Some items)
  then have "tail_next st items = (Some (Inr b), st')"
    using poll by (auto simp: stream_poll_def split: prod.splits)
  from tail_next_left [OF this] Some show ?thesis
    by (auto simp: stream_potential_def stream_left_def)
next
  case None
  show ?thesis
  proof (cases "\<exists>a st1. pe_read env = ReadQuotaExceeded a \<and> tail_next st1 (px_items a) = (Some (Inr b), st')")
    case True
    then obtain a st1 where "pe_read env = ReadQuotaExceeded a" "tail_next st1 (px_items a) = (Some (Inr b), st')"
      by blast
    with tail_next_left [OF this(2)] k None show ?thesis
      by (auto simp: stream_potential_def answer_length_def)
  next
    case False
    then show ?thesis
      using poll None
      by (auto simp: stream_poll_def stream_potential_def stream_left_def Let_def
          split: if_splits option.splits chunk_read.splits prod.splits intro!: diff_less_mono2)
  qed
qed

lemma stream_run_ends:
  "stream_run envs st = (chunks, outcome, st', ev) \<Longrightarrow> \<forall>env \<in> set envs. answer_length env \<le> k \<Longrightarrow>
    stream_potential k st < length envs \<Longrightarrow> outcome \<noteq> None"
proof (induction envs arbitrary: st chunks outcome st' ev)
  case (Cons env envs)
  obtain item st1 ev1 where poll: "stream_poll env st = (item, st1, ev1)" by (metis prod_cases3)
  show ?case
  proof (cases "\<exists>b. item = Some (Inr b)")
    case True
    then obtain b where b: "item = Some (Inr b)" by blast
    obtain chunks' outcome' st2 ev2 where run: "stream_run envs st1 = (chunks', outcome', st2, ev2)"
      by (metis prod_cases4)
    have "stream_potential k st1 < length envs"
      using stream_poll_left [of env st b st1 ev1 k] poll b Cons.prems(2,3) by simp
    from Cons.IH [OF run _ this] Cons.prems(1,2) poll b run show ?thesis by auto
  next
    case False
    then show ?thesis using Cons.prems(1) poll by (auto split: option.splits sum.splits)
  qed
qed simp

section \<open>Properties\<close>

text \<open>
  C18. Whatever a poll meets (a control that stops the session, a read that fails, a cache without
  room, a fallback answer that breaks off or ends early), a stream that never left the cache
  delivers a prefix of the requested part of the resource, and all of it if it ends without an
  error. A stream that went over to a fallback answer did so after exactly the bytes before some
  position of the range, the answer is a 206 that names the range from that position to the end
  and the known total length, and what follows is a prefix of the body of that one answer, the
  whole body if the stream ends without an error. So where the body holds the bytes of the
  resource, what leaves is a prefix of the requested part in any case, and it is all of it when
  the stream ends without an error and the body was not short. A consumer that polls as often as
  there are bytes and fallback items left, and twice more, sees the end of the stream or an error.
\<close>

theorem cached_stream_delivers:
  assumes "cs_upstream_tail st = None" "cs_offset st \<le> cs_end st" "start \<le> cs_offset st"
    and "(case cs_first_bytes st of Some b \<Rightarrow> b | None \<Rightarrow> []) = slice c start (cs_offset st)"
    and "envs_ok c envs st" and run: "stream_run envs st = (chunks, outcome, st', ev)"
  shows "(case cs_upstream_tail st' of
      None \<Rightarrow> prefix (concat chunks) (slice c start (cs_end st))
        \<and> (outcome = Some None \<longrightarrow> concat chunks = slice c start (cs_end st))
    | Some left \<Rightarrow> (\<exists>a \<in> set (fallback_answers envs).
        px_status a = 206
        \<and> Option.bind (px_content_range a) to_str
          = Some (content_range_text (cs_offset st') (cs_end st - 1) (cs_total_length st))
        \<and> cs_offset st \<le> cs_offset st' \<and> cs_offset st' < cs_end st
        \<and> (\<exists>body. concat chunks = slice c start (cs_offset st') @ body
            \<and> prefix body (ok_bytes (px_items a))
            \<and> (outcome = Some None \<longrightarrow> all_ok (px_items a) \<and> body = ok_bytes (px_items a)))
        \<and> (prefix (ok_bytes (px_items a)) (slice c (cs_offset st') (cs_end st)) \<longrightarrow>
            prefix (concat chunks) (slice c start (cs_end st))
            \<and> (outcome = Some None
                \<and> length (ok_bytes (px_items a)) = length (slice c (cs_offset st') (cs_end st))
               \<longrightarrow> concat chunks = slice c start (cs_end st)))))
    \<and> (\<forall>k. (\<forall>env \<in> set envs. answer_length env \<le> k) \<and> cs_end st - cs_offset st + k + 2 \<le> length envs
        \<longrightarrow> outcome \<noteq> None)"
proof
  have pending: "cache_left c st = slice c start (cs_end st)"
    using assms(2-4) by (simp add: cache_left_def slice_split [of start "cs_offset st" "cs_end st" c])
  note d = stream_run_delivers [OF assms(1,2,5) run, unfolded delivered_def pending]
  show "case cs_upstream_tail st' of
      None \<Rightarrow> prefix (concat chunks) (slice c start (cs_end st))
        \<and> (outcome = Some None \<longrightarrow> concat chunks = slice c start (cs_end st))
    | Some left \<Rightarrow> (\<exists>a \<in> set (fallback_answers envs).
        px_status a = 206
        \<and> Option.bind (px_content_range a) to_str
          = Some (content_range_text (cs_offset st') (cs_end st - 1) (cs_total_length st))
        \<and> cs_offset st \<le> cs_offset st' \<and> cs_offset st' < cs_end st
        \<and> (\<exists>body. concat chunks = slice c start (cs_offset st') @ body
            \<and> prefix body (ok_bytes (px_items a))
            \<and> (outcome = Some None \<longrightarrow> all_ok (px_items a) \<and> body = ok_bytes (px_items a)))
        \<and> (prefix (ok_bytes (px_items a)) (slice c (cs_offset st') (cs_end st)) \<longrightarrow>
            prefix (concat chunks) (slice c start (cs_end st))
            \<and> (outcome = Some None
                \<and> length (ok_bytes (px_items a)) = length (slice c (cs_offset st') (cs_end st))
               \<longrightarrow> concat chunks = slice c start (cs_end st))))"
  proof (cases "cs_upstream_tail st'")
    case None
    with d show ?thesis by (auto simp: prefix_def)
  next
    case (Some left)
    with d obtain a cached body more where a: "a \<in> set (fallback_answers envs)" "fallback_accepted st' a"
      "cs_offset st \<le> cs_offset st'" "cs_offset st' < cs_end st" "same_range st st'"
      "concat chunks = cached @ body" "slice c start (cs_end st) = cached @ slice c (cs_offset st') (cs_end st)"
      "ok_bytes (px_items a) = body @ more" "outcome = Some None \<longrightarrow> more = [] \<and> all_ok (px_items a)"
      by auto
    have split: "slice c start (cs_end st) = slice c start (cs_offset st') @ slice c (cs_offset st') (cs_end st)"
      using a(3,4) assms(3) by (intro slice_split) auto
    with a(7) have "cached = slice c start (cs_offset st')" by simp
    moreover have "prefix (concat chunks) (slice c start (cs_end st))
        \<and> (outcome = Some None \<and> length (ok_bytes (px_items a)) = length (slice c (cs_offset st') (cs_end st))
            \<longrightarrow> concat chunks = slice c start (cs_end st))"
      if "prefix (ok_bytes (px_items a)) (slice c (cs_offset st') (cs_end st))"
      using that a(6,7,8,9) by (auto simp: prefix_def)
    ultimately show ?thesis
      unfolding Some option.case
      using a(1-6,8,9)
      by (intro bexI [of _ a] conjI) (auto simp: fallback_accepted_def same_range_def prefix_def)
  qed
  show "\<forall>k. (\<forall>env \<in> set envs. answer_length env \<le> k) \<and> cs_end st - cs_offset st + k + 2 \<le> length envs
        \<longrightarrow> outcome \<noteq> None"
    using stream_run_ends [OF run] assms(1) by (auto simp: stream_potential_def stream_left_def)
qed

fun first_error :: "upstream_item list \<Rightarrow> transport_error option" where
  "first_error [] = None"
| "first_error (UpError e # is) = Some e"
| "first_error (UpBytes b # is) = first_error is"

fun items_length :: "upstream_item list \<Rightarrow> nat" where
  "items_length [] = 0"
| "items_length (UpBytes b # is) = length b + items_length is"
| "items_length (UpError e # is) = items_length is"

definition progressed :: "nat \<Rightarrow> body_observation \<Rightarrow> body_observation \<Rightarrow> bool" where
  "progressed n b b' \<longleftrightarrow> bo_bytes b' = bo_bytes b + n \<and> bo_url b' = bo_url b
     \<and> bo_expected_body_bytes b' = bo_expected_body_bytes b
     \<and> bo_content_length_validated b' = bo_content_length_validated b
     \<and> bo_runtime b' = bo_runtime b \<and> bo_finished b' = bo_finished b"

lemma proxy_items_good:
  "first_error items = None \<Longrightarrow> bo_bytes (ps_observation st) + items_length items \<le> u64_max \<Longrightarrow>
    proxy_items now items st = (st', ev, recs) \<Longrightarrow>
    ev = [] \<and> recs = [] \<and> ps_failed st' = ps_failed st \<and> ps_response_time st' = ps_response_time st
    \<and> progressed (items_length items) (ps_observation st) (ps_observation st')"
proof (induction items arbitrary: st st' ev recs)
  case (Cons i items)
  then obtain b where i: "i = UpBytes b" by (cases i) auto
  define st1 where "st1 = st\<lparr>ps_observation := observe_chunk now (length b) (ps_observation st)\<rparr>"
  obtain st2 ev2 recs2 where rest: "proxy_items now items st1 = (st2, ev2, recs2)" by (metis prod_cases3)
  have p1: "progressed (length b) (ps_observation st) (ps_observation st1)"
    using Cons.prems(2) by (simp add: st1_def observe_chunk_def progressed_def i saturating_add_def)
  have "bo_bytes (ps_observation st1) + items_length items \<le> u64_max"
    using p1 Cons.prems(2) by (simp add: progressed_def i)
  from Cons.IH [OF _ this rest] Cons.prems(1,3) p1 rest show ?case
    by (auto simp: i proxy_poll_def st1_def progressed_def)
qed (simp add: progressed_def)

lemma proxy_items_failed:
  "ps_failed st \<Longrightarrow> bo_finished (ps_observation st) \<Longrightarrow> proxy_items now items st = (st', ev, recs) \<Longrightarrow>
    ev = [] \<and> recs = [] \<and> ps_failed st' \<and> bo_finished (ps_observation st')"
proof (induction items arbitrary: st st' ev recs)
  case (Cons i items)
  obtain item st1 ev1 recs1 where one: "proxy_poll now (Some i) st = (item, st1, ev1, recs1)"
    by (metis prod_cases4)
  have st1: "ps_failed st1" "bo_finished (ps_observation st1)" "ev1 = []" "recs1 = []"
    using one Cons.prems(1,2) by (auto simp: proxy_poll_def observe_chunk_def split: upstream_item.splits)
  obtain st2 ev2 recs2 where rest: "proxy_items now items st1 = (st2, ev2, recs2)" by (metis prod_cases3)
  from Cons.IH [OF st1(1,2) rest] Cons.prems(3) one rest st1(3,4) show ?case by auto
qed simp

lemma proxy_items_bad:
  "first_error items = Some e \<Longrightarrow> \<not> ps_failed st \<Longrightarrow> \<not> bo_finished (ps_observation st) \<Longrightarrow>
    bo_url (ps_observation st) = Some url \<Longrightarrow> proxy_items now items st = (st', ev, recs) \<Longrightarrow>
    ev = [UpstreamFailure] \<and> (\<exists>ob. recs = [(url, ob)]
      \<and> (ob_outcome ob = cdn_outcome_for_transport e))
    \<and> ps_failed st' \<and> bo_finished (ps_observation st')"
proof (induction items arbitrary: st st' ev recs)
  case (Cons i items)
  show ?case
  proof (cases i)
    case (UpBytes b)
    define st1 where "st1 = st\<lparr>ps_observation := observe_chunk now (length b) (ps_observation st)\<rparr>"
    obtain st2 ev2 recs2 where rest: "proxy_items now items st1 = (st2, ev2, recs2)" by (metis prod_cases3)
    have "\<not> ps_failed st1" "\<not> bo_finished (ps_observation st1)" "bo_url (ps_observation st1) = Some url"
      using Cons.prems by (simp_all add: st1_def observe_chunk_def)
    from Cons.IH [OF _ this rest] Cons.prems(1,5) rest show ?thesis
      by (simp add: UpBytes proxy_poll_def st1_def)
  next
    case (UpError e')
    then have e': "e' = e" using Cons.prems(1) by simp
    have no: "cdn_outcome_for_transport e \<noteq> Complete" by (simp add: cdn_outcome_for_transport_def)
    obtain st2 ev2 recs2 where rest:
      "proxy_items now items (st\<lparr>ps_observation := (ps_observation st)\<lparr>bo_finished := True\<rparr>, ps_failed := True\<rparr>)
        = (st2, ev2, recs2)" by (metis prod_cases3)
    from proxy_items_failed [OF _ _ rest] Cons.prems rest no show ?thesis
      by (auto simp: UpError e' proxy_poll_def body_finish_def playback_observation_def Let_def)
  qed
qed simp

text \<open>
  Over its whole life a passed-through body gives the history at most one observation and the
  network policy at most one verdict. If an error comes first, the observation has the outcome of
  the first error and the verdict is a failure. If the body is read to its end, it is judged
  complete and successful exactly when it has the expected length, and a mismatch and a failure
  otherwise. If the client goes away, there is no verdict, and the observation says complete only
  when the whole announced body had arrived.
\<close>

theorem proxy_life_verdict:
  assumes fresh: "ps_observation st = body_observation_new (Some url) t0 range_supported expected validated runtime"
    and "\<not> ps_failed st" and len: "items_length items \<le> u64_max"
    and life: "(ev, recs) = proxy_life now items to_end st"
  shows "(case first_error items of
      Some e \<Rightarrow> ev = [UpstreamFailure]
        \<and> map (\<lambda>(u, ob). (u, ob_outcome ob)) recs = [(url, cdn_outcome_for_transport e)]
    | None \<Rightarrow>
        if to_end then
          (if expected = None \<or> expected = Some (items_length items)
           then ev = [UpstreamSuccess (ps_response_time st)]
             \<and> map (\<lambda>(u, ob). (u, ob_outcome ob, ob_bytes ob)) recs = [(url, Complete, items_length items)]
           else ev = [UpstreamFailure]
             \<and> map (\<lambda>(u, ob). (u, ob_outcome ob, ob_bytes ob)) recs = [(url, IntegrityMismatch, items_length items)])
        else ev = [] \<and> length recs \<le> 1
          \<and> (\<forall>(u, ob) \<in> set recs. u = url \<and> ob_bytes ob = items_length items
               \<and> (ob_outcome ob = Complete \<longleftrightarrow> validated \<and> expected = Some (items_length items))))"
proof -
  obtain st1 ev1 recs1 where items: "proxy_items now items st = (st1, ev1, recs1)" by (metis prod_cases3)
  show ?thesis
  proof (cases "first_error items")
    case None
    have "bo_bytes (ps_observation st) + items_length items \<le> u64_max"
      using len by (simp add: fresh body_observation_new_def)
    from proxy_items_good [OF None this items] assms(2) have g:
      "ev1 = []" "recs1 = []" "\<not> ps_failed st1" "ps_response_time st1 = ps_response_time st"
      "bo_bytes (ps_observation st1) = items_length items" "bo_url (ps_observation st1) = Some url"
      "bo_expected_body_bytes (ps_observation st1) = expected"
      "bo_content_length_validated (ps_observation st1) = validated" "\<not> bo_finished (ps_observation st1)"
      by (simp_all add: progressed_def fresh body_observation_new_def)
    show ?thesis
    proof (cases to_end)
      case True
      then show ?thesis
        using life g None items
        by (auto simp: proxy_life_def proxy_poll_def body_finish_def body_drop_def playback_observation_def
            Let_def split: option.splits)
    next
      case False
      then show ?thesis
        using life g None items
        by (auto simp: proxy_life_def body_drop_def playback_observation_def Let_def
            split: option.splits if_splits)
    qed
  next
    case (Some e)
    from proxy_items_bad [OF Some assms(2) _ _ items, of url] fresh have b:
      "ev1 = [UpstreamFailure]" "\<exists>ob. recs1 = [(url, ob)] \<and> ob_outcome ob = cdn_outcome_for_transport e"
      "ps_failed st1" "bo_finished (ps_observation st1)"
      by (simp_all add: body_observation_new_def)
    then obtain ob where ob: "recs1 = [(url, ob)]" "ob_outcome ob = cdn_outcome_for_transport e" by blast
    have "ev = ev1 \<and> recs = recs1"
      using life items b(3,4) by (cases to_end) (simp_all add: proxy_life_def proxy_poll_def body_drop_def)
    then show ?thesis using Some b(1) ob by simp
  qed
qed

definition tail_accepted :: "nat \<Rightarrow> nat \<Rightarrow> nat \<Rightarrow> upstream_tail \<Rightarrow> bool" where
  "tail_accepted start stop total_length t \<longleftrightarrow>
     ua_status (ut_upstream t) = 206
     \<and> content_range_byte_range (ua_headers (ut_upstream t)) =
         Some (\<lparr>br_start = start, br_end = stop\<rparr>, total_length)
     \<and> ut_length t = stop - start + 1
     \<and> (\<forall>n. ua_content_length (ut_upstream t) = Some n \<longrightarrow> n = ut_length t)
     \<and> (ut_content_length_validated t \<longleftrightarrow> ua_content_length (ut_upstream t) = Some (ut_length t))"

definition own_failure :: "media_request \<Rightarrow> history_record \<Rightarrow> bool" where
  "own_failure r p \<longleftrightarrow> fst p \<in> set (mr_url r # mr_backup_urls r) \<and> ob_bytes (snd p) = 0
     \<and> ob_outcome (snd p) \<noteq> Complete"

lemma find_mem: "List.find P xs = Some x \<Longrightarrow> x \<in> set xs"
  by (auto simp: find_Some_iff)

lemma observation_candidate_url_mem:
  "observation_candidate_url f r u = Some c \<Longrightarrow> c \<in> set (mr_url r # mr_backup_urls r)"
  unfolding observation_candidate_url_def by (cases "f u") (auto dest!: find_mem split: if_splits)

lemma observe_candidate_own:
  assumes "outcome \<noteq> Complete" and "x \<in> set (observe_candidate (Option.bind u (observation_candidate_url f r)) outcome rs)"
  shows "own_failure r x"
proof -
  from assms(2) obtain c where "Option.bind u (observation_candidate_url f r) = Some c"
    "x = (c, playback_observation outcome 0 None None rs)"
    by (cases "Option.bind u (observation_candidate_url f r)") (auto simp: observe_candidate_def)
  then show ?thesis
    using assms(1) observation_candidate_url_mem [of f r _ c]
    by (cases u) (auto simp: own_failure_def playback_observation_def)
qed

lemma outcome_not_complete: "cdn_outcome_for_transport e \<noteq> Complete" "cdn_outcome_for_status n \<noteq> Complete"
  by (simp_all add: cdn_outcome_for_transport_def cdn_outcome_for_status_def)

lemma observe_candidate_length: "length (observe_candidate u outcome rs) \<le> 1"
  by (simp add: observe_candidate_def split: option.split)

text \<open>One address is either accepted or counted as a retry, with at most one observation.\<close>

lemma open_tail_step:
  "(\<exists>t. open_tail_loop f send r start stop n (url # urls) = (Some t, [], [])
      \<and> send url = Inr (ut_upstream t) \<and> tail_accepted start stop n t)
   \<or> (\<exists>recs. open_tail_loop f send r start stop n (url # urls) =
        (let (res, ev, recs') = open_tail_loop f send r start stop n urls in (res, UpstreamRetry # ev, recs @ recs'))
      \<and> length recs \<le> 1 \<and> (\<forall>x \<in> set recs. own_failure r x))"
proof (cases "send url")
  case (Inl e)
  then show ?thesis
    using observe_candidate_own [OF outcome_not_complete(1)] observe_candidate_length
    by (intro disjI2) (auto simp: Let_def)
next
  case (Inr a)
  have own: "\<forall>x \<in> set (observe_candidate (observation_candidate_url f r u) oc rs). own_failure r x"
    if "oc \<noteq> Complete" for oc rs u
    using observe_candidate_own [OF that, of _ "Some u"] by auto
  define status where "status = status_code (ua_status a)"
  have 206: "ua_status a = 206" if "status = 206"
    using that by (simp add: status_def status_code_def split: if_splits)
  show ?thesis
  proof (cases "should_retry_hls_upstream_status status \<or> \<not> is_success status")
    case True
    then show ?thesis
      using own [OF outcome_not_complete(2)] observe_candidate_length
      by (intro disjI2) (auto simp: Inr Let_def status_def)
  next
    case good: False
    show ?thesis
    proof (cases "content_range_byte_range (ua_headers a)")
      case None
      then show ?thesis
        using own [of IntegrityMismatch] observe_candidate_length good
        by (intro disjI2) (auto simp: Inr Let_def status_def)
    next
      case (Some cr)
      then obtain rng n' where cr: "content_range_byte_range (ua_headers a) = Some (rng, n')" by (cases cr) auto
      show ?thesis
      proof (cases "status \<noteq> 206 \<or> rng \<noteq> \<lparr>br_start = start, br_end = stop\<rparr> \<or> n' \<noteq> n
          \<or> (case ua_content_length a of Some k \<Rightarrow> k \<noteq> range_length \<lparr>br_start = start, br_end = stop\<rparr> | None \<Rightarrow> False)")
        case True
        then show ?thesis
          using own [of IntegrityMismatch] observe_candidate_length good cr
          by (intro disjI2) (auto simp: Inr Let_def status_def)
      next
        case False
        then show ?thesis
          using good cr 206
          by (intro disjI1)
            (auto simp: Inr Let_def status_def tail_accepted_def range_length_def split: option.splits)
      qed
    qed
  qed
qed

text \<open>
  The tail of a partly cached resource comes from the first usable ranked address whose answer
  is a 206 with exactly the requested range, the known total length and, if it announces a length,
  the length of the range; every address tried before counts as one retry, and each observation on
  the way blames an address of the request and never reports a complete transfer. If there is no
  such address, all of them were tried.
\<close>

theorem tail_comes_from_valid_answer:
  assumes "(res, ev, recs) = open_hls_upstream_tail_response parse sha256 url_origin send r start stop n now st"
    and "urls = usable_urls (fst (rank_request_at parse sha256 r now st))"
  shows "(case res of
      Some t \<Rightarrow> (\<exists>pre url post. urls = pre @ url # post \<and> send url = Inr (ut_upstream t)
        \<and> tail_accepted start stop n t \<and> ev = replicate (length pre) UpstreamRetry)
    | None \<Rightarrow> ev = replicate (length urls) UpstreamRetry)
    \<and> length recs \<le> length ev \<and> (\<forall>x \<in> set recs. own_failure r x)"
proof -
  have "(res, ev, recs) = open_tail_loop url_origin send r start stop n urls \<Longrightarrow>
    (case res of
      Some t \<Rightarrow> (\<exists>pre url post. urls = pre @ url # post \<and> send url = Inr (ut_upstream t)
        \<and> tail_accepted start stop n t \<and> ev = replicate (length pre) UpstreamRetry)
    | None \<Rightarrow> ev = replicate (length urls) UpstreamRetry)
    \<and> length recs \<le> length ev \<and> (\<forall>x \<in> set recs. own_failure r x)" for res ev recs urls
  proof (induction urls arbitrary: res ev recs)
    case (Cons url urls)
    obtain res' ev' recs' where rest: "open_tail_loop url_origin send r start stop n urls = (res', ev', recs')"
      by (metis prod_cases3)
    show ?case
    proof (cases "\<exists>t. open_tail_loop url_origin send r start stop n (url # urls) = (Some t, [], [])
      \<and> send url = Inr (ut_upstream t) \<and> tail_accepted start stop n t")
      case True
      then obtain t where t: "open_tail_loop url_origin send r start stop n (url # urls) = (Some t, [], [])"
        "send url = Inr (ut_upstream t)" "tail_accepted start stop n t" by blast
      then have "url # urls = [] @ url # urls \<and> send url = Inr (ut_upstream t)
          \<and> tail_accepted start stop n t \<and> [] = replicate (length ([] :: string list)) UpstreamRetry"
        by simp
      then have "\<exists>pre u post. url # urls = pre @ u # post \<and> send u = Inr (ut_upstream t)
          \<and> tail_accepted start stop n t \<and> [] = replicate (length pre) UpstreamRetry" by blast
      then show ?thesis using Cons.prems unfolding t(1) by simp
    next
      case False
      then obtain one where one: "res = res'" "ev = UpstreamRetry # ev'" "recs = one @ recs'" "length one \<le> 1"
        "\<forall>x \<in> set one. own_failure r x"
        using open_tail_step [of url_origin send r start stop n url urls] rest Cons.prems
        by (auto simp: Let_def simp del: open_tail_loop.simps)
      note ih = Cons.IH [OF rest [symmetric]]
      show ?thesis
      proof (cases res')
        case None
        then show ?thesis using ih one by auto
      next
        case (Some t)
        with ih obtain pre u post where "urls = pre @ u # post" "send u = Inr (ut_upstream t)"
          "tail_accepted start stop n t" "ev' = replicate (length pre) UpstreamRetry" by auto
        then have "url # urls = (url # pre) @ u # post \<and> send u = Inr (ut_upstream t)
            \<and> tail_accepted start stop n t \<and> ev = replicate (length (url # pre)) UpstreamRetry"
          using one(2) by simp
        then have "\<exists>pre u post. url # urls = pre @ u # post \<and> send u = Inr (ut_upstream t)
            \<and> tail_accepted start stop n t \<and> ev = replicate (length pre) UpstreamRetry" by blast
        then show ?thesis using Some ih one by auto
      qed
    qed
  qed simp
  then show ?thesis using assms by (simp add: open_hls_upstream_tail_response_def)
qed

section \<open>Witnesses\<close>

definition demo_stream :: cached_stream where
  "demo_stream = \<lparr>cs_offset = 2, cs_end = 5, cs_total_length = 8, cs_first_bytes = None,
     cs_first_was_fetched = False, cs_upstream_tail = None,
     cs_observation = range_observation_new 3 False 0\<rparr>"

definition demo_envs :: "poll_env list" where
  "demo_envs = [\<lparr>pe_control_ok = True, pe_read = ReadBytes ''cd'' True, pe_now = 1\<rparr>,
     \<lparr>pe_control_ok = True, pe_read = ReadBytes ''e'' False, pe_now = 2\<rparr>,
     \<lparr>pe_control_ok = True, pe_read = ReadFailed, pe_now = 3\<rparr>]"

lemma demo_stream_run:
  "\<exists>st'. stream_run demo_envs demo_stream = ([''cd'', ''e''], Some None, st', [UpstreamSuccess 3])"
  by (simp add: demo_envs_def demo_stream_def stream_poll_def HLS_MEDIA_STREAM_CHUNK_BYTES_def
      RANGE_MAX_CHUNK_BYTES_def range_observation_new_def ro_observe_def ro_finish_def saturating_add_def)

lemma demo_envs_ok: "envs_ok ''abcdefgh'' demo_envs demo_stream"
  by (simp add: demo_envs_def demo_stream_def stream_poll_def read_ok_def HLS_MEDIA_STREAM_CHUNK_BYTES_def
      RANGE_MAX_CHUNK_BYTES_def range_observation_new_def ro_finish_def ro_observe_def saturating_add_def)

text \<open>A run that goes over to a fallback answer whose body ends one byte early without an error.\<close>

definition demo_short_envs :: "poll_env list" where
  "demo_short_envs = [\<lparr>pe_control_ok = True, pe_read = ReadBytes ''c'' True, pe_now = 1\<rparr>,
     \<lparr>pe_control_ok = True, pe_read = ReadQuotaExceeded
        \<lparr>px_status = 206, px_content_range = Some (content_range_text 3 4 8), px_items = [Inr ''d'']\<rparr>, pe_now = 2\<rparr>,
     \<lparr>pe_control_ok = True, pe_read = ReadFailed, pe_now = 3\<rparr>]"

lemma demo_short_run:
  "\<exists>st'. stream_run demo_short_envs demo_stream = ([''c'', ''d''], Some None, st', [])
     \<and> cs_upstream_tail st' = Some [] \<and> cs_offset st' = 3"
  by (simp add: demo_short_envs_def demo_stream_def stream_poll_def HLS_MEDIA_STREAM_CHUNK_BYTES_def
      RANGE_MAX_CHUNK_BYTES_def)

lemma demo_short_envs_ok: "envs_ok ''abcdefgh'' demo_short_envs demo_stream"
  by (simp add: demo_short_envs_def demo_stream_def stream_poll_def read_ok_def HLS_MEDIA_STREAM_CHUNK_BYTES_def
      RANGE_MAX_CHUNK_BYTES_def)

theorem cached_stream_delivers_witness:
  "(\<exists>st'. stream_run demo_envs demo_stream = ([''cd'', ''e''], Some None, st', [UpstreamSuccess 3]))
    \<and> concat [''cd'', ''e''] = slice ''abcdefgh'' 2 5
    \<and> (\<exists>st'. stream_run demo_short_envs demo_stream = ([''c'', ''d''], Some None, st', [])
        \<and> concat [''c'', ''d''] = slice ''abcdefgh'' 2 (cs_offset st') @ ''d'')
    \<and> prefix (concat [''c'', ''d'']) (slice ''abcdefgh'' 2 5)"
proof -
  have first: "slice ''abcdefgh'' 2 2 = []" "cs_upstream_tail demo_stream = None"
    "cs_offset demo_stream = 2" "cs_end demo_stream = 5" "cs_first_bytes demo_stream = None"
    by (simp_all add: demo_stream_def)
  obtain st1 where run1: "stream_run demo_envs demo_stream = ([''cd'', ''e''], Some None, st1, [UpstreamSuccess 3])"
    using demo_stream_run by blast
  have "fallback_answers demo_envs = []" by (simp add: demo_envs_def)
  then have full: "concat [''cd'', ''e''] = slice ''abcdefgh'' 2 5"
    using cached_stream_delivers [OF _ _ _ _ demo_envs_ok run1, of 2]
    by (simp add: first split: option.splits)
  obtain st2 where run2: "stream_run demo_short_envs demo_stream = ([''c'', ''d''], Some None, st2, [])"
    and tail: "cs_upstream_tail st2 = Some []" "cs_offset st2 = 3"
    using demo_short_run by blast
  have "fallback_answers demo_short_envs = [\<lparr>px_status = 206,
      px_content_range = Some (content_range_text 3 4 8), px_items = [Inr ''d'']\<rparr>]"
    by (simp add: demo_short_envs_def)
  then have cut: "concat [''c'', ''d''] = slice ''abcdefgh'' 2 3 @ ''d''"
    and whole: "prefix ''d'' (slice ''abcdefgh'' 3 5) \<longrightarrow> prefix ''cd'' (slice ''abcdefgh'' 2 5)"
    using cached_stream_delivers [OF _ _ _ _ demo_short_envs_ok run2, of 2]
    by (simp_all add: first tail)
  have "prefix ''d'' (slice ''abcdefgh'' 3 5)" by code_simp
  with whole have "prefix (concat [''c'', ''d'']) (slice ''abcdefgh'' 2 5)" by simp
  then show ?thesis using run1 full run2 cut [folded tail(2)] by blast
qed

theorem proxy_life_verdict_witness:
  "fst (proxy_life 9 [UpBytes ''ab'', UpBytes ''c''] True
     \<lparr>ps_response_time = 4, ps_observation = body_observation_new (Some ''https://a/x'') 1 None (Some 3) True True,
      ps_failed = False\<rparr>) = [UpstreamSuccess 4]"
  using proxy_life_verdict [where st = "\<lparr>ps_response_time = 4,
        ps_observation = body_observation_new (Some ''https://a/x'') 1 None (Some 3) True True, ps_failed = False\<rparr>"
      and url = "''https://a/x''" and ?t0.0 = 1 and range_supported = None and expected = "Some 3"
      and validated = True and runtime = True and items = "[UpBytes ''ab'', UpBytes ''c'']"
      and now = 9 and to_end = True, OF _ _ _ prod.collapse]
  by simp

theorem tail_comes_from_valid_answer_witness:
  "fst (open_hls_upstream_tail_response (\<lambda>_. None) (\<lambda>_. []) (\<lambda>_. None)
     (\<lambda>_. Inl \<lparr>te_is_timeout = True, te_is_connect = False, te_is_body = False, te_is_decode = False, te_url = None\<rparr>)
     \<lparr>mr_kind = Video, mr_stream_id = None, mr_url = ''u'', mr_backup_urls = [], mr_codecs = None, mr_bandwidth = None,
      mr_width = None, mr_height = None, mr_size = None, mr_duration_seconds = None,
      mr_cache_key = \<lparr>mk_content_id = [], mk_media_kind = Video, mk_stream_id = None, mk_codecs = None, mk_source_hash = []\<rparr>\<rparr>
     0 1 2 0 history_default) = None"
  (is "fst ?call = None")
proof (cases "fst ?call")
  case (Some t)
  obtain ev recs where call: "(Some t, ev, recs) = ?call" using Some by (metis prod.collapse)
  from tail_comes_from_valid_answer [OF call refl] show ?thesis by auto
qed

end
