(* ===== verification/Private_File.thy ===== *)
theory Private_File
  imports Prelude
begin

text \<open>
  A private state file as \<open>resolver_settings.rs\<close> and \<open>resolver_routing.rs\<close> read and replace it: the
  content is written to a temporary file beside it, synchronised and renamed over the old one. What
  the operating system answers to each call is an argument. The interface \<open>persistent_state\<close> states
  what a component may rely on; the components that keep such a file interpret it.
\<close>

section \<open>Reading and replacing the file\<close>

datatype 'b fs_node = Absent | Regular "'b list" | Special

record read_calls =
  rc_stat :: bool
  rc_open :: bool
  rc_read :: bool

record write_calls =
  wc_has_parent :: bool
  wc_create_dirs :: bool
  wc_parent_is_dir :: bool
  wc_stat :: bool
  wc_create :: bool
  wc_write :: bool
  wc_sync :: bool
  wc_rename :: bool

datatype 'b read_result = NotFound | Refused | Content "'b list"

definition read_private_file :: "read_calls \<Rightarrow> nat \<Rightarrow> 'b fs_node \<Rightarrow> 'b read_result" where
  "read_private_file calls limit node =
     (if \<not> rc_stat calls then Refused
      else case node of
        Absent \<Rightarrow> NotFound
      | Special \<Rightarrow> Refused
      | Regular content \<Rightarrow>
          if length content > limit then Refused
          else if \<not> rc_open calls then Refused
          else if \<not> rc_read calls then Refused
          else let bytes = take (limit + 1) content in
            if length bytes > limit then Refused else Content bytes)"

definition write_private_file ::
  "write_calls \<Rightarrow> nat \<Rightarrow> 'b list \<Rightarrow> 'b fs_node \<Rightarrow> bool \<times> 'b fs_node" where
  "write_private_file calls limit bytes node =
     (if \<not> wc_has_parent calls then (False, node)
      else if \<not> wc_create_dirs calls then (False, node)
      else if \<not> wc_parent_is_dir calls then (False, node)
      else if \<not> wc_stat calls then (False, node)
      else if node = Special then (False, node)
      else if length bytes > limit then (False, node)
      else if \<not> wc_create calls then (False, node)
      else if \<not> wc_write calls then (False, node)
      else if \<not> wc_sync calls then (False, node)
      else if \<not> wc_rename calls then (False, node)
      else (True, Regular bytes))"

abbreviation reads_succeed :: "read_calls \<Rightarrow> bool" where
  "reads_succeed calls \<equiv> rc_stat calls \<and> rc_open calls \<and> rc_read calls"

definition calls_fine :: write_calls where
  "calls_fine = \<lparr>wc_has_parent = True, wc_create_dirs = True, wc_parent_is_dir = True,
     wc_stat = True, wc_create = True, wc_write = True, wc_sync = True, wc_rename = True\<rparr>"

definition reads_fine :: read_calls where
  "reads_fine = \<lparr>rc_stat = True, rc_open = True, rc_read = True\<rparr>"

lemma write_private_file_True:
  "write_private_file calls limit bytes node = (True, node') \<Longrightarrow>
    node' = Regular bytes \<and> length bytes \<le> limit"
  by (simp add: write_private_file_def split: if_splits)

lemma write_private_file_False:
  "write_private_file calls limit bytes node = (False, node') \<Longrightarrow> node' = node"
  by (simp add: write_private_file_def split: if_splits)

lemma write_private_file_fine:
  "node \<noteq> Special \<Longrightarrow> length bytes \<le> limit \<Longrightarrow>
    write_private_file calls_fine limit bytes node = (True, Regular bytes)"
  by (simp add: write_private_file_def calls_fine_def)

lemma read_private_file_Regular:
  "reads_succeed calls \<Longrightarrow> length bytes \<le> limit \<Longrightarrow>
    read_private_file calls limit (Regular bytes) = Content bytes"
  by (simp add: read_private_file_def)

lemma read_private_file_Absent:
  "rc_stat calls \<Longrightarrow> read_private_file calls limit Absent = NotFound"
  by (simp add: read_private_file_def)

lemma read_private_file_same:
  "reads_succeed a \<Longrightarrow> reads_succeed b \<Longrightarrow>
    read_private_file a limit node = read_private_file b limit node"
  by (simp add: read_private_file_def split: fs_node.split)

lemma reads_fine_succeed [simp]: "reads_succeed reads_fine"
  by (simp add: reads_fine_def)

section \<open>The interface\<close>

text \<open>
  \<open>save\<close> is given what the system answers, the state and the file, \<open>load\<close> reads the file. A save
  that reports success can be loaded again, up to the \<open>view\<close> that the reader takes of the state; a
  save that reports an error has changed nothing.
\<close>

locale persistent_state =
  fixes save :: "'e \<Rightarrow> 's \<Rightarrow> 'f \<Rightarrow> bool \<times> 'f"
    and load :: "'t \<Rightarrow> 'f \<Rightarrow> 's option"
    and view :: "'t \<Rightarrow> 's \<Rightarrow> 's"
    and good :: "'s \<Rightarrow> bool"
  assumes save_True: "save e s f = (True, f') \<Longrightarrow> good s \<Longrightarrow> load t f' = Some (view t s)"
    and save_False: "save e s f = (False, f') \<Longrightarrow> f' = f"
begin

text \<open>A sequence of saves: the list of those that were acknowledged, and the file it leaves.\<close>

fun save_all :: "('e \<times> 's) list \<Rightarrow> 'f \<Rightarrow> 's list \<times> 'f" where
  "save_all [] f = ([], f)"
| "save_all ((e, s) # rest) f =
     (case save e s f of
        (True, f') \<Rightarrow> (case save_all rest f' of (done, f'') \<Rightarrow> (s # done, f''))
      | (False, f') \<Rightarrow> save_all rest f')"

lemma save_all_last:
  assumes "\<forall>(e, s) \<in> set todo. good s"
    and "save_all todo f = (done, f')"
  shows "if done = [] then f' = f else load t f' = Some (view t (last done))"
  using assms
proof (induction todo arbitrary: f "done" f')
  case (Cons p rest)
  obtain e s where p: "p = (e, s)" by (cases p)
  obtain ok f1 where s1: "save e s f = (ok, f1)" by (cases "save e s f")
  obtain done1 f2 where s2: "save_all rest f1 = (done1, f2)" by (cases "save_all rest f1")
  have ih: "if done1 = [] then f2 = f1 else load t f2 = Some (view t (last done1))"
    using Cons.IH [OF _ s2] Cons.prems(1) by simp
  show ?case
  proof (cases ok)
    case True
    then have "load t f1 = Some (view t s)"
      using save_True [of e s f f1 t] s1 Cons.prems(1) by (simp add: p)
    then show ?thesis using True Cons.prems(2) s1 s2 ih by (auto simp: p split: if_splits)
  next
    case False
    then have "f1 = f" using save_False s1 by simp
    then show ?thesis using False Cons.prems(2) s1 s2 ih by (simp add: p)
  qed
qed simp

end

end
