(* ===== verification/Resolver_Settings.thy ===== *)
theory Resolver_Settings
  imports Resolver_Health Private_File
begin

text \<open>
  The catalog of resolver hosts (\<open>resolver_catalog.rs\<close>) and the user's settings on top of it
  (\<open>resolver_settings.rs\<close>): validation, the candidates that result, and the store with its revision
  number and its file. The URL parser, the decoded catalog resource and the JSON encoding of the
  file are arguments; an error is the message of the source.
\<close>

section \<open>The catalog\<close>

datatype region = RegionAll | Cn | Hk | Tw | Th

record resolver_entry =
  re_name :: string
  re_host :: string
  re_regions :: "region list"

definition catalog_host_char_refused :: "char \<Rightarrow> bool" where
  "catalog_host_char_refused c =
     (is_whitespace c \<or> is_control c \<or> c \<in> set '':@/?#[]'' \<or> c = CHR 0x5C)"

definition normalize_host_id :: "url_parser \<Rightarrow> string \<Rightarrow> string + string" where
  "normalize_host_id parse host =
     (if host = [] \<or> host \<noteq> trim host \<or> list_ex catalog_host_char_refused host
      then Inl ''resolver host must be a bare hostname''
      else case parse (''https://'' @ host @ ''/'') of
        None \<Rightarrow> Inl ''invalid resolver host''
      | Some url \<Rightarrow>
          (case pu_host url of
             Some (Domain domain) \<Rightarrow>
               if pu_scheme url \<noteq> ''https'' \<or> pu_username url \<noteq> [] \<or> pu_password url \<noteq> None
                  \<or> pu_path url \<noteq> ''/'' \<or> pu_query url \<noteq> None \<or> pu_fragment url \<noteq> None
               then Inl ''resolver host is not a canonical HTTPS origin host''
               else Inr domain
           | _ \<Rightarrow> Inl ''resolver host is not a canonical HTTPS origin host''))"

text \<open>The loop over the entries with the names and hosts seen so far.\<close>

fun check_catalog ::
  "url_parser \<Rightarrow> string list \<Rightarrow> string list \<Rightarrow> resolver_entry list \<Rightarrow> string + unit" where
  "check_catalog parse names hosts [] = Inr ()"
| "check_catalog parse names hosts (entry # entries) =
     (if trim (re_name entry) = [] then Inl ''resolver name must not be empty''
      else if re_name entry \<in> set names then Inl ''duplicate resolver name''
      else case normalize_host_id parse (re_host entry) of
        Inl message \<Rightarrow> Inl message
      | Inr canonical_host \<Rightarrow>
          if canonical_host \<in> set hosts then Inl ''duplicate resolver host''
          else if re_regions entry = [] then Inl ''resolver has no regions''
          else if \<not> distinct (re_regions entry) then Inl ''duplicate region for resolver''
          else check_catalog parse (re_name entry # names) (canonical_host # hosts) entries)"

definition load_catalog ::
  "url_parser \<Rightarrow> resolver_entry list option \<Rightarrow> string + resolver_entry list" where
  "load_catalog parse decoded =
     (case decoded of
        None \<Rightarrow> Inl ''invalid resolver catalog JSON''
      | Some entries \<Rightarrow>
          (case check_catalog parse [] [] entries of
             Inl message \<Rightarrow> Inl message
           | Inr _ \<Rightarrow> Inr entries))"

section \<open>Settings\<close>

definition MAX_SETTINGS_BYTES :: nat where "MAX_SETTINGS_BYTES = 64 * 1024"

definition MAX_CUSTOM_ENTRIES :: nat where "MAX_CUSTOM_ENTRIES = 32"

definition MAX_NAME_BYTES :: nat where "MAX_NAME_BYTES = 128"

definition MAX_SETTINGS_FILE_BYTES :: nat where "MAX_SETTINGS_FILE_BYTES = MAX_SETTINGS_BYTES"

record custom_resolver =
  cu_name :: string
  cu_origin :: string
  cu_regions :: "region list"
  cu_enabled :: bool

record resolver_settings =
  rs_version :: nat
  rs_disabled :: "string list"
  rs_custom :: "custom_resolver list"

record resolver_candidate =
  rc_host_id :: string
  rc_origin :: string
  rc_name :: string
  rc_regions :: "region list"

definition settings_default :: resolver_settings where
  "settings_default = \<lparr>rs_version = 1, rs_disabled = [], rs_custom = []\<rparr>"

text \<open>A character below 256 takes one byte in UTF-8 when it is below 128, else two.\<close>

definition utf8_length :: "string \<Rightarrow> nat" where
  "utf8_length s = sum_list (map (\<lambda>c. if (of_char c :: nat) < 128 then 1 else 2) s)"

definition validate_name :: "string \<Rightarrow> string + unit" where
  "validate_name name =
     (if trim name = [] \<or> utf8_length name > MAX_NAME_BYTES \<or> list_ex is_control name
      then Inl ''invalid resolver name'' else Inr ())"

definition validate_regions :: "region list \<Rightarrow> string + unit" where
  "validate_regions regions =
     (if regions = [] then Inl ''resolver regions must not be empty''
      else if length (remdups regions) \<noteq> length regions then Inl ''duplicate resolver region''
      else Inr ())"

definition validate_origin :: "url_parser \<Rightarrow> string \<Rightarrow> string + string" where
  "validate_origin parse origin =
     (case parse origin of
        None \<Rightarrow> Inl ''invalid resolver origin''
      | Some url \<Rightarrow>
          if pu_scheme url \<noteq> ''https'' \<or> pu_host url = None \<or> pu_username url \<noteq> []
             \<or> pu_password url \<noteq> None \<or> pu_port url = Some 0 \<or> pu_path url \<noteq> ''/''
             \<or> pu_query url \<noteq> None \<or> pu_fragment url \<noteq> None
          then Inl ''invalid resolver origin''
          else (case pu_host url of
             Some (Domain host) \<Rightarrow> Inr (format_host_id host (pu_port url))
           | _ \<Rightarrow> Inl ''invalid resolver origin''))"

text \<open>\<open>collect::<Result<_, _>>\<close>: the first error, or all the values.\<close>

fun collect_results :: "('a \<Rightarrow> string + 'b) \<Rightarrow> 'a list \<Rightarrow> string + 'b list" where
  "collect_results f [] = Inr []"
| "collect_results f (x # xs) =
     (case f x of
        Inl message \<Rightarrow> Inl message
      | Inr y \<Rightarrow> (case collect_results f xs of Inl message \<Rightarrow> Inl message | Inr ys \<Rightarrow> Inr (y # ys)))"

fun check_disabled :: "url_parser \<Rightarrow> string list \<Rightarrow> string list \<Rightarrow> string + unit" where
  "check_disabled parse seen [] = Inr ()"
| "check_disabled parse seen (host_id # host_ids) =
     (case normalize_host_id parse host_id of
        Inl _ \<Rightarrow> Inl ''invalid disabled builtin host ID''
      | Inr normalized \<Rightarrow>
          if normalized \<in> set seen then Inl ''invalid disabled builtin host ID''
          else check_disabled parse (normalized # seen) host_ids)"

fun check_custom :: "url_parser \<Rightarrow> string list \<Rightarrow> custom_resolver list \<Rightarrow> string + unit" where
  "check_custom parse all_ids [] = Inr ()"
| "check_custom parse all_ids (custom # customs) =
     (case validate_name (cu_name custom) of
        Inl message \<Rightarrow> Inl message
      | Inr _ \<Rightarrow>
          (case validate_regions (cu_regions custom) of
             Inl message \<Rightarrow> Inl message
           | Inr _ \<Rightarrow>
               (case validate_origin parse (cu_origin custom) of
                  Inl message \<Rightarrow> Inl message
                | Inr host_id \<Rightarrow>
                    if host_id \<in> set all_ids then Inl ''duplicate resolver host ID''
                    else check_custom parse (host_id # all_ids) customs)))"

text \<open>\<open>embedded\<close> is the decoded resource \<open>resolver_catalog.json\<close>.\<close>

definition validate_settings ::
  "url_parser \<Rightarrow> resolver_entry list option \<Rightarrow> resolver_settings \<Rightarrow> string + unit" where
  "validate_settings parse embedded settings =
     (if rs_version settings \<noteq> 1 then Inl ''unsupported resolver settings version''
      else if length (rs_custom settings) > MAX_CUSTOM_ENTRIES then Inl ''too many custom resolvers''
      else case load_catalog parse embedded of
        Inl message \<Rightarrow> Inl message
      | Inr catalog \<Rightarrow>
          (case collect_results (\<lambda>entry. normalize_host_id parse (re_host entry)) catalog of
             Inl message \<Rightarrow> Inl message
           | Inr builtin_ids \<Rightarrow>
               (case check_disabled parse [] (rs_disabled settings) of
                  Inl message \<Rightarrow> Inl message
                | Inr _ \<Rightarrow> check_custom parse builtin_ids (rs_custom settings))))"

fun builtin_candidates ::
  "url_parser \<Rightarrow> string list \<Rightarrow> resolver_entry list \<Rightarrow> string + resolver_candidate list" where
  "builtin_candidates parse disabled [] = Inr []"
| "builtin_candidates parse disabled (entry # entries) =
     (case normalize_host_id parse (re_host entry) of
        Inl message \<Rightarrow> Inl message
      | Inr host_id \<Rightarrow>
          (case builtin_candidates parse disabled entries of
             Inl message \<Rightarrow> Inl message
           | Inr candidates \<Rightarrow>
               Inr (if host_id \<in> set disabled then candidates
                 else \<lparr>rc_host_id = host_id, rc_origin = ''https://'' @ re_host entry @ ''/'',
                        rc_name = re_name entry, rc_regions = re_regions entry\<rparr> # candidates)))"

fun custom_candidates ::
  "url_parser \<Rightarrow> custom_resolver list \<Rightarrow> string + resolver_candidate list" where
  "custom_candidates parse [] = Inr []"
| "custom_candidates parse (custom # customs) =
     (if \<not> cu_enabled custom then custom_candidates parse customs
      else case validate_origin parse (cu_origin custom) of
        Inl message \<Rightarrow> Inl message
      | Inr host_id \<Rightarrow>
          (case custom_candidates parse customs of
             Inl message \<Rightarrow> Inl message
           | Inr candidates \<Rightarrow>
               Inr (\<lparr>rc_host_id = host_id, rc_origin = cu_origin custom, rc_name = cu_name custom,
                     rc_regions = cu_regions custom\<rparr> # candidates)))"

definition effective_candidates ::
  "url_parser \<Rightarrow> resolver_entry list option \<Rightarrow> resolver_settings \<Rightarrow> string + resolver_candidate list"
  where
  "effective_candidates parse embedded settings =
     (case validate_settings parse embedded settings of
        Inl message \<Rightarrow> Inl message
      | Inr _ \<Rightarrow>
          (case collect_results (normalize_host_id parse) (rs_disabled settings) of
             Inl message \<Rightarrow> Inl message
           | Inr disabled \<Rightarrow>
               (case load_catalog parse embedded of
                  Inl message \<Rightarrow> Inl message
                | Inr catalog \<Rightarrow>
                    (case builtin_candidates parse disabled catalog of
                       Inl message \<Rightarrow> Inl message
                     | Inr builtin \<Rightarrow>
                         (case custom_candidates parse (rs_custom settings) of
                            Inl message \<Rightarrow> Inl message
                          | Inr custom \<Rightarrow> Inr (builtin @ custom))))))"

section \<open>The store\<close>

record settings_snapshot =
  ss_settings :: resolver_settings
  ss_revision :: nat

datatype update_error = StaleRevision | Invalid string | Persistence

text \<open>
  \<open>PersistedResolverSettings\<close> has the fields of the snapshot; \<open>encode\<close> and \<open>decode\<close> are
  \<open>serde_json\<close> on it.
\<close>

definition read_persisted_settings ::
  "url_parser \<Rightarrow> resolver_entry list option \<Rightarrow> ('b list \<Rightarrow> settings_snapshot option) \<Rightarrow> read_calls \<Rightarrow>
    'b fs_node \<Rightarrow> settings_snapshot option option" where
  "read_persisted_settings parse embedded decode calls node =
     (case read_private_file calls MAX_SETTINGS_FILE_BYTES node of
        NotFound \<Rightarrow> Some None
      | Refused \<Rightarrow> None
      | Content bytes \<Rightarrow>
          (case decode bytes of
             None \<Rightarrow> None
           | Some snapshot \<Rightarrow>
               (case validate_settings parse embedded (ss_settings snapshot) of
                  Inl _ \<Rightarrow> None
                | Inr _ \<Rightarrow> Some (Some snapshot))))"

definition settings_load ::
  "url_parser \<Rightarrow> resolver_entry list option \<Rightarrow> ('b list \<Rightarrow> settings_snapshot option) \<Rightarrow> read_calls \<Rightarrow>
    'b fs_node \<Rightarrow> settings_snapshot option" where
  "settings_load parse embedded decode calls node =
     (case read_persisted_settings parse embedded decode calls node of
        None \<Rightarrow> None
      | Some (Some snapshot) \<Rightarrow> Some snapshot
      | Some None \<Rightarrow> Some \<lparr>ss_settings = settings_default, ss_revision = 0\<rparr>)"

definition persist_settings ::
  "(settings_snapshot \<Rightarrow> 'b list) \<Rightarrow> write_calls \<Rightarrow> settings_snapshot \<Rightarrow> 'b fs_node \<Rightarrow>
    bool \<times> 'b fs_node" where
  "persist_settings encode calls snapshot node =
     write_private_file calls MAX_SETTINGS_FILE_BYTES (encode snapshot) node"

record 'b settings_store =
  st_state :: settings_snapshot
  st_file :: "'b fs_node"

definition settings_update ::
  "url_parser \<Rightarrow> resolver_entry list option \<Rightarrow> (settings_snapshot \<Rightarrow> 'b list) \<Rightarrow> write_calls \<Rightarrow>
    resolver_settings \<Rightarrow> nat \<Rightarrow> 'b settings_store \<Rightarrow>
    (update_error + settings_snapshot) \<times> 'b settings_store" where
  "settings_update parse embedded encode calls settings expected_revision store =
     (case validate_settings parse embedded settings of
        Inl message \<Rightarrow> (Inl (Invalid message), store)
      | Inr _ \<Rightarrow>
          if ss_revision (st_state store) \<noteq> expected_revision then (Inl StaleRevision, store)
          else case checked_add (ss_revision (st_state store)) 1 of
            None \<Rightarrow> (Inl Persistence, store)
          | Some revision \<Rightarrow>
              let snapshot = \<lparr>ss_settings = settings, ss_revision = revision\<rparr> in
              (case persist_settings encode calls snapshot (st_file store) of
                 (False, node) \<Rightarrow> (Inl Persistence, store\<lparr>st_file := node\<rparr>)
               | (True, node) \<Rightarrow> (Inr snapshot, \<lparr>st_state = snapshot, st_file = node\<rparr>)))"

section \<open>What the checks mean\<close>

text \<open>
  \<open>all_results f xs ys\<close>: \<open>f\<close> succeeds on every element and yields \<open>ys\<close>; \<open>fresh_results f xs A\<close>: what
  it yields is new, no two alike and none in \<open>A\<close>. The three loops that fill a hash set decide it.
\<close>

abbreviation all_results :: "('a \<Rightarrow> string + 'b) \<Rightarrow> 'a list \<Rightarrow> 'b list \<Rightarrow> bool" where
  "all_results f \<equiv> list_all2 (\<lambda>x y. f x = Inr y)"

definition fresh_results :: "('a \<Rightarrow> string + 'b) \<Rightarrow> 'a list \<Rightarrow> 'b set \<Rightarrow> bool" where
  "fresh_results f xs A \<longleftrightarrow> (\<exists>ys. all_results f xs ys \<and> distinct ys \<and> set ys \<inter> A = {})"

lemma all_results_det: "all_results f xs ys \<Longrightarrow> all_results f xs zs \<Longrightarrow> ys = zs"
  by (induction xs arbitrary: ys zs) (auto simp: list_all2_Cons1)

lemma collect_results_Inr: "collect_results f xs = Inr ys \<longleftrightarrow> all_results f xs ys"
proof (induction xs arbitrary: ys)
  case (Cons x xs)
  show ?case
    by (cases "collect_results f xs"; cases "f x"; cases ys) (auto simp: Cons.IH [symmetric])
qed auto

lemma fresh_results_Nil [simp]: "fresh_results f [] A"
  by (simp add: fresh_results_def)

lemma fresh_results_Cons [simp]:
  "fresh_results f (x # xs) A \<longleftrightarrow> (\<exists>y. f x = Inr y \<and> y \<notin> A \<and> fresh_results f xs (insert y A))"
proof -
  have "fresh_results f (x # xs) A \<longleftrightarrow>
      (\<exists>y ys. f x = Inr y \<and> all_results f xs ys \<and> y \<notin> A \<and> distinct ys \<and> set ys \<inter> insert y A = {})"
  proof -
    have "(\<exists>ys. all_results f (x # xs) ys \<and> R ys) \<longleftrightarrow>
        (\<exists>y ys. f x = Inr y \<and> all_results f xs ys \<and> R (y # ys))" for R
      unfolding list_all2_Cons1 by blast
    then show ?thesis unfolding fresh_results_def by auto
  qed
  then show ?thesis unfolding fresh_results_def by blast
qed

definition entry_ok :: "resolver_entry \<Rightarrow> bool" where
  "entry_ok entry \<longleftrightarrow> trim (re_name entry) \<noteq> [] \<and> re_regions entry \<noteq> [] \<and> distinct (re_regions entry)"

definition custom_ok :: "custom_resolver \<Rightarrow> bool" where
  "custom_ok custom \<longleftrightarrow> validate_name (cu_name custom) = Inr ()
     \<and> cu_regions custom \<noteq> [] \<and> distinct (cu_regions custom)"

lemma unit_result: "(r :: string + unit) = Inr u \<longleftrightarrow> (\<forall>m. r \<noteq> Inl m)"
  by (cases r) auto

lemma check_catalog_Inr:
  "check_catalog parse names hosts entries = Inr () \<longleftrightarrow>
    (\<forall>entry \<in> set entries. entry_ok entry)
    \<and> distinct (map re_name entries) \<and> set (map re_name entries) \<inter> set names = {}
    \<and> fresh_results (\<lambda>entry. normalize_host_id parse (re_host entry)) entries (set hosts)"
proof (induction parse names hosts entries rule: check_catalog.induct)
  case (2 parse names hosts entry entries)
  then show ?case
    by (cases "normalize_host_id parse (re_host entry)") (auto simp: entry_ok_def)
qed simp

lemma check_disabled_Inr:
  "check_disabled parse seen host_ids = Inr () \<longleftrightarrow>
    fresh_results (normalize_host_id parse) host_ids (set seen)"
  by (induction parse seen host_ids rule: check_disabled.induct) (auto split: sum.split)

lemma validate_regions_Inr: "validate_regions regions = Inr () \<longleftrightarrow> regions \<noteq> [] \<and> distinct regions"
  using length_remdups_eq [of regions] by (auto simp: validate_regions_def)

lemma custom_ok_iff:
  "custom_ok custom \<longleftrightarrow>
    validate_name (cu_name custom) = Inr () \<and> validate_regions (cu_regions custom) = Inr ()"
  by (simp add: custom_ok_def validate_regions_Inr)

lemma check_custom_Inr:
  "check_custom parse all_ids customs = Inr () \<longleftrightarrow>
    (\<forall>custom \<in> set customs. custom_ok custom)
    \<and> fresh_results (\<lambda>custom. validate_origin parse (cu_origin custom)) customs (set all_ids)"
proof (induction parse all_ids customs rule: check_custom.induct)
  case (2 parse all_ids custom customs)
  show ?case
  proof (cases "validate_name (cu_name custom) = Inr () \<and> validate_regions (cu_regions custom) = Inr ()")
    case True
    then show ?thesis
      using 2 by (cases "validate_origin parse (cu_origin custom)") (auto simp: custom_ok_iff)
  next
    case False
    then show ?thesis by (auto simp: custom_ok_iff split: sum.splits)
  qed
qed simp

lemma load_catalog_Inr:
  "load_catalog parse embedded = Inr catalog \<longleftrightarrow>
    embedded = Some catalog \<and> (\<forall>entry \<in> set catalog. entry_ok entry)
    \<and> distinct (map re_name catalog)
    \<and> (\<exists>ids. all_results (\<lambda>entry. normalize_host_id parse (re_host entry)) catalog ids
        \<and> distinct ids)"
proof -
  have "load_catalog parse embedded = Inr catalog \<longleftrightarrow>
      embedded = Some catalog \<and> check_catalog parse [] [] catalog = Inr ()"
    by (auto simp: load_catalog_def split: option.splits sum.splits)
  then show ?thesis by (simp add: check_catalog_Inr fresh_results_def)
qed

text \<open>The declarative form of the validation.\<close>

definition settings_valid ::
  "url_parser \<Rightarrow> resolver_entry list \<Rightarrow> resolver_settings \<Rightarrow> bool" where
  "settings_valid parse catalog settings \<longleftrightarrow>
     rs_version settings = 1 \<and> length (rs_custom settings) \<le> 32
     \<and> (\<forall>custom \<in> set (rs_custom settings). custom_ok custom)
     \<and> (\<exists>disabled. all_results (normalize_host_id parse) (rs_disabled settings) disabled
          \<and> distinct disabled)
     \<and> (\<exists>builtin custom.
          all_results (\<lambda>entry. normalize_host_id parse (re_host entry)) catalog builtin
          \<and> all_results (\<lambda>custom. validate_origin parse (cu_origin custom)) (rs_custom settings) custom
          \<and> distinct (builtin @ custom))"

lemma validate_settings_Inr:
  assumes "load_catalog parse embedded = Inr catalog"
  shows "validate_settings parse embedded settings = Inr () \<longleftrightarrow> settings_valid parse catalog settings"
proof -
  obtain builtin where b:
    "all_results (\<lambda>entry. normalize_host_id parse (re_host entry)) catalog builtin" "distinct builtin"
    using assms by (auto simp: load_catalog_Inr)
  have c: "collect_results (\<lambda>entry. normalize_host_id parse (re_host entry)) catalog = Inr builtin"
    using b by (simp add: collect_results_Inr)
  have "validate_settings parse embedded settings = Inr () \<longleftrightarrow>
      rs_version settings = 1 \<and> length (rs_custom settings) \<le> 32
      \<and> check_disabled parse [] (rs_disabled settings) = Inr ()
      \<and> check_custom parse builtin (rs_custom settings) = Inr ()"
    by (auto simp: validate_settings_def assms c MAX_CUSTOM_ENTRIES_def split: sum.split)
  moreover have "fresh_results (\<lambda>custom. validate_origin parse (cu_origin custom)) (rs_custom settings) (set builtin)
      \<longleftrightarrow> (\<exists>bs cs. all_results (\<lambda>entry. normalize_host_id parse (re_host entry)) catalog bs
          \<and> all_results (\<lambda>custom. validate_origin parse (cu_origin custom)) (rs_custom settings) cs
          \<and> distinct (bs @ cs))"
  proof -
    have "distinct (builtin @ cs) \<longleftrightarrow> distinct cs \<and> set cs \<inter> set builtin = {}" for cs
      using b(2) by auto
    then show ?thesis using b(1) all_results_det [OF _ b(1)] unfolding fresh_results_def by blast
  qed
  ultimately show ?thesis
    by (simp add: settings_valid_def check_disabled_Inr check_custom_Inr fresh_results_def [of "normalize_host_id parse"])
      blast
qed

lemma load_catalog_if_valid:
  "validate_settings parse embedded settings = Inr () \<Longrightarrow> \<exists>catalog. load_catalog parse embedded = Inr catalog"
  by (auto simp: validate_settings_def split: if_splits sum.splits)

section \<open>Candidates\<close>

lemma builtin_candidates_ids:
  "all_results (\<lambda>entry. normalize_host_id parse (re_host entry)) entries ids \<Longrightarrow>
    \<exists>cs. builtin_candidates parse disabled entries = Inr cs
      \<and> map rc_host_id cs = filter (\<lambda>id. id \<notin> set disabled) ids
      \<and> (\<forall>c \<in> set cs. \<exists>entry \<in> set entries. rc_regions c = re_regions entry \<and> rc_name c = re_name entry
          \<and> rc_origin c = ''https://'' @ re_host entry @ ''/''
          \<and> normalize_host_id parse (re_host entry) = Inr (rc_host_id c))"
  by (induction entries arbitrary: ids) (fastforce simp: list_all2_Cons1)+

lemma custom_candidates_ids:
  "all_results (\<lambda>custom. validate_origin parse (cu_origin custom)) customs ids \<Longrightarrow>
    \<exists>cs. custom_candidates parse customs = Inr cs
      \<and> map rc_host_id cs = map snd (filter (\<lambda>(custom, _). cu_enabled custom) (zip customs ids))
      \<and> (\<forall>c \<in> set cs. \<exists>custom \<in> set customs. cu_enabled custom \<and> rc_regions c = cu_regions custom
          \<and> rc_name c = cu_name custom \<and> rc_origin c = cu_origin custom
          \<and> validate_origin parse (cu_origin custom) = Inr (rc_host_id c))"
  by (induction customs arbitrary: ids) (fastforce simp: list_all2_Cons1)+

lemma effective_candidates_eq:
  assumes "load_catalog parse embedded = Inr catalog" "settings_valid parse catalog settings"
    and "all_results (normalize_host_id parse) (rs_disabled settings) disabled"
    and "builtin_candidates parse disabled catalog = Inr cs"
    and "custom_candidates parse (rs_custom settings) = Inr ds"
  shows "effective_candidates parse embedded settings = Inr (cs @ ds)"
proof -
  have "validate_settings parse embedded settings = Inr ()"
    using validate_settings_Inr [OF assms(1)] assms(2) by simp
  moreover have "collect_results (normalize_host_id parse) (rs_disabled settings) = Inr disabled"
    using assms(3) by (simp add: collect_results_Inr)
  ultimately show ?thesis using assms(1,4,5) by (simp add: effective_candidates_def)
qed

lemma filter_zip_snd_sub: "set (map snd (filter P (zip xs ys))) \<subseteq> set ys"
  by (auto dest: set_zip_rightD)

lemma filter_zip_snd_distinct: "distinct ys \<Longrightarrow> distinct (map snd (filter P (zip xs ys)))"
proof (induction xs arbitrary: ys)
  case (Cons x xs)
  then show ?case
    using filter_zip_snd_sub [of P xs] by (cases ys) (auto dest: set_zip_rightD)
qed simp

section \<open>Runs of the store\<close>

text \<open>One label per update: what the system answers to its calls, the settings and the revision that
  the client expects. The result of the update is part of the state of the run.\<close>

type_synonym update_label = "write_calls \<times> resolver_settings \<times> nat"

fun settings_run ::
  "url_parser \<Rightarrow> resolver_entry list option \<Rightarrow> (settings_snapshot \<Rightarrow> 'b list) \<Rightarrow>
    update_label list \<Rightarrow> 'b settings_store \<Rightarrow>
    (update_error + settings_snapshot) list \<times> 'b settings_store" where
  "settings_run parse embedded encode [] store = ([], store)"
| "settings_run parse embedded encode ((calls, settings, expected) # labels) store =
     (let (result, store') = settings_update parse embedded encode calls settings expected store;
          (results, store'') = settings_run parse embedded encode labels store'
      in (result # results, store''))"

text \<open>The snapshots that were acknowledged, in order.\<close>

definition acknowledged :: "('e + 'a) list \<Rightarrow> 'a list" where
  "acknowledged results = List.map_filter (\<lambda>r. case r of Inl _ \<Rightarrow> None | Inr s \<Rightarrow> Some s) results"

lemma acknowledged_simps [simp]:
  "acknowledged [] = []"
  "acknowledged (Inl e # rs) = acknowledged rs"
  "acknowledged (Inr s # rs) = s # acknowledged rs"
  by (simp_all add: acknowledged_def List.map_filter_simps)

lemma settings_update_Inl:
  "settings_update parse embedded encode calls settings expected store = (Inl e, store') \<Longrightarrow>
    store' = store"
  by (auto simp: settings_update_def Let_def persist_settings_def dest: write_private_file_False
      split: sum.splits if_splits option.splits prod.splits bool.splits)

lemma settings_update_Inr:
  "settings_update parse embedded encode calls settings expected store = (Inr s, store') \<Longrightarrow>
    validate_settings parse embedded settings = Inr () \<and> expected = ss_revision (st_state store)
    \<and> s = \<lparr>ss_settings = settings, ss_revision = Suc expected\<rparr> \<and> Suc expected \<le> u64_max
    \<and> store' = \<lparr>st_state = s, st_file = Regular (encode s)\<rparr>
    \<and> length (encode s) \<le> MAX_SETTINGS_FILE_BYTES"
  by (auto simp: settings_update_def Let_def persist_settings_def unit_result
      dest!: write_private_file_True
      split: sum.splits if_splits option.splits prod.splits bool.splits)

definition store_inv ::
  "url_parser \<Rightarrow> resolver_entry list option \<Rightarrow> (settings_snapshot \<Rightarrow> 'b list) \<Rightarrow>
    ('b list \<Rightarrow> settings_snapshot option) \<Rightarrow> 'b settings_store \<Rightarrow> bool" where
  "store_inv parse embedded encode decode store \<longleftrightarrow>
     (\<forall>calls. reads_succeed calls \<longrightarrow>
        settings_load parse embedded decode calls (st_file store) = Some (st_state store))"

lemma settings_load_saved:
  assumes "decode (encode s) = Some s" "validate_settings parse embedded (ss_settings s) = Inr ()"
    and "length (encode s) \<le> MAX_SETTINGS_FILE_BYTES" "reads_succeed calls"
  shows "settings_load parse embedded decode calls (Regular (encode s)) = Some s"
  using assms
  by (simp add: settings_load_def read_persisted_settings_def read_private_file_Regular)

lemma settings_load_Absent:
  "reads_succeed calls \<Longrightarrow> settings_load parse embedded decode calls Absent =
    Some \<lparr>ss_settings = settings_default, ss_revision = 0\<rparr>"
  by (simp add: settings_load_def read_persisted_settings_def read_private_file_Absent)

interpretation settings_file: persistent_state "persist_settings encode"
    "\<lambda>(_::unit). settings_load parse embedded decode reads_fine" "\<lambda>_ s. s"
    "\<lambda>s. decode (encode s) = Some s \<and> validate_settings parse embedded (ss_settings s) = Inr ()"
  for encode :: "settings_snapshot \<Rightarrow> 'b list" and parse embedded decode
proof unfold_locales
  fix e s f f'
  assume "persist_settings encode e s f = (True, f')"
    and good: "decode (encode s) = Some s \<and> validate_settings parse embedded (ss_settings s) = Inr ()"
  then have "f' = Regular (encode s)" "length (encode s) \<le> MAX_SETTINGS_FILE_BYTES"
    by (auto simp: persist_settings_def dest: write_private_file_True)
  then show "settings_load parse embedded decode reads_fine f' = Some s"
    using good by (auto intro!: settings_load_saved)
qed (auto simp: persist_settings_def dest: write_private_file_False)

lemma settings_run_inv:
  assumes codec: "\<And>s. decode (encode s) = Some s"
    and "store_inv parse embedded encode decode store"
    and "settings_run parse embedded encode labels store = (results, store')"
  shows "store_inv parse embedded encode decode store'
    \<and> st_state store' = last (st_state store # acknowledged results)
    \<and> map ss_revision (acknowledged results) =
        [Suc (ss_revision (st_state store)) ..< Suc (ss_revision (st_state store) + length (acknowledged results))]"
  using assms(2,3)
proof (induction labels arbitrary: store results)
  case (Cons label labels)
  obtain calls settings expected where l: "label = (calls, settings, expected)" by (cases label)
  obtain r store1 where u: "settings_update parse embedded encode calls settings expected store = (r, store1)"
    by (cases "settings_update parse embedded encode calls settings expected store")
  obtain rs where run: "settings_run parse embedded encode labels store1 = (rs, store')" "results = r # rs"
    using Cons.prems(2) by (auto simp: l u split: prod.splits)
  show ?case
  proof (cases r)
    case (Inl e)
    then have "store1 = store" using settings_update_Inl u by blast
    then show ?thesis using Cons.IH Cons.prems(1) run Inl by simp
  next
    case (Inr s)
    note upd = settings_update_Inr [OF u [unfolded Inr]]
    have "store_inv parse embedded encode decode store1"
      unfolding store_inv_def
    proof (intro allI impI)
      fix calls assume "reads_succeed calls"
      with upd show "settings_load parse embedded decode calls (st_file store1) = Some (st_state store1)"
        by (auto intro!: settings_load_saved codec)
    qed
    then have ih: "store_inv parse embedded encode decode store'
        \<and> st_state store' = last (s # acknowledged rs)
        \<and> map ss_revision (acknowledged rs) =
            [Suc (Suc expected) ..< Suc (Suc expected + length (acknowledged rs))]"
      using Cons.IH [OF _ run(1)] upd by simp
    have "[Suc expected ..< Suc (Suc expected + n)] = Suc expected # [Suc (Suc expected) ..< Suc (Suc expected + n)]" for n
      by (simp add: upt_rec)
    then show ?thesis using ih Inr run(2) upd by (simp del: upt_Suc)
  qed
qed simp

lemma settings_run_silent:
  "settings_run parse embedded encode labels store = (results, store') \<Longrightarrow> acknowledged results = [] \<Longrightarrow>
    store' = store"
proof (induction labels arbitrary: store results)
  case (Cons label labels)
  obtain calls settings expected where l: "label = (calls, settings, expected)" by (cases label)
  obtain r store1 where u: "settings_update parse embedded encode calls settings expected store = (r, store1)"
    by (cases "settings_update parse embedded encode calls settings expected store")
  obtain rs where run: "settings_run parse embedded encode labels store1 = (rs, store')" "results = r # rs"
    using Cons.prems(1) by (auto simp: l u split: prod.splits)
  show ?case
    using Cons run u settings_update_Inl [of parse embedded encode calls settings expected store]
    by (cases r) auto
qed simp

section \<open>Properties\<close>

text \<open>
  With a catalog that loads, the candidates exist exactly for valid settings: version 1, at most 32
  custom resolvers with a name of at most 128 bytes and distinct regions, disabled hosts that
  normalise and differ, and custom origins whose hosts differ from each other and from every host
  of the catalog. The candidates are then the catalog's hosts that are not disabled, in the order of
  the catalog, followed by the enabled custom ones in their order; no host occurs twice, and each
  candidate has a region and carries the origin it was declared with.
\<close>

theorem effective_candidates_correct:
  assumes "load_catalog parse embedded = Inr catalog"
  shows "case effective_candidates parse embedded settings of
      Inl _ \<Rightarrow> \<not> settings_valid parse catalog settings
    | Inr cs \<Rightarrow> settings_valid parse catalog settings \<and> distinct (map rc_host_id cs)
        \<and> (\<exists>builtin disabled custom.
             all_results (\<lambda>entry. normalize_host_id parse (re_host entry)) catalog builtin
             \<and> all_results (normalize_host_id parse) (rs_disabled settings) disabled
             \<and> all_results (\<lambda>c. validate_origin parse (cu_origin c)) (rs_custom settings) custom
             \<and> map rc_host_id cs = filter (\<lambda>id. id \<notin> set disabled) builtin
                  @ map snd (filter (\<lambda>(c, _). cu_enabled c) (zip (rs_custom settings) custom)))
        \<and> (\<forall>c \<in> set cs. rc_regions c \<noteq> [] \<and> distinct (rc_regions c)
             \<and> (rc_origin c \<in> set (map cu_origin (filter cu_enabled (rs_custom settings)))
                \<or> rc_origin c \<in> set (map (\<lambda>entry. ''https://'' @ re_host entry @ ''/'') catalog)))"
proof (cases "settings_valid parse catalog settings")
  case False
  then have "validate_settings parse embedded settings \<noteq> Inr ()"
    using validate_settings_Inr [OF assms] by simp
  then show ?thesis using False
    by (auto simp: effective_candidates_def unit_result split: sum.splits)
next
  case True
  then obtain builtin disabled custom where
    ids: "all_results (\<lambda>entry. normalize_host_id parse (re_host entry)) catalog builtin"
      "all_results (normalize_host_id parse) (rs_disabled settings) disabled"
      "all_results (\<lambda>c. validate_origin parse (cu_origin c)) (rs_custom settings) custom"
    and d: "distinct (builtin @ custom)"
    by (auto simp: settings_valid_def)
  obtain cs where cs: "builtin_candidates parse disabled catalog = Inr cs"
      "map rc_host_id cs = filter (\<lambda>id. id \<notin> set disabled) builtin"
      "\<forall>c \<in> set cs. \<exists>entry \<in> set catalog. rc_regions c = re_regions entry
        \<and> rc_origin c = ''https://'' @ re_host entry @ ''/''"
    using builtin_candidates_ids [OF ids(1), of disabled] by fast
  obtain ds where ds: "custom_candidates parse (rs_custom settings) = Inr ds"
      "map rc_host_id ds = map snd (filter (\<lambda>(c, _). cu_enabled c) (zip (rs_custom settings) custom))"
      "\<forall>c \<in> set ds. \<exists>custom \<in> set (rs_custom settings). cu_enabled custom
        \<and> rc_regions c = cu_regions custom \<and> rc_origin c = cu_origin custom"
    using custom_candidates_ids [OF ids(3)] by fast
  have e: "effective_candidates parse embedded settings = Inr (cs @ ds)"
    by (rule effective_candidates_eq [OF assms True ids(2) cs(1) ds(1)])
  have "distinct (map rc_host_id (cs @ ds))"
    using d filter_zip_snd_distinct [of custom "\<lambda>(c, _). cu_enabled c" "rs_custom settings"]
      filter_zip_snd_sub [of "\<lambda>(c, _). cu_enabled c" "rs_custom settings" custom]
    unfolding map_append cs(2) ds(2) distinct_append by auto
  moreover have "\<forall>entry \<in> set catalog. entry_ok entry" "\<forall>custom \<in> set (rs_custom settings). custom_ok custom"
    using assms True by (auto simp: load_catalog_Inr settings_valid_def)
  then have "\<forall>c \<in> set (cs @ ds). rc_regions c \<noteq> [] \<and> distinct (rc_regions c)
      \<and> (rc_origin c \<in> set (map cu_origin (filter cu_enabled (rs_custom settings)))
        \<or> rc_origin c \<in> set (map (\<lambda>entry. ''https://'' @ re_host entry @ ''/'') catalog))"
    using cs(3) ds(3) by (fastforce simp: entry_ok_def custom_ok_def)
  moreover have "map rc_host_id (cs @ ds) = filter (\<lambda>id. id \<notin> set disabled) builtin
      @ map snd (filter (\<lambda>(c, _). cu_enabled c) (zip (rs_custom settings) custom))"
    by (simp add: cs(2) ds(2))
  ultimately show ?thesis using True ids unfolding e sum.case by blast
qed

text \<open>
  C19. Whatever updates clients send and whatever the file system answers, the store counts every
  acknowledged update with the next revision, so no two updates with the same expected revision are
  both accepted; its state is the last acknowledged one, and reading its file again yields exactly
  that state. A refused update changes neither the state nor the file.
\<close>

theorem settings_store_durable:
  assumes "\<And>s. decode (encode s) = Some s"
    and "settings_load parse embedded decode calls0 node = Some loaded" "reads_succeed calls0"
    and "settings_run parse embedded encode labels \<lparr>st_state = loaded, st_file = node\<rparr> = (results, store)"
    and "reads_succeed calls"
  shows "settings_load parse embedded decode calls (st_file store) = Some (st_state store)
    \<and> st_state store = last (loaded # acknowledged results)
    \<and> map ss_revision (acknowledged results) =
        [ss_revision loaded + 1 ..< ss_revision loaded + 1 + length (acknowledged results)]
    \<and> (acknowledged results = [] \<longrightarrow> st_file store = node)"
proof -
  have "settings_load parse embedded decode calls1 node = Some loaded" if "reads_succeed calls1" for calls1
    using assms(2) read_private_file_same [OF that assms(3), of MAX_SETTINGS_FILE_BYTES node]
    by (simp add: settings_load_def read_persisted_settings_def)
  then have "store_inv parse embedded encode decode \<lparr>st_state = loaded, st_file = node\<rparr>"
    by (simp add: store_inv_def)
  note inv = settings_run_inv [of decode encode, OF assms(1) this assms(4)]
  have "acknowledged results = [] \<longrightarrow> st_file store = node"
    using settings_run_silent [OF assms(4)] by simp
  then show ?thesis using inv assms(5) by (simp add: store_inv_def)
qed

section \<open>Witnesses\<close>

definition demo_catalog :: "resolver_entry list" where
  "demo_catalog = [\<lparr>re_name = ''one'', re_host = ''a.b'', re_regions = [Hk]\<rparr>,
     \<lparr>re_name = ''two'', re_host = ''c.d'', re_regions = [RegionAll]\<rparr>]"

definition demo_settings :: resolver_settings where
  "demo_settings = \<lparr>rs_version = 1, rs_disabled = [''a.b''],
     rs_custom = [\<lparr>cu_name = ''mine'', cu_origin = ''https://e.f/'', cu_regions = [Tw], cu_enabled = True\<rparr>]\<rparr>"

lemma demo_catalog_loads: "load_catalog demo_parse (Some demo_catalog) = Inr demo_catalog"
  by code_simp

lemma demo_effective:
  "map rc_host_id (case effective_candidates demo_parse (Some demo_catalog) demo_settings of
     Inr cs \<Rightarrow> cs | Inl _ \<Rightarrow> []) = [''c.d'', ''e.f'']"
  by code_simp

theorem effective_candidates_correct_witness:
  "settings_valid demo_parse demo_catalog demo_settings
    \<and> (\<exists>cs. effective_candidates demo_parse (Some demo_catalog) demo_settings = Inr cs
        \<and> map rc_host_id cs = [''c.d'', ''e.f''])"
  using effective_candidates_correct [OF demo_catalog_loads, of demo_settings] demo_effective
  by (auto split: sum.splits)

definition demo_encode :: "settings_snapshot \<Rightarrow> settings_snapshot list" where
  "demo_encode s = [s]"

definition demo_decode :: "settings_snapshot list \<Rightarrow> settings_snapshot option" where
  "demo_decode bytes = (case bytes of [s] \<Rightarrow> Some s | _ \<Rightarrow> None)"

definition demo_initial :: settings_snapshot where
  "demo_initial = \<lparr>ss_settings = settings_default, ss_revision = 0\<rparr>"

text \<open>Two clients that have both seen revision 0: the first wins, the second is told.\<close>

definition demo_updates :: "update_label list" where
  "demo_updates = [(calls_fine, demo_settings, 0), (calls_fine, settings_default, 0)]"

lemma demo_run:
  "settings_run demo_parse (Some demo_catalog) demo_encode demo_updates
      \<lparr>st_state = demo_initial, st_file = Absent\<rparr> =
    ([Inr \<lparr>ss_settings = demo_settings, ss_revision = 1\<rparr>, Inl StaleRevision],
     \<lparr>st_state = \<lparr>ss_settings = demo_settings, ss_revision = 1\<rparr>,
      st_file = Regular [\<lparr>ss_settings = demo_settings, ss_revision = 1\<rparr>]\<rparr>)"
proof -
  have "validate_settings demo_parse (Some demo_catalog) demo_settings = Inr ()"
    "validate_settings demo_parse (Some demo_catalog) settings_default = Inr ()"
    by code_simp+
  then show ?thesis
    by (simp add: Let_def demo_updates_def settings_update_def demo_initial_def checked_add_def
        persist_settings_def write_private_file_fine demo_encode_def MAX_SETTINGS_FILE_BYTES_def
        MAX_SETTINGS_BYTES_def)
qed

theorem settings_store_durable_witness:
  "settings_load demo_parse (Some demo_catalog) demo_decode reads_fine
      (Regular [\<lparr>ss_settings = demo_settings, ss_revision = 1\<rparr>]) =
    Some \<lparr>ss_settings = demo_settings, ss_revision = 1\<rparr>"
proof -
  have codec: "demo_decode (demo_encode s) = Some s" for s
    by (simp add: demo_decode_def demo_encode_def)
  have "settings_load demo_parse (Some demo_catalog) demo_decode reads_fine Absent = Some demo_initial"
    by (simp add: settings_load_Absent demo_initial_def)
  from settings_store_durable [of demo_decode demo_encode, OF codec this reads_fine_succeed demo_run
      reads_fine_succeed]
  show ?thesis by simp
qed

end
