(* ===== verification/Route_Memory.thy ===== *)
theory Route_Memory
  imports Resolver_Settings
begin

text \<open>
  What the resolver routing remembers (\<open>resolver_routing.rs\<close>): for a piece of content or a series,
  the host and the region that answered last, for seven days, at most 512 of them, kept in a file.
  The clock is an argument in seconds, \<open>encode\<close> and \<open>decode\<close> are the JSON encoding.
\<close>

section \<open>State\<close>

definition MAX_MEMORY_RECORDS :: nat where "MAX_MEMORY_RECORDS = 512"

definition MAX_MEMORY_FILE_BYTES :: nat where "MAX_MEMORY_FILE_BYTES = 96 * 1024"

definition ROUTE_MEMORY_TTL_SECS :: nat where "ROUTE_MEMORY_TTL_SECS = 7 * 24 * 60 * 60"

lemmas route_consts = MAX_MEMORY_RECORDS_def MAX_MEMORY_FILE_BYTES_def ROUTE_MEMORY_TTL_SECS_def

datatype memory_scope = ScopeContent | ScopeSeries

record route_entry =
  rm_scope :: memory_scope
  rm_key :: string
  rm_host_id :: string
  rm_area :: region
  rm_updated_at :: nat
  rm_expires_at :: nat

text \<open>\<open>rt_persist\<close>: whether the path of the file is kept (\<open>memory_path\<close>).\<close>

record 'b route_state =
  rt_records :: "route_entry list"
  rt_persist :: bool
  rt_file :: "'b fs_node"

text \<open>\<open>PersistedRouteMemory\<close>: the version and the records.\<close>

type_synonym persisted_memory = "nat \<times> route_entry list"

section \<open>Operations\<close>

definition valid_memory_key :: "memory_scope \<Rightarrow> string \<Rightarrow> bool" where
  "valid_memory_key scope key =
     (if utf8_length key > 64 then False
      else case (case scope of
          ScopeContent \<Rightarrow> strip_prefix ''epid:'' key
        | ScopeSeries \<Rightarrow>
            (case strip_prefix ''season:'' key of
               Some number \<Rightarrow> Some number
             | None \<Rightarrow> strip_prefix ''media:'' key)) of
        None \<Rightarrow> False
      | Some number \<Rightarrow> number \<noteq> [] \<and> list_all is_digit number)"

definition lookup_key :: "memory_scope \<Rightarrow> string \<Rightarrow> route_entry list \<Rightarrow> route_entry option" where
  "lookup_key scope key records = find (\<lambda>e. rm_scope e = scope \<and> rm_key e = key) records"

fun find_series :: "string list \<Rightarrow> route_entry list \<Rightarrow> route_entry option" where
  "find_series [] records = None"
| "find_series (key # keys) records =
     (case lookup_key ScopeSeries key records of
        Some e \<Rightarrow> Some e
      | None \<Rightarrow> find_series keys records)"

definition lookup_route ::
  "nat \<Rightarrow> string \<Rightarrow> string list \<Rightarrow> 'b route_state \<Rightarrow> route_entry option \<times> 'b route_state" where
  "lookup_route now content_key series_keys s =
     (let records = filter (\<lambda>e. rm_expires_at e > now) (rt_records s) in
      (case lookup_key ScopeContent content_key records of
         Some e \<Rightarrow> Some e
       | None \<Rightarrow> find_series series_keys records,
       s\<lparr>rt_records := records\<rparr>))"

definition entry_unusable :: "url_parser \<Rightarrow> route_entry \<Rightarrow> bool" where
  "entry_unusable parse e \<longleftrightarrow>
     \<not> valid_memory_key (rm_scope e) (rm_key e)
     \<or> normalize_resolver_host_id parse (rm_host_id e) = None
     \<or> rm_area e = RegionAll \<or> rm_expires_at e \<le> rm_updated_at e"

definition persist_memory ::
  "url_parser \<Rightarrow> (persisted_memory \<Rightarrow> 'b list) \<Rightarrow> write_calls \<Rightarrow> route_entry list \<Rightarrow> 'b fs_node \<Rightarrow>
    bool \<times> 'b fs_node" where
  "persist_memory parse encode calls records node =
     (if length records > MAX_MEMORY_RECORDS \<or> list_ex (entry_unusable parse) records
      then (False, node)
      else write_private_file calls MAX_MEMORY_FILE_BYTES (encode (1, records)) node)"

definition new_records ::
  "nat \<Rightarrow> string \<Rightarrow> string list \<Rightarrow> string \<Rightarrow> region \<Rightarrow> route_entry list" where
  "new_records now content_key series_keys host_id area =
     (let expiry = saturating_add now ROUTE_MEMORY_TTL_SECS;
          entry = (\<lambda>scope key. \<lparr>rm_scope = scope, rm_key = key, rm_host_id = host_id, rm_area = area,
                      rm_updated_at = now, rm_expires_at = expiry\<rparr>)
      in (if valid_memory_key ScopeContent content_key then [entry ScopeContent content_key] else [])
         @ map (entry ScopeSeries) (filter (valid_memory_key ScopeSeries) series_keys))"

definition replace_record :: "route_entry \<Rightarrow> route_entry list \<Rightarrow> route_entry list" where
  "replace_record r records =
     filter (\<lambda>e. rm_scope e \<noteq> rm_scope r \<or> rm_key e \<noteq> rm_key r) records @ [r]"

definition updated_cmp :: "route_entry \<Rightarrow> route_entry \<Rightarrow> ordering" where
  "updated_cmp a b = cmp (rm_updated_at a) (rm_updated_at b)"

definition merge_records :: "route_entry list \<Rightarrow> route_entry list \<Rightarrow> route_entry list" where
  "merge_records records_new records =
     (let merged = sort_by updated_cmp (fold replace_record records_new records) in
      if length merged > MAX_MEMORY_RECORDS then drop (length merged - MAX_MEMORY_RECORDS) merged
      else merged)"

definition record_region_route ::
  "url_parser \<Rightarrow> (persisted_memory \<Rightarrow> 'b list) \<Rightarrow> write_calls \<Rightarrow> nat \<Rightarrow> string \<Rightarrow> string list \<Rightarrow> string \<Rightarrow>
    region \<Rightarrow> 'b route_state \<Rightarrow> 'b route_state" where
  "record_region_route parse encode calls now content_key series_keys host_id area s =
     (case normalize_resolver_host_id parse host_id of
        None \<Rightarrow> s
      | Some host_id' \<Rightarrow>
          if area = RegionAll then s
          else
            let records_new = new_records now content_key series_keys host_id' area in
            if records_new = [] then s
            else
              let records = merge_records records_new (rt_records s) in
              s\<lparr>rt_records := records,
                rt_file := (if rt_persist s then snd (persist_memory parse encode calls records (rt_file s))
                            else rt_file s)\<rparr>)"

datatype memory_error = MemoryFileMissing | MemoryFileInvalid

fun check_entries :: "url_parser \<Rightarrow> route_entry list \<Rightarrow> memory_error + route_entry list" where
  "check_entries parse [] = Inr []"
| "check_entries parse (e # es) =
     (case normalize_resolver_host_id parse (rm_host_id e) of
        None \<Rightarrow> Inl MemoryFileInvalid
      | Some host_id \<Rightarrow>
          if \<not> valid_memory_key (rm_scope e) (rm_key e) \<or> rm_area e = RegionAll
             \<or> rm_expires_at e \<le> rm_updated_at e
          then Inl MemoryFileInvalid
          else (case check_entries parse es of
                  Inl err \<Rightarrow> Inl err
                | Inr records \<Rightarrow> Inr (e\<lparr>rm_host_id := host_id\<rparr> # records)))"

definition read_memory ::
  "url_parser \<Rightarrow> ('b list \<Rightarrow> persisted_memory option) \<Rightarrow> read_calls \<Rightarrow> nat \<Rightarrow> 'b fs_node \<Rightarrow>
    memory_error + route_entry list" where
  "read_memory parse decode calls now node =
     (case read_private_file calls MAX_MEMORY_FILE_BYTES node of
        NotFound \<Rightarrow> Inl MemoryFileMissing
      | Refused \<Rightarrow> Inl MemoryFileInvalid
      | Content bytes \<Rightarrow>
          (case decode bytes of
             None \<Rightarrow> Inl MemoryFileInvalid
           | Some (version, entries) \<Rightarrow>
               if version \<noteq> 1 \<or> length entries > MAX_MEMORY_RECORDS then Inl MemoryFileInvalid
               else (case check_entries parse entries of
                       Inl err \<Rightarrow> Inl err
                     | Inr records \<Rightarrow> Inr (filter (\<lambda>e. rm_expires_at e > now) records))))"

text \<open>A file that is there but not readable is left alone: nothing is written over it.\<close>

definition load_routing ::
  "url_parser \<Rightarrow> ('b list \<Rightarrow> persisted_memory option) \<Rightarrow> read_calls \<Rightarrow> nat \<Rightarrow> 'b fs_node \<Rightarrow> 'b route_state"
  where
  "load_routing parse decode calls now node =
     (case read_memory parse decode calls now node of
        Inr records \<Rightarrow> \<lparr>rt_records = records, rt_persist = True, rt_file = node\<rparr>
      | Inl MemoryFileMissing \<Rightarrow> \<lparr>rt_records = [], rt_persist = True, rt_file = node\<rparr>
      | Inl MemoryFileInvalid \<Rightarrow> \<lparr>rt_records = [], rt_persist = False, rt_file = node\<rparr>)"

section \<open>Interfaces\<close>

interpretation updated: comparison updated_cmp
  unfolding updated_cmp_def by (rule comparison_by_key) (rule natural.comparison_axioms)

text \<open>Transitions: a lookup or a recorded route, with the time and what the file system answers.\<close>

datatype route_op =
    OpLookup nat string "string list"
  | OpRecord write_calls nat string "string list" string region

fun route_apply ::
  "url_parser \<Rightarrow> (persisted_memory \<Rightarrow> 'b list) \<Rightarrow> route_op \<Rightarrow> 'b route_state \<Rightarrow> 'b route_state" where
  "route_apply parse encode (OpLookup now content_key series_keys) s =
     snd (lookup_route now content_key series_keys s)"
| "route_apply parse encode (OpRecord calls now content_key series_keys host_id area) s =
     record_region_route parse encode calls now content_key series_keys host_id area s"

text \<open>The clock has not reached the last second that a \<open>u64\<close> can hold.\<close>

fun clock_ok :: "route_op \<Rightarrow> bool" where
  "clock_ok (OpLookup now _ _) \<longleftrightarrow> now < u64_max"
| "clock_ok (OpRecord _ now _ _ _ _) \<longleftrightarrow> now < u64_max"

definition route_step ::
  "url_parser \<Rightarrow> (persisted_memory \<Rightarrow> 'b list) \<Rightarrow> 'b route_state \<Rightarrow> route_op \<Rightarrow> 'b route_state \<Rightarrow> bool" where
  "route_step parse encode s l s' \<longleftrightarrow> clock_ok l \<and> s' = route_apply parse encode l s"

definition route_init ::
  "url_parser \<Rightarrow> ('b list \<Rightarrow> persisted_memory option) \<Rightarrow> 'b route_state \<Rightarrow> bool" where
  "route_init parse decode s \<longleftrightarrow> (\<exists>calls now node. s = load_routing parse decode calls now node)"

definition route_entry_ok :: "url_parser \<Rightarrow> route_entry \<Rightarrow> bool" where
  "route_entry_ok parse e \<longleftrightarrow>
     valid_memory_key (rm_scope e) (rm_key e)
     \<and> normalize_resolver_host_id parse (rm_host_id e) = Some (rm_host_id e)
     \<and> rm_area e \<noteq> RegionAll \<and> rm_updated_at e < rm_expires_at e"

definition route_inv :: "url_parser \<Rightarrow> 'b route_state \<Rightarrow> bool" where
  "route_inv parse s \<longleftrightarrow>
     length (rt_records s) \<le> MAX_MEMORY_RECORDS \<and> (\<forall>e \<in> set (rt_records s). route_entry_ok parse e)"

section \<open>Lemmas\<close>

lemma normalize_same: "normalize_resolver_host_id parse h = Some h' \<Longrightarrow> h' = h"
  using validate_host_id_same [of parse h h'] by (simp add: validate_host_id_def)

lemma check_entries_Inr:
  "check_entries parse entries = Inr records \<longleftrightarrow>
    records = entries \<and> (\<forall>e \<in> set entries. \<not> entry_unusable parse e)"
proof (induction entries arbitrary: records)
  case (Cons e es)
  show ?case
  proof (cases "normalize_resolver_host_id parse (rm_host_id e)")
    case None
    then show ?thesis by (simp add: entry_unusable_def)
  next
    case (Some h)
    then have "e\<lparr>rm_host_id := h\<rparr> = e" using normalize_same [of parse "rm_host_id e" h] by simp
    with Some Cons show ?thesis
      by (auto simp: entry_unusable_def split: sum.split)
  qed
qed auto

lemma route_entry_ok_usable: "route_entry_ok parse e \<longleftrightarrow> \<not> entry_unusable parse e"
  by (auto simp: entry_unusable_def route_entry_ok_def dest: normalize_same)

lemma load_routing_inv: "route_inv parse (load_routing parse decode calls now node)"
proof -
  have "length records \<le> MAX_MEMORY_RECORDS \<and> (\<forall>e \<in> set records. route_entry_ok parse e)"
    if "read_memory parse decode calls now node = Inr records" for records
    using that
    by (auto simp: read_memory_def check_entries_Inr route_entry_ok_usable not_less
        split: read_result.splits option.splits if_splits sum.splits
        intro: le_trans [OF length_filter_le])
  then show ?thesis
    by (auto simp: load_routing_def route_inv_def split: sum.split memory_error.split)
qed

lemma new_records_ok:
  "normalize_resolver_host_id parse h = Some h \<Longrightarrow> area \<noteq> RegionAll \<Longrightarrow> now < u64_max \<Longrightarrow>
    e \<in> set (new_records now content_key series_keys h area) \<Longrightarrow> route_entry_ok parse e"
  by (auto simp: new_records_def Let_def route_entry_ok_def saturating_add_def route_consts split: if_splits)

lemma set_replace_record: "set (replace_record r records) \<subseteq> insert r (set records)"
  by (auto simp: replace_record_def)

lemma set_fold_replace: "set (fold replace_record rs records) \<subseteq> set rs \<union> set records"
proof (induction rs arbitrary: records)
  case (Cons r rs)
  show ?case using Cons [of "replace_record r records"] set_replace_record [of r records] by auto
qed simp

lemma merge_records_sub: "set (merge_records rs records) \<subseteq> set rs \<union> set records"
proof -
  have "set (merge_records rs records) \<subseteq> set (sort_by updated_cmp (fold replace_record rs records))"
    using in_set_dropD by (auto simp: merge_records_def Let_def simp del: set_sort_by)
  then show ?thesis using set_fold_replace [of rs records] by simp
qed

lemma merge_records_length: "length (merge_records rs records) \<le> MAX_MEMORY_RECORDS"
  by (simp add: merge_records_def Let_def)

lemma lookup_route_inv: "route_inv parse s \<Longrightarrow> route_inv parse (snd (lookup_route now c ks s))"
  by (auto simp: lookup_route_def Let_def route_inv_def intro: le_trans [OF length_filter_le])

lemma record_region_route_inv:
  assumes "route_inv parse s" "now < u64_max"
  shows "route_inv parse (record_region_route parse encode calls now c ks host_id area s)"
proof (cases "normalize_resolver_host_id parse host_id")
  case (Some h)
  then have h: "h = host_id" "normalize_resolver_host_id parse h = Some h"
    using normalize_same [of parse host_id h] by auto
  show ?thesis
    using assms Some merge_records_sub [of "new_records now c ks h area" "rt_records s"]
      new_records_ok [OF h(2)]
    by (auto simp: record_region_route_def Let_def route_inv_def merge_records_length)
qed (use assms in \<open>simp add: record_region_route_def\<close>)

lemma route_apply_inv:
  "route_inv parse s \<Longrightarrow> clock_ok l \<Longrightarrow> route_inv parse (route_apply parse encode l s)"
  by (cases l) (simp_all add: lookup_route_inv record_region_route_inv)

interpretation route_memory: step_system "route_init parse decode" "route_step parse encode" "route_inv parse"
  for parse and decode :: "'b list \<Rightarrow> persisted_memory option" and encode
  by unfold_locales (auto simp: route_init_def load_routing_inv route_step_def route_apply_inv)

text \<open>The file: what was saved is read again, without the entries that have expired.\<close>

lemma read_memory_saved:
  assumes "decode (encode (1, records)) = Some (1, records)" "length records \<le> MAX_MEMORY_RECORDS"
    and "\<forall>e \<in> set records. route_entry_ok parse e"
    and "length (encode (1, records)) \<le> MAX_MEMORY_FILE_BYTES" "reads_succeed calls"
  shows "read_memory parse decode calls now (Regular (encode (1, records))) =
    Inr (filter (\<lambda>e. rm_expires_at e > now) records)"
proof -
  have "check_entries parse records = Inr records"
    using assms(3) by (simp add: check_entries_Inr route_entry_ok_usable)
  then show ?thesis
    using assms by (simp add: read_memory_def read_private_file_Regular)
qed

definition reload_records ::
  "url_parser \<Rightarrow> ('b list \<Rightarrow> persisted_memory option) \<Rightarrow> nat \<Rightarrow> 'b fs_node \<Rightarrow> route_entry list option" where
  "reload_records parse decode now node =
     (case read_memory parse decode reads_fine now node of Inr records \<Rightarrow> Some records | Inl _ \<Rightarrow> None)"

interpretation memory_file: persistent_state "persist_memory parse encode" "reload_records parse decode"
    "\<lambda>now. filter (\<lambda>e. rm_expires_at e > now)"
    "\<lambda>records. decode (encode (1, records)) = Some (1, records)"
  for encode :: "persisted_memory \<Rightarrow> 'b list" and parse decode
proof unfold_locales
  fix e s f f' t
  assume "persist_memory parse encode e s f = (True, f')" and "decode (encode (1, s)) = Some (1, s)"
  then show "reload_records parse decode t f' = Some (filter (\<lambda>e. rm_expires_at e > t) s)"
    using read_memory_saved [of decode encode s parse reads_fine t]
    by (auto simp: persist_memory_def reload_records_def route_entry_ok_usable list_ex_iff
        dest!: write_private_file_True split: if_splits)
qed (auto simp: persist_memory_def dest: write_private_file_False split: if_splits)

section \<open>Recording and looking up\<close>

abbreviation same_key :: "memory_scope \<Rightarrow> string \<Rightarrow> route_entry \<Rightarrow> bool" where
  "same_key scope key e \<equiv> rm_scope e = scope \<and> rm_key e = key"

lemma lookup_key_only: "filter (same_key scope key) records = [e] \<Longrightarrow> lookup_key scope key records = Some e"
  unfolding lookup_key_def
  by (induction records) (auto split: if_splits)

lemma filter_mset_single:
  assumes "mset ys = mset xs" "filter P xs = [x]"
  shows "filter P ys = [x]"
proof -
  have "mset (filter P ys) = mset (filter P xs)" using assms(1) by simp
  then have "mset (filter P ys) = {#x#}" unfolding assms(2) by simp
  then show ?thesis by (simp only: mset_single_iff)
qed

lemma filter_swap: "filter P (filter Q xs) = filter Q (filter P xs)"
  by (simp add: conj_commute)

lemma filter_replaced:
  assumes "\<not> P x" "\<And>e. P e \<Longrightarrow> R e"
  shows "filter P (filter R xs @ [x]) = filter P xs"
proof -
  have "filter P (filter R xs) = filter P xs"
    unfolding filter_filter using assms(2) by (intro filter_cong) auto
  then show ?thesis using assms(1) by simp
qed

text \<open>Replacing puts the new records behind what is left of the old ones.\<close>

lemma fold_replace_split:
  "\<exists>old new. fold replace_record rs records = old @ new \<and> set old \<subseteq> set records \<and> set new \<subseteq> set rs
    \<and> length new \<le> length rs \<and> (\<forall>r \<in> set rs. \<exists>r' \<in> set new. same_key (rm_scope r) (rm_key r) r')
    \<and> (\<forall>r \<in> set rs. \<exists>r'. filter (same_key (rm_scope r) (rm_key r)) (old @ new) = [r'])"
proof (induction rs rule: rev_induct)
  case (snoc x rs)
  then obtain old new where ih: "fold replace_record rs records = old @ new" "set old \<subseteq> set records"
      "set new \<subseteq> set rs" "length new \<le> length rs"
      "\<forall>r \<in> set rs. \<exists>r' \<in> set new. same_key (rm_scope r) (rm_key r) r'"
      "\<forall>r \<in> set rs. \<exists>r'. filter (same_key (rm_scope r) (rm_key r)) (old @ new) = [r']"
    by auto
  let ?other = "\<lambda>e. rm_scope e \<noteq> rm_scope x \<or> rm_key e \<noteq> rm_key x"
  have single: "\<exists>r'. filter (same_key (rm_scope r) (rm_key r)) (filter ?other (old @ new) @ [x]) = [r']"
    if r: "r \<in> set (rs @ [x])" for r
  proof (cases "?other r")
    case True
    then have "filter (same_key (rm_scope r) (rm_key r)) (filter ?other (old @ new) @ [x]) =
        filter (same_key (rm_scope r) (rm_key r)) (old @ new)"
      by (intro filter_replaced) auto
    then show ?thesis using ih(6) r True by auto
  next
    case False
    then have "filter (same_key (rm_scope r) (rm_key r)) (filter ?other (old @ new)) = []"
      by (auto simp: filter_empty_conv)
    then show ?thesis using False by auto
  qed
  have present: "\<exists>r' \<in> set (filter ?other new @ [x]). same_key (rm_scope r) (rm_key r) r'"
    if "r \<in> set (rs @ [x])" for r
    using ih(5) that by (cases "?other r") fastforce+
  have "fold replace_record (rs @ [x]) records = filter ?other old @ (filter ?other new @ [x])"
    using ih(1) by (simp add: replace_record_def)
  moreover have "set (filter ?other old) \<subseteq> set records" "set (filter ?other new @ [x]) \<subseteq> set (rs @ [x])"
    using ih(2,3) by auto
  moreover have "length (filter ?other new @ [x]) \<le> length (rs @ [x])"
    using ih(4) by (simp add: le_trans [OF length_filter_le])
  moreover have "\<forall>r \<in> set (rs @ [x]). \<exists>r'.
      filter (same_key (rm_scope r) (rm_key r)) (filter ?other old @ (filter ?other new @ [x])) = [r']"
    using single unfolding filter_append [of ?other] append_assoc by blast
  ultimately show ?case using present by blast
qed simp

text \<open>
  When no clock reading lies in the future, the new records are the newest: the limit never
  removes them.
\<close>

lemma merge_records_keeps:
  assumes past: "\<forall>e \<in> set records. rm_updated_at e \<le> now" and "\<forall>r \<in> set rs. rm_updated_at r = now"
    and "length rs \<le> MAX_MEMORY_RECORDS"
    and r: "r \<in> set rs" and unique: "\<forall>r' \<in> set rs. same_key (rm_scope r) (rm_key r) r' \<longrightarrow> r' = r"
  shows "filter (same_key (rm_scope r) (rm_key r)) (merge_records rs records) = [r]"
proof -
  obtain old new where split: "fold replace_record rs records = old @ new" "set old \<subseteq> set records"
      "set new \<subseteq> set rs" "length new \<le> length rs"
      "\<forall>r \<in> set rs. \<exists>r' \<in> set new. same_key (rm_scope r) (rm_key r) r'"
      "\<forall>r \<in> set rs. \<exists>r'. filter (same_key (rm_scope r) (rm_key r)) (old @ new) = [r']"
    using fold_replace_split [of rs records] by auto
  define P where "P e \<longleftrightarrow> rm_updated_at e < now" for e :: route_entry
  define sorted where "sorted = sort_by updated_cmp (old @ new)"
  obtain r' where r': "r' \<in> set new" "same_key (rm_scope r) (rm_key r) r'" using split(5) r by blast
  then have "r' = r" using split(3) unique by auto
  with r' have rnew: "r \<in> set new" by simp
  obtain q where q: "filter (same_key (rm_scope r) (rm_key r)) (old @ new) = [q]" using split(6) r by blast
  have "r \<in> set (filter (same_key (rm_scope r) (rm_key r)) (old @ new))" using rnew by simp
  then have only: "filter (same_key (rm_scope r) (rm_key r)) (old @ new) = [r]"
    unfolding q by simp
  have "sorted = filter P sorted @ filter (\<lambda>e. \<not> P e) sorted"
    unfolding sorted_def
    by (rule updated.sort_by_prefix) (auto simp: P_def updated_cmp_def cmp_def)
  moreover have all_past: "rm_updated_at e \<le> now" if "e \<in> set (old @ new)" for e
    using past assms(2) split(2,3) that by fastforce
  then have "filter (\<lambda>e. \<not> P e) sorted = filter (\<lambda>e. rm_updated_at e = now) sorted"
    unfolding sorted_def P_def by (intro filter_cong) (force simp: sorted_def)+
  moreover have "filter (\<lambda>e. rm_updated_at e = now) sorted = filter (\<lambda>e. rm_updated_at e = now) (old @ new)"
    unfolding sorted_def
    by (rule updated.sort_by_stable) (simp add: updated_cmp_def cmp_def)
  moreover have "filter (\<lambda>e. rm_updated_at e = now) new = new"
    using assms(2) split(3) by (auto simp: filter_id_conv)
  ultimately obtain front where front: "sorted = front @ new" by (metis append_assoc filter_append)
  have short: "length new \<le> MAX_MEMORY_RECORDS" using split(4) assms(3) by simp
  define cut where "cut = length sorted - MAX_MEMORY_RECORDS"
  have "merge_records rs records = drop cut sorted"
    by (simp add: merge_records_def Let_def split(1) sorted_def cut_def)
  moreover have "drop cut sorted = drop cut front @ new"
    using short by (simp add: front cut_def)
  moreover have "filter (same_key (rm_scope r) (rm_key r)) (front @ new) = [r]"
    using filter_mset_single [OF _ only, of sorted] front by (simp add: sorted_def)
  then have "filter (same_key (rm_scope r) (rm_key r)) front = []"
    "filter (same_key (rm_scope r) (rm_key r)) new = [r]"
    using rnew by (auto simp: append_eq_Cons_conv filter_empty_conv)
  then have "filter (same_key (rm_scope r) (rm_key r)) (drop cut front @ new) = [r]"
    by (auto simp: filter_empty_conv dest: in_set_dropD)
  ultimately show ?thesis by simp
qed

lemma lookup_key_set: "lookup_key scope key records = Some e \<Longrightarrow> e \<in> set records"
  by (auto simp: lookup_key_def find_Some_iff)

lemma find_series_set: "find_series keys records = Some e \<Longrightarrow> e \<in> set records"
  by (induction keys) (auto split: option.splits dest: lookup_key_set)

text \<open>The state after a route has been recorded.\<close>

lemma record_region_route_records:
  assumes "normalize_resolver_host_id parse host = Some host" "area \<noteq> RegionAll"
  shows "rt_records (record_region_route parse encode calls now c ks host area s) =
    (if new_records now c ks host area = [] then rt_records s
     else merge_records (new_records now c ks host area) (rt_records s))"
  using assms by (simp add: record_region_route_def Let_def)

lemma record_region_route_file:
  assumes "normalize_resolver_host_id parse host = Some host" "area \<noteq> RegionAll" "rt_persist s"
    and "new_records now c ks host area \<noteq> []"
  shows "rt_file (record_region_route parse encode calls now c ks host area s) =
    snd (persist_memory parse encode calls
      (rt_records (record_region_route parse encode calls now c ks host area s)) (rt_file s))"
  using assms by (simp add: record_region_route_def Let_def)

lemma new_records_member:
  "r \<in> set (new_records now c ks host area) \<longleftrightarrow>
    (\<exists>scope key. r = \<lparr>rm_scope = scope, rm_key = key, rm_host_id = host, rm_area = area,
        rm_updated_at = now, rm_expires_at = saturating_add now ROUTE_MEMORY_TTL_SECS\<rparr>
      \<and> valid_memory_key scope key
      \<and> (scope = ScopeContent \<and> key = c \<or> scope = ScopeSeries \<and> key \<in> set ks))"
  by (auto simp: new_records_def Let_def)

lemma length_new_records: "length (new_records now c ks host area) \<le> Suc (length ks)"
  using length_filter_le [of "valid_memory_key ScopeSeries" ks]
  by (auto simp: new_records_def Let_def intro: le_SucI)

lemma recorded_key:
  assumes "normalize_resolver_host_id parse host = Some host" "area \<noteq> RegionAll"
    and past: "\<forall>e \<in> set (rt_records s). rm_updated_at e \<le> now"
    and few: "length ks < MAX_MEMORY_RECORDS"
    and key: "valid_memory_key scope key"
      "scope = ScopeContent \<and> key = c \<or> scope = ScopeSeries \<and> key \<in> set ks"
    and live: "t < saturating_add now ROUTE_MEMORY_TTL_SECS"
  shows "\<exists>e. lookup_key scope key (filter (\<lambda>e. rm_expires_at e > t)
      (rt_records (record_region_route parse encode calls now c ks host area s))) = Some e
    \<and> rm_host_id e = host \<and> rm_area e = area"
proof -
  define r where "r = \<lparr>rm_scope = scope, rm_key = key, rm_host_id = host, rm_area = area,
    rm_updated_at = now, rm_expires_at = saturating_add now ROUTE_MEMORY_TTL_SECS\<rparr>"
  let ?new = "new_records now c ks host area"
  have r: "r \<in> set ?new" using key by (auto simp: new_records_member r_def)
  have "filter (same_key (rm_scope r) (rm_key r)) (merge_records ?new (rt_records s)) = [r]"
    using past r length_new_records [of now c ks host area] few
    by (intro merge_records_keeps [of _ now]) (auto simp: new_records_member r_def)
  then have "filter (same_key scope key) (filter (\<lambda>e. rm_expires_at e > t) (merge_records ?new (rt_records s)))
      = filter (\<lambda>e. rm_expires_at e > t) [r]"
    unfolding filter_swap [of "same_key scope key"] by (simp add: r_def)
  also have "\<dots> = [r]" using live by (simp add: r_def)
  finally have "lookup_key scope key (filter (\<lambda>e. rm_expires_at e > t) (merge_records ?new (rt_records s))) = Some r"
    by (rule lookup_key_only)
  moreover have "?new \<noteq> []" using r by auto
  ultimately show ?thesis
    using record_region_route_records [OF assms(1,2), of encode calls now c ks s] by (simp add: r_def)
qed

section \<open>Properties\<close>

text \<open>
  In every state that the routing memory can reach, from whatever file it was loaded, it holds at
  most 512 entries; each has a key of a known form with at most 64 bytes, a valid host and a concrete
  region, and expires after it was written. So the validation that precedes every write never
  refuses: a write fails only when the file system does or the encoding is too long.
\<close>

theorem route_memory_well_formed:
  assumes "reachable (route_init parse decode) (route_step parse encode) s"
  shows "length (rt_records s) \<le> 512
    \<and> (\<forall>e \<in> set (rt_records s). valid_memory_key (rm_scope e) (rm_key e) \<and> rm_area e \<noteq> RegionAll
        \<and> normalize_resolver_host_id parse (rm_host_id e) = Some (rm_host_id e)
        \<and> rm_updated_at e < rm_expires_at e)
    \<and> persist_memory parse encode calls (rt_records s) node =
        write_private_file calls MAX_MEMORY_FILE_BYTES (encode (1, rt_records s)) node"
proof -
  have inv: "route_inv parse s" using assms by (rule route_memory.reachable_inv)
  then have "\<not> list_ex (entry_unusable parse) (rt_records s)"
    by (auto simp: list_ex_iff route_inv_def route_entry_ok_usable)
  then show ?thesis using inv
    by (auto simp: route_inv_def route_entry_ok_def persist_memory_def route_consts)
qed

text \<open>
  C20. A recorded route is found again: for the next seven days the content resolves to its host and
  region, and so does every series recorded with it when nothing is remembered for the content
  itself; no lookup returns an entry that has expired. The table may be full, as long as no entry
  is dated in the future and fewer than 512 series are recorded at once.
\<close>

theorem recorded_route_found:
  assumes "normalize_resolver_host_id parse host = Some host" "area \<noteq> RegionAll"
    and "\<forall>e \<in> set (rt_records s). rm_updated_at e \<le> now" "length series_keys < 512"
    and "s' = record_region_route parse encode calls now content series_keys host area s"
    and "now \<le> t" "t < saturating_add now (7 * 24 * 60 * 60)"
  shows "(valid_memory_key ScopeContent content \<longrightarrow>
        (\<exists>e. fst (lookup_route t content keys s') = Some e \<and> rm_host_id e = host \<and> rm_area e = area))
    \<and> (\<forall>key \<in> set series_keys. valid_memory_key ScopeSeries key
        \<and> lookup_key ScopeContent other (filter (\<lambda>e. rm_expires_at e > t) (rt_records s')) = None \<longrightarrow>
        (\<exists>e. fst (lookup_route t other (key # keys) s') = Some e \<and> rm_host_id e = host \<and> rm_area e = area))
    \<and> (\<forall>t e. fst (lookup_route t content keys s') = Some e \<longrightarrow> t < rm_expires_at e)"
proof -
  have live: "t < saturating_add now ROUTE_MEMORY_TTL_SECS" and few: "length series_keys < MAX_MEMORY_RECORDS"
    using assms(4,7) by (simp_all add: route_consts)
  note found = recorded_key [OF assms(1,2,3) few _ _ live, of _ _ content encode calls, folded assms(5)]
  have series: "\<exists>e. fst (lookup_route t other (key # keys) s') = Some e \<and> rm_host_id e = host \<and> rm_area e = area"
    if "key \<in> set series_keys" "valid_memory_key ScopeSeries key"
      "lookup_key ScopeContent other (filter (\<lambda>e. rm_expires_at e > t) (rt_records s')) = None" for key
    using found [of ScopeSeries key] that by (auto simp: lookup_route_def Let_def)
  have "t' < rm_expires_at e" if "fst (lookup_route t' content keys s') = Some e" for t' e
  proof -
    have "e \<in> set (filter (\<lambda>e. rm_expires_at e > t') (rt_records s'))"
      using that lookup_key_set find_series_set
      by (auto simp only: lookup_route_def Let_def fst_conv split: option.splits)
    then show ?thesis by simp
  qed
  moreover have "\<exists>e. fst (lookup_route t content keys s') = Some e \<and> rm_host_id e = host \<and> rm_area e = area"
    if "valid_memory_key ScopeContent content"
    using found [of ScopeContent content] that by (auto simp: lookup_route_def Let_def)
  ultimately show ?thesis using series by blast
qed

text \<open>
  A restart forgets nothing: after a recorded route has been written to the file, a server that
  loads the file, at any later time, answers every lookup as the one that went on running.
\<close>

theorem route_memory_survives_restart:
  assumes codec: "\<And>m. decode (encode m) = Some m"
    and reach: "reachable (route_init parse decode) (route_step parse encode) s"
    and "rt_persist s" "now < u64_max"
    and host: "normalize_resolver_host_id parse host = Some host" "area \<noteq> RegionAll"
    and some: "new_records now content series_keys host area \<noteq> []"
    and s': "s' = record_region_route parse encode calls now content series_keys host area s"
    and saved: "fst (persist_memory parse encode calls (rt_records s') (rt_file s))"
    and "reads_succeed rcalls"
  shows "fst (lookup_route t c keys (load_routing parse decode rcalls t (rt_file s'))) = fst (lookup_route t c keys s')
    \<and> rt_persist (load_routing parse decode rcalls t (rt_file s'))"
proof -
  have inv: "route_inv parse s'"
    unfolding s' using route_memory.reachable_inv [OF reach] assms(4) by (rule record_region_route_inv)
  have "persist_memory parse encode calls (rt_records s') (rt_file s) = (True, rt_file s')"
    using saved record_region_route_file [OF host assms(3) some, of encode calls, folded s']
    by (simp add: prod_eq_iff)
  then have f: "rt_file s' = Regular (encode (1, rt_records s'))"
    "length (encode (1, rt_records s')) \<le> MAX_MEMORY_FILE_BYTES"
    by (auto simp: persist_memory_def dest!: write_private_file_True split: if_splits)
  have "read_memory parse decode rcalls t (rt_file s') = Inr (filter (\<lambda>e. rm_expires_at e > t) (rt_records s'))"
    unfolding f(1) using inv f(2) assms(10) codec
    by (intro read_memory_saved) (auto simp: route_inv_def)
  then show ?thesis by (simp add: load_routing_def lookup_route_def Let_def)
qed

section \<open>Witnesses\<close>

definition demo_memory_encode :: "persisted_memory \<Rightarrow> persisted_memory list" where
  "demo_memory_encode m = [m]"

definition demo_memory_decode :: "persisted_memory list \<Rightarrow> persisted_memory option" where
  "demo_memory_decode bytes = (case bytes of [m] \<Rightarrow> Some m | _ \<Rightarrow> None)"

definition demo_routes0 :: "persisted_memory route_state" where
  "demo_routes0 = load_routing demo_parse demo_memory_decode reads_fine 5 Absent"

definition demo_routes1 :: "persisted_memory route_state" where
  "demo_routes1 = record_region_route demo_parse demo_memory_encode calls_fine 100 ''epid:7'' [''season:3'']
     ''a.b'' Hk demo_routes0"

lemma demo_host: "normalize_resolver_host_id demo_parse ''a.b'' = Some ''a.b''"
  by code_simp

lemma demo_keys: "valid_memory_key ScopeContent ''epid:7''" "valid_memory_key ScopeSeries ''season:3''"
  by code_simp+

lemma demo_routes0_eq: "demo_routes0 = \<lparr>rt_records = [], rt_persist = True, rt_file = Absent\<rparr>"
  by (simp add: demo_routes0_def load_routing_def read_memory_def read_private_file_Absent)

definition demo_entries :: "route_entry list" where
  "demo_entries = [\<lparr>rm_scope = ScopeContent, rm_key = ''epid:7'', rm_host_id = ''a.b'', rm_area = Hk,
       rm_updated_at = 100, rm_expires_at = 604900\<rparr>,
     \<lparr>rm_scope = ScopeSeries, rm_key = ''season:3'', rm_host_id = ''a.b'', rm_area = Hk,
       rm_updated_at = 100, rm_expires_at = 604900\<rparr>]"

lemma demo_new: "new_records 100 ''epid:7'' [''season:3''] ''a.b'' Hk = demo_entries"
  by (simp add: new_records_def Let_def demo_keys demo_entries_def saturating_add_def route_consts)

lemma demo_persist:
  "persist_memory demo_parse demo_memory_encode calls_fine demo_entries Absent =
    (True, Regular [(1, demo_entries)])"
  by (simp add: persist_memory_def demo_entries_def entry_unusable_def demo_keys demo_host
      write_private_file_fine demo_memory_encode_def route_consts)

lemma demo_routes1_eq:
  "demo_routes1 = \<lparr>rt_records = demo_entries, rt_persist = True, rt_file = Regular [(1, demo_entries)]\<rparr>"
proof -
  have "merge_records demo_entries [] = demo_entries"
    by (simp add: merge_records_def demo_entries_def replace_record_def updated_cmp_def cmp_def route_consts)
  moreover have "demo_entries \<noteq> []" by (simp add: demo_entries_def)
  ultimately show ?thesis
    by (simp add: demo_routes1_def record_region_route_def demo_host demo_routes0_eq demo_new
        demo_persist Let_def)
qed

lemma demo_reach0:
  "reachable (route_init demo_parse demo_memory_decode) (route_step demo_parse demo_memory_encode) demo_routes0"
  by (rule reach_init) (auto simp: route_init_def demo_routes0_def)

lemma demo_reach1:
  "reachable (route_init demo_parse demo_memory_decode) (route_step demo_parse demo_memory_encode) demo_routes1"
  by (rule reach_step [OF demo_reach0,
        where l = "OpRecord calls_fine 100 ''epid:7'' [''season:3''] ''a.b'' Hk"])
    (simp add: route_step_def demo_routes1_def)

theorem route_memory_well_formed_witness:
  "length (rt_records demo_routes1) \<le> 512 \<and> map rm_key (rt_records demo_routes1) = [''epid:7'', ''season:3'']"
  using route_memory_well_formed [OF demo_reach1] by (simp add: demo_routes1_eq demo_entries_def)

theorem recorded_route_found_witness:
  "\<exists>e. fst (lookup_route 604899 ''epid:7'' [] demo_routes1) = Some e \<and> rm_host_id e = ''a.b'' \<and> rm_area e = Hk"
  using recorded_route_found [OF demo_host _ _ _ demo_routes1_def, where t = 604899 and keys = "[]"]
  by (simp add: demo_routes0_eq demo_keys saturating_add_def)

theorem route_memory_survives_restart_witness:
  "fst (lookup_route 200 ''epid:8'' [''season:3'']
      (load_routing demo_parse demo_memory_decode reads_fine 200 (Regular [(1, demo_entries)])))
    = fst (lookup_route 200 ''epid:8'' [''season:3''] demo_routes1)"
proof -
  have codec: "demo_memory_decode (demo_memory_encode m) = Some m" for m
    by (simp add: demo_memory_decode_def demo_memory_encode_def)
  have "demo_entries \<noteq> []" by (simp add: demo_entries_def)
  then show ?thesis
    using route_memory_survives_restart [of demo_memory_decode demo_memory_encode, OF codec demo_reach0
        _ _ demo_host _ _ demo_routes1_def, where rcalls = reads_fine and t = 200 and c = "''epid:8''"
          and keys = "[''season:3'']"]
    by (simp add: demo_routes0_eq demo_routes1_eq demo_new demo_persist)
qed

end
