(* ===== verification/Route_Probe.thy ===== *)
theory Route_Probe
  imports Resolver_Settings
begin

text \<open>
  The choice of the resolvers to ask (\<open>resolver_routing.rs\<close>, \<open>probe_candidates\<close>): candidates of the
  wanted region are ranked by health, at most three are kept, those that are due are probed
  concurrently, and the reachable ones are returned. The probes are tasks that end in any order; what
  \<open>select!\<close> sees of them, of the poll timer and of the deadline is a list of events.
\<close>

section \<open>Probes\<close>

definition MAX_ROUTED_CANDIDATES :: nat where "MAX_ROUTED_CANDIDATES = 3"

text \<open>What a request ends with: an answer with its status, or one of the errors of the client.\<close>

datatype http_result = Answered nat | RequestTimeout | ConnectError | OtherError

datatype route_probe_outcome = ProbeReady | ProbeFailed probe_failure | ProbeNeutral

definition probe_one :: "http_result \<Rightarrow> route_probe_outcome" where
  "probe_one result =
     (case result of
        Answered status \<Rightarrow>
          if 300 \<le> status \<and> status < 400 then ProbeNeutral
          else if 500 \<le> status \<and> status < 600 then ProbeNeutral
          else ProbeReady
      | RequestTimeout \<Rightarrow> ProbeFailed Timeout
      | ConnectError \<Rightarrow> ProbeFailed Connectivity
      | OtherError \<Rightarrow> ProbeFailed Connectivity)"

definition candidate_supports_area :: "resolver_candidate \<Rightarrow> region \<Rightarrow> bool" where
  "candidate_supports_area candidate area \<longleftrightarrow>
     RegionAll \<in> set (rc_regions candidate) \<or> area \<in> set (rc_regions candidate)"

definition bound_route_candidates :: "'a list \<Rightarrow> 'a list" where
  "bound_route_candidates candidates = take MAX_ROUTED_CANDIDATES candidates"

section \<open>The plan\<close>

text \<open>The candidates that a query of the tracker holds for; a query also drops expired records.\<close>

fun query_all ::
  "(string \<Rightarrow> health_tracker \<Rightarrow> bool \<times> health_tracker) \<Rightarrow> resolver_candidate list \<Rightarrow> health_tracker \<Rightarrow>
    string list \<times> health_tracker" where
  "query_all query [] health = ([], health)"
| "query_all query (c # cs) health =
     (let (holds, health1) = query (rc_host_id c) health;
          (ids, health2) = query_all query cs health1
      in (if holds then rc_host_id c # ids else ids, health2))"

text \<open>A hash map built from (host, rank) pairs keeps the last rank of a host.\<close>

definition rank_of :: "string list \<Rightarrow> string \<Rightarrow> nat" where
  "rank_of ranked_ids host_id =
     (case map_of (rev (zip ranked_ids [0 ..< length ranked_ids])) host_id of
        Some rank \<Rightarrow> rank
      | None \<Rightarrow> u64_max)"

definition rank_cmp :: "string list \<Rightarrow> resolver_candidate \<Rightarrow> resolver_candidate \<Rightarrow> ordering" where
  "rank_cmp ranked_ids a b = cmp (rank_of ranked_ids (rc_host_id a)) (rank_of ranked_ids (rc_host_id b))"

definition prefer_host :: "string option \<Rightarrow> resolver_candidate list \<Rightarrow> resolver_candidate list" where
  "prefer_host preferred_host_id eligible =
     (case preferred_host_id of
        None \<Rightarrow> eligible
      | Some preferred \<Rightarrow>
          (case take_first (\<lambda>c. rc_host_id c = preferred) eligible of
             None \<Rightarrow> eligible
           | Some (c, rest) \<Rightarrow> c # rest))"

record probe_plan =
  pp_eligible :: "resolver_candidate list"
  pp_cached :: "string list"
  pp_due :: "string list"
  pp_health :: health_tracker

definition plan_probes ::
  "resolver_candidate list \<Rightarrow> region \<Rightarrow> string option \<Rightarrow> nat \<Rightarrow> health_tracker \<Rightarrow> probe_plan" where
  "plan_probes candidates area preferred_host_id now health =
     (let eligible = filter (\<lambda>c. candidate_supports_area c area) candidates;
          (ranked_ids, health1) = rank_candidates (map rc_host_id eligible) now health;
          (cached, health2) = query_all (\<lambda>host. recently_healthy host now) eligible health1;
          (due, health3) = query_all (\<lambda>host. probe_due host now) eligible health2
      in \<lparr>pp_eligible = bound_route_candidates (prefer_host preferred_host_id
              (sort_by (rank_cmp ranked_ids) eligible)),
          pp_cached = cached, pp_due = due, pp_health = health3\<rparr>)"

section \<open>The round\<close>

text \<open>
  \<open>Joined host now elapsed outcome\<close>: the probe of the host has ended and is recorded at \<open>now\<close>;
  \<open>JoinFailed host\<close>: its task has died; \<open>PollTick\<close>: the poll timer, with what the caller answers
  about cancellation; \<open>DeadlineHit\<close>: the budget of two seconds is used up.
\<close>

datatype probe_event =
    Joined string nat nat route_probe_outcome
  | JoinFailed string
  | PollTick bool
  | DeadlineHit

datatype loop_result =
    LoopDone "string list" health_tracker
  | LoopCancelled health_tracker
  | LoopWaiting

definition record_outcome ::
  "url_parser \<Rightarrow> string \<Rightarrow> nat \<Rightarrow> nat \<Rightarrow> route_probe_outcome \<Rightarrow> health_tracker \<Rightarrow> health_tracker" where
  "record_outcome parse host_id now elapsed outcome health =
     (case outcome of
        ProbeReady \<Rightarrow> snd (record_success parse host_id now elapsed health)
      | ProbeFailed failure \<Rightarrow> snd (record_failure parse host_id now failure health)
      | ProbeNeutral \<Rightarrow> snd (record_neutral_probe parse host_id now health))"

fun probe_loop ::
  "url_parser \<Rightarrow> string list \<Rightarrow> string list \<Rightarrow> health_tracker \<Rightarrow> probe_event list \<Rightarrow> loop_result" where
  "probe_loop parse [] reached health events = LoopDone reached health"
| "probe_loop parse pending reached health [] = LoopWaiting"
| "probe_loop parse pending reached health (Joined host_id now elapsed outcome # rest) =
     (if host_id \<in> set pending then
        probe_loop parse (remove1 host_id pending)
          (if outcome = ProbeReady then host_id # reached else reached)
          (record_outcome parse host_id now elapsed outcome health) rest
      else probe_loop parse pending reached health rest)"
| "probe_loop parse pending reached health (JoinFailed host_id # rest) =
     probe_loop parse (remove1 host_id pending) reached health rest"
| "probe_loop parse pending reached health (PollTick cancel_requested # rest) =
     (if cancel_requested then LoopCancelled health else probe_loop parse pending reached health rest)"
| "probe_loop parse pending reached health (DeadlineHit # rest) = LoopDone reached health"

datatype probe_answer =
    Candidates "resolver_candidate list"
  | CancelledRound
  | RoundRunning

definition probe_candidates ::
  "url_parser \<Rightarrow> resolver_candidate list \<Rightarrow> region \<Rightarrow> string option \<Rightarrow> nat \<Rightarrow> probe_event list \<Rightarrow> bool \<Rightarrow>
    health_tracker \<Rightarrow> probe_answer \<times> health_tracker" where
  "probe_candidates parse candidates area preferred_host_id now events cancel_at_end health =
     (if filter (\<lambda>c. candidate_supports_area c area) candidates = [] then (Candidates [], health)
      else
        let plan = plan_probes candidates area preferred_host_id now health;
            cached = filter (\<lambda>host. host \<in> set (pp_cached plan)) (map rc_host_id (pp_eligible plan));
            pending = filter (\<lambda>host. host \<in> set (pp_due plan)) (map rc_host_id (pp_eligible plan))
        in (case probe_loop parse pending cached (pp_health plan) events of
              LoopWaiting \<Rightarrow> (RoundRunning, pp_health plan)
            | LoopCancelled health' \<Rightarrow> (CancelledRound, health')
            | LoopDone reached health' \<Rightarrow>
                (if cancel_at_end then CancelledRound
                 else Candidates (filter (\<lambda>c. rc_host_id c \<in> set reached) (pp_eligible plan)),
                 health')))"

section \<open>Lemmas\<close>

interpretation ranks: comparison "rank_cmp ranked_ids" for ranked_ids
  unfolding rank_cmp_def by (rule comparison_by_key) (rule natural.comparison_axioms)

lemma expire_old_idem [simp]: "expire_old now (expire_old now m) = expire_old now m"
  by (simp add: expire_old_def hm_retain_def)

lemma recently_healthy_state [simp]:
  "snd (recently_healthy host now m) = expire_old now m"
  "fst (recently_healthy host now (expire_old now m)) = fst (recently_healthy host now m)"
  by (simp_all add: recently_healthy_def Let_def)

lemma probe_due_state [simp]:
  "snd (probe_due host now m) = expire_old now m"
  "fst (probe_due host now (expire_old now m)) = fst (probe_due host now m)"
  by (simp_all add: probe_due_def Let_def)

text \<open>Asking the tracker about every candidate is asking about each one on its own.\<close>

lemma query_all_eq:
  assumes "\<And>host m. snd (query host m) = expire_old now m"
    and "\<And>host m. fst (query host (expire_old now m)) = fst (query host m)"
  shows "query_all query cs (expire_old now m) =
    (filter (\<lambda>host. fst (query host m)) (map rc_host_id cs), expire_old now m)"
  using assms
proof (induction cs)
  case (Cons c cs)
  then show ?case by (cases "query (rc_host_id c) (expire_old now m)") (auto simp: prod_eq_iff Let_def split: prod.split)
qed simp

lemma plan_probes_eq:
  "plan_probes candidates area preferred now health =
    (let eligible = filter (\<lambda>c. candidate_supports_area c area) candidates;
         h = expire_old now health in
     \<lparr>pp_eligible = bound_route_candidates (prefer_host preferred
        (sort_by (rank_cmp (sort_by (health_cmp h now) (map rc_host_id eligible))) eligible)),
      pp_cached = filter (\<lambda>host. fst (recently_healthy host now health)) (map rc_host_id eligible),
      pp_due = filter (\<lambda>host. fst (probe_due host now health)) (map rc_host_id eligible),
      pp_health = h\<rparr>)"
  using query_all_eq [of "\<lambda>host. recently_healthy host now" now _ health]
    query_all_eq [of "\<lambda>host. probe_due host now" now _ health]
  by (simp add: plan_probes_def rank_candidates_def Let_def)

lemma mset_prefer_host [simp]: "mset (prefer_host preferred cs) = mset cs"
  by (auto simp: prefer_host_def split: option.split dest!: take_first_mset)

lemma set_prefer_host [simp]: "set (prefer_host preferred cs) = set cs"
  using mset_prefer_host mset_eq_setD by blast

lemma rank_of_nth:
  assumes "distinct ids" "i < length ids"
  shows "rank_of ids (ids ! i) = i"
proof -
  have "distinct (map fst (rev (zip ids [0 ..< length ids])))"
    using assms(1) by (simp flip: rev_map)
  moreover have "(ids ! i, i) \<in> set (rev (zip ids [0 ..< length ids]))"
    using assms(2) by (auto simp: set_zip)
  ultimately show ?thesis by (simp add: rank_of_def del: rev_map set_rev)
qed

text \<open>Sorting the candidates by the rank of their hosts puts the hosts in the ranked order.\<close>

lemma sort_by_rank:
  assumes "distinct ids" "mset (map rc_host_id cs) = mset ids"
  shows "map rc_host_id (sort_by (rank_cmp ids) cs) = ids"
proof (rule map_sorted_distinct_set_unique [where f = "rank_of ids"])
  let ?sorted = "map rc_host_id (sort_by (rank_cmp ids) cs)"
  have ranks: "map (rank_of ids) ids = [0 ..< length ids]"
    using assms(1) by (intro nth_equalityI) (simp_all add: rank_of_nth)
  have "mset ?sorted = mset ids" using assms(2) by simp
  then have same: "set ?sorted = set ids" "distinct ?sorted"
    using assms(1) mset_eq_setD mset_eq_imp_distinct_iff by blast+
  show "set ?sorted = set ids" by (rule same(1))
  have inj: "inj_on (rank_of ids) (set ids)"
    using ranks by (metis distinct_map distinct_upt)
  then show "inj_on (rank_of ids) (set ?sorted \<union> set ids)" by (simp only: same(1) Un_absorb)
  show "distinct (map (rank_of ids) ?sorted)" "distinct (map (rank_of ids) ids)"
    using same inj assms(1) by (simp_all only: distinct_map)
  show "sorted (map (rank_of ids) ids)" by (simp add: ranks)
  have "sorted_wrt (\<lambda>a b. rank_cmp ids a b \<noteq> Greater) (sort_by (rank_cmp ids) cs)"
    by (rule ranks.sort_by_sorted)
  then show "sorted (map (rank_of ids) ?sorted)"
    by (simp add: sorted_map rank_cmp_def cmp_def sorted_wrt_map) (auto elim!: sorted_wrt_mono_rel [rotated] split: if_splits)
qed

lemma prefer_host_others:
  "filter (\<lambda>c. Some (rc_host_id c) \<noteq> preferred) (prefer_host preferred cs) =
    filter (\<lambda>c. Some (rc_host_id c) \<noteq> preferred) cs"
  by (auto simp: prefer_host_def split: option.split dest!: take_first_SomeD)

lemma prefer_host_first:
  assumes "c \<in> set cs" "Some (rc_host_id c) = preferred"
  shows "\<exists>d rest. prefer_host preferred cs = d # rest \<and> Some (rc_host_id d) = preferred"
proof (cases "take_first (\<lambda>d. rc_host_id d = rc_host_id c) cs")
  case None
  then show ?thesis using assms(1) by auto
next
  case (Some p)
  then show ?thesis
    using assms(2) take_first_SomeD [of "\<lambda>d. rc_host_id d = rc_host_id c" cs "fst p" "snd p"]
    by (cases p) (auto simp: prefer_host_def split: option.split)
qed

text \<open>The loop.\<close>

lemma probe_loop_reached:
  "probe_loop parse pending reached health events = LoopDone reached' health' \<Longrightarrow>
    set reached \<subseteq> set reached'
    \<and> (\<forall>host \<in> set reached'. host \<in> set reached
        \<or> host \<in> set pending \<and> (\<exists>t d. Joined host t d ProbeReady \<in> set events))"
proof (induction parse pending reached health events rule: probe_loop.induct)
  case (3 parse v va reached health host t d outcome rest)
  show ?case
  proof (cases "host \<in> set (v # va)")
    case True
    let ?r = "if outcome = ProbeReady then host # reached else reached"
    have "set ?r \<subseteq> set reached' \<and> (\<forall>x \<in> set reached'. x \<in> set ?r
        \<or> x \<in> set (remove1 host (v # va)) \<and> (\<exists>t d. Joined x t d ProbeReady \<in> set rest))"
      using 3 True by simp
    then show ?thesis
      using True set_remove1_subset [of host "v # va"]
      by (cases "outcome = ProbeReady") (simp_all del: remove1.simps list.set(2), (auto | blast)+)
  next
    case False
    then have "set reached \<subseteq> set reached' \<and> (\<forall>x \<in> set reached'. x \<in> set reached
        \<or> x \<in> set (v # va) \<and> (\<exists>t d. Joined x t d ProbeReady \<in> set rest))"
      using 3 by simp
    then show ?thesis by (simp del: list.set(2)) (auto | blast)+
  qed
next
  case (4 parse v va reached health host rest)
  then show ?case using set_remove1_subset [of host "v # va"] by fastforce
qed (auto split: if_splits)

lemma probe_loop_deadline:
  "DeadlineHit \<in> set events \<Longrightarrow> probe_loop parse pending reached health events \<noteq> LoopWaiting"
  by (induction parse pending reached health events rule: probe_loop.induct) auto

text \<open>The number of events that are not ticks: probes that end one after the other also end the round.\<close>

lemma probe_loop_cancel:
  assumes "pending \<noteq> []"
  shows "probe_loop parse pending reached health (PollTick True # events) = LoopCancelled health"
  using assms by (cases pending) auto

lemma record_outcome_step:
  "\<exists>l. health_step parse health l (record_outcome parse host now elapsed outcome health)"
proof (cases outcome)
  case ProbeReady
  then show ?thesis
    by (auto simp: health_step_def record_outcome_def intro!: exI [of _ "OpSuccess host now elapsed"])
next
  case (ProbeFailed failure)
  then show ?thesis
    by (auto simp: health_step_def record_outcome_def intro!: exI [of _ "OpFailure host now failure"])
next
  case ProbeNeutral
  then show ?thesis
    by (auto simp: health_step_def record_outcome_def intro!: exI [of _ "OpNeutral host now"])
qed

definition loop_health :: "health_tracker \<Rightarrow> loop_result \<Rightarrow> health_tracker" where
  "loop_health health r = (case r of LoopDone _ h \<Rightarrow> h | LoopCancelled h \<Rightarrow> h | LoopWaiting \<Rightarrow> health)"

lemma probe_loop_reachable:
  "reachable init (health_step parse) h0 \<Longrightarrow> reachable init (health_step parse) health \<Longrightarrow>
    reachable init (health_step parse) (loop_health h0 (probe_loop parse pending reached health events))"
proof (induction parse pending reached health events rule: probe_loop.induct)
  case (3 parse v va reached health host t d outcome rest)
  have "reachable init (health_step parse) (record_outcome parse host t d outcome health)"
    using 3(4) record_outcome_step [of parse health host t d outcome] by (auto intro: reach_step)
  then show ?case using 3 by simp
qed (auto simp: loop_health_def)

lemma plan_eligible_subset:
  "set (pp_eligible (plan_probes candidates area preferred now health)) \<subseteq>
    set (filter (\<lambda>c. candidate_supports_area c area) candidates)"
  by (auto simp: plan_probes_eq Let_def bound_route_candidates_def dest!: in_set_takeD)

lemma sorted_wrt_filter_take:
  assumes "sorted_wrt R (filter N xs)"
  shows "sorted_wrt R (filter N (filter Q (take n xs)))"
proof -
  have "sorted_wrt R (filter N (take n xs) @ filter N (drop n xs))"
    using assms by (simp flip: filter_append)
  then have "sorted_wrt R (filter N (take n xs))" by (simp add: sorted_wrt_append)
  then have "sorted_wrt R (filter Q (filter N (take n xs)))" by (rule sorted_wrt_filter)
  then show ?thesis by (simp add: conj_commute)
qed

lemma plan_order:
  assumes "distinct (map rc_host_id candidates)"
  shows "sorted_wrt (\<lambda>a b. health_cmp (expire_old now health) now (rc_host_id a) (rc_host_id b) \<noteq> Greater)
    (filter (\<lambda>c. Some (rc_host_id c) \<noteq> preferred)
      (filter Q (pp_eligible (plan_probes candidates area preferred now health))))"
proof -
  let ?el = "filter (\<lambda>c. candidate_supports_area c area) candidates"
  let ?h = "expire_old now health"
  let ?ranked = "sort_by (health_cmp ?h now) (map rc_host_id ?el)"
  let ?sorted = "sort_by (rank_cmp ?ranked) ?el"
  have "distinct (map rc_host_id ?el)" using assms by (rule distinct_map_filter)
  then have "distinct ?ranked" using mset_sort_by mset_eq_imp_distinct_iff by blast
  then have ids: "map rc_host_id ?sorted = ?ranked"
    by (intro sort_by_rank) simp_all
  have "sorted_wrt (\<lambda>a b. health_cmp ?h now a b \<noteq> Greater) (map rc_host_id ?sorted)"
    unfolding ids by (rule health.sort_by_sorted)
  then have "sorted_wrt (\<lambda>a b. health_cmp ?h now (rc_host_id a) (rc_host_id b) \<noteq> Greater) ?sorted"
    by (simp only: sorted_wrt_map)
  then have "sorted_wrt (\<lambda>a b. health_cmp ?h now (rc_host_id a) (rc_host_id b) \<noteq> Greater)
      (filter (\<lambda>c. Some (rc_host_id c) \<noteq> preferred) (prefer_host preferred ?sorted))"
    unfolding prefer_host_others by (rule sorted_wrt_filter)
  then show ?thesis
    unfolding plan_probes_eq Let_def bound_route_candidates_def probe_plan.select_convs
    by (rule sorted_wrt_filter_take)
qed

lemma plan_preferred_first:
  assumes "c \<in> set (filter (\<lambda>c. rc_host_id c \<in> A) (pp_eligible (plan_probes candidates area (Some p) now health)))"
    and "rc_host_id c = p"
  shows "rc_host_id (hd (filter (\<lambda>c. rc_host_id c \<in> A) (pp_eligible (plan_probes candidates area (Some p) now health)))) = p"
proof -
  obtain cs where eligible: "pp_eligible (plan_probes candidates area (Some p) now health) =
      take MAX_ROUTED_CANDIDATES (prefer_host (Some p) cs)"
    by (simp add: plan_probes_eq Let_def bound_route_candidates_def)
  then have "c \<in> set cs" using assms(1) by (auto dest!: in_set_takeD)
  then obtain d rest where "prefer_host (Some p) cs = d # rest" "rc_host_id d = p"
    using prefer_host_first [of c cs "Some p"] assms(2) by auto
  then show ?thesis
    using assms unfolding eligible by (simp add: MAX_ROUTED_CANDIDATES_def split: if_splits)
qed

lemma cooling_not_used:
  "hm_get (expire_old now m) host = Some h \<Longrightarrow> cooling h now \<Longrightarrow>
    \<not> fst (probe_due host now m) \<and> \<not> fst (recently_healthy host now m)"
  by (auto simp: probe_due_def recently_healthy_def Let_def cooling_def split: option.splits)

lemma probe_candidates_health:
  "snd (probe_candidates parse candidates area preferred now events cancel health) = health
    \<or> (\<exists>pending reached. snd (probe_candidates parse candidates area preferred now events cancel health) =
        loop_health (expire_old now health) (probe_loop parse pending reached (expire_old now health) events))"
proof (cases "filter (\<lambda>c. candidate_supports_area c area) candidates = []")
  case True
  then show ?thesis by (simp add: probe_candidates_def)
next
  case False
  let ?plan = "plan_probes candidates area preferred now health"
  have "snd (probe_candidates parse candidates area preferred now events cancel health) =
      loop_health (pp_health ?plan) (probe_loop parse
        (filter (\<lambda>host. host \<in> set (pp_due ?plan)) (map rc_host_id (pp_eligible ?plan)))
        (filter (\<lambda>host. host \<in> set (pp_cached ?plan)) (map rc_host_id (pp_eligible ?plan)))
        (pp_health ?plan) events)"
    using False by (simp add: probe_candidates_def Let_def loop_health_def split: loop_result.split)
  moreover have "pp_health ?plan = expire_old now health" by (simp add: plan_probes_eq Let_def)
  ultimately show ?thesis by auto
qed

section \<open>Properties\<close>

text \<open>
  C21. The candidates returned are at most three of the given ones; each supports the region and was
  reachable: either it had answered within the last ten minutes, or it was due and its probe was
  answered in this round. A host that is cooling down after failures is never among them. The
  preferred host comes first when it is there, the others are in the order of the health ranking.
\<close>

theorem routed_candidates_reachable:
  assumes "distinct (map rc_host_id candidates)"
    and "probe_candidates parse candidates area preferred now events cancel health = (Candidates cs, health')"
  shows "length cs \<le> 3
    \<and> (\<forall>c \<in> set cs. c \<in> set candidates \<and> candidate_supports_area c area
        \<and> (fst (recently_healthy (rc_host_id c) now health)
           \<or> fst (probe_due (rc_host_id c) now health) \<and> (\<exists>t d. Joined (rc_host_id c) t d ProbeReady \<in> set events))
        \<and> (\<forall>h. hm_get (expire_old now health) (rc_host_id c) = Some h \<longrightarrow> \<not> cooling h now))
    \<and> (\<forall>p. preferred = Some p \<and> p \<in> rc_host_id ` set cs \<longrightarrow> rc_host_id (hd cs) = p)
    \<and> sorted_wrt (\<lambda>a b. health_cmp (expire_old now health) now (rc_host_id a) (rc_host_id b) \<noteq> Greater)
        (filter (\<lambda>c. Some (rc_host_id c) \<noteq> preferred) cs)"
proof (cases "filter (\<lambda>c. candidate_supports_area c area) candidates = []")
  case True
  then have "cs = []" using assms(2) by (simp add: probe_candidates_def)
  then show ?thesis by simp
next
  case False
  let ?plan = "plan_probes candidates area preferred now health"
  let ?cached = "filter (\<lambda>host. host \<in> set (pp_cached ?plan)) (map rc_host_id (pp_eligible ?plan))"
  let ?pending = "filter (\<lambda>host. host \<in> set (pp_due ?plan)) (map rc_host_id (pp_eligible ?plan))"
  obtain reached where loop: "probe_loop parse ?pending ?cached (pp_health ?plan) events = LoopDone reached health'"
    and cs: "cs = filter (\<lambda>c. rc_host_id c \<in> set reached) (pp_eligible ?plan)"
    using assms(2) False by (auto simp: probe_candidates_def Let_def split: loop_result.splits if_splits)
  have reach: "fst (recently_healthy (rc_host_id c) now health)
      \<or> fst (probe_due (rc_host_id c) now health) \<and> (\<exists>t d. Joined (rc_host_id c) t d ProbeReady \<in> set events)"
    if "c \<in> set cs" for c
    using probe_loop_reached [OF loop] that unfolding cs by (auto simp: plan_probes_eq Let_def)
  moreover have "\<not> cooling h now"
    if "c \<in> set cs" "hm_get (expire_old now health) (rc_host_id c) = Some h" for c h
    using cooling_not_used [OF that(2)] reach [OF that(1)] by blast
  moreover have "length cs \<le> 3"
    unfolding cs plan_probes_eq Let_def bound_route_candidates_def MAX_ROUTED_CANDIDATES_def
      probe_plan.select_convs
    by (rule le_trans [OF length_filter_le]) simp
  moreover have "c \<in> set candidates \<and> candidate_supports_area c area" if "c \<in> set cs" for c
    using plan_eligible_subset that by (fastforce simp: cs)
  moreover have "rc_host_id (hd cs) = p" if "preferred = Some p" "p \<in> rc_host_id ` set cs" for p
    using plan_preferred_first [where A = "set reached" and p = p] that unfolding cs by blast
  moreover have "sorted_wrt (\<lambda>a b. health_cmp (expire_old now health) now (rc_host_id a) (rc_host_id b) \<noteq> Greater)
      (filter (\<lambda>c. Some (rc_host_id c) \<noteq> preferred) cs)"
    unfolding cs by (rule plan_order [OF assms(1)])
  ultimately show ?thesis by blast
qed

text \<open>
  A round ends when the deadline passes at the latest, whatever the probes do; a caller that
  asks to cancel at the first tick of a round with probes under way gets no candidates; and however
  it ends, the tracker has changed only through its own operations, so that its bounds still hold.
\<close>

theorem probe_round_ends:
  assumes "reachable health_init (health_step parse) health"
    and "probe_candidates parse candidates area preferred now events cancel health = (answer, health')"
  shows "(DeadlineHit \<in> set events \<longrightarrow> answer \<noteq> RoundRunning)
    \<and> (answer \<noteq> RoundRunning \<and> cancel \<and> (\<exists>c \<in> set candidates. candidate_supports_area c area) \<longrightarrow>
        answer = CancelledRound)
    \<and> reachable health_init (health_step parse) health' \<and> length health' \<le> 128"
proof -
  have expire: "reachable health_init (health_step parse) (expire_old now health)"
    using assms(1)
    by (rule reach_step [where l = "OpRank [] now"]) (simp add: health_step_def rank_candidates_def Let_def)
  have "health' = health \<or> (\<exists>pending reached.
      health' = loop_health (expire_old now health) (probe_loop parse pending reached (expire_old now health) events))"
    using assms(2) probe_candidates_health [of parse candidates area preferred now events cancel health] by simp
  then have "reachable health_init (health_step parse) health'"
    using assms(1) probe_loop_reachable [OF expire expire] by blast
  moreover from this have "length health' \<le> 128"
    using tracker.reachable_inv by (fastforce simp: health_inv_def health_consts)
  moreover have "DeadlineHit \<in> set events \<longrightarrow> answer \<noteq> RoundRunning"
    using assms(2) probe_loop_deadline [of events parse]
    by (auto simp: probe_candidates_def Let_def split: if_splits loop_result.splits)
  moreover have "answer = CancelledRound"
    if "answer \<noteq> RoundRunning" "cancel" "c \<in> set candidates" "candidate_supports_area c area" for c
    using assms(2) that
    by (auto simp: probe_candidates_def Let_def filter_empty_conv split: if_splits loop_result.splits)
  ultimately show ?thesis by blast
qed

section \<open>Witnesses\<close>

text \<open>A host that failed a second ago is preferred, an unknown one answers its probe.\<close>

definition demo_candidates_list :: "resolver_candidate list" where
  "demo_candidates_list =
     [\<lparr>rc_host_id = ''a.b'', rc_origin = ''https://a.b/'', rc_name = ''one'', rc_regions = [Hk]\<rparr>,
      \<lparr>rc_host_id = ''c.d'', rc_origin = ''https://c.d/'', rc_name = ''two'', rc_regions = [RegionAll]\<rparr>]"

definition demo_events :: "probe_event list" where
  "demo_events = [PollTick False, Joined ''c.d'' 8100000000 100000000 (probe_one (Answered 404)), DeadlineHit]"

abbreviation demo_round :: "probe_answer \<times> health_tracker" where
  "demo_round \<equiv> probe_candidates demo_parse demo_candidates_list Hk (Some ''a.b'') 8000000000 demo_events False demo_tracker"

lemma demo_alive: "expire_old 8000000000 demo_tracker = demo_tracker"
  by (simp add: demo_tracker_eq expire_old_def hm_retain_def note_probe_failure_def
      checked_duration_since_def as_secs_def health_consts Let_def)

lemma demo_plan:
  "plan_probes demo_candidates_list Hk (Some ''a.b'') 8000000000 demo_tracker =
    \<lparr>pp_eligible = demo_candidates_list, pp_cached = [], pp_due = [''c.d''], pp_health = demo_tracker\<rparr>"
proof -
  have "\<not> fst (recently_healthy h 8000000000 demo_tracker)"
    "fst (probe_due h 8000000000 demo_tracker) \<longleftrightarrow> h \<noteq> ''a.b''" for h
    by (simp_all add: recently_healthy_def probe_due_def Let_def demo_alive, simp_all add: demo_tracker_eq
        hm_get_def note_probe_failure_def Let_def cooling_def instant_checked_add_def instant_limit_def
        from_secs_def cooldown_secs_after_def health_consts saturating_add32_def fresh_health_def)
  moreover have "sort_by (health_cmp demo_tracker 8000000000) [''a.b'', ''c.d''] = [''c.d'', ''a.b'']"
    by (simp add: demo_tracker_eq health_consts note_probe_failure_def fresh_health_def
        instant_checked_add_def instant_limit_def from_secs_def cooldown_secs_after_def
        saturating_add32_def health_cmp_def health_key_def hm_get_def rank_key_def rank_key_cmp_def
        cmp_def cooling_def)
  moreover have "filter (\<lambda>c. candidate_supports_area c Hk) demo_candidates_list = demo_candidates_list"
    "map rc_host_id demo_candidates_list = [''a.b'', ''c.d'']"
    by (simp_all add: demo_candidates_list_def candidate_supports_area_def)
  moreover have "bound_route_candidates (prefer_host (Some ''a.b'')
      (sort_by (rank_cmp [''c.d'', ''a.b'']) demo_candidates_list)) = demo_candidates_list"
    by (simp add: demo_candidates_list_def rank_cmp_def rank_of_def cmp_def prefer_host_def
        bound_route_candidates_def MAX_ROUTED_CANDIDATES_def)
  ultimately show ?thesis by (simp add: plan_probes_eq Let_def demo_alive)
qed

lemma demo_round_answer: "fst demo_round = Candidates [demo_candidates_list ! 1]"
  unfolding probe_candidates_def demo_plan Let_def
  by (simp add: demo_candidates_list_def candidate_supports_area_def demo_events_def probe_one_def)

lemma demo_distinct: "distinct (map rc_host_id demo_candidates_list)"
  by (simp add: demo_candidates_list_def)

lemma demo_round_pair: "demo_round = (Candidates [demo_candidates_list ! 1], snd demo_round)"
  using demo_round_answer by (simp add: prod_eq_iff)

theorem routed_candidates_reachable_witness:
  "fst demo_round = Candidates [demo_candidates_list ! 1]
    \<and> candidate_supports_area (demo_candidates_list ! 1) Hk"
  using routed_candidates_reachable [OF demo_distinct demo_round_pair] demo_round_answer by simp

theorem probe_round_ends_witness:
  "fst demo_round \<noteq> RoundRunning \<and> length (snd demo_round) \<le> 128"
proof -
  have "reachable health_init (health_step demo_parse) demo_tracker"
    by (rule reach_step [where s = "[]" and l = "OpFailure ''a.b'' 7000000000 Timeout"])
      (auto intro: reach_init simp: health_init_def health_step_def demo_tracker_def)
  then show ?thesis using probe_round_ends [OF _ demo_round_pair] demo_round_answer by simp
qed

end
