(* ===== verification/Playback_Progress.thy ===== *)
theory Playback_Progress
  imports Resolver_Health
begin

text \<open>
  The playback positions that players report (\<open>hls_playback_progress.rs\<close>): one report per HLS
  session, kept for 45 seconds while playback is active and for 30 seconds after it has stopped,
  and the session that a report belongs to, from the library item or from the playlist's address
  (\<open>session_id_from_library_item_id\<close> of \<open>hls_cache.rs\<close>). A \<open>SystemTime\<close> is the number of nanoseconds
  since the epoch, a position the bits of a floating point number, which the tracker only copies.
\<close>

section \<open>State\<close>

definition ACTIVE_PLAYBACK_TTL :: nat where "ACTIVE_PLAYBACK_TTL = from_secs 45"

definition STOPPED_PLAYBACK_TTL :: nat where "STOPPED_PLAYBACK_TTL = from_secs 30"

lemmas progress_consts = ACTIVE_PLAYBACK_TTL_def STOPPED_PLAYBACK_TTL_def from_secs_def

datatype progress_intent = Started | Playing | Seek | Paused | Stopped

definition is_stopped :: "progress_intent \<Rightarrow> bool" where
  "is_stopped intent = (intent = Stopped)"

definition promotes_hls_cache_fill :: "progress_intent \<Rightarrow> bool" where
  "promotes_hls_cache_fill intent = (intent = Started \<or> intent = Playing \<or> intent = Seek)"

record progress_report =
  pr_playback_uri :: string
  pr_library_item_id :: string
  pr_variant_id :: string
  pr_position :: nat
  pr_duration :: "nat option"
  pr_intent :: progress_intent
  pr_reported_at :: nat

record record_result =
  ro_accepted :: bool
  ro_session_id :: string
  ro_message :: string

datatype activity_state = NoActivity | Active | RecentlyStopped

record progress_snapshot =
  ps_state :: activity_state
  ps_message :: string
  ps_session_id :: string
  ps_library_item_id :: string
  ps_variant_id :: string
  ps_playback_uri :: string
  ps_position :: nat
  ps_duration :: "nat option"
  ps_last_intent :: progress_intent
  ps_updated_at :: nat

type_synonym progress_tracker = "(string, progress_snapshot) hmap"

section \<open>Session identifiers\<close>

definition HLS_LIBRARY_ITEM_PREFIX :: string where
  "HLS_LIBRARY_ITEM_PREFIX = ''bilibili.hls.''"

definition is_cache_id_char :: "char \<Rightarrow> bool" where
  "is_cache_id_char c =
     (let b = (of_char c :: nat) in
      (48 \<le> b \<and> b \<le> 57) \<or> (65 \<le> b \<and> b \<le> 90) \<or> (97 \<le> b \<and> b \<le> 122) \<or> c \<in> set ''.-_'')"

definition validate_cache_id :: "string \<Rightarrow> bool" where
  "validate_cache_id v =
     (\<not> (v = [] \<or> v = ''.'' \<or> v = ''..'' \<or> length v > 160 \<or> \<not> list_all is_cache_id_char v))"

definition library_item_id :: "string \<Rightarrow> string" where
  "library_item_id session_id = HLS_LIBRARY_ITEM_PREFIX @ session_id"

definition session_id_from_library_item_id :: "string \<Rightarrow> string option" where
  "session_id_from_library_item_id item_id =
     (case strip_prefix HLS_LIBRARY_ITEM_PREFIX item_id of
        Some session_id \<Rightarrow> if validate_cache_id session_id then Some session_id else None
      | None \<Rightarrow> None)"

text \<open>\<open>Url::path_segments\<close>: the parts of the path after its slash.\<close>

definition path_segments :: "parsed_url \<Rightarrow> string list option" where
  "path_segments url =
     (case strip_prefix ''/'' (pu_path url) of
        Some rest \<Rightarrow> Some (split_on (CHR ''/'') rest)
      | None \<Rightarrow> None)"

definition session_id_from_hls_master_uri :: "url_parser \<Rightarrow> string \<Rightarrow> string option" where
  "session_id_from_hls_master_uri parse uri =
     (case parse uri of
        None \<Rightarrow> None
      | Some url \<Rightarrow>
          if pu_scheme url \<noteq> ''http'' \<and> pu_scheme url \<noteq> ''https'' then None
          else case path_segments url of
            None \<Rightarrow> None
          | Some segments \<Rightarrow>
              if length segments < 3 then None
              else
                let i = length segments - 3 in
                if segments ! i \<noteq> ''hls'' then None
                else
                  let session_id = trim (segments ! (i + 1)) in
                  if session_id = [] then None
                  else if segments ! (i + 2) \<noteq> ''master.m3u8'' then None
                  else Some session_id)"

definition session_id_from_report :: "url_parser \<Rightarrow> progress_report \<Rightarrow> string option" where
  "session_id_from_report parse report =
     (case session_id_from_library_item_id (trim (pr_library_item_id report)) of
        Some session_id \<Rightarrow> Some session_id
      | None \<Rightarrow> session_id_from_hls_master_uri parse (trim (pr_playback_uri report)))"

section \<open>Operations\<close>

fun message_for_intent :: "progress_intent \<Rightarrow> string" where
  "message_for_intent Started = ''Playback started; keeping nearby HLS cache warm.''"
| "message_for_intent Playing = ''Playback is active; keeping nearby HLS cache warm.''"
| "message_for_intent Seek = ''Playback seek reported; refreshing nearby HLS cache priority.''"
| "message_for_intent Paused = ''Playback paused; keeping the HLS cache session recent.''"
| "message_for_intent Stopped = ''Playback stopped; keeping the HLS cache session recent briefly.''"

definition empty_snapshot :: progress_snapshot where
  "empty_snapshot = \<lparr>ps_state = NoActivity, ps_message = ''No active HLS playback position reported.'',
     ps_session_id = [], ps_library_item_id = [], ps_variant_id = [], ps_playback_uri = [],
     ps_position = 0, ps_duration = None, ps_last_intent = Stopped, ps_updated_at = 0\<rparr>"

fun state_ttl :: "activity_state \<Rightarrow> nat" where
  "state_ttl Active = ACTIVE_PLAYBACK_TTL"
| "state_ttl RecentlyStopped = STOPPED_PLAYBACK_TTL"
| "state_ttl NoActivity = 0"

definition unexpired :: "nat \<Rightarrow> progress_snapshot \<Rightarrow> bool" where
  "unexpired now s =
     (case instant_checked_add (ps_updated_at s) (state_ttl (ps_state s)) of
        Some expires_at \<Rightarrow> expires_at > now
      | None \<Rightarrow> False)"

definition prune_reports :: "nat \<Rightarrow> progress_tracker \<Rightarrow> progress_tracker" where
  "prune_reports now m = hm_retain (\<lambda>_ s. unexpired now s) m"

text \<open>\<open>max_by_key\<close> returns the last of the largest elements.\<close>

fun max_by_updated :: "progress_snapshot list \<Rightarrow> progress_snapshot option" where
  "max_by_updated [] = None"
| "max_by_updated (s # ss) =
     (case max_by_updated ss of
        None \<Rightarrow> Some s
      | Some t \<Rightarrow> if ps_updated_at t < ps_updated_at s then Some s else Some t)"

definition latest_snapshot :: "progress_tracker \<Rightarrow> progress_snapshot option" where
  "latest_snapshot m =
     (case max_by_updated (filter (\<lambda>s. ps_state s = Active) (hm_values m)) of
        Some s \<Rightarrow> Some s
      | None \<Rightarrow> max_by_updated (hm_values m))"

definition snapshot_of :: "progress_report \<Rightarrow> string \<Rightarrow> progress_snapshot" where
  "snapshot_of report session_id =
     \<lparr>ps_state = (if is_stopped (pr_intent report) then RecentlyStopped else Active),
      ps_message = message_for_intent (pr_intent report),
      ps_session_id = session_id,
      ps_library_item_id = trim (pr_library_item_id report),
      ps_variant_id = trim (pr_variant_id report),
      ps_playback_uri = trim (pr_playback_uri report),
      ps_position = pr_position report,
      ps_duration = pr_duration report,
      ps_last_intent = pr_intent report,
      ps_updated_at = pr_reported_at report\<rparr>"

definition record_progress ::
  "url_parser \<Rightarrow> progress_report \<Rightarrow> progress_tracker \<Rightarrow> record_result \<times> progress_tracker" where
  "record_progress parse report m =
     (case session_id_from_report parse report of
        None \<Rightarrow> (\<lparr>ro_accepted = False, ro_session_id = [],
                  ro_message = ''Playback URI does not identify an HLS cache session.''\<rparr>, m)
      | Some session_id \<Rightarrow>
          (\<lparr>ro_accepted = True, ro_session_id = session_id, ro_message = ''Playback progress recorded.''\<rparr>,
           hm_insert session_id (snapshot_of report session_id) (prune_reports (pr_reported_at report) m)))"

definition progress_snapshot_at :: "nat \<Rightarrow> progress_tracker \<Rightarrow> progress_snapshot \<times> progress_tracker" where
  "progress_snapshot_at now m =
     (let m1 = prune_reports now m in
      (case latest_snapshot m1 of Some s \<Rightarrow> s | None \<Rightarrow> empty_snapshot, m1))"

definition snapshot_for_session_at ::
  "string \<Rightarrow> nat \<Rightarrow> progress_tracker \<Rightarrow> progress_snapshot option \<times> progress_tracker" where
  "snapshot_for_session_at session_id now m =
     (let m1 = prune_reports now m in (hm_get m1 session_id, m1))"

definition remove_session :: "string \<Rightarrow> progress_tracker \<Rightarrow> progress_tracker" where
  "remove_session session_id m = hm_remove session_id m"

section \<open>Addresses of playlists\<close>

text \<open>\<open>hls_master_playlist_uri\<close> of \<open>playback.rs\<close>; the characters of a cache identifier need no
  percent encoding, so \<open>urlencoding::encode\<close> leaves them.\<close>

definition trim_end_slashes :: "string \<Rightarrow> string" where
  "trim_end_slashes s = rev (dropWhile (\<lambda>c. c = CHR ''/'') (rev s))"

definition hls_master_playlist_uri :: "(string \<Rightarrow> string) \<Rightarrow> string \<Rightarrow> string \<Rightarrow> string" where
  "hls_master_playlist_uri encode base_uri session_id =
     trim_end_slashes base_uri @ ''/hls/'' @ encode session_id @ ''/master.m3u8''"

section \<open>Runs\<close>

datatype progress_op =
    OpReport progress_report
  | OpSnapshot nat
  | OpSession string nat
  | OpRemove string

fun progress_apply :: "url_parser \<Rightarrow> progress_op \<Rightarrow> progress_tracker \<Rightarrow> progress_tracker" where
  "progress_apply parse (OpReport report) m = snd (record_progress parse report m)"
| "progress_apply parse (OpSnapshot now) m = snd (progress_snapshot_at now m)"
| "progress_apply parse (OpSession session_id now) m = snd (snapshot_for_session_at session_id now m)"
| "progress_apply parse (OpRemove session_id) m = remove_session session_id m"

definition progress_step :: "url_parser \<Rightarrow> progress_tracker \<Rightarrow> progress_op \<Rightarrow> progress_tracker \<Rightarrow> bool" where
  "progress_step parse m l m' \<longleftrightarrow> m' = progress_apply parse l m"

definition progress_init :: "progress_tracker \<Rightarrow> bool" where
  "progress_init m \<longleftrightarrow> m = []"

definition snapshot_ok :: "string \<Rightarrow> progress_snapshot \<Rightarrow> bool" where
  "snapshot_ok k s \<longleftrightarrow>
     ps_session_id s = k \<and> ps_state s = (if ps_last_intent s = Stopped then RecentlyStopped else Active)"

definition progress_inv :: "progress_tracker \<Rightarrow> bool" where
  "progress_inv m \<longleftrightarrow> hm_wf m \<and> (\<forall>k s. hm_get m k = Some s \<longrightarrow> snapshot_ok k s)"

lemma snapshot_of_ok: "snapshot_ok k (snapshot_of report k)"
  by (simp add: snapshot_ok_def snapshot_of_def is_stopped_def)

lemma prune_reports_get:
  "hm_wf m \<Longrightarrow> hm_get (prune_reports now m) k = Some s \<longleftrightarrow> hm_get m k = Some s \<and> unexpired now s"
  by (auto simp: prune_reports_def hm_get_retain split: option.splits)

lemma hm_wf_prune [simp]: "hm_wf m \<Longrightarrow> hm_wf (prune_reports now m)"
  by (simp add: prune_reports_def)

lemma prune_reports_inv: "progress_inv m \<Longrightarrow> progress_inv (prune_reports now m)"
  by (simp add: progress_inv_def prune_reports_get)

lemma progress_insert_inv: "progress_inv m \<Longrightarrow> progress_inv (hm_insert k (snapshot_of report k) m)"
  by (simp add: progress_inv_def snapshot_of_ok)

lemma progress_apply_inv: "progress_inv m \<Longrightarrow> progress_inv (progress_apply parse l m)"
proof (cases l)
  case (OpReport report)
  then show "progress_inv m \<Longrightarrow> ?thesis"
    by (auto simp: record_progress_def prune_reports_inv progress_insert_inv split: option.split)
qed (auto simp: progress_snapshot_at_def snapshot_for_session_at_def Let_def prune_reports_inv remove_session_def,
  auto simp: progress_inv_def split: if_splits)

interpretation progress: step_system progress_init "progress_step parse" progress_inv for parse
  by unfold_locales (auto simp: progress_init_def progress_step_def progress_apply_inv, simp add: progress_inv_def)

section \<open>Lemmas\<close>

lemma max_by_updated_spec:
  "ss \<noteq> [] \<Longrightarrow> \<exists>s. max_by_updated ss = Some s \<and> s \<in> set ss \<and> (\<forall>t \<in> set ss. ps_updated_at t \<le> ps_updated_at s)"
proof (induction ss)
  case (Cons s ss)
  show ?case
  proof (cases "ss = []")
    case False
    then obtain t where "max_by_updated ss = Some t" "t \<in> set ss" "\<forall>u \<in> set ss. ps_updated_at u \<le> ps_updated_at t"
      using Cons.IH by blast
    then show ?thesis by (cases "ps_updated_at t < ps_updated_at s") force+
  qed simp
qed simp

lemma hm_values_iff: "hm_wf m \<Longrightarrow> s \<in> set (hm_values m) \<longleftrightarrow> (\<exists>k. hm_get m k = Some s)"
  by (force simp: hm_values_def hm_get_Some_iff)

lemma cache_id_char_plain:
  "is_cache_id_char c \<Longrightarrow> c \<noteq> CHR ''/'' \<and> \<not> is_whitespace c"
  by (auto simp: is_cache_id_char_def is_whitespace_def Let_def)

lemma trim_plain: "list_all (\<lambda>c. \<not> is_whitespace c) s \<Longrightarrow> trim s = s"
proof -
  assume plain: "list_all (\<lambda>c. \<not> is_whitespace c) s"
  then have "dropWhile is_whitespace s = s" by (cases s) auto
  moreover have "dropWhile is_whitespace (rev s) = rev s"
    using plain by (cases s rule: rev_cases) (auto simp: list_all_iff)
  ultimately show ?thesis by (simp add: trim_def)
qed

lemma validate_cache_id_chars:
  "validate_cache_id v \<Longrightarrow> v \<noteq> [] \<and> CHR ''/'' \<notin> set v \<and> list_all (\<lambda>c. \<not> is_whitespace c) v"
  by (auto simp: validate_cache_id_def list_all_iff dest!: cache_id_char_plain)

lemma session_id_from_master_path:
  assumes "validate_cache_id session_id" "parse uri = Some url"
    and "pu_scheme url = ''http'' \<or> pu_scheme url = ''https''"
    and "pu_path url = base @ ''/hls/'' @ session_id @ ''/master.m3u8''" "base = [] \<or> hd base = CHR ''/''"
  shows "session_id_from_hls_master_uri parse uri = Some session_id"
proof -
  note v = validate_cache_id_chars [OF assms(1)]
  have tail: "split_on (CHR ''/'') (''hls/'' @ session_id @ ''/master.m3u8'') = [''hls'', session_id, ''master.m3u8'']"
    using split_on_append [of "CHR ''/''" session_id "''master.m3u8''"] v by simp
  have "\<exists>ps. path_segments url = Some (ps @ [''hls'', session_id, ''master.m3u8''])"
  proof (cases base)
    case Nil
    then have "path_segments url = Some ([] @ [''hls'', session_id, ''master.m3u8''])"
      using assms(4) tail by (simp add: path_segments_def strip_prefix_def)
    then show ?thesis by blast
  next
    case (Cons c rest)
    then have "pu_path url = ''/'' @ rest @ CHR ''/'' # ''hls/'' @ session_id @ ''/master.m3u8''"
      using assms(4,5) by simp
    then have "path_segments url = Some (split_on (CHR ''/'') (rest @ CHR ''/'' # ''hls/'' @ session_id @ ''/master.m3u8''))"
      by (simp only: path_segments_def strip_prefix_append option.case)
    then show ?thesis
      using split_on_prefix [of "CHR ''/''" rest "''hls/'' @ session_id @ ''/master.m3u8''"] tail by metis
  qed
  then obtain ps where "path_segments url = Some (ps @ [''hls'', session_id, ''master.m3u8''])" by blast
  then show ?thesis
    using assms(2,3) v by (auto simp: session_id_from_hls_master_uri_def nth_append trim_plain Let_def)
qed

section \<open>Properties\<close>

text \<open>
  A report finds the session it belongs to: a library item built for a session names that session,
  and so does the address of its master playlist, below whatever path the server is published, for
  every identifier that a cache directory can have.
\<close>

theorem report_names_its_session:
  assumes "validate_cache_id session_id"
    and "trim (pr_library_item_id report) = library_item_id session_id
      \<or> session_id_from_library_item_id (trim (pr_library_item_id report)) = None
        \<and> trim (pr_playback_uri report) = hls_master_playlist_uri encode base_uri session_id
        \<and> parse (hls_master_playlist_uri encode base_uri session_id) = Some url
        \<and> (pu_scheme url = ''http'' \<or> pu_scheme url = ''https'')
        \<and> pu_path url = base_path @ ''/hls/'' @ session_id @ ''/master.m3u8''
        \<and> (base_path = [] \<or> hd base_path = CHR ''/'')"
  shows "session_id_from_report parse report = Some session_id
    \<and> fst (record_progress parse report m) =
        \<lparr>ro_accepted = True, ro_session_id = session_id, ro_message = ''Playback progress recorded.''\<rparr>
    \<and> hm_get (snd (record_progress parse report m)) session_id = Some (snapshot_of report session_id)"
proof -
  have "session_id_from_report parse report = Some session_id"
    using assms(2)
  proof
    assume "trim (pr_library_item_id report) = library_item_id session_id"
    then show ?thesis
      using assms(1) by (simp add: session_id_from_report_def session_id_from_library_item_id_def library_item_id_def)
  next
    assume r: "session_id_from_library_item_id (trim (pr_library_item_id report)) = None
        \<and> trim (pr_playback_uri report) = hls_master_playlist_uri encode base_uri session_id
        \<and> parse (hls_master_playlist_uri encode base_uri session_id) = Some url
        \<and> (pu_scheme url = ''http'' \<or> pu_scheme url = ''https'')
        \<and> pu_path url = base_path @ ''/hls/'' @ session_id @ ''/master.m3u8''
        \<and> (base_path = [] \<or> hd base_path = CHR ''/'')"
    then show ?thesis
      using session_id_from_master_path [OF assms(1), of parse _ url base_path]
      by (simp add: session_id_from_report_def)
  qed
  then show ?thesis by (simp add: record_progress_def)
qed

text \<open>
  Asked at any time, in any state it can reach, the tracker answers with the latest active report
  of the last 45 seconds; only when there is none with the latest report of playback that stopped in
  the last 30 seconds; and with the empty answer exactly when there is neither. A session's own
  report is found exactly as long as it has not expired.
\<close>

theorem snapshot_prefers_active:
  assumes "reachable progress_init (progress_step parse) m"
    and "\<forall>k s. hm_get m k = Some s \<longrightarrow> ps_updated_at s + from_secs 45 < instant_limit"
    and "live = {s. \<exists>k. hm_get m k = Some s
        \<and> now < ps_updated_at s + from_secs (if ps_last_intent s = Stopped then 30 else 45)}"
    and "s = fst (progress_snapshot_at now m)"
  shows "(s = empty_snapshot \<and> live = {}
      \<or> s \<in> live \<and> ps_last_intent s \<noteq> Stopped \<and> (\<forall>t \<in> live. ps_last_intent t \<noteq> Stopped \<longrightarrow> ps_updated_at t \<le> ps_updated_at s)
      \<or> s \<in> live \<and> (\<forall>t \<in> live. ps_last_intent t = Stopped \<and> ps_updated_at t \<le> ps_updated_at s))
    \<and> (\<forall>k t. fst (snapshot_for_session_at k now m) = Some t \<longleftrightarrow> t \<in> live \<and> ps_session_id t = k)"
proof -
  have inv: "progress_inv m" using assms(1) by (rule progress.reachable_inv)
  then have wf: "hm_wf m" by (simp add: progress_inv_def)
  have state: "ps_state s = (if ps_last_intent s = Stopped then RecentlyStopped else Active)" "ps_session_id s = k"
    if "hm_get m k = Some s" for k s
    using inv that by (auto simp: progress_inv_def snapshot_ok_def)
  have fresh: "unexpired now s \<longleftrightarrow> now < ps_updated_at s + from_secs (if ps_last_intent s = Stopped then 30 else 45)"
    if "hm_get m k = Some s" for k s
    using assms(2) that state [OF that]
    by (fastforce simp: unexpired_def progress_consts instant_checked_add_def)
  have live: "t \<in> live \<longleftrightarrow> (\<exists>k. hm_get (prune_reports now m) k = Some t)" for t
    using fresh by (auto simp: assms(3) prune_reports_get [OF wf])
  let ?vs = "hm_values (prune_reports now m)"
  have vs: "set ?vs = live" using wf by (auto simp: hm_values_iff live)
  have active: "set (filter (\<lambda>s. ps_state s = Active) ?vs) = {t \<in> live. ps_last_intent t \<noteq> Stopped}"
    using state by (auto simp: vs) (auto simp: assms(3) split: if_splits)
  have "(case latest_snapshot (prune_reports now m) of Some s \<Rightarrow> s | None \<Rightarrow> empty_snapshot) = s"
    by (simp add: assms(4) progress_snapshot_at_def Let_def)
  then have choice: "s = empty_snapshot \<and> live = {}
      \<or> s \<in> live \<and> ps_last_intent s \<noteq> Stopped \<and> (\<forall>t \<in> live. ps_last_intent t \<noteq> Stopped \<longrightarrow> ps_updated_at t \<le> ps_updated_at s)
      \<or> s \<in> live \<and> (\<forall>t \<in> live. ps_last_intent t = Stopped \<and> ps_updated_at t \<le> ps_updated_at s)"
    using max_by_updated_spec [of ?vs] max_by_updated_spec [of "filter (\<lambda>s. ps_state s = Active) ?vs"] active vs
    by (cases "filter (\<lambda>s. ps_state s = Active) ?vs = []"; cases "?vs = []")
      (auto simp: latest_snapshot_def filter_empty_conv)
  have "fst (snapshot_for_session_at k now m) = Some t \<longleftrightarrow> t \<in> live \<and> ps_session_id t = k" for k t
    using state by (auto simp: snapshot_for_session_at_def Let_def live prune_reports_get [OF wf])
  with choice show ?thesis by blast
qed

section \<open>Witnesses\<close>

definition demo_report :: "string \<Rightarrow> progress_intent \<Rightarrow> nat \<Rightarrow> progress_report" where
  "demo_report item intent now = \<lparr>pr_playback_uri = '' http://h/x/hls/s1/master.m3u8'', pr_library_item_id = item,
     pr_variant_id = [], pr_position = 7, pr_duration = None, pr_intent = intent, pr_reported_at = now\<rparr>"

definition demo_playlist_url :: parsed_url where
  "demo_playlist_url = \<lparr>pu_scheme = ''http'', pu_username = [], pu_password = None, pu_host = Some (Domain ''h''),
     pu_port = None, pu_path = ''/x/hls/s1/master.m3u8'', pu_query = None, pu_fragment = None,
     pu_origin = ''http://h''\<rparr>"

definition demo_playlist_parse :: url_parser where
  "demo_playlist_parse s = (if s = ''http://h/x/hls/s1/master.m3u8'' then Some demo_playlist_url else None)"

theorem report_names_its_session_witness:
  "session_id_from_report demo_playlist_parse (demo_report ''plain.item'' Playing 5) = Some ''s1''"
proof -
  have "validate_cache_id ''s1''" by code_simp
  moreover have "session_id_from_library_item_id (trim (pr_library_item_id (demo_report ''plain.item'' Playing 5))) = None"
    "trim (pr_playback_uri (demo_report ''plain.item'' Playing 5)) = hls_master_playlist_uri (\<lambda>s. s) ''http://h/x//'' ''s1''"
    "hls_master_playlist_uri (\<lambda>s. s) ''http://h/x//'' ''s1'' = ''http://h/x/hls/s1/master.m3u8''"
    by code_simp+
  ultimately show ?thesis
    using report_names_its_session [of "''s1''" "demo_report ''plain.item'' Playing 5" "\<lambda>s. s" "''http://h/x//''"
        demo_playlist_parse demo_playlist_url "''/x''" "[]"]
    by (simp add: demo_playlist_parse_def demo_playlist_url_def)
qed

definition demo_progress :: progress_tracker where
  "demo_progress = snd (record_progress demo_playlist_parse (demo_report ''bilibili.hls.s2'' Stopped 6000000000)
     (snd (record_progress demo_playlist_parse (demo_report ''bilibili.hls.s1'' Playing 5000000000) [])))"

lemma demo_sessions:
  "session_id_from_report demo_playlist_parse (demo_report ''bilibili.hls.s1'' Playing 5000000000) = Some ''s1''"
  "session_id_from_report demo_playlist_parse (demo_report ''bilibili.hls.s2'' Stopped 6000000000) = Some ''s2''"
  unfolding session_id_from_report_def demo_report_def progress_report.select_convs
  by code_simp+

lemma demo_progress_eq:
  "demo_progress =
    [(''s1'', snapshot_of (demo_report ''bilibili.hls.s1'' Playing 5000000000) ''s1''),
     (''s2'', snapshot_of (demo_report ''bilibili.hls.s2'' Stopped 6000000000) ''s2'')]"
proof -
  have "unexpired 6000000000 (snapshot_of (demo_report ''bilibili.hls.s1'' Playing 5000000000) ''s1'')"
    by (simp add: unexpired_def snapshot_of_def demo_report_def is_stopped_def progress_consts
        instant_checked_add_def instant_limit_def)
  moreover have "pr_reported_at (demo_report item intent now) = now" for item intent now
    by (simp add: demo_report_def)
  ultimately show ?thesis
    by (simp add: demo_progress_def record_progress_def demo_sessions prune_reports_def hm_retain_def hm_insert_def)
qed

lemma demo_progress_reachable: "reachable progress_init (progress_step demo_playlist_parse) demo_progress"
proof -
  have "reachable progress_init (progress_step demo_playlist_parse)
      (snd (record_progress demo_playlist_parse (demo_report ''bilibili.hls.s1'' Playing 5000000000) []))"
    by (rule reach_step [where s = "[]" and l = "OpReport (demo_report ''bilibili.hls.s1'' Playing 5000000000)"])
      (auto intro: reach_init simp: progress_init_def progress_step_def)
  then show ?thesis
    by (rule reach_step [where l = "OpReport (demo_report ''bilibili.hls.s2'' Stopped 6000000000)"])
      (simp add: progress_step_def demo_progress_def)
qed

lemma active_choice:
  "s = e \<and> L = {} \<or> s \<in> L \<and> P s \<noteq> c \<and> X \<or> s \<in> L \<and> (\<forall>t \<in> L. P t = c \<and> Y t) \<Longrightarrow>
    a \<in> L \<Longrightarrow> P a \<noteq> c \<Longrightarrow> s \<in> L \<and> P s \<noteq> c"
  by blast

text \<open>The session that still plays is reported although the other one was heard of later.\<close>

theorem snapshot_prefers_active_witness:
  "ps_session_id (fst (progress_snapshot_at 7000000000 demo_progress)) = ''s1''"
proof -
  have "\<forall>k s. hm_get demo_progress k = Some s \<longrightarrow> ps_updated_at s + from_secs 45 < instant_limit"
    by (simp add: demo_progress_eq hm_get_def snapshot_of_def demo_report_def from_secs_def instant_limit_def)
  note spec = snapshot_prefers_active [OF demo_progress_reachable this refl refl, of 7000000000]
  define a where "a = snapshot_of (demo_report ''bilibili.hls.s1'' Playing 5000000000) ''s1''"
  define b where "b = snapshot_of (demo_report ''bilibili.hls.s2'' Stopped 6000000000) ''s2''"
  have ab: "ps_last_intent a = Playing" "ps_session_id a = ''s1''" "ps_updated_at a = 5000000000"
    "ps_last_intent b = Stopped"
    by (simp_all add: a_def b_def snapshot_of_def demo_report_def)
  have only: "hm_get demo_progress k = Some s \<Longrightarrow> s = a \<or> s = b" for k s
    by (auto simp: demo_progress_eq hm_get_def a_def b_def split: if_splits)
  have "hm_get demo_progress ''s1'' = Some a" by (simp add: demo_progress_eq hm_get_def a_def)
  then have "\<exists>k. hm_get demo_progress k = Some a
      \<and> 7000000000 < ps_updated_at a + from_secs (if ps_last_intent a = Stopped then 30 else 45)"
    by (intro exI [of _ "''s1''"]) (simp add: ab from_secs_def)
  then have in_live: "a \<in> {s. \<exists>k. hm_get demo_progress k = Some s
      \<and> 7000000000 < ps_updated_at s + from_secs (if ps_last_intent s = Stopped then 30 else 45)}" (is "_ \<in> ?live")
    by simp
  have "ps_last_intent a \<noteq> Stopped" using ab(1) by simp
  from active_choice [OF spec [THEN conjunct1] in_live this]
  have "fst (progress_snapshot_at 7000000000 demo_progress) = a" using only ab(4) by blast
  then show ?thesis using ab(2) by simp
qed

end
