(* ===== verification/Task_Model.thy ===== *)
theory Task_Model
  imports Complex_Main Playback_Progress
begin

text \<open>
  The data of the task registry (\<open>task_registry.rs\<close>, the messages of \<open>cache_control.proto\<close>): tasks with
  their results and playback sessions, the options of a request, and the key by which a request is
  recognised as one that is already being worked on. A message field that the registry only
  copies is kept as text; a \<open>Timestamp\<close> is its pair of seconds and nanoseconds.
\<close>

section \<open>Messages\<close>

datatype task_kind = KindUnspecified | BilibiliDownload | LibraryRescan | BilibiliProgressivePlayback

datatype task_state = StateUnspecified | Queued | Running | Succeeded | Failed | CancelRequested
  | Cancelled | Planned | Preparing | Playable | Completed

datatype fill_state = FillUnspecified | FillQueued | Filling | FillPreempted | FillRetrying
  | FillBlockedQuota | FillCompleted | FillSourceUnavailable | FillFailed | FillCancelled

datatype fill_failure = FailureUnspecified | FailureSafety | FailurePersistence | FailureNetwork
  | FailureSourceUnavailable

type_synonym timestamp = "int \<times> int"

text \<open>A floating point number that is finite, with its value, or not.\<close>

datatype float64 = Finite rat | NotFinite

record playback_source =
  so_item_id :: string
  so_variant_id :: string
  so_protocol :: int
  so_uri :: string
  so_expires_at :: "timestamp option"

record playback_session =
  se_id :: string
  se_selected_variant_id :: string
  se_details :: string

record fill_status =
  fl_state :: fill_state
  fl_failure_kind :: fill_failure
  fl_completed_bytes :: nat
  fl_total_bytes :: nat
  fl_total_bytes_known :: bool
  fl_representation_id :: string
  fl_message :: string

record result_item =
  ri_id :: string
  ri_selection_id :: string
  ri_title :: string
  ri_subtitle :: string
  ri_source_kind :: string
  ri_content_id :: string
  ri_index :: nat
  ri_state :: task_state
  ri_message :: string
  ri_library_item_id :: string
  ri_playback_source :: "playback_source option"
  ri_playback_session :: "playback_session option"
  ri_identity :: "string option"
  ri_fill_status :: "fill_status option"

record task =
  tk_id :: string
  tk_kind :: task_kind
  tk_state :: task_state
  tk_source :: string
  tk_title :: string
  tk_progress :: float64
  tk_downloaded_bytes :: int
  tk_total_bytes :: int
  tk_message :: string
  tk_library_item_id :: string
  tk_created_at :: "timestamp option"
  tk_updated_at :: "timestamp option"
  tk_finished_at :: "timestamp option"
  tk_playback_source :: "playback_source option"
  tk_playback_session :: "playback_session option"
  tk_selection :: "string option"
  tk_result_items :: "result_item list"
  tk_fill_status :: "fill_status option"

record candidate_record =
  cd_selection_id :: string
  cd_title :: string
  cd_subtitle :: string
  cd_source_kind :: string
  cd_content_id :: string
  cd_identity :: string
  cd_index :: nat
  cd_duration_seconds :: "nat option"

record download_options =
  do_quality_preference :: string
  do_encoding_preference :: string
  do_prefer_tv_api :: bool
  do_download_subtitles :: bool
  do_download_danmaku :: bool
  do_audio_language :: string
  do_subtitle_ai_policy :: int
  do_download_cover :: bool
  do_danmaku_formats :: "int list"
  do_download_mode :: int

record playback_policy_message =
  pm_transcoding_preference :: int
  pm_compatible_variant_preference :: int
  pm_weak_network_preference :: int

record playback_options =
  po_quality_preference :: string
  po_encoding_preference :: string
  po_prefer_tv_api :: bool
  po_audio_language :: string
  po_playback_policy :: "playback_policy_message option"

record request_context =
  rx_api_mode :: int
  rx_credential_profile_id :: string

section \<open>States\<close>

definition is_active :: "task_state \<Rightarrow> bool" where
  "is_active state = (state \<in> {Queued, Running, CancelRequested, Planned, Preparing})"

definition is_terminal :: "task_state \<Rightarrow> bool" where
  "is_terminal state = (state \<in> {Succeeded, Failed, Cancelled, Completed})"

definition clear_result_playback_metadata ::
  "task_state \<Rightarrow> string \<Rightarrow> result_item list \<Rightarrow> result_item list" where
  "clear_result_playback_metadata terminal_state terminal_message items =
     map (\<lambda>item.
       (if ri_state item = Failed \<or> ri_state item = Cancelled then item
        else item\<lparr>ri_state := terminal_state, ri_message := terminal_message\<rparr>)
       \<lparr>ri_library_item_id := [], ri_playback_source := None, ri_playback_session := None\<rparr>) items"

section \<open>HLS sessions of a task\<close>

definition primary_hls_session_id :: "task \<Rightarrow> string option" where
  "primary_hls_session_id task =
     (case tk_playback_session task of
        Some session \<Rightarrow> Some (se_id session)
      | None \<Rightarrow> map_option so_item_id (tk_playback_source task))"

definition hls_session_identity :: "string \<Rightarrow> string list" where
  "hls_session_identity v =
     (if v = [] then []
      else [case session_id_from_library_item_id v of Some session_id \<Rightarrow> session_id | None \<Rightarrow> v])"

definition result_item_hls_session_ids :: "result_item \<Rightarrow> string set" where
  "result_item_hls_session_ids item = set (
     (case ri_playback_session item of Some session \<Rightarrow> hls_session_identity (se_id session) | None \<Rightarrow> [])
     @ (case ri_playback_source item of Some source \<Rightarrow> hls_session_identity (so_item_id source) | None \<Rightarrow> [])
     @ (if ri_playback_source item \<noteq> None \<or> ri_playback_session item \<noteq> None
        then hls_session_identity (ri_id item) else []))"

text \<open>The source sorts the identifiers and drops duplicates; here they are a set.\<close>

definition playback_hls_session_ids :: "task \<Rightarrow> string set" where
  "playback_hls_session_ids task =
     set_option (primary_hls_session_id task)
     \<union> (\<Union>item \<in> set (tk_result_items task). result_item_hls_session_ids item)"

section \<open>Keys of requests\<close>

definition normalize :: "string \<Rightarrow> string" where
  "normalize v = trim v"

definition normalize_option_string :: "string \<Rightarrow> string" where
  "normalize_option_string v = map ascii_lower (trim v)"

definition normalize_subtitle_ai_policy_key :: "int \<Rightarrow> int" where
  "normalize_subtitle_ai_policy_key v = (if v = 0 \<or> v = 1 then 0 else v)"

fun dedup :: "'a list \<Rightarrow> 'a list" where
  "dedup [] = []"
| "dedup [x] = [x]"
| "dedup (x # y # xs) = (if x = y then dedup (y # xs) else x # dedup (y # xs))"

definition normalize_danmaku_format_keys :: "int list \<Rightarrow> int list" where
  "normalize_danmaku_format_keys vs = dedup (sort (filter (\<lambda>v. v \<noteq> 0) vs))"

definition normalize_download_mode_key :: "int \<Rightarrow> int" where
  "normalize_download_mode_key v = (if v = 0 \<or> v = 1 then 1 else v)"

text \<open>The wire format of a message whose fields are \<open>int32\<close>: a field that is zero is left out.\<close>

fun varint :: "nat \<Rightarrow> nat list" where
  "varint n = (if n < 128 then [n] else (128 + n mod 128) # varint (n div 128))"

declare varint.simps [simp del]

definition encode_int32 :: "nat \<Rightarrow> int \<Rightarrow> nat list" where
  "encode_int32 field v = (if v = 0 then [] else (8 * field) # varint (nat (v mod 18446744073709551616)))"

definition encode_policy :: "playback_policy_message \<Rightarrow> nat list" where
  "encode_policy p = encode_int32 1 (pm_transcoding_preference p)
     @ encode_int32 2 (pm_compatible_variant_preference p)
     @ encode_int32 3 (pm_weak_network_preference p)"

record active_key =
  ak_kind :: task_kind
  ak_source :: string
  ak_quality_preference :: string
  ak_encoding_preference :: string
  ak_audio_language :: string
  ak_prefer_tv_api :: bool
  ak_download_subtitles :: bool
  ak_download_danmaku :: bool
  ak_subtitle_ai_policy :: int
  ak_download_cover :: bool
  ak_danmaku_formats :: "int list"
  ak_download_mode :: int
  ak_playback_policy :: "nat list"
  ak_api_mode :: int
  ak_credential_profile_id :: string
  ak_candidates :: "candidate_record list"

definition key_new :: "task_kind \<Rightarrow> string \<Rightarrow> active_key" where
  "key_new kind source = \<lparr>ak_kind = kind, ak_source = normalize source, ak_quality_preference = [],
     ak_encoding_preference = [], ak_audio_language = [], ak_prefer_tv_api = False,
     ak_download_subtitles = False, ak_download_danmaku = False, ak_subtitle_ai_policy = 0,
     ak_download_cover = False, ak_danmaku_formats = [], ak_download_mode = 0, ak_playback_policy = [],
     ak_api_mode = 0, ak_credential_profile_id = [], ak_candidates = []\<rparr>"

definition key_bind ::
  "request_context option \<Rightarrow> candidate_record list \<Rightarrow> active_key \<Rightarrow> active_key" where
  "key_bind cx0 candidates key =
     (case cx0 of
        None \<Rightarrow> key
      | Some cx \<Rightarrow> key\<lparr>ak_api_mode := rx_api_mode cx,
          ak_credential_profile_id := trim (rx_credential_profile_id cx)\<rparr>)
     \<lparr>ak_candidates := candidates\<rparr>"

definition download_key ::
  "string \<Rightarrow> download_options option \<Rightarrow> request_context option \<Rightarrow> candidate_record list \<Rightarrow> active_key" where
  "download_key source options cx candidates =
     key_bind cx candidates
       (let key = (key_new BilibiliDownload source)\<lparr>ak_download_mode := 1\<rparr> in
        case options of
          None \<Rightarrow> key
        | Some o' \<Rightarrow> key\<lparr>
            ak_quality_preference := normalize_option_string (do_quality_preference o'),
            ak_encoding_preference := normalize_option_string (do_encoding_preference o'),
            ak_audio_language := normalize_option_string (do_audio_language o'),
            ak_prefer_tv_api := do_prefer_tv_api o',
            ak_download_subtitles := do_download_subtitles o',
            ak_download_danmaku := do_download_danmaku o',
            ak_subtitle_ai_policy := normalize_subtitle_ai_policy_key (do_subtitle_ai_policy o'),
            ak_download_cover := do_download_cover o',
            ak_danmaku_formats := normalize_danmaku_format_keys (do_danmaku_formats o'),
            ak_download_mode := normalize_download_mode_key (do_download_mode o')\<rparr>)"

definition playback_key ::
  "string \<Rightarrow> playback_options option \<Rightarrow> request_context option \<Rightarrow> candidate_record list \<Rightarrow> active_key" where
  "playback_key source options cx candidates =
     key_bind cx candidates
       (let key = key_new BilibiliProgressivePlayback source in
        case options of
          None \<Rightarrow> key
        | Some o' \<Rightarrow> key\<lparr>
            ak_quality_preference := normalize_option_string (po_quality_preference o'),
            ak_encoding_preference := normalize_option_string (po_encoding_preference o'),
            ak_audio_language := normalize_option_string (po_audio_language o'),
            ak_prefer_tv_api := po_prefer_tv_api o',
            ak_playback_policy := (case po_playback_policy o' of
                Some policy \<Rightarrow> encode_policy policy | None \<Rightarrow> [])\<rparr>)"

definition active_key_for_task ::
  "task \<Rightarrow> download_options option \<Rightarrow> playback_options option \<Rightarrow> request_context option \<Rightarrow>
    candidate_record list \<Rightarrow> active_key" where
  "active_key_for_task task download playback cx candidates =
     (if tk_kind task = BilibiliProgressivePlayback
      then playback_key (tk_source task) playback cx candidates
      else download_key (tk_source task) download cx candidates)"

section \<open>Requests of version 2\<close>

definition MAX_BILIBILI_RESOLUTION_TASK_CANDIDATES :: nat where
  "MAX_BILIBILI_RESOLUTION_TASK_CANDIDATES = 100"

datatype status = InvalidArgument | NotFoundStatus | FailedPrecondition | ResourceExhausted | Unavailable
  | InternalStatus | CancelledStatus

definition concrete_download_options :: "download_options option \<Rightarrow> status + download_options" where
  "concrete_download_options options =
     (let o' = (case options of Some o' \<Rightarrow> o' | None \<Rightarrow>
          \<lparr>do_quality_preference = [], do_encoding_preference = [], do_prefer_tv_api = False,
           do_download_subtitles = False, do_download_danmaku = False, do_audio_language = [],
           do_subtitle_ai_policy = 0, do_download_cover = False, do_danmaku_formats = [],
           do_download_mode = 0\<rparr>) in
      if do_download_mode o' < 0 \<or> do_download_mode o' > 6 then Inl InvalidArgument
      else Inr (if do_download_mode o' = 0 then o'\<lparr>do_download_mode := 1\<rparr> else o'))"

definition concrete_request_context :: "request_context option \<Rightarrow> status + request_context" where
  "concrete_request_context cx =
     (let c = (case cx of Some c \<Rightarrow> c | None \<Rightarrow> \<lparr>rx_api_mode = 0, rx_credential_profile_id = []\<rparr>) in
      if rx_api_mode c < 0 \<or> rx_api_mode c > 3 then Inl InvalidArgument
      else Inr (c\<lparr>rx_api_mode := (if rx_api_mode c = 0 then 1 else rx_api_mode c),
                  rx_credential_profile_id := trim (rx_credential_profile_id c)\<rparr>))"

definition validate_v2_candidate_batch :: "candidate_record list \<Rightarrow> status + unit" where
  "validate_v2_candidate_batch candidates =
     (if candidates = [] then Inl InvalidArgument
      else if length candidates > MAX_BILIBILI_RESOLUTION_TASK_CANDIDATES then Inl ResourceExhausted
      else Inr ())"

definition result_suffix :: "nat \<Rightarrow> string" where
  "result_suffix offset = ''-result-'' @ decimal (offset + 1)"

definition initial_result_items ::
  "string \<Rightarrow> candidate_record list \<Rightarrow> task_state \<Rightarrow> string \<Rightarrow> result_item list" where
  "initial_result_items task_id candidates state message =
     map (\<lambda>(offset, c). \<lparr>ri_id = (if offset = 0 then task_id else task_id @ result_suffix offset),
         ri_selection_id = [], ri_title = cd_title c, ri_subtitle = cd_subtitle c,
         ri_source_kind = cd_source_kind c, ri_content_id = cd_content_id c, ri_index = cd_index c,
         ri_state = state, ri_message = message, ri_library_item_id = [], ri_playback_source = None,
         ri_playback_session = None, ri_identity = Some (cd_identity c), ri_fill_status = None\<rparr>)
       (enumerate 0 candidates)"

end
