(* ===== verification/Task_Registry.thy ===== *)
theory Task_Registry
  imports Task_Model "HOL-Library.Char_ord" "HOL-Library.List_Lexorder"
begin

text \<open>
  The registry of tasks (\<open>task_registry.rs\<close>): creation, the queue and the worker's claim, progress,
  cancellation, completion, the planning and publication of playback, the commit of every change
  to the snapshot on disk, and the subscriptions. Every operation holds the mutation lock, so it is
  one step; what the disk, the clock and the generator of identifiers answer is its argument. The
  registry has the live state that operations change and the visible state that readers see; a
  commit makes the one the other. Not part of the state: the output records with their resource
  files, and the clean-up of files; that building the snapshot can fail because of them is an answer.
\<close>

section \<open>State\<close>

definition WATCHER_EVENT_BUFFER_CAPACITY :: nat where "WATCHER_EVENT_BUFFER_CAPACITY = 128"

text \<open>A subscription with its channel; \<open>ws_open\<close>: it is still among the watchers.\<close>

record subscription =
  ws_ids :: "string list"
  ws_buffer :: "task list"
  ws_lagged :: bool
  ws_open :: bool

record retention_policy =
  rp_max_terminal_tasks :: "nat option"
  rp_max_terminal_task_age :: "int option"

text \<open>
  A cancellation token is a cell of the heap \<open>rg_tokens\<close>; \<open>rg_persistence\<close> holds whether the store is
  available, \<open>rg_disk\<close> the tasks of the snapshot that was installed last.
\<close>

record registry =
  rg_tasks :: "(string, task) hmap"
  rg_visible :: "(string, task) hmap"
  rg_download_options :: "(string, download_options option) hmap"
  rg_playback_options :: "(string, playback_options option) hmap"
  rg_request_context :: "(string, request_context option) hmap"
  rg_candidates :: "(string, candidate_record list) hmap"
  rg_active :: "(active_key, string) hmap"
  rg_queued :: "string list"
  rg_running :: "(string, nat) hmap"
  rg_planning :: "(string, nat) hmap"
  rg_tokens :: "bool list"
  rg_watchers :: "(nat, subscription) hmap"
  rg_pending :: "(string, task) hmap"
  rg_cleanup_owners :: "string list"
  rg_persistence :: "bool option"
  rg_generation :: nat
  rg_disk :: "(string, task) hmap"
  rg_retention :: retention_policy

datatype save_answer = SnapshotInvalid | SavedDurable | SavedNotDurable | SaveFailed bool

text \<open>\<open>SaveFailed\<close> and \<open>Rejected\<close> say whether the failure is permanent.\<close>

datatype commit_outcome = Durable | InstalledButNotDurable | Volatile | Rejected bool

record environment =
  ev_now :: timestamp
  ev_save :: save_answer

definition is_committed :: "commit_outcome \<Rightarrow> bool" where
  "is_committed c = (c = Durable \<or> c = InstalledButNotDurable \<or> c = Volatile)"

definition is_durable :: "commit_outcome \<Rightarrow> bool" where
  "is_durable c = (c = Durable)"

definition is_permanent_failure :: "commit_outcome \<Rightarrow> bool" where
  "is_permanent_failure c = (c = Rejected True)"

definition persistence_available :: "registry \<Rightarrow> bool" where
  "persistence_available s = (rg_persistence s = Some True)"

definition persistence_lost :: "registry \<Rightarrow> bool" where
  "persistence_lost s = (rg_persistence s = Some False)"

section \<open>Retention\<close>

definition is_retention_prunable :: "task \<Rightarrow> bool" where
  "is_retention_prunable t =
     (is_terminal (tk_state t)
      \<and> \<not> (tk_kind t = BilibiliProgressivePlayback \<and> tk_state t = Completed))"

definition retention_timestamp :: "task \<Rightarrow> timestamp option" where
  "retention_timestamp t =
     (case tk_finished_at t of Some x \<Rightarrow> Some x
      | None \<Rightarrow> (case tk_updated_at t of Some x \<Rightarrow> Some x | None \<Rightarrow> tk_created_at t))"

definition timestamp_nanos :: "timestamp \<Rightarrow> int" where
  "timestamp_nanos ts = fst ts * 1000000000 + snd ts"

definition age_exceeds :: "timestamp \<Rightarrow> int \<Rightarrow> task \<Rightarrow> bool" where
  "age_exceeds now max_age t =
     (case retention_timestamp t of
        None \<Rightarrow> False
      | Some reference \<Rightarrow> timestamp_nanos now - timestamp_nanos reference \<ge> max_age)"

definition timestamp_sort_key :: "timestamp option \<Rightarrow> timestamp" where
  "timestamp_sort_key x = (case x of Some ts \<Rightarrow> ts | None \<Rightarrow> (0, 0))"

definition id_cmp :: "string \<Rightarrow> string \<Rightarrow> ordering" where
  "id_cmp a b = cmp a b"

definition prune_cmp :: "task \<Rightarrow> task \<Rightarrow> ordering" where
  "prune_cmp a b =
     (let left = timestamp_sort_key (retention_timestamp a); right = timestamp_sort_key (retention_timestamp b) in
      then_with (cmp (fst left) (fst right)) (then_with (cmp (snd left) (snd right)) (id_cmp (tk_id a) (tk_id b))))"

definition ids_to_prune :: "retention_policy \<Rightarrow> timestamp \<Rightarrow> (string, task) hmap \<Rightarrow> string list" where
  "ids_to_prune policy now tasks =
     (let prunable = filter is_retention_prunable (hm_values tasks);
          aged = (case rp_max_terminal_task_age policy of
              None \<Rightarrow> []
            | Some max_age \<Rightarrow> map tk_id (filter (age_exceeds now max_age) prunable))
      in aged @ (case rp_max_terminal_tasks policy of
              None \<Rightarrow> []
            | Some max_tasks \<Rightarrow>
                let rest = filter (\<lambda>t. tk_id t \<notin> set aged) prunable in
                map tk_id (take (length rest - max_tasks) (sort_by prune_cmp rest))))"

section \<open>Publication\<close>

definition watcher_matches :: "subscription \<Rightarrow> task \<Rightarrow> bool" where
  "watcher_matches w t = (ws_ids w = [] \<or> tk_id t \<in> set (ws_ids w))"

text \<open>A full channel closes the subscription. Its receiver goes only after the watcher has been
  removed, so a closed channel is never met.\<close>

definition deliver :: "task \<Rightarrow> subscription \<Rightarrow> subscription" where
  "deliver t w =
     (if \<not> ws_open w \<or> \<not> watcher_matches w t then w
      else if length (ws_buffer w) < WATCHER_EVENT_BUFFER_CAPACITY then w\<lparr>ws_buffer := ws_buffer w @ [t]\<rparr>
      else w\<lparr>ws_lagged := True, ws_open := False\<rparr>)"

definition publish_task :: "task \<Rightarrow> registry \<Rightarrow> registry" where
  "publish_task t s = s\<lparr>rg_watchers := map (\<lambda>(i, w). (i, deliver t w)) (rg_watchers s)\<rparr>"

definition stage_publication :: "task \<Rightarrow> registry \<Rightarrow> registry" where
  "stage_publication t s = s\<lparr>rg_pending := hm_insert (tk_id t) t (rg_pending s)\<rparr>"

definition refresh_pending :: "registry \<Rightarrow> registry" where
  "refresh_pending s = s\<lparr>rg_pending := map (\<lambda>(i, p).
     (i, case hm_get (rg_tasks s) i of Some t \<Rightarrow> t | None \<Rightarrow> p)) (rg_pending s)\<rparr>"

definition publish_pending :: "registry \<Rightarrow> registry" where
  "publish_pending s =
     fold (\<lambda>(i, staged). publish_task (case hm_get (rg_visible s) i of Some t \<Rightarrow> t | None \<Rightarrow> staged))
       (rg_pending s) (s\<lparr>rg_pending := []\<rparr>)"

definition publish_volatile :: "task \<Rightarrow> registry \<Rightarrow> registry" where
  "publish_volatile t s =
     (if hm_get (rg_pending s) (tk_id t) \<noteq> None \<or> hm_get (rg_visible s) (tk_id t) = None
      then stage_publication t s
      else publish_task t (s\<lparr>rg_visible := hm_insert (tk_id t) t (rg_visible s)\<rparr>))"

section \<open>Commit\<close>

text \<open>\<open>RegistryMutationCheckpoint\<close>: what is taken back when a commit is refused.\<close>

definition restore_checkpoint :: "registry \<Rightarrow> registry \<Rightarrow> registry" where
  "restore_checkpoint c s = s\<lparr>rg_tasks := rg_tasks c, rg_download_options := rg_download_options c,
     rg_playback_options := rg_playback_options c, rg_request_context := rg_request_context c,
     rg_candidates := rg_candidates c, rg_active := rg_active c, rg_queued := rg_queued c,
     rg_running := rg_running c, rg_planning := rg_planning c,
     rg_cleanup_owners := rg_cleanup_owners c, rg_pending := rg_pending c\<rparr>"

definition apply_pruned :: "string list \<Rightarrow> registry \<Rightarrow> registry" where
  "apply_pruned ids s = s\<lparr>rg_tasks := remove_keys ids (rg_tasks s),
     rg_download_options := remove_keys ids (rg_download_options s),
     rg_playback_options := remove_keys ids (rg_playback_options s),
     rg_request_context := remove_keys ids (rg_request_context s),
     rg_candidates := remove_keys ids (rg_candidates s),
     rg_running := remove_keys ids (rg_running s), rg_planning := remove_keys ids (rg_planning s)\<rparr>"

definition install_visible :: "registry \<Rightarrow> registry" where
  "install_visible s = s\<lparr>rg_visible := rg_tasks s\<rparr>"

definition save_snapshot ::
  "save_answer \<Rightarrow> string list \<Rightarrow> registry \<Rightarrow> commit_outcome \<times> registry" where
  "save_snapshot answer pruned s =
     (case answer of
        SavedDurable \<Rightarrow>
          (Durable, s\<lparr>rg_persistence := Some True, rg_disk := remove_keys pruned (rg_tasks s)\<rparr>)
      | SavedNotDurable \<Rightarrow>
          (InstalledButNotDurable,
           s\<lparr>rg_persistence := Some False, rg_disk := remove_keys pruned (rg_tasks s)\<rparr>)
      | SaveFailed permanent \<Rightarrow> (Rejected permanent, s\<lparr>rg_persistence := Some False\<rparr>)
      | SnapshotInvalid \<Rightarrow> (Rejected True, s\<lparr>rg_persistence := Some False\<rparr>))"

definition publish_committed :: "string list \<Rightarrow> registry \<Rightarrow> registry" where
  "publish_committed pruned s =
     publish_pending (refresh_pending (install_visible (apply_pruned pruned s)))"

definition persist_pending ::
  "environment \<Rightarrow> bool \<Rightarrow> registry option \<Rightarrow> bool \<Rightarrow> registry \<Rightarrow> commit_outcome \<times> registry" where
  "persist_pending env durability_required checkpoint require_durable s =
     (let rejected = (\<lambda>permanent s. (Rejected permanent,
            case checkpoint of Some c \<Rightarrow> restore_checkpoint c s | None \<Rightarrow> s)) in
      if ev_save env = SnapshotInvalid then
        rejected True (refresh_pending (s\<lparr>rg_persistence := map_option (\<lambda>_. False) (rg_persistence s)\<rparr>))
      else case rg_persistence s of
        None \<Rightarrow>
          if durability_required then rejected True (refresh_pending s)
          else (Volatile, publish_committed [] (refresh_pending s))
      | Some _ \<Rightarrow>
          let pruned = ids_to_prune (rg_retention s) (ev_now env) (rg_tasks s);
              (outcome, s1) = save_snapshot (ev_save env) pruned
                (refresh_pending (s\<lparr>rg_generation := rg_generation s + 1\<rparr>))
          in (case outcome of
                Rejected permanent \<Rightarrow> rejected permanent s1
              | _ \<Rightarrow>
                  if outcome = InstalledButNotDurable \<and> require_durable then
                    (outcome, case checkpoint of Some c \<Rightarrow> restore_checkpoint c s1 | None \<Rightarrow> s1)
                  else (outcome, publish_committed pruned s1)))"

definition persist_task ::
  "environment \<Rightarrow> task \<Rightarrow> bool \<Rightarrow> registry option \<Rightarrow> registry \<Rightarrow> commit_outcome \<times> registry" where
  "persist_task env t durability_required checkpoint s =
     persist_pending env durability_required checkpoint False (stage_publication t s)"

definition persist_task_before_destructive ::
  "environment \<Rightarrow> task \<Rightarrow> bool \<Rightarrow> registry option \<Rightarrow> registry \<Rightarrow> commit_outcome \<times> registry" where
  "persist_task_before_destructive env t durability_required checkpoint s =
     persist_pending env durability_required checkpoint True (stage_publication t s)"

definition retry_pending_persistence :: "environment \<Rightarrow> registry \<Rightarrow> commit_outcome \<times> registry" where
  "retry_pending_persistence env s = persist_pending env True None False s"

section \<open>Creation\<close>

definition fresh_task ::
  "string \<Rightarrow> task_kind \<Rightarrow> task_state \<Rightarrow> string \<Rightarrow> string \<Rightarrow> string \<Rightarrow> timestamp \<Rightarrow> string option \<Rightarrow>
    result_item list \<Rightarrow> task" where
  "fresh_task task_id kind state source title message now selection items =
     \<lparr>tk_id = task_id, tk_kind = kind, tk_state = state, tk_source = source, tk_title = title,
      tk_progress = Finite 0, tk_downloaded_bytes = 0, tk_total_bytes = 0, tk_message = message,
      tk_library_item_id = [], tk_created_at = Some now, tk_updated_at = Some now,
      tk_finished_at = None, tk_playback_source = None, tk_playback_session = None,
      tk_selection = selection, tk_result_items = items, tk_fill_status = None\<rparr>"

text \<open>The task that is being worked on under a key.\<close>

definition active_task :: "active_key \<Rightarrow> registry \<Rightarrow> task option" where
  "active_task key s =
     (case hm_get (rg_active s) key of
        None \<Rightarrow> None
      | Some task_id \<Rightarrow>
          (case hm_get (rg_tasks s) task_id of
             None \<Rightarrow> None
           | Some t \<Rightarrow> if is_active (tk_state t) then Some t else None))"

text \<open>\<open>RegistryMutationCheckpoint::capture\<close>, when a store is configured.\<close>

definition durability_checkpoint :: "registry \<Rightarrow> registry option" where
  "durability_checkpoint s = (if rg_persistence s \<noteq> None then Some s else None)"

definition durability_required :: "registry \<Rightarrow> bool" where
  "durability_required s = (rg_persistence s \<noteq> None)"

definition create_bilibili_task ::
  "environment \<Rightarrow> string \<Rightarrow> string \<Rightarrow> download_options option \<Rightarrow> registry \<Rightarrow> (status + task) \<times> registry" where
  "create_bilibili_task env new_id source options s =
     (let source' = normalize source in
      if source' = [] then (Inl InvalidArgument, s)
      else
        let key = download_key source' options None [] in
        (case active_task key s of
           Some t \<Rightarrow> (Inr t, s)
         | None \<Rightarrow>
             let t = fresh_task new_id BilibiliDownload Queued source' [] ''Queued for the BBDown adapter.''
                       (ev_now env) None [];
                 s1 = s\<lparr>rg_active := hm_insert key new_id (rg_active s),
                   rg_download_options := hm_insert new_id options (rg_download_options s),
                   rg_queued := rg_queued s @ [new_id],
                   rg_tasks := hm_insert new_id t (rg_tasks s)\<rparr>;
                 (outcome, s2) = persist_task env t (durability_required s) (durability_checkpoint s) s1
             in (if is_committed outcome then Inr t else Inl Unavailable, s2)))"

definition create_bilibili_download_task_v2 ::
  "environment \<Rightarrow> string \<Rightarrow> string \<Rightarrow> download_options option \<Rightarrow> request_context option \<Rightarrow> string \<Rightarrow>
    candidate_record list \<Rightarrow> registry \<Rightarrow> (status + task) \<times> registry" where
  "create_bilibili_download_task_v2 env new_id source options cx title candidates s =
     (if \<not> persistence_available s then (Inl FailedPrecondition, s)
      else case validate_v2_candidate_batch candidates of
        Inl e \<Rightarrow> (Inl e, s)
      | Inr _ \<Rightarrow>
          let source' = normalize source in
          if source' = [] then (Inl InvalidArgument, s)
          else (case concrete_download_options options of
             Inl e \<Rightarrow> (Inl e, s)
           | Inr options' \<Rightarrow>
               (case concrete_request_context cx of
                  Inl e \<Rightarrow> (Inl e, s)
                | Inr cx' \<Rightarrow>
                    let key = download_key source' (Some options') (Some cx') candidates in
                    (case active_task key s of
                       Some t \<Rightarrow> (Inr t, s)
                     | None \<Rightarrow>
                         let t = fresh_task new_id BilibiliDownload Queued source' title
                                   ''Queued for the BBDown adapter.'' (ev_now env) None
                                   (initial_result_items new_id candidates Queued ''Queued for the BBDown adapter.'');
                             s1 = s\<lparr>rg_active := hm_insert key new_id (rg_active s),
                               rg_download_options := hm_insert new_id (Some options') (rg_download_options s),
                               rg_request_context := hm_insert new_id (Some cx') (rg_request_context s),
                               rg_candidates := hm_insert new_id candidates (rg_candidates s),
                               rg_queued := rg_queued s @ [new_id],
                               rg_tasks := hm_insert new_id t (rg_tasks s)\<rparr>;
                             (outcome, s2) = persist_task env t True (Some s) s1
                         in (if is_committed outcome then Inr t else Inl Unavailable, s2)))))"

record playback_creation =
  pc_task :: task
  pc_created :: bool
  pc_cancellation :: "nat option"
  pc_requires_recovery :: bool

definition create_playback_record ::
  "environment \<Rightarrow> string \<Rightarrow> string \<Rightarrow> playback_options option \<Rightarrow> request_context option \<Rightarrow>
    string option \<Rightarrow> string \<Rightarrow> candidate_record list \<Rightarrow> bool \<Rightarrow> registry \<Rightarrow>
    (status + playback_creation) \<times> registry" where
  "create_playback_record env new_id source options cx selection title candidates defer s =
     (let source' = normalize source in
      if source' = [] then (Inl InvalidArgument, s)
      else
        let key = playback_key source' options cx candidates in
        (case (if defer then active_task key s else None) of
           Some t \<Rightarrow>
             (Inr \<lparr>pc_task = t, pc_created = False, pc_cancellation = hm_get (rg_planning s) (tk_id t),
                   pc_requires_recovery = False\<rparr>, s)
         | None \<Rightarrow>
             let t = fresh_task new_id BilibiliProgressivePlayback Preparing source' title
                       ''Preparing Bilibili playback plan.'' (ev_now env) selection
                       (initial_result_items new_id candidates Preparing ''Queued for Bilibili playback planning.'');
                 token = length (rg_tokens s);
                 s1 = s\<lparr>rg_playback_options := hm_insert new_id options (rg_playback_options s),
                   rg_request_context := (if defer then hm_insert new_id cx (rg_request_context s)
                     else rg_request_context s),
                   rg_candidates := (if candidates \<noteq> [] then hm_insert new_id candidates (rg_candidates s)
                     else rg_candidates s),
                   rg_active := (if defer then hm_insert key new_id (rg_active s) else rg_active s),
                   rg_tokens := rg_tokens s @ [False],
                   rg_planning := hm_insert new_id token (rg_planning s),
                   rg_tasks := hm_insert new_id t (rg_tasks s)\<rparr>;
                 (outcome, s2) = persist_task env t (durability_required s) (durability_checkpoint s) s1
             in (if is_committed outcome
                 then Inr \<lparr>pc_task = t, pc_created = True, pc_cancellation = Some token,
                        pc_requires_recovery = (defer \<and> \<not> is_durable outcome)\<rparr>
                 else Inl Unavailable, s2)))"

definition create_bilibili_playback_task ::
  "environment \<Rightarrow> string \<Rightarrow> string \<Rightarrow> playback_options option \<Rightarrow> string option \<Rightarrow> registry \<Rightarrow>
    (status + playback_creation) \<times> registry" where
  "create_bilibili_playback_task env new_id source options selection s =
     create_playback_record env new_id source options None selection [] [] False s"

definition create_bilibili_playback_task_v2 ::
  "environment \<Rightarrow> string \<Rightarrow> string \<Rightarrow> playback_options option \<Rightarrow> request_context option \<Rightarrow> string \<Rightarrow>
    candidate_record list \<Rightarrow> registry \<Rightarrow> (status + playback_creation) \<times> registry" where
  "create_bilibili_playback_task_v2 env new_id source options cx title candidates s =
     (if \<not> persistence_available s then (Inl FailedPrecondition, s)
      else case validate_v2_candidate_batch candidates of
        Inl e \<Rightarrow> (Inl e, s)
      | Inr _ \<Rightarrow> create_playback_record env new_id source options cx None title candidates True s)"

section \<open>Readers\<close>

definition get_task :: "string \<Rightarrow> registry \<Rightarrow> status + task" where
  "get_task task_id s =
     (let task_id' = normalize task_id in
      if task_id' = [] then Inl InvalidArgument
      else case hm_get (rg_visible s) task_id' of
        Some t \<Rightarrow> Inr t
      | None \<Rightarrow> Inl NotFoundStatus)"

definition is_cancel_requested :: "string \<Rightarrow> registry \<Rightarrow> bool" where
  "is_cancel_requested task_id s =
     (case (case hm_get (rg_running s) task_id of
          Some token \<Rightarrow> Some token | None \<Rightarrow> hm_get (rg_planning s) task_id) of
        Some token \<Rightarrow> token < length (rg_tokens s) \<and> rg_tokens s ! token
      | None \<Rightarrow> False)"

definition subscribe :: "nat \<Rightarrow> string list \<Rightarrow> registry \<Rightarrow> (status + task list) \<times> registry" where
  "subscribe watcher_id task_ids s =
     (if list_ex (\<lambda>i. trim i = []) task_ids then (Inl InvalidArgument, s)
      else
        let watched = map trim task_ids;
            w = \<lparr>ws_ids = watched, ws_buffer = [], ws_lagged = False, ws_open = True\<rparr>
        in (Inr (sort_by (\<lambda>a b. id_cmp (tk_id a) (tk_id b))
                  (filter (watcher_matches w) (hm_values (rg_visible s)))),
            s\<lparr>rg_watchers := hm_insert watcher_id w (rg_watchers s)\<rparr>))"

text \<open>\<open>recv\<close>: \<open>None\<close> while it waits.\<close>

definition recv_task :: "nat \<Rightarrow> registry \<Rightarrow> (status + task) option \<times> registry" where
  "recv_task watcher_id s =
     (case hm_get (rg_watchers s) watcher_id of
        None \<Rightarrow> (Some (Inl Unavailable), s)
      | Some w \<Rightarrow>
          (case ws_buffer w of
             t # rest \<Rightarrow> (Some (Inr t), s\<lparr>rg_watchers := hm_insert watcher_id (w\<lparr>ws_buffer := rest\<rparr>) (rg_watchers s)\<rparr>)
           | [] \<Rightarrow>
               if ws_open w then (None, s)
               else if ws_lagged w then (Some (Inl ResourceExhausted), s)
               else (Some (Inl Unavailable), s)))"

definition unsubscribe :: "nat \<Rightarrow> registry \<Rightarrow> registry" where
  "unsubscribe watcher_id s = s\<lparr>rg_watchers := hm_remove watcher_id (rg_watchers s)\<rparr>"

section \<open>Endings\<close>

definition options_of :: "('k, 'v option) hmap \<Rightarrow> 'k \<Rightarrow> 'v option" where
  "options_of m k = (case hm_get m k of Some o' \<Rightarrow> o' | None \<Rightarrow> None)"

definition key_of_task :: "task \<Rightarrow> registry \<Rightarrow> active_key" where
  "key_of_task t s =
     active_key_for_task t (options_of (rg_download_options s) (tk_id t))
       (options_of (rg_playback_options s) (tk_id t)) (options_of (rg_request_context s) (tk_id t))
       (case hm_get (rg_candidates s) (tk_id t) of Some cs \<Rightarrow> cs | None \<Rightarrow> [])"

definition release_key :: "active_key \<Rightarrow> string \<Rightarrow> registry \<Rightarrow> registry" where
  "release_key key task_id s =
     (if hm_get (rg_active s) key = Some task_id then s\<lparr>rg_active := hm_remove key (rg_active s)\<rparr> else s)"

definition clear_active_duplicate_key :: "task \<Rightarrow> registry \<Rightarrow> registry" where
  "clear_active_duplicate_key t s = release_key (key_of_task t s) (tk_id t) s"

text \<open>Whether a task still serves playback: \<open>task_retains_playback_refresh_context\<close> and what it uses.\<close>

definition item_online_after_fill_failure :: "result_item \<Rightarrow> bool" where
  "item_online_after_fill_failure item =
     (ri_state item = Failed \<and> contains_text ''offline cache fill failed'' (ri_message item)
      \<and> ri_playback_source item \<noteq> None \<and> ri_playback_session item \<noteq> None)"

definition task_uses_hls_session :: "task \<Rightarrow> string \<Rightarrow> bool" where
  "task_uses_hls_session t session_id =
     (primary_hls_session_id t = Some session_id
      \<or> (\<exists>item \<in> set (tk_result_items t). session_id \<in> result_item_hls_session_ids item))"

definition completed_task_has_playable_result :: "task \<Rightarrow> string \<Rightarrow> bool" where
  "completed_task_has_playable_result t session_id =
     (tk_state t = Completed
      \<and> (\<exists>item \<in> set (tk_result_items t). session_id \<in> result_item_hls_session_ids item
           \<and> (ri_state item = Playable \<or> ri_state item = Completed \<or> item_online_after_fill_failure item)))"

definition completed_task_has_refreshable_result :: "task \<Rightarrow> string \<Rightarrow> bool" where
  "completed_task_has_refreshable_result t session_id =
     (completed_task_has_playable_result t session_id
      \<and> (\<exists>item \<in> set (tk_result_items t). session_id \<in> result_item_hls_session_ids item
           \<and> (ri_state item = Playable \<or> item_online_after_fill_failure item)))"

definition task_has_playable_hls_session :: "task \<Rightarrow> string \<Rightarrow> bool" where
  "task_has_playable_hls_session t session_id =
     (tk_kind t = BilibiliProgressivePlayback
      \<and> (tk_state t = Playable \<and> task_uses_hls_session t session_id
         \<or> completed_task_has_playable_result t session_id))"

definition task_has_refreshable_hls_session :: "task \<Rightarrow> string \<Rightarrow> bool" where
  "task_has_refreshable_hls_session t session_id =
     (task_has_playable_hls_session t session_id
      \<and> (tk_state t \<noteq> Completed \<or> completed_task_has_refreshable_result t session_id))"

definition retains_playback_refresh_context :: "task \<Rightarrow> bool" where
  "retains_playback_refresh_context t =
     (tk_kind t = BilibiliProgressivePlayback
      \<and> (\<exists>session_id \<in> playback_hls_session_ids t. task_has_refreshable_hls_session t session_id))"

text \<open>\<open>terminal_task_locked\<close> and \<open>clear_active_task_locked\<close>: the key is taken before anything is removed.\<close>

definition clear_active_task :: "task \<Rightarrow> registry \<Rightarrow> registry" where
  "clear_active_task t s =
     (let task_id = tk_id t;
          s1 = release_key (key_of_task t s) task_id s;
          s2 = s1\<lparr>rg_running := hm_remove task_id (rg_running s1),
            rg_planning := hm_remove task_id (rg_planning s1),
            rg_download_options := hm_remove task_id (rg_download_options s1)\<rparr>;
          retains = (case hm_get (rg_tasks s2) task_id of
              Some t' \<Rightarrow> retains_playback_refresh_context t' | None \<Rightarrow> False);
          s3 = (if retains then s2
                else s2\<lparr>rg_playback_options := hm_remove task_id (rg_playback_options s2),
                       rg_request_context := hm_remove task_id (rg_request_context s2)\<rparr>)
      in s3\<lparr>rg_queued := filter (\<lambda>i. i \<noteq> task_id) (rg_queued s3)\<rparr>)"

section \<open>The worker\<close>

record work_item =
  wi_task_id :: string
  wi_source :: string
  wi_options :: "download_options option"
  wi_request_context :: "request_context option"
  wi_candidates :: "candidate_record list"
  wi_cancellation :: nat

text \<open>The scan looks at each of the entries that were queued when it began.\<close>

fun claim_scan :: "nat \<Rightarrow> environment \<Rightarrow> registry \<Rightarrow> work_item option \<times> registry" where
  "claim_scan 0 env s = (None, s)"
| "claim_scan (Suc n) env s =
     (case rg_queued s of
        [] \<Rightarrow> (None, s)
      | task_id # rest \<Rightarrow>
          let s1 = s\<lparr>rg_queued := rest\<rparr>;
              candidates = (case hm_get (rg_candidates s) task_id of Some cs \<Rightarrow> cs | None \<Rightarrow> []);
              is_v2 = (candidates \<noteq> [])
          in if is_v2 \<and> persistence_lost s \<or> is_v2 \<and> task_id \<in> set (rg_cleanup_owners s)
             then claim_scan n env (s1\<lparr>rg_queued := rest @ [task_id]\<rparr>)
             else (case hm_get (rg_tasks s) task_id of
                None \<Rightarrow> claim_scan n env s1
              | Some t \<Rightarrow>
                  if tk_state t \<noteq> Queued then claim_scan n env s1
                  else
                    let t' = t\<lparr>tk_state := Running, tk_message := ''Running Bilibili download adapter.'',
                          tk_updated_at := Some (ev_now env)\<rparr>;
                        token = length (rg_tokens s);
                        item = \<lparr>wi_task_id = tk_id t, wi_source = tk_source t,
                          wi_options = options_of (rg_download_options s) task_id,
                          wi_request_context = options_of (rg_request_context s) task_id,
                          wi_candidates = candidates, wi_cancellation = token\<rparr>;
                        s2 = s1\<lparr>rg_tasks := hm_insert task_id t' (rg_tasks s),
                          rg_tokens := rg_tokens s @ [False],
                          rg_running := hm_insert task_id token (rg_running s)\<rparr>
                    in (Some item, snd (persist_task env t' False None s2))))"

definition try_claim_next_bilibili_task :: "environment \<Rightarrow> registry \<Rightarrow> work_item option \<times> registry" where
  "try_claim_next_bilibili_task env s = claim_scan (length (rg_queued s)) env s"

record task_progress =
  tp_progress :: "float64 option"
  tp_downloaded_bytes :: "int option"
  tp_total_bytes :: "int option"
  tp_message :: "string option"

definition clamp_to :: "rat \<Rightarrow> rat \<Rightarrow> rat" where
  "clamp_to hi v = min (max v 0) hi"

definition apply_progress :: "timestamp \<Rightarrow> task_progress \<Rightarrow> task \<Rightarrow> task" where
  "apply_progress now p t =
     t\<lparr>tk_progress := (case tp_progress p of Some (Finite v) \<Rightarrow> Finite (clamp_to 1 v) | _ \<Rightarrow> tk_progress t),
       tk_downloaded_bytes := (case tp_downloaded_bytes p of Some v \<Rightarrow> max v 0 | None \<Rightarrow> tk_downloaded_bytes t),
       tk_total_bytes := (case tp_total_bytes p of Some v \<Rightarrow> max v 0 | None \<Rightarrow> tk_total_bytes t),
       tk_message := (case tp_message p of Some m \<Rightarrow> m | None \<Rightarrow> tk_message t),
       tk_updated_at := Some now\<rparr>"

definition update_task_progress :: "timestamp \<Rightarrow> string \<Rightarrow> task_progress \<Rightarrow> registry \<Rightarrow> bool \<times> registry" where
  "update_task_progress now task_id p s =
     (case hm_get (rg_tasks s) task_id of
        None \<Rightarrow> (False, s)
      | Some t \<Rightarrow>
          if tk_state t \<noteq> Running \<and> tk_state t \<noteq> CancelRequested then (False, s)
          else let t' = apply_progress now p t in
            (True, publish_volatile t' (s\<lparr>rg_tasks := hm_insert task_id t' (rg_tasks s)\<rparr>)))"

definition update_playback_cache_progress ::
  "timestamp \<Rightarrow> string \<Rightarrow> task_progress \<Rightarrow> registry \<Rightarrow> bool \<times> registry" where
  "update_playback_cache_progress now task_id p s =
     (case hm_get (rg_tasks s) task_id of
        None \<Rightarrow> (False, s)
      | Some t \<Rightarrow>
          if tk_kind t \<noteq> BilibiliProgressivePlayback \<or> tk_state t \<noteq> Playable then (False, s)
          else let t' = apply_progress now p t in
            (True, publish_volatile t' (s\<lparr>rg_tasks := hm_insert task_id t' (rg_tasks s)\<rparr>)))"

text \<open>Operations that must not build on a lost store first try to save what is pending.\<close>

definition recover_first :: "environment \<Rightarrow> (commit_outcome \<Rightarrow> bool) \<Rightarrow> registry \<Rightarrow> bool \<times> registry" where
  "recover_first env accepted s =
     (if persistence_lost s then
        let (outcome, s') = persist_pending env True None False s in (accepted outcome, s')
      else (True, s))"

definition ended_task ::
  "timestamp \<Rightarrow> task_state \<Rightarrow> string \<Rightarrow> string option \<Rightarrow> float64 option \<Rightarrow> task \<Rightarrow> task" where
  "ended_task now state message item_id progress t =
     (let effective_state = (if tk_state t = CancelRequested then Cancelled else state);
          effective_message = (if tk_state t = CancelRequested \<and> state \<noteq> Cancelled
            then ''Cancelled by request.'' else message);
          t1 = t\<lparr>tk_state := effective_state, tk_message := effective_message\<rparr>;
          t2 = (if effective_state = Succeeded
            then t1\<lparr>tk_library_item_id := (case item_id of Some l \<Rightarrow> l | None \<Rightarrow> tk_library_item_id t1),
                   tk_progress := (case progress of Some (Finite v) \<Rightarrow> Finite (clamp_to 1 v)
                     | _ \<Rightarrow> tk_progress t1)\<rparr>
            else t1);
          playback = (tk_kind t2 = BilibiliProgressivePlayback);
          t3 = (if effective_state = Failed \<or> effective_state = Cancelled
            then t2\<lparr>tk_library_item_id := [],
                   tk_playback_source := (if playback then None else tk_playback_source t2),
                   tk_playback_session := (if playback then None else tk_playback_session t2),
                   tk_result_items := clear_result_playback_metadata effective_state effective_message
                     (tk_result_items t2)\<rparr>
            else t2)
      in t3\<lparr>tk_updated_at := Some now, tk_finished_at := Some now\<rparr>)"

definition complete_task ::
  "environment \<Rightarrow> environment \<Rightarrow> string \<Rightarrow> task_state \<Rightarrow> string \<Rightarrow> string option \<Rightarrow> float64 option \<Rightarrow>
    registry \<Rightarrow> (status + task) \<times> registry" where
  "complete_task env0 env task_id state message item_id progress s0 =
     (let task_id' = normalize task_id in
      if task_id' = [] then (Inl InvalidArgument, s0)
      else
        let (ok, s) = recover_first env0 is_committed s0 in
        if \<not> ok then (Inl Unavailable, s)
        else (case hm_get (rg_tasks s) task_id' of
           None \<Rightarrow> (Inl NotFoundStatus, s)
         | Some t \<Rightarrow>
             if is_terminal (tk_state t) then
               (Inr (case hm_get (rg_visible s) task_id' of Some v \<Rightarrow> v | None \<Rightarrow> t), s)
             else
               let t' = ended_task (ev_now env) state message item_id progress t;
                   s1 = clear_active_task t' (s\<lparr>rg_tasks := hm_insert task_id' t' (rg_tasks s)\<rparr>);
                   (outcome, s2) = persist_task env t' (durability_required s) None s1
               in (if durability_required s \<and> \<not> is_committed outcome then Inl Unavailable else Inr t', s2)))"

definition complete_task_succeeded ::
  "environment \<Rightarrow> environment \<Rightarrow> string \<Rightarrow> string \<Rightarrow> string \<Rightarrow> registry \<Rightarrow> (status + task) \<times> registry" where
  "complete_task_succeeded env0 env task_id item_id message s =
     complete_task env0 env task_id Succeeded message (Some item_id) (Some (Finite 1)) s"

definition complete_task_failed ::
  "environment \<Rightarrow> environment \<Rightarrow> string \<Rightarrow> string \<Rightarrow> registry \<Rightarrow> (status + task) \<times> registry" where
  "complete_task_failed env0 env task_id message s = complete_task env0 env task_id Failed message None None s"

definition complete_task_cancelled ::
  "environment \<Rightarrow> environment \<Rightarrow> string \<Rightarrow> string \<Rightarrow> registry \<Rightarrow> (status + task) \<times> registry" where
  "complete_task_cancelled env0 env task_id message s =
     complete_task env0 env task_id Cancelled message None None s"

end
