(* ===== verification/Task_Playback.thy ===== *)
theory Task_Playback
  imports Task_Registry
begin

text \<open>
  The operations of \<open>task_registry.rs\<close> that end work early or publish playback: cancellation, the
  publication of a plan, of results and of a playable session, the completion of a session that
  is cached, the failure of a playable one after a restart, and what the registry tells the HLS
  server about a session.
\<close>

section \<open>Cancellation\<close>

record cancellation_outcome =
  co_task :: task
  co_sessions :: "string set"

definition cancellation_of :: "task \<Rightarrow> cancellation_outcome" where
  "cancellation_of t = \<lparr>co_task = t, co_sessions = playback_hls_session_ids t\<rparr>"

definition set_token :: "nat option \<Rightarrow> bool list \<Rightarrow> bool list" where
  "set_token cell tokens = (case cell of Some i \<Rightarrow> tokens[i := True] | None \<Rightarrow> tokens)"

definition cancelled_status :: "fill_status option \<Rightarrow> fill_status" where
  "cancelled_status previous = \<lparr>fl_state = FillCancelled, fl_failure_kind = FailureUnspecified,
     fl_completed_bytes = (case previous of Some p \<Rightarrow> fl_completed_bytes p | None \<Rightarrow> 0),
     fl_total_bytes = (case previous of Some p \<Rightarrow> fl_total_bytes p | None \<Rightarrow> 0),
     fl_total_bytes_known = (case previous of Some p \<Rightarrow> fl_total_bytes_known p | None \<Rightarrow> False),
     fl_representation_id = (case previous of Some p \<Rightarrow> fl_representation_id p | None \<Rightarrow> []),
     fl_message = ''Offline cache fill was cancelled.''\<rparr>"

text \<open>The result identifiers whose fill status a cancellation touches.\<close>

definition fill_status_result_ids :: "task \<Rightarrow> string set" where
  "fill_status_result_ids t =
     ri_id ` set (filter (\<lambda>item. result_item_hls_session_ids item \<noteq> {}) (tk_result_items t))
     \<union> (if primary_hls_session_id t \<noteq> None then {tk_id t} else {})"

definition cancelled_task :: "timestamp \<Rightarrow> task \<Rightarrow> task" where
  "cancelled_task now t =
     (let message = ''Cancelled before the download adapter started.'';
          ids = fill_status_result_ids t;
          playback = (tk_kind t = BilibiliProgressivePlayback);
          fill = (if playback \<and> (tk_fill_status t \<noteq> None \<or> playback_hls_session_ids t \<noteq> {})
            then Some (cancelled_status (tk_fill_status t)) else tk_fill_status t);
          items = (if playback
            then map (\<lambda>item. if ri_id item \<in> ids \<and> ri_fill_status item \<noteq> None
              then item\<lparr>ri_fill_status := Some (cancelled_status (ri_fill_status item))\<rparr> else item)
              (tk_result_items t)
            else tk_result_items t)
      in t\<lparr>tk_state := Cancelled, tk_message := message, tk_updated_at := Some now,
           tk_finished_at := Some now, tk_library_item_id := [], tk_fill_status := fill,
           tk_playback_source := (if playback then None else tk_playback_source t),
           tk_playback_session := (if playback then None else tk_playback_session t),
           tk_result_items := clear_result_playback_metadata Cancelled message items\<rparr>)"

text \<open>
  \<open>output_ok\<close>: the update of the output record of a playback task without result items, which is
  the only one that can fail, succeeds.
\<close>

definition cancel_idle ::
  "environment \<Rightarrow> bool \<Rightarrow> string \<Rightarrow> registry \<Rightarrow> (status + cancellation_outcome) \<times> registry" where
  "cancel_idle env output_ok task_id s =
     (case hm_get (rg_tasks s) task_id of
        None \<Rightarrow> (Inl NotFoundStatus, s)
      | Some t \<Rightarrow>
          let t' = cancelled_task (ev_now env) t;
              sessions = playback_hls_session_ids t;
              s1 = s\<lparr>rg_tasks := hm_insert task_id t' (rg_tasks s)\<rparr>
          in if tk_kind t' = BilibiliProgressivePlayback \<and> tk_result_items t' = []
                \<and> tk_fill_status t' \<noteq> None \<and> \<not> output_ok
             then (Inl FailedPrecondition,
               case durability_checkpoint s of Some c \<Rightarrow> restore_checkpoint c s1 | None \<Rightarrow> s1)
             else
               let s2 = clear_active_task t' s1;
                   deletes_hls_data = (tk_kind t' = BilibiliProgressivePlayback \<and> sessions \<noteq> {});
                   (outcome, s3) =
                     (if deletes_hls_data
                      then persist_task_before_destructive env t' (durability_required s) (durability_checkpoint s) s2
                      else persist_task env t' (durability_required s) (durability_checkpoint s) s2)
               in (if durability_required s
                      \<and> (if deletes_hls_data then \<not> is_durable outcome else \<not> is_committed outcome)
                   then Inl Unavailable else Inr \<lparr>co_task = t', co_sessions = sessions\<rparr>, s3))"

definition cancel_worked_on ::
  "environment \<Rightarrow> string \<Rightarrow> task \<Rightarrow> registry \<Rightarrow> (status + cancellation_outcome) \<times> registry" where
  "cancel_worked_on env task_id visible s =
     (let s1 = s\<lparr>rg_tokens := set_token (hm_get (rg_planning s) task_id)
            (set_token (hm_get (rg_running s) task_id) (rg_tokens s))\<rparr> in
      if tk_state visible = CancelRequested then (Inr (cancellation_of visible), s1)
      else (case hm_get (rg_tasks s) task_id of
         None \<Rightarrow> (Inl NotFoundStatus, s1)
       | Some t \<Rightarrow>
           let t' = t\<lparr>tk_state := CancelRequested, tk_message := ''Cancellation requested.'',
                 tk_updated_at := Some (ev_now env)\<rparr>;
               (outcome, s2) = persist_task env t' (durability_required s) None
                 (s1\<lparr>rg_tasks := hm_insert task_id t' (rg_tasks s)\<rparr>)
           in (if durability_required s \<and> \<not> is_committed outcome then Inl Unavailable
               else Inr (cancellation_of t'), s2)))"

definition cancel_task_with_hls_session_ids ::
  "environment \<Rightarrow> environment \<Rightarrow> bool \<Rightarrow> string \<Rightarrow> registry \<Rightarrow> (status + cancellation_outcome) \<times> registry" where
  "cancel_task_with_hls_session_ids env0 env output_ok task_id s0 =
     (let task_id' = normalize task_id in
      if task_id' = [] then (Inl InvalidArgument, s0)
      else
        let (ok, s) = recover_first env0 is_durable s0 in
        if \<not> ok then (Inl Unavailable, s)
        else (case hm_get (rg_visible s) task_id' of
           None \<Rightarrow> (Inl NotFoundStatus, s)
         | Some v \<Rightarrow>
             if is_terminal (tk_state v) then (Inr (cancellation_of v), s)
             else if tk_state v \<in> {Running, Preparing, CancelRequested}
               then cancel_worked_on env task_id' v s
             else cancel_idle env output_ok task_id' s))"

section \<open>Publication of playback\<close>

text \<open>\<open>TaskRecordMutationCheckpoint::restore\<close>: the record of one task, its publication included.\<close>

definition restore_task_record :: "task \<Rightarrow> task option \<Rightarrow> registry \<Rightarrow> registry" where
  "restore_task_record t pending s =
     s\<lparr>rg_tasks := hm_insert (tk_id t) t (rg_tasks s),
       rg_pending := (case pending of Some p \<Rightarrow> hm_insert (tk_id t) p (rg_pending s)
         | None \<Rightarrow> hm_remove (tk_id t) (rg_pending s))\<rparr>"

definition end_publication :: "task \<Rightarrow> registry \<Rightarrow> registry" where
  "end_publication t s =
     (let s1 = (if tk_state t = Planned \<or> tk_state t = Playable
            then s\<lparr>rg_planning := hm_remove (tk_id t) (rg_planning s)\<rparr> else s);
          s2 = (if tk_state t = Playable then clear_active_duplicate_key t s1 else s1)
      in if is_terminal (tk_state t) then clear_active_task t s2 else s2)"

text \<open>\<open>before\<close> is the task as the checkpoint has it, \<open>s\<close> the registry with the new record.\<close>

definition persist_playback_publication ::
  "environment \<Rightarrow> task \<Rightarrow> task option \<Rightarrow> task \<Rightarrow> registry \<Rightarrow> (status + task) \<times> registry" where
  "persist_playback_publication env before pending t s =
     (let (outcome, s1) = persist_task env t False None s in
      if is_permanent_failure outcome then (Inl FailedPrecondition, restore_task_record before pending s1)
      else (Inr t, end_publication t s1))"

definition with_playback_task ::
  "string \<Rightarrow> (string \<Rightarrow> task \<Rightarrow> (status + task) \<times> registry) \<Rightarrow> registry \<Rightarrow> (status + task) \<times> registry" where
  "with_playback_task task_id act s =
     (let task_id' = normalize task_id in
      if task_id' = [] then (Inl InvalidArgument, s)
      else (case hm_get (rg_tasks s) task_id' of
         None \<Rightarrow> (Inl NotFoundStatus, s)
       | Some t \<Rightarrow>
           if tk_kind t \<noteq> BilibiliProgressivePlayback then (Inl FailedPrecondition, s)
           else if is_terminal (tk_state t) then (Inr t, s)
           else act task_id' t))"

definition cancelled_by_request :: "timestamp \<Rightarrow> task \<Rightarrow> task" where
  "cancelled_by_request now t =
     t\<lparr>tk_state := Cancelled, tk_message := ''Cancelled by request.'', tk_updated_at := Some now,
       tk_finished_at := Some now\<rparr>"

definition publish_playback ::
  "environment \<Rightarrow> string \<Rightarrow> task \<Rightarrow> task \<Rightarrow> registry \<Rightarrow> (status + task) \<times> registry" where
  "publish_playback env task_id t t' s =
     persist_playback_publication env t (hm_get (rg_pending s) task_id) t'
       (s\<lparr>rg_tasks := hm_insert task_id t' (rg_tasks s)\<rparr>)"

definition complete_playback_planned ::
  "environment \<Rightarrow> string \<Rightarrow> string \<Rightarrow> playback_session \<Rightarrow> registry \<Rightarrow> (status + task) \<times> registry" where
  "complete_playback_planned env task_id title session s =
     with_playback_task task_id (\<lambda>task_id' t.
       publish_playback env task_id' t
         (if tk_state t = CancelRequested then cancelled_by_request (ev_now env) t
          else t\<lparr>tk_state := Planned, tk_title := title, tk_message := ''Bilibili playback plan is ready.'',
            tk_progress := Finite 0, tk_playback_source := None, tk_playback_session := Some session,
            tk_updated_at := Some (ev_now env)\<rparr>) s) s"

definition complete_playback_playable ::
  "environment \<Rightarrow> string \<Rightarrow> string \<Rightarrow> playback_source \<Rightarrow> playback_session \<Rightarrow> registry \<Rightarrow>
    (status + task) \<times> registry" where
  "complete_playback_playable env task_id title source session s =
     with_playback_task task_id (\<lambda>task_id' t.
       publish_playback env task_id' t
         (if tk_state t = CancelRequested then cancelled_by_request (ev_now env) t
          else t\<lparr>tk_state := Playable, tk_title := title,
            tk_message := ''Bilibili playback session is playable.'', tk_progress := Finite 0,
            tk_playback_source := Some source, tk_playback_session := Some session,
            tk_updated_at := Some (ev_now env)\<rparr>) s) s"

definition complete_playback_results_playable ::
  "environment \<Rightarrow> string \<Rightarrow> string \<Rightarrow> string \<Rightarrow> playback_source \<Rightarrow> playback_session \<Rightarrow>
    result_item list \<Rightarrow> registry \<Rightarrow> (status + task) \<times> registry" where
  "complete_playback_results_playable env task_id title message source session items s =
     with_playback_task task_id (\<lambda>task_id' t.
       publish_playback env task_id' t
         (if tk_state t = CancelRequested
          then (cancelled_by_request (ev_now env) t)\<lparr>tk_playback_source := None, tk_playback_session := None,
            tk_result_items := clear_result_playback_metadata Cancelled ''Cancelled by request.'' (tk_result_items t)\<rparr>
          else t\<lparr>tk_state := Playable, tk_title := title, tk_message := message,
            tk_progress := Finite 0, tk_playback_source := Some source,
            tk_playback_session := Some session, tk_result_items := items,
            tk_updated_at := Some (ev_now env)\<rparr>) s) s"

definition update_playback_results ::
  "environment \<Rightarrow> string \<Rightarrow> string option \<Rightarrow> string \<Rightarrow> float64 \<Rightarrow> result_item list \<Rightarrow> registry \<Rightarrow>
    (status + task) \<times> registry" where
  "update_playback_results env task_id title message progress items s =
     with_playback_task task_id (\<lambda>task_id' t.
       let t' = t\<lparr>tk_title := (case title of Some x \<Rightarrow> x | None \<Rightarrow> tk_title t), tk_message := message,
             tk_progress := (case progress of Finite v \<Rightarrow> Finite (clamp_to (99 / 100) v)
               | NotFinite \<Rightarrow> tk_progress t),
             tk_result_items := items, tk_updated_at := Some (ev_now env)\<rparr>;
           (outcome, s1) = persist_task env t' False None (s\<lparr>rg_tasks := hm_insert task_id' t' (rg_tasks s)\<rparr>)
       in if is_permanent_failure outcome
          then (Inl FailedPrecondition, restore_task_record t (hm_get (rg_pending s) task_id') s1)
          else (Inr t', s1)) s"

definition fail_playback_task_after_cache_restore ::
  "environment \<Rightarrow> string \<Rightarrow> string \<Rightarrow> registry \<Rightarrow> (status + task) \<times> registry" where
  "fail_playback_task_after_cache_restore env task_id message s =
     with_playback_task task_id (\<lambda>task_id' t.
       let t' = t\<lparr>tk_state := Failed, tk_message := message, tk_library_item_id := [],
             tk_playback_source := None, tk_playback_session := None,
             tk_result_items := clear_result_playback_metadata Failed message (tk_result_items t),
             tk_updated_at := Some (ev_now env), tk_finished_at := Some (ev_now env)\<rparr>
       in (Inr t', snd (persist_task env t' False None
             (clear_active_task t' (s\<lparr>rg_tasks := hm_insert task_id' t' (rg_tasks s)\<rparr>))))) s"

section \<open>Cached sessions\<close>

definition result_items_progress :: "result_item list \<Rightarrow> rat" where
  "result_items_progress items =
     (if items = [] then 0
      else clamp_to 1 (of_nat (length (filter (\<lambda>item. ri_state item \<in> {Playable, Completed, Failed, Cancelled}) items))
             / of_nat (length items)))"

definition cached_source :: "string \<Rightarrow> playback_session option \<Rightarrow> playback_source \<Rightarrow> playback_source" where
  "cached_source item_id completed source =
     source\<lparr>so_item_id := item_id,
       so_variant_id := (case completed of Some session \<Rightarrow> se_selected_variant_id session
         | None \<Rightarrow> so_variant_id source),
       so_expires_at := None\<rparr>"

definition cached_item ::
  "string \<Rightarrow> string \<Rightarrow> playback_session option \<Rightarrow> result_item \<Rightarrow> result_item" where
  "cached_item session_id item_id completed item =
     (if session_id \<notin> result_item_hls_session_ids item then item
      else item\<lparr>ri_state := Completed,
        ri_message := ''Bilibili playback session is cached for offline playback.'',
        ri_library_item_id := item_id,
        ri_playback_source := map_option (cached_source item_id completed) (ri_playback_source item),
        ri_playback_session := (case completed of Some session \<Rightarrow> Some session
          | None \<Rightarrow> ri_playback_session item)\<rparr>)"

definition cached_task ::
  "timestamp \<Rightarrow> string \<Rightarrow> string \<Rightarrow> playback_session option \<Rightarrow> task \<Rightarrow> task" where
  "cached_task now session_id item_id completed t =
     (let items = map (cached_item session_id item_id completed) (tk_result_items t) in
      if tk_state t = CancelRequested then
        t\<lparr>tk_state := Cancelled, tk_message := ''Cancelled by request.'', tk_library_item_id := [],
          tk_playback_source := None, tk_playback_session := None,
          tk_result_items := clear_result_playback_metadata Cancelled ''Cancelled by request.'' (tk_result_items t),
          tk_updated_at := Some now, tk_finished_at := Some now\<rparr>
      else if primary_hls_session_id t = Some session_id then
        t\<lparr>tk_state := Completed,
          tk_message := ''Bilibili playback session is cached for offline playback.'',
          tk_library_item_id := item_id,
          tk_playback_source := map_option (cached_source item_id completed) (tk_playback_source t),
          tk_playback_session := (case completed of Some session \<Rightarrow> Some session
            | None \<Rightarrow> tk_playback_session t),
          tk_result_items := items, tk_progress := Finite 1,
          tk_updated_at := Some now, tk_finished_at := Some now\<rparr>
      else
        t\<lparr>tk_result_items := items, tk_progress := Finite (result_items_progress items),
          tk_message := (if tk_state t = Completed
            then ''Completed offline; selected Bilibili playback results are cached.''
            else ''Playable online; selected Bilibili playback results are cached offline.''),
          tk_updated_at := Some now\<rparr>)"

definition complete_playback_hls_session_cached ::
  "environment \<Rightarrow> environment \<Rightarrow> string \<Rightarrow> string \<Rightarrow> string \<Rightarrow> playback_session option \<Rightarrow>
    registry \<Rightarrow> (status + task) \<times> registry" where
  "complete_playback_hls_session_cached env0 env task_id session_id item_id completed s0 =
     (let task_id' = normalize task_id; session_id' = normalize session_id in
      if task_id' = [] \<or> session_id' = [] then (Inl InvalidArgument, s0)
      else
        let (ok, s) = recover_first env0 is_durable s0 in
        if \<not> ok then (Inl Unavailable, s)
        else (case hm_get (rg_tasks s) task_id' of
           None \<Rightarrow> (Inl NotFoundStatus, s)
         | Some t \<Rightarrow>
             if tk_kind t \<noteq> BilibiliProgressivePlayback then (Inl FailedPrecondition, s)
             else if is_terminal (tk_state t) \<and> \<not> completed_task_has_playable_result t session_id'
               then (Inr t, s)
             else if tk_playback_source t = None \<or> tk_playback_session t = None
               then (Inl FailedPrecondition, s)
             else if primary_hls_session_id t \<noteq> Some session_id'
                \<and> \<not> (\<exists>item \<in> set (tk_result_items t). session_id' \<in> result_item_hls_session_ids item
                       \<and> (ri_state item = Playable \<or> ri_state item = Completed))
               then (Inl FailedPrecondition, s)
             else
               let t' = cached_task (ev_now env) session_id' item_id completed t;
                   s1 = s\<lparr>rg_tasks := hm_insert task_id' t' (rg_tasks s)\<rparr>;
                   s2 = (if is_terminal (tk_state t') then clear_active_task t' s1 else s1);
                   (outcome, s3) = persist_task env t' (durability_required s) None s2
               in (if durability_required s \<and> \<not> is_durable outcome then Inl Unavailable else Inr t', s3)))"

section \<open>What the registry says of a session\<close>

datatype publication_state = Absent | Pending | Published

definition has_completed_cache_item :: "task \<Rightarrow> string \<Rightarrow> string \<Rightarrow> bool" where
  "has_completed_cache_item t session_id item_id =
     (tk_kind t = BilibiliProgressivePlayback
      \<and> (tk_library_item_id t = item_id \<and> primary_hls_session_id t = Some session_id
         \<or> (\<exists>item \<in> set (tk_result_items t). ri_library_item_id item = item_id
              \<and> session_id \<in> result_item_hls_session_ids item \<and> ri_state item = Completed)))"

definition hls_session_publication_state :: "string \<Rightarrow> string \<Rightarrow> registry \<Rightarrow> publication_state" where
  "hls_session_publication_state task_id session_id s =
     (let task_id' = normalize task_id; session_id' = normalize session_id in
      if task_id' = [] \<or> session_id' = [] then Absent
      else if (case hm_get (rg_visible s) task_id' of
                 Some t \<Rightarrow> task_has_playable_hls_session t session_id' | None \<Rightarrow> False)
        then Published
      else (case hm_get (rg_tasks s) task_id' of
         None \<Rightarrow> Absent
       | Some t \<Rightarrow>
           if task_has_playable_hls_session t session_id'
              \<or> persistence_lost s
                \<and> has_completed_cache_item t session_id' (library_item_id session_id')
           then Pending else Absent))"

definition protected_completed_sessions :: "task \<Rightarrow> string set" where
  "protected_completed_sessions t =
     (\<Union>item \<in> set (filter (\<lambda>item. ri_state item = Playable \<or> ri_state item = Completed) (tk_result_items t)).
        result_item_hls_session_ids item) - set_option (primary_hls_session_id t)"

definition protected_sessions_of :: "task \<Rightarrow> string set" where
  "protected_sessions_of t =
     (if tk_kind t \<noteq> BilibiliProgressivePlayback then {}
      else if tk_state t = Completed then protected_completed_sessions t
      else if is_terminal (tk_state t) then {}
      else playback_hls_session_ids t)"

definition protected_hls_cache_session_ids :: "registry \<Rightarrow> string set" where
  "protected_hls_cache_session_ids s = (\<Union>t \<in> set (hm_values (rg_visible s)). protected_sessions_of t)"

definition task_authorizes_hls_session_for_cleanup :: "string \<Rightarrow> registry \<Rightarrow> bool" where
  "task_authorizes_hls_session_for_cleanup session_id s =
     (let session_id' = normalize session_id in
      session_id' \<noteq> []
      \<and> (\<exists>t \<in> set (hm_values (rg_visible s)). tk_kind t = BilibiliProgressivePlayback
           \<and> (tk_state t \<in> {Queued, Running, Preparing, CancelRequested}
                \<and> (tk_id t = session_id' \<or> task_uses_hls_session t session_id')
              \<or> tk_state t \<in> {Playable, Completed} \<and> task_uses_hls_session t session_id')))"

end
