(* ===== verification/Task_Restore.thy ===== *)
theory Task_Restore
  imports Task_Playback
begin

text \<open>
  The operations of \<open>task_registry.rs\<close> that change a task after its work: a cached session that cannot
  be restored, a cached playback or a media file that is deleted, the terminal commit of a download
  with its staged output, resources that expire, the directories of a download and their clean-up, the
  fill status of a session and the refresh of its source. The output records and the files are not
  part of the state: what they answer and what they say of a task's results are arguments. Where
  the source takes the first of the live tasks that fits, in the order of its hash map, the model takes
  it in the order of \<open>rg_tasks\<close>.
\<close>

section \<open>Several tasks at once\<close>

definition stage_publications :: "task list \<Rightarrow> registry \<Rightarrow> registry" where
  "stage_publications ts s = fold stage_publication ts s"

definition persist_tasks ::
  "environment \<Rightarrow> task list \<Rightarrow> bool \<Rightarrow> registry option \<Rightarrow> registry \<Rightarrow> commit_outcome \<times> registry" where
  "persist_tasks env ts required checkpoint s =
     persist_pending env required checkpoint False (stage_publications ts s)"

definition persist_tasks_before_destructive ::
  "environment \<Rightarrow> task list \<Rightarrow> bool \<Rightarrow> registry option \<Rightarrow> registry \<Rightarrow> commit_outcome \<times> registry" where
  "persist_tasks_before_destructive env ts required checkpoint s =
     persist_pending env required checkpoint True (stage_publications ts s)"

text \<open>\<open>change\<close> gives the new record of a task that changes; the changed tasks, and all of them.\<close>

definition changed_tasks :: "(task \<Rightarrow> task option) \<Rightarrow> registry \<Rightarrow> task list" where
  "changed_tasks change s = List.map_filter change (hm_values (rg_tasks s))"

definition change_tasks :: "(task \<Rightarrow> task option) \<Rightarrow> registry \<Rightarrow> registry" where
  "change_tasks change s =
     s\<lparr>rg_tasks := map (\<lambda>(i, t). (i, case change t of Some t' \<Rightarrow> t' | None \<Rightarrow> t)) (rg_tasks s)\<rparr>"

section \<open>Sessions that cannot be restored\<close>

definition failed_playback :: "timestamp \<Rightarrow> string \<Rightarrow> task \<Rightarrow> task" where
  "failed_playback now message t =
     t\<lparr>tk_state := Failed, tk_message := message, tk_library_item_id := [],
       tk_playback_source := None, tk_playback_session := None,
       tk_result_items := clear_result_playback_metadata Failed message (tk_result_items t),
       tk_updated_at := Some now, tk_finished_at := Some now\<rparr>"

text \<open>The task whose identifier \<open>completed_playback_task_id_for_any_hls_session_locked\<close> finds.\<close>

definition completed_playback_task :: "string \<Rightarrow> registry \<Rightarrow> task option" where
  "completed_playback_task session_id s =
     Option.bind
       (find (\<lambda>t. tk_kind t = BilibiliProgressivePlayback \<and> tk_state t = Completed
          \<and> session_id \<in> playback_hls_session_ids t) (hm_values (rg_tasks s)))
       (\<lambda>t. hm_get (rg_tasks s) (tk_id t))"

definition fail_completed_playback_task_after_cache_restore ::
  "environment \<Rightarrow> string \<Rightarrow> string \<Rightarrow> registry \<Rightarrow> (status + task) \<times> registry" where
  "fail_completed_playback_task_after_cache_restore env session_id message s =
     (let session_id' = normalize session_id in
      if session_id' = [] then (Inl InvalidArgument, s)
      else (case completed_playback_task session_id' s of
         None \<Rightarrow> (Inl NotFoundStatus, s)
       | Some t \<Rightarrow>
           if tk_kind t \<noteq> BilibiliProgressivePlayback then (Inl FailedPrecondition, s)
           else if tk_state t \<noteq> Completed then (Inr t, s)
           else
             let t' = failed_playback (ev_now env) message t
             in (Inr t', snd (persist_task env t' False None
                   (clear_active_task t' (s\<lparr>rg_tasks := hm_insert (tk_id t) t' (rg_tasks s)\<rparr>))))))"

definition item_serves_online :: "result_item \<Rightarrow> bool" where
  "item_serves_online item =
     (ri_state item = Playable \<or> ri_state item = Completed \<or> item_online_after_fill_failure item)"

definition expired_item :: "string \<Rightarrow> result_item \<Rightarrow> result_item" where
  "expired_item message item = item\<lparr>ri_state := Failed, ri_message := message,
     ri_library_item_id := [], ri_playback_source := None, ri_playback_session := None\<rparr>"

text \<open>
  The three functions that take playback away from some of the result items differ in the items
  they pick; each answers whether there was one.
\<close>

definition expire_items ::
  "(result_item \<Rightarrow> bool) \<Rightarrow> string \<Rightarrow> result_item list \<Rightarrow> bool \<times> result_item list" where
  "expire_items pick message items =
     (list_ex pick items, map (\<lambda>item. if pick item then expired_item message item else item) items)"

definition clear_unrestorable_result_playback_metadata_for_session ::
  "string \<Rightarrow> string \<Rightarrow> result_item list \<Rightarrow> bool \<times> result_item list" where
  "clear_unrestorable_result_playback_metadata_for_session session_id =
     expire_items (\<lambda>item. item_serves_online item \<and> session_id \<in> result_item_hls_session_ids item)"

definition clear_completed_result_cache_item_for_session ::
  "string \<Rightarrow> string \<Rightarrow> string \<Rightarrow> result_item list \<Rightarrow> bool \<times> result_item list" where
  "clear_completed_result_cache_item_for_session session_id item_id =
     expire_items (\<lambda>item. ri_library_item_id item = item_id \<and> ri_state item = Completed
       \<and> session_id \<in> result_item_hls_session_ids item)"

definition item_can_survive_restore :: "string set \<Rightarrow> string set \<Rightarrow> result_item \<Rightarrow> bool" where
  "item_can_survive_restore playable completed item =
     (if ri_state item = Completed then
        (\<exists>session_id \<in> result_item_hls_session_ids item. session_id \<in> completed
           \<and> ri_library_item_id item = library_item_id session_id)
      else if ri_state item = Playable \<or> item_online_after_fill_failure item then
        (\<exists>session_id \<in> result_item_hls_session_ids item. session_id \<in> playable)
      else False)"

definition PLAYABLE_EXPIRED_AFTER_RESTART_MESSAGE :: string where
  "PLAYABLE_EXPIRED_AFTER_RESTART_MESSAGE =
     ''Playback media session expired during cache server restart.''"

definition clear_unrestorable_result_playback_metadata ::
  "string set \<Rightarrow> string set \<Rightarrow> result_item list \<Rightarrow> bool \<times> result_item list" where
  "clear_unrestorable_result_playback_metadata playable completed =
     expire_items (\<lambda>item. \<not> item_can_survive_restore playable completed item \<and> item_serves_online item)
       PLAYABLE_EXPIRED_AFTER_RESTART_MESSAGE"

text \<open>A task that goes on with the result items that are left.\<close>

definition with_items :: "timestamp \<Rightarrow> string \<Rightarrow> result_item list \<Rightarrow> task \<Rightarrow> task" where
  "with_items now message items t =
     t\<lparr>tk_result_items := items, tk_progress := Finite (result_items_progress items),
       tk_message := message, tk_updated_at := Some now\<rparr>"

definition rejected_session_task :: "timestamp \<Rightarrow> string \<Rightarrow> string \<Rightarrow> task \<Rightarrow> task option" where
  "rejected_session_task now session_id message t =
     (if primary_hls_session_id t = Some session_id then Some (failed_playback now message t)
      else (case clear_unrestorable_result_playback_metadata_for_session session_id message (tk_result_items t) of
         (False, _) \<Rightarrow> None
       | (True, items) \<Rightarrow> Some (with_items now
           (if tk_state t = Completed
            then ''Completed offline cache restored; some Bilibili playback results expired after cache restore.''
            else ''Playable online; some Bilibili playback results expired after cache restore.'') items t)))"

definition fail_unrestorable_playback_session_after_cache_restore ::
  "environment \<Rightarrow> environment \<Rightarrow> string \<Rightarrow> string \<Rightarrow> registry \<Rightarrow> (status + task option) \<times> registry" where
  "fail_unrestorable_playback_session_after_cache_restore env0 env session_id message s0 =
     (let session_id' = normalize session_id in
      if session_id' = [] then (Inl InvalidArgument, s0)
      else
        let (ok, s) = recover_first env0 is_durable s0 in
        if \<not> ok then (Inl Unavailable, s)
        else (case find (\<lambda>t. tk_kind t = BilibiliProgressivePlayback
                  \<and> (tk_state t = Playable \<or> tk_state t = Completed)
                  \<and> (primary_hls_session_id t = Some session_id'
                     \<or> list_ex (\<lambda>item. session_id' \<in> result_item_hls_session_ids item \<and> item_serves_online item)
                         (tk_result_items t))) (hm_values (rg_tasks s)) of
           None \<Rightarrow> (Inr None, s)
         | Some t \<Rightarrow>
             (case rejected_session_task (ev_now env) session_id' message t of
                None \<Rightarrow> (Inr None, s)
              | Some t' \<Rightarrow>
                  let s1 = s\<lparr>rg_tasks := hm_insert (tk_id t) t' (rg_tasks s)\<rparr>;
                      s2 = (if tk_state t' = Failed then clear_active_task t' s1 else s1);
                      (outcome, s3) = persist_task_before_destructive env t' (durability_required s)
                        (durability_checkpoint s) s2
                  in (if durability_required s \<and> \<not> is_durable outcome then Inl Unavailable
                      else Inr (Some t'), s3))))"

definition unrestorable_task :: "timestamp \<Rightarrow> string set \<Rightarrow> string set \<Rightarrow> task \<Rightarrow> task option" where
  "unrestorable_task now playable completed t =
     (if tk_kind t \<noteq> BilibiliProgressivePlayback \<or> tk_state t \<noteq> Playable \<and> tk_state t \<noteq> Completed then None
      else
        let restorable = (if tk_state t = Playable then playable else completed);
            primary_restorable = (case primary_hls_session_id t of Some p \<Rightarrow> p \<in> restorable | None \<Rightarrow> False)
        in if \<not> primary_restorable then Some (failed_playback now PLAYABLE_EXPIRED_AFTER_RESTART_MESSAGE t)
           else (case clear_unrestorable_result_playback_metadata playable completed (tk_result_items t) of
              (False, _) \<Rightarrow> None
            | (True, items) \<Rightarrow> Some (with_items now
                (if tk_state t = Playable
                 then ''Playable online; some Bilibili playback results expired after restart.''
                 else ''Completed offline cache restored; some Bilibili playback results expired after restart.'')
                items t)))"

definition fail_unrestorable_playback_tasks ::
  "environment \<Rightarrow> string set \<Rightarrow> string set \<Rightarrow> registry \<Rightarrow> string list \<times> registry" where
  "fail_unrestorable_playback_tasks env playable completed s =
     (let change = unrestorable_task (ev_now env) playable completed;
          changed = changed_tasks change s
      in if changed = [] then ([], s)
         else (map tk_id changed, snd (persist_tasks env changed False None (change_tasks change s))))"

section \<open>Deleted media\<close>

definition PLAYBACK_CACHE_DELETED_MESSAGE :: string where
  "PLAYBACK_CACHE_DELETED_MESSAGE = ''Bilibili playback cache was deleted.''"

definition LIBRARY_ITEM_DELETED_MESSAGE :: string where
  "LIBRARY_ITEM_DELETED_MESSAGE = ''Cached media was deleted from the library.''"

text \<open>The task whose identifier \<open>playback_task_id_for_completed_result_cache_item_locked\<close> finds.\<close>

definition playable_task_with_cached_result :: "string \<Rightarrow> string \<Rightarrow> registry \<Rightarrow> task option" where
  "playable_task_with_cached_result session_id item_id s =
     Option.bind
       (find (\<lambda>t. tk_kind t = BilibiliProgressivePlayback \<and> tk_state t = Playable
          \<and> list_ex (\<lambda>item. ri_library_item_id item = item_id
               \<and> session_id \<in> result_item_hls_session_ids item \<and> ri_state item = Completed)
              (tk_result_items t)) (hm_values (rg_tasks s)))
       (\<lambda>t. hm_get (rg_tasks s) (tk_id t))"

text \<open>
  \<open>output_ok\<close>: the output record of the task accepts the deletion
  (\<open>mark_output_playback_cache_deleted_locked\<close>).
\<close>

definition delete_cached_result ::
  "environment \<Rightarrow> bool \<Rightarrow> task \<Rightarrow> registry \<Rightarrow> (status + bool) \<times> registry" where
  "delete_cached_result env output_ok t' s =
     (let s1 = s\<lparr>rg_tasks := hm_insert (tk_id t') t' (rg_tasks s)\<rparr> in
      if \<not> output_ok then (Inl InternalStatus, restore_checkpoint s s1)
      else
        let (outcome, s2) = persist_task_before_destructive env t' (durability_required s)
              (durability_checkpoint s) s1
        in (if durability_required s \<and> \<not> is_durable outcome then Inl Unavailable else Inr True, s2))"

definition remove_task_record :: "environment \<Rightarrow> task \<Rightarrow> registry \<Rightarrow> (status + bool) \<times> registry" where
  "remove_task_record env t s =
     (let task_id = tk_id t;
          removed = failed_playback (ev_now env) PLAYBACK_CACHE_DELETED_MESSAGE t;
          s1 = s\<lparr>rg_tasks := hm_remove task_id (rg_tasks s),
            rg_download_options := hm_remove task_id (rg_download_options s),
            rg_playback_options := hm_remove task_id (rg_playback_options s),
            rg_request_context := hm_remove task_id (rg_request_context s),
            rg_running := hm_remove task_id (rg_running s),
            rg_planning := hm_remove task_id (rg_planning s)\<rparr>;
          (outcome, s2) = persist_task_before_destructive env removed (durability_required s)
            (durability_checkpoint s) s1
      in (if durability_required s \<and> \<not> is_durable outcome then Inl Unavailable else Inr True, s2))"

definition remove_completed_playback_task ::
  "environment \<Rightarrow> bool \<Rightarrow> string \<Rightarrow> string \<Rightarrow> registry \<Rightarrow> (status + bool) \<times> registry" where
  "remove_completed_playback_task env output_ok session_id item_id s =
     (let session_id' = normalize session_id in
      if session_id' = [] then (Inl InvalidArgument, s)
      else (case completed_playback_task session_id' s of
         None \<Rightarrow>
           (case playable_task_with_cached_result session_id' item_id s of
              Some t \<Rightarrow>
                (case clear_unrestorable_result_playback_metadata_for_session session_id'
                    PLAYBACK_CACHE_DELETED_MESSAGE (tk_result_items t) of
                   (False, _) \<Rightarrow> (Inr False, s)
                 | (True, items) \<Rightarrow> delete_cached_result env output_ok
                     (with_items (ev_now env)
                       ''Playable online; one cached Bilibili playback result was deleted.'' items t) s)
            | None \<Rightarrow>
                (case hm_get (rg_tasks s) session_id' of
                   None \<Rightarrow> (Inr False, s)
                 | Some t \<Rightarrow> (Inl FailedPrecondition, s)))
       | Some t \<Rightarrow>
           if tk_kind t \<noteq> BilibiliProgressivePlayback \<or> tk_state t \<noteq> Completed
             then (Inl FailedPrecondition, s)
           else if tk_library_item_id t = item_id \<and> primary_hls_session_id t = Some session_id'
             then remove_task_record env t s
           else (case clear_completed_result_cache_item_for_session session_id' item_id
               PLAYBACK_CACHE_DELETED_MESSAGE (tk_result_items t) of
              (False, _) \<Rightarrow> (Inl FailedPrecondition, s)
            | (True, items) \<Rightarrow> delete_cached_result env output_ok
                (with_items (ev_now env)
                  ''Completed offline; one cached Bilibili playback result was deleted.'' items t) s)))"

text \<open>
  What the output record of a task says after the deletion of a library item, when it had a result
  or an artifact with that item: by result the state, the library item, whether its media are gone
  and the message; and the library item of the primary result.
\<close>

record result_update =
  ru_state :: task_state
  ru_library_item_id :: string
  ru_media_deleted :: bool
  ru_message :: string

record output_update =
  ou_results :: "(string, result_update) hmap"
  ou_primary_library_item_id :: string

definition uses_library_item :: "string \<Rightarrow> playback_source option \<Rightarrow> string \<Rightarrow> bool" where
  "uses_library_item library_item source item_id =
     (library_item = item_id \<or> (case source of Some x \<Rightarrow> so_item_id x = item_id | None \<Rightarrow> False))"

definition item_update :: "output_update option \<Rightarrow> result_item \<Rightarrow> result_update option" where
  "item_update update item = Option.bind update (\<lambda>u. hm_get (ou_results u) (ri_id item))"

definition item_loses_media :: "string \<Rightarrow> output_update option \<Rightarrow> result_item \<Rightarrow> bool" where
  "item_loses_media item_id update item =
     (item_update update item = None
      \<and> uses_library_item (ri_library_item_id item) (ri_playback_source item) item_id)"

definition tombstoned_item :: "string \<Rightarrow> output_update option \<Rightarrow> result_item \<Rightarrow> result_item" where
  "tombstoned_item item_id update item =
     (case item_update update item of
        Some r \<Rightarrow> item\<lparr>ri_state := ru_state r, ri_library_item_id := ru_library_item_id r,
          ri_playback_source := (if ru_media_deleted r then None else ri_playback_source item),
          ri_playback_session := (if ru_media_deleted r then None else ri_playback_session item),
          ri_message := (if ru_message r \<noteq> [] then ru_message r else ri_message item)\<rparr>
      | None \<Rightarrow>
          if item_loses_media item_id update item
          then item\<lparr>ri_state := Failed, ri_library_item_id := [], ri_playback_source := None,
            ri_message := LIBRARY_ITEM_DELETED_MESSAGE\<rparr>
          else item)"

definition has_successful_media_result :: "task \<Rightarrow> bool" where
  "has_successful_media_result t =
     (if tk_result_items t = [] then
        (tk_state t = Succeeded \<or> tk_state t = Completed) \<and> tk_library_item_id t \<noteq> []
      else list_ex (\<lambda>item. ri_state item = Succeeded \<or> ri_state item = Completed) (tk_result_items t))"

definition tombstoned_task ::
  "timestamp \<Rightarrow> string \<Rightarrow> (string, output_update) hmap \<Rightarrow> task \<Rightarrow> task option" where
  "tombstoned_task now item_id updates t =
     (let update = hm_get updates (tk_id t);
          top_level = uses_library_item (tk_library_item_id t) (tk_playback_source t) item_id;
          t1 = (if top_level then t\<lparr>tk_library_item_id := [], tk_playback_source := None,
            tk_playback_session := None\<rparr> else t);
          t2 = t1\<lparr>tk_result_items := map (tombstoned_item item_id update) (tk_result_items t1)\<rparr>;
          t3 = (case update of Some u \<Rightarrow> t2\<lparr>tk_library_item_id := ou_primary_library_item_id u\<rparr> | None \<Rightarrow> t2);
          t4 = (if (tk_kind t3 = BilibiliDownload \<or> tk_kind t3 = BilibiliProgressivePlayback)
                  \<and> \<not> has_successful_media_result t3
            then t3\<lparr>tk_state := Failed, tk_message := LIBRARY_ITEM_DELETED_MESSAGE\<rparr>
            else t3\<lparr>tk_message := ''One cached media result was deleted from the library.''\<rparr>)
      in if update = None \<and> \<not> top_level \<and> \<not> list_ex (item_loses_media item_id update) (tk_result_items t)
         then None else Some (t4\<lparr>tk_updated_at := Some now\<rparr>))"

text \<open>
  \<open>prepared\<close>: what the checks of the deletion answer before a task is touched (the path of the
  identifier, the storage root, the intents for the clean-up); \<open>outputs_ok\<close>: every output record
  accepts the deletion. A refusal takes everything back. The answer names the tasks that changed.
\<close>

definition tombstone_library_item_before_delete ::
  "environment \<Rightarrow> status + unit \<Rightarrow> bool \<Rightarrow> (string, output_update) hmap \<Rightarrow> string \<Rightarrow> registry \<Rightarrow>
    (status + string list) \<times> registry" where
  "tombstone_library_item_before_delete env prepared outputs_ok updates item_id s =
     (let item_id' = normalize item_id in
      if item_id' = [] then (Inl InvalidArgument, s)
      else (case prepared of
         Inl e \<Rightarrow> (Inl e, s)
       | Inr _ \<Rightarrow>
           if \<not> outputs_ok then (Inl InternalStatus, s)
           else
             let change = tombstoned_task (ev_now env) item_id' updates;
                 changed = changed_tasks change s;
                 (outcome, s1) = persist_tasks_before_destructive env changed (durability_required s)
                   (durability_checkpoint s) (change_tasks change s)
             in (if durability_required s \<and> \<not> is_durable outcome then Inl Unavailable
                 else Inr (map tk_id changed), s1)))"

section \<open>The end of a download with its output\<close>

text \<open>
  By result the state, the library item and the message of its problem; and whether directories of
  the download are left to be removed, which holds back the identifier in the queue.
\<close>

record terminal_output =
  to_results :: "(string, task_state \<times> string \<times> string) hmap"
  to_owned_directories :: bool

definition committed_item :: "task_state \<Rightarrow> string \<Rightarrow> terminal_output \<Rightarrow> result_item \<Rightarrow> result_item" where
  "committed_item state message out item =
     (case hm_get (to_results out) (ri_id item) of
        Some (result_state, item_id, problem) \<Rightarrow> item\<lparr>ri_state := result_state,
          ri_library_item_id := item_id,
          ri_message := (if problem = [] then message else problem)\<rparr>
      | None \<Rightarrow> item\<lparr>ri_state := state, ri_message := message,
          ri_library_item_id := (if state \<noteq> Succeeded then [] else ri_library_item_id item)\<rparr>)"

definition committed_download ::
  "timestamp \<Rightarrow> task_state \<Rightarrow> string \<Rightarrow> string \<Rightarrow> terminal_output \<Rightarrow> task \<Rightarrow> task" where
  "committed_download now terminal_state item_id message out t =
     (let effective_state = (if tk_state t = CancelRequested then Cancelled else terminal_state);
          effective_message = (if effective_state = Cancelled \<and> terminal_state \<noteq> Cancelled
            then ''Cancelled by request.'' else message)
      in t\<lparr>tk_state := effective_state, tk_message := effective_message, tk_progress := Finite 1,
           tk_library_item_id := (if effective_state = Succeeded then item_id else []),
           tk_result_items := map (committed_item effective_state effective_message out) (tk_result_items t),
           tk_updated_at := Some now, tk_finished_at := Some now\<rparr>)"

text \<open>
  \<open>storage_ok\<close>, \<open>intents\<close> and \<open>checked\<close> are what the storage of resources, the clean-up intents of the
  given paths, and the checks of the new output answer. The resources that have expired are retired
  before, in a step of its own (\<open>retire_expired_task_resources_except\<close>).
\<close>

definition commit_staged_download_terminal ::
  "environment \<Rightarrow> bool \<Rightarrow> status + unit \<Rightarrow> status + unit \<Rightarrow> terminal_output \<Rightarrow> task_state \<Rightarrow> string \<Rightarrow>
    string \<Rightarrow> string \<Rightarrow> registry \<Rightarrow> (status + task) \<times> registry" where
  "commit_staged_download_terminal env storage_ok intents checked out terminal_state item_id message task_id s =
     (let task_id' = normalize task_id in
      if terminal_state \<notin> {Succeeded, Failed, Cancelled} then (Inl InvalidArgument, s)
      else if \<not> storage_ok then (Inl FailedPrecondition, s)
      else if task_id' = [] then (Inl InvalidArgument, s)
      else (case intents of
         Inl e \<Rightarrow> (Inl e, s)
       | Inr _ \<Rightarrow>
      (case hm_get (rg_tasks s) task_id' of
         None \<Rightarrow> (Inl NotFoundStatus, s)
       | Some t \<Rightarrow>
           if tk_kind t \<noteq> BilibiliDownload then (Inl FailedPrecondition, s)
           else if is_terminal (tk_state t) then
             (Inr (case hm_get (rg_visible s) task_id' of Some v \<Rightarrow> v | None \<Rightarrow> t), s)
           else if tk_state t = CancelRequested \<and> terminal_state \<noteq> Cancelled then (Inl CancelledStatus, s)
           else (case checked of
              Inl e \<Rightarrow> (Inl e, s)
            | Inr _ \<Rightarrow>
                let t' = committed_download (ev_now env) terminal_state item_id message out t;
                    owners = removeAll task_id' (rg_cleanup_owners s);
                    s1 = clear_active_task t' (s\<lparr>rg_tasks := hm_insert task_id' t' (rg_tasks s),
                      rg_cleanup_owners := (if to_owned_directories out then task_id' # owners else owners)\<rparr>);
                    (outcome, s2) = persist_task env t' True (Some s) s1
                in (if is_committed outcome then Inr t' else Inl Unavailable, s2)))))"

text \<open>\<open>expired\<close>: the tasks whose output lost a resource that expired.\<close>

definition retire_expired_task_resources_except ::
  "environment \<Rightarrow> string list \<Rightarrow> registry \<Rightarrow> bool \<times> registry" where
  "retire_expired_task_resources_except env expired s =
     (if expired = [] then (False, s)
      else
        let change = (\<lambda>t. if tk_id t \<in> set expired then Some (t\<lparr>tk_updated_at := Some (ev_now env)\<rparr>) else None);
            (outcome, s1) = persist_tasks env (changed_tasks change s) (durability_required s)
              (durability_checkpoint s) (change_tasks change s)
        in (is_committed outcome, s1))"

section \<open>The directories of a download\<close>

text \<open>
  \<open>intents\<close>: the intents to remove the given paths (here one entry per path); \<open>replaced\<close>: whether they
  may replace the earlier ones of the task. While a task owns directories its old output is being
  removed and it is not claimed.
\<close>

definition register_bilibili_owned_output_directories ::
  "environment \<Rightarrow> status + string list \<Rightarrow> status + unit \<Rightarrow> string \<Rightarrow> registry \<Rightarrow> (status + unit) \<times> registry" where
  "register_bilibili_owned_output_directories env intents replaced task_id s =
     (let task_id' = normalize task_id in
      if rg_persistence s = None then (Inl FailedPrecondition, s)
      else if task_id' = [] then (Inl InvalidArgument, s)
      else (case intents of
         Inl e \<Rightarrow> (Inl e, s)
       | Inr paths \<Rightarrow>
           if paths = [] then (Inl InvalidArgument, s)
           else (case hm_get (rg_tasks s) task_id' of
              None \<Rightarrow> (Inl NotFoundStatus, s)
            | Some t \<Rightarrow>
                if tk_kind t \<noteq> BilibiliDownload \<or> tk_state t \<noteq> Running
                   \<or> (case hm_get (rg_candidates s) task_id' of None \<Rightarrow> True | Some cs \<Rightarrow> cs = [])
                then (Inl FailedPrecondition, s)
                else (case replaced of
                   Inl e \<Rightarrow> (Inl e, s)
                 | Inr _ \<Rightarrow>
                     let (outcome, s1) = persist_pending env True (Some s) True
                           (s\<lparr>rg_cleanup_owners := task_id' # removeAll task_id' (rg_cleanup_owners s)\<rparr>)
                     in (if is_durable outcome then Inr () else Inl Unavailable, s1)))))"

text \<open>
  \<open>answer\<close>: what the removal of the files answers; \<open>completed\<close>: some intent was completed; \<open>released\<close>:
  the owners of which no intent is left.
\<close>

definition retry_file_cleanup_intents ::
  "environment \<Rightarrow> status + bool \<Rightarrow> bool \<Rightarrow> string list \<Rightarrow> registry \<Rightarrow> (status + bool) \<times> registry" where
  "retry_file_cleanup_intents env answer completed released s =
     (if \<not> completed then (answer, s)
      else
        let (outcome, s1) = persist_pending env (durability_required s) (durability_checkpoint s) True
              (s\<lparr>rg_cleanup_owners := filter (\<lambda>i. i \<notin> set released) (rg_cleanup_owners s)\<rparr>)
        in (if durability_required s \<and> \<not> is_durable outcome then Inl Unavailable else answer, s1))"

section \<open>The fill status of a session\<close>

definition hls_cache_fill_status_client_message :: "fill_status \<Rightarrow> string" where
  "hls_cache_fill_status_client_message st =
     (case fl_state st of
        FillQueued \<Rightarrow> ''Queued for offline filling.''
      | Filling \<Rightarrow> ''Filling selected video and audio for offline playback.''
      | FillPreempted \<Rightarrow> ''Offline fill paused; verified partial cache data is retained.''
      | FillRetrying \<Rightarrow>
          if fl_failure_kind st = FailurePersistence
          then ''Offline fill will retry after durable task-state recovery.''
          else ''Offline fill will retry after a temporary network error.''
      | FillBlockedQuota \<Rightarrow> ''Offline fill is waiting for cache quota.''
      | FillCompleted \<Rightarrow> ''Selected video and audio are complete for offline playback.''
      | FillSourceUnavailable \<Rightarrow> ''The current source is unavailable; verified partial cache data is retained.''
      | FillFailed \<Rightarrow>
          if fl_failure_kind st = FailureSafety
          then ''Offline fill stopped because the source response failed validation.''
          else ''Offline cache fill failed; online playback remains available.''
      | FillCancelled \<Rightarrow> ''Offline cache fill was cancelled.''
      | FillUnspecified \<Rightarrow> ''Offline cache fill status is unavailable.'')"

text \<open>What is reported joined with what is known; \<open>None\<close>: the known status stands.\<close>

definition merged_fill_status :: "bool \<Rightarrow> fill_status option \<Rightarrow> fill_status \<Rightarrow> fill_status option" where
  "merged_fill_status verified current st =
     (case current of
        None \<Rightarrow> Some st
      | Some previous \<Rightarrow>
          let same = (fl_representation_id st \<noteq> [] \<and> fl_representation_id previous = fl_representation_id st);
              safety_failure = (fl_state st = FillFailed \<and> fl_failure_kind st = FailureSafety);
              repair = (verified \<and> same \<and> fl_state previous = FillCompleted \<and> \<not> fl_total_bytes_known previous)
          in if fl_state previous = FillCompleted \<and> \<not> repair \<and> \<not> (same \<and> safety_failure) then None
             else if \<not> same \<and> fl_state previous = FillCompleted then None
             else if \<not> same then
               (if \<not> verified \<and> fl_state st = FillCompleted then None else Some st)
             else
               let st1 = st\<lparr>fl_completed_bytes := max (fl_completed_bytes st) (fl_completed_bytes previous)\<rparr>;
                   st2 = (if \<not> fl_total_bytes_known st1 \<and> fl_total_bytes_known previous
                     then st1\<lparr>fl_total_bytes := fl_total_bytes previous, fl_total_bytes_known := True\<rparr> else st1);
                   st3 = (if verified \<and> fl_total_bytes_known st2
                     then st2\<lparr>fl_completed_bytes := min (fl_completed_bytes st2) (fl_total_bytes st2)\<rparr> else st2)
               in Some st3)"

fun update_first :: "('a \<Rightarrow> bool) \<Rightarrow> ('a \<Rightarrow> 'a) \<Rightarrow> 'a list \<Rightarrow> 'a list" where
  "update_first P f [] = []"
| "update_first P f (x # xs) = (if P x then f x # xs else x # update_first P f xs)"

text \<open>The first result item of the session.\<close>

definition matching_item :: "string \<Rightarrow> task \<Rightarrow> result_item option" where
  "matching_item session_id t =
     find (\<lambda>item. session_id \<in> result_item_hls_session_ids item) (tk_result_items t)"

text \<open>A playable or completed task takes a status for its primary session or for a result; while it is
  being prepared, only for a result that is there already.\<close>

definition takes_fill_status :: "bool \<Rightarrow> string \<Rightarrow> task \<Rightarrow> bool" where
  "takes_fill_status verified session_id t =
     (let child_state = map_option ri_state (matching_item session_id t);
          playable_child = (tk_state t = Preparing \<and> child_state = Some Playable);
          completed_child = (verified \<and> tk_state t = Preparing \<and> child_state = Some Completed)
      in (tk_state t = Playable \<or> tk_state t = Completed \<or> playable_child \<or> completed_child)
         \<and> (child_state \<noteq> None \<or> primary_hls_session_id t = Some session_id))"

definition current_fill_status :: "string \<Rightarrow> task \<Rightarrow> fill_status option" where
  "current_fill_status session_id t =
     (case Option.bind (matching_item session_id t) ri_fill_status of
        Some x \<Rightarrow> Some x
      | None \<Rightarrow> if primary_hls_session_id t = Some session_id then tk_fill_status t else None)"

definition filled_task :: "timestamp \<Rightarrow> string \<Rightarrow> fill_status \<Rightarrow> task \<Rightarrow> task" where
  "filled_task now session_id st t =
     t\<lparr>tk_fill_status := (if primary_hls_session_id t = Some session_id then Some st else tk_fill_status t),
       tk_result_items := update_first (\<lambda>item. session_id \<in> result_item_hls_session_ids item)
         (\<lambda>item. item\<lparr>ri_fill_status := Some st\<rparr>) (tk_result_items t),
       tk_updated_at := Some now\<rparr>"

text \<open>\<open>output_ok\<close>: the output record has a result for the session and accepts the status.\<close>

definition store_fill_status ::
  "environment \<Rightarrow> bool \<Rightarrow> string \<Rightarrow> string \<Rightarrow> fill_status \<Rightarrow> task \<Rightarrow> registry \<Rightarrow>
    (status + task option) \<times> registry" where
  "store_fill_status env output_ok task_id session_id st t s =
     (let t' = filled_task (ev_now env) session_id st t;
          s1 = s\<lparr>rg_tasks := hm_insert task_id t' (rg_tasks s)\<rparr>
      in if \<not> output_ok then (Inl FailedPrecondition, restore_checkpoint s s1)
         else
           let (outcome, s2) = persist_task env t' (durability_required s) (Some s) s1
           in (if durability_required s \<and> \<not> is_durable outcome then Inl Unavailable
               else Inr (Some t'), s2))"

definition update_hls_cache_fill_status_inner ::
  "environment \<Rightarrow> bool \<Rightarrow> string \<Rightarrow> string \<Rightarrow> fill_status \<Rightarrow> bool \<Rightarrow> registry \<Rightarrow>
    (status + task option) \<times> registry" where
  "update_hls_cache_fill_status_inner env output_ok task_id session_id st verified s =
     (let task_id' = normalize task_id; session_id' = normalize session_id in
      if task_id' = [] \<or> session_id' = [] then (Inl InvalidArgument, s)
      else (case hm_get (rg_tasks s) task_id' of
         None \<Rightarrow> (Inl NotFoundStatus, s)
       | Some t \<Rightarrow>
           if tk_kind t \<noteq> BilibiliProgressivePlayback then (Inl FailedPrecondition, s)
           else if \<not> takes_fill_status verified session_id' t then (Inr None, s)
           else
             let current = current_fill_status session_id' t in
             (case merged_fill_status verified current st of
                None \<Rightarrow> (Inr (Some t), s)
              | Some merged \<Rightarrow>
                  let st' = merged\<lparr>fl_message := hls_cache_fill_status_client_message merged\<rparr> in
                  if current = Some st' then (Inr (Some t), s)
                  else store_fill_status env output_ok task_id' session_id' st' t s)))"

text \<open>The two entries: an ordinary report, and a completion that was verified by its byte count.\<close>

definition update_hls_cache_fill_status ::
  "environment \<Rightarrow> bool \<Rightarrow> string \<Rightarrow> string \<Rightarrow> fill_status \<Rightarrow> registry \<Rightarrow> (status + task option) \<times> registry" where
  "update_hls_cache_fill_status env output_ok task_id session_id st s =
     update_hls_cache_fill_status_inner env output_ok task_id session_id st False s"

definition update_hls_cache_fill_status_from_verified_completion ::
  "environment \<Rightarrow> bool \<Rightarrow> string \<Rightarrow> string \<Rightarrow> fill_status \<Rightarrow> registry \<Rightarrow> (status + task option) \<times> registry" where
  "update_hls_cache_fill_status_from_verified_completion env output_ok task_id session_id st s =
     (if fl_state st \<noteq> FillCompleted \<or> \<not> fl_total_bytes_known st \<or> fl_total_bytes st = 0
         \<or> fl_completed_bytes st \<noteq> fl_total_bytes st \<or> fl_representation_id st = []
      then (Inl FailedPrecondition, s)
      else update_hls_cache_fill_status_inner env output_ok task_id session_id st True s)"

section \<open>The refresh of a source\<close>

definition primary_source_for_refresh :: "task \<Rightarrow> playback_source \<Rightarrow> playback_source" where
  "primary_source_for_refresh t source =
     source\<lparr>so_item_id := (if tk_state t = Completed \<and> tk_library_item_id t \<noteq> []
       then tk_library_item_id t else tk_id t)\<rparr>"

definition refresh_items ::
  "string \<Rightarrow> playback_source \<Rightarrow> playback_session option \<Rightarrow> result_item list \<Rightarrow> result_item list" where
  "refresh_items session_id source session items =
     (let refreshed = map (\<lambda>item. if ri_id item = session_id \<and> item_serves_online item
            then item\<lparr>ri_playback_source := Some source\<rparr> else item) items
      in case session of
           None \<Rightarrow> refreshed
         | Some x \<Rightarrow> map (\<lambda>item. if item_serves_online item \<and> session_id \<in> result_item_hls_session_ids item
             then item\<lparr>ri_playback_session := Some x\<rparr> else item) refreshed)"

text \<open>Under its own identifier the task gets the source before its primary session is looked at.\<close>

definition refreshed_task ::
  "bool \<Rightarrow> string \<Rightarrow> playback_source \<Rightarrow> playback_session option \<Rightarrow> task \<Rightarrow> task" where
  "refreshed_task own session_id source session t =
     (let with_source = t\<lparr>tk_playback_source := Some (primary_source_for_refresh t source)\<rparr>;
          with_session = (\<lambda>u. case session of Some x \<Rightarrow> u\<lparr>tk_playback_session := Some x\<rparr> | None \<Rightarrow> u);
          t1 = (if own then
                  (if primary_hls_session_id with_source = Some session_id then with_session with_source
                   else with_source)
                else if primary_hls_session_id t = Some session_id then with_session with_source else t)
      in t1\<lparr>tk_result_items := refresh_items session_id source session (tk_result_items t1)\<rparr>)"

definition refresh_hls_playback_source_with_metadata ::
  "environment \<Rightarrow> string \<Rightarrow> playback_source \<Rightarrow> playback_session option \<Rightarrow> registry \<Rightarrow>
    (status + task) \<times> registry" where
  "refresh_hls_playback_source_with_metadata env session_id source session s =
     (let session_id' = normalize session_id;
          refresh = (\<lambda>own t. let t' = refreshed_task own session_id' source session t
            in (Inr t', snd (persist_task env t' False None
                  (s\<lparr>rg_tasks := hm_insert (tk_id t) t' (rg_tasks s)\<rparr>))))
      in if session_id' = [] then (Inl InvalidArgument, s)
      else (case hm_get (rg_tasks s) session_id' of
         Some t \<Rightarrow>
           if tk_kind t \<noteq> BilibiliProgressivePlayback then (Inl FailedPrecondition, s)
           else if tk_state t \<noteq> Playable \<and> tk_state t \<noteq> Completed then (Inr t, s)
           else refresh True t
       | None \<Rightarrow>
           (case find (\<lambda>t. tk_kind t = BilibiliProgressivePlayback
                \<and> (tk_state t = Playable \<or> tk_state t = Completed)
                \<and> list_ex (\<lambda>item. ri_id item = session_id' \<and> item_serves_online item) (tk_result_items t))
              (hm_values (rg_tasks s)) of
              None \<Rightarrow> (Inl NotFoundStatus, s)
            | Some t \<Rightarrow> refresh False t)))"

end
