(* ===== verification/Task_Commit.thy ===== *)
theory Task_Commit
  imports Task_Restore
begin

text \<open>
  What a commit of the task registry does: \<open>persist_pending\<close> either makes the live tasks, the visible
  tasks and the snapshot on disk the same, or leaves what readers see and, when there is a
  checkpoint, takes the change back. Every operation of the registry changes one task and commits,
  so that the invariant of the registry follows from two lemmas about that pattern.
\<close>

section \<open>Small facts\<close>

lemma hm_get_remove_keys [simp]:
  "hm_get (remove_keys ks m) k = (if k \<in> set ks then None else hm_get m k)"
  unfolding remove_keys_def by (induction ks arbitrary: m) auto

lemma hm_wf_remove_keys [simp]: "hm_wf m \<Longrightarrow> hm_wf (remove_keys ks m)"
  unfolding remove_keys_def by (induction ks arbitrary: m) auto

lemma hm_get_map_values:
  "hm_get (map (\<lambda>(i, p). (i, f i p)) m) k = map_option (f k) (hm_get m k)"
  unfolding hm_get_def by (induction m) auto

lemma remove_keys_Nil [simp]: "remove_keys [] m = m"
  by (simp add: remove_keys_def)

named_theorems registry_frames

text \<open>Publication touches the watchers only, and empties the pending list.\<close>

lemma publish_task_frame [registry_frames, simp]:
  "rg_tasks (publish_task t s) = rg_tasks s" "rg_visible (publish_task t s) = rg_visible s"
  "rg_download_options (publish_task t s) = rg_download_options s"
  "rg_playback_options (publish_task t s) = rg_playback_options s"
  "rg_request_context (publish_task t s) = rg_request_context s"
  "rg_candidates (publish_task t s) = rg_candidates s" "rg_active (publish_task t s) = rg_active s"
  "rg_queued (publish_task t s) = rg_queued s" "rg_running (publish_task t s) = rg_running s"
  "rg_planning (publish_task t s) = rg_planning s" "rg_tokens (publish_task t s) = rg_tokens s"
  "rg_pending (publish_task t s) = rg_pending s" "rg_persistence (publish_task t s) = rg_persistence s"
  "rg_disk (publish_task t s) = rg_disk s" "rg_retention (publish_task t s) = rg_retention s"
  "rg_cleanup_owners (publish_task t s) = rg_cleanup_owners s"
  "rg_generation (publish_task t s) = rg_generation s"
  by (simp_all add: publish_task_def)

definition publish_step :: "registry \<Rightarrow> string \<times> task \<Rightarrow> registry \<Rightarrow> registry" where
  "publish_step s p = publish_task (case hm_get (rg_visible s) (fst p) of Some t \<Rightarrow> t | None \<Rightarrow> snd p)"

lemma publish_pending_fold:
  "publish_pending s = fold (publish_step s) (rg_pending s) (s\<lparr>rg_pending := []\<rparr>)"
  unfolding publish_pending_def publish_step_def by (rule fold_cong) (auto split: option.split)

lemma fold_publish_frame:
  "(\<And>p r. f (publish_step s p r) = f r) \<Longrightarrow> f (fold (publish_step s) ps r) = f r"
  by (induction ps arbitrary: r) simp_all

lemma publish_pending_frame [registry_frames, simp]:
  "rg_tasks (publish_pending s) = rg_tasks s" "rg_visible (publish_pending s) = rg_visible s"
  "rg_download_options (publish_pending s) = rg_download_options s"
  "rg_playback_options (publish_pending s) = rg_playback_options s"
  "rg_request_context (publish_pending s) = rg_request_context s"
  "rg_candidates (publish_pending s) = rg_candidates s" "rg_active (publish_pending s) = rg_active s"
  "rg_queued (publish_pending s) = rg_queued s" "rg_running (publish_pending s) = rg_running s"
  "rg_planning (publish_pending s) = rg_planning s" "rg_tokens (publish_pending s) = rg_tokens s"
  "rg_pending (publish_pending s) = []" "rg_persistence (publish_pending s) = rg_persistence s"
  "rg_disk (publish_pending s) = rg_disk s" "rg_retention (publish_pending s) = rg_retention s"
  "rg_cleanup_owners (publish_pending s) = rg_cleanup_owners s"
  "rg_generation (publish_pending s) = rg_generation s"
  unfolding publish_pending_fold by (subst fold_publish_frame; simp add: publish_step_def)+

lemma refresh_pending_frame [registry_frames, simp]:
  "rg_tasks (refresh_pending s) = rg_tasks s" "rg_visible (refresh_pending s) = rg_visible s"
  "rg_download_options (refresh_pending s) = rg_download_options s"
  "rg_playback_options (refresh_pending s) = rg_playback_options s"
  "rg_request_context (refresh_pending s) = rg_request_context s"
  "rg_candidates (refresh_pending s) = rg_candidates s" "rg_active (refresh_pending s) = rg_active s"
  "rg_queued (refresh_pending s) = rg_queued s" "rg_running (refresh_pending s) = rg_running s"
  "rg_planning (refresh_pending s) = rg_planning s" "rg_tokens (refresh_pending s) = rg_tokens s"
  "rg_persistence (refresh_pending s) = rg_persistence s"
  "rg_disk (refresh_pending s) = rg_disk s" "rg_retention (refresh_pending s) = rg_retention s"
  "rg_watchers (refresh_pending s) = rg_watchers s"
  "rg_cleanup_owners (refresh_pending s) = rg_cleanup_owners s"
  "rg_generation (refresh_pending s) = rg_generation s"
  "hm_get (rg_pending (refresh_pending s)) i =
     map_option (\<lambda>p. case hm_get (rg_tasks s) i of Some t \<Rightarrow> t | None \<Rightarrow> p) (hm_get (rg_pending s) i)"
  by (simp_all add: refresh_pending_def hm_get_map_values)

lemma stage_publication_frame [registry_frames, simp]:
  "rg_tasks (stage_publication t s) = rg_tasks s" "rg_visible (stage_publication t s) = rg_visible s"
  "rg_download_options (stage_publication t s) = rg_download_options s"
  "rg_playback_options (stage_publication t s) = rg_playback_options s"
  "rg_request_context (stage_publication t s) = rg_request_context s"
  "rg_candidates (stage_publication t s) = rg_candidates s" "rg_active (stage_publication t s) = rg_active s"
  "rg_queued (stage_publication t s) = rg_queued s" "rg_running (stage_publication t s) = rg_running s"
  "rg_planning (stage_publication t s) = rg_planning s" "rg_tokens (stage_publication t s) = rg_tokens s"
  "rg_persistence (stage_publication t s) = rg_persistence s"
  "rg_disk (stage_publication t s) = rg_disk s" "rg_retention (stage_publication t s) = rg_retention s"
  "rg_watchers (stage_publication t s) = rg_watchers s"
  "rg_cleanup_owners (stage_publication t s) = rg_cleanup_owners s"
  "hm_get (rg_pending (stage_publication t s)) i = (if i = tk_id t then Some t else hm_get (rg_pending s) i)"
  by (simp_all add: stage_publication_def)

lemma apply_pruned_frame [registry_frames, simp]:
  "rg_tasks (apply_pruned ids s) = remove_keys ids (rg_tasks s)"
  "rg_visible (apply_pruned ids s) = rg_visible s"
  "rg_download_options (apply_pruned ids s) = remove_keys ids (rg_download_options s)"
  "rg_playback_options (apply_pruned ids s) = remove_keys ids (rg_playback_options s)"
  "rg_request_context (apply_pruned ids s) = remove_keys ids (rg_request_context s)"
  "rg_candidates (apply_pruned ids s) = remove_keys ids (rg_candidates s)"
  "rg_active (apply_pruned ids s) = rg_active s" "rg_queued (apply_pruned ids s) = rg_queued s"
  "rg_tokens (apply_pruned ids s) = rg_tokens s" "rg_pending (apply_pruned ids s) = rg_pending s"
  "rg_persistence (apply_pruned ids s) = rg_persistence s" "rg_disk (apply_pruned ids s) = rg_disk s"
  "rg_retention (apply_pruned ids s) = rg_retention s"
  by (simp_all add: apply_pruned_def)

lemma install_visible_frame [registry_frames, simp]:
  "rg_tasks (install_visible s) = rg_tasks s" "rg_visible (install_visible s) = rg_tasks s"
  "rg_download_options (install_visible s) = rg_download_options s"
  "rg_playback_options (install_visible s) = rg_playback_options s"
  "rg_request_context (install_visible s) = rg_request_context s"
  "rg_candidates (install_visible s) = rg_candidates s" "rg_active (install_visible s) = rg_active s"
  "rg_queued (install_visible s) = rg_queued s" "rg_tokens (install_visible s) = rg_tokens s"
  "rg_pending (install_visible s) = rg_pending s" "rg_persistence (install_visible s) = rg_persistence s"
  "rg_disk (install_visible s) = rg_disk s" "rg_retention (install_visible s) = rg_retention s"
  by (simp_all add: install_visible_def)

section \<open>The two ways a commit ends\<close>

text \<open>The records an operation may change and a checkpoint restores, and what stays when it does.\<close>

definition same_records :: "registry \<Rightarrow> registry \<Rightarrow> bool" where
  "same_records s s' \<longleftrightarrow> rg_tasks s' = rg_tasks s \<and> rg_download_options s' = rg_download_options s
     \<and> rg_playback_options s' = rg_playback_options s \<and> rg_request_context s' = rg_request_context s
     \<and> rg_candidates s' = rg_candidates s \<and> rg_active s' = rg_active s \<and> rg_queued s' = rg_queued s
     \<and> rg_running s' = rg_running s \<and> rg_planning s' = rg_planning s"

definition committed :: "string list \<Rightarrow> registry \<Rightarrow> registry \<Rightarrow> bool" where
  "committed pruned s s' \<longleftrightarrow> rg_tasks s' = remove_keys pruned (rg_tasks s)
     \<and> rg_visible s' = rg_tasks s' \<and> rg_disk s' = rg_tasks s' \<and> rg_pending s' = []
     \<and> rg_download_options s' = remove_keys pruned (rg_download_options s)
     \<and> rg_playback_options s' = remove_keys pruned (rg_playback_options s)
     \<and> rg_request_context s' = remove_keys pruned (rg_request_context s)
     \<and> rg_candidates s' = remove_keys pruned (rg_candidates s)
     \<and> rg_active s' = rg_active s \<and> rg_queued s' = rg_queued s \<and> rg_tokens s' = rg_tokens s"

text \<open>\<open>c\<close> is what the records go back to: the checkpoint, or the state as the operation left it.\<close>

definition refused :: "registry \<Rightarrow> registry \<Rightarrow> registry \<Rightarrow> bool" where
  "refused c s s' \<longleftrightarrow> same_records c s' \<and> rg_visible s' = rg_visible s
     \<and> rg_watchers s' = rg_watchers s \<and> rg_tokens s' = rg_tokens s
     \<and> (\<forall>i. hm_get (rg_pending s') i = None \<longleftrightarrow> hm_get (rg_pending c) i = None)"

lemma restore_checkpoint_refused:
  "rg_visible r = rg_visible s \<Longrightarrow> rg_watchers r = rg_watchers s \<Longrightarrow> rg_tokens r = rg_tokens s \<Longrightarrow>
    refused c s (restore_checkpoint c r)"
  by (simp add: refused_def same_records_def restore_checkpoint_def)

lemma persist_pending_store:
  assumes store: "rg_persistence s \<noteq> None"
    and run: "persist_pending env d checkpoint r s = (outcome, s')"
  shows "rg_retention s' = rg_retention s
    \<and> ((outcome = Durable \<or> outcome = InstalledButNotDurable \<and> \<not> r)
        \<and> rg_persistence s' = Some (outcome = Durable)
        \<and> committed (ids_to_prune (rg_retention s) (ev_now env) (rg_tasks s)) s s'
      \<or> (outcome = InstalledButNotDurable \<and> r \<or> (\<exists>p. outcome = Rejected p))
        \<and> rg_persistence s' = Some False
        \<and> refused (case checkpoint of Some c \<Rightarrow> c | None \<Rightarrow> s) s s')"
proof -
  obtain b where b: "rg_persistence s = Some b" using store by blast
  show ?thesis
  proof (cases "ev_save env")
    case SnapshotInvalid
    then show ?thesis
      using run b by (cases checkpoint)
        (auto simp: persist_pending_def Let_def refused_def same_records_def restore_checkpoint_def)
  next
    case SavedDurable
    then show ?thesis
      using run b by (auto simp: persist_pending_def Let_def save_snapshot_def committed_def
        publish_committed_def)
  next
    case SavedNotDurable
    then show ?thesis
      using run b by (cases checkpoint; cases r)
        (auto simp: persist_pending_def Let_def save_snapshot_def committed_def
          publish_committed_def refused_def same_records_def restore_checkpoint_def)
  next
    case (SaveFailed p)
    then show ?thesis
      using run b by (cases checkpoint)
        (auto simp: persist_pending_def Let_def save_snapshot_def
          refused_def same_records_def restore_checkpoint_def)
  qed
qed

lemma persist_pending_cases [consumes 2, case_names commits refuses]:
  assumes "rg_persistence s \<noteq> None" "persist_pending env d checkpoint r s = (outcome, s')"
  obtains "outcome = Durable \<or> outcome = InstalledButNotDurable \<and> \<not> r"
      "rg_persistence s' = Some (outcome = Durable)" "rg_retention s' = rg_retention s"
      "committed (ids_to_prune (rg_retention s) (ev_now env) (rg_tasks s)) s s'"
  | "outcome = InstalledButNotDurable \<and> r \<or> (\<exists>p. outcome = Rejected p)"
      "rg_persistence s' = Some False" "rg_retention s' = rg_retention s"
      "refused (case checkpoint of Some c \<Rightarrow> c | None \<Rightarrow> s) s s'"
  using persist_pending_store [OF assms] by blast

end
