(* ===== verification/Task_Safety.thy ===== *)
theory Task_Safety
  imports Task_Commit
begin

text \<open>
  The task registry as a transition system: one label per operation with its arguments and what the
  environment answers, the states it can reach, the invariant of the records, and what follows from
  it for the life of a task, for its readers, for the worker and for the keys of requests.
\<close>

section \<open>Operations\<close>

datatype ending = EndSucceeded string | EndFailed | EndCancelled

datatype operation =
    CreateDownload environment string string "download_options option"
  | CreateDownloadV2 environment string string "download_options option" "request_context option"
      string "candidate_record list"
  | CreatePlayback environment string string "playback_options option" "string option"
  | CreatePlaybackV2 environment string string "playback_options option" "request_context option"
      string "candidate_record list"
  | ClaimNext environment
  | Progress timestamp string task_progress
  | CacheProgress timestamp string task_progress
  | CancelTask environment environment bool string
  | EndTask environment environment string ending string
  | PlanPlayback environment string string playback_session
  | PlayTask environment string string playback_source playback_session
  | PlayResults environment string string string playback_source playback_session "result_item list"
  | UpdateResults environment string "string option" string float64 "result_item list"
  | CacheSession environment environment string string string "playback_session option"
  | FailAfterRestart environment string string
  | FailCompleted environment string string
  | RejectSession environment environment string string
  | RejectUnrestorable environment "string set" "string set"
  | RemoveCompleted environment bool string string
  | DeleteLibraryItem environment "status + unit" bool "(string, output_update) hmap" string
  | CommitDownload environment bool "status + unit" "status + unit" terminal_output task_state string string string
  | RetireResources environment "string list"
  | RegisterDirectories environment "status + string list" "status + unit" string
  | RetryCleanup environment "status + bool" bool "string list"
  | FillStatus environment bool string string fill_status
  | VerifiedFill environment bool string string fill_status
  | RefreshSource environment string playback_source "playback_session option"
  | RetryPersistence environment
  | Subscribe nat "string list"
  | Receive nat
  | Unsubscribe nat

definition end_task ::
  "environment \<Rightarrow> environment \<Rightarrow> string \<Rightarrow> ending \<Rightarrow> string \<Rightarrow> registry \<Rightarrow> (status + task) \<times> registry" where
  "end_task env0 env task_id e message s =
     (case e of
        EndSucceeded item_id \<Rightarrow> complete_task_succeeded env0 env task_id item_id message s
      | EndFailed \<Rightarrow> complete_task_failed env0 env task_id message s
      | EndCancelled \<Rightarrow> complete_task_cancelled env0 env task_id message s)"

fun perform :: "operation \<Rightarrow> registry \<Rightarrow> registry" where
  "perform (CreateDownload env i source options) s = snd (create_bilibili_task env i source options s)"
| "perform (CreateDownloadV2 env i source options cx title candidates) s =
     snd (create_bilibili_download_task_v2 env i source options cx title candidates s)"
| "perform (CreatePlayback env i source options selection) s =
     snd (create_bilibili_playback_task env i source options selection s)"
| "perform (CreatePlaybackV2 env i source options cx title candidates) s =
     snd (create_bilibili_playback_task_v2 env i source options cx title candidates s)"
| "perform (ClaimNext env) s = snd (try_claim_next_bilibili_task env s)"
| "perform (Progress now i p) s = snd (update_task_progress now i p s)"
| "perform (CacheProgress now i p) s = snd (update_playback_cache_progress now i p s)"
| "perform (CancelTask env0 env ok i) s = snd (cancel_task_with_hls_session_ids env0 env ok i s)"
| "perform (EndTask env0 env i e message) s = snd (end_task env0 env i e message s)"
| "perform (PlanPlayback env i title session) s = snd (complete_playback_planned env i title session s)"
| "perform (PlayTask env i title source session) s =
     snd (complete_playback_playable env i title source session s)"
| "perform (PlayResults env i title message source session items) s =
     snd (complete_playback_results_playable env i title message source session items s)"
| "perform (UpdateResults env i title message progress items) s =
     snd (update_playback_results env i title message progress items s)"
| "perform (CacheSession env0 env i session_id item_id completed) s =
     snd (complete_playback_hls_session_cached env0 env i session_id item_id completed s)"
| "perform (FailAfterRestart env i message) s = snd (fail_playback_task_after_cache_restore env i message s)"
| "perform (FailCompleted env session_id message) s =
     snd (fail_completed_playback_task_after_cache_restore env session_id message s)"
| "perform (RejectSession env0 env session_id message) s =
     snd (fail_unrestorable_playback_session_after_cache_restore env0 env session_id message s)"
| "perform (RejectUnrestorable env playable completed) s =
     snd (fail_unrestorable_playback_tasks env playable completed s)"
| "perform (RemoveCompleted env ok session_id item_id) s =
     snd (remove_completed_playback_task env ok session_id item_id s)"
| "perform (DeleteLibraryItem env prepared ok updates item_id) s =
     snd (tombstone_library_item_before_delete env prepared ok updates item_id s)"
| "perform (CommitDownload env ok intents checked out state item_id message i) s =
     snd (commit_staged_download_terminal env ok intents checked out state item_id message i s)"
| "perform (RetireResources env expired) s = snd (retire_expired_task_resources_except env expired s)"
| "perform (RegisterDirectories env intents replaced i) s =
     snd (register_bilibili_owned_output_directories env intents replaced i s)"
| "perform (RetryCleanup env answer completed released) s =
     snd (retry_file_cleanup_intents env answer completed released s)"
| "perform (FillStatus env ok i session_id st) s =
     snd (update_hls_cache_fill_status env ok i session_id st s)"
| "perform (VerifiedFill env ok i session_id st) s =
     snd (update_hls_cache_fill_status_from_verified_completion env ok i session_id st s)"
| "perform (RefreshSource env session_id source session) s =
     snd (refresh_hls_playback_source_with_metadata env session_id source session s)"
| "perform (RetryPersistence env) s = snd (retry_pending_persistence env s)"
| "perform (Subscribe w ids) s = snd (subscribe w ids s)"
| "perform (Receive w) s = snd (recv_task w s)"
| "perform (Unsubscribe w) s = unsubscribe w s"

text \<open>The identifier a creation draws (a version 4 UUID).\<close>

fun drawn_id :: "operation \<Rightarrow> string option" where
  "drawn_id (CreateDownload env i source options) = Some i"
| "drawn_id (CreateDownloadV2 env i source options cx title candidates) = Some i"
| "drawn_id (CreatePlayback env i source options selection) = Some i"
| "drawn_id (CreatePlaybackV2 env i source options cx title candidates) = Some i"
| "drawn_id _ = None"

definition unknown_id :: "string \<Rightarrow> registry \<Rightarrow> bool" where
  "unknown_id i s \<longleftrightarrow> hm_get (rg_tasks s) i = None \<and> hm_get (rg_visible s) i = None
     \<and> hm_get (rg_pending s) i = None \<and> hm_get (rg_download_options s) i = None
     \<and> hm_get (rg_playback_options s) i = None \<and> hm_get (rg_request_context s) i = None
     \<and> hm_get (rg_candidates s) i = None \<and> i \<notin> set (rg_queued s)"

text \<open>An identifier that is drawn is new.\<close>

definition registry_step :: "registry \<Rightarrow> operation \<Rightarrow> registry \<Rightarrow> bool" where
  "registry_step s op s' \<longleftrightarrow>
     s' = perform op s \<and> (case drawn_id op of Some i \<Rightarrow> unknown_id i s | None \<Rightarrow> True)"

text \<open>A registry with a store that holds nothing yet.\<close>

definition empty_registry :: "retention_policy \<Rightarrow> registry" where
  "empty_registry policy = \<lparr>rg_tasks = [], rg_visible = [], rg_download_options = [],
     rg_playback_options = [], rg_request_context = [], rg_candidates = [], rg_active = [],
     rg_queued = [], rg_running = [], rg_planning = [], rg_tokens = [], rg_watchers = [],
     rg_pending = [], rg_cleanup_owners = [], rg_persistence = Some True, rg_generation = 0,
     rg_disk = [], rg_retention = policy\<rparr>"

definition starts_empty :: "registry \<Rightarrow> bool" where
  "starts_empty s \<longleftrightarrow> (\<exists>policy. s = empty_registry policy)"

section \<open>The invariant\<close>

definition state_at :: "(string, task) hmap \<Rightarrow> string \<Rightarrow> task_state option" where
  "state_at m i = map_option tk_state (hm_get m i)"

text \<open>Where nothing is pending, readers see the live state.\<close>

definition records_inv :: "registry \<Rightarrow> bool" where
  "records_inv s \<longleftrightarrow> rg_persistence s \<noteq> None \<and> hm_wf (rg_tasks s)
     \<and> (\<forall>i t. hm_get (rg_tasks s) i = Some t \<longrightarrow> tk_id t = i)
     \<and> (\<forall>i. hm_get (rg_pending s) i = None \<longrightarrow> state_at (rg_visible s) i = state_at (rg_tasks s) i)"

text \<open>While the store is available nothing is pending, and the snapshot has the live states.\<close>

definition registry_inv :: "registry \<Rightarrow> bool" where
  "registry_inv s \<longleftrightarrow> records_inv s
     \<and> (persistence_available s \<longrightarrow> rg_pending s = []
          \<and> (\<forall>i. state_at (rg_disk s) i = state_at (rg_tasks s) i))"

text \<open>What an operation on the task \<open>i\<close> that becomes \<open>t'\<close> does to the live tasks: at most that, or
  tasks disappear.\<close>

definition at_most :: "string \<Rightarrow> task \<Rightarrow> registry \<Rightarrow> registry \<Rightarrow> bool" where
  "at_most i t' s s' \<longleftrightarrow>
     (\<forall>j u. hm_get (rg_tasks s') j = Some u \<longrightarrow> hm_get (rg_tasks s) j = Some u \<or> j = i \<and> u = t')"

text \<open>What a reader newly sees was saved.\<close>

definition reads_saved :: "registry \<Rightarrow> registry \<Rightarrow> bool" where
  "reads_saved s s' \<longleftrightarrow>
     (\<forall>i. state_at (rg_visible s') i \<noteq> state_at (rg_visible s) i \<longrightarrow>
        state_at (rg_visible s') i = state_at (rg_disk s') i)"

lemma persist_pending_inv:
  assumes run: "persist_pending env d checkpoint r s1 = (outcome, s2)"
    and store: "rg_persistence s1 \<noteq> None" and wf: "hm_wf (rg_tasks s1)"
    and ids: "\<forall>i t. hm_get (rg_tasks s1) i = Some t \<longrightarrow> tk_id t = i"
    and pend: "\<forall>i. hm_get (rg_pending s1) i = None \<longrightarrow>
        state_at (rg_visible s1) i = state_at (rg_tasks s1) i"
    and cp: "\<forall>c. checkpoint = Some c \<longrightarrow> records_inv c \<and> rg_visible c = rg_visible s1"
  shows "registry_inv s2" "reads_saved s1 s2"
proof -
  have "registry_inv s2 \<and> reads_saved s1 s2"
    using store run
  proof (cases rule: persist_pending_cases)
    case commits
    then show ?thesis using wf ids
      by (auto simp: registry_inv_def records_inv_def committed_def reads_saved_def)
  next
    case refuses
    then show ?thesis using wf ids pend cp
      by (cases checkpoint) (auto simp: registry_inv_def records_inv_def refused_def
        same_records_def persistence_available_def reads_saved_def)
  qed
  then show "registry_inv s2" "reads_saved s1 s2" by blast+
qed

text \<open>One task is changed, published and committed.\<close>

lemma change_and_commit:
  assumes inv: "records_inv s"
    and run: "persist_pending env d checkpoint r (stage_publication t' s1) = (outcome, s2)"
    and tasks: "rg_tasks s1 = hm_insert i t' (rg_tasks s)" and id: "tk_id t' = i"
    and same: "rg_visible s1 = rg_visible s" "rg_pending s1 = rg_pending s"
      "rg_persistence s1 = rg_persistence s"
    and cp: "checkpoint = None \<or> checkpoint = Some s"
  shows "registry_inv s2" "at_most i t' s s2" "reads_saved s s2"
proof -
  let ?s = "stage_publication t' s1"
  have pre: "rg_persistence ?s \<noteq> None" "hm_wf (rg_tasks ?s)"
    "\<forall>i t. hm_get (rg_tasks ?s) i = Some t \<longrightarrow> tk_id t = i"
    "\<forall>i. hm_get (rg_pending ?s) i = None \<longrightarrow>
        state_at (rg_visible ?s) i = state_at (rg_tasks ?s) i"
    using inv tasks id same by (auto simp: records_inv_def state_at_def)
  have cp': "\<forall>c. checkpoint = Some c \<longrightarrow> records_inv c \<and> rg_visible c = rg_visible ?s"
    using cp inv same by auto
  show "registry_inv s2" by (rule persist_pending_inv [OF run pre cp'])
  show "reads_saved s s2"
    using persist_pending_inv(2) [OF run pre cp'] same by (simp add: reads_saved_def)
  show "at_most i t' s s2"
    using pre(1) run
  proof (cases rule: persist_pending_cases)
    case commits
    then show ?thesis using tasks by (auto simp: at_most_def committed_def split: if_splits)
  next
    case refuses
    then show ?thesis using tasks cp
      by (auto simp: at_most_def refused_def same_records_def split: if_splits)
  qed
qed

lemma retry_commit:
  assumes inv: "records_inv s" and run: "persist_pending env d None r s = (outcome, s2)"
  shows "registry_inv s2" "reads_saved s s2"
    "hm_get (rg_tasks s2) j = Some u \<Longrightarrow> hm_get (rg_tasks s) j = Some u"
    "outcome = Durable \<Longrightarrow> persistence_available s2"
proof -
  have pre: "rg_persistence s \<noteq> None" using inv by (simp add: records_inv_def)
  show "registry_inv s2" "reads_saved s s2"
    using persist_pending_inv [OF run pre] inv by (auto simp: records_inv_def)
  show "hm_get (rg_tasks s2) j = Some u \<Longrightarrow> hm_get (rg_tasks s) j = Some u"
    using pre run
    by (cases rule: persist_pending_cases)
      (auto simp: committed_def refused_def same_records_def split: if_splits)
  show "outcome = Durable \<Longrightarrow> persistence_available s2"
    using pre run by (cases rule: persist_pending_cases) (auto simp: persistence_available_def)
qed


section \<open>The life of a task\<close>

text \<open>What a state may turn into: an ended task keeps its state, none is queued again, and one whose
  cancellation was requested ends without a result.\<close>

definition may_become :: "task_state \<Rightarrow> task_state \<Rightarrow> bool" where
  "may_become a b \<longleftrightarrow>
     a = b \<or> \<not> is_terminal a \<and> b \<noteq> Queued \<and> (a = CancelRequested \<longrightarrow> b = Cancelled \<or> b = Failed)"

lemma may_become_refl [simp]: "may_become a a"
  by (simp add: may_become_def)

lemma may_become_trans: "may_become a b \<Longrightarrow> may_become b c \<Longrightarrow> may_become a c"
  by (auto simp: may_become_def is_terminal_def)

text \<open>
  Three operations fail a completed playback whose cached session cannot be restored, and the deletion of
  media may fail any task that loses its last result. The orders of states that an operation may be
  bound by all contain \<open>may_become\<close>.
\<close>

definition may_expire :: "task_state \<Rightarrow> task_state \<Rightarrow> bool" where
  "may_expire a b \<longleftrightarrow> may_become a b \<or> a = Completed \<and> b = Failed"

definition may_fail :: "task_state \<Rightarrow> task_state \<Rightarrow> bool" where
  "may_fail a b \<longleftrightarrow> may_become a b \<or> b = Failed"

definition state_order :: "(task_state \<Rightarrow> task_state \<Rightarrow> bool) \<Rightarrow> bool" where
  "state_order R \<longleftrightarrow> transp R \<and> may_become \<le> R"

lemma state_order_become [simp]: "state_order may_become"
  by (auto simp: state_order_def transp_def intro: may_become_trans)

lemma state_order_expire [simp]: "state_order may_expire"
  by (auto simp: state_order_def transp_def may_expire_def may_become_def is_terminal_def)

lemma state_order_fail [simp]: "state_order may_fail"
  by (auto simp: state_order_def transp_def may_fail_def may_become_def is_terminal_def)

lemma state_orderD:
  "state_order R \<Longrightarrow> may_become a b \<Longrightarrow> R a b"
  "state_order R \<Longrightarrow> R a a"
  "state_order R \<Longrightarrow> R a b \<Longrightarrow> R b c \<Longrightarrow> R a c"
  by (auto simp: state_order_def le_fun_def transp_def)

definition evolves_by :: "(task_state \<Rightarrow> task_state \<Rightarrow> bool) \<Rightarrow> registry \<Rightarrow> registry \<Rightarrow> bool" where
  "evolves_by R s s' \<longleftrightarrow>
     (\<forall>j u. hm_get (rg_tasks s') j = Some u \<longrightarrow>
        (\<exists>t. hm_get (rg_tasks s) j = Some t \<and> tk_kind u = tk_kind t \<and> tk_source u = tk_source t
           \<and> R (tk_state t) (tk_state u)))"

abbreviation evolves :: "registry \<Rightarrow> registry \<Rightarrow> bool" where
  "evolves \<equiv> evolves_by may_become"

lemma evolves_refl [simp]: "state_order R \<Longrightarrow> evolves_by R s s"
  by (simp add: evolves_by_def state_orderD(2))

lemma evolves_weaken: "state_order R \<Longrightarrow> evolves s s' \<Longrightarrow> evolves_by R s s'"
  unfolding evolves_by_def by (meson state_orderD(1))

lemma evolves_trans:
  assumes R: "state_order R" and one: "evolves_by R s s'" and two: "evolves_by R s' s''"
  shows "evolves_by R s s''"
  unfolding evolves_by_def
proof (intro allI impI)
  fix j u assume u: "hm_get (rg_tasks s'') j = Some u"
  obtain v where v: "hm_get (rg_tasks s') j = Some v" "tk_kind u = tk_kind v"
    "tk_source u = tk_source v" "R (tk_state v) (tk_state u)"
    using two u unfolding evolves_by_def by blast
  obtain t where t: "hm_get (rg_tasks s) j = Some t" "tk_kind v = tk_kind t"
    "tk_source v = tk_source t" "R (tk_state t) (tk_state v)"
    using one v(1) unfolding evolves_by_def by blast
  show "\<exists>t. hm_get (rg_tasks s) j = Some t \<and> tk_kind u = tk_kind t \<and> tk_source u = tk_source t
           \<and> R (tk_state t) (tk_state u)"
    using t v state_orderD(3) [OF R t(4) v(4)] by simp
qed

definition good_step_by :: "(task_state \<Rightarrow> task_state \<Rightarrow> bool) \<Rightarrow> registry \<Rightarrow> registry \<Rightarrow> bool" where
  "good_step_by R s s' \<longleftrightarrow> registry_inv s' \<and> evolves_by R s s' \<and> reads_saved s s'"

abbreviation good_step :: "registry \<Rightarrow> registry \<Rightarrow> bool" where
  "good_step \<equiv> good_step_by may_become"

lemma good_step_weaken: "state_order R \<Longrightarrow> good_step s s' \<Longrightarrow> good_step_by R s s'"
  by (simp add: good_step_by_def evolves_weaken)

lemma good_frame:
  assumes "registry_inv s" "rg_tasks s' = rg_tasks s" "rg_visible s' = rg_visible s"
    "rg_pending s' = rg_pending s" "rg_persistence s' = rg_persistence s" "rg_disk s' = rg_disk s"
  shows "good_step s s'"
proof -
  have "registry_inv s'"
    using assms by (simp add: registry_inv_def records_inv_def persistence_available_def)
  moreover have "evolves s s'" using assms(2) by (auto simp: evolves_by_def)
  moreover have "reads_saved s s'" using assms(3) by (simp add: reads_saved_def)
  ultimately show ?thesis by (simp add: good_step_by_def)
qed

lemma good_refl: "registry_inv s \<Longrightarrow> good_step s s"
  by (rule good_frame) simp_all

lemma good_from_same:
  "good_step r s' \<Longrightarrow> rg_tasks r = rg_tasks s \<Longrightarrow> rg_visible r = rg_visible s \<Longrightarrow> good_step s s'"
  by (simp add: good_step_by_def evolves_by_def reads_saved_def)

lemma good_to_same:
  assumes "good_step s r" "rg_tasks s' = rg_tasks r" "rg_visible s' = rg_visible r" "rg_disk s' = rg_disk r"
    "rg_pending s' = rg_pending r" "rg_persistence s' = rg_persistence r"
  shows "good_step s s'"
  using assms by (simp add: good_step_by_def registry_inv_def records_inv_def evolves_by_def reads_saved_def
      persistence_available_def)

lemma registry_invD:
  assumes "registry_inv s"
  shows "records_inv s" "rg_persistence s \<noteq> None"
    "hm_get (rg_tasks s) i = Some t \<Longrightarrow> tk_id t = i"
    "hm_get (rg_pending s) i = None \<Longrightarrow> state_at (rg_visible s) i = state_at (rg_tasks s) i"
    "persistence_available s \<Longrightarrow> rg_pending s = []"
    "persistence_available s \<Longrightarrow> state_at (rg_disk s) i = state_at (rg_tasks s) i"
  using assms by (auto simp: registry_inv_def records_inv_def)

text \<open>The pattern of every operation that changes a task that exists.\<close>

lemma good_change:
  assumes inv: "registry_inv s" and R: "state_order R"
    and run: "persist_pending env d checkpoint r (stage_publication t' s1) = (outcome, s2)"
    and t: "hm_get (rg_tasks s) i = Some t"
    and t': "tk_id t' = tk_id t" "tk_kind t' = tk_kind t" "tk_source t' = tk_source t"
      "R (tk_state t) (tk_state t')"
    and s1: "rg_tasks s1 = hm_insert i t' (rg_tasks s)" "rg_visible s1 = rg_visible s"
      "rg_pending s1 = rg_pending s" "rg_persistence s1 = rg_persistence s"
    and cp: "checkpoint = None \<or> checkpoint = Some s"
  shows "good_step_by R s s2"
proof -
  have id: "tk_id t' = i" using registry_invD(3) [OF inv t] t'(1) by simp
  note c = change_and_commit [OF registry_invD(1) [OF inv] run s1(1) id s1(2,3,4) cp]
  have "evolves_by R s s2"
    using c(2) t t' state_orderD(2) [OF R] unfolding at_most_def evolves_by_def by metis
  with c show ?thesis by (simp add: good_step_by_def)
qed

lemma clear_active_task_frame [registry_frames, simp]:
  "rg_tasks (clear_active_task t s) = rg_tasks s" "rg_visible (clear_active_task t s) = rg_visible s"
  "rg_pending (clear_active_task t s) = rg_pending s" "rg_disk (clear_active_task t s) = rg_disk s"
  "rg_persistence (clear_active_task t s) = rg_persistence s"
  "rg_candidates (clear_active_task t s) = rg_candidates s"
  "rg_tokens (clear_active_task t s) = rg_tokens s" "rg_retention (clear_active_task t s) = rg_retention s"
  by (simp_all add: clear_active_task_def release_key_def Let_def)

lemma clear_active_duplicate_key_frame [registry_frames, simp]:
  "rg_tasks (clear_active_duplicate_key t s) = rg_tasks s"
  "rg_visible (clear_active_duplicate_key t s) = rg_visible s"
  "rg_pending (clear_active_duplicate_key t s) = rg_pending s"
  "rg_disk (clear_active_duplicate_key t s) = rg_disk s"
  "rg_persistence (clear_active_duplicate_key t s) = rg_persistence s"
  "rg_candidates (clear_active_duplicate_key t s) = rg_candidates s"
  "rg_tokens (clear_active_duplicate_key t s) = rg_tokens s"
  "rg_retention (clear_active_duplicate_key t s) = rg_retention s"
  by (simp_all add: clear_active_duplicate_key_def release_key_def)

lemma end_publication_frame [registry_frames, simp]:
  "rg_tasks (end_publication t s) = rg_tasks s" "rg_visible (end_publication t s) = rg_visible s"
  "rg_pending (end_publication t s) = rg_pending s" "rg_disk (end_publication t s) = rg_disk s"
  "rg_persistence (end_publication t s) = rg_persistence s"
  "rg_candidates (end_publication t s) = rg_candidates s"
  "rg_tokens (end_publication t s) = rg_tokens s" "rg_retention (end_publication t s) = rg_retention s"
  by (simp_all add: end_publication_def Let_def)

subsection \<open>Recovery first\<close>

lemma recover_first_good:
  assumes "registry_inv s0" "recover_first env accepted s0 = (ok, s)"
  shows "good_step s0 s"
  using assms retry_commit [OF registry_invD(1) [OF assms(1)]] good_refl [OF assms(1)]
  by (auto simp: recover_first_def good_step_by_def evolves_by_def split: if_splits prod.splits)

text \<open>An operation that goes on after it finds nothing pending.\<close>

lemma recover_first_pending:
  assumes inv: "registry_inv s0" and run: "recover_first env accepted s0 = (True, s)"
    and acc: "\<And>out. accepted out \<Longrightarrow> is_committed out"
  shows "rg_pending s = []"
proof (cases "persistence_lost s0")
  case False
  then have "persistence_available s0"
    using registry_invD(2) [OF inv] by (auto simp: persistence_lost_def persistence_available_def)
  then show ?thesis using registry_invD(5) [OF inv] run False by (simp add: recover_first_def)
next
  case True
  then obtain out where out: "persist_pending env True None False s0 = (out, s)" "accepted out"
    using run by (auto simp: recover_first_def split: prod.splits)
  from registry_invD(2) [OF inv] out(1) show ?thesis
  proof (cases rule: persist_pending_cases)
    case commits
    then show ?thesis by (simp add: committed_def)
  next
    case refuses
    then show ?thesis using acc [OF out(2)] by (auto simp: is_committed_def)
  qed
qed

text \<open>Two commits one after the other: what readers newly see, one of them saved.\<close>

definition reads_saved_by :: "environment option \<Rightarrow> registry \<Rightarrow> registry \<Rightarrow> bool" where
  "reads_saved_by recovery s s' \<longleftrightarrow>
     (\<forall>i. state_at (rg_visible s') i \<noteq> state_at (rg_visible s) i \<longrightarrow>
        state_at (rg_visible s') i = state_at (rg_disk s') i
        \<or> (\<exists>env0. recovery = Some env0 \<and> persistence_lost s
             \<and> state_at (rg_visible s') i
                 = state_at (rg_disk (snd (persist_pending env0 True None False s))) i))"

definition good_op_by ::
  "(task_state \<Rightarrow> task_state \<Rightarrow> bool) \<Rightarrow> environment option \<Rightarrow> registry \<Rightarrow> registry \<Rightarrow> bool" where
  "good_op_by R recovery s s' \<longleftrightarrow> registry_inv s' \<and> evolves_by R s s' \<and> reads_saved_by recovery s s'"

abbreviation good_op :: "environment option \<Rightarrow> registry \<Rightarrow> registry \<Rightarrow> bool" where
  "good_op \<equiv> good_op_by may_become"

lemma good_op_single: "good_step_by R s s' \<Longrightarrow> good_op_by R recovery s s'"
  by (auto simp: good_op_by_def good_step_by_def reads_saved_by_def reads_saved_def)

lemma good_op_recovered:
  assumes inv: "registry_inv s0" and run: "recover_first env0 accepted s0 = (ok, s)"
    and R: "state_order R" and good: "good_step_by R s s'"
  shows "good_op_by R (Some env0) s0 s'"
proof -
  have g0: "good_step s0 s" by (rule recover_first_good [OF inv run])
  have d: "rg_visible s \<noteq> rg_visible s0 \<Longrightarrow>
      persistence_lost s0 \<and> s = snd (persist_pending env0 True None False s0)"
    using run by (auto simp: recover_first_def split: if_splits prod.splits)
  have "reads_saved_by (Some env0) s0 s'"
    unfolding reads_saved_by_def
  proof (intro allI impI)
    fix i assume ne: "state_at (rg_visible s') i \<noteq> state_at (rg_visible s0) i"
    show "state_at (rg_visible s') i = state_at (rg_disk s') i
        \<or> (\<exists>e. Some env0 = Some e \<and> persistence_lost s0
             \<and> state_at (rg_visible s') i = state_at (rg_disk (snd (persist_pending e True None False s0))) i)"
    proof (cases "state_at (rg_visible s') i = state_at (rg_visible s) i")
      case True
      with ne g0 have "state_at (rg_visible s) i = state_at (rg_disk s) i" "rg_visible s \<noteq> rg_visible s0"
        by (auto simp: good_step_by_def reads_saved_def)
      with True d show ?thesis by auto
    next
      case False
      with good show ?thesis by (simp add: good_step_by_def reads_saved_def)
    qed
  qed
  moreover have "evolves_by R s0 s'"
  proof (rule evolves_trans [OF R])
    show "evolves_by R s0 s" using g0 evolves_weaken [OF R] by (simp add: good_step_by_def)
    show "evolves_by R s s'" using good by (simp add: good_step_by_def)
  qed
  ultimately show ?thesis using good by (simp add: good_op_by_def good_step_by_def)
qed


section \<open>Every operation\<close>

lemma good_persist_task:
  assumes "registry_inv s" "state_order R" "persist_task env t' d checkpoint m = (outcome, s')"
    "hm_get (rg_tasks s) i = Some t" "tk_id t' = tk_id t" "tk_kind t' = tk_kind t"
    "tk_source t' = tk_source t" "R (tk_state t) (tk_state t')"
    "rg_tasks m = hm_insert i t' (rg_tasks s)" "rg_visible m = rg_visible s"
    "rg_pending m = rg_pending s" "rg_persistence m = rg_persistence s"
    "checkpoint = None \<or> checkpoint = Some s"
  shows "good_step_by R s s'"
  by (rule good_change [OF assms(1,2) assms(3) [unfolded persist_task_def] assms(4-)])

lemma good_persist_task_before_destructive:
  assumes "registry_inv s" "state_order R" "persist_task_before_destructive env t' d checkpoint m = (outcome, s')"
    "hm_get (rg_tasks s) i = Some t" "tk_id t' = tk_id t" "tk_kind t' = tk_kind t"
    "tk_source t' = tk_source t" "R (tk_state t) (tk_state t')"
    "rg_tasks m = hm_insert i t' (rg_tasks s)" "rg_visible m = rg_visible s"
    "rg_pending m = rg_pending s" "rg_persistence m = rg_persistence s"
    "checkpoint = None \<or> checkpoint = Some s"
  shows "good_step_by R s s'"
  by (rule good_change [OF assms(1,2) assms(3) [unfolded persist_task_before_destructive_def] assms(4-)])

text \<open>Progress that does not wait for the store.\<close>

lemma publish_volatile_disk [simp]: "rg_disk (publish_volatile t s) = rg_disk s"
  by (simp add: publish_volatile_def)

lemma publish_volatile_good:
  assumes inv: "registry_inv s" and t: "hm_get (rg_tasks s) i = Some t"
    and t': "tk_id t' = tk_id t" "tk_kind t' = tk_kind t" "tk_source t' = tk_source t"
      "tk_state t' = tk_state t"
  shows "good_step s (publish_volatile t' (s\<lparr>rg_tasks := hm_insert i t' (rg_tasks s)\<rparr>))"
proof -
  note rec = registry_invD(1) [OF inv, unfolded records_inv_def]
  have id: "tk_id t' = i" using registry_invD(3) [OF inv t] t'(1) by simp
  have ev: "evolves s r" if "rg_tasks r = hm_insert i t' (rg_tasks s)" for r
    using that t t' by (auto simp: evolves_by_def)
  have pend: "state_at (rg_visible s) i = Some (tk_state t)" if "hm_get (rg_pending s) i = None"
    using registry_invD(4) [OF inv that] t by (simp add: state_at_def)
  show ?thesis
  proof (cases "hm_get (rg_pending s) i \<noteq> None \<or> hm_get (rg_visible s) i = None")
    case True
    then have held: "\<not> persistence_available s"
      using registry_invD(5) [OF inv] pend by (auto simp: state_at_def)
    let ?r = "stage_publication t' (s\<lparr>rg_tasks := hm_insert i t' (rg_tasks s)\<rparr>)"
    have "registry_inv ?r"
      using rec id t held by (auto simp: registry_inv_def records_inv_def state_at_def persistence_available_def)
    moreover have "reads_saved s ?r" by (simp add: reads_saved_def)
    ultimately show ?thesis using True id ev [of ?r] by (simp add: publish_volatile_def good_step_by_def)
  next
    case False
    let ?r = "publish_task t' (s\<lparr>rg_tasks := hm_insert i t' (rg_tasks s),
        rg_visible := hm_insert i t' (rg_visible s)\<rparr>)"
    have vis: "state_at (rg_visible ?r) j = state_at (rg_visible s) j" for j
      using pend False t'(4) by (auto simp: state_at_def)
    have "registry_inv ?r"
      using rec id t False t'(4) registry_invD(5,6) [OF inv]
      by (auto simp: registry_inv_def records_inv_def state_at_def persistence_available_def)
    moreover have "reads_saved s ?r" using vis by (simp add: reads_saved_def)
    ultimately have "good_step s ?r" using ev [of ?r] by (simp add: good_step_by_def)
    then show ?thesis using False id by (auto simp: publish_volatile_def)
  qed
qed

lemma apply_progress_frame [simp]:
  "tk_id (apply_progress now p t) = tk_id t" "tk_kind (apply_progress now p t) = tk_kind t"
  "tk_source (apply_progress now p t) = tk_source t" "tk_state (apply_progress now p t) = tk_state t"
  by (simp_all add: apply_progress_def)

lemma update_task_progress_good: "registry_inv s \<Longrightarrow> good_step s (snd (update_task_progress now i p s))"
  unfolding update_task_progress_def
  by (auto simp: Let_def good_refl publish_volatile_good split: option.split)

lemma update_playback_cache_progress_good:
  "registry_inv s \<Longrightarrow> good_step s (snd (update_playback_cache_progress now i p s))"
  unfolding update_playback_cache_progress_def
  by (auto simp: Let_def good_refl publish_volatile_good split: option.split)

text \<open>The claim.\<close>

lemma claim_scan_good: "registry_inv s \<Longrightarrow> good_step s (snd (claim_scan n env s))"
proof (induction n arbitrary: s)
  case 0
  then show ?case by (simp add: good_refl)
next
  case (Suc n)
  have again: "good_step s (snd (claim_scan n env (s\<lparr>rg_queued := q\<rparr>)))" for q
    by (rule good_from_same [OF Suc.IH])
      (use Suc.prems in \<open>simp_all add: registry_inv_def records_inv_def persistence_available_def\<close>)
  show ?case
  proof (cases "rg_queued s")
    case Nil
    with Suc.prems show ?thesis by (simp add: good_refl)
  next
    case (Cons task_id rest)
    show ?thesis
    proof (cases "hm_get (rg_tasks s) task_id")
      case None
      with Cons again show ?thesis by (simp add: Let_def)
    next
      case (Some t)
      let ?t = "t\<lparr>tk_state := Running, tk_message := ''Running Bilibili download adapter.'',
                          tk_updated_at := Some (ev_now env)\<rparr>"
      let ?s = "s\<lparr>rg_queued := rest, rg_tasks := hm_insert task_id ?t (rg_tasks s),
          rg_tokens := rg_tokens s @ [False],
          rg_running := hm_insert task_id (length (rg_tokens s)) (rg_running s)\<rparr>"
      have "good_step s (snd (persist_task env ?t False None ?s))" if "tk_state t = Queued"
        using good_persist_task [OF Suc.prems state_order_become surjective_pairing Some,
            where t' = ?t and env = env and d = False and checkpoint = None and m = ?s] that
        by (simp add: may_become_def is_terminal_def)
      with Cons Some again show ?thesis by (simp add: Let_def)
    qed
  qed
qed


text \<open>Endings.\<close>

lemma ended_task_frame [simp]:
  "tk_id (ended_task now st m l p t) = tk_id t" "tk_kind (ended_task now st m l p t) = tk_kind t"
  "tk_source (ended_task now st m l p t) = tk_source t"
  "tk_state (ended_task now st m l p t) = (if tk_state t = CancelRequested then Cancelled else st)"
  by (simp_all add: ended_task_def Let_def)

lemma complete_task_good:
  assumes inv: "registry_inv s0" and st: "is_terminal st"
  shows "good_op (Some env0) s0 (snd (complete_task env0 env task_id st message item_id progress s0))"
proof -
  obtain ok s where rec: "recover_first env0 is_committed s0 = (ok, s)" by fastforce
  have gs: "good_step s0 s" by (rule recover_first_good [OF inv rec])
  then have inv': "registry_inv s" by (simp add: good_step_by_def)
  note go = good_op_recovered [OF inv rec state_order_become]
  note refl = go [OF good_refl [OF inv']]
  show ?thesis
  proof (cases "normalize task_id = [] \<or> \<not> ok \<or> hm_get (rg_tasks s) (normalize task_id) = None")
    case True
    then show ?thesis
      using rec refl good_op_single [OF good_refl [OF inv]] by (auto simp: complete_task_def Let_def)
  next
    case False
    then obtain t where t: "hm_get (rg_tasks s) (normalize task_id) = Some t" by blast
    show ?thesis
    proof (cases "is_terminal (tk_state t)")
      case True
      with False t rec refl show ?thesis by (simp add: complete_task_def Let_def)
    next
      case nt: False
      let ?t = "ended_task (ev_now env) st message item_id progress t"
      let ?s = "clear_active_task ?t (s\<lparr>rg_tasks := hm_insert (normalize task_id) ?t (rg_tasks s)\<rparr>)"
      have m: "may_become (tk_state t) (if tk_state t = CancelRequested then Cancelled else st)"
        using nt st by (auto simp: may_become_def is_terminal_def)
      have "good_step s (snd (persist_task env ?t d None ?s))" for d
        using good_persist_task [OF inv' state_order_become surjective_pairing t, where t' = ?t and m = ?s] m by simp
      then have "good_op (Some env0) s0 (snd (persist_task env ?t d None ?s))" for d
        by (rule go)
      with False t nt rec show ?thesis by (simp add: complete_task_def Let_def case_prod_unfold)
    qed
  qed
qed

lemma end_task_good: "registry_inv s \<Longrightarrow> good_op (Some env0) s (snd (end_task env0 env i e message s))"
  by (cases e) (simp_all add: end_task_def complete_task_succeeded_def complete_task_failed_def
    complete_task_cancelled_def complete_task_good is_terminal_def)

text \<open>Cancellation.\<close>

lemma cancelled_task_frame [simp]:
  "tk_id (cancelled_task now t) = tk_id t" "tk_kind (cancelled_task now t) = tk_kind t"
  "tk_source (cancelled_task now t) = tk_source t" "tk_state (cancelled_task now t) = Cancelled"
  by (simp_all add: cancelled_task_def Let_def)

lemma cancel_worked_on_good:
  assumes inv: "registry_inv s" and synced: "rg_pending s = []"
    and v: "hm_get (rg_visible s) i = Some v" "tk_state v \<in> {Running, Preparing, CancelRequested}"
  shows "good_step s (snd (cancel_worked_on env i v s))"
proof -
  let ?s = "s\<lparr>rg_tokens := set_token (hm_get (rg_planning s) i) (set_token (hm_get (rg_running s) i) (rg_tokens s))\<rparr>"
  have g: "good_step s ?s" by (rule good_frame [OF inv]) simp_all
  show ?thesis
  proof (cases "tk_state v = CancelRequested \<or> hm_get (rg_tasks s) i = None")
    case True
    with g show ?thesis by (auto simp: cancel_worked_on_def Let_def)
  next
    case False
    then obtain t where t: "hm_get (rg_tasks s) i = Some t" by blast
    have "tk_state t = tk_state v"
      using registry_invD(4) [OF inv, of i] synced t v(1) by (simp add: state_at_def)
    then have m: "may_become (tk_state t) CancelRequested"
      using v(2) by (auto simp: may_become_def is_terminal_def)
    let ?t = "t\<lparr>tk_state := CancelRequested, tk_message := ''Cancellation requested.'',
                 tk_updated_at := Some (ev_now env)\<rparr>"
    have "good_step s (snd (persist_task env ?t d None (?s\<lparr>rg_tasks := hm_insert i ?t (rg_tasks s)\<rparr>)))" for d
      using good_persist_task [OF inv state_order_become surjective_pairing t, where t' = ?t
          and m = "?s\<lparr>rg_tasks := hm_insert i ?t (rg_tasks s)\<rparr>"] m by simp
    with False t show ?thesis by (simp add: cancel_worked_on_def Let_def case_prod_unfold)
  qed
qed

lemma cancel_idle_good:
  assumes inv: "registry_inv s" and synced: "rg_pending s = []"
    and v: "hm_get (rg_visible s) i = Some v" "\<not> is_terminal (tk_state v)"
  shows "good_step s (snd (cancel_idle env ok i s))"
proof (cases "hm_get (rg_tasks s) i")
  case None
  with inv show ?thesis by (simp add: cancel_idle_def good_refl)
next
  case (Some t)
  have "tk_state t = tk_state v"
    using registry_invD(4) [OF inv, of i] synced Some v(1) by (simp add: state_at_def)
  then have m: "may_become (tk_state t) Cancelled"
    using v(2) by (auto simp: may_become_def)
  have cp: "durability_checkpoint s = Some s"
    using registry_invD(2) [OF inv] by (simp add: durability_checkpoint_def)
  have rolled: "good_step s (restore_checkpoint s (s\<lparr>rg_tasks := x\<rparr>))" for x
    by (rule good_frame [OF inv]) (simp_all add: restore_checkpoint_def)
  let ?t = "cancelled_task (ev_now env) t"
  let ?s = "clear_active_task ?t (s\<lparr>rg_tasks := hm_insert i ?t (rg_tasks s)\<rparr>)"
  have one: "good_step s (snd (persist_task_before_destructive env ?t d (Some s) ?s))"
    and two: "good_step s (snd (persist_task env ?t d (Some s) ?s))" for d
    using good_persist_task_before_destructive [OF inv state_order_become surjective_pairing Some, where t' = ?t and m = ?s]
      good_persist_task [OF inv state_order_become surjective_pairing Some, where t' = ?t and m = ?s] m by simp_all
  show ?thesis
    using Some cp rolled one two by (simp add: cancel_idle_def Let_def case_prod_unfold)
qed

lemma cancel_task_good:
  assumes inv: "registry_inv s0"
  shows "good_op (Some env0) s0 (snd (cancel_task_with_hls_session_ids env0 env output_ok task_id s0))"
proof -
  obtain ok s where rec: "recover_first env0 is_durable s0 = (ok, s)" by fastforce
  have gs: "good_step s0 s" by (rule recover_first_good [OF inv rec])
  then have inv': "registry_inv s" by (simp add: good_step_by_def)
  note go = good_op_recovered [OF inv rec state_order_become]
  note refl = go [OF good_refl [OF inv']]
  show ?thesis
  proof (cases "normalize task_id = [] \<or> \<not> ok \<or> hm_get (rg_visible s) (normalize task_id) = None")
    case True
    then show ?thesis using rec refl good_op_single [OF good_refl [OF inv]]
      by (auto simp: cancel_task_with_hls_session_ids_def Let_def)
  next
    case False
    then obtain v where v: "hm_get (rg_visible s) (normalize task_id) = Some v" by blast
    have synced: "rg_pending s = []"
      by (rule recover_first_pending [OF inv, of env0 is_durable])
        (use rec False in \<open>simp_all add: is_durable_def is_committed_def\<close>)
    show ?thesis
      using False v rec refl go [OF cancel_worked_on_good [OF inv' synced v]]
        go [OF cancel_idle_good [OF inv' synced v]]
      by (simp add: cancel_task_with_hls_session_ids_def Let_def)
  qed
qed


text \<open>Publication of playback.\<close>

lemma with_playback_task_good:
  assumes inv: "registry_inv s"
    and act: "\<And>i t. hm_get (rg_tasks s) i = Some t \<Longrightarrow> \<not> is_terminal (tk_state t) \<Longrightarrow>
      good_step s (snd (act i t))"
  shows "good_step s (snd (with_playback_task task_id act s))"
  using good_refl [OF inv] act by (auto simp: with_playback_task_def Let_def split: option.split)

text \<open>A commit that was refused for good gives the task and its publication back.\<close>

lemma restore_task_record_good:
  assumes inv: "registry_inv s" and t: "hm_get (rg_tasks s) i = Some t" and t': "tk_id t' = tk_id t"
    and s1: "rg_tasks s1 = hm_insert i t' (rg_tasks s)" "rg_visible s1 = rg_visible s"
      "rg_pending s1 = rg_pending s" "rg_persistence s1 = rg_persistence s"
    and run: "persist_task env t' d None s1 = (outcome, s2)" and out: "is_permanent_failure outcome"
  shows "good_step s (restore_task_record t (hm_get (rg_pending s) i) s2)"
proof -
  have id: "tk_id t = i" by (rule registry_invD(3) [OF inv t])
  note rec = registry_invD(1) [OF inv, unfolded records_inv_def]
  have store: "rg_persistence (stage_publication t' s1) \<noteq> None" using s1(4) rec by simp
  have ref: "rg_persistence s2 = Some False" "refused (stage_publication t' s1) (stage_publication t' s1) s2"
    using store run [unfolded persist_task_def] out
    by (cases rule: persist_pending_cases; auto simp: is_permanent_failure_def)+
  let ?r = "restore_task_record t (hm_get (rg_pending s) i) s2"
  have tasks: "hm_get (rg_tasks ?r) j = hm_get (rg_tasks s) j" for j
    using ref(2) s1(1) id t by (simp add: restore_task_record_def refused_def same_records_def)
  have pend: "hm_get (rg_pending ?r) j = None \<longleftrightarrow> hm_get (rg_pending s) j = None" for j
    using ref(2) s1(3) id t' by (simp add: restore_task_record_def refused_def split: option.split)
  have vis: "rg_visible ?r = rg_visible s"
    using ref(2) s1(2) by (simp add: restore_task_record_def refused_def)
  have wf: "hm_wf (rg_tasks ?r)"
    using ref(2) s1(1) rec by (simp add: restore_task_record_def refused_def same_records_def)
  have lost: "rg_persistence ?r = Some False" using ref(1) by (simp add: restore_task_record_def)
  have "registry_inv ?r"
    using rec wf lost tasks pend vis
    by (simp add: registry_inv_def records_inv_def persistence_available_def state_at_def)
  moreover have "evolves s ?r" using tasks by (auto simp: evolves_by_def)
  moreover have "reads_saved s ?r" using vis by (simp add: reads_saved_def)
  ultimately show ?thesis by (simp add: good_step_by_def)
qed

lemma publish_playback_good:
  assumes inv: "registry_inv s" and t: "hm_get (rg_tasks s) i = Some t"
    and t': "tk_id t' = tk_id t" "tk_kind t' = tk_kind t" "tk_source t' = tk_source t"
      "may_become (tk_state t) (tk_state t')"
  shows "good_step s (snd (publish_playback env i t t' s))"
proof -
  let ?s = "s\<lparr>rg_tasks := hm_insert i t' (rg_tasks s)\<rparr>"
  obtain out s2 where run: "persist_task env t' False None ?s = (out, s2)" by fastforce
  have g: "good_step s s2"
    using good_persist_task [OF inv state_order_become run t t'] by simp
  then have ended: "good_step s (end_publication t' s2)"
    by (rule good_to_same) simp_all
  show ?thesis
    using run ended restore_task_record_good [OF inv t t'(1) _ _ _ _ run]
    by (simp add: publish_playback_def persist_playback_publication_def)
qed

lemma cancelled_by_request_frame [simp]:
  "tk_id (cancelled_by_request now t) = tk_id t" "tk_kind (cancelled_by_request now t) = tk_kind t"
  "tk_source (cancelled_by_request now t) = tk_source t" "tk_state (cancelled_by_request now t) = Cancelled"
  by (simp_all add: cancelled_by_request_def)

lemma may_become_live: "\<not> is_terminal a \<Longrightarrow> a \<noteq> CancelRequested \<Longrightarrow> b \<noteq> Queued \<Longrightarrow> may_become a b"
  by (simp add: may_become_def)

lemma may_become_cancelled [simp]: "\<not> is_terminal a \<Longrightarrow> may_become a Cancelled"
  by (simp add: may_become_def)

lemma may_become_failed [simp]: "\<not> is_terminal a \<Longrightarrow> may_become a Failed"
  by (simp add: may_become_def)

lemma complete_playback_planned_good:
  "registry_inv s \<Longrightarrow> good_step s (snd (complete_playback_planned env i title session s))"
  unfolding complete_playback_planned_def
  by (rule with_playback_task_good) (auto intro!: publish_playback_good simp: may_become_live)

lemma complete_playback_playable_good:
  "registry_inv s \<Longrightarrow> good_step s (snd (complete_playback_playable env i title source session s))"
  unfolding complete_playback_playable_def
  by (rule with_playback_task_good) (auto intro!: publish_playback_good simp: may_become_live)

lemma complete_playback_results_playable_good:
  "registry_inv s \<Longrightarrow>
    good_step s (snd (complete_playback_results_playable env i title message source session items s))"
  unfolding complete_playback_results_playable_def
  by (rule with_playback_task_good) (auto intro!: publish_playback_good simp: may_become_live)

lemma update_playback_results_good:
  assumes inv: "registry_inv s"
  shows "good_step s (snd (update_playback_results env i title message progress items s))"
  unfolding update_playback_results_def
proof (rule with_playback_task_good [OF inv])
  fix i t assume t: "hm_get (rg_tasks s) i = Some t"
  let ?t = "t\<lparr>tk_title := (case title of Some x \<Rightarrow> x | None \<Rightarrow> tk_title t), tk_message := message,
             tk_progress := (case progress of Finite v \<Rightarrow> Finite (clamp_to (99 / 100) v)
               | NotFinite \<Rightarrow> tk_progress t),
             tk_result_items := items, tk_updated_at := Some (ev_now env)\<rparr>"
  obtain out s2 where run: "persist_task env ?t False None (s\<lparr>rg_tasks := hm_insert i ?t (rg_tasks s)\<rparr>) = (out, s2)"
    by fastforce
  have "good_step s s2" using good_persist_task [OF inv state_order_become run t] by simp
  moreover have "is_permanent_failure out \<Longrightarrow> good_step s (restore_task_record t (hm_get (rg_pending s) i) s2)"
    by (rule restore_task_record_good [OF inv t _ _ _ _ _ run]) simp_all
  ultimately show "good_step s (snd (let t' = ?t; (outcome, s1) = persist_task env t' False None
        (s\<lparr>rg_tasks := hm_insert i t' (rg_tasks s)\<rparr>)
      in if is_permanent_failure outcome
         then (Inl FailedPrecondition, restore_task_record t (hm_get (rg_pending s) i) s1)
         else (Inr t', s1)))"
    using run by (simp add: Let_def)
qed

lemma fail_after_restart_good:
  assumes inv: "registry_inv s"
  shows "good_step s (snd (fail_playback_task_after_cache_restore env i message s))"
  unfolding fail_playback_task_after_cache_restore_def Let_def
proof (rule with_playback_task_good [OF inv])
  fix i t assume t: "hm_get (rg_tasks s) i = Some t" and nt: "\<not> is_terminal (tk_state t)"
  let ?t = "t\<lparr>tk_state := Failed, tk_message := message, tk_library_item_id := [],
             tk_playback_source := None, tk_playback_session := None,
             tk_result_items := clear_result_playback_metadata Failed message (tk_result_items t),
             tk_updated_at := Some (ev_now env), tk_finished_at := Some (ev_now env)\<rparr>"
  let ?s = "clear_active_task ?t (s\<lparr>rg_tasks := hm_insert i ?t (rg_tasks s)\<rparr>)"
  show "good_step s (snd (Inr ?t :: status + task, snd (persist_task env ?t False None ?s)))"
    using good_persist_task [OF inv state_order_become surjective_pairing t, where t' = ?t and m = ?s] nt by simp
qed

text \<open>Cached sessions.\<close>

lemma cached_task_frame [simp]:
  "tk_id (cached_task now s l c t) = tk_id t" "tk_kind (cached_task now s l c t) = tk_kind t"
  "tk_source (cached_task now s l c t) = tk_source t"
  by (simp_all add: cached_task_def Let_def)

text \<open>A completed task has its result again; its own state does not change.\<close>

lemma cached_task_state:
  "\<not> is_terminal (tk_state t) \<or> tk_state t = Completed \<Longrightarrow>
    may_become (tk_state t) (tk_state (cached_task now s l c t))"
  by (auto simp: cached_task_def Let_def may_become_def is_terminal_def)

lemma complete_cached_good:
  assumes inv: "registry_inv s0"
  shows "good_op (Some env0) s0
    (snd (complete_playback_hls_session_cached env0 env task_id session_id item_id completed s0))"
proof -
  obtain ok s where rec: "recover_first env0 is_durable s0 = (ok, s)" by fastforce
  have gs: "good_step s0 s" by (rule recover_first_good [OF inv rec])
  then have inv': "registry_inv s" by (simp add: good_step_by_def)
  note go = good_op_recovered [OF inv rec state_order_become]
  note refl = go [OF good_refl [OF inv']]
  show ?thesis
  proof (cases "normalize task_id = [] \<or> normalize session_id = [] \<or> \<not> ok
      \<or> hm_get (rg_tasks s) (normalize task_id) = None")
    case True
    then show ?thesis using rec refl good_op_single [OF good_refl [OF inv]]
      by (auto simp: complete_playback_hls_session_cached_def Let_def)
  next
    case False
    then obtain t where t: "hm_get (rg_tasks s) (normalize task_id) = Some t" by blast
    let ?t = "cached_task (ev_now env) (normalize session_id) item_id completed t"
    let ?m = "s\<lparr>rg_tasks := hm_insert (normalize task_id) ?t (rg_tasks s)\<rparr>"
    let ?s = "if is_terminal (tk_state ?t) then clear_active_task ?t ?m else ?m"
    show ?thesis
    proof (cases "is_terminal (tk_state t) \<and> \<not> completed_task_has_playable_result t (normalize session_id)")
      case True
      with False t rec refl show ?thesis by (simp add: complete_playback_hls_session_cached_def Let_def)
    next
      case nt: False
      then have m: "may_become (tk_state t) (tk_state ?t)"
        by (intro cached_task_state) (auto simp: completed_task_has_playable_result_def)
      have "good_step s (snd (persist_task env ?t d None ?s))" for d
        using good_persist_task [OF inv' state_order_become surjective_pairing t, where t' = ?t and m = ?s] m by simp
      then have "good_op (Some env0) s0 (snd (persist_task env ?t d None ?s))" for d
        by (rule go)
      with False t nt rec refl show ?thesis
        by (simp add: complete_playback_hls_session_cached_def Let_def case_prod_unfold)
    qed
  qed
qed

text \<open>The operations that do not change a task.\<close>

lemma retry_good: "registry_inv s \<Longrightarrow> good_step s (snd (retry_pending_persistence env s))"
  using retry_commit [OF registry_invD(1), of s env True False]
  by (cases "persist_pending env True None False s")
    (auto simp: retry_pending_persistence_def good_step_by_def evolves_by_def)

lemma subscriptions_good:
  assumes inv: "registry_inv s"
  shows "good_step s (snd (subscribe w ids s))" "good_step s (snd (recv_task w s))"
    "good_step s (unsubscribe w s)"
proof -
  have g: "good_step s (s\<lparr>rg_watchers := x\<rparr>)" for x by (rule good_frame [OF inv]) simp_all
  show "good_step s (snd (subscribe w ids s))"
    using g good_refl [OF inv] by (simp add: subscribe_def Let_def)
  show "good_step s (snd (recv_task w s))"
    using g good_refl [OF inv] by (simp add: recv_task_def split: option.split list.split)
  show "good_step s (unsubscribe w s)" using g by (simp add: unsubscribe_def)
qed

end
