(* ===== verification/Task_Loss.thy ===== *)
theory Task_Loss
  imports Task_Safety
begin

text \<open>
  What the operations of \<open>Task_Restore\<close> keep: the invariant of the records, the identity of every task,
  the order of states each of them is bound by, and that readers see what was saved. A lemma on
  commits that change several tasks at once carries the deletion of media and the start-up check.
\<close>

section \<open>Several tasks at once\<close>

lemma stage_publications_simps [simp]:
  "stage_publications [] s = s"
  "stage_publications (t # ts) s = stage_publications ts (stage_publication t s)"
  by (simp_all add: stage_publications_def)

lemma stage_publications_frame [simp]:
  "rg_tasks (stage_publications ts s) = rg_tasks s" "rg_visible (stage_publications ts s) = rg_visible s"
  "rg_persistence (stage_publications ts s) = rg_persistence s"
  "rg_active (stage_publications ts s) = rg_active s"
  "rg_download_options (stage_publications ts s) = rg_download_options s"
  "rg_playback_options (stage_publications ts s) = rg_playback_options s"
  "rg_request_context (stage_publications ts s) = rg_request_context s"
  "rg_candidates (stage_publications ts s) = rg_candidates s"
  by (induction ts arbitrary: s; simp)+

lemma stage_publications_pending:
  "hm_get (rg_pending (stage_publications ts s)) i = None \<longleftrightarrow>
     i \<notin> tk_id ` set ts \<and> hm_get (rg_pending s) i = None"
  by (induction ts arbitrary: s) auto

lemma good_change_many:
  assumes inv: "registry_inv s" and R: "state_order R"
    and run: "persist_pending env d checkpoint r (stage_publications ts s1) = (outcome, s2)"
    and wf: "hm_wf (rg_tasks s1)"
    and each: "\<And>i u. hm_get (rg_tasks s1) i = Some u \<Longrightarrow> \<exists>t. hm_get (rg_tasks s) i = Some t \<and> tk_id u = tk_id t
      \<and> tk_kind u = tk_kind t \<and> tk_source u = tk_source t \<and> R (tk_state t) (tk_state u)"
    and others: "\<And>i. i \<notin> tk_id ` set ts \<Longrightarrow> state_at (rg_tasks s1) i = state_at (rg_tasks s) i"
    and same: "rg_visible s1 = rg_visible s" "rg_pending s1 = rg_pending s" "rg_persistence s1 = rg_persistence s"
    and cp: "checkpoint = None \<or> checkpoint = Some s"
  shows "good_step_by R s s2"
proof -
  let ?m = "stage_publications ts s1"
  have store: "rg_persistence ?m \<noteq> None" using registry_invD(2) [OF inv] same by simp
  have ids: "\<forall>i t. hm_get (rg_tasks ?m) i = Some t \<longrightarrow> tk_id t = i"
    using each registry_invD(3) [OF inv] by fastforce
  have pend: "\<forall>i. hm_get (rg_pending ?m) i = None \<longrightarrow> state_at (rg_visible ?m) i = state_at (rg_tasks ?m) i"
    using others registry_invD(4) [OF inv] same by (simp add: stage_publications_pending)
  have cp': "\<forall>c. checkpoint = Some c \<longrightarrow> records_inv c \<and> rg_visible c = rg_visible ?m"
    using cp registry_invD(1) [OF inv] same by auto
  have wf': "hm_wf (rg_tasks ?m)" using wf by simp
  note p = persist_pending_inv [OF run store wf' ids pend cp']
  have "hm_get (rg_tasks s2) j = Some u \<Longrightarrow>
      hm_get (rg_tasks s1) j = Some u \<or> hm_get (rg_tasks s) j = Some u" for j u
    using store run
    by (cases rule: persist_pending_cases)
      (use cp in \<open>auto simp: committed_def refused_def same_records_def split: if_splits option.splits\<close>)
  then have "evolves_by R s s2"
    using each state_orderD(2) [OF R] unfolding evolves_by_def by blast
  then show ?thesis using p same by (simp add: good_step_by_def reads_saved_def)
qed

lemma change_tasks_get:
  "hm_get (rg_tasks (change_tasks change s)) i =
     map_option (\<lambda>t. case change t of Some t' \<Rightarrow> t' | None \<Rightarrow> t) (hm_get (rg_tasks s) i)"
  by (simp add: change_tasks_def hm_get_map_values)

lemma change_tasks_frame [simp]:
  "rg_visible (change_tasks change s) = rg_visible s" "rg_pending (change_tasks change s) = rg_pending s"
  "rg_persistence (change_tasks change s) = rg_persistence s"
  "rg_active (change_tasks change s) = rg_active s"
  "rg_download_options (change_tasks change s) = rg_download_options s"
  "rg_playback_options (change_tasks change s) = rg_playback_options s"
  "rg_request_context (change_tasks change s) = rg_request_context s"
  "rg_candidates (change_tasks change s) = rg_candidates s"
  by (simp_all add: change_tasks_def)

lemma change_tasks_wf: "hm_wf (rg_tasks s) \<Longrightarrow> hm_wf (rg_tasks (change_tasks change s))"
  by (simp add: change_tasks_def hm_wf_def comp_def case_prod_beta')

lemma good_change_tasks:
  assumes inv: "registry_inv s" and R: "state_order R"
    and change: "\<And>t t'. change t = Some t' \<Longrightarrow> tk_id t' = tk_id t \<and> tk_kind t' = tk_kind t
      \<and> tk_source t' = tk_source t \<and> R (tk_state t) (tk_state t')"
    and cp: "checkpoint = None \<or> checkpoint = Some s"
  shows "good_step_by R s
    (snd (persist_pending env d checkpoint r (stage_publications (changed_tasks change s) (change_tasks change s))))"
proof (rule good_change_many [OF inv R surjective_pairing _ _ _ _ _ _ cp])
  show "hm_wf (rg_tasks (change_tasks change s))"
    using registry_invD(1) [OF inv] by (simp add: change_tasks_wf records_inv_def)
  show "\<exists>t. hm_get (rg_tasks s) i = Some t \<and> tk_id u = tk_id t \<and> tk_kind u = tk_kind t
      \<and> tk_source u = tk_source t \<and> R (tk_state t) (tk_state u)"
    if "hm_get (rg_tasks (change_tasks change s)) i = Some u" for i u
    using that change state_orderD(2) [OF R] by (auto simp: change_tasks_get split: option.splits)
  show "state_at (rg_tasks (change_tasks change s)) i = state_at (rg_tasks s) i"
    if i: "i \<notin> tk_id ` set (changed_tasks change s)" for i
  proof (cases "hm_get (rg_tasks s) i")
    case (Some t)
    have "change t = None"
    proof (rule ccontr)
      assume "change t \<noteq> None"
      then obtain t' where t': "change t = Some t'" by blast
      then have "t' \<in> set (changed_tasks change s)"
        using hm_get_in_values [OF Some] by (force simp: changed_tasks_def List.map_filter_def)
      then have "tk_id t' \<in> tk_id ` set (changed_tasks change s)" by (rule imageI)
      then show False using i change [OF t'] registry_invD(3) [OF inv Some] by simp
    qed
    then show ?thesis using Some by (simp add: state_at_def change_tasks_get)
  qed (simp add: state_at_def change_tasks_get)
qed simp_all

section \<open>Finding a task\<close>

lemma hm_values_get: "hm_wf m \<Longrightarrow> v \<in> set (hm_values m) \<Longrightarrow> \<exists>k. hm_get m k = Some v"
  unfolding hm_get_def hm_values_def hm_wf_def by fastforce

lemma found_task:
  assumes inv: "registry_inv s" and found: "find P (hm_values (rg_tasks s)) = Some t"
  shows "hm_get (rg_tasks s) (tk_id t) = Some t \<and> P t"
proof -
  have "t \<in> set (hm_values (rg_tasks s))" "P t" using found by (auto simp: find_Some_iff)
  moreover have "hm_wf (rg_tasks s)" using registry_invD(1) [OF inv] by (simp add: records_inv_def)
  ultimately show ?thesis using hm_values_get registry_invD(3) [OF inv] by metis
qed

lemma completed_playback_task_found:
  assumes "registry_inv s" "completed_playback_task session_id s = Some t"
  shows "hm_get (rg_tasks s) (tk_id t) = Some t \<and> tk_kind t = BilibiliProgressivePlayback
    \<and> tk_state t = Completed \<and> session_id \<in> playback_hls_session_ids t"
  using assms(2) found_task [OF assms(1)] by (fastforce simp: completed_playback_task_def bind_eq_Some_conv)

lemma playable_task_found:
  assumes "registry_inv s" "playable_task_with_cached_result session_id item_id s = Some t"
  shows "hm_get (rg_tasks s) (tk_id t) = Some t \<and> tk_kind t = BilibiliProgressivePlayback \<and> tk_state t = Playable"
  using assms(2) found_task [OF assms(1)] by (fastforce simp: playable_task_with_cached_result_def bind_eq_Some_conv)

section \<open>Sessions that cannot be restored\<close>

lemma failed_playback_frame [simp]:
  "tk_id (failed_playback now m t) = tk_id t" "tk_kind (failed_playback now m t) = tk_kind t"
  "tk_source (failed_playback now m t) = tk_source t" "tk_state (failed_playback now m t) = Failed"
  by (simp_all add: failed_playback_def)

lemma with_items_frame [simp]:
  "tk_id (with_items now m items t) = tk_id t" "tk_kind (with_items now m items t) = tk_kind t"
  "tk_source (with_items now m items t) = tk_source t" "tk_state (with_items now m items t) = tk_state t"
  by (simp_all add: with_items_def)

lemma may_expire_refl [simp]: "may_expire a a"
  by (simp add: may_expire_def)

lemma may_expire_served [simp]: "may_expire Completed Failed" "may_expire Playable Failed"
  by (simp_all add: may_expire_def is_terminal_def may_become_def)

lemma may_fail_refl [simp]: "may_fail a a" "may_fail a Failed"
  by (simp_all add: may_fail_def)

lemma fail_completed_good:
  assumes inv: "registry_inv s"
  shows "good_step_by may_expire s
    (snd (fail_completed_playback_task_after_cache_restore env session_id message s))"
proof (cases "completed_playback_task (normalize session_id) s")
  case None
  with good_step_weaken [OF state_order_expire good_refl [OF inv]] show ?thesis
    by (simp add: fail_completed_playback_task_after_cache_restore_def Let_def)
next
  case (Some t)
  note f = completed_playback_task_found [OF inv Some]
  let ?t = "failed_playback (ev_now env) message t"
  let ?s = "clear_active_task ?t (s\<lparr>rg_tasks := hm_insert (tk_id t) ?t (rg_tasks s)\<rparr>)"
  have "good_step_by may_expire s (snd (persist_task env ?t False None ?s))"
    using good_persist_task [OF inv state_order_expire surjective_pairing conjunct1 [OF f],
        where t' = ?t and m = ?s] f by simp
  with Some f good_step_weaken [OF state_order_expire good_refl [OF inv]] show ?thesis
    by (simp add: fail_completed_playback_task_after_cache_restore_def Let_def)
qed

lemma rejected_session_task_frame:
  assumes "rejected_session_task now session_id message t = Some t'"
    and "tk_state t = Playable \<or> tk_state t = Completed"
  shows "tk_id t' = tk_id t \<and> tk_kind t' = tk_kind t \<and> tk_source t' = tk_source t
    \<and> may_expire (tk_state t) (tk_state t')"
  using assms by (auto simp: rejected_session_task_def split: if_splits prod.splits bool.splits)

lemma reject_session_good:
  assumes inv: "registry_inv s0"
  shows "good_op_by may_expire (Some env0) s0
    (snd (fail_unrestorable_playback_session_after_cache_restore env0 env session_id message s0))"
proof -
  obtain ok s where rec: "recover_first env0 is_durable s0 = (ok, s)" by fastforce
  have gs: "good_step s0 s" by (rule recover_first_good [OF inv rec])
  then have inv': "registry_inv s" by (simp add: good_step_by_def)
  note go = good_op_recovered [OF inv rec state_order_expire]
  have refl: "good_op_by may_expire (Some env0) s0 s"
    by (rule go [OF good_step_weaken [OF state_order_expire good_refl [OF inv']]])
  have refl0: "good_op_by may_expire (Some env0) s0 s0"
    by (rule good_op_single [OF good_step_weaken [OF state_order_expire good_refl [OF inv]]])
  have changed: "good_op_by may_expire (Some env0) s0 (snd (persist_task_before_destructive env t' d (Some s)
      (if tk_state t' = Failed then clear_active_task t' (s\<lparr>rg_tasks := hm_insert (tk_id t) t' (rg_tasks s)\<rparr>)
       else s\<lparr>rg_tasks := hm_insert (tk_id t) t' (rg_tasks s)\<rparr>)))"
    if t: "hm_get (rg_tasks s) (tk_id t) = Some t" "tk_state t = Playable \<or> tk_state t = Completed"
      and t': "rejected_session_task now sid message t = Some t'" for t t' now sid d
    by (rule go, rule good_persist_task_before_destructive [OF inv' state_order_expire surjective_pairing t(1)])
      (use rejected_session_task_frame [OF t' t(2)] in auto)
  let ?sid = "normalize session_id"
  let ?P = "\<lambda>t. tk_kind t = BilibiliProgressivePlayback \<and> (tk_state t = Playable \<or> tk_state t = Completed)
    \<and> (primary_hls_session_id t = Some ?sid
       \<or> list_ex (\<lambda>item. ?sid \<in> result_item_hls_session_ids item \<and> item_serves_online item) (tk_result_items t))"
  show ?thesis
  proof (cases "?sid = [] \<or> \<not> ok \<or> find ?P (hm_values (rg_tasks s)) = None")
    case True
    then show ?thesis using rec refl refl0
      by (auto simp: fail_unrestorable_playback_session_after_cache_restore_def Let_def)
  next
    case False
    then obtain t where t: "find ?P (hm_values (rg_tasks s)) = Some t" by blast
    note f = found_task [OF inv' t]
    show ?thesis
    proof (cases "rejected_session_task (ev_now env) ?sid message t")
      case None
      with False t rec refl show ?thesis
        by (simp add: fail_unrestorable_playback_session_after_cache_restore_def Let_def)
    next
      case (Some t')
      note c = changed [OF conjunct1 [OF f] _ Some, of "durability_required s"]
      have "durability_checkpoint s = Some s"
        using registry_invD(2) [OF inv'] by (simp add: durability_checkpoint_def)
      with c False t Some rec f show ?thesis
        by (simp add: fail_unrestorable_playback_session_after_cache_restore_def Let_def case_prod_unfold
            split del: if_split)
    qed
  qed
qed

lemma unrestorable_task_frame:
  "unrestorable_task now playable completed t = Some t' \<Longrightarrow>
    tk_id t' = tk_id t \<and> tk_kind t' = tk_kind t \<and> tk_source t' = tk_source t
    \<and> may_expire (tk_state t) (tk_state t')"
  by (auto simp: unrestorable_task_def Let_def split: if_splits prod.splits bool.splits)

lemma fail_unrestorable_good:
  assumes inv: "registry_inv s"
  shows "good_step_by may_expire s (snd (fail_unrestorable_playback_tasks env playable completed s))"
  using good_change_tasks [OF inv state_order_expire unrestorable_task_frame, where checkpoint = None]
    good_step_weaken [OF state_order_expire good_refl [OF inv]]
  by (simp add: fail_unrestorable_playback_tasks_def persist_tasks_def Let_def)

section \<open>Deleted media\<close>

lemma delete_cached_result_good:
  assumes inv: "registry_inv s" and t: "hm_get (rg_tasks s) (tk_id t) = Some t"
  shows "good_step s (snd (delete_cached_result env ok (with_items now m items t) s))"
proof -
  let ?t = "with_items now m items t"
  let ?s = "s\<lparr>rg_tasks := hm_insert (tk_id t) ?t (rg_tasks s)\<rparr>"
  have "good_step s (snd (persist_task_before_destructive env ?t d (Some s) ?s))" for d
    using good_persist_task_before_destructive [OF inv state_order_become surjective_pairing t,
        where t' = ?t and m = ?s] by simp
  moreover have "good_step s (restore_checkpoint s ?s)"
    by (rule good_frame [OF inv]) (simp_all add: restore_checkpoint_def)
  ultimately show ?thesis
    using registry_invD(2) [OF inv]
    by (simp add: delete_cached_result_def Let_def case_prod_unfold durability_checkpoint_def)
qed

lemma remove_task_record_good:
  assumes inv: "registry_inv s" and t: "hm_get (rg_tasks s) (tk_id t) = Some t"
  shows "good_step s (snd (remove_task_record env t s))"
proof -
  let ?t = "failed_playback (ev_now env) PLAYBACK_CACHE_DELETED_MESSAGE t"
  let ?s = "s\<lparr>rg_tasks := hm_remove (tk_id t) (rg_tasks s),
            rg_download_options := hm_remove (tk_id t) (rg_download_options s),
            rg_playback_options := hm_remove (tk_id t) (rg_playback_options s),
            rg_request_context := hm_remove (tk_id t) (rg_request_context s),
            rg_running := hm_remove (tk_id t) (rg_running s),
            rg_planning := hm_remove (tk_id t) (rg_planning s)\<rparr>"
  have "good_step s (snd (persist_pending env d (Some s) True (stage_publications [?t] ?s)))" for d
  proof (rule good_change_many [OF inv state_order_become surjective_pairing])
    show "hm_wf (rg_tasks ?s)" using registry_invD(1) [OF inv] by (simp add: records_inv_def)
  qed (auto simp: state_at_def split: if_splits)
  then show ?thesis
    using registry_invD(2) [OF inv]
    by (simp add: remove_task_record_def persist_task_before_destructive_def Let_def case_prod_unfold
        durability_checkpoint_def)
qed

lemma remove_completed_good:
  assumes inv: "registry_inv s"
  shows "good_step s (snd (remove_completed_playback_task env ok session_id item_id s))"
  using good_refl [OF inv] completed_playback_task_found [OF inv] playable_task_found [OF inv]
    delete_cached_result_good [OF inv] remove_task_record_good [OF inv]
  by (auto simp: remove_completed_playback_task_def Let_def split: option.split prod.split bool.split)

lemma tombstoned_task_frame:
  assumes "tombstoned_task now item_id updates t = Some t'"
  shows "tk_id t' = tk_id t \<and> tk_kind t' = tk_kind t \<and> tk_source t' = tk_source t
    \<and> may_fail (tk_state t) (tk_state t')"
  using assms by (auto simp: tombstoned_task_def Let_def split: if_splits option.splits)

lemma tombstone_good:
  assumes inv: "registry_inv s"
  shows "good_step_by may_fail s (snd (tombstone_library_item_before_delete env prepared ok updates item_id s))"
proof -
  note refl = good_step_weaken [OF state_order_fail good_refl [OF inv]]
  have "durability_checkpoint s = Some s"
    using registry_invD(2) [OF inv] by (simp add: durability_checkpoint_def)
  with good_change_tasks [OF inv state_order_fail tombstoned_task_frame, where checkpoint = "Some s"] refl
  show ?thesis
    by (simp add: tombstone_library_item_before_delete_def persist_tasks_before_destructive_def Let_def
        case_prod_unfold split: sum.split)
qed

section \<open>Commits that do not end well\<close>

lemma committed_download_frame [simp]:
  "tk_id (committed_download now st l m out t) = tk_id t" "tk_kind (committed_download now st l m out t) = tk_kind t"
  "tk_source (committed_download now st l m out t) = tk_source t"
  "tk_state (committed_download now st l m out t) = (if tk_state t = CancelRequested then Cancelled else st)"
  by (simp_all add: committed_download_def Let_def)

lemma commit_download_good:
  assumes inv: "registry_inv s"
  shows "good_step s (snd (commit_staged_download_terminal env ok intents checked out st item_id message task_id s))"
proof (cases "st \<in> {Succeeded, Failed, Cancelled} \<and> (\<exists>t. hm_get (rg_tasks s) (normalize task_id) = Some t
    \<and> \<not> is_terminal (tk_state t))")
  case False
  with good_refl [OF inv] show ?thesis
    by (auto simp: commit_staged_download_terminal_def Let_def split: sum.split option.split)
next
  case True
  then obtain t where t: "hm_get (rg_tasks s) (normalize task_id) = Some t" "\<not> is_terminal (tk_state t)" by blast
  let ?t = "committed_download (ev_now env) st item_id message out t"
  have m: "may_become (tk_state t) (if tk_state t = CancelRequested then Cancelled else st)"
    using t(2) True by (auto simp: may_become_def)
  have "good_step s (snd (persist_task env ?t True (Some s) (clear_active_task ?t
      (s\<lparr>rg_tasks := hm_insert (normalize task_id) ?t (rg_tasks s), rg_cleanup_owners := x\<rparr>))))" for x
    using good_persist_task [OF inv state_order_become surjective_pairing t(1), where t' = ?t
        and m = "clear_active_task ?t (s\<lparr>rg_tasks := hm_insert (normalize task_id) ?t (rg_tasks s),
          rg_cleanup_owners := x\<rparr>)"] m by simp
  moreover have "st \<in> {Succeeded, Failed, Cancelled}" using True by simp
  ultimately show ?thesis
    using t good_refl [OF inv]
    by (simp add: commit_staged_download_terminal_def Let_def case_prod_unfold del: insert_iff split: sum.split)
qed

lemma retire_good:
  assumes inv: "registry_inv s"
  shows "good_step s (snd (retire_expired_task_resources_except env expired s))"
proof -
  let ?change = "\<lambda>t. if tk_id t \<in> set expired then Some (t\<lparr>tk_updated_at := Some (ev_now env)\<rparr>) else None"
  have "durability_checkpoint s = Some s"
    using registry_invD(2) [OF inv] by (simp add: durability_checkpoint_def)
  moreover have "good_step s (snd (persist_pending env d (Some s) False
      (stage_publications (changed_tasks ?change s) (change_tasks ?change s))))" for d
    by (rule good_change_tasks [OF inv state_order_become]) (auto split: if_splits)
  ultimately show ?thesis
    using good_refl [OF inv]
    by (simp add: retire_expired_task_resources_except_def persist_tasks_def Let_def case_prod_unfold)
qed

text \<open>A commit of the tasks as they are.\<close>

lemma good_commit_frame:
  assumes inv: "registry_inv s"
    and m: "rg_tasks m = rg_tasks s" "rg_visible m = rg_visible s" "rg_pending m = rg_pending s"
      "rg_persistence m = rg_persistence s"
    and cp: "checkpoint = None \<or> checkpoint = Some s"
  shows "good_step s (snd (persist_pending env d checkpoint r m))"
proof -
  have "good_step s (snd (persist_pending env d checkpoint r (stage_publications [] m)))"
    by (rule good_change_many [OF inv state_order_become surjective_pairing _ _ _ m(2,3,4) cp])
      (use m(1) registry_invD(1) [OF inv] in \<open>simp_all add: records_inv_def\<close>)
  then show ?thesis by simp
qed

lemma directories_good:
  assumes inv: "registry_inv s"
  shows "good_step s (snd (register_bilibili_owned_output_directories env intents replaced i s))"
    "good_step s (snd (retry_file_cleanup_intents env answer completed released s))"
proof -
  have c: "good_step s (snd (persist_pending env d checkpoint r (s\<lparr>rg_cleanup_owners := x\<rparr>)))"
    if "checkpoint = None \<or> checkpoint = Some s" for d checkpoint r x
    by (rule good_commit_frame [OF inv _ _ _ _ that]) simp_all
  show "good_step s (snd (register_bilibili_owned_output_directories env intents replaced i s))"
    using good_refl [OF inv] c
    by (simp add: register_bilibili_owned_output_directories_def Let_def case_prod_unfold
        split: sum.split option.split)
  show "good_step s (snd (retry_file_cleanup_intents env answer completed released s))"
    using good_refl [OF inv] c
    by (simp add: retry_file_cleanup_intents_def Let_def case_prod_unfold durability_checkpoint_def)
qed

section \<open>Fill status and refresh\<close>

lemma filled_task_frame [simp]:
  "tk_id (filled_task now l st t) = tk_id t" "tk_kind (filled_task now l st t) = tk_kind t"
  "tk_source (filled_task now l st t) = tk_source t" "tk_state (filled_task now l st t) = tk_state t"
  by (simp_all add: filled_task_def)

lemma store_fill_good:
  assumes inv: "registry_inv s" and t: "hm_get (rg_tasks s) i = Some t"
  shows "good_step s (snd (store_fill_status env ok i session_id st t s))"
proof -
  let ?t = "filled_task (ev_now env) session_id st t"
  let ?s = "s\<lparr>rg_tasks := hm_insert i ?t (rg_tasks s)\<rparr>"
  have "good_step s (snd (persist_task env ?t d (Some s) ?s))" for d
    using good_persist_task [OF inv state_order_become surjective_pairing t, where t' = ?t and m = ?s] by simp
  moreover have "good_step s (restore_checkpoint s ?s)"
    by (rule good_frame [OF inv]) (simp_all add: restore_checkpoint_def)
  ultimately show ?thesis by (simp add: store_fill_status_def Let_def case_prod_unfold)
qed

text \<open>The report changes nothing, or stores a status.\<close>

lemma fill_inner_cases:
  "snd (update_hls_cache_fill_status_inner env ok task_id session_id st verified s) = s
   \<or> (\<exists>t st'. hm_get (rg_tasks s) (normalize task_id) = Some t \<and> tk_kind t = BilibiliProgressivePlayback
        \<and> snd (update_hls_cache_fill_status_inner env ok task_id session_id st verified s)
          = snd (store_fill_status env ok (normalize task_id) (normalize session_id) st' t s))"
  unfolding update_hls_cache_fill_status_inner_def Let_def
  by (auto split: option.split)

lemma fill_inner_good:
  assumes inv: "registry_inv s"
  shows "good_step s (snd (update_hls_cache_fill_status_inner env ok task_id session_id st verified s))"
  using fill_inner_cases [of env ok task_id session_id st verified s] good_refl [OF inv] store_fill_good [OF inv]
  by metis

lemma fill_good:
  assumes "registry_inv s"
  shows "good_step s (snd (update_hls_cache_fill_status env ok task_id session_id st s))"
    "good_step s (snd (update_hls_cache_fill_status_from_verified_completion env ok task_id session_id st s))"
  using fill_inner_good [OF assms] good_refl [OF assms]
  by (simp_all add: update_hls_cache_fill_status_def update_hls_cache_fill_status_from_verified_completion_def)

lemma refreshed_task_frame [simp]:
  "tk_id (refreshed_task own l so se t) = tk_id t" "tk_kind (refreshed_task own l so se t) = tk_kind t"
  "tk_source (refreshed_task own l so se t) = tk_source t" "tk_state (refreshed_task own l so se t) = tk_state t"
  by (simp_all add: refreshed_task_def Let_def split: option.split)

lemma refresh_good:
  assumes inv: "registry_inv s"
  shows "good_step s (snd (refresh_hls_playback_source_with_metadata env session_id source session s))"
proof -
  have one: "good_step s (snd (persist_task env (refreshed_task own l so se t) False None
      (s\<lparr>rg_tasks := hm_insert (tk_id t) (refreshed_task own l so se t) (rg_tasks s)\<rparr>)))"
    if t: "hm_get (rg_tasks s) (tk_id t) = Some t" for own l so se t
    using good_persist_task [OF inv state_order_become surjective_pairing t, where t' = "refreshed_task own l so se t"
        and m = "s\<lparr>rg_tasks := hm_insert (tk_id t) (refreshed_task own l so se t) (rg_tasks s)\<rparr>"] by simp
  have own: "good_step s (snd (persist_task env (refreshed_task True l so se t) False None
      (s\<lparr>rg_tasks := hm_insert (tk_id t) (refreshed_task True l so se t) (rg_tasks s)\<rparr>)))"
    if "hm_get (rg_tasks s) i = Some t" for i l so se t
    using one [of t] that registry_invD(3) [OF inv that] by simp
  show ?thesis
    using good_refl [OF inv] own one found_task [OF inv]
    by (auto simp: refresh_hls_playback_source_with_metadata_def Let_def split: option.split)
qed

end
