(* ===== verification/Task_Life.thy ===== *)
theory Task_Life
  imports Task_Loss
begin

text \<open>
  The creation of tasks, and what holds in every state the task registry can reach: the life of a
  task, what readers see, who works on a task, and what a refused creation leaves behind.
\<close>

section \<open>Creation\<close>

text \<open>Like \<open>evolves\<close>, for the tasks other than the one that is created.\<close>

definition evolves_but ::
  "(task_state \<Rightarrow> task_state \<Rightarrow> bool) \<Rightarrow> string option \<Rightarrow> registry \<Rightarrow> registry \<Rightarrow> bool" where
  "evolves_but R new s s' \<longleftrightarrow>
     (\<forall>j u. hm_get (rg_tasks s') j = Some u \<longrightarrow> Some j \<noteq> new \<longrightarrow>
        (\<exists>t. hm_get (rg_tasks s) j = Some t \<and> tk_kind u = tk_kind t \<and> tk_source u = tk_source t
           \<and> R (tk_state t) (tk_state u)))"

lemma evolves_but_evolves: "evolves_by R s s' \<Longrightarrow> evolves_but R new s s'"
  by (auto simp: evolves_by_def evolves_but_def)

definition good_new ::
  "(task_state \<Rightarrow> task_state \<Rightarrow> bool) \<Rightarrow> string option \<Rightarrow> environment option \<Rightarrow> registry \<Rightarrow> registry \<Rightarrow> bool" where
  "good_new R new recovery s s' \<longleftrightarrow>
     registry_inv s' \<and> evolves_but R new s s' \<and> reads_saved_by recovery s s'"

lemma good_new_op: "good_op_by R recovery s s' \<Longrightarrow> good_new R new recovery s s'"
  by (simp add: good_op_by_def good_new_def evolves_but_evolves)

lemma good_new_step: "good_step_by R s s' \<Longrightarrow> good_new R new recovery s s'"
  by (rule good_new_op [OF good_op_single])

lemma create_good:
  assumes inv: "registry_inv s" and run: "persist_task env t d checkpoint m = (out, s')"
    and id: "tk_id t = i"
    and m: "rg_tasks m = hm_insert i t (rg_tasks s)" "rg_visible m = rg_visible s"
      "rg_pending m = rg_pending s" "rg_persistence m = rg_persistence s"
    and cp: "checkpoint = None \<or> checkpoint = Some s"
  shows "good_new may_become (Some i) recovery s s'"
proof -
  note c = change_and_commit [OF registry_invD(1) [OF inv] run [unfolded persist_task_def] m(1) id m(2,3,4) cp]
  have "evolves_but may_become (Some i) s s'"
    using c(2) unfolding at_most_def evolves_but_def by (metis may_become_refl)
  with c show ?thesis by (auto simp: good_new_def reads_saved_by_def reads_saved_def)
qed

lemma fresh_task_fields [simp]:
  "tk_id (fresh_task i k st src title m now sel items) = i"
  "tk_kind (fresh_task i k st src title m now sel items) = k"
  "tk_state (fresh_task i k st src title m now sel items) = st"
  "tk_source (fresh_task i k st src title m now sel items) = src"
  by (simp_all add: fresh_task_def)

lemma durability_checkpoint_inv: "registry_inv s \<Longrightarrow> durability_checkpoint s = Some s"
  using registry_invD(2) by (simp add: durability_checkpoint_def)

text \<open>What a creation hands to the commit.\<close>

definition download_draft ::
  "environment \<Rightarrow> string \<Rightarrow> string \<Rightarrow> download_options option \<Rightarrow> registry \<Rightarrow> task \<times> registry" where
  "download_draft env i source options s =
     (let t = fresh_task i BilibiliDownload Queued (normalize source) [] ''Queued for the BBDown adapter.''
            (ev_now env) None []
      in (t, s\<lparr>rg_active := hm_insert (download_key (normalize source) options None []) i (rg_active s),
               rg_download_options := hm_insert i options (rg_download_options s),
               rg_queued := rg_queued s @ [i], rg_tasks := hm_insert i t (rg_tasks s)\<rparr>))"

lemma create_download_cases:
  assumes inv: "registry_inv s"
  shows "snd (create_bilibili_task env i source options s) = s
    \<or> active_task (download_key (normalize source) options None []) s = None
      \<and> snd (create_bilibili_task env i source options s)
        = snd (persist_task env (fst (download_draft env i source options s)) True (Some s)
            (snd (download_draft env i source options s)))"
  using registry_invD(2) [OF inv] durability_checkpoint_inv [OF inv]
  by (auto simp: create_bilibili_task_def download_draft_def Let_def durability_required_def
      case_prod_unfold split: option.split)

lemma create_download_good:
  assumes inv: "registry_inv s"
  shows "good_new may_become (Some i) recovery s (snd (create_bilibili_task env i source options s))"
proof -
  let ?t = "fst (download_draft env i source options s)" and ?m = "snd (download_draft env i source options s)"
  have "good_new may_become (Some i) recovery s (snd (persist_task env ?t True (Some s) ?m))"
    using create_good [OF inv surjective_pairing, where t = ?t and m = ?m and i = i]
    by (simp add: download_draft_def Let_def)
  with create_download_cases [OF inv, of env i source options] good_new_step [OF good_refl [OF inv]]
  show ?thesis by metis
qed

definition download_v2_draft ::
  "environment \<Rightarrow> string \<Rightarrow> string \<Rightarrow> download_options \<Rightarrow> request_context \<Rightarrow> string \<Rightarrow>
    candidate_record list \<Rightarrow> registry \<Rightarrow> task \<times> registry" where
  "download_v2_draft env i source options cx title candidates s =
     (let t = fresh_task i BilibiliDownload Queued (normalize source) title ''Queued for the BBDown adapter.''
            (ev_now env) None (initial_result_items i candidates Queued ''Queued for the BBDown adapter.'')
      in (t, s\<lparr>rg_active := hm_insert (download_key (normalize source) (Some options) (Some cx) candidates) i (rg_active s),
               rg_download_options := hm_insert i (Some options) (rg_download_options s),
               rg_request_context := hm_insert i (Some cx) (rg_request_context s),
               rg_candidates := hm_insert i candidates (rg_candidates s),
               rg_queued := rg_queued s @ [i], rg_tasks := hm_insert i t (rg_tasks s)\<rparr>))"

lemma create_download_v2_cases:
  "snd (create_bilibili_download_task_v2 env i source options cx title candidates s) = s
    \<or> (\<exists>options' cx'. active_task (download_key (normalize source) (Some options') (Some cx') candidates) s = None
      \<and> snd (create_bilibili_download_task_v2 env i source options cx title candidates s)
        = snd (persist_task env (fst (download_v2_draft env i source options' cx' title candidates s)) True (Some s)
            (snd (download_v2_draft env i source options' cx' title candidates s))))"
  by (auto simp: create_bilibili_download_task_v2_def download_v2_draft_def Let_def
      case_prod_unfold split: option.split sum.split)

lemma create_download_v2_good:
  assumes inv: "registry_inv s"
  shows "good_new may_become (Some i) recovery s
    (snd (create_bilibili_download_task_v2 env i source options cx title candidates s))"
proof -
  have "good_new may_become (Some i) recovery s
      (snd (persist_task env (fst (download_v2_draft env i source o' c' title candidates s)) True (Some s)
        (snd (download_v2_draft env i source o' c' title candidates s))))" for o' c'
    using create_good [OF inv surjective_pairing, where t = "fst (download_v2_draft env i source o' c' title candidates s)"
        and m = "snd (download_v2_draft env i source o' c' title candidates s)" and i = i]
    by (simp add: download_v2_draft_def Let_def)
  with create_download_v2_cases [of env i source options cx title candidates s]
    good_new_step [OF good_refl [OF inv]]
  show ?thesis by metis
qed

definition playback_draft ::
  "environment \<Rightarrow> string \<Rightarrow> string \<Rightarrow> playback_options option \<Rightarrow> request_context option \<Rightarrow>
    string option \<Rightarrow> string \<Rightarrow> candidate_record list \<Rightarrow> bool \<Rightarrow> registry \<Rightarrow> task \<times> registry" where
  "playback_draft env i source options cx selection title candidates deferred s =
     (let t = fresh_task i BilibiliProgressivePlayback Preparing (normalize source) title
            ''Preparing Bilibili playback plan.'' (ev_now env) selection
            (initial_result_items i candidates Preparing ''Queued for Bilibili playback planning.'')
      in (t, s\<lparr>rg_playback_options := hm_insert i options (rg_playback_options s),
               rg_request_context := (if deferred then hm_insert i cx (rg_request_context s) else rg_request_context s),
               rg_candidates := (if candidates \<noteq> [] then hm_insert i candidates (rg_candidates s)
                 else rg_candidates s),
               rg_active := (if deferred then hm_insert (playback_key (normalize source) options cx candidates) i (rg_active s)
                 else rg_active s),
               rg_tokens := rg_tokens s @ [False],
               rg_planning := hm_insert i (length (rg_tokens s)) (rg_planning s),
               rg_tasks := hm_insert i t (rg_tasks s)\<rparr>))"

lemma create_playback_cases:
  assumes inv: "registry_inv s"
  shows "snd (create_playback_record env i source options cx selection title candidates deferred s) = s
    \<or> (deferred \<longrightarrow> active_task (playback_key (normalize source) options cx candidates) s = None)
      \<and> snd (create_playback_record env i source options cx selection title candidates deferred s)
        = snd (persist_task env (fst (playback_draft env i source options cx selection title candidates deferred s)) True (Some s)
            (snd (playback_draft env i source options cx selection title candidates deferred s)))"
  using registry_invD(2) [OF inv] durability_checkpoint_inv [OF inv]
  by (auto simp: create_playback_record_def playback_draft_def Let_def durability_required_def
      case_prod_unfold split: option.split)

lemma create_playback_record_good:
  assumes inv: "registry_inv s"
  shows "good_new may_become (Some i) recovery s
    (snd (create_playback_record env i source options cx selection title candidates deferred s))"
proof -
  let ?t = "fst (playback_draft env i source options cx selection title candidates deferred s)"
  let ?m = "snd (playback_draft env i source options cx selection title candidates deferred s)"
  have "good_new may_become (Some i) recovery s (snd (persist_task env ?t True (Some s) ?m))"
    using create_good [OF inv surjective_pairing, where t = ?t and m = ?m and i = i]
    by (simp add: playback_draft_def Let_def)
  with create_playback_cases [OF inv, of env i source options cx selection title candidates deferred]
    good_new_step [OF good_refl [OF inv]]
  show ?thesis by metis
qed

section \<open>Every step\<close>

text \<open>The operations that first try to save what is pending.\<close>

fun recovery_of :: "operation \<Rightarrow> environment option" where
  "recovery_of (CancelTask env0 env ok i) = Some env0"
| "recovery_of (EndTask env0 env i e message) = Some env0"
| "recovery_of (CacheSession env0 env i session_id item_id completed) = Some env0"
| "recovery_of (RejectSession env0 env session_id message) = Some env0"
| "recovery_of _ = None"

text \<open>The operations after which an ended task may be failed, and the order each operation is bound by.\<close>

fun rejects_session :: "operation \<Rightarrow> bool" where
  "rejects_session (FailCompleted env session_id message) = True"
| "rejects_session (RejectSession env0 env session_id message) = True"
| "rejects_session (RejectUnrestorable env playable completed) = True"
| "rejects_session _ = False"

fun deletes_media :: "operation \<Rightarrow> bool" where
  "deletes_media (DeleteLibraryItem env prepared ok updates item_id) = True"
| "deletes_media _ = False"

definition state_order_of :: "operation \<Rightarrow> task_state \<Rightarrow> task_state \<Rightarrow> bool" where
  "state_order_of op = (if deletes_media op then may_fail else if rejects_session op then may_expire else may_become)"

lemma perform_good:
  assumes inv: "registry_inv s"
  shows "good_new (state_order_of op) (drawn_id op) (recovery_of op) s (perform op s)"
proof (cases op)
  case (CreatePlaybackV2 env i source options cx title candidates)
  then show ?thesis
    using create_playback_record_good [OF inv] good_new_step [OF good_refl [OF inv]]
    by (auto simp: create_bilibili_playback_task_v2_def state_order_of_def split: sum.split)
qed (simp_all add: inv state_order_of_def fail_completed_good reject_session_good fail_unrestorable_good
    remove_completed_good tombstone_good commit_download_good retire_good directories_good fill_good
    refresh_good create_download_good create_download_v2_good create_playback_record_good
    create_bilibili_playback_task_def try_claim_next_bilibili_task_def claim_scan_good
    update_task_progress_good update_playback_cache_progress_good cancel_task_good end_task_good
    complete_playback_planned_good complete_playback_playable_good complete_playback_results_playable_good
    update_playback_results_good complete_cached_good fail_after_restart_good retry_good subscriptions_good
    good_new_step good_new_op)

lemma empty_registry_inv: "starts_empty s \<Longrightarrow> registry_inv s"
  by (auto simp: starts_empty_def empty_registry_def registry_inv_def records_inv_def state_at_def)

interpretation tasks: step_system starts_empty registry_step registry_inv
  by unfold_locales (auto simp: registry_step_def empty_registry_inv
      dest: perform_good simp: good_new_def)

lemma step_good: "reachable starts_empty registry_step s \<Longrightarrow> registry_step s op s' \<Longrightarrow>
    good_new (state_order_of op) (drawn_id op) (recovery_of op) s s'"
  using perform_good [OF tasks.reachable_inv] by (simp add: registry_step_def)


text \<open>
  C29. Every registry that can be reached is well-formed: the identifiers of the live tasks are distinct and
  each task is stored under its own; where no publication is pending readers see the live state; and
  while the store is available nothing is pending and the snapshot on disk has the live states.
\<close>

theorem registry_well_formed:
  assumes "reachable starts_empty registry_step s"
  shows "distinct (map fst (rg_tasks s)) \<and> (\<forall>i t. hm_get (rg_tasks s) i = Some t \<longrightarrow> tk_id t = i)
    \<and> (\<forall>i. hm_get (rg_pending s) i = None \<longrightarrow> state_at (rg_visible s) i = state_at (rg_tasks s) i)
    \<and> (persistence_available s \<longrightarrow> rg_pending s = []
         \<and> (\<forall>i. state_at (rg_disk s) i = state_at (rg_tasks s) i \<and> state_at (rg_visible s) i = state_at (rg_tasks s) i))"
  using tasks.reachable_inv [OF assms] by (auto simp: registry_inv_def records_inv_def hm_wf_def)

section \<open>The life of a task\<close>

lemma run_evolves_by:
  assumes "exec_run registry_step s ops s'" "registry_inv s" "\<forall>op \<in> set ops. drawn_id op \<noteq> Some i"
    "hm_get (rg_tasks s') i = Some u"
    and R: "state_order R" "\<And>op. op \<in> set ops \<Longrightarrow> state_order_of op \<le> R"
  shows "\<exists>t. hm_get (rg_tasks s) i = Some t \<and> tk_kind u = tk_kind t \<and> tk_source u = tk_source t
    \<and> R (tk_state t) (tk_state u)"
  using assms
proof (induction rule: exec_run.induct)
  case (exec_nil s)
  then show ?case by (auto simp: state_orderD(2))
next
  case (exec_cons s op m ops s')
  have g: "good_new (state_order_of op) (drawn_id op) (recovery_of op) s m"
    using exec_cons.hyps(1) perform_good [OF exec_cons.prems(1), of op] by (simp add: registry_step_def)
  then obtain t where t: "hm_get (rg_tasks m) i = Some t" "tk_kind u = tk_kind t" "tk_source u = tk_source t"
      "R (tk_state t) (tk_state u)"
    using exec_cons.IH exec_cons.prems by (auto simp: good_new_def)
  have "drawn_id op \<noteq> Some i" using exec_cons.prems(2) by simp
  with g t(1) obtain t0 where t0: "hm_get (rg_tasks s) i = Some t0" "tk_kind t = tk_kind t0"
      "tk_source t = tk_source t0" "state_order_of op (tk_state t0) (tk_state t)"
    unfolding good_new_def evolves_but_def by (metis (no_types))
  have "state_order_of op \<le> R" using exec_cons.prems(5) by simp
  with t0(4) have "R (tk_state t0) (tk_state t)" by (auto simp: le_fun_def)
  with t t0 state_orderD(3) [OF R(1)] show ?case by fastforce
qed

lemma state_order_below:
  "state_order_of op \<le> may_fail"
  "\<not> deletes_media op \<Longrightarrow> state_order_of op \<le> may_expire"
  "\<not> deletes_media op \<Longrightarrow> \<not> rejects_session op \<Longrightarrow> state_order_of op \<le> may_become"
  by (auto simp: state_order_of_def le_fun_def may_fail_def may_expire_def)

lemma run_evolves:
  assumes "exec_run registry_step s ops s'" "registry_inv s" "\<forall>op \<in> set ops. drawn_id op \<noteq> Some i"
    "hm_get (rg_tasks s') i = Some u"
  shows "\<exists>t. hm_get (rg_tasks s) i = Some t \<and> tk_kind u = tk_kind t \<and> tk_source u = tk_source t
    \<and> may_fail (tk_state t) (tk_state u)
    \<and> (list_ex deletes_media ops \<or> may_expire (tk_state t) (tk_state u))
    \<and> (list_ex deletes_media ops \<or> list_ex rejects_session ops \<or> may_become (tk_state t) (tk_state u))"
proof -
  obtain t where t: "hm_get (rg_tasks s) i = Some t" "tk_kind u = tk_kind t" "tk_source u = tk_source t"
    "may_fail (tk_state t) (tk_state u)"
    using run_evolves_by [OF assms state_order_fail] state_order_below(1) by blast
  have "may_expire (tk_state t) (tk_state u)" if "\<not> list_ex deletes_media ops"
    using run_evolves_by [OF assms state_order_expire] state_order_below(2) that t(1) by (auto simp: list_ex_iff)
  moreover have "may_become (tk_state t) (tk_state u)"
    if "\<not> list_ex deletes_media ops" "\<not> list_ex rejects_session ops"
    using run_evolves_by [OF assms state_order_become] state_order_below(3) that t(1) by (auto simp: list_ex_iff)
  ultimately show ?thesis using t by blast
qed

text \<open>
  C22. In any run of the operations, in any order and with any answers of the disk, a task keeps its
  identity: its kind and its source stay, none goes back to the queue, and a task whose cancellation
  was requested ends cancelled or failed and never succeeds. A task that has ended keeps its state
  until it is removed, with two exceptions, both to failed: a completed playback when an operation of
  the run finds that its cached session cannot be restored, and a task that lost its results when an
  operation of the run deletes a library item. A task that is gone does not come back.
\<close>

theorem task_life:
  assumes "reachable starts_empty registry_step s" "exec_run registry_step s ops s'"
    "\<forall>op \<in> set ops. drawn_id op \<noteq> Some i" "hm_get (rg_tasks s') i = Some u"
  shows "\<exists>t. hm_get (rg_tasks s) i = Some t \<and> tk_kind u = tk_kind t \<and> tk_source u = tk_source t
    \<and> (is_terminal (tk_state t) \<longrightarrow> tk_state u = tk_state t
        \<or> tk_state u = Failed
          \<and> (tk_state t = Completed \<and> list_ex rejects_session ops \<or> list_ex deletes_media ops))
    \<and> (tk_state u = Queued \<longrightarrow> tk_state t = Queued)
    \<and> (tk_state t = CancelRequested \<longrightarrow> tk_state u \<in> {CancelRequested, Cancelled, Failed})"
  using run_evolves [OF assms(2) tasks.reachable_inv [OF assms(1)] assms(3,4)]
  by (auto simp: may_become_def may_expire_def may_fail_def)

section \<open>Readers\<close>

text \<open>
  C23. A reader never sees a state that was not saved: whenever an operation changes the state that
  \<open>get_task\<close> answers for some task, the snapshot that was installed last has that state, or the one
  that the operation's own recovery of the store installed has it.
\<close>

theorem readers_see_saved:
  assumes "reachable starts_empty registry_step s" "registry_step s op s'"
    "state_at (rg_visible s') i \<noteq> state_at (rg_visible s) i"
  shows "state_at (rg_visible s') i = state_at (rg_disk s') i
    \<or> (\<exists>env0. recovery_of op = Some env0 \<and> persistence_lost s
         \<and> state_at (rg_visible s') i
             = state_at (rg_disk (snd (retry_pending_persistence env0 s))) i)"
  using step_good [OF assms(1,2)] assms(3)
  by (simp add: good_new_def reads_saved_by_def retry_pending_persistence_def)

section \<open>The worker\<close>

lemma persist_without_checkpoint:
  assumes "rg_persistence s \<noteq> None" "persist_pending env d None r s = (out, s')"
  shows "hm_get (rg_tasks s') j = Some u \<Longrightarrow> hm_get (rg_tasks s) j = Some u"
    and "rg_queued s' = rg_queued s"
  using assms
  by (cases rule: persist_pending_cases; auto simp: committed_def refused_def same_records_def split: if_splits)+

definition claim_held :: "registry \<Rightarrow> string \<Rightarrow> bool" where
  "claim_held s i \<longleftrightarrow> (case hm_get (rg_candidates s) i of Some cs \<Rightarrow> cs \<noteq> [] | None \<Rightarrow> False)
     \<and> (persistence_lost s \<or> i \<in> set (rg_cleanup_owners s))"

definition claim_ready :: "registry \<Rightarrow> string \<Rightarrow> bool" where
  "claim_ready s i \<longleftrightarrow> \<not> claim_held s i \<and> state_at (rg_tasks s) i = Some Queued"

text \<open>One turn of the scan.\<close>

definition claim_state :: "environment \<Rightarrow> string \<Rightarrow> task \<Rightarrow> registry \<Rightarrow> string list \<Rightarrow> task \<times> registry" where
  "claim_state env i t s rest =
     (let t' = t\<lparr>tk_state := Running, tk_message := ''Running Bilibili download adapter.'',
            tk_updated_at := Some (ev_now env)\<rparr>
      in (t', s\<lparr>rg_queued := rest, rg_tasks := hm_insert i t' (rg_tasks s),
                rg_tokens := rg_tokens s @ [False],
                rg_running := hm_insert i (length (rg_tokens s)) (rg_running s)\<rparr>))"

lemma claim_scan_step:
  "rg_queued s = i # rest \<Longrightarrow> claim_held s i \<Longrightarrow>
    claim_scan (Suc n) env s = claim_scan n env (s\<lparr>rg_queued := rest @ [i]\<rparr>)"
  "rg_queued s = i # rest \<Longrightarrow> \<not> claim_held s i \<Longrightarrow> \<not> claim_ready s i \<Longrightarrow>
    claim_scan (Suc n) env s = claim_scan n env (s\<lparr>rg_queued := rest\<rparr>)"
  "rg_queued s = i # rest \<Longrightarrow> claim_ready s i \<Longrightarrow> hm_get (rg_tasks s) i = Some t \<Longrightarrow>
    \<exists>w. claim_scan (Suc n) env s = (Some w, snd (persist_task env (fst (claim_state env i t s rest)) False None
        (snd (claim_state env i t s rest)))) \<and> wi_task_id w = tk_id t \<and> wi_source w = tk_source t
      \<and> wi_options w = options_of (rg_download_options s) i
      \<and> wi_cancellation w = length (rg_tokens s)"
  by (auto simp: claim_held_def claim_ready_def state_at_def claim_state_def Let_def split: option.splits)

lemma claim_queue_irrelevant [simp]:
  "claim_held (s\<lparr>rg_queued := q\<rparr>) = claim_held s" "claim_ready (s\<lparr>rg_queued := q\<rparr>) = claim_ready s"
  by (auto simp: fun_eq_iff claim_held_def claim_ready_def persistence_lost_def)

lemma registry_inv_queue [simp]: "registry_inv (s\<lparr>rg_queued := q\<rparr>) = registry_inv s"
  by (simp add: registry_inv_def records_inv_def persistence_available_def)

text \<open>The queue without what a claim took or dropped: the held entries that were passed go to its end.\<close>

definition queue_after_claim :: "registry \<Rightarrow> string list \<Rightarrow> string list \<Rightarrow> string list" where
  "queue_after_claim s front behind =
     tl (dropWhile (\<lambda>i. \<not> claim_ready s i) front) @ behind
       @ filter (claim_held s) (takeWhile (\<lambda>i. \<not> claim_ready s i) front)"

lemma queue_after_claim_Cons:
  "\<not> claim_ready s i \<Longrightarrow> queue_after_claim s (i # xs) ys
     = queue_after_claim s xs (if claim_held s i then ys @ [i] else ys)"
  by (simp add: queue_after_claim_def)

lemma queue_after_claim_queue [simp]: "queue_after_claim (s\<lparr>rg_queued := q\<rparr>) = queue_after_claim s"
  by (simp add: fun_eq_iff queue_after_claim_def)

lemma claim_scan_find:
  assumes "registry_inv s" "rg_queued s = xs @ ys"
  shows "case find (claim_ready s) xs of
      None \<Rightarrow> claim_scan (length xs) env s = (None, s\<lparr>rg_queued := queue_after_claim s xs ys\<rparr>)
    | Some i \<Rightarrow> \<exists>w s' t. claim_scan (length xs) env s = (Some w, s') \<and> wi_task_id w = i
        \<and> hm_get (rg_tasks s) i = Some t \<and> wi_source w = tk_source t
        \<and> wi_options w = options_of (rg_download_options s) i
        \<and> (\<forall>u. hm_get (rg_tasks s') i = Some u \<longrightarrow> tk_state u = Running)
        \<and> rg_queued s' = queue_after_claim s xs ys"
  using assms
proof (induction xs arbitrary: s ys)
  case Nil
  have "s\<lparr>rg_queued := rg_queued s\<rparr> = s" by simp
  with Nil show ?case by (simp add: queue_after_claim_def)
next
  case (Cons i xs)
  then have q: "rg_queued s = i # (xs @ ys)" by simp
  show ?case
  proof (cases "claim_ready s i")
    case False
    let ?ys = "if claim_held s i then ys @ [i] else ys"
    let ?s = "s\<lparr>rg_queued := xs @ ?ys\<rparr>"
    have scan: "claim_scan (length (i # xs)) env s = claim_scan (length xs) env ?s"
      using claim_scan_step(1) [OF q, of "length xs" env] claim_scan_step(2) [OF q _ False, of "length xs" env]
      by (simp del: claim_scan.simps)
    have "case find (claim_ready ?s) xs of
        None \<Rightarrow> claim_scan (length xs) env ?s = (None, ?s\<lparr>rg_queued := queue_after_claim ?s xs ?ys\<rparr>)
      | Some j \<Rightarrow> \<exists>w s' t. claim_scan (length xs) env ?s = (Some w, s') \<and> wi_task_id w = j
          \<and> hm_get (rg_tasks ?s) j = Some t \<and> wi_source w = tk_source t
          \<and> wi_options w = options_of (rg_download_options ?s) j
          \<and> (\<forall>u. hm_get (rg_tasks s') j = Some u \<longrightarrow> tk_state u = Running)
          \<and> rg_queued s' = queue_after_claim ?s xs ?ys"
      using Cons.IH [of ?s ?ys] Cons.prems(1) by simp
    then show ?thesis
      unfolding scan queue_after_claim_Cons [OF False]
      using False by (simp split: option.splits if_splits)
  next
    case True
    then obtain t where t: "hm_get (rg_tasks s) i = Some t"
      by (auto simp: claim_ready_def state_at_def)
    have id: "tk_id t = i" by (rule registry_invD(3) [OF Cons.prems(1) t])
    let ?p = "claim_state env i t s (xs @ ys)"
    obtain w where w: "claim_scan (Suc (length xs)) env s
          = (Some w, snd (persist_task env (fst ?p) False None (snd ?p)))"
        "wi_task_id w = tk_id t" "wi_source w = tk_source t" "wi_options w = options_of (rg_download_options s) i"
      using claim_scan_step(3) [OF q True t] by blast
    have store: "rg_persistence (stage_publication (fst ?p) (snd ?p)) \<noteq> None"
      using registry_invD(2) [OF Cons.prems(1)] by (simp add: claim_state_def Let_def)
    note done' = persist_without_checkpoint [OF store surjective_pairing]
    have "hm_get (rg_tasks (snd (persist_task env (fst ?p) False None (snd ?p)))) i = Some u \<Longrightarrow> tk_state u = Running" for u
      using done'(1) [of env False False i u] by (auto simp: persist_task_def claim_state_def Let_def)
    moreover have "rg_queued (snd (persist_task env (fst ?p) False None (snd ?p))) = xs @ ys"
      using done'(2) [of env False False] by (simp add: persist_task_def claim_state_def Let_def)
    ultimately show ?thesis using True w t id by (auto simp: queue_after_claim_def)
  qed
qed

text \<open>
  The worker claims the first task of the queue that is still queued and not held back (a
  version 2 task waits while the store is lost or its old output is being removed). The entries
  before it that are held back go to the end of the queue in their order, entries of tasks that are
  gone or no longer queued are dropped. Without such a task the claim answers nothing and keeps
  exactly the entries that are held back.
\<close>

theorem claim_takes_first_ready:
  assumes "reachable starts_empty registry_step s"
  shows "case find (claim_ready s) (rg_queued s) of
      None \<Rightarrow> try_claim_next_bilibili_task env s
        = (None, s\<lparr>rg_queued := filter (claim_held s) (rg_queued s)\<rparr>)
    | Some i \<Rightarrow> \<exists>w s' t. try_claim_next_bilibili_task env s = (Some w, s') \<and> wi_task_id w = i
        \<and> hm_get (rg_tasks s) i = Some t \<and> wi_source w = tk_source t
        \<and> wi_options w = options_of (rg_download_options s) i
        \<and> (\<forall>u. hm_get (rg_tasks s') i = Some u \<longrightarrow> tk_state u = Running)
        \<and> rg_queued s' = tl (dropWhile (\<lambda>i. \<not> claim_ready s i) (rg_queued s))
            @ filter (claim_held s) (takeWhile (\<lambda>i. \<not> claim_ready s i) (rg_queued s))"
proof -
  have none: "find (claim_ready s) xs = None \<Longrightarrow>
      queue_after_claim s xs [] = filter (claim_held s) xs" for xs
  proof -
    assume "find (claim_ready s) xs = None"
    then have "\<forall>i \<in> set xs. \<not> claim_ready s i" by (simp add: find_None_iff)
    then have eqs: "takeWhile (\<lambda>i. \<not> claim_ready s i) xs = xs" "dropWhile (\<lambda>i. \<not> claim_ready s i) xs = []"
      by (simp_all add: takeWhile_eq_all_conv)
    show ?thesis unfolding queue_after_claim_def eqs by simp
  qed
  show ?thesis
    using claim_scan_find [OF tasks.reachable_inv [OF assms], of "rg_queued s" "[]" env] none
    by (auto simp: try_claim_next_bilibili_task_def queue_after_claim_def split: option.splits)
qed

text \<open>
  C24. No task is worked on twice: after a claim that handed a task to a worker, no later claim hands
  out the same task, whatever happens in between, recoveries of the store and refused commits included.
\<close>

theorem no_task_claimed_twice:
  assumes "reachable starts_empty registry_step s"
    "try_claim_next_bilibili_task env s = (Some w, s1)"
    "exec_run registry_step s1 ops s2" "\<forall>op \<in> set ops. drawn_id op \<noteq> Some (wi_task_id w)"
    "try_claim_next_bilibili_task env' s2 = (Some w', s3)"
  shows "wi_task_id w' \<noteq> wi_task_id w"
proof
  assume same: "wi_task_id w' = wi_task_id w"
  have step: "registry_step s (ClaimNext env) s1" using assms(2) by (simp add: registry_step_def)
  have r1: "reachable starts_empty registry_step s1" using assms(1) step by (rule reach_step)
  have r2: "reachable starts_empty registry_step s2" by (rule reachable_exec_run [OF assms(3) r1])
  have later: "state_at (rg_tasks s2) (wi_task_id w') = Some Queued"
    using claim_takes_first_ready [OF r2, of env'] assms(5)
    by (auto simp: claim_ready_def find_Some_iff split: option.splits)
  then obtain u where u: "hm_get (rg_tasks s2) (wi_task_id w) = Some u" "tk_state u = Queued"
    using same by (auto simp: state_at_def)
  obtain t where t: "hm_get (rg_tasks s1) (wi_task_id w) = Some t" "tk_state t = Queued"
    using run_evolves [OF assms(3) tasks.reachable_inv [OF r1] assms(4) u(1)] u(2)
    by (auto simp: may_become_def may_fail_def)
  have "\<forall>t. hm_get (rg_tasks s1) (wi_task_id w) = Some t \<longrightarrow> tk_state t = Running"
    using claim_takes_first_ready [OF assms(1), of env] assms(2)
    by (auto split: option.splits)
  with t show False by auto
qed

end
