(* ===== verification/Task_Keys.thy ===== *)
theory Task_Keys
  imports Task_Life
begin

text \<open>
  The keys under which requests are recognised: at most one download that is being worked on has a
  key, so that asking again for it answers the task that is there; and what a creation leaves behind
  when the store refuses it, what it has saved when it succeeds, and what a commit prunes.
\<close>

section \<open>The key of a task\<close>

definition entries_at :: "registry \<Rightarrow> string \<Rightarrow>
    download_options option option \<times> playback_options option option \<times> request_context option option
      \<times> candidate_record list option" where
  "entries_at s i = (hm_get (rg_download_options s) i, hm_get (rg_playback_options s) i,
     hm_get (rg_request_context s) i, hm_get (rg_candidates s) i)"

lemma key_of_task_cong:
  "entries_at s (tk_id t) = entries_at s' (tk_id t') \<Longrightarrow> tk_kind t = tk_kind t' \<Longrightarrow>
    tk_source t = tk_source t' \<Longrightarrow> key_of_task t s = key_of_task t' s'"
  by (simp add: entries_at_def key_of_task_def active_key_for_task_def options_of_def)

definition works_on_key :: "task \<Rightarrow> bool" where
  "works_on_key t \<longleftrightarrow> tk_kind t \<noteq> BilibiliProgressivePlayback \<and> is_active (tk_state t)"

definition keys_inv :: "registry \<Rightarrow> bool" where
  "keys_inv s \<longleftrightarrow> (\<forall>i t. hm_get (rg_tasks s) i = Some t \<and> works_on_key t \<longrightarrow>
     hm_get (rg_active s) (key_of_task t s) = Some i)"

lemma keys_inv_cong:
  assumes "rg_tasks s' = rg_tasks s" "rg_active s' = rg_active s"
    "\<And>t. key_of_task t s' = key_of_task t s"
  shows "keys_inv s' = keys_inv s"
  by (simp add: keys_inv_def assms)

lemma same_records_key: "same_records s s' \<Longrightarrow> key_of_task t s' = key_of_task t s"
  by (intro key_of_task_cong) (simp_all add: same_records_def entries_at_def)

lemma persist_keys:
  assumes ids: "\<forall>i t. hm_get (rg_tasks m) i = Some t \<longrightarrow> tk_id t = i"
    and store: "rg_persistence m \<noteq> None" and run: "persist_pending env d checkpoint r m = (out, s')"
    and keys: "keys_inv m" and cp: "\<forall>c. checkpoint = Some c \<longrightarrow> keys_inv c"
  shows "keys_inv s'"
  using store run
proof (cases rule: persist_pending_cases)
  case commits
  let ?gone = "ids_to_prune (rg_retention m) (ev_now env) (rg_tasks m)"
  show ?thesis
    unfolding keys_inv_def
  proof (intro allI impI)
    fix i t assume "hm_get (rg_tasks s') i = Some t \<and> works_on_key t"
    then have t: "hm_get (rg_tasks m) i = Some t" "works_on_key t" "i \<notin> set ?gone"
      using commits(4) by (auto simp: committed_def split: if_splits)
    then have "tk_id t = i" using ids by blast
    then have "key_of_task t s' = key_of_task t m"
      using commits(4) t(3) by (intro key_of_task_cong) (simp_all add: committed_def entries_at_def)
    with t keys commits(4) show "hm_get (rg_active s') (key_of_task t s') = Some i"
      by (simp add: keys_inv_def committed_def)
  qed
next
  case refuses
  let ?c = "case checkpoint of Some c \<Rightarrow> c | None \<Rightarrow> m"
  have c: "keys_inv ?c" using keys cp by (cases checkpoint) auto
  have same: "same_records ?c s'" using refuses(4) by (simp add: refused_def)
  then have "rg_tasks s' = rg_tasks ?c" "rg_active s' = rg_active ?c" by (simp_all add: same_records_def)
  then show ?thesis using keys_inv_cong [OF _ _ same_records_key [OF same]] c by blast
qed

section \<open>Changing a task\<close>

definition keeps_others :: "string \<Rightarrow> registry \<Rightarrow> registry \<Rightarrow> bool" where
  "keeps_others i s m \<longleftrightarrow> (\<forall>j. j \<noteq> i \<longrightarrow> entries_at m j = entries_at s j)
     \<and> (\<forall>k j. j \<noteq> i \<longrightarrow> hm_get (rg_active s) k = Some j \<longrightarrow> hm_get (rg_active m) k = Some j)"

definition keeps_own :: "string \<Rightarrow> registry \<Rightarrow> registry \<Rightarrow> bool" where
  "keeps_own i s m \<longleftrightarrow> entries_at m i = entries_at s i \<and> rg_active m = rg_active s"

lemma keys_change:
  assumes inv: "registry_inv s" "keys_inv s"
    and t: "hm_get (rg_tasks s) i = Some t" "tk_id t' = tk_id t" "tk_kind t' = tk_kind t" "tk_source t' = tk_source t"
    and m: "rg_tasks m = hm_insert i t' (rg_tasks s)" "rg_persistence m = rg_persistence s"
      "keeps_others i s m"
    and own: "works_on_key t' \<Longrightarrow> works_on_key t \<and> keeps_own i s m"
    and run: "persist_pending env d checkpoint r (stage_publication t' m) = (out, s')"
    and cp: "checkpoint = None \<or> checkpoint = Some s"
  shows "keys_inv s'"
proof (rule persist_keys [OF _ _ run])
  have id: "tk_id t = i" by (rule registry_invD(3) [OF inv(1) t(1)])
  show "\<forall>j u. hm_get (rg_tasks (stage_publication t' m)) j = Some u \<longrightarrow> tk_id u = j"
    using registry_invD(3) [OF inv(1)] m(1) id t(2) by auto
  show "rg_persistence (stage_publication t' m) \<noteq> None"
    using registry_invD(2) [OF inv(1)] m(2) by simp
  show "\<forall>c. checkpoint = Some c \<longrightarrow> keys_inv c" using cp inv(2) by auto
  have "keys_inv m"
    unfolding keys_inv_def
  proof (intro allI impI)
    fix j u assume u: "hm_get (rg_tasks m) j = Some u \<and> works_on_key u"
    show "hm_get (rg_active m) (key_of_task u m) = Some j"
    proof (cases "j = i")
      case True
      with u m(1) have ut: "u = t'" "works_on_key t'" by auto
      with own have own': "works_on_key t" "keeps_own i s m" by auto
      then have "key_of_task u m = key_of_task t s"
        using ut t id by (intro key_of_task_cong) (auto simp: keeps_own_def)
      with own' t(1) inv(2) True show ?thesis by (simp add: keys_inv_def keeps_own_def)
    next
      case False
      with u m(1) have u': "hm_get (rg_tasks s) j = Some u" "works_on_key u" by auto
      have "tk_id u = j" by (rule registry_invD(3) [OF inv(1) u'(1)])
      then have "key_of_task u m = key_of_task u s"
        using m(3) False by (intro key_of_task_cong) (auto simp: keeps_others_def)
      with u' inv(2) m(3) False show ?thesis by (simp add: keys_inv_def keeps_others_def)
    qed
  qed
  then show "keys_inv (stage_publication t' m)"
    by (subst keys_inv_cong [of _ m]) (simp_all add: key_of_task_def)
qed

text \<open>The releases of a key and of the options touch only the task itself.\<close>

lemma keeps_others_refl [simp]: "keeps_others i s s" "keeps_own i s s"
  by (simp_all add: keeps_others_def keeps_own_def)

lemma keeps_others_same:
  "rg_download_options m = rg_download_options s \<Longrightarrow> rg_playback_options m = rg_playback_options s \<Longrightarrow>
    rg_request_context m = rg_request_context s \<Longrightarrow> rg_candidates m = rg_candidates s \<Longrightarrow>
    rg_active m = rg_active s \<Longrightarrow> keeps_others i s m \<and> keeps_own i s m"
  by (simp add: keeps_others_def keeps_own_def entries_at_def)

lemma release_key_others [simp]: "tk_id t = i \<Longrightarrow> keeps_others i s (release_key k i s)"
  by (auto simp: keeps_others_def release_key_def entries_at_def)

lemma clear_active_task_others:
  "tk_id t = i \<Longrightarrow> keeps_others i s (clear_active_task t s)"
  by (auto simp: keeps_others_def clear_active_task_def release_key_def entries_at_def Let_def)

lemma keeps_others_tasks [simp]:
  "keeps_others i (s\<lparr>rg_tasks := x\<rparr>) m = keeps_others i s m"
  "keeps_others i s (m\<lparr>rg_tasks := x\<rparr>) = keeps_others i s m"
  "keeps_own i s (m\<lparr>rg_tasks := x\<rparr>) = keeps_own i s m"
  by (simp_all add: keeps_others_def keeps_own_def entries_at_def)

lemma clear_active_task_others_tasks:
  "tk_id t = i \<Longrightarrow> keeps_others i s (clear_active_task t (s\<lparr>rg_tasks := x\<rparr>))"
  using clear_active_task_others [of t i "s\<lparr>rg_tasks := x\<rparr>"] by simp

text \<open>The same for a registry whose tasks stay as they are.\<close>

lemma keys_same_tasks:
  assumes "registry_inv s" "keys_inv s" "rg_tasks m = rg_tasks s"
    "\<And>i t. hm_get (rg_tasks s) i = Some t \<Longrightarrow> works_on_key t \<Longrightarrow>
      entries_at m i = entries_at s i \<and> hm_get (rg_active m) (key_of_task t s) = Some i"
  shows "keys_inv m"
  unfolding keys_inv_def
proof (intro allI impI)
  fix i t assume "hm_get (rg_tasks m) i = Some t \<and> works_on_key t"
  then have t: "hm_get (rg_tasks s) i = Some t" "works_on_key t" using assms(3) by auto
  then have "key_of_task t m = key_of_task t s"
    using assms(4) registry_invD(3) [OF assms(1)] by (intro key_of_task_cong) auto
  with assms(4) [OF t] show "hm_get (rg_active m) (key_of_task t m) = Some i" by simp
qed


section \<open>Every operation\<close>

definition both_inv :: "registry \<Rightarrow> bool" where
  "both_inv s \<longleftrightarrow> registry_inv s \<and> keys_inv s"

lemma keys_persist_task:
  assumes "both_inv s" "hm_get (rg_tasks s) i = Some t" "tk_id t' = tk_id t" "tk_kind t' = tk_kind t"
    "tk_source t' = tk_source t" "rg_tasks m = hm_insert i t' (rg_tasks s)"
    "rg_persistence m = rg_persistence s" "keeps_others i s m"
    "works_on_key t' \<Longrightarrow> works_on_key t \<and> keeps_own i s m"
    "checkpoint = None \<or> checkpoint = Some s"
  shows "keys_inv (snd (persist_task env t' d checkpoint m))"
    "keys_inv (snd (persist_task_before_destructive env t' d checkpoint m))"
  unfolding persist_task_def persist_task_before_destructive_def
  using assms keys_change [OF _ _ assms(2-9) surjective_pairing assms(10)] by (simp_all add: both_inv_def)

lemma keys_retry:
  assumes "both_inv s"
  shows "keys_inv (snd (persist_pending env d None r s))"
  using assms registry_invD(2,3) [of s]
  by (intro persist_keys [OF _ _ surjective_pairing]) (auto simp: both_inv_def)

lemma recover_first_keys:
  "both_inv s \<Longrightarrow> recover_first env accepted s = (ok, s') \<Longrightarrow> both_inv s'"
  using recover_first_good [of s env accepted ok s'] keys_retry [of s env True False]
  by (auto simp: both_inv_def good_step_by_def recover_first_def split: if_splits prod.splits)

lemma not_working [simp]:
  "\<not> is_active (tk_state t) \<Longrightarrow> \<not> works_on_key t"
  "tk_kind t = BilibiliProgressivePlayback \<Longrightarrow> \<not> works_on_key t"
  by (simp_all add: works_on_key_def)

lemma terminal_not_active: "is_terminal a \<Longrightarrow> \<not> is_active a"
  by (auto simp: is_terminal_def is_active_def)

lemma works_on_key_cong: "tk_kind t' = tk_kind t \<Longrightarrow> tk_state t' = tk_state t \<Longrightarrow> works_on_key t' = works_on_key t"
  by (simp add: works_on_key_def)

text \<open>Creation.\<close>

lemma keys_create:
  assumes inv: "both_inv s" and id: "tk_id t' = i"
    and m: "rg_tasks m = hm_insert i t' (rg_tasks s)" "rg_persistence m = rg_persistence s"
      "\<forall>j. j \<noteq> i \<longrightarrow> entries_at m j = entries_at s j"
      "\<And>j t. hm_get (rg_tasks s) j = Some t \<Longrightarrow> works_on_key t \<Longrightarrow> j \<noteq> i \<Longrightarrow>
        hm_get (rg_active m) (key_of_task t s) = Some j"
    and own: "works_on_key t' \<Longrightarrow> hm_get (rg_active m) (key_of_task t' m) = Some i"
  shows "keys_inv (snd (persist_task env t' d (Some s) m))"
  unfolding persist_task_def
proof (rule persist_keys [OF _ _ surjective_pairing])
  have inv': "registry_inv s" "keys_inv s" using inv by (simp_all add: both_inv_def)
  show "\<forall>j u. hm_get (rg_tasks (stage_publication t' m)) j = Some u \<longrightarrow> tk_id u = j"
    using registry_invD(3) [OF inv'(1)] m(1) id by auto
  show "rg_persistence (stage_publication t' m) \<noteq> None"
    using registry_invD(2) [OF inv'(1)] m(2) by simp
  show "\<forall>c. Some s = Some c \<longrightarrow> keys_inv c" using inv'(2) by simp
  have "keys_inv m"
    unfolding keys_inv_def
  proof (intro allI impI)
    fix j u assume u: "hm_get (rg_tasks m) j = Some u \<and> works_on_key u"
    show "hm_get (rg_active m) (key_of_task u m) = Some j"
    proof (cases "j = i")
      case True
      with u m(1) own show ?thesis by auto
    next
      case False
      with u m(1) have u': "hm_get (rg_tasks s) j = Some u" "works_on_key u" by auto
      have "tk_id u = j" by (rule registry_invD(3) [OF inv'(1) u'(1)])
      then have "key_of_task u m = key_of_task u s"
        using m(3) False by (intro key_of_task_cong) auto
      with m(4) [OF u' False] show ?thesis by simp
    qed
  qed
  then show "keys_inv (stage_publication t' m)"
    by (subst keys_inv_cong [of _ m]) (simp_all add: key_of_task_def)
qed

text \<open>A key that no task is worked on under is not the key of a task that is worked on.\<close>

lemma active_task_None:
  "keys_inv s \<Longrightarrow> active_task key s = None \<Longrightarrow> hm_get (rg_tasks s) j = Some t \<Longrightarrow> works_on_key t \<Longrightarrow>
    key_of_task t s \<noteq> key"
  by (auto simp: keys_inv_def active_task_def works_on_key_def)

lemma key_kinds:
  "ak_kind (playback_key source o' cx cs) = BilibiliProgressivePlayback"
  "ak_kind (download_key source o'' cx cs) = BilibiliDownload"
  by (simp_all add: playback_key_def download_key_def key_bind_def key_new_def Let_def split: option.split)

lemma key_of_task_download: "works_on_key t \<Longrightarrow> ak_kind (key_of_task t s) = BilibiliDownload"
  by (simp add: key_of_task_def active_key_for_task_def works_on_key_def key_kinds)

text \<open>A draft adds its own key and keeps those of the others.\<close>

lemma drafted_key_keeps:
  assumes "keys_inv s" "active_task key s = None" "hm_get (rg_tasks s) j = Some t" "works_on_key t"
  shows "hm_get (hm_insert key i (rg_active s)) (key_of_task t s) = Some j"
  using assms active_task_None [OF assms] by (simp add: keys_inv_def)

lemma download_draft_fields:
  "rg_tasks (snd (download_draft env i source options s))
     = hm_insert i (fst (download_draft env i source options s)) (rg_tasks s)"
  "rg_persistence (snd (download_draft env i source options s)) = rg_persistence s"
  "rg_active (snd (download_draft env i source options s))
     = hm_insert (download_key (normalize source) options None []) i (rg_active s)"
  "j \<noteq> i \<Longrightarrow> entries_at (snd (download_draft env i source options s)) j = entries_at s j"
  "tk_id (fst (download_draft env i source options s)) = i"
  "unknown_id i s \<Longrightarrow> key_of_task (fst (download_draft env i source options s))
     (snd (download_draft env i source options s)) = download_key (normalize source) options None []"
  by (simp_all add: download_draft_def Let_def entries_at_def key_of_task_def active_key_for_task_def
      options_of_def unknown_id_def)

lemma download_v2_draft_fields:
  "rg_tasks (snd (download_v2_draft env i source options cx title cs s))
     = hm_insert i (fst (download_v2_draft env i source options cx title cs s)) (rg_tasks s)"
  "rg_persistence (snd (download_v2_draft env i source options cx title cs s)) = rg_persistence s"
  "rg_active (snd (download_v2_draft env i source options cx title cs s))
     = hm_insert (download_key (normalize source) (Some options) (Some cx) cs) i (rg_active s)"
  "j \<noteq> i \<Longrightarrow> entries_at (snd (download_v2_draft env i source options cx title cs s)) j = entries_at s j"
  "tk_id (fst (download_v2_draft env i source options cx title cs s)) = i"
  "key_of_task (fst (download_v2_draft env i source options cx title cs s))
     (snd (download_v2_draft env i source options cx title cs s))
     = download_key (normalize source) (Some options) (Some cx) cs"
  by (simp_all add: download_v2_draft_def Let_def entries_at_def key_of_task_def active_key_for_task_def
      options_of_def)

lemma create_download_keys:
  assumes inv: "both_inv s" and new: "unknown_id i s"
  shows "keys_inv (snd (create_bilibili_task env i source options s))"
proof -
  let ?t = "fst (download_draft env i source options s)" and ?m = "snd (download_draft env i source options s)"
  have inv': "registry_inv s" "keys_inv s" using inv by (simp_all add: both_inv_def)
  have "keys_inv (snd (persist_task env ?t True (Some s) ?m))"
    if none: "active_task (download_key (normalize source) options None []) s = None"
  proof (rule keys_create [OF inv, where i = i])
    show "hm_get (rg_active ?m) (key_of_task u s) = Some j"
      if "hm_get (rg_tasks s) j = Some u" "works_on_key u" "j \<noteq> i" for j u
      using drafted_key_keeps [OF inv'(2) none that(1,2)] by (simp only: download_draft_fields)
  qed (simp_all add: download_draft_fields new)
  with create_download_cases [OF inv'(1), of env i source options] inv'(2) show ?thesis by metis
qed

lemma create_download_v2_keys:
  assumes inv: "both_inv s"
  shows "keys_inv (snd (create_bilibili_download_task_v2 env i source options cx title candidates s))"
proof -
  have inv': "registry_inv s" "keys_inv s" using inv by (simp_all add: both_inv_def)
  have "keys_inv (snd (persist_task env (fst (download_v2_draft env i source o' c' title candidates s)) True (Some s)
        (snd (download_v2_draft env i source o' c' title candidates s))))"
    if none: "active_task (download_key (normalize source) (Some o') (Some c') candidates) s = None" for o' c'
  proof (rule keys_create [OF inv, where i = i])
    show "hm_get (rg_active (snd (download_v2_draft env i source o' c' title candidates s))) (key_of_task u s) = Some j"
      if "hm_get (rg_tasks s) j = Some u" "works_on_key u" "j \<noteq> i" for j u
      using drafted_key_keeps [OF inv'(2) none that(1,2)] by (simp only: download_v2_draft_fields)
  qed (simp_all add: download_v2_draft_fields)
  with create_download_v2_cases [of env i source options cx title candidates s] inv'(2)
  show ?thesis by metis
qed

lemma create_playback_keys:
  assumes inv: "both_inv s"
  shows "keys_inv (snd (create_playback_record env i source options cx selection title candidates deferred s))"
proof -
  let ?t = "fst (playback_draft env i source options cx selection title candidates deferred s)"
  let ?m = "snd (playback_draft env i source options cx selection title candidates deferred s)"
  have inv': "registry_inv s" "keys_inv s" using inv by (simp_all add: both_inv_def)
  have other: "key_of_task t s \<noteq> playback_key src op c cs" if "works_on_key t" for t src op c cs
    using key_of_task_download [OF that, of s] key_kinds(1) [of src op c cs]
    by (metis task_kind.distinct(9))
  have "keys_inv (snd (persist_task env ?t True (Some s) ?m))"
    using other inv'(2)
    by (intro keys_create [OF inv]) (auto simp: playback_draft_def Let_def entries_at_def keys_inv_def)
  with create_playback_cases [OF inv'(1), of env i source options cx selection title candidates deferred] inv'(2)
  show ?thesis by metis
qed


text \<open>The operations on a task that exists.\<close>

lemma publish_volatile_keys:
  assumes inv: "both_inv s" and t: "hm_get (rg_tasks s) i = Some t"
    and t': "tk_id t' = tk_id t" "tk_kind t' = tk_kind t" "tk_source t' = tk_source t"
      "tk_state t' = tk_state t"
  shows "keys_inv (publish_volatile t' (s\<lparr>rg_tasks := hm_insert i t' (rg_tasks s)\<rparr>))"
proof -
  have inv': "registry_inv s" "keys_inv s" using inv by (simp_all add: both_inv_def)
  have id: "tk_id t = i" by (rule registry_invD(3) [OF inv'(1) t])
  have "key_of_task t' s = key_of_task t s" using t' by (intro key_of_task_cong) simp_all
  moreover have "works_on_key t' = works_on_key t" using t' by (intro works_on_key_cong) simp_all
  ultimately have upd: "keys_inv m" if "rg_tasks m = hm_insert i t' (rg_tasks s)" "rg_active m = rg_active s"
    "\<And>u. key_of_task u m = key_of_task u s" for m
    using that inv'(2) t unfolding keys_inv_def by (metis hm_get_insert option.inject)
  show ?thesis
    by (rule upd) (simp_all add: publish_volatile_def key_of_task_def)
qed

lemma progress_keys:
  assumes "both_inv s"
  shows "keys_inv (snd (update_task_progress now i p s))"
    "keys_inv (snd (update_playback_cache_progress now i p s))"
  using assms publish_volatile_keys [OF assms]
  by (auto simp: update_task_progress_def update_playback_cache_progress_def Let_def both_inv_def
      split: option.split)

lemma both_inv_queue [simp]: "both_inv (s\<lparr>rg_queued := q\<rparr>) = both_inv s"
  using keys_inv_cong [of "s\<lparr>rg_queued := q\<rparr>" s] by (simp add: both_inv_def key_of_task_def)

lemma claim_scan_keys: "both_inv s \<Longrightarrow> keys_inv (snd (claim_scan n env s))"
proof (induction n arbitrary: s)
  case 0
  then show ?case by (simp add: both_inv_def)
next
  case (Suc n)
  show ?case
  proof (cases "rg_queued s")
    case Nil
    with Suc.prems show ?thesis by (simp add: both_inv_def)
  next
    case (Cons i rest)
    show ?thesis
    proof (cases "claim_ready s i")
      case False
      with Suc.IH Suc.prems claim_scan_step(1) [OF Cons, of n env]
        claim_scan_step(2) [OF Cons _ False, of n env]
      show ?thesis by (cases "claim_held s i") (simp_all del: claim_scan.simps)
    next
      case True
      then obtain t where t: "hm_get (rg_tasks s) i = Some t" "tk_state t = Queued"
        by (auto simp: claim_ready_def state_at_def)
      let ?p = "claim_state env i t s rest"
      have "keys_inv (snd (persist_task env (fst ?p) False None (snd ?p)))"
        using t(2) by (intro keys_persist_task(1) [OF Suc.prems t(1)])
          (simp_all add: claim_state_def Let_def works_on_key_def is_active_def
            keeps_others_def keeps_own_def entries_at_def)
      with claim_scan_step(3) [OF Cons True t(1), of n env] show ?thesis
        by (auto simp del: claim_scan.simps)
    qed
  qed
qed

lemma complete_task_keys:
  assumes inv: "both_inv s0" and st: "is_terminal st"
  shows "keys_inv (snd (complete_task env0 env task_id st message item_id progress s0))"
proof -
  obtain ok s where rec: "recover_first env0 is_committed s0 = (ok, s)" by fastforce
  have b: "both_inv s" by (rule recover_first_keys [OF inv rec])
  then have inv': "registry_inv s" "keys_inv s" by (simp_all add: both_inv_def)
  have "keys_inv (snd (persist_task env (ended_task (ev_now env) st message item_id progress t) d None
      (clear_active_task (ended_task (ev_now env) st message item_id progress t)
        (s\<lparr>rg_tasks := hm_insert i (ended_task (ev_now env) st message item_id progress t) (rg_tasks s)\<rparr>))))"
    if t: "hm_get (rg_tasks s) i = Some t" for i t d
    using registry_invD(3) [OF inv'(1) t] st
    by (intro keys_persist_task(1) [OF b t])
      (auto simp: clear_active_task_others_tasks works_on_key_def terminal_not_active is_active_def is_terminal_def
        split: if_splits)
  with rec inv inv' show ?thesis
    by (simp add: complete_task_def Let_def both_inv_def case_prod_unfold split: option.split)
qed

lemma cancel_task_keys:
  assumes inv: "both_inv s0"
  shows "keys_inv (snd (cancel_task_with_hls_session_ids env0 env output_ok task_id s0))"
proof -
  obtain ok s where rec: "recover_first env0 is_durable s0 = (ok, s)" by fastforce
  have b: "both_inv s" by (rule recover_first_keys [OF inv rec])
  then have inv': "registry_inv s" "keys_inv s" by (simp_all add: both_inv_def)
  have inv0: "registry_inv s0" using inv by (simp add: both_inv_def)
  have tokens: "keys_inv (s\<lparr>rg_tokens := x\<rparr>)" for x
    using inv'(2) keys_inv_cong [of "s\<lparr>rg_tokens := x\<rparr>" s] by (simp add: key_of_task_def)
  have worked: "keys_inv (snd (cancel_worked_on env i v s))"
    if v: "rg_pending s = []" "hm_get (rg_visible s) i = Some v" "tk_state v \<in> {Running, Preparing, CancelRequested}"
    for i v
  proof (cases "hm_get (rg_tasks s) i")
    case None
    with tokens show ?thesis by (simp add: cancel_worked_on_def Let_def)
  next
    case (Some t)
    have "tk_state t = tk_state v"
      using registry_invD(4) [OF inv'(1), of i] Some v by (simp add: state_at_def)
    with v have act: "is_active (tk_state t)" by (auto simp: is_active_def)
    let ?t = "t\<lparr>tk_state := CancelRequested, tk_message := ''Cancellation requested.'',
        tk_updated_at := Some (ev_now env)\<rparr>"
    have "keys_inv (snd (persist_task env ?t d None
        (s\<lparr>rg_tokens := x, rg_tasks := hm_insert i ?t (rg_tasks s)\<rparr>)))" for d x
      using act by (intro keys_persist_task(1) [OF b Some])
        (simp_all add: works_on_key_def keeps_others_def keeps_own_def entries_at_def)
    with Some tokens show ?thesis
      by (simp add: cancel_worked_on_def Let_def case_prod_unfold)
  qed
  have idle: "keys_inv (snd (cancel_idle env output_ok i s))" for i
  proof (cases "hm_get (rg_tasks s) i")
    case None
    with inv' show ?thesis by (simp add: cancel_idle_def)
  next
    case (Some t)
    let ?t = "cancelled_task (ev_now env) t"
    let ?s = "clear_active_task ?t (s\<lparr>rg_tasks := hm_insert i ?t (rg_tasks s)\<rparr>)"
    have "keys_inv (snd (persist_task env ?t d (Some s) ?s))
        \<and> keys_inv (snd (persist_task_before_destructive env ?t d (Some s) ?s))" for d
      using registry_invD(3) [OF inv'(1) Some]
      by (intro conjI keys_persist_task [OF b Some])
        (simp_all add: clear_active_task_others_tasks works_on_key_def is_active_def)
    moreover have "keys_inv (restore_checkpoint s (s\<lparr>rg_tasks := x\<rparr>))" for x
      using inv'(2) keys_inv_cong [of "restore_checkpoint s (s\<lparr>rg_tasks := x\<rparr>)" s]
      by (simp add: restore_checkpoint_def key_of_task_def)
    ultimately show ?thesis
      using Some durability_checkpoint_inv [OF inv'(1)]
      by (simp add: cancel_idle_def Let_def case_prod_unfold)
  qed
  have "rg_pending s = []" if "ok"
    by (rule recover_first_pending [OF inv0, of env0 is_durable])
      (use rec that in \<open>simp_all add: is_durable_def is_committed_def\<close>)
  with rec inv inv' worked idle show ?thesis
    by (auto simp: cancel_task_with_hls_session_ids_def Let_def both_inv_def split: option.split)
qed


text \<open>Playback tasks have no part in the keys of downloads.\<close>

lemma with_playback_task_keys:
  assumes "keys_inv s"
    "\<And>i t. hm_get (rg_tasks s) i = Some t \<Longrightarrow> tk_kind t = BilibiliProgressivePlayback \<Longrightarrow>
      keys_inv (snd (act i t))"
  shows "keys_inv (snd (with_playback_task task_id act s))"
  using assms by (auto simp: with_playback_task_def Let_def split: option.split)

lemma end_publication_others: "tk_id t = i \<Longrightarrow> keeps_others i s (end_publication t s)"
  by (auto simp: keeps_others_def end_publication_def clear_active_duplicate_key_def clear_active_task_def
      release_key_def entries_at_def Let_def)

lemma restore_task_record_keys:
  assumes "keys_inv s" "tk_kind t = BilibiliProgressivePlayback"
  shows "keys_inv (restore_task_record t p s)"
proof -
  have "key_of_task u (restore_task_record t p s) = key_of_task u s" for u
    by (simp add: restore_task_record_def key_of_task_def)
  then show ?thesis
    using assms by (auto simp: keys_inv_def restore_task_record_def)
qed

lemma publish_playback_keys:
  assumes inv: "both_inv s" and t: "hm_get (rg_tasks s) i = Some t" "tk_kind t = BilibiliProgressivePlayback"
    and t': "tk_id t' = tk_id t" "tk_kind t' = tk_kind t" "tk_source t' = tk_source t"
      "may_become (tk_state t) (tk_state t')"
  shows "keys_inv (snd (publish_playback env i t t' s))"
proof -
  have inv': "registry_inv s" "keys_inv s" using inv by (simp_all add: both_inv_def)
  have id: "tk_id t = i" by (rule registry_invD(3) [OF inv'(1) t(1)])
  let ?m = "s\<lparr>rg_tasks := hm_insert i t' (rg_tasks s)\<rparr>"
  obtain out s2 where run: "persist_task env t' False None ?m = (out, s2)" by fastforce
  have g: "registry_inv s2"
    using good_persist_task [OF inv'(1) state_order_become run t(1) t'] by (simp add: good_step_by_def)
  have "keys_inv (snd (persist_task env t' False None ?m))"
    using t(2) t' by (intro keys_persist_task(1) [OF inv t(1)]) simp_all
  then have k: "keys_inv s2" using run by simp
  have at_i: "u = t'" if "hm_get (rg_tasks s2) i = Some u" for u
    using persist_without_checkpoint(1) [OF _ run [unfolded persist_task_def], of i u] that
      registry_invD(2) [OF inv'(1)] by simp
  have "keys_inv (end_publication t' s2)"
  proof (rule keys_same_tasks [OF g k])
    fix j u assume u: "hm_get (rg_tasks s2) j = Some u" "works_on_key u"
    have "j \<noteq> i" using at_i u t(2) t'(2) by auto
    then show "entries_at (end_publication t' s2) j = entries_at s2 j
        \<and> hm_get (rg_active (end_publication t' s2)) (key_of_task u s2) = Some j"
      using end_publication_others [of t' i s2] u k id t'(1) by (simp add: keeps_others_def keys_inv_def)
  qed simp
  then show ?thesis
    using run restore_task_record_keys [OF k t(2)]
    by (simp add: publish_playback_def persist_playback_publication_def)
qed

lemma playback_keys:
  assumes inv: "both_inv s"
  shows "keys_inv (snd (complete_playback_planned env i title session s))"
    "keys_inv (snd (complete_playback_playable env i title source session s))"
    "keys_inv (snd (complete_playback_results_playable env i title message source session items s))"
  unfolding complete_playback_planned_def complete_playback_playable_def complete_playback_results_playable_def
proof -
  have k: "keys_inv s" using inv by (simp add: both_inv_def)
  have live: "\<lbrakk>hm_get (rg_tasks s) j = Some t; tk_kind t = BilibiliProgressivePlayback; \<not> is_terminal (tk_state t);
      tk_id (f t) = tk_id t; tk_kind (f t) = tk_kind t; tk_source (f t) = tk_source t;
      tk_state (f t) \<noteq> Queued; tk_state t = CancelRequested \<Longrightarrow> tk_state (f t) = Cancelled\<rbrakk> \<Longrightarrow>
      keys_inv (snd (publish_playback env j t (f t) s))" for f j t
    by (rule publish_playback_keys [OF inv]) (auto simp: may_become_def)
  have w: "keys_inv (snd (with_playback_task i (\<lambda>j t. publish_playback env j t (f t) s) s))"
    if f: "\<And>t. tk_id (f t) = tk_id t" "\<And>t. tk_kind (f t) = tk_kind t" "\<And>t. tk_source (f t) = tk_source t"
      "\<And>t. tk_state (f t) \<noteq> Queued" "\<And>t. tk_state t = CancelRequested \<Longrightarrow> tk_state (f t) = Cancelled" for f
    using k live [of _ _ f] f by (simp add: with_playback_task_def Let_def split: option.split)
  show "keys_inv (snd (with_playback_task i (\<lambda>task_id' t. publish_playback env task_id' t
         (if tk_state t = CancelRequested then cancelled_by_request (ev_now env) t
          else t\<lparr>tk_state := Planned, tk_title := title, tk_message := ''Bilibili playback plan is ready.'',
            tk_progress := Finite 0, tk_playback_source := None, tk_playback_session := Some session,
            tk_updated_at := Some (ev_now env)\<rparr>) s) s))"
    by (rule w) simp_all
  show "keys_inv (snd (with_playback_task i (\<lambda>task_id' t. publish_playback env task_id' t
         (if tk_state t = CancelRequested then cancelled_by_request (ev_now env) t
          else t\<lparr>tk_state := Playable, tk_title := title,
            tk_message := ''Bilibili playback session is playable.'', tk_progress := Finite 0,
            tk_playback_source := Some source, tk_playback_session := Some session,
            tk_updated_at := Some (ev_now env)\<rparr>) s) s))"
    by (rule w) simp_all
  show "keys_inv (snd (with_playback_task i (\<lambda>task_id' t. publish_playback env task_id' t
         (if tk_state t = CancelRequested
          then (cancelled_by_request (ev_now env) t)\<lparr>tk_playback_source := None, tk_playback_session := None,
            tk_result_items := clear_result_playback_metadata Cancelled ''Cancelled by request.'' (tk_result_items t)\<rparr>
          else t\<lparr>tk_state := Playable, tk_title := title, tk_message := message,
            tk_progress := Finite 0, tk_playback_source := Some source,
            tk_playback_session := Some session, tk_result_items := items,
            tk_updated_at := Some (ev_now env)\<rparr>) s) s))"
    by (rule w) simp_all
qed

lemma update_results_keys:
  assumes inv: "both_inv s"
  shows "keys_inv (snd (update_playback_results env i title message progress items s))"
  unfolding update_playback_results_def
proof (rule with_playback_task_keys)
  show k: "keys_inv s" using inv by (simp add: both_inv_def)
  fix i t assume t: "hm_get (rg_tasks s) i = Some t" "tk_kind t = BilibiliProgressivePlayback"
  let ?t = "t\<lparr>tk_title := (case title of Some x \<Rightarrow> x | None \<Rightarrow> tk_title t), tk_message := message,
             tk_progress := (case progress of Finite v \<Rightarrow> Finite (clamp_to (99 / 100) v)
               | NotFinite \<Rightarrow> tk_progress t),
             tk_result_items := items, tk_updated_at := Some (ev_now env)\<rparr>"
  have "keys_inv (snd (persist_task env ?t False None (s\<lparr>rg_tasks := hm_insert i ?t (rg_tasks s)\<rparr>)))"
    using t(2) by (intro keys_persist_task(1) [OF inv t(1)]) simp_all
  then show "keys_inv (snd (let t' = ?t; (outcome, s1) = persist_task env t' False None
        (s\<lparr>rg_tasks := hm_insert i t' (rg_tasks s)\<rparr>)
      in if is_permanent_failure outcome
         then (Inl FailedPrecondition, restore_task_record t (hm_get (rg_pending s) i) s1)
         else (Inr t', s1)))"
    using restore_task_record_keys t(2) by (simp add: Let_def case_prod_unfold)
qed

lemma fail_after_restart_keys:
  assumes inv: "both_inv s"
  shows "keys_inv (snd (fail_playback_task_after_cache_restore env i message s))"
  unfolding fail_playback_task_after_cache_restore_def Let_def
proof (rule with_playback_task_keys)
  show k: "keys_inv s" using inv by (simp add: both_inv_def)
  have inv': "registry_inv s" using inv by (simp add: both_inv_def)
  fix i t assume t: "hm_get (rg_tasks s) i = Some t" "tk_kind t = BilibiliProgressivePlayback"
  let ?t = "t\<lparr>tk_state := Failed, tk_message := message, tk_library_item_id := [],
             tk_playback_source := None, tk_playback_session := None,
             tk_result_items := clear_result_playback_metadata Failed message (tk_result_items t),
             tk_updated_at := Some (ev_now env), tk_finished_at := Some (ev_now env)\<rparr>"
  show "keys_inv (snd (Inr ?t :: status + task, snd (persist_task env ?t False None
      (clear_active_task ?t (s\<lparr>rg_tasks := hm_insert i ?t (rg_tasks s)\<rparr>)))))"
    using t(2) registry_invD(3) [OF inv' t(1)]
    by (simp, intro keys_persist_task(1) [OF inv t(1)]) (simp_all add: clear_active_task_others_tasks)
qed

lemma complete_cached_keys:
  assumes inv: "both_inv s0"
  shows "keys_inv (snd (complete_playback_hls_session_cached env0 env task_id session_id item_id completed s0))"
proof -
  obtain ok s where rec: "recover_first env0 is_durable s0 = (ok, s)" by fastforce
  have b: "both_inv s" by (rule recover_first_keys [OF inv rec])
  then have inv': "registry_inv s" "keys_inv s" by (simp_all add: both_inv_def)
  have changed: "keys_inv (snd (persist_task env (cached_task now l m c t) d None
      (s\<lparr>rg_tasks := hm_insert i (cached_task now l m c t) (rg_tasks s)\<rparr>)))
    \<and> keys_inv (snd (persist_task env (cached_task now l m c t) d None
      (clear_active_task (cached_task now l m c t)
        (s\<lparr>rg_tasks := hm_insert i (cached_task now l m c t) (rg_tasks s)\<rparr>))))"
    if t: "hm_get (rg_tasks s) i = Some t" "tk_kind t = BilibiliProgressivePlayback" for i t now l m c d
    using registry_invD(3) [OF inv'(1) t(1)] t(2)
    by (intro conjI keys_persist_task(1) [OF b t(1)]) (simp_all add: clear_active_task_others_tasks)
  with rec inv inv' show ?thesis
    by (simp add: complete_playback_hls_session_cached_def Let_def both_inv_def case_prod_unfold split: option.split)
qed

text \<open>The operations that change a task after its work. Several tasks may change in one commit.\<close>

lemma keys_change_many:
  assumes inv: "both_inv s"
    and each: "\<And>i u. hm_get (rg_tasks m) i = Some u \<Longrightarrow> \<exists>t. hm_get (rg_tasks s) i = Some t \<and> tk_id u = tk_id t
      \<and> tk_kind u = tk_kind t \<and> tk_source u = tk_source t
      \<and> (works_on_key u \<longrightarrow> works_on_key t \<and> entries_at m i = entries_at s i)"
    and m: "rg_persistence m = rg_persistence s" "rg_active m = rg_active s"
    and cp: "checkpoint = None \<or> checkpoint = Some s"
  shows "keys_inv (snd (persist_pending env d checkpoint r (stage_publications ts m)))"
proof (rule persist_keys [OF _ _ surjective_pairing])
  have inv': "registry_inv s" "keys_inv s" using inv by (simp_all add: both_inv_def)
  show "\<forall>i u. hm_get (rg_tasks (stage_publications ts m)) i = Some u \<longrightarrow> tk_id u = i"
    using each registry_invD(3) [OF inv'(1)] by fastforce
  show "rg_persistence (stage_publications ts m) \<noteq> None"
    using m(1) registry_invD(2) [OF inv'(1)] by simp
  show "\<forall>c. checkpoint = Some c \<longrightarrow> keys_inv c" using cp inv'(2) by auto
  have "keys_inv m"
    unfolding keys_inv_def
  proof (intro allI impI)
    fix i u assume u: "hm_get (rg_tasks m) i = Some u \<and> works_on_key u"
    with each obtain t where t: "hm_get (rg_tasks s) i = Some t" "tk_id u = tk_id t" "tk_kind u = tk_kind t"
      "tk_source u = tk_source t" "works_on_key t" "entries_at m i = entries_at s i" by blast
    have "tk_id t = i" by (rule registry_invD(3) [OF inv'(1) t(1)])
    with t have "key_of_task u m = key_of_task t s" by (intro key_of_task_cong) simp_all
    with t inv'(2) m(2) show "hm_get (rg_active m) (key_of_task u m) = Some i" by (simp add: keys_inv_def)
  qed
  then show "keys_inv (stage_publications ts m)"
    by (subst keys_inv_cong [of _ m]) (simp_all add: key_of_task_def)
qed

lemma keys_change_tasks:
  assumes inv: "both_inv s"
    and change: "\<And>t t'. change t = Some t' \<Longrightarrow> tk_id t' = tk_id t \<and> tk_kind t' = tk_kind t
      \<and> tk_source t' = tk_source t \<and> (works_on_key t' \<longrightarrow> works_on_key t)"
    and cp: "checkpoint = None \<or> checkpoint = Some s"
  shows "keys_inv (snd (persist_pending env d checkpoint r
    (stage_publications (changed_tasks change s) (change_tasks change s))))"
proof (rule keys_change_many [OF inv _ _ _ cp])
  fix i u assume "hm_get (rg_tasks (change_tasks change s)) i = Some u"
  then show "\<exists>t. hm_get (rg_tasks s) i = Some t \<and> tk_id u = tk_id t \<and> tk_kind u = tk_kind t
      \<and> tk_source u = tk_source t
      \<and> (works_on_key u \<longrightarrow> works_on_key t \<and> entries_at (change_tasks change s) i = entries_at s i)"
    using change by (auto simp: change_tasks_get entries_at_def split: option.splits)
qed simp_all

text \<open>A playback task that changes and stays a playback task.\<close>

lemma keys_playback_change:
  assumes "both_inv s" "hm_get (rg_tasks s) i = Some t" "tk_kind t = BilibiliProgressivePlayback"
    "tk_id t' = tk_id t" "tk_kind t' = tk_kind t" "tk_source t' = tk_source t" "checkpoint = None \<or> checkpoint = Some s"
  shows "keys_inv (snd (persist_task env t' d checkpoint (s\<lparr>rg_tasks := hm_insert i t' (rg_tasks s)\<rparr>)))"
    "keys_inv (snd (persist_task_before_destructive env t' d checkpoint (s\<lparr>rg_tasks := hm_insert i t' (rg_tasks s)\<rparr>)))"
    "keys_inv (snd (persist_task env t' d checkpoint
      (clear_active_task t' (s\<lparr>rg_tasks := hm_insert i t' (rg_tasks s)\<rparr>))))"
    "keys_inv (snd (persist_task_before_destructive env t' d checkpoint
      (clear_active_task t' (s\<lparr>rg_tasks := hm_insert i t' (rg_tasks s)\<rparr>))))"
proof -
  have "tk_id t = i" using assms(1,2) registry_invD(3) by (auto simp: both_inv_def)
  then show "keys_inv (snd (persist_task env t' d checkpoint (s\<lparr>rg_tasks := hm_insert i t' (rg_tasks s)\<rparr>)))"
    "keys_inv (snd (persist_task_before_destructive env t' d checkpoint (s\<lparr>rg_tasks := hm_insert i t' (rg_tasks s)\<rparr>)))"
    "keys_inv (snd (persist_task env t' d checkpoint
      (clear_active_task t' (s\<lparr>rg_tasks := hm_insert i t' (rg_tasks s)\<rparr>))))"
    "keys_inv (snd (persist_task_before_destructive env t' d checkpoint
      (clear_active_task t' (s\<lparr>rg_tasks := hm_insert i t' (rg_tasks s)\<rparr>))))"
    using assms keys_persist_task [OF assms(1,2), of t' _ checkpoint env d]
    by (simp_all add: clear_active_task_others_tasks)
qed

lemma keys_restore_checkpoint: "keys_inv s \<Longrightarrow> keys_inv (restore_checkpoint s (s\<lparr>rg_tasks := x\<rparr>))"
  using keys_inv_cong [of "restore_checkpoint s (s\<lparr>rg_tasks := x\<rparr>)" s]
  by (simp add: restore_checkpoint_def key_of_task_def)

lemma both_invD: "both_inv s \<Longrightarrow> registry_inv s" "both_inv s \<Longrightarrow> keys_inv s"
  by (simp_all add: both_inv_def)

lemma both_inv_checkpoint: "both_inv s \<Longrightarrow> durability_checkpoint s = Some s"
  by (simp add: both_inv_def durability_checkpoint_inv)

lemma fail_completed_keys:
  assumes inv: "both_inv s"
  shows "keys_inv (snd (fail_completed_playback_task_after_cache_restore env session_id message s))"
proof (cases "completed_playback_task (normalize session_id) s")
  case (Some t)
  note f = completed_playback_task_found [OF both_invD(1) [OF inv] Some]
  show ?thesis
    using f Some both_invD(2) [OF inv]
      keys_playback_change(3) [OF inv conjunct1 [OF f], of "failed_playback (ev_now env) message t" None env False]
    by (simp add: fail_completed_playback_task_after_cache_restore_def Let_def)
qed (simp add: fail_completed_playback_task_after_cache_restore_def Let_def both_invD(2) [OF inv])

lemma rejected_session_task_kept:
  "rejected_session_task now session_id message t = Some t' \<Longrightarrow>
    tk_id t' = tk_id t \<and> tk_kind t' = tk_kind t \<and> tk_source t' = tk_source t"
  by (auto simp: rejected_session_task_def split: if_splits prod.splits bool.splits)

lemma reject_session_keys:
  assumes inv: "both_inv s0"
  shows "keys_inv (snd (fail_unrestorable_playback_session_after_cache_restore env0 env session_id message s0))"
proof -
  obtain ok s where rec: "recover_first env0 is_durable s0 = (ok, s)" by fastforce
  have b: "both_inv s" by (rule recover_first_keys [OF inv rec])
  let ?sid = "normalize session_id"
  let ?P = "\<lambda>t. tk_kind t = BilibiliProgressivePlayback \<and> (tk_state t = Playable \<or> tk_state t = Completed)
    \<and> (primary_hls_session_id t = Some ?sid
       \<or> list_ex (\<lambda>item. ?sid \<in> result_item_hls_session_ids item \<and> item_serves_online item) (tk_result_items t))"
  have changed: "keys_inv (snd (persist_task_before_destructive env t' d (Some s)
      (if tk_state t' = Failed then clear_active_task t' (s\<lparr>rg_tasks := hm_insert (tk_id t) t' (rg_tasks s)\<rparr>)
       else s\<lparr>rg_tasks := hm_insert (tk_id t) t' (rg_tasks s)\<rparr>)))"
    if "find ?P (hm_values (rg_tasks s)) = Some t" "rejected_session_task now sid m t = Some t'" for t t' now sid d m
    using found_task [OF both_invD(1) [OF b] that(1)] rejected_session_task_kept [OF that(2)]
      keys_playback_change(2,4) [OF b, of "tk_id t" t t' "Some s" env d] by simp
  show ?thesis
  proof (cases "?sid = [] \<or> \<not> ok \<or> find ?P (hm_values (rg_tasks s)) = None")
    case True
    then show ?thesis using rec both_invD(2) [OF inv] both_invD(2) [OF b]
      by (auto simp: fail_unrestorable_playback_session_after_cache_restore_def Let_def)
  next
    case False
    then obtain t where t: "find ?P (hm_values (rg_tasks s)) = Some t" by blast
    show ?thesis
    proof (cases "rejected_session_task (ev_now env) ?sid message t")
      case None
      with False t rec both_invD(2) [OF b] show ?thesis
        by (simp add: fail_unrestorable_playback_session_after_cache_restore_def Let_def)
    next
      case (Some t')
      with changed [OF t Some, of "durability_required s"] False t rec both_inv_checkpoint [OF b] show ?thesis
        by (simp add: fail_unrestorable_playback_session_after_cache_restore_def Let_def case_prod_unfold
            split del: if_split)
    qed
  qed
qed

lemma fail_unrestorable_keys:
  assumes inv: "both_inv s"
  shows "keys_inv (snd (fail_unrestorable_playback_tasks env playable completed s))"
proof -
  have "works_on_key t' \<longrightarrow> works_on_key t"
    if "unrestorable_task now playable completed t = Some t'" for now t t'
    using unrestorable_task_frame [OF that] that by (auto simp: unrestorable_task_def split: if_splits)
  then show ?thesis
    using keys_change_tasks [OF inv, of "unrestorable_task (ev_now env) playable completed" None env False False]
      unrestorable_task_frame both_invD(2) [OF inv]
    by (simp add: fail_unrestorable_playback_tasks_def persist_tasks_def Let_def)
qed

lemma remove_task_record_keys:
  assumes inv: "both_inv s" and t: "hm_get (rg_tasks s) (tk_id t) = Some t"
  shows "keys_inv (snd (remove_task_record env t s))"
proof -
  let ?t = "failed_playback (ev_now env) PLAYBACK_CACHE_DELETED_MESSAGE t"
  let ?s = "s\<lparr>rg_tasks := hm_remove (tk_id t) (rg_tasks s),
            rg_download_options := hm_remove (tk_id t) (rg_download_options s),
            rg_playback_options := hm_remove (tk_id t) (rg_playback_options s),
            rg_request_context := hm_remove (tk_id t) (rg_request_context s),
            rg_running := hm_remove (tk_id t) (rg_running s),
            rg_planning := hm_remove (tk_id t) (rg_planning s)\<rparr>"
  have "keys_inv (snd (persist_pending env d (Some s) True (stage_publications [?t] ?s)))" for d
    by (rule keys_change_many [OF inv]) (auto simp: entries_at_def split: if_splits)
  then show ?thesis
    by (simp add: remove_task_record_def persist_task_before_destructive_def Let_def case_prod_unfold
        both_inv_checkpoint [OF inv])
qed

lemma delete_cached_result_keys:
  assumes inv: "both_inv s" and t: "hm_get (rg_tasks s) (tk_id t) = Some t" "tk_kind t = BilibiliProgressivePlayback"
  shows "keys_inv (snd (delete_cached_result env ok (with_items now m items t) s))"
  using keys_playback_change(2) [OF inv t, of "with_items now m items t" "Some s"]
    keys_restore_checkpoint [OF both_invD(2) [OF inv]] both_inv_checkpoint [OF inv]
  by (simp add: delete_cached_result_def Let_def case_prod_unfold)

lemma remove_completed_keys:
  assumes inv: "both_inv s"
  shows "keys_inv (snd (remove_completed_playback_task env ok session_id item_id s))"
  using both_invD(2) [OF inv] completed_playback_task_found [OF both_invD(1) [OF inv]]
    playable_task_found [OF both_invD(1) [OF inv]] remove_task_record_keys [OF inv] delete_cached_result_keys [OF inv]
  by (auto simp: remove_completed_playback_task_def Let_def split: option.split prod.split bool.split)

lemma tombstone_keys:
  assumes inv: "both_inv s"
  shows "keys_inv (snd (tombstone_library_item_before_delete env prepared ok updates item_id s))"
proof -
  have "tk_state t' = tk_state t \<or> tk_state t' = Failed" if "tombstoned_task now item updates t = Some t'"
    for now item t t'
    using that by (auto simp: tombstoned_task_def Let_def split: if_splits option.splits)
  then have "tk_id t' = tk_id t \<and> tk_kind t' = tk_kind t \<and> tk_source t' = tk_source t \<and> (works_on_key t' \<longrightarrow> works_on_key t)"
    if "tombstoned_task now item updates t = Some t'" for now item t t'
    using tombstoned_task_frame [OF that] that by (fastforce simp: works_on_key_def is_active_def)
  then show ?thesis
    using keys_change_tasks [OF inv, of _ "Some s"] both_invD(2) [OF inv] both_inv_checkpoint [OF inv]
    by (simp add: tombstone_library_item_before_delete_def persist_tasks_before_destructive_def Let_def
        case_prod_unfold split: sum.split)
qed

lemma retire_keys:
  assumes inv: "both_inv s"
  shows "keys_inv (snd (retire_expired_task_resources_except env expired s))"
proof -
  have "keys_inv (snd (persist_pending env d (Some s) False (stage_publications (changed_tasks change s)
      (change_tasks change s))))" if "change = (\<lambda>t. if tk_id t \<in> set expired
        then Some (t\<lparr>tk_updated_at := Some (ev_now env)\<rparr>) else None)" for change d
    unfolding that by (rule keys_change_tasks [OF inv]) (auto simp: works_on_key_def split: if_splits)
  then show ?thesis
    using both_invD(2) [OF inv] both_inv_checkpoint [OF inv]
    by (simp add: retire_expired_task_resources_except_def persist_tasks_def Let_def case_prod_unfold)
qed

lemma commit_download_keys:
  assumes inv: "both_inv s"
  shows "keys_inv (snd (commit_staged_download_terminal env ok intents checked out st item_id message task_id s))"
proof -
  have "keys_inv (snd (persist_task env (committed_download now st item_id message out t) True (Some s)
      (clear_active_task (committed_download now st item_id message out t)
        (s\<lparr>rg_tasks := hm_insert i (committed_download now st item_id message out t) (rg_tasks s), rg_cleanup_owners := x\<rparr>))))"
    if t: "hm_get (rg_tasks s) i = Some t" and st: "st \<in> {Succeeded, Failed, Cancelled}" for i t now x
  proof -
    have "\<not> works_on_key (committed_download now st item_id message out t)"
      using st by (auto simp: committed_download_def Let_def works_on_key_def is_active_def)
    moreover have "keeps_others i s (clear_active_task (committed_download now st item_id message out t)
        (s\<lparr>rg_tasks := y, rg_cleanup_owners := x\<rparr>))" for y
      using registry_invD(3) [OF both_invD(1) [OF inv] t]
        clear_active_task_others [of "committed_download now st item_id message out t" i
          "s\<lparr>rg_tasks := y, rg_cleanup_owners := x\<rparr>"]
      by (simp add: committed_download_def Let_def keeps_others_def entries_at_def)
    ultimately show ?thesis
      by (intro keys_persist_task(1) [OF inv t]) (simp_all add: committed_download_def Let_def)
  qed
  note changed = this
  show ?thesis
  proof (cases "st \<in> {Succeeded, Failed, Cancelled}")
    case False
    then show ?thesis using both_invD(2) [OF inv] by (simp add: commit_staged_download_terminal_def Let_def)
  next
    case True
    show ?thesis
    proof (cases "hm_get (rg_tasks s) (normalize task_id)")
      case None
      with both_invD(2) [OF inv] show ?thesis
        by (simp add: commit_staged_download_terminal_def Let_def split: sum.split del: insert_iff)
    next
      case (Some t)
      note c = changed [OF Some True]
      with Some both_invD(2) [OF inv] show ?thesis
        by (simp add: commit_staged_download_terminal_def Let_def case_prod_unfold split: sum.split del: insert_iff)
    qed
  qed
qed

lemma directories_keys:
  assumes inv: "both_inv s"
  shows "keys_inv (snd (register_bilibili_owned_output_directories env intents replaced i s))"
    "keys_inv (snd (retry_file_cleanup_intents env answer completed released s))"
proof -
  have "keys_inv (snd (persist_pending env d checkpoint r (stage_publications [] (s\<lparr>rg_cleanup_owners := x\<rparr>))))"
    if "checkpoint = None \<or> checkpoint = Some s" for d checkpoint r x
    by (rule keys_change_many [OF inv _ _ _ that]) (simp_all add: entries_at_def)
  then have c: "keys_inv (snd (persist_pending env d checkpoint r (s\<lparr>rg_cleanup_owners := x\<rparr>)))"
    if "checkpoint = None \<or> checkpoint = Some s" for d checkpoint r x
    using that by simp
  show "keys_inv (snd (register_bilibili_owned_output_directories env intents replaced i s))"
    using both_invD(2) [OF inv] c
    by (simp add: register_bilibili_owned_output_directories_def Let_def case_prod_unfold
        split: sum.split option.split)
  show "keys_inv (snd (retry_file_cleanup_intents env answer completed released s))"
    using both_invD(2) [OF inv] c
    by (simp add: retry_file_cleanup_intents_def Let_def case_prod_unfold durability_checkpoint_def)
qed

lemma fill_keys:
  assumes inv: "both_inv s"
  shows "keys_inv (snd (update_hls_cache_fill_status env ok task_id session_id st s))"
    "keys_inv (snd (update_hls_cache_fill_status_from_verified_completion env ok task_id session_id st s))"
proof -
  have store: "keys_inv (snd (store_fill_status env ok i l st' t s))"
    if "hm_get (rg_tasks s) i = Some t" "tk_kind t = BilibiliProgressivePlayback" for i l st' t
    using keys_playback_change(1) [OF inv that, of "filled_task (ev_now env) l st' t" "Some s"]
      keys_restore_checkpoint [OF both_invD(2) [OF inv]]
    by (simp add: store_fill_status_def Let_def case_prod_unfold)
  have "keys_inv (snd (update_hls_cache_fill_status_inner env ok task_id session_id st verified s))" for verified
    using fill_inner_cases [of env ok task_id session_id st verified s] both_invD(2) [OF inv] store by metis
  then show "keys_inv (snd (update_hls_cache_fill_status env ok task_id session_id st s))"
    "keys_inv (snd (update_hls_cache_fill_status_from_verified_completion env ok task_id session_id st s))"
    using both_invD(2) [OF inv]
    by (simp_all add: update_hls_cache_fill_status_def update_hls_cache_fill_status_from_verified_completion_def)
qed

lemma refresh_keys:
  assumes inv: "both_inv s"
  shows "keys_inv (snd (refresh_hls_playback_source_with_metadata env session_id source session s))"
proof -
  have one: "keys_inv (snd (persist_task env (refreshed_task own l so se t) False None
      (s\<lparr>rg_tasks := hm_insert (tk_id t) (refreshed_task own l so se t) (rg_tasks s)\<rparr>)))"
    if "hm_get (rg_tasks s) (tk_id t) = Some t" "tk_kind t = BilibiliProgressivePlayback" for own l so se t
    using keys_playback_change(1) [OF inv that, of "refreshed_task own l so se t" None] by simp
  show ?thesis
  proof (cases "hm_get (rg_tasks s) (normalize session_id)")
    case (Some t)
    then show ?thesis
      using both_invD(2) [OF inv] one [of t] registry_invD(3) [OF both_invD(1) [OF inv] Some]
      by (simp add: refresh_hls_playback_source_with_metadata_def Let_def)
  next
    case None
    let ?P = "\<lambda>t. tk_kind t = BilibiliProgressivePlayback \<and> (tk_state t = Playable \<or> tk_state t = Completed)
      \<and> list_ex (\<lambda>item. ri_id item = normalize session_id \<and> item_serves_online item) (tk_result_items t)"
    show ?thesis
    proof (cases "find ?P (hm_values (rg_tasks s))")
      case None
      then show ?thesis using \<open>hm_get (rg_tasks s) (normalize session_id) = None\<close> both_invD(2) [OF inv]
        by (simp add: refresh_hls_playback_source_with_metadata_def Let_def)
    next
      case (Some t)
      have "hm_get (rg_tasks s) (tk_id t) = Some t \<and> tk_kind t = BilibiliProgressivePlayback"
        using found_task [OF both_invD(1) [OF inv] Some] by blast
      then show ?thesis
        using Some \<open>hm_get (rg_tasks s) (normalize session_id) = None\<close> both_invD(2) [OF inv] one [of t]
        by (simp add: refresh_hls_playback_source_with_metadata_def Let_def)
    qed
  qed
qed

lemma subscriptions_keys:
  assumes "both_inv s"
  shows "keys_inv (snd (subscribe w ids s))" "keys_inv (snd (recv_task w s))" "keys_inv (unsubscribe w s)"
proof -
  have "keys_inv (s\<lparr>rg_watchers := x\<rparr>)" for x
    using assms keys_inv_cong [of "s\<lparr>rg_watchers := x\<rparr>" s] by (simp add: key_of_task_def both_inv_def)
  moreover have "keys_inv s" using assms by (simp add: both_inv_def)
  ultimately show "keys_inv (snd (subscribe w ids s))" "keys_inv (snd (recv_task w s))" "keys_inv (unsubscribe w s)"
    by (simp_all add: subscribe_def recv_task_def unsubscribe_def Let_def split: option.split list.split)
qed

lemma end_task_keys: "both_inv s \<Longrightarrow> keys_inv (snd (end_task env0 env i e message s))"
  by (cases e) (simp_all add: end_task_def complete_task_succeeded_def complete_task_failed_def
    complete_task_cancelled_def complete_task_keys is_terminal_def)

lemma perform_keys:
  assumes "both_inv s" "registry_step s op s'"
  shows "both_inv s'"
proof -
  have "registry_inv s'"
    using assms perform_good [of s op] by (simp add: both_inv_def registry_step_def good_new_def)
  moreover have "keys_inv s'"
  proof (cases op)
    case (CreatePlaybackV2 env i source options cx title candidates)
    then show ?thesis using assms create_playback_keys [OF assms(1)]
      by (auto simp: registry_step_def create_bilibili_playback_task_v2_def both_inv_def split: sum.split)
  qed (use assms in \<open>simp_all add: registry_step_def create_download_keys create_download_v2_keys
      create_playback_keys create_bilibili_playback_task_def claim_scan_keys try_claim_next_bilibili_task_def
      progress_keys cancel_task_keys end_task_keys playback_keys update_results_keys complete_cached_keys
      fail_after_restart_keys keys_retry retry_pending_persistence_def subscriptions_keys
      fail_completed_keys reject_session_keys fail_unrestorable_keys remove_completed_keys tombstone_keys
      commit_download_keys retire_keys directories_keys fill_keys refresh_keys\<close>)
  ultimately show ?thesis by (simp add: both_inv_def)
qed

interpretation keyed_tasks: step_system starts_empty registry_step both_inv
proof unfold_locales
  fix s assume "starts_empty s"
  then show "both_inv s"
    using empty_registry_inv [of s]
    by (auto simp: both_inv_def keys_inv_def starts_empty_def empty_registry_def)
qed (rule perform_keys)

text \<open>
  C25. At most one download that is being worked on has a key: two live downloads that are not ended
  and that come from the same request (same source, options, context and candidates, as the key
  normalises them) are the same task. So a request that is repeated is answered with its task.
\<close>

theorem one_active_download_per_key:
  assumes "reachable starts_empty registry_step s"
    "hm_get (rg_tasks s) i = Some t" "tk_kind t = BilibiliDownload" "is_active (tk_state t)"
    "hm_get (rg_tasks s) j = Some u" "tk_kind u = BilibiliDownload" "is_active (tk_state u)"
    "key_of_task t s = key_of_task u s"
  shows "i = j"
proof -
  have k: "keys_inv s" using keyed_tasks.reachable_inv [OF assms(1)] by (simp add: both_inv_def)
  have "hm_get (rg_active s) (key_of_task t s) = Some i" "hm_get (rg_active s) (key_of_task u s) = Some j"
    using k assms(2-7) by (simp_all add: keys_inv_def works_on_key_def)
  then show ?thesis using assms(8) by simp
qed

end
