(* ===== verification/Task_Limits.thy ===== *)
theory Task_Limits
  imports Task_Keys
begin

text \<open>
  What the answer of an operation of the task registry means: a creation that is refused has not
  happened, one that succeeds is saved; a commit prunes the ended tasks that are too old and the
  oldest of those that are too many, and no other; a subscriber gets the publications in order until
  its channel is full, and then an error.
\<close>

section \<open>Answers of creations\<close>

definition answer_of :: "('e + 'a) \<times> registry \<Rightarrow> 'e option" where
  "answer_of r = (case fst r of Inl e \<Rightarrow> Some e | Inr _ \<Rightarrow> None)"

fun creation_refusal :: "operation \<Rightarrow> registry \<Rightarrow> status option" where
  "creation_refusal (CreateDownload env i source options) s =
     answer_of (create_bilibili_task env i source options s)"
| "creation_refusal (CreateDownloadV2 env i source options cx title candidates) s =
     answer_of (create_bilibili_download_task_v2 env i source options cx title candidates s)"
| "creation_refusal (CreatePlayback env i source options selection) s =
     answer_of (create_bilibili_playback_task env i source options selection s)"
| "creation_refusal (CreatePlaybackV2 env i source options cx title candidates) s =
     answer_of (create_bilibili_playback_task_v2 env i source options cx title candidates s)"
| "creation_refusal _ s = None"

text \<open>Nothing but the store's own bookkeeping differs.\<close>

definition unchanged :: "registry \<Rightarrow> registry \<Rightarrow> bool" where
  "unchanged s s' \<longleftrightarrow> same_records s s' \<and> rg_visible s' = rg_visible s \<and> rg_watchers s' = rg_watchers s
     \<and> (\<forall>i. hm_get (rg_pending s') i = None \<longleftrightarrow> hm_get (rg_pending s) i = None)"

lemma unchanged_refl [simp]: "unchanged s s"
  by (simp add: unchanged_def same_records_def)

lemma persist_refused_unchanged:
  assumes store: "rg_persistence m \<noteq> None" and run: "persist_task env t d (Some s) m = (out, s')"
    and out: "\<not> is_committed out" and m: "rg_visible m = rg_visible s" "rg_watchers m = rg_watchers s"
  shows "unchanged s s'"
proof -
  have "rg_persistence (stage_publication t m) \<noteq> None" using store by simp
  then show ?thesis
    using run [unfolded persist_task_def]
  proof (cases rule: persist_pending_cases)
    case commits
    with out show ?thesis by (auto simp: is_committed_def)
  next
    case refuses
    with m show ?thesis by (simp add: refused_def unchanged_def)
  qed
qed

text \<open>
  C26. A creation that answers an error has not happened: the live tasks, their options, the keys, the
  queue, the tokens of workers, what readers see and the subscribers are as before, so that the task
  cannot run later and the same request can be made again.
\<close>

theorem refused_creation_unchanged:
  assumes "reachable starts_empty registry_step s" "registry_step s op s'"
    "creation_refusal op s = Some e"
  shows "unchanged s s'"
proof -
  have store: "rg_persistence s \<noteq> None" by (rule registry_invD(2) [OF tasks.reachable_inv [OF assms(1)]])
  have cp: "durability_checkpoint s = Some s" "durability_required s = True"
    using store by (simp_all add: durability_checkpoint_def durability_required_def)
  note refused' = persist_refused_unchanged [OF _ surjective_pairing]
  have s': "s' = perform op s" using assms(2) by (simp add: registry_step_def)
  have playback: "unchanged s (snd (create_playback_record env i source options cx sel title cs deferred s))"
    if "fst (create_playback_record env i source options cx sel title cs deferred s) = Inl e'"
    for env i source options cx sel title cs deferred e'
    using that cp store
    by (auto simp: create_playback_record_def Let_def case_prod_unfold
        intro!: refused' split: option.splits if_splits)
  show ?thesis
  proof (cases op)
    case (CreateDownload env i source options)
    then show ?thesis using assms(3) s' cp store
      by (auto simp: create_bilibili_task_def Let_def case_prod_unfold answer_of_def
          intro!: refused' split: option.splits if_splits sum.splits)
  next
    case (CreateDownloadV2 env i source options cx title candidates)
    then show ?thesis using assms(3) s' cp store
      by (auto simp: create_bilibili_download_task_v2_def Let_def case_prod_unfold answer_of_def
          intro!: refused' split: option.splits if_splits sum.splits)
  next
    case (CreatePlayback env i source options selection)
    then show ?thesis using assms(3) s' playback
      by (auto simp: create_bilibili_playback_task_def answer_of_def split: sum.splits)
  next
    case (CreatePlaybackV2 env i source options cx title candidates)
    then show ?thesis using assms(3) s' playback
      by (auto simp: create_bilibili_playback_task_v2_def answer_of_def split: sum.splits if_splits)
  qed (use assms(3) in simp_all)
qed


section \<open>Retention\<close>

lemma keyed_values:
  assumes wf: "hm_wf m" and ids: "\<forall>i t. hm_get m i = Some t \<longrightarrow> tk_id t = i"
  shows "map fst m = map tk_id (hm_values m)"
proof -
  have "fst p = tk_id (snd p)" if "p \<in> set m" for p
    using that ids hm_get_Some_iff [OF wf, of "fst p" "snd p"] by simp
  then show ?thesis by (simp add: hm_values_def)
qed

lemma keyed_value_get:
  assumes "hm_wf m" "\<forall>i t. hm_get m i = Some t \<longrightarrow> tk_id t = i"
  shows "t \<in> set (hm_values m) \<longleftrightarrow> hm_get m (tk_id t) = Some t"
proof
  assume "t \<in> set (hm_values m)"
  then obtain i where "(i, t) \<in> set m" by (auto simp: hm_values_def)
  then have "hm_get m i = Some t" using hm_get_Some_iff [OF assms(1)] by simp
  with assms(2) show "hm_get m (tk_id t) = Some t" by auto
qed (rule hm_get_in_values)

lemma values_remove_keys:
  assumes wf: "hm_wf m" and ids: "\<forall>i t. hm_get m i = Some t \<longrightarrow> tk_id t = i"
  shows "hm_values (remove_keys ks m) = filter (\<lambda>t. tk_id t \<notin> set ks) (hm_values m)"
proof -
  have "fst p = tk_id (snd p)" if "p \<in> set m" for p
    using that ids hm_get_Some_iff [OF wf, of "fst p" "snd p"] by simp
  then show ?thesis
    unfolding remove_keys_filter hm_values_def filter_map comp_def
    by (intro arg_cong [of _ _ "map snd"] filter_cong) simp_all
qed

lemma filter_not_taken:
  "distinct (map f ys) \<Longrightarrow> filter (\<lambda>x. f x \<notin> f ` set (take k ys)) ys = drop k ys"
proof -
  assume d: "distinct (map f ys)"
  let ?P = "\<lambda>x. f x \<notin> f ` set (take k ys)"
  have "distinct (map f (take k ys) @ map f (drop k ys))"
    using d by (simp only: map_append [symmetric] append_take_drop_id)
  then have disjoint: "f ` set (take k ys) \<inter> f ` set (drop k ys) = {}" by simp
  have "filter ?P (take k ys) = []" by (auto simp: filter_empty_conv)
  moreover have "filter ?P (drop k ys) = drop k ys" using disjoint by (auto simp: filter_id_conv)
  ultimately have "filter ?P (take k ys @ drop k ys) = drop k ys" by (simp only: filter_append append_Nil)
  then show ?thesis by (simp only: append_take_drop_id)
qed

interpretation prune_order: comparison prune_cmp
  unfolding prune_cmp_def Let_def id_cmp_def
  by (intro comparison_then_with;
      rule comparison_by_key [of cmp, OF natural.comparison_axioms])

definition aged :: "retention_policy \<Rightarrow> timestamp \<Rightarrow> task \<Rightarrow> bool" where
  "aged policy now t \<longleftrightarrow> (case rp_max_terminal_task_age policy of
     None \<Rightarrow> False | Some max_age \<Rightarrow> age_exceeds now max_age t)"

definition young_ended :: "retention_policy \<Rightarrow> timestamp \<Rightarrow> (string, task) hmap \<Rightarrow> task list" where
  "young_ended policy now m =
     sort_by prune_cmp (filter (\<lambda>t. \<not> aged policy now t) (filter is_retention_prunable (hm_values m)))"

definition surplus :: "retention_policy \<Rightarrow> task list \<Rightarrow> nat" where
  "surplus policy ts = (case rp_max_terminal_tasks policy of
     None \<Rightarrow> 0 | Some max_tasks \<Rightarrow> length ts - max_tasks)"

lemma ids_to_prune_set:
  assumes wf: "hm_wf m" and ids: "\<forall>i t. hm_get m i = Some t \<longrightarrow> tk_id t = i"
  shows "set (ids_to_prune policy now m)
    = tk_id ` {t \<in> set (hm_values m). is_retention_prunable t \<and> aged policy now t}
      \<union> tk_id ` set (take (surplus policy (young_ended policy now m)) (young_ended policy now m))"
proof -
  let ?prunable = "filter is_retention_prunable (hm_values m)"
  let ?aged = "case rp_max_terminal_task_age policy of None \<Rightarrow> []
      | Some max_age \<Rightarrow> map tk_id (filter (age_exceeds now max_age) ?prunable)"
  have a: "set ?aged = tk_id ` {t \<in> set (hm_values m). is_retention_prunable t \<and> aged policy now t}"
    by (cases "rp_max_terminal_task_age policy") (auto simp: aged_def)
  have inj: "t = u" if "t \<in> set (hm_values m)" "u \<in> set (hm_values m)" "tk_id t = tk_id u" for t u
    using that keyed_value_get [OF wf ids] by auto
  have in_aged: "tk_id t \<in> set ?aged \<longleftrightarrow> aged policy now t" if t: "t \<in> set ?prunable" for t
  proof
    assume "tk_id t \<in> set ?aged"
    with a obtain u where u: "tk_id t = tk_id u" "u \<in> set (hm_values m)" "aged policy now u" by auto
    have "t = u" by (rule inj) (use t u in auto)
    with u show "aged policy now t" by simp
  next
    assume "aged policy now t"
    with t show "tk_id t \<in> set ?aged" unfolding a by auto
  qed
  have "filter (\<lambda>t. tk_id t \<notin> set ?aged) ?prunable = filter (\<lambda>t. \<not> aged policy now t) ?prunable"
    by (rule filter_cong [OF refl]) (simp only: in_aged)
  then have rest: "sort_by prune_cmp (filter (\<lambda>t. tk_id t \<notin> set ?aged) ?prunable) = young_ended policy now m"
    "length (filter (\<lambda>t. tk_id t \<notin> set ?aged) ?prunable) = length (young_ended policy now m)"
    by (simp_all add: young_ended_def)
  have "set (ids_to_prune policy now m) = set ?aged
      \<union> tk_id ` set (take (surplus policy (young_ended policy now m)) (young_ended policy now m))"
    unfolding ids_to_prune_def Let_def rest set_append
    by (cases "rp_max_terminal_tasks policy") (simp_all add: surplus_def)
  with a show ?thesis by simp
qed

lemma young_member: "t \<in> set (young_ended policy now m) \<Longrightarrow> t \<in> set (hm_values m)"
  by (simp add: young_ended_def)

lemma pruned_prunable:
  assumes "hm_wf m" "\<forall>i t. hm_get m i = Some t \<longrightarrow> tk_id t = i"
    "i \<in> set (ids_to_prune policy now m)" "hm_get m i = Some t"
  shows "is_retention_prunable t"
proof -
  obtain u where "u \<in> set (hm_values m)" "tk_id u = i" "is_retention_prunable u"
    using assms(3) unfolding ids_to_prune_set [OF assms(1,2)]
    by (auto dest!: in_set_takeD simp: young_ended_def)
  with assms(4) keyed_value_get [OF assms(1,2)] show ?thesis by auto
qed

text \<open>What is left of the ended tasks are the newest.\<close>

lemma kept_ended:
  assumes wf: "hm_wf m" and ids: "\<forall>i t. hm_get m i = Some t \<longrightarrow> tk_id t = i"
  shows "mset (filter is_retention_prunable (hm_values (remove_keys (ids_to_prune policy now m) m)))
    = mset (drop (surplus policy (young_ended policy now m)) (young_ended policy now m))"
proof -
  let ?young = "young_ended policy now m"
  let ?taken = "set (take (surplus policy ?young) ?young)"
  have inj: "t = u" if "t \<in> set (hm_values m)" "u \<in> set (hm_values m)" "tk_id t = tk_id u" for t u
    using that keyed_value_get [OF wf ids] by auto
  have d: "distinct (map tk_id ?young)"
  proof -
    have "distinct (map tk_id (hm_values m))" using wf keyed_values [OF wf ids] by (simp add: hm_wf_def)
    then have "distinct (map tk_id (filter (\<lambda>t. \<not> aged policy now t) (filter is_retention_prunable (hm_values m))))"
      by (intro distinct_map_filter)
    then show ?thesis
      unfolding young_ended_def by (metis mset_map mset_sort_by distinct_count_atmost_1 mset_eq_imp_distinct_iff)
  qed
  have sub: "?taken \<subseteq> set (hm_values m)" by (auto dest!: in_set_takeD simp: young_ended_def)
  have perm: "mset ?young = mset (filter (\<lambda>t. \<not> aged policy now t) (filter is_retention_prunable (hm_values m)))"
    by (simp only: young_ended_def mset_sort_by)
  have out: "tk_id t \<in> set (ids_to_prune policy now m) \<longleftrightarrow> aged policy now t \<or> tk_id t \<in> tk_id ` ?taken"
    if t: "t \<in> set (hm_values m)" "is_retention_prunable t" for t
    unfolding ids_to_prune_set [OF wf ids] using t inj by auto
  have "filter is_retention_prunable (hm_values (remove_keys (ids_to_prune policy now m) m))
      = filter (\<lambda>t. tk_id t \<notin> tk_id ` ?taken)
          (filter (\<lambda>t. \<not> aged policy now t) (filter is_retention_prunable (hm_values m)))"
    unfolding values_remove_keys [OF wf ids] filter_filter
    by (rule filter_cong [OF refl]) (use out in auto)
  then have "mset (filter is_retention_prunable (hm_values (remove_keys (ids_to_prune policy now m) m)))
      = mset (filter (\<lambda>t. tk_id t \<notin> tk_id ` ?taken) ?young)"
    using perm by (simp only: mset_filter)
  also have "\<dots> = mset (drop (surplus policy ?young) ?young)"
    by (simp only: filter_not_taken [OF d])
  finally show ?thesis .
qed

text \<open>
  C27. A commit that succeeds keeps every task that is not ended (a completed playback included); of the
  ended ones it drops those that are too old and, if more are left than the limit, the oldest: at
  most the limit remain, none of them too old, and each that remains is not older than one that was
  dropped for the limit.
\<close>

theorem retention_bound:
  assumes inv: "records_inv s" and run: "persist_pending env d checkpoint False s = (Durable, s')"
  shows "(\<forall>i t. hm_get (rg_tasks s) i = Some t \<and> \<not> is_retention_prunable t \<longrightarrow> hm_get (rg_tasks s') i = Some t)
    \<and> (\<forall>n. rp_max_terminal_tasks (rg_retention s) = Some n \<longrightarrow>
      length (filter is_retention_prunable (hm_values (rg_tasks s'))) \<le> n)
    \<and> (\<forall>i u. hm_get (rg_tasks s') i = Some u \<and> is_retention_prunable u \<longrightarrow>
      \<not> aged (rg_retention s) (ev_now env) u)
    \<and> (\<forall>i t j u. hm_get (rg_tasks s) i = Some t \<and> hm_get (rg_tasks s') i = None
      \<and> \<not> aged (rg_retention s) (ev_now env) t
      \<and> hm_get (rg_tasks s') j = Some u \<and> is_retention_prunable u \<longrightarrow> prune_cmp t u \<noteq> Greater)"
proof -
  note r = inv [unfolded records_inv_def]
  let ?m = "rg_tasks s" and ?policy = "rg_retention s" and ?now = "ev_now env"
  let ?young = "young_ended ?policy ?now ?m"
  let ?k = "surplus ?policy ?young"
  have wf: "hm_wf ?m" and ids: "\<forall>i t. hm_get ?m i = Some t \<longrightarrow> tk_id t = i" using r by auto
  have tasks: "rg_tasks s' = remove_keys (ids_to_prune ?policy ?now ?m) ?m"
    using r [THEN conjunct1] run by (cases rule: persist_pending_cases) (auto simp: committed_def)
  have wf': "hm_wf (rg_tasks s')" unfolding tasks using wf by simp
  have ids': "\<forall>i t. hm_get (rg_tasks s') i = Some t \<longrightarrow> tk_id t = i"
    unfolding tasks using ids by auto
  have kept: "u \<in> set (drop ?k ?young)" if "hm_get (rg_tasks s') i = Some u" "is_retention_prunable u" for i u
  proof -
    have "u \<in> set (filter is_retention_prunable (hm_values (rg_tasks s')))"
      using that hm_get_in_values by auto
    then show ?thesis using mset_eq_setD [OF kept_ended [OF wf ids, of ?policy ?now]] unfolding tasks by auto
  qed
  have 1: "\<forall>i t. hm_get ?m i = Some t \<and> \<not> is_retention_prunable t \<longrightarrow> hm_get (rg_tasks s') i = Some t"
    unfolding tasks using pruned_prunable [OF wf ids] by auto
  have 2: "\<forall>n. rp_max_terminal_tasks ?policy = Some n \<longrightarrow>
      length (filter is_retention_prunable (hm_values (rg_tasks s'))) \<le> n"
    using mset_eq_length [OF kept_ended [OF wf ids, of ?policy ?now]] unfolding tasks
    by (auto simp: surplus_def)
  have 3: "\<forall>i u. hm_get (rg_tasks s') i = Some u \<and> is_retention_prunable u \<longrightarrow> \<not> aged ?policy ?now u"
  proof (intro allI impI, elim conjE)
    fix i u assume "hm_get (rg_tasks s') i = Some u" "is_retention_prunable u"
    then have "u \<in> set ?young" using kept in_set_dropD by fast
    then show "\<not> aged ?policy ?now u" by (simp add: young_ended_def)
  qed
  have 4: "\<forall>i t j u. hm_get ?m i = Some t \<and> hm_get (rg_tasks s') i = None \<and> \<not> aged ?policy ?now t
      \<and> hm_get (rg_tasks s') j = Some u \<and> is_retention_prunable u \<longrightarrow> prune_cmp t u \<noteq> Greater"
  proof (intro allI impI, elim conjE)
    fix i t j u
    assume t: "hm_get ?m i = Some t" "hm_get (rg_tasks s') i = None" "\<not> aged ?policy ?now t"
      and u: "hm_get (rg_tasks s') j = Some u" "is_retention_prunable u"
    from t(1,2) have i: "i \<in> set (ids_to_prune ?policy ?now ?m)" unfolding tasks by (auto split: if_splits)
    have id: "tk_id t = i" using ids t(1) by blast
    have tv: "t \<in> set (hm_values ?m)" by (rule hm_get_in_values [OF t(1)])
    have "t \<in> set (take ?k ?young)"
    proof -
      from i [unfolded ids_to_prune_set [OF wf ids]] obtain v where v: "tk_id v = i"
        "v \<in> set (hm_values ?m)" "aged ?policy ?now v \<or> v \<in> set (take ?k ?young)"
        using young_member in_set_takeD by fast
      have "v = t" using v id tv keyed_value_get [OF wf ids] by auto
      with v t(3) show ?thesis by auto
    qed
    moreover have "u \<in> set (drop ?k ?young)" by (rule kept [OF u])
    moreover have "sorted_wrt (\<lambda>a b. prune_cmp a b \<noteq> Greater) (take ?k ?young @ drop ?k ?young)"
      using prune_order.sort_by_sorted by (simp add: young_ended_def)
    ultimately show "prune_cmp t u \<noteq> Greater" unfolding sorted_wrt_append by blast
  qed
  show ?thesis using 1 2 3 4 by blast
qed


section \<open>What a creation has saved\<close>

lemma commit_saves:
  assumes inv: "registry_inv s" and run: "persist_task env t d (Some s) m = (out, s')"
    and out: "is_committed out"
    and m: "rg_tasks m = hm_insert (tk_id t) t (rg_tasks s)" "rg_persistence m = rg_persistence s"
    and live: "\<not> is_terminal (tk_state t)"
  shows "hm_get (rg_tasks s') (tk_id t) = Some t \<and> hm_get (rg_visible s') (tk_id t) = Some t
    \<and> hm_get (rg_disk s') (tk_id t) = Some t \<and> rg_pending s' = []"
proof -
  have store: "rg_persistence (stage_publication t m) \<noteq> None" using registry_invD(2) [OF inv] m by simp
  have wf: "hm_wf (rg_tasks (stage_publication t m))"
    and ids: "\<forall>i u. hm_get (rg_tasks (stage_publication t m)) i = Some u \<longrightarrow> tk_id u = i"
    using inv m by (auto simp: registry_inv_def records_inv_def)
  have kept: "tk_id t \<notin> set (ids_to_prune policy now (rg_tasks (stage_publication t m)))" for policy now
    using pruned_prunable [OF wf ids, of "tk_id t" policy now t] live m
    by (auto simp: is_retention_prunable_def)
  show ?thesis
    using store run [unfolded persist_task_def]
  proof (cases rule: persist_pending_cases)
    case commits
    with kept m show ?thesis by (simp add: committed_def)
  next
    case refuses
    with out show ?thesis by (auto simp: is_committed_def)
  qed
qed

lemma create_download_v2_answer:
  "snd (create_bilibili_download_task_v2 env i source options cx title candidates s) = s
    \<or> (\<exists>o' c'. create_bilibili_download_task_v2 env i source options cx title candidates s
        = (let (out, s2) = persist_task env (fst (download_v2_draft env i source o' c' title candidates s)) True
              (Some s) (snd (download_v2_draft env i source o' c' title candidates s))
           in (if is_committed out then Inr (fst (download_v2_draft env i source o' c' title candidates s))
               else Inl Unavailable, s2)))"
  by (auto simp: create_bilibili_download_task_v2_def download_v2_draft_def Let_def
      case_prod_unfold split: option.split sum.split)

definition begins_as :: "operation \<Rightarrow> task_state" where
  "begins_as op = (case op of
     CreateDownload env i source options \<Rightarrow> Queued
   | CreateDownloadV2 env i source options cx title candidates \<Rightarrow> Queued
   | _ \<Rightarrow> Preparing)"

text \<open>
  A creation that does not answer an error either found the task that is being worked on and
  changed nothing, or the new task is live, visible to readers and in the snapshot on disk, in the
  state in which its kind begins, with nothing left to save.
\<close>

theorem accepted_creation_saved:
  assumes "reachable starts_empty registry_step s" "registry_step s op s'"
    "drawn_id op = Some i" "creation_refusal op s = None"
  shows "s' = s \<or> (\<exists>t. tk_id t = i \<and> tk_state t = begins_as op \<and> hm_get (rg_tasks s') i = Some t
    \<and> hm_get (rg_visible s') i = Some t \<and> hm_get (rg_disk s') i = Some t \<and> rg_pending s' = [])"
proof -
  have inv: "registry_inv s" by (rule tasks.reachable_inv [OF assms(1)])
  have store: "rg_persistence s \<noteq> None" by (rule registry_invD(2) [OF inv])
  have cp: "durability_checkpoint s = Some s" "durability_required s = True"
    using store by (simp_all add: durability_checkpoint_def durability_required_def)
  have s': "s' = perform op s" using assms(2) by (simp add: registry_step_def)
  note saves = commit_saves [OF inv surjective_pairing]
  have new: "\<exists>t. tk_id t = i \<and> tk_state t = st \<and> hm_get (rg_tasks r) i = Some t
      \<and> hm_get (rg_visible r) i = Some t \<and> hm_get (rg_disk r) i = Some t \<and> rg_pending r = []"
    if "r = snd (persist_task env (fst d) True (Some s) (snd d))"
      "is_committed (fst (persist_task env (fst d) True (Some s) (snd d)))"
      "tk_id (fst d) = i" "tk_state (fst d) = st" "\<not> is_terminal st"
      "rg_tasks (snd d) = hm_insert i (fst d) (rg_tasks s)" "rg_persistence (snd d) = rg_persistence s"
    for r env d st
    using saves [of env "fst d" True "snd d"] that by (intro exI [of _ "fst d"]) simp
  have playback: "snd (create_playback_record env i source options cx sel title cs deferred s) = s
      \<or> (\<exists>t. tk_id t = i \<and> tk_state t = Preparing
        \<and> hm_get (rg_tasks (snd (create_playback_record env i source options cx sel title cs deferred s))) i = Some t
        \<and> hm_get (rg_visible (snd (create_playback_record env i source options cx sel title cs deferred s))) i = Some t
        \<and> hm_get (rg_disk (snd (create_playback_record env i source options cx sel title cs deferred s))) i = Some t
        \<and> rg_pending (snd (create_playback_record env i source options cx sel title cs deferred s)) = [])"
    if ok: "\<forall>e. fst (create_playback_record env i source options cx sel title cs deferred s) \<noteq> Inl e"
    for env source options cx sel title cs deferred
  proof (cases "snd (create_playback_record env i source options cx sel title cs deferred s) = s")
    case False
    let ?d = "playback_draft env i source options cx sel title cs deferred s"
    have "is_committed (fst (persist_task env (fst ?d) True (Some s) (snd ?d)))"
      using ok False cp
      by (auto simp: create_playback_record_def playback_draft_def Let_def case_prod_unfold
          split: option.splits if_splits)
    moreover have "snd (create_playback_record env i source options cx sel title cs deferred s)
        = snd (persist_task env (fst ?d) True (Some s) (snd ?d))"
      using create_playback_cases [OF inv, of env i source options cx sel title cs deferred] False by blast
    ultimately show ?thesis
      by (intro disjI2 new [where d = ?d and env = env]) (simp_all add: playback_draft_def Let_def is_terminal_def)
  qed simp
  show ?thesis
  proof (cases "s' = s")
    case False
    show ?thesis
    proof (cases op)
      case (CreateDownload env j source options)
      let ?d = "download_draft env i source options s"
      have j: "j = i" using assms(3) CreateDownload by simp
      have "is_committed (fst (persist_task env (fst ?d) True (Some s) (snd ?d)))"
        using assms(4) False s' cp CreateDownload j
        by (auto simp: create_bilibili_task_def download_draft_def Let_def case_prod_unfold answer_of_def
            split: option.splits if_splits sum.splits)
      moreover have "s' = snd (persist_task env (fst ?d) True (Some s) (snd ?d))"
        using create_download_cases [OF inv, of env i source options] False s' CreateDownload j by auto
      ultimately show ?thesis
        using CreateDownload by (intro disjI2 new [where d = ?d and env = env])
          (simp_all add: download_draft_def Let_def is_terminal_def begins_as_def)
    next
      case (CreateDownloadV2 env j source options cx title cs)
      have j: "j = i" using assms(3) CreateDownloadV2 by simp
      obtain o' c' where r: "create_bilibili_download_task_v2 env i source options cx title cs s
          = (let (out, s2) = persist_task env (fst (download_v2_draft env i source o' c' title cs s)) True
              (Some s) (snd (download_v2_draft env i source o' c' title cs s))
             in (if is_committed out then Inr (fst (download_v2_draft env i source o' c' title cs s))
                 else Inl Unavailable, s2))"
        using create_download_v2_answer [of env i source options cx title cs s] False s' CreateDownloadV2 j by auto
      have d: "s' = snd (persist_task env (fst (download_v2_draft env i source o' c' title cs s)) True
            (Some s) (snd (download_v2_draft env i source o' c' title cs s)))"
        "is_committed (fst (persist_task env (fst (download_v2_draft env i source o' c' title cs s)) True
            (Some s) (snd (download_v2_draft env i source o' c' title cs s))))"
        using assms(4) s' CreateDownloadV2 j
        by (simp_all add: r answer_of_def Let_def case_prod_unfold split: if_splits)
      then show ?thesis
        using CreateDownloadV2 by (intro disjI2 new [where d = "download_v2_draft env i source o' c' title cs s" and env = env])
          (simp_all add: download_v2_draft_def Let_def is_terminal_def begins_as_def)
    next
      case (CreatePlayback env j source options selection)
      then show ?thesis using assms(3,4) s' playback [of env source options None selection "[]" "[]" False]
        by (auto simp: create_bilibili_playback_task_def answer_of_def begins_as_def split: sum.splits)
    next
      case (CreatePlaybackV2 env j source options cx title cs)
      then show ?thesis using assms(3,4) s' False playback [of env source options cx None title cs True]
        by (auto simp: create_bilibili_playback_task_v2_def answer_of_def begins_as_def
            split: sum.splits if_splits)
    qed (use assms(3) in simp_all)
  qed simp
qed

section \<open>Subscriptions\<close>

lemma watcher_after_publications:
  "hm_get (rg_watchers s) w = Some v \<Longrightarrow>
    hm_get (rg_watchers (fold publish_task ts s)) w = Some (fold deliver ts v)"
proof (induction ts arbitrary: s v)
  case (Cons t ts)
  have "hm_get (rg_watchers (publish_task t s)) w = Some (deliver t v)"
    using Cons.prems hm_get_map_values [of "\<lambda>_. deliver t" "rg_watchers s" w]
    by (simp add: publish_task_def)
  then show ?case using Cons.IH by simp
qed simp

definition matched :: "subscription \<Rightarrow> task list \<Rightarrow> task list" where
  "matched v ts = filter (watcher_matches v) ts"

lemma deliver_frame [simp]: "watcher_matches (deliver t v) = watcher_matches v"
  by (simp add: deliver_def watcher_matches_def fun_eq_iff)

lemma deliver_closed [simp]: "\<not> ws_open v \<Longrightarrow> fold deliver ts v = v"
  by (induction ts) (simp_all add: deliver_def)

lemma deliver_all:
  assumes "ws_open v" "\<not> ws_lagged v" "length (ws_buffer v) \<le> WATCHER_EVENT_BUFFER_CAPACITY"
  shows "let m = ws_buffer v @ matched v ts; lagged = (WATCHER_EVENT_BUFFER_CAPACITY < length m) in
    fold deliver ts v = v\<lparr>ws_buffer := take WATCHER_EVENT_BUFFER_CAPACITY m, ws_lagged := lagged,
      ws_open := \<not> lagged\<rparr>"
  using assms
proof (induction ts arbitrary: v)
  case Nil
  then show ?case by (simp add: matched_def Let_def)
next
  case (Cons t ts)
  show ?case
  proof (cases "watcher_matches v t")
    case False
    then have "deliver t v = v" by (simp add: deliver_def)
    with Cons False show ?thesis by (simp add: matched_def Let_def)
  next
    case m: True
    show ?thesis
    proof (cases "length (ws_buffer v) < WATCHER_EVENT_BUFFER_CAPACITY")
      case True
      then have d: "deliver t v = v\<lparr>ws_buffer := ws_buffer v @ [t]\<rparr>" using m Cons.prems by (simp add: deliver_def)
      have "watcher_matches (v\<lparr>ws_buffer := b\<rparr>) = watcher_matches v" for b
        by (simp add: watcher_matches_def fun_eq_iff)
      then show ?thesis
        using Cons.IH [of "deliver t v"] Cons.prems True m by (simp add: d matched_def Let_def)
    next
      case False
      then have full: "length (ws_buffer v) = WATCHER_EVENT_BUFFER_CAPACITY" using Cons.prems by simp
      have d: "deliver t v = v\<lparr>ws_lagged := True, ws_open := False\<rparr>"
        using False m Cons.prems by (simp add: deliver_def)
      show ?thesis using m by (simp add: d matched_def Let_def full [symmetric])
    qed
  qed
qed

fun receive_times :: "nat \<Rightarrow> nat \<Rightarrow> registry \<Rightarrow> (status + task) option list" where
  "receive_times 0 w s = []"
| "receive_times (Suc n) w s = (let (answer, s') = recv_task w s in answer # receive_times n w s')"

lemma receive_all:
  "hm_get (rg_watchers s) w = Some v \<Longrightarrow>
    receive_times (length (ws_buffer v) + n) w s = map (Some \<circ> Inr) (ws_buffer v)
      @ replicate n (if ws_open v then None
          else Some (Inl (if ws_lagged v then ResourceExhausted else Unavailable)))"
proof (induction "ws_buffer v" arbitrary: s v)
  case Nil
  have "receive_times n w s = replicate n (if ws_open v then None
      else Some (Inl (if ws_lagged v then ResourceExhausted else Unavailable)))"
    using Nil by (induction n) (simp_all add: recv_task_def)
  with Nil(1) show ?case by simp
next
  case (Cons t rest)
  let ?v = "v\<lparr>ws_buffer := rest\<rparr>"
  let ?s = "s\<lparr>rg_watchers := hm_insert w ?v (rg_watchers s)\<rparr>"
  have r: "recv_task w s = (Some (Inr t), ?s)"
    using Cons.prems Cons.hyps(2) [symmetric] by (simp add: recv_task_def)
  have "receive_times (length (ws_buffer ?v) + n) w ?s = map (Some \<circ> Inr) (ws_buffer ?v)
      @ replicate n (if ws_open ?v then None
          else Some (Inl (if ws_lagged ?v then ResourceExhausted else Unavailable)))"
    by (rule Cons.hyps(1)) simp_all
  then show ?case using Cons.hyps(2) [symmetric] by (simp add: r)
qed

text \<open>
  A subscriber gets the publications of its tasks completely and in their order as long as not more
  than 128 of them are waiting; when more came, it gets the first 128 and after them the error that
  it fell behind, never a sequence with a gap.
\<close>

theorem subscriber_gets_prefix:
  assumes "subscribe w task_ids s = (Inr snapshots, s1)"
  shows "let m = filter (\<lambda>t. task_ids = [] \<or> tk_id t \<in> trim ` set task_ids) ts in
    receive_times (length (take 128 m) + n) w (fold publish_task ts s1)
      = map (Some \<circ> Inr) (take 128 m)
        @ replicate n (if length m \<le> 128 then None else Some (Inl ResourceExhausted))"
proof -
  let ?v = "\<lparr>ws_ids = map trim task_ids, ws_buffer = [], ws_lagged = False, ws_open = True\<rparr>"
  let ?m = "filter (\<lambda>t. task_ids = [] \<or> tk_id t \<in> trim ` set task_ids) ts"
  have s1: "hm_get (rg_watchers s1) w = Some ?v"
    using assms by (auto simp: subscribe_def Let_def split: if_splits)
  have m: "matched ?v ts = ?m"
    unfolding matched_def by (rule filter_cong) (auto simp: watcher_matches_def)
  have "fold deliver ts ?v = ?v\<lparr>ws_buffer := take 128 ?m, ws_lagged := 128 < length ?m,
      ws_open := \<not> 128 < length ?m\<rparr>"
    using deliver_all [of ?v ts] unfolding m by (simp add: Let_def WATCHER_EVENT_BUFFER_CAPACITY_def)
  then show ?thesis
    using receive_all [OF watcher_after_publications [OF s1, of ts], of n] by (simp add: Let_def not_less)
qed

end
