(* ===== verification/Task_Sessions.thy ===== *)
theory Task_Sessions
  imports Task_Limits
begin

text \<open>
  The task registry and the cache of HLS sessions: a session that is served is protected from eviction,
  data of a cancelled task is only given to deletion after the cancellation is durable, and a session
  that is cached becomes the offline result of its task.
\<close>

section \<open>Protection from eviction\<close>

lemma result_session_uses: "session_id \<in> result_item_hls_session_ids item \<Longrightarrow> item \<in> set (tk_result_items t) \<Longrightarrow>
    task_uses_hls_session t session_id"
  by (auto simp: task_uses_hls_session_def)

lemma uses_hls_session_iff: "task_uses_hls_session t session_id \<longleftrightarrow> session_id \<in> playback_hls_session_ids t"
  by (auto simp: task_uses_hls_session_def playback_hls_session_ids_def)

text \<open>
  A session that the registry says is published is kept: its task authorises keeping the cache of
  the session, and it is protected from eviction while the task is playable. For a completed task the
  primary session is the completed item itself (which has its own rule), and a result whose offline
  fill failed but which plays online is served and authorised without being protected.
\<close>

theorem published_session_protected:
  assumes "hls_session_publication_state task_id session_id s = Published"
  shows "task_authorizes_hls_session_for_cleanup session_id s
    \<and> (\<exists>t. hm_get (rg_visible s) (normalize task_id) = Some t
        \<and> (tk_state t = Playable \<and> normalize session_id \<in> protected_hls_cache_session_ids s
          \<or> tk_state t = Completed
            \<and> (normalize session_id \<in> protected_hls_cache_session_ids s
               \<or> primary_hls_session_id t = Some (normalize session_id)
               \<or> (\<exists>item \<in> set (tk_result_items t). item_online_after_fill_failure item
                    \<and> normalize session_id \<in> result_item_hls_session_ids item))))"
proof -
  let ?i = "normalize task_id" and ?s = "normalize session_id"
  obtain t where t: "hm_get (rg_visible s) ?i = Some t" "task_has_playable_hls_session t ?s" "?s \<noteq> []"
    using assms by (auto simp: hls_session_publication_state_def Let_def split: if_splits option.splits)
  have tv: "t \<in> set (hm_values (rg_visible s))" by (rule hm_get_in_values [OF t(1)])
  have kind: "tk_kind t = BilibiliProgressivePlayback" using t(2) by (simp add: task_has_playable_hls_session_def)
  have uses: "task_uses_hls_session t ?s"
    using t(2) by (auto simp: task_has_playable_hls_session_def completed_task_has_playable_result_def
        dest: result_session_uses)
  have state: "tk_state t = Playable \<or> tk_state t = Completed"
    using t(2) by (auto simp: task_has_playable_hls_session_def completed_task_has_playable_result_def)
  have auth: "task_authorizes_hls_session_for_cleanup session_id s"
    using tv kind uses state t(3) by (auto simp: task_authorizes_hls_session_for_cleanup_def Let_def)
  have prot: "?s \<in> protected_sessions_of t \<Longrightarrow> ?s \<in> protected_hls_cache_session_ids s"
    using tv by (auto simp: protected_hls_cache_session_ids_def)
  show ?thesis
  proof (cases "tk_state t = Playable")
    case True
    then have "?s \<in> protected_sessions_of t"
      using uses kind by (simp add: protected_sessions_of_def is_terminal_def uses_hls_session_iff)
    with auth prot t(1) True show ?thesis by blast
  next
    case False
    with state have c: "tk_state t = Completed" by simp
    with t(2) obtain item where item: "item \<in> set (tk_result_items t)" "?s \<in> result_item_hls_session_ids item"
      "ri_state item = Playable \<or> ri_state item = Completed \<or> item_online_after_fill_failure item"
      by (auto simp: task_has_playable_hls_session_def completed_task_has_playable_result_def)
    have "?s \<in> protected_sessions_of t" if "ri_state item = Playable \<or> ri_state item = Completed"
      "primary_hls_session_id t \<noteq> Some ?s"
      using that item c kind by (auto simp: protected_sessions_of_def protected_completed_sessions_def)
    with auth prot t(1) c item show ?thesis by blast
  qed
qed

section \<open>Deletion after a cancellation\<close>

lemma recover_first_durable:
  assumes inv: "registry_inv s0" and run: "recover_first env is_durable s0 = (True, s)"
  shows "persistence_available s"
proof (cases "persistence_lost s0")
  case False
  then show ?thesis using run registry_invD(2) [OF inv]
    by (auto simp: recover_first_def persistence_lost_def persistence_available_def)
next
  case True
  then obtain out where "persist_pending env True None False s0 = (out, s)" "out = Durable"
    using run by (auto simp: recover_first_def is_durable_def split: prod.splits)
  then show ?thesis using retry_commit(4) [OF registry_invD(1) [OF inv]] by blast
qed

text \<open>
  C28. The data of a cancelled playback is deleted only after the cancellation is on disk for good: when
  a cancellation answers a cancelled playback task together with sessions (which the caller then
  deletes), the store is durable and no restart finds the task in another state.
\<close>

theorem sessions_deleted_after_durable_cancel:
  assumes "reachable starts_empty registry_step s0"
    "cancel_task_with_hls_session_ids env0 env output_ok task_id s0 = (Inr co, s')"
    "tk_kind (co_task co) = BilibiliProgressivePlayback" "tk_state (co_task co) = Cancelled"
    "co_sessions co \<noteq> {}"
  shows "persistence_available s' \<and> (state_at (rg_disk s') (normalize task_id) = Some Cancelled
    \<or> state_at (rg_disk s') (normalize task_id) = None)"
proof -
  let ?i = "normalize task_id"
  have inv0: "registry_inv s0" by (rule tasks.reachable_inv [OF assms(1)])
  obtain ok s where rec: "recover_first env0 is_durable s0 = (ok, s)" by fastforce
  have ok: "ok" and i: "?i \<noteq> []" using assms(2) rec
    by (auto simp: cancel_task_with_hls_session_ids_def Let_def split: if_splits)
  have gs: "good_step s0 s" by (rule recover_first_good [OF inv0 rec])
  then have inv: "registry_inv s" by (simp add: good_step_by_def)
  have avail: "persistence_available s" using recover_first_durable [OF inv0] rec ok by simp
  have store: "rg_persistence s \<noteq> None" by (rule registry_invD(2) [OF inv])
  obtain v where v: "hm_get (rg_visible s) ?i = Some v"
    using assms(2) rec ok i by (auto simp: cancel_task_with_hls_session_ids_def Let_def split: option.splits)
  have "(if is_terminal (tk_state v) then (Inr (cancellation_of v), s)
      else if tk_state v \<in> {Running, Preparing, CancelRequested} then cancel_worked_on env ?i v s
      else cancel_idle env output_ok ?i s) = (Inr co, s')"
    using assms(2) rec ok i v by (simp add: cancel_task_with_hls_session_ids_def Let_def del: insert_iff)
  then consider (ended) "co = cancellation_of v" "s' = s"
    | (worked) "cancel_worked_on env ?i v s = (Inr co, s')"
    | (idle) "cancel_idle env output_ok ?i s = (Inr co, s')"
    by (cases "is_terminal (tk_state v)"; cases "tk_state v \<in> {Running, Preparing, CancelRequested}")
      (simp_all only: if_True if_False prod.inject sum.inject simp_thms)
  then show ?thesis
  proof cases
    case ended
    have "state_at (rg_visible s) ?i = state_at (rg_tasks s) ?i" "state_at (rg_disk s) ?i = state_at (rg_tasks s) ?i"
      using registry_invD(4,6) [OF inv] registry_invD(5) [OF inv avail] avail by simp_all
    moreover have "tk_state v = Cancelled" using ended(1) assms(4) by (simp add: cancellation_of_def)
    ultimately show ?thesis using ended(2) avail v by (simp add: state_at_def)
  next
    case worked
    then have "tk_state (co_task co) = CancelRequested"
      by (auto simp: cancel_worked_on_def Let_def cancellation_of_def case_prod_unfold
          split: if_splits option.splits)
    with assms(4) show ?thesis by simp
  next
    case idle
    then obtain t where t: "hm_get (rg_tasks s) ?i = Some t"
      by (auto simp: cancel_idle_def split: option.splits)
    let ?t = "cancelled_task (ev_now env) t"
    let ?m = "clear_active_task ?t (s\<lparr>rg_tasks := hm_insert ?i ?t (rg_tasks s)\<rparr>)"
    let ?sessions = "playback_hls_session_ids t"
    have req: "durability_required s" using store by (simp add: durability_required_def)
    have co: "co = \<lparr>co_task = ?t, co_sessions = ?sessions\<rparr>"
      using idle t by (auto simp: cancel_idle_def Let_def case_prod_unfold split: if_splits)
    then have del: "tk_kind t = BilibiliProgressivePlayback" "?sessions \<noteq> {}" using assms(3,5) by simp_all
    obtain out where run: "persist_task_before_destructive env ?t True (Some s) ?m = (out, s')" "is_durable out"
    proof -
      obtain out s2 where r: "persist_task_before_destructive env ?t True (Some s) ?m = (out, s2)" by fastforce
      have "out = Durable \<and> s' = s2"
        using idle t del req r durability_checkpoint_inv [OF inv]
        by (auto simp: cancel_idle_def Let_def is_durable_def split: if_splits)
      with r that show ?thesis by (auto simp: is_durable_def)
    qed
    have "rg_persistence (stage_publication ?t ?m) \<noteq> None" using store by simp
    then show ?thesis
      using run(1) [unfolded persist_task_before_destructive_def]
    proof (cases rule: persist_pending_cases)
      case commits
      then show ?thesis using run(2) by (auto simp: is_durable_def persistence_available_def committed_def state_at_def)
    next
      case refuses
      with run(2) show ?thesis by (auto simp: is_durable_def)
    qed
  qed
qed

section \<open>Cached sessions\<close>

lemma cached_item_other [simp]:
  "session_id \<notin> result_item_hls_session_ids item \<Longrightarrow> cached_item session_id item_id completed item = item"
  by (simp add: cached_item_def)


end
