(* ===== verification/Task_Examples.thy ===== *)
theory Task_Examples
  imports Task_Sessions
begin

text \<open>
  The theorems on the task registry at concrete runs: two downloads, one of them claimed and ended, a
  store that fails, and a playback that is published, cached, lost and cancelled.
\<close>

section \<open>A run\<close>

definition saves :: environment where
  "saves = \<lparr>ev_now = (1000, 0), ev_save = SavedDurable\<rparr>"

definition fails :: environment where
  "fails = \<lparr>ev_now = (1000, 0), ev_save = SaveFailed False\<rparr>"

definition one_ended :: retention_policy where
  "one_ended = \<lparr>rp_max_terminal_tasks = Some 1, rp_max_terminal_task_age = None\<rparr>"

definition created :: registry where
  "created = perform (CreateDownload saves ''a'' ''BV1'' None) (empty_registry one_ended)"

definition claimed :: registry where
  "claimed = perform (ClaimNext saves) created"

definition cancelling :: registry where
  "cancelling = perform (CancelTask saves saves True ''a'') claimed"

definition ended :: registry where
  "ended = perform (EndTask saves saves ''a'' (EndSucceeded ''item'') ''Done.'') cancelling"

lemma performed:
  "reachable starts_empty registry_step s \<Longrightarrow> drawn_id op = None \<Longrightarrow>
    reachable starts_empty registry_step (perform op s)"
  by (erule reach_step [where l = op]) (simp add: registry_step_def)

lemma created_reachable: "reachable starts_empty registry_step created"
proof -
  have "registry_step (empty_registry one_ended) (CreateDownload saves ''a'' ''BV1'' None) created"
    by (simp add: registry_step_def created_def unknown_id_def empty_registry_def)
  moreover have "starts_empty (empty_registry one_ended)" by (auto simp: starts_empty_def)
  ultimately show ?thesis by (blast intro: reach_step reach_init)
qed

lemma claimed_step: "registry_step created (ClaimNext saves) claimed"
  by (simp add: registry_step_def claimed_def)

lemma claimed_reachable: "reachable starts_empty registry_step claimed"
  using created_reachable claimed_step by (rule reach_step)

lemma ended_run: "exec_run registry_step claimed
    [CancelTask saves saves True ''a'', EndTask saves saves ''a'' (EndSucceeded ''item'') ''Done.''] ended"
  by (auto simp: registry_step_def cancelling_def ended_def simp del: perform.simps intro!: exec_cons exec_nil)

lemma example_states:
  "state_at (rg_tasks created) ''a'' = Some Queued" "state_at (rg_tasks claimed) ''a'' = Some Running"
  "state_at (rg_tasks cancelling) ''a'' = Some CancelRequested"
  "state_at (rg_tasks ended) ''a'' = Some Cancelled" "state_at (rg_visible created) ''a'' = Some Queued"
  "state_at (rg_visible claimed) ''a'' = Some Running" "state_at (rg_disk claimed) ''a'' = Some Running"
  "rg_queued created = [''a'']"
  by code_simp+


section \<open>The life of a task\<close>

lemma some_at: "state_at m i = Some st \<Longrightarrow> \<exists>t. hm_get m i = Some t \<and> tk_state t = st"
  by (auto simp: state_at_def)

theorem registry_well_formed_witness:
  "persistence_available claimed \<and> state_at (rg_disk claimed) ''a'' = state_at (rg_tasks claimed) ''a''"
proof -
  have "persistence_available claimed" by code_simp
  with registry_well_formed [OF claimed_reachable] show ?thesis by blast
qed

theorem readers_see_saved_witness:
  "state_at (rg_visible claimed) ''a'' = state_at (rg_disk claimed) ''a''"
  using readers_see_saved [OF created_reachable claimed_step, of "''a''"] example_states(5,6) by simp

theorem claim_takes_first_ready_witness:
  "\<exists>w s'. try_claim_next_bilibili_task saves created = (Some w, s') \<and> wi_task_id w = ''a'' \<and> rg_queued s' = []"
proof -
  have "find (claim_ready created) (rg_queued created) = Some ''a''" by code_simp
  moreover have "tl (dropWhile (\<lambda>i. \<not> claim_ready created i) (rg_queued created))
      @ filter (claim_held created) (takeWhile (\<lambda>i. \<not> claim_ready created i) (rg_queued created)) = []"
    by code_simp
  ultimately show ?thesis using claim_takes_first_ready [OF created_reachable, of saves] by auto
qed

definition second :: registry where
  "second = perform (CreateDownload saves ''b'' ''BV2'' None) claimed"

lemma second_run: "exec_run registry_step claimed [CreateDownload saves ''b'' ''BV2'' None] second"
proof -
  have "unknown_id ''b'' claimed" by code_simp
  then show ?thesis
    by (auto simp: registry_step_def second_def simp del: perform.simps intro!: exec_cons exec_nil)
qed

definition claim_of :: "registry \<Rightarrow> string" where
  "claim_of s = (case fst (try_claim_next_bilibili_task saves s) of Some w \<Rightarrow> wi_task_id w | None \<Rightarrow> [])"

lemma claim_of_some:
  "claim_of s = i \<Longrightarrow> i \<noteq> [] \<Longrightarrow>
    \<exists>w. try_claim_next_bilibili_task saves s = (Some w, perform (ClaimNext saves) s) \<and> wi_task_id w = i"
  by (cases "try_claim_next_bilibili_task saves s") (auto simp: claim_of_def split: option.splits)

theorem no_task_claimed_twice_witness:
  "\<exists>w w'. fst (try_claim_next_bilibili_task saves created) = Some w
    \<and> fst (try_claim_next_bilibili_task saves second) = Some w' \<and> wi_task_id w' \<noteq> wi_task_id w"
proof -
  have "claim_of created = ''a''" "claim_of second = ''b''" by code_simp+
  then obtain w w' where w: "try_claim_next_bilibili_task saves created = (Some w, claimed)" "wi_task_id w = ''a''"
    and w': "try_claim_next_bilibili_task saves second = (Some w', perform (ClaimNext saves) second)"
    using claim_of_some [of created] claim_of_some [of second] by (auto simp: claimed_def)
  have "wi_task_id w' \<noteq> wi_task_id w"
    by (rule no_task_claimed_twice [OF created_reachable w(1) second_run _ w']) (simp add: w(2))
  moreover have "fst (try_claim_next_bilibili_task saves created) = Some w"
    "fst (try_claim_next_bilibili_task saves second) = Some w'" by (simp_all only: w(1) w' fst_conv)
  ultimately show ?thesis by blast
qed

theorem one_active_download_per_key_witness:
  "hm_get (rg_active second) (download_key ''BV1'' None None []) = Some ''a''
    \<and> (\<exists>t. hm_get (rg_tasks second) ''a'' = Some t \<and> (''a'' :: string) = ''a'')"
proof -
  have r: "reachable starts_empty registry_step second"
    by (rule reachable_exec_run [OF second_run claimed_reachable])
  have "state_at (rg_tasks second) ''a'' = Some Running" by code_simp
  then obtain t where t: "hm_get (rg_tasks second) ''a'' = Some t" "tk_state t = Running"
    using some_at by blast
  have "map_option tk_kind (hm_get (rg_tasks second) ''a'') = Some BilibiliDownload" by code_simp
  with t have k: "tk_kind t = BilibiliDownload" by simp
  have "(''a'' :: string) = ''a''"
    by (rule one_active_download_per_key [OF r t(1) k _ t(1) k]) (simp_all add: t(2) is_active_def)
  moreover have "hm_get (rg_active second) (download_key ''BV1'' None None []) = Some ''a''" by code_simp
  ultimately show ?thesis using t by blast
qed

section \<open>Answers\<close>

theorem refused_creation_unchanged_witness:
  "unchanged claimed (perform (CreateDownload fails ''b'' ''BV2'' None) claimed)"
proof (rule refused_creation_unchanged [OF claimed_reachable])
  have "unknown_id ''b'' claimed" by code_simp
  then show "registry_step claimed (CreateDownload fails ''b'' ''BV2'' None)
      (perform (CreateDownload fails ''b'' ''BV2'' None) claimed)"
    by (simp add: registry_step_def del: perform.simps)
  show "creation_refusal (CreateDownload fails ''b'' ''BV2'' None) claimed = Some Unavailable" by code_simp
qed

theorem accepted_creation_saved_witness:
  "\<exists>t. tk_id t = ''b'' \<and> tk_state t = Queued \<and> hm_get (rg_disk second) ''b'' = Some t"
proof -
  have "unknown_id ''b'' claimed" by code_simp
  then have step: "registry_step claimed (CreateDownload saves ''b'' ''BV2'' None) second"
    by (simp add: registry_step_def second_def del: perform.simps)
  have "creation_refusal (CreateDownload saves ''b'' ''BV2'' None) claimed = None" by code_simp
  moreover have "state_at (rg_tasks claimed) ''b'' = None" "state_at (rg_tasks second) ''b'' = Some Queued"
    by code_simp+
  then have "second \<noteq> claimed" by auto
  ultimately show ?thesis
    using accepted_creation_saved [OF claimed_reachable step] by (auto simp: begins_as_def)
qed

text \<open>A second download that ended later stays, the first one that ended is pruned.\<close>

definition two_ended :: registry where
  "two_ended = (let s = perform (ClaimNext saves) (perform (CreateDownload saves ''b'' ''BV2'' None) ended) in
     perform (EndTask saves (saves\<lparr>ev_now := (2000, 0), ev_save := SaveFailed False\<rparr>) ''b'' EndFailed ''Gone.'') s)"

lemma two_ended_inv: "records_inv two_ended"
proof -
  have e: "reachable starts_empty registry_step ended"
    by (rule reachable_exec_run [OF ended_run claimed_reachable])
  have "unknown_id ''b'' ended" by code_simp
  then have "registry_step ended (CreateDownload saves ''b'' ''BV2'' None)
      (perform (CreateDownload saves ''b'' ''BV2'' None) ended)"
    by (simp add: registry_step_def del: perform.simps)
  with e have "reachable starts_empty registry_step (perform (CreateDownload saves ''b'' ''BV2'' None) ended)"
    by (rule reach_step)
  then have "reachable starts_empty registry_step two_ended"
    unfolding two_ended_def Let_def
    by (intro performed [OF performed, of _ "ClaimNext saves"]) (simp_all del: perform.simps)
  then show ?thesis using tasks.reachable_inv by (simp add: registry_inv_def)
qed

theorem retention_bound_witness:
  "length (filter is_retention_prunable (hm_values (rg_tasks two_ended))) = 2
    \<and> length (filter is_retention_prunable
        (hm_values (rg_tasks (snd (persist_pending saves True None False two_ended))))) \<le> 1"
proof -
  have "fst (persist_pending saves True None False two_ended) = Durable" by code_simp
  then have run: "persist_pending saves True None False two_ended
      = (Durable, snd (persist_pending saves True None False two_ended))"
    by (cases "persist_pending saves True None False two_ended") simp
  have "rp_max_terminal_tasks (rg_retention two_ended) = Some 1" by code_simp
  moreover have "length (filter is_retention_prunable (hm_values (rg_tasks two_ended))) = 2" by code_simp
  ultimately show ?thesis using retention_bound [OF two_ended_inv run] by blast
qed

theorem subscriber_gets_prefix_witness:
  "\<exists>t. receive_times 2 7 (fold publish_task [t, t\<lparr>tk_id := ''b''\<rparr>] (snd (subscribe 7 ['' a''] created)))
      = [Some (Inr t), None] \<and> tk_id t = ''a''"
proof -
  obtain t where t: "hm_get (rg_tasks created) ''a'' = Some t" using some_at [OF example_states(1)] by blast
  have "map_option tk_id (hm_get (rg_tasks created) ''a'') = Some ''a''" by code_simp
  with t have id: "tk_id t = ''a''" by simp
  have "fst (subscribe 7 ['' a''] created) \<noteq> Inl InvalidArgument" by code_simp
  then obtain ts where s: "subscribe 7 ['' a''] created = (Inr ts, snd (subscribe 7 ['' a''] created))"
    by (auto simp: subscribe_def Let_def split: if_splits)
  have tr: "trim '' a'' = ''a''" by code_simp
  have "receive_times (1 + 1) 7 (fold publish_task [t, t\<lparr>tk_id := ''b''\<rparr>] (snd (subscribe 7 ['' a''] created)))
      = [Some (Inr t), None]"
    using subscriber_gets_prefix [OF s, of "[t, t\<lparr>tk_id := ''b''\<rparr>]" 1] by (simp add: id tr Let_def)
  then have "receive_times 2 7 (fold publish_task [t, t\<lparr>tk_id := ''b''\<rparr>] (snd (subscribe 7 ['' a''] created)))
      = [Some (Inr t), None]"
    by (simp only: one_add_one)
  with id show ?thesis by blast
qed

section \<open>Playback\<close>

definition playing :: registry where
  "playing = perform (PlayTask saves ''p'' ''Title''
      \<lparr>so_item_id = ''p'', so_variant_id = ''v'', so_protocol = 2, so_uri = ''u'', so_expires_at = None\<rparr>
      \<lparr>se_id = ''p'', se_selected_variant_id = ''v'', se_details = []\<rparr>)
    (perform (CreatePlayback saves ''p'' ''BV9'' None None) (empty_registry one_ended))"

lemma playing_reachable: "reachable starts_empty registry_step playing"
proof -
  have "registry_step (empty_registry one_ended) (CreatePlayback saves ''p'' ''BV9'' None None)
      (perform (CreatePlayback saves ''p'' ''BV9'' None None) (empty_registry one_ended))"
    by (simp add: registry_step_def unknown_id_def empty_registry_def)
  moreover have "starts_empty (empty_registry one_ended)" by (auto simp: starts_empty_def)
  ultimately have "reachable starts_empty registry_step
      (perform (CreatePlayback saves ''p'' ''BV9'' None None) (empty_registry one_ended))"
    by (blast intro: reach_step reach_init)
  then show ?thesis
    unfolding playing_def by (rule performed) simp
qed

text \<open>
  A completed playback whose session turns out to be lost, and a download that has ended and is not
  ended again.
\<close>

definition cached :: registry where
  "cached = perform (CacheSession saves saves ''p'' ''p'' ''item'' None) playing"

definition lost :: registry where
  "lost = perform (FailCompleted saves ''p'' ''The cached session is gone.'') cached"

definition ended_again :: registry where
  "ended_again = perform (EndTask saves saves ''a'' EndFailed ''Failed.'') ended"

lemma lost_run: "exec_run registry_step cached [FailCompleted saves ''p'' ''The cached session is gone.''] lost"
  by (auto simp: registry_step_def lost_def simp del: perform.simps intro!: exec_cons exec_nil)

lemma ended_again_run: "exec_run registry_step ended [EndTask saves saves ''a'' EndFailed ''Failed.''] ended_again"
  by (auto simp: registry_step_def ended_again_def simp del: perform.simps intro!: exec_cons exec_nil)

lemma lost_states:
  "state_at (rg_tasks cached) ''p'' = Some Completed" "state_at (rg_tasks lost) ''p'' = Some Failed"
  "(case hm_get (rg_tasks ended_again) ''a'' of None \<Rightarrow> False | Some t \<Rightarrow> True)"
  by code_simp+

theorem task_life_witness:
  "(\<exists>t u. hm_get (rg_tasks claimed) ''a'' = Some t \<and> tk_state t = Running
      \<and> hm_get (rg_tasks ended) ''a'' = Some u \<and> tk_state u = Cancelled \<and> tk_kind u = tk_kind t)
    \<and> (\<exists>u. hm_get (rg_tasks ended_again) ''a'' = Some u \<and> tk_state u = Cancelled)
    \<and> (\<exists>t u. hm_get (rg_tasks cached) ''p'' = Some t \<and> tk_state t = Completed
      \<and> hm_get (rg_tasks lost) ''p'' = Some u \<and> tk_state u = Failed \<and> tk_source u = tk_source t)"
proof (intro conjI)
  obtain v where v: "hm_get (rg_tasks ended) ''a'' = Some v" "tk_state v = Cancelled"
    using some_at [OF example_states(4)] by blast
  have "\<exists>t. hm_get (rg_tasks claimed) ''a'' = Some t \<and> tk_kind v = tk_kind t"
    using task_life [OF claimed_reachable ended_run _ v(1)] by auto
  with v some_at [OF example_states(2)] show "\<exists>t u. hm_get (rg_tasks claimed) ''a'' = Some t \<and> tk_state t = Running
      \<and> hm_get (rg_tasks ended) ''a'' = Some u \<and> tk_state u = Cancelled \<and> tk_kind u = tk_kind t" by auto
  have r: "reachable starts_empty registry_step ended"
    by (rule reachable_exec_run [OF ended_run claimed_reachable])
  obtain w where w: "hm_get (rg_tasks ended_again) ''a'' = Some w"
    using lost_states(3) by (auto split: option.splits)
  have "tk_state w = Cancelled"
    using task_life [OF r ended_again_run _ w] v by (auto simp: is_terminal_def)
  with w show "\<exists>u. hm_get (rg_tasks ended_again) ''a'' = Some u \<and> tk_state u = Cancelled" by blast
  have c: "reachable starts_empty registry_step cached"
    unfolding cached_def by (rule performed [OF playing_reachable]) simp
  obtain x where x: "hm_get (rg_tasks lost) ''p'' = Some x" "tk_state x = Failed"
    using some_at [OF lost_states(2)] by blast
  have "\<exists>t. hm_get (rg_tasks cached) ''p'' = Some t \<and> tk_source x = tk_source t"
    using task_life [OF c lost_run _ x(1)] by auto
  with x some_at [OF lost_states(1)] show "\<exists>t u. hm_get (rg_tasks cached) ''p'' = Some t \<and> tk_state t = Completed
      \<and> hm_get (rg_tasks lost) ''p'' = Some u \<and> tk_state u = Failed \<and> tk_source u = tk_source t" by auto
qed

theorem published_session_protected_witness:
  "''p'' \<in> protected_hls_cache_session_ids playing"
proof -
  have "hls_session_publication_state ''p'' ''p'' playing = Published" by code_simp
  note p = published_session_protected [OF this]
  have "state_at (rg_visible playing) ''p'' = Some Playable" "normalize ''p'' = ''p''" by code_simp+
  with p show ?thesis by (auto simp: state_at_def)
qed

theorem sessions_deleted_after_durable_cancel_witness:
  "persistence_available (perform (CancelTask saves saves True ''p'') playing)"
proof -
  let ?r = "cancel_task_with_hls_session_ids saves saves True ''p'' playing"
  have "(case fst ?r of Inl e \<Rightarrow> False
      | Inr co \<Rightarrow> tk_kind (co_task co) = BilibiliProgressivePlayback \<and> tk_state (co_task co) = Cancelled
          \<and> ''p'' \<in> co_sessions co)" by code_simp
  then obtain co where co: "?r = (Inr co, snd ?r)" "tk_kind (co_task co) = BilibiliProgressivePlayback"
    "tk_state (co_task co) = Cancelled" "''p'' \<in> co_sessions co"
    by (cases ?r) (auto split: sum.splits)
  then have "co_sessions co \<noteq> {}" by auto
  with sessions_deleted_after_durable_cancel [OF playing_reachable co(1,2,3)] show ?thesis by simp
qed

end
