(* ===== verification/Rust_Float.thy ===== *)
theory Rust_Float
  imports Rust_Text
begin

text \<open>
  Rust's \<open>f64\<close> as far as the sources use it: parsing of text (\<open>str::parse::<f64>\<close>), division, the
  test \<open>is_finite\<close> and the comparison with a constant. A finite value is an exact \<open>m * 2 ^ e\<close>; parsing
  and division round to the nearest such value with a mantissa of 53 bits, ties to even, with the
  exponents of the format. Zero has no sign here: no operation used can tell the two zeros apart.
\<close>

section \<open>Values\<close>

datatype f64 = F64 int int | F64_Infinite bool | F64_NaN

definition f64_zero :: f64 where
  "f64_zero = F64 0 0"

definition is_finite :: "f64 \<Rightarrow> bool" where
  "is_finite x = (case x of F64 m e \<Rightarrow> True | _ \<Rightarrow> False)"

text \<open>\<open>x <= 0.0\<close>, and \<open>x > c\<close> for a whole number \<open>c\<close>.\<close>

definition f64_le_zero :: "f64 \<Rightarrow> bool" where
  "f64_le_zero x = (case x of F64 m e \<Rightarrow> m \<le> 0 | F64_Infinite neg \<Rightarrow> neg | F64_NaN \<Rightarrow> False)"

definition f64_greater :: "f64 \<Rightarrow> int \<Rightarrow> bool" where
  "f64_greater x c =
     (case x of
        F64 m e \<Rightarrow> if 0 \<le> e then m * 2 ^ nat e > c else m > c * 2 ^ nat (- e)
      | F64_Infinite neg \<Rightarrow> \<not> neg
      | F64_NaN \<Rightarrow> False)"

section \<open>Rounding\<close>

text \<open>The number of binary digits of a number.\<close>

function bit_length :: "int \<Rightarrow> int" where
  "bit_length n = (if n \<le> 0 then 0 else 1 + bit_length (n div 2))"
  by pat_completeness auto
termination by (relation "measure nat") auto

declare bit_length.simps [simp del]

text \<open>The quotient \<open>num / den / 2 ^ e\<close> as a pair.\<close>

definition scaled :: "int \<Rightarrow> int \<Rightarrow> int \<Rightarrow> int \<times> int" where
  "scaled num den e = (if 0 \<le> e then (num, den * 2 ^ nat e) else (num * 2 ^ nat (- e), den))"

definition round_half_even :: "int \<Rightarrow> int \<Rightarrow> int" where
  "round_half_even a b =
     (let q = a div b; r = a mod b in
      if 2 * r > b \<or> (2 * r = b \<and> odd q) then q + 1 else q)"

definition rounding_exponent :: "int \<Rightarrow> int \<Rightarrow> int" where
  "rounding_exponent num den =
     (let e = bit_length num - bit_length den - 53;
          (a, b) = scaled num den e in
      max (- 1074) (if a div b \<ge> 2 ^ 53 then e + 1 else e))"

text \<open>The \<open>f64\<close> nearest to \<open>num / den\<close>, both positive, or its negative.\<close>

definition round_f64 :: "bool \<Rightarrow> int \<Rightarrow> int \<Rightarrow> f64" where
  "round_f64 neg num den =
     (if num = 0 then f64_zero
      else let e = rounding_exponent num den; (a, b) = scaled num den e; m = round_half_even a b in
        if e > 971 \<or> (e = 971 \<and> m \<ge> 2 ^ 53) then F64_Infinite neg
        else F64 (if neg then - m else m) e)"

section \<open>Division\<close>

definition f64_div :: "f64 \<Rightarrow> f64 \<Rightarrow> f64" where
  "f64_div x y =
     (case x of
        F64_NaN \<Rightarrow> F64_NaN
      | F64_Infinite a \<Rightarrow> (case y of F64 m e \<Rightarrow> F64_Infinite (a \<noteq> (m < 0)) | _ \<Rightarrow> F64_NaN)
      | F64 m e \<Rightarrow>
          (case y of
             F64_NaN \<Rightarrow> F64_NaN
           | F64_Infinite b \<Rightarrow> f64_zero
           | F64 n f \<Rightarrow>
               if n = 0 then (if m = 0 then F64_NaN else F64_Infinite (m < 0))
               else round_f64 ((m < 0) \<noteq> (n < 0))
                 (\<bar>m\<bar> * 2 ^ nat (e - f)) (\<bar>n\<bar> * 2 ^ nat (f - e))))"

section \<open>Parsing\<close>

text \<open>The digits at the front of a text, with the number they stand for and how many they are.\<close>

fun take_digits :: "string \<Rightarrow> int \<Rightarrow> nat \<Rightarrow> int \<times> nat \<times> string" where
  "take_digits [] acc n = (acc, n, [])"
| "take_digits (c # cs) acc n =
     (case digit_value c of
        Some d \<Rightarrow> take_digits cs (acc * 10 + int d) (Suc n)
      | None \<Rightarrow> (acc, n, c # cs))"

definition split_sign :: "string \<Rightarrow> bool \<times> string" where
  "split_sign s =
     (case s of
        c # cs \<Rightarrow> if c = CHR ''-'' then (True, cs) else if c = CHR ''+'' then (False, cs) else (False, s)
      | [] \<Rightarrow> (False, []))"

text \<open>The exponent part: absent, or \<open>e\<close> with an optional sign and at least one digit.\<close>

definition parse_exponent :: "string \<Rightarrow> int option" where
  "parse_exponent s =
     (case s of
        [] \<Rightarrow> Some 0
      | c # cs \<Rightarrow>
          if ascii_lower c \<noteq> CHR ''e'' then None
          else case split_sign cs of (neg, ds) \<Rightarrow>
            (case take_digits ds 0 0 of (v, n, rest) \<Rightarrow>
               if n = 0 \<or> rest \<noteq> [] then None else Some (if neg then - v else v)))"

text \<open>Digits with an optional point, then the exponent: \<open>num / den\<close>.\<close>

definition parse_decimal :: "string \<Rightarrow> (int \<times> int) option" where
  "parse_decimal s =
     (case take_digits s 0 0 of (whole, n, rest) \<Rightarrow>
      case (case rest of
              c # cs \<Rightarrow> if c = CHR ''.'' then take_digits cs whole n else (whole, n, rest)
            | [] \<Rightarrow> (whole, n, [])) of (digits, k, tail) \<Rightarrow>
        if k = 0 then None
        else map_option (\<lambda>x. let y = x - int (k - n) in
            (digits * 10 ^ nat y, 10 ^ nat (- y))) (parse_exponent tail))"

definition parse_f64 :: "string \<Rightarrow> f64 option" where
  "parse_f64 s =
     (case split_sign s of (neg, body) \<Rightarrow>
        if body = [] then None
        else case parse_decimal body of
          Some (num, den) \<Rightarrow> Some (round_f64 neg num den)
        | None \<Rightarrow>
            let w = map ascii_lower body in
            if w = ''nan'' then Some F64_NaN
            else if w = ''inf'' \<or> w = ''infinity'' then Some (F64_Infinite neg)
            else None)"

end
