(* ===== verification/Playback_Variants.thy ===== *)
theory Playback_Variants
  imports Rust_Float Cdn_History Network_Policy
begin

text \<open>
  The playback variants that the download adapter plans (\<open>BilibiliPlaybackVariant\<close> and its parts in
  \<open>bbdown_adapter.rs\<close>), the codec tests of \<open>codecs.rs\<close>, and \<open>playback_policy.rs\<close>: a request's playback
  policy with its conversion from and to the message, and the test that a variant stays within
  the H.264/AAC profile that AVPlayer plays.
\<close>

section \<open>Variants\<close>

record http_header =
  hd_name :: string
  hd_value :: string

text \<open>\<open>BilibiliMediaRequest\<close> with the fields that the history does not read.\<close>

record adapter_request = media_request +
  mr_headers :: "http_header list"
  mr_mime_type :: "string option"
  mr_frame_rate :: "string option"

datatype variant_kind = Dash | Flv

record abr_level =
  al_group_id :: string
  al_level_index :: nat
  al_level_count :: nat
  al_switchable :: bool

record playback_variant =
  pv_id :: string
  pv_kind :: variant_kind
  pv_content_id :: string
  pv_bandwidth :: "nat option"
  pv_codecs :: "string list"
  pv_mime_types :: "string list"
  pv_width :: "nat option"
  pv_height :: "nat option"
  pv_frame_rate :: "string option"
  pv_duration_seconds :: "nat option"
  pv_abr :: "abr_level option"
  pv_video :: "adapter_request option"
  pv_audio :: "adapter_request option"
  pv_flv_segments :: "adapter_request list"

datatype abr_group_kind = DashVideo | DashAudioOnly

record abr_group =
  ag_id :: string
  ag_kind :: abr_group_kind
  ag_variant_ids :: "string list"
  ag_level_count :: nat
  ag_min_bandwidth :: "nat option"
  ag_max_bandwidth :: "nat option"

text \<open>A planned entry, with the fields that the playback sessions read.\<close>

record playback_entry =
  pe_aid :: nat
  pe_bvid :: "string option"
  pe_cid :: nat
  pe_epid :: "nat option"
  pe_variants :: "playback_variant list"

section \<open>Codecs\<close>

definition codec_list_matches :: "string \<Rightarrow> (string \<Rightarrow> bool) \<Rightarrow> bool" where
  "codec_list_matches codecs p = list_ex p (split_on CHR '','' codecs)"

definition is_h264_codec :: "string \<Rightarrow> bool" where
  "is_h264_codec codec =
     (let c = map ascii_lower (trim codec) in
      strip_prefix ''avc1'' c \<noteq> None \<or> strip_prefix ''avc3'' c \<noteq> None)"

text \<open>\<open>str::parse::<u8>\<close>.\<close>

definition parse_u8 :: "string \<Rightarrow> nat option" where
  "parse_u8 s = (case parse_u64 s of Some n \<Rightarrow> if n \<le> 255 then Some n else None | None \<Rightarrow> None)"

definition AAC_OBJECT_TYPES :: "nat list" where
  "AAC_OBJECT_TYPES = [1, 2, 3, 4, 5, 6, 17, 19, 20, 23, 29, 39, 42]"

definition is_aac_codec :: "string \<Rightarrow> bool" where
  "is_aac_codec codec =
     (case strip_prefix ''mp4a.40.'' (map ascii_lower (trim codec)) of
        None \<Rightarrow> False
      | Some audio_object_type \<Rightarrow>
          (case parse_u8 audio_object_type of Some n \<Rightarrow> n \<in> set AAC_OBJECT_TYPES | None \<Rightarrow> False))"

section \<open>The playback policy\<close>

datatype transcoding_preference = TranscodeAuto | TranscodeNever | TranscodeForce

datatype compatible_variant_preference = PreferCompatible | PreferRequested

record playback_policy =
  pp_transcoding_preference :: transcoding_preference
  pp_compatible_variant_preference :: compatible_variant_preference
  pp_weak_network_preference :: weak_network_preference

definition default_playback_policy :: playback_policy where
  "default_playback_policy =
     \<lparr>pp_transcoding_preference = TranscodeAuto, pp_compatible_variant_preference = PreferCompatible,
      pp_weak_network_preference = Adaptive\<rparr>"

text \<open>The message carries each preference as an \<open>i32\<close>; the numbers are those of \<open>cache_control.proto\<close>.\<close>

record proto_policy =
  rp_transcoding_preference :: int
  rp_compatible_variant_preference :: int
  rp_weak_network_preference :: int

record policy_error =
  er_field :: string
  er_value :: int

definition transcoding_from_proto :: "int \<Rightarrow> int + transcoding_preference" where
  "transcoding_from_proto v =
     (if v = 2 then Inr TranscodeNever else if v = 3 then Inr TranscodeForce
      else if v = 0 \<or> v = 1 then Inr TranscodeAuto else Inl v)"

fun transcoding_to_proto :: "transcoding_preference \<Rightarrow> int" where
  "transcoding_to_proto TranscodeAuto = 1"
| "transcoding_to_proto TranscodeNever = 2"
| "transcoding_to_proto TranscodeForce = 3"

definition compatible_from_proto :: "int \<Rightarrow> int + compatible_variant_preference" where
  "compatible_from_proto v =
     (if v = 2 then Inr PreferRequested else if v = 0 \<or> v = 1 then Inr PreferCompatible else Inl v)"

fun compatible_to_proto :: "compatible_variant_preference \<Rightarrow> int" where
  "compatible_to_proto PreferCompatible = 1"
| "compatible_to_proto PreferRequested = 2"

definition weak_network_from_proto :: "int \<Rightarrow> int + weak_network_preference" where
  "weak_network_from_proto v =
     (if v = 2 then Inr HoldDowngrade else if v = 3 then Inr AvPlayerManaged
      else if v = 0 \<or> v = 1 then Inr Adaptive else Inl v)"

fun weak_network_to_proto :: "weak_network_preference \<Rightarrow> int" where
  "weak_network_to_proto Adaptive = 1"
| "weak_network_to_proto HoldDowngrade = 2"
| "weak_network_to_proto AvPlayerManaged = 3"

definition map_err :: "('e \<Rightarrow> 'f) \<Rightarrow> 'e + 'a \<Rightarrow> 'f + 'a" where
  "map_err f r = (case r of Inl e \<Rightarrow> Inl (f e) | Inr x \<Rightarrow> Inr x)"

definition result_bind :: "'e + 'a \<Rightarrow> ('a \<Rightarrow> 'e + 'b) \<Rightarrow> 'e + 'b" where
  "result_bind r f = (case r of Inl e \<Rightarrow> Inl e | Inr x \<Rightarrow> f x)"

definition policy_from_proto :: "proto_policy option \<Rightarrow> policy_error + playback_policy" where
  "policy_from_proto policy =
     (case policy of
        None \<Rightarrow> Inr default_playback_policy
      | Some p \<Rightarrow>
          result_bind (map_err (\<lambda>v. \<lparr>er_field = ''transcoding_preference'', er_value = v\<rparr>)
            (transcoding_from_proto (rp_transcoding_preference p))) (\<lambda>t.
          result_bind (map_err (\<lambda>v. \<lparr>er_field = ''compatible_variant_preference'', er_value = v\<rparr>)
            (compatible_from_proto (rp_compatible_variant_preference p))) (\<lambda>c.
          result_bind (map_err (\<lambda>v. \<lparr>er_field = ''weak_network_preference'', er_value = v\<rparr>)
            (weak_network_from_proto (rp_weak_network_preference p))) (\<lambda>w.
          Inr \<lparr>pp_transcoding_preference = t, pp_compatible_variant_preference = c,
               pp_weak_network_preference = w\<rparr>))))"

definition policy_to_proto :: "playback_policy \<Rightarrow> proto_policy" where
  "policy_to_proto p =
     \<lparr>rp_transcoding_preference = transcoding_to_proto (pp_transcoding_preference p),
      rp_compatible_variant_preference = compatible_to_proto (pp_compatible_variant_preference p),
      rp_weak_network_preference = weak_network_to_proto (pp_weak_network_preference p)\<rparr>"

section \<open>The profile\<close>

definition LAN_TRANSCODING_MAX_WIDTH :: nat where "LAN_TRANSCODING_MAX_WIDTH = 1920"

definition LAN_TRANSCODING_MAX_HEIGHT :: nat where "LAN_TRANSCODING_MAX_HEIGHT = 1080"

definition LAN_TRANSCODING_MAX_FRAME_RATE :: int where "LAN_TRANSCODING_MAX_FRAME_RATE = 60"

definition LAN_TRANSCODING_MAX_VIDEO_BANDWIDTH_BPS :: nat where
  "LAN_TRANSCODING_MAX_VIDEO_BANDWIDTH_BPS = 10000000"

definition LAN_TRANSCODING_AUDIO_BANDWIDTH_BPS :: nat where
  "LAN_TRANSCODING_AUDIO_BANDWIDTH_BPS = 128000"

lemmas profile_consts = LAN_TRANSCODING_MAX_WIDTH_def LAN_TRANSCODING_MAX_HEIGHT_def
  LAN_TRANSCODING_MAX_FRAME_RATE_def LAN_TRANSCODING_MAX_VIDEO_BANDWIDTH_BPS_def
  LAN_TRANSCODING_AUDIO_BANDWIDTH_BPS_def

definition transcoding_profile_total_bandwidth :: "bool \<Rightarrow> nat" where
  "transcoding_profile_total_bandwidth has_audio =
     LAN_TRANSCODING_MAX_VIDEO_BANDWIDTH_BPS
     + (if has_audio then LAN_TRANSCODING_AUDIO_BANDWIDTH_BPS else 0)"

definition bounded_u32_with_evidence :: "nat option \<Rightarrow> nat option \<Rightarrow> nat \<Rightarrow> bool" where
  "bounded_u32_with_evidence a b limit =
     (let values = List.map_filter id [a, b] in
      values \<noteq> [] \<and> list_all (\<lambda>v. 0 < v \<and> v \<le> limit) values)"

definition bounded_optional_u64 :: "nat option \<Rightarrow> nat \<Rightarrow> bool" where
  "bounded_optional_u64 v limit = (case v of None \<Rightarrow> True | Some x \<Rightarrow> 0 < x \<and> x \<le> limit)"

definition audio_bandwidth :: "playback_variant \<Rightarrow> nat option" where
  "audio_bandwidth variant = Option.bind (pv_audio variant) mr_bandwidth"

definition bounded_bandwidth_with_evidence :: "playback_variant \<Rightarrow> adapter_request \<Rightarrow> bool" where
  "bounded_bandwidth_with_evidence variant video =
     (let has_component_evidence =
            mr_bandwidth video \<noteq> None \<and> (pv_audio variant = None \<or> audio_bandwidth variant \<noteq> None) in
      (pv_bandwidth variant \<noteq> None \<or> has_component_evidence)
      \<and> bounded_optional_u64 (pv_bandwidth variant)
          (transcoding_profile_total_bandwidth (pv_audio variant \<noteq> None))
      \<and> bounded_optional_u64 (mr_bandwidth video) LAN_TRANSCODING_MAX_VIDEO_BANDWIDTH_BPS
      \<and> bounded_optional_u64 (audio_bandwidth variant) LAN_TRANSCODING_AUDIO_BANDWIDTH_BPS)"

definition parse_frame_rate :: "string \<Rightarrow> f64 option" where
  "parse_frame_rate frame_rate =
     (case split_once CHR ''/'' frame_rate of
        Some (n, d) \<Rightarrow>
          Option.bind (parse_f64 (trim n)) (\<lambda>numerator.
          Option.bind (parse_f64 (trim d)) (\<lambda>denominator.
            if f64_le_zero denominator then None
            else let parsed = f64_div numerator denominator in
              if is_finite parsed then Some parsed else None))
      | None \<Rightarrow>
          (case parse_f64 frame_rate of
             Some rate \<Rightarrow> if is_finite rate then Some rate else None
           | None \<Rightarrow> None))"

definition frame_rate_within :: "string \<Rightarrow> bool" where
  "frame_rate_within frame_rate =
     (case parse_frame_rate (trim frame_rate) of
        None \<Rightarrow> False
      | Some rate \<Rightarrow> \<not> (f64_le_zero rate \<or> f64_greater rate LAN_TRANSCODING_MAX_FRAME_RATE))"

definition bounded_frame_rate_with_evidence :: "string option \<Rightarrow> string option \<Rightarrow> bool" where
  "bounded_frame_rate_with_evidence a b =
     (let rates = List.map_filter id [a, b] in rates \<noteq> [] \<and> list_all frame_rate_within rates)"

definition variant_is_within_transcoding_profile_envelope ::
  "playback_variant \<Rightarrow> adapter_request \<Rightarrow> bool" where
  "variant_is_within_transcoding_profile_envelope variant video =
     (bounded_u32_with_evidence (pv_width variant) (mr_width video) LAN_TRANSCODING_MAX_WIDTH
      \<and> bounded_u32_with_evidence (pv_height variant) (mr_height video) LAN_TRANSCODING_MAX_HEIGHT
      \<and> bounded_frame_rate_with_evidence (pv_frame_rate variant) (mr_frame_rate video)
      \<and> bounded_bandwidth_with_evidence variant video)"

text \<open>\<open>u8::from_str_radix(text, 16)\<close> on two hexadecimal digits.\<close>

definition hex_value :: "char \<Rightarrow> nat option" where
  "hex_value c =
     (let b = (of_char c :: nat) in
      if 48 \<le> b \<and> b \<le> 57 then Some (b - 48)
      else if 65 \<le> b \<and> b \<le> 70 then Some (b - 55)
      else if 97 \<le> b \<and> b \<le> 102 then Some (b - 87)
      else None)"

definition hex_byte :: "string \<Rightarrow> nat" where
  "hex_byte s = foldl (\<lambda>acc c. acc * 16 + (case hex_value c of Some d \<Rightarrow> d | None \<Rightarrow> 0)) 0 s"

definition h264_profile_is_within_transcoding_profile :: "nat \<Rightarrow> bool" where
  "h264_profile_is_within_transcoding_profile profile_idc \<longleftrightarrow> profile_idc \<in> set [66, 77, 100]"

definition h264_codec_is_within_transcoding_profile :: "string \<Rightarrow> bool" where
  "h264_codec_is_within_transcoding_profile codec_text =
     (let codec = map ascii_lower (trim codec_text);
          rest = (case strip_prefix ''avc1.'' codec of
                    Some r \<Rightarrow> Some r | None \<Rightarrow> strip_prefix ''avc3.'' codec) in
      case rest of
        None \<Rightarrow> False
      | Some r \<Rightarrow>
          let profile_level_id = hd (split_on CHR ''.'' r) in
          if length profile_level_id \<noteq> 6 \<or> list_ex (\<lambda>c. hex_value c = None) profile_level_id then False
          else h264_profile_is_within_transcoding_profile (hex_byte (take 2 profile_level_id))
            \<and> hex_byte (drop 4 profile_level_id) \<le> 42)"

definition h264_codecs :: "string \<Rightarrow> string list" where
  "h264_codecs codecs = filter is_h264_codec (split_on CHR '','' codecs)"

definition codec_list_h264_is_within_transcoding_profile :: "string \<Rightarrow> bool" where
  "codec_list_h264_is_within_transcoding_profile codecs =
     (h264_codecs codecs \<noteq> [] \<and> list_all h264_codec_is_within_transcoding_profile (h264_codecs codecs))"

definition variant_h264_level_is_within_transcoding_profile ::
  "playback_variant \<Rightarrow> adapter_request \<Rightarrow> bool" where
  "variant_h264_level_is_within_transcoding_profile variant video =
     (case mr_codecs video of
        Some codecs \<Rightarrow> codec_list_h264_is_within_transcoding_profile codecs
      | None \<Rightarrow>
          let found = concat (map h264_codecs (pv_codecs variant)) in
          found \<noteq> [] \<and> list_all h264_codec_is_within_transcoding_profile found)"

definition variant_has_codec ::
  "playback_variant \<Rightarrow> adapter_request option \<Rightarrow> (string \<Rightarrow> bool) \<Rightarrow> bool" where
  "variant_has_codec variant request p =
     (case Option.bind request mr_codecs of
        Some codecs \<Rightarrow> codec_list_matches codecs p
      | None \<Rightarrow> list_ex (\<lambda>codecs. codec_list_matches codecs p) (pv_codecs variant))"

definition variant_has_avplayer_h264_aac_hls_codecs :: "playback_variant \<Rightarrow> bool" where
  "variant_has_avplayer_h264_aac_hls_codecs variant =
     (pv_kind variant = Dash
      \<and> (case pv_video variant of
           None \<Rightarrow> False
         | Some video \<Rightarrow>
             variant_has_codec variant (Some video) is_h264_codec
             \<and> (case pv_audio variant of
                  None \<Rightarrow> True
                | Some audio \<Rightarrow> variant_has_codec variant (Some audio) is_aac_codec)))"

definition variant_is_avplayer_h264_aac_hls_compatible :: "playback_variant \<Rightarrow> bool" where
  "variant_is_avplayer_h264_aac_hls_compatible variant =
     (variant_has_avplayer_h264_aac_hls_codecs variant
      \<and> (case pv_video variant of
           None \<Rightarrow> False
         | Some video \<Rightarrow>
             variant_is_within_transcoding_profile_envelope variant video
             \<and> variant_h264_level_is_within_transcoding_profile variant video))"

section \<open>The policy message\<close>

lemma transcoding_roundtrip [simp]: "transcoding_from_proto (transcoding_to_proto p) = Inr p"
  by (cases p) (simp_all add: transcoding_from_proto_def)

lemma compatible_roundtrip [simp]: "compatible_from_proto (compatible_to_proto p) = Inr p"
  by (cases p) (simp_all add: compatible_from_proto_def)

lemma weak_network_roundtrip [simp]: "weak_network_from_proto (weak_network_to_proto p) = Inr p"
  by (cases p) (simp_all add: weak_network_from_proto_def)

lemma transcoding_from_proto_cases:
  "if v \<in> {0..3} then \<exists>p. transcoding_from_proto v = Inr p else transcoding_from_proto v = Inl v"
  by (auto simp: transcoding_from_proto_def)

lemma compatible_from_proto_cases:
  "if v \<in> {0..2} then \<exists>p. compatible_from_proto v = Inr p else compatible_from_proto v = Inl v"
  by (auto simp: compatible_from_proto_def)

lemma weak_network_from_proto_cases:
  "if v \<in> {0..3} then \<exists>p. weak_network_from_proto v = Inr p else weak_network_from_proto v = Inl v"
  by (auto simp: weak_network_from_proto_def)

text \<open>The first field of a message with a number that is not of its enumeration.\<close>

definition unknown_field :: "proto_policy \<Rightarrow> policy_error option" where
  "unknown_field m =
     (if rp_transcoding_preference m \<notin> {0..3}
        then Some \<lparr>er_field = ''transcoding_preference'', er_value = rp_transcoding_preference m\<rparr>
      else if rp_compatible_variant_preference m \<notin> {0..2}
        then Some \<lparr>er_field = ''compatible_variant_preference'', er_value = rp_compatible_variant_preference m\<rparr>
      else if rp_weak_network_preference m \<notin> {0..3}
        then Some \<lparr>er_field = ''weak_network_preference'', er_value = rp_weak_network_preference m\<rparr>
      else None)"

text \<open>
  A policy survives its message; a message with an unknown number in a field is refused with the
  first such field and its number, and no other message is.
\<close>

theorem policy_message_decoding:
  "policy_from_proto (Some (policy_to_proto p)) = Inr p
   \<and> (policy_from_proto (Some m) = Inl e \<longleftrightarrow> unknown_field m = Some e)"
proof
  show "policy_from_proto (Some (policy_to_proto p)) = Inr p"
    by (simp add: policy_from_proto_def policy_to_proto_def result_bind_def map_err_def)
  show "policy_from_proto (Some m) = Inl e \<longleftrightarrow> unknown_field m = Some e"
    using transcoding_from_proto_cases [of "rp_transcoding_preference m"]
      compatible_from_proto_cases [of "rp_compatible_variant_preference m"]
      weak_network_from_proto_cases [of "rp_weak_network_preference m"]
    by (auto simp: policy_from_proto_def unknown_field_def result_bind_def map_err_def
        simp del: atLeastAtMost_iff split: if_splits)
qed

section \<open>What a compatible variant guarantees\<close>

lemma bounded_u32_with_evidenceD:
  "bounded_u32_with_evidence a b n \<Longrightarrow> v \<in> set_option a \<union> set_option b \<Longrightarrow> 0 < v \<and> v \<le> n"
  by (auto simp: bounded_u32_with_evidence_def List.map_filter_def split: option.splits if_splits)

lemma compatible_variant_parts:
  assumes "variant_is_avplayer_h264_aac_hls_compatible v"
  obtains video where "pv_kind v = Dash" "pv_video v = Some video"
    "bounded_u32_with_evidence (pv_width v) (mr_width video) LAN_TRANSCODING_MAX_WIDTH"
    "bounded_u32_with_evidence (pv_height v) (mr_height video) LAN_TRANSCODING_MAX_HEIGHT"
    "bounded_frame_rate_with_evidence (pv_frame_rate v) (mr_frame_rate video)"
    "bounded_bandwidth_with_evidence v video"
  using assms
  by (auto simp: variant_is_avplayer_h264_aac_hls_compatible_def
      variant_has_avplayer_h264_aac_hls_codecs_def variant_is_within_transcoding_profile_envelope_def
      split: option.splits)

end
