(* ===== verification/Lan_Transcoding.thy ===== *)
theory Lan_Transcoding
  imports Playback_Variants
begin

text \<open>
  The transcoding component (\<open>transcoding.rs\<close>): what a session's transcoding plan is, the status the
  server reports, the command line of the converter, the loop that watches the converter, and the tail
  of its error output that is kept. The converter itself, the runtime's timer and the pipes are
  the lists of answers they give.
\<close>

section \<open>Profile and status\<close>

record transcoding_profile =
  tp_id :: string
  tp_target_container :: string
  tp_target_video_codec :: string
  tp_target_audio_codec :: string
  tp_output_protocol :: string

definition avplayer_h264_aac_hls :: transcoding_profile where
  "avplayer_h264_aac_hls =
     \<lparr>tp_id = ''avplayer-h264-aac-hls-v1'', tp_target_container = ''hls/fmp4'',
      tp_target_video_codec = ''h264'', tp_target_audio_codec = ''aac'', tp_output_protocol = ''hls''\<rparr>"

record transcoding_options =
  to_enabled :: bool
  to_max_concurrent_jobs :: nat

datatype transcoding_runtime_state = TranscodingDisabled | TranscodingIdle | TranscodingBusy

record transcoding_status =
  ts_enabled :: bool
  ts_state :: transcoding_runtime_state
  ts_message :: string
  ts_profile :: transcoding_profile
  ts_max_concurrent_jobs :: nat
  ts_active_job_count :: nat

definition transcoding_status_from_options :: "transcoding_options \<Rightarrow> nat \<Rightarrow> transcoding_status" where
  "transcoding_status_from_options options active_job_count =
     (if \<not> to_enabled options then
        \<lparr>ts_enabled = False, ts_state = TranscodingDisabled, ts_message = ''LAN transcoding is disabled.'',
         ts_profile = avplayer_h264_aac_hls, ts_max_concurrent_jobs = to_max_concurrent_jobs options,
         ts_active_job_count = 0\<rparr>
      else
        let max_jobs = max (to_max_concurrent_jobs options) 1; active = min active_job_count max_jobs in
        \<lparr>ts_enabled = True,
         ts_state = (if active > 0 then TranscodingBusy else TranscodingIdle),
         ts_message =
           (if active > 0
            then ''LAN transcoding worker boundary is ready; '' @ decimal active @ ''/'' @ decimal max_jobs
              @ '' job(s) active.''
            else ''LAN transcoding worker boundary is ready; no jobs are active.''),
         ts_profile = avplayer_h264_aac_hls, ts_max_concurrent_jobs = max_jobs,
         ts_active_job_count = active\<rparr>)"

section \<open>The plan of a session\<close>

datatype plan_state = PlanDisabled | PlanNotRequired | PlanReady | PlanUnsupported

record transcoding_plan =
  tn_state :: plan_state
  tn_profile_id :: string
  tn_reason :: string
  tn_source_variant_id :: string
  tn_target_container :: string
  tn_target_video_codec :: string
  tn_target_audio_codec :: string
  tn_output_protocol :: string

definition plan_with_state :: "plan_state \<Rightarrow> string \<Rightarrow> string \<Rightarrow> transcoding_plan" where
  "plan_with_state state source_variant_id reason =
     (let profile = avplayer_h264_aac_hls in
      \<lparr>tn_state = state, tn_profile_id = tp_id profile, tn_reason = reason,
       tn_source_variant_id = source_variant_id, tn_target_container = tp_target_container profile,
       tn_target_video_codec = tp_target_video_codec profile,
       tn_target_audio_codec = tp_target_audio_codec profile,
       tn_output_protocol = tp_output_protocol profile\<rparr>)"

definition default_transcoding_plan :: transcoding_plan where
  "default_transcoding_plan =
     plan_with_state PlanDisabled [] ''LAN transcoding was not planned for this session.''"

definition plan_for_variant_with_policy ::
  "transcoding_options \<Rightarrow> playback_variant \<Rightarrow> playback_policy \<Rightarrow> transcoding_plan" where
  "plan_for_variant_with_policy options variant policy =
     (if pv_video variant = None then
        plan_with_state PlanUnsupported (pv_id variant)
          ''LAN transcoding requires a video media resource.''
      else
        let compatible = variant_is_avplayer_h264_aac_hls_compatible variant;
            not_required = plan_with_state PlanNotRequired (pv_id variant)
              ''Selected variant is already compatible with the conservative AVPlayer H.264/AAC HLS profile.'' ;
            ready = plan_with_state PlanReady (pv_id variant)
              (if compatible
               then ''Playback policy forces LAN transcoding into the conservative AVPlayer H.264/AAC HLS profile.''
               else ''Selected variant can be converted by the LAN server into the conservative AVPlayer H.264/AAC HLS profile when execution is enabled.'') in
        (case pp_transcoding_preference policy of
           TranscodeAuto \<Rightarrow>
             if compatible then not_required
             else if \<not> to_enabled options then
               plan_with_state PlanDisabled (pv_id variant)
                 ''LAN transcoding is disabled; selected variant will be served through the existing HLS passthrough path.''
             else ready
         | TranscodeNever \<Rightarrow>
             if compatible then not_required
             else plan_with_state PlanDisabled (pv_id variant)
               ''LAN transcoding was disabled by playback policy; selected variant will be served through the existing HLS passthrough path.''
         | TranscodeForce \<Rightarrow>
             if \<not> to_enabled options then
               plan_with_state PlanDisabled (pv_id variant)
                 ''LAN transcoding is disabled by server configuration; playback policy cannot force transcoding.''
             else ready))"

section \<open>The tail of the converter's error output\<close>

type_synonym output_byte = nat

definition FFMPEG_STDERR_TAIL_MAX_BYTES :: nat where "FFMPEG_STDERR_TAIL_MAX_BYTES = 16 * 1024"

definition FFMPEG_STDERR_TAIL_MAX_CHARS :: nat where "FFMPEG_STDERR_TAIL_MAX_CHARS = 1200"

definition append_ffmpeg_stderr_tail :: "output_byte list \<Rightarrow> output_byte list \<Rightarrow> output_byte list" where
  "append_ffmpeg_stderr_tail tail bytes =
     (if length bytes \<ge> FFMPEG_STDERR_TAIL_MAX_BYTES
      then drop (length bytes - FFMPEG_STDERR_TAIL_MAX_BYTES) bytes
      else let extended = tail @ bytes; overflow = length extended - FFMPEG_STDERR_TAIL_MAX_BYTES in
        if overflow > 0 then drop overflow extended else extended)"

text \<open>
  The reads of the pipe: bytes, nothing at the end of the stream, or an error. \<open>None\<close> as the result
  says that the stream has not ended.
\<close>

datatype pipe_read = PipeBytes "output_byte list" | PipeError

fun read_ffmpeg_stderr_tail ::
  "output_byte list \<Rightarrow> pipe_read list \<Rightarrow> (unit + output_byte list) option" where
  "read_ffmpeg_stderr_tail tail [] = None"
| "read_ffmpeg_stderr_tail tail (PipeError # reads) = Some (Inl ())"
| "read_ffmpeg_stderr_tail tail (PipeBytes bytes # reads) =
     (if bytes = [] then Some (Inr tail)
      else read_ffmpeg_stderr_tail (append_ffmpeg_stderr_tail tail bytes) reads)"

text \<open>
  \<open>String::from_utf8_lossy\<close>: the code points, with U+FFFD for each longest prefix of a character that is
  not completed.
\<close>

text \<open>One character or one replaced prefix: the code point and the bytes it takes.\<close>

definition utf8_step :: "output_byte list \<Rightarrow> nat \<times> nat" where
  "utf8_step s =
     (let a = s ! 0; ok = (\<lambda>i p. i < length s \<and> p (s ! i)) in
      if char_width a = 1 then (a, 1)
      else if char_width a = 0 \<or> \<not> ok 1 (second_byte_ok a) then (65533, 1)
      else if char_width a = 2 then ((a - 192) * 64 + (s ! 1 - 128), 2)
      else if \<not> ok 2 is_continuation then (65533, 2)
      else if char_width a = 3 then ((a - 224) * 4096 + (s ! 1 - 128) * 64 + (s ! 2 - 128), 3)
      else if \<not> ok 3 is_continuation then (65533, 3)
      else ((a - 240) * 262144 + (s ! 1 - 128) * 4096 + (s ! 2 - 128) * 64 + (s ! 3 - 128), 4))"

lemma utf8_step_pos: "0 < snd (utf8_step s)"
  by (auto simp: utf8_step_def Let_def)

function from_utf8_lossy :: "output_byte list \<Rightarrow> nat list" where
  "from_utf8_lossy s =
     (if s = [] then [] else fst (utf8_step s) # from_utf8_lossy (drop (snd (utf8_step s)) s))"
  by pat_completeness auto
termination by (relation "measure length") (auto simp: utf8_step_pos)

declare from_utf8_lossy.simps [simp del]

definition is_unicode_whitespace :: "nat \<Rightarrow> bool" where
  "is_unicode_whitespace c \<longleftrightarrow>
     (9 \<le> c \<and> c \<le> 13) \<or> (8192 \<le> c \<and> c \<le> 8202)
     \<or> c \<in> set [32, 133, 160, 5760, 8232, 8233, 8239, 8287, 12288]"

definition trim_points :: "nat list \<Rightarrow> nat list" where
  "trim_points s = rev (dropWhile is_unicode_whitespace (rev (dropWhile is_unicode_whitespace s)))"

definition stderr_tail :: "output_byte list \<Rightarrow> nat list" where
  "stderr_tail stderr =
     (let t = trim_points (from_utf8_lossy stderr) in
      if length t \<le> FFMPEG_STDERR_TAIL_MAX_CHARS then t
      else [46, 46, 46] @ rev (take FFMPEG_STDERR_TAIL_MAX_CHARS (rev t)))"

section \<open>Running the converter\<close>

definition hls_ffmpeg_transcode_args :: "string \<Rightarrow> string option \<Rightarrow> string \<Rightarrow> string list" where
  "hls_ffmpeg_transcode_args video_path audio_path output_path =
     [''-y'', ''-nostdin'', ''-i'', video_path]
     @ (case audio_path of Some p \<Rightarrow> [''-i'', p] | None \<Rightarrow> [])
     @ [''-map'', ''0:v:0'']
     @ (if audio_path \<noteq> None then [''-map'', ''1:a:0''] else [])
     @ [''-c:v'', ''libx264'', ''-preset'', ''veryfast'', ''-profile:v'', ''high'', ''-level:v'', ''4.2'',
        ''-pix_fmt'', ''yuv420p'', ''-vf'',
        ''scale=w='' @ [CHR 0x27] @ ''min(1920,iw)'' @ [CHR 0x27] @ '':h='' @ [CHR 0x27] @ ''min(1080,ih)'' @ [CHR 0x27]
          @ '':force_original_aspect_ratio=decrease:force_divisible_by=2,fps=fps='' @ [CHR 0x27]
          @ ''min(source_fps,60)'' @ [CHR 0x27],
        ''-maxrate'', ''10000k'', ''-bufsize'', ''20000k'']
     @ (if audio_path \<noteq> None then [''-c:a'', ''aac'', ''-b:a'', ''128k''] else [''-an''])
     @ [''-movflags'', ''frag_keyframe+empty_moov+default_base_moof'', ''-f'', ''mp4'', output_path]"

datatype job_control = JobContinue | JobCancel | JobPreempt

datatype exit_status = ExitCode int | ExitSignal int

datatype wait_answer = WaitError | StillRunning | Exited exit_status

datatype transcode_error = TranscodeIo | TranscodeFailed exit_status "nat list" | TranscodeCancelled
  | TranscodePreempted

datatype run_effect = Spawned "string list" | Killed

text \<open>
  The loop on the answers of the control function and of \<open>try_wait\<close>, one pair per turn; when \<open>try_wait\<close> is
  not reached its answer is not used. \<open>None\<close>: the answers are used up and the converter still runs. A
  child that is dropped while it runs is killed (\<open>kill_on_drop\<close>).
\<close>

fun watch_child ::
  "unit + output_byte list \<Rightarrow> (job_control \<times> wait_answer) list
     \<Rightarrow> (run_effect list \<times> (transcode_error + unit)) option" where
  "watch_child stderr [] = None"
| "watch_child stderr ((JobCancel, w) # turns) = Some ([Killed], Inl TranscodeCancelled)"
| "watch_child stderr ((JobPreempt, w) # turns) = Some ([Killed], Inl TranscodePreempted)"
| "watch_child stderr ((JobContinue, WaitError) # turns) = Some ([Killed], Inl TranscodeIo)"
| "watch_child stderr ((JobContinue, StillRunning) # turns) = watch_child stderr turns"
| "watch_child stderr ((JobContinue, Exited status) # turns) =
     (case stderr of
        Inl _ \<Rightarrow> Some ([], Inl TranscodeIo)
      | Inr bytes \<Rightarrow>
          if status = ExitCode 0 then Some ([], Inr ())
          else Some ([], Inl (TranscodeFailed status (stderr_tail bytes))))"

definition run_hls_ffmpeg_transcode ::
  "string \<Rightarrow> string option \<Rightarrow> string \<Rightarrow> job_control \<Rightarrow> bool \<Rightarrow> unit + output_byte list
     \<Rightarrow> (job_control \<times> wait_answer) list \<Rightarrow> (run_effect list \<times> (transcode_error + unit)) option" where
  "run_hls_ffmpeg_transcode video_path audio_path output_path first_control spawns stderr turns =
     (case first_control of
        JobCancel \<Rightarrow> Some ([], Inl TranscodeCancelled)
      | JobPreempt \<Rightarrow> Some ([], Inl TranscodePreempted)
      | JobContinue \<Rightarrow>
          if \<not> spawns then Some ([], Inl TranscodeIo)
          else map_option (\<lambda>(effects, r).
              (Spawned (hls_ffmpeg_transcode_args video_path audio_path output_path) # effects, r))
            (watch_child stderr turns))"

section \<open>The tail is the end of the stream\<close>

definition last_n :: "nat \<Rightarrow> 'a list \<Rightarrow> 'a list" where
  "last_n n xs = drop (length xs - n) xs"

lemma length_last_n [simp]: "length (last_n n xs) = min n (length xs)"
  by (simp add: last_n_def)

lemma last_n_short [simp]: "length xs \<le> n \<Longrightarrow> last_n n xs = xs"
  by (simp add: last_n_def)

lemma last_n_append_long: "n \<le> length ys \<Longrightarrow> last_n n (xs @ ys) = last_n n ys"
  by (simp add: last_n_def)

lemma last_n_last_n: "last_n n (last_n n xs @ ys) = last_n n (xs @ ys)"
proof (cases "n \<le> length xs")
  case True
  then have "length xs + length ys - n - (length xs - n) = length ys"
    by linarith
  with True show ?thesis by (simp add: last_n_def add.commute)
qed simp

lemma append_ffmpeg_stderr_tail_last:
  "append_ffmpeg_stderr_tail tail bytes = last_n FFMPEG_STDERR_TAIL_MAX_BYTES (tail @ bytes)"
proof (cases "length bytes \<ge> FFMPEG_STDERR_TAIL_MAX_BYTES")
  case True
  then show ?thesis
    by (simp add: append_ffmpeg_stderr_tail_def last_n_append_long) (simp add: last_n_def)
next
  case False
  then show ?thesis by (auto simp: append_ffmpeg_stderr_tail_def last_n_def Let_def)
qed

lemma read_ffmpeg_stderr_tail_chunks:
  "[] \<notin> set chunks \<Longrightarrow>
    read_ffmpeg_stderr_tail (last_n FFMPEG_STDERR_TAIL_MAX_BYTES seen)
      (map PipeBytes chunks @ PipeBytes [] # rest)
    = Some (Inr (last_n FFMPEG_STDERR_TAIL_MAX_BYTES (seen @ concat chunks)))"
  by (induction chunks arbitrary: seen)
    (auto simp: append_ffmpeg_stderr_tail_last last_n_last_n)

text \<open>
  C36. However the pipe cuts the converter's error output into reads, what is kept of it is its last
  16 KiB.
\<close>

theorem stderr_tail_is_end_of_stream:
  assumes "[] \<notin> set chunks"
  shows "read_ffmpeg_stderr_tail [] (map PipeBytes chunks @ PipeBytes [] # rest) =
    Some (Inr (last_n (16 * 1024) (concat chunks)))"
  using read_ffmpeg_stderr_tail_chunks [OF assms, of "[]" rest]
  by (simp add: FFMPEG_STDERR_TAIL_MAX_BYTES_def)

theorem stderr_tail_is_end_of_stream_witness:
  "read_ffmpeg_stderr_tail [] (map PipeBytes [[1, 2], [3]] @ PipeBytes [] # []) = Some (Inr [1, 2, 3])"
  using stderr_tail_is_end_of_stream [of "[[1, 2], [3]]" "[]"] by simp

lemma length_from_utf8_lossy: "length (from_utf8_lossy s) \<le> length s"
proof (induction s rule: from_utf8_lossy.induct)
  case (1 s)
  show ?case
  proof (cases "s = []")
    case False
    have "length (drop (snd (utf8_step s)) s) < length s" using False by (simp add: utf8_step_pos)
    with 1 False show ?thesis by (subst from_utf8_lossy.simps) simp
  qed (simp add: from_utf8_lossy.simps)
qed

text \<open>ASCII text is what it was.\<close>

lemma from_utf8_lossy_ascii: "\<forall>b \<in> set s. b < 128 \<Longrightarrow> from_utf8_lossy s = s"
proof (induction s)
  case (Cons b s)
  then show ?case by (subst from_utf8_lossy.simps) (simp add: utf8_step_def char_width_def)
qed (simp add: from_utf8_lossy.simps)

lemma stderr_tail_bounded: "length (stderr_tail stderr) \<le> 1203"
  by (simp add: stderr_tail_def Let_def FFMPEG_STDERR_TAIL_MAX_CHARS_def)

lemma stderr_tail_is_suffix:
  "\<exists>front. trim_points (from_utf8_lossy stderr) = front @ (if front = [] then stderr_tail stderr else drop 3 (stderr_tail stderr))"
proof (cases "length (trim_points (from_utf8_lossy stderr)) \<le> FFMPEG_STDERR_TAIL_MAX_CHARS")
  case True
  then show ?thesis by (intro exI [of _ "[]"]) (simp add: stderr_tail_def)
next
  case False
  let ?t = "trim_points (from_utf8_lossy stderr)" and ?n = FFMPEG_STDERR_TAIL_MAX_CHARS
  have "?t = take (length ?t - ?n) ?t @ drop 3 (stderr_tail stderr)"
    using False by (simp add: stderr_tail_def Let_def rev_take)
  moreover have "take (length ?t - ?n) ?t \<noteq> []" using False by auto
  ultimately show ?thesis by metis
qed

section \<open>The first answer that decides\<close>

definition verdict ::
  "unit + output_byte list \<Rightarrow> job_control \<times> wait_answer \<Rightarrow> run_effect list \<times> (transcode_error + unit)" where
  "verdict stderr turn =
     (case turn of
        (JobCancel, _) \<Rightarrow> ([Killed], Inl TranscodeCancelled)
      | (JobPreempt, _) \<Rightarrow> ([Killed], Inl TranscodePreempted)
      | (JobContinue, Exited status) \<Rightarrow>
          (case stderr of
             Inl _ \<Rightarrow> ([], Inl TranscodeIo)
           | Inr bytes \<Rightarrow> if status = ExitCode 0 then ([], Inr ())
               else ([], Inl (TranscodeFailed status (stderr_tail bytes))))
      | _ \<Rightarrow> ([Killed], Inl TranscodeIo))"

lemma watch_child_find:
  "watch_child stderr turns =
     map_option (verdict stderr) (find (\<lambda>turn. turn \<noteq> (JobContinue, StillRunning)) turns)"
  by (induction stderr turns rule: watch_child.induct) (auto simp: verdict_def split: sum.split)

text \<open>
  The converter's run ends with the first answer that decides: a request to cancel or to give way kills
  the converter and is the result, before any look at the converter; success is reported only when the
  converter exited with code 0 while every answer of the control function until then said to go on.
\<close>

theorem transcode_run_decides:
  assumes "turn \<in> set turns" "turn \<noteq> (JobContinue, StillRunning)"
  shows "\<exists>before deciding later effects result.
    turns = before @ deciding # later \<and> set before \<subseteq> {(JobContinue, StillRunning)}
    \<and> run_hls_ffmpeg_transcode video audio output JobContinue True stderr turns
        = Some (Spawned (hls_ffmpeg_transcode_args video audio output) # effects, result)
    \<and> (result = Inr () \<longleftrightarrow> deciding = (JobContinue, Exited (ExitCode 0)) \<and> \<not> isl stderr)
    \<and> (fst deciding = JobCancel \<longrightarrow> result = Inl TranscodeCancelled)
    \<and> (fst deciding = JobPreempt \<longrightarrow> result = Inl TranscodePreempted)
    \<and> (Killed \<in> set effects \<longleftrightarrow> (\<nexists>status. deciding = (JobContinue, Exited status)))"
proof -
  obtain before d later where split: "turns = before @ d # later" "d \<noteq> (JobContinue, StillRunning)"
    and b: "\<forall>t \<in> set before. t = (JobContinue, StillRunning)"
    using split_list_first_prop [of turns "\<lambda>t. t \<noteq> (JobContinue, StillRunning)"] assms by blast
  have found: "find (\<lambda>t. t \<noteq> (JobContinue, StillRunning)) turns = Some d"
    using split b by (induction before arbitrary: turns) auto
  obtain effects result where v: "verdict stderr d = (effects, result)" by fastforce
  have facts: "result = Inr () \<longleftrightarrow> d = (JobContinue, Exited (ExitCode 0)) \<and> \<not> isl stderr"
    "fst d = JobCancel \<longrightarrow> result = Inl TranscodeCancelled"
    "fst d = JobPreempt \<longrightarrow> result = Inl TranscodePreempted"
    "Killed \<in> set effects \<longleftrightarrow> (\<nexists>status. d = (JobContinue, Exited status))"
    using v split(2)
    by (auto simp: verdict_def split: prod.splits job_control.splits wait_answer.splits sum.splits if_splits)
  have "run_hls_ffmpeg_transcode video audio output JobContinue True stderr turns
        = Some (Spawned (hls_ffmpeg_transcode_args video audio output) # effects, result)"
    by (simp add: run_hls_ffmpeg_transcode_def watch_child_find found v)
  moreover have "set before \<subseteq> {(JobContinue, StillRunning)}" using b by auto
  ultimately show ?thesis using split(1) facts by blast
qed

theorem transcode_run_decides_witness:
  "\<exists>before deciding later effects result.
    [(JobContinue, StillRunning), (JobCancel, StillRunning)] = before @ deciding # later
    \<and> set before \<subseteq> {(JobContinue, StillRunning)}
    \<and> run_hls_ffmpeg_transcode ''v'' None ''o'' JobContinue True (Inr [])
        [(JobContinue, StillRunning), (JobCancel, StillRunning)]
        = Some (Spawned (hls_ffmpeg_transcode_args ''v'' None ''o'') # effects, result)
    \<and> (result = Inr () \<longleftrightarrow> deciding = (JobContinue, Exited (ExitCode 0)) \<and> \<not> isl (Inr [] :: unit + nat list))
    \<and> (fst deciding = JobCancel \<longrightarrow> result = Inl TranscodeCancelled)
    \<and> (fst deciding = JobPreempt \<longrightarrow> result = Inl TranscodePreempted)
    \<and> (Killed \<in> set effects \<longleftrightarrow> (\<nexists>status. deciding = (JobContinue, Exited status)))"
  by (rule transcode_run_decides [of "(JobCancel, StillRunning)"]) simp_all

section \<open>The plan\<close>

text \<open>
  A session's variant is set to be transcoded exactly when the server allows it, the variant has a
  video stream, and the policy forces it or leaves the choice open for a variant outside the profile; the
  server's switch and a policy that forbids transcoding are never overridden.
\<close>

theorem transcoding_plan_ready_iff:
  "tn_state (plan_for_variant_with_policy options variant policy) = PlanReady \<longleftrightarrow>
     to_enabled options \<and> pv_video variant \<noteq> None
     \<and> (pp_transcoding_preference policy = TranscodeForce
        \<or> pp_transcoding_preference policy = TranscodeAuto
          \<and> \<not> variant_is_avplayer_h264_aac_hls_compatible variant)"
  by (auto simp: plan_for_variant_with_policy_def plan_with_state_def Let_def
      split: transcoding_preference.splits)

lemma plan_not_required_iff:
  "tn_state (plan_for_variant_with_policy options variant policy) = PlanNotRequired \<longleftrightarrow>
     variant_is_avplayer_h264_aac_hls_compatible variant \<and> pp_transcoding_preference policy \<noteq> TranscodeForce"
  by (auto simp: plan_for_variant_with_policy_def plan_with_state_def Let_def
      variant_is_avplayer_h264_aac_hls_compatible_def variant_has_avplayer_h264_aac_hls_codecs_def
      split: transcoding_preference.splits option.splits)

lemma transcoding_status_jobs:
  "ts_active_job_count (transcoding_status_from_options options n)
     \<le> max 1 (ts_max_concurrent_jobs (transcoding_status_from_options options n))
   \<and> (ts_state (transcoding_status_from_options options n) = TranscodingBusy
      \<longleftrightarrow> to_enabled options \<and> 0 < n)"
  by (auto simp: transcoding_status_from_options_def Let_def)

end
