(* ===== verification/Hls_Sessions.thy ===== *)
theory Hls_Sessions
  imports Lan_Transcoding
begin

text \<open>
  HLS playback sessions (\<open>hls.rs\<close>): how a session is built from a planned variant and its switchable
  alternates, with the identifiers of their media resources, and how the addresses of an accepted
  session are refreshed from a new plan. The error message of \<open>HlsSessionError\<close> is the \<open>Inl\<close> value;
  \<open>SessionPanic\<close> stands for the \<open>expect\<close> and \<open>unreachable!\<close> of the source.
\<close>

section \<open>Sessions\<close>

record media_resource =
  hr_id :: string
  hr_request :: adapter_request

record hls_variant =
  hv_id :: string
  hv_bandwidth :: nat
  hv_codecs :: "string list"
  hv_width :: "nat option"
  hv_height :: "nat option"
  hv_duration_seconds :: nat
  hv_video :: media_resource
  hv_audio :: "media_resource option"

datatype hls_abr_group_kind = HlsDashVideo | HlsDashAudioOnly

record hls_abr_group =
  hg_id :: string
  hg_kind :: hls_abr_group_kind
  hg_variant_ids :: "string list"
  hg_level_count :: nat
  hg_min_bandwidth :: "nat option"
  hg_max_bandwidth :: "nat option"

record hls_abr_level =
  hl_group_id :: string
  hl_level_index :: nat
  hl_level_count :: nat
  hl_switchable :: bool

record media_metadata =
  hm_kind :: media_request_kind
  hm_stream_id :: "nat option"
  hm_mime_type :: "string option"
  hm_codecs :: "string option"
  hm_bandwidth :: "nat option"
  hm_width :: "nat option"
  hm_height :: "nat option"
  hm_frame_rate :: "string option"
  hm_size :: "nat option"
  hm_duration_seconds :: "nat option"
  hm_cache_key :: media_cache_key

record variant_metadata =
  vm_id :: string
  vm_kind :: variant_kind
  vm_content_id :: string
  vm_bandwidth :: "nat option"
  vm_codecs :: "string list"
  vm_mime_types :: "string list"
  vm_width :: "nat option"
  vm_height :: "nat option"
  vm_frame_rate :: "string option"
  vm_duration_seconds :: "nat option"
  vm_abr :: "hls_abr_level option"
  vm_media :: "media_metadata list"

datatype content_kind = VideoPage | SeasonEpisode | CollectionItem

record content_identity =
  ci_kind :: content_kind
  ci_aid :: "nat option"
  ci_bvid :: "string option"
  ci_cid :: "nat option"
  ci_epid :: "nat option"

record hls_session =
  ss_id :: string
  ss_title :: string
  ss_accepted_identity :: "content_identity option"
  ss_variant :: hls_variant
  ss_alternate_variants :: "hls_variant list"
  ss_advertise_alternate_variants :: bool
  ss_abr :: "hls_abr_group list"
  ss_variants :: "variant_metadata list"
  ss_transcoding :: transcoding_plan
  ss_effective_policy :: playback_policy

datatype session_error = SessionError string | SessionPanic

definition DEFAULT_BANDWIDTH :: nat where "DEFAULT_BANDWIDTH = 1000000"

definition DEFAULT_DURATION_SECONDS :: nat where "DEFAULT_DURATION_SECONDS = 1"

definition VIDEO_SEGMENT_ID :: string where "VIDEO_SEGMENT_ID = ''video.m4s''"

definition AUDIO_SEGMENT_ID :: string where "AUDIO_SEGMENT_ID = ''audio.m4s''"

section \<open>Copies of the plan's metadata\<close>

fun abr_group_kind_from_adapter :: "abr_group_kind \<Rightarrow> hls_abr_group_kind" where
  "abr_group_kind_from_adapter DashVideo = HlsDashVideo"
| "abr_group_kind_from_adapter DashAudioOnly = HlsDashAudioOnly"

definition abr_group_from_adapter :: "abr_group \<Rightarrow> hls_abr_group" where
  "abr_group_from_adapter g =
     \<lparr>hg_id = ag_id g, hg_kind = abr_group_kind_from_adapter (ag_kind g),
      hg_variant_ids = ag_variant_ids g, hg_level_count = ag_level_count g,
      hg_min_bandwidth = ag_min_bandwidth g, hg_max_bandwidth = ag_max_bandwidth g\<rparr>"

definition abr_level_from_adapter :: "abr_level \<Rightarrow> hls_abr_level" where
  "abr_level_from_adapter level =
     \<lparr>hl_group_id = al_group_id level, hl_level_index = al_level_index level,
      hl_level_count = al_level_count level, hl_switchable = al_switchable level\<rparr>"

definition metadata_from_request :: "adapter_request \<Rightarrow> media_metadata" where
  "metadata_from_request request =
     \<lparr>hm_kind = mr_kind request, hm_stream_id = mr_stream_id request, hm_mime_type = mr_mime_type request,
      hm_codecs = mr_codecs request, hm_bandwidth = mr_bandwidth request, hm_width = mr_width request,
      hm_height = mr_height request, hm_frame_rate = mr_frame_rate request, hm_size = mr_size request,
      hm_duration_seconds = mr_duration_seconds request, hm_cache_key = mr_cache_key request\<rparr>"

definition option_list :: "'a option \<Rightarrow> 'a list" where
  "option_list x = (case x of Some v \<Rightarrow> [v] | None \<Rightarrow> [])"

definition variant_metadata_from_adapter :: "playback_variant \<Rightarrow> variant_metadata" where
  "variant_metadata_from_adapter variant =
     \<lparr>vm_id = pv_id variant, vm_kind = pv_kind variant, vm_content_id = pv_content_id variant,
      vm_bandwidth = pv_bandwidth variant, vm_codecs = pv_codecs variant,
      vm_mime_types = pv_mime_types variant, vm_width = pv_width variant, vm_height = pv_height variant,
      vm_frame_rate = pv_frame_rate variant, vm_duration_seconds = pv_duration_seconds variant,
      vm_abr = map_option abr_level_from_adapter (pv_abr variant),
      vm_media = map metadata_from_request
        (option_list (pv_video variant) @ option_list (pv_audio variant) @ pv_flv_segments variant)\<rparr>"

section \<open>Codecs of a variant\<close>

definition push_unique_codec :: "string \<Rightarrow> string list \<Rightarrow> string list" where
  "push_unique_codec codec_text codecs =
     (let codec = trim codec_text in
      if codec = [] \<or> codec \<in> set codecs then codecs else codecs @ [codec])"

definition push_matching_variant_codecs :: "string list \<Rightarrow> (string \<Rightarrow> bool) \<Rightarrow> string list \<Rightarrow> string list" where
  "push_matching_variant_codecs variant_codecs p codecs =
     fold (\<lambda>codec_list. fold push_unique_codec (filter p (split_on CHR '','' codec_list)))
       variant_codecs codecs"

definition hls_variant_codecs ::
  "playback_variant \<Rightarrow> adapter_request \<Rightarrow> adapter_request option \<Rightarrow> string list" where
  "hls_variant_codecs variant video audio =
     (let codecs = (case mr_codecs video of
                      Some c \<Rightarrow> push_unique_codec c []
                    | None \<Rightarrow> fold push_unique_codec (pv_codecs variant) []) in
      case audio of
        None \<Rightarrow> codecs
      | Some a \<Rightarrow>
          (case mr_codecs a of
             Some c \<Rightarrow> push_unique_codec c codecs
           | None \<Rightarrow> push_matching_variant_codecs (pv_codecs variant) is_aac_codec codecs))"

section \<open>Building a session\<close>

text \<open>\<open>a.or(b).unwrap_or(c)\<close>.\<close>

definition or_unwrap :: "'a option \<Rightarrow> 'a option \<Rightarrow> 'a \<Rightarrow> 'a" where
  "or_unwrap a b c = (case a of Some x \<Rightarrow> x | None \<Rightarrow> (case b of Some y \<Rightarrow> y | None \<Rightarrow> c))"

definition from_adapter_with_resource_ids ::
  "playback_variant \<Rightarrow> string \<Rightarrow> string \<Rightarrow> session_error + hls_variant" where
  "from_adapter_with_resource_ids variant video_id audio_id =
     (case pv_video variant of
        None \<Rightarrow> Inl (SessionError ''Progressive HLS playback requires a video media request.'')
      | Some video \<Rightarrow>
          Inr \<lparr>hv_id = pv_id variant,
               hv_bandwidth = or_unwrap (pv_bandwidth variant) (mr_bandwidth video) DEFAULT_BANDWIDTH,
               hv_codecs = hls_variant_codecs variant video (pv_audio variant),
               hv_width = pv_width variant, hv_height = pv_height variant,
               hv_duration_seconds = or_unwrap (pv_duration_seconds variant) (mr_duration_seconds video)
                 DEFAULT_DURATION_SECONDS,
               hv_video = \<lparr>hr_id = video_id, hr_request = video\<rparr>,
               hv_audio = map_option (\<lambda>audio. \<lparr>hr_id = audio_id, hr_request = audio\<rparr>) (pv_audio variant)\<rparr>)"

definition variant_from_adapter :: "playback_variant \<Rightarrow> session_error + hls_variant" where
  "variant_from_adapter variant =
     from_adapter_with_resource_ids variant VIDEO_SEGMENT_ID AUDIO_SEGMENT_ID"

definition has_matching_audio_presence :: "playback_variant \<Rightarrow> playback_variant \<Rightarrow> bool" where
  "has_matching_audio_presence selected variant \<longleftrightarrow> (pv_audio selected \<noteq> None) = (pv_audio variant \<noteq> None)"

definition is_switchable_alternate_variant :: "playback_variant \<Rightarrow> playback_variant \<Rightarrow> bool" where
  "is_switchable_alternate_variant selected variant =
     (case (pv_abr selected, pv_abr variant) of
        (Some s, Some v) \<Rightarrow> al_switchable s \<and> al_switchable v \<and> al_group_id s = al_group_id v
      | _ \<Rightarrow> False)"

definition is_avplayer_safe_alternate_variant :: "playback_variant \<Rightarrow> bool" where
  "is_avplayer_safe_alternate_variant variant \<longleftrightarrow>
     pv_kind variant = Dash \<and> variant_is_avplayer_h264_aac_hls_compatible variant"

definition alternate_video_id :: "nat \<Rightarrow> string" where
  "alternate_video_id n = ''v'' @ decimal n @ ''-video.m4s''"

definition alternate_audio_id :: "nat \<Rightarrow> string" where
  "alternate_audio_id n = ''v'' @ decimal n @ ''-audio.m4s''"

definition is_playable_alternate :: "playback_variant \<Rightarrow> playback_variant \<Rightarrow> bool" where
  "is_playable_alternate selected variant \<longleftrightarrow>
     \<not> (pv_id variant = pv_id selected
        \<or> \<not> is_switchable_alternate_variant selected variant
        \<or> \<not> has_matching_audio_presence selected variant
        \<or> \<not> is_avplayer_safe_alternate_variant variant)"

fun push_alternates ::
  "playback_variant \<Rightarrow> playback_variant list \<Rightarrow> hls_variant list \<Rightarrow> session_error + hls_variant list" where
  "push_alternates selected [] alternates = Inr alternates"
| "push_alternates selected (variant # variants) alternates =
     (if \<not> is_playable_alternate selected variant then push_alternates selected variants alternates
      else
        let index = length alternates + 1 in
        result_bind (from_adapter_with_resource_ids variant (alternate_video_id index) (alternate_audio_id index))
          (\<lambda>alternate. push_alternates selected variants (alternates @ [alternate])))"

definition playable_alternate_variants ::
  "playback_variant \<Rightarrow> playback_variant list \<Rightarrow> session_error + hls_variant list" where
  "playable_alternate_variants selected variants =
     (if \<not> variant_has_avplayer_h264_aac_hls_codecs selected then Inr []
      else push_alternates selected variants [])"

definition from_selected_variant :: "string \<Rightarrow> string \<Rightarrow> playback_variant \<Rightarrow> session_error + hls_session" where
  "from_selected_variant session_id title variant =
     (if pv_kind variant \<noteq> Dash
      then Inl (SessionError ''Progressive HLS playback requires a DASH playback variant.'')
      else result_bind (variant_from_adapter variant) (\<lambda>v.
        Inr \<lparr>ss_id = session_id, ss_title = title, ss_accepted_identity = None, ss_variant = v,
             ss_alternate_variants = [], ss_advertise_alternate_variants = True, ss_abr = [],
             ss_variants = [variant_metadata_from_adapter variant],
             ss_transcoding = default_transcoding_plan,
             ss_effective_policy = default_playback_policy\<rparr>))"

definition from_playback_entry_with_policy ::
  "string \<Rightarrow> string \<Rightarrow> playback_variant \<Rightarrow> abr_group list \<Rightarrow> playback_variant list \<Rightarrow> playback_policy
     \<Rightarrow> session_error + hls_session" where
  "from_playback_entry_with_policy session_id title selected abr variants effective_policy =
     result_bind (from_selected_variant session_id title selected) (\<lambda>session.
     result_bind (playable_alternate_variants selected variants) (\<lambda>alternates.
       let metadata = map variant_metadata_from_adapter variants in
       Inr (session\<lparr>ss_effective_policy := effective_policy,
         ss_abr := map abr_group_from_adapter abr,
         ss_alternate_variants := alternates,
         ss_variants :=
           (if list_ex (\<lambda>m. vm_id m = hv_id (ss_variant session)) metadata then metadata
            else metadata @ [variant_metadata_from_adapter selected])\<rparr>)))"

section \<open>Accepted content\<close>

definition identity_is_complete :: "content_identity \<Rightarrow> bool" where
  "identity_is_complete i =
     (if ci_aid i = Some 0 \<or> ci_cid i = Some 0 \<or> ci_epid i = Some 0
         \<or> (case ci_bvid i of Some b \<Rightarrow> trim b = [] | None \<Rightarrow> False)
      then False
      else
        let aid_or_bvid = ci_aid i \<noteq> None \<or> (case ci_bvid i of Some b \<Rightarrow> trim b \<noteq> [] | None \<Rightarrow> False) in
        case ci_kind i of
          SeasonEpisode \<Rightarrow> ci_epid i \<noteq> None
        | _ \<Rightarrow> ci_cid i \<noteq> None \<and> aid_or_bvid \<and> ci_epid i = None)"

definition identity_is_refresh_complete :: "content_identity \<Rightarrow> bool" where
  "identity_is_refresh_complete i =
     (if \<not> identity_is_complete i then False
      else case ci_kind i of
          SeasonEpisode \<Rightarrow> ci_epid i \<noteq> None \<and> ci_aid i \<noteq> None \<and> ci_cid i \<noteq> None
        | _ \<Rightarrow> ci_aid i \<noteq> None \<and> ci_cid i \<noteq> None \<and> ci_epid i = None)"

definition identity_matches_content_id :: "content_identity \<Rightarrow> string \<Rightarrow> bool" where
  "identity_matches_content_id i content_id =
     (case ci_kind i of
        VideoPage \<Rightarrow> (case ci_cid i of Some cid \<Rightarrow> content_id = decimal cid | None \<Rightarrow> False)
      | SeasonEpisode \<Rightarrow> (case ci_epid i of Some epid \<Rightarrow> content_id = decimal epid | None \<Rightarrow> False)
      | CollectionItem \<Rightarrow>
          (case ci_bvid i of Some bvid \<Rightarrow> content_id = bvid | None \<Rightarrow> False)
          \<or> (case ci_aid i of Some aid \<Rightarrow> content_id = ''av'' @ decimal aid | None \<Rightarrow> False))"

definition valid_accepted_identity :: "content_identity \<Rightarrow> bool" where
  "valid_accepted_identity i =
     (if \<not> identity_is_complete i \<or> \<not> identity_is_refresh_complete i then False
      else case ci_kind i of
          SeasonEpisode \<Rightarrow> (case ci_epid i of Some epid \<Rightarrow> epid > 0 | None \<Rightarrow> False)
        | _ \<Rightarrow> ci_epid i = None)"

definition unwrap_or_default :: "nat option \<Rightarrow> nat" where
  "unwrap_or_default x = (case x of Some v \<Rightarrow> v | None \<Rightarrow> 0)"

definition entry_matches_identity :: "playback_entry \<Rightarrow> content_identity \<Rightarrow> bool" where
  "entry_matches_identity entry i \<longleftrightarrow>
     pe_aid entry > 0 \<and> pe_cid entry > 0
     \<and> pe_aid entry = unwrap_or_default (ci_aid i)
     \<and> pe_bvid entry = ci_bvid i
     \<and> pe_cid entry = unwrap_or_default (ci_cid i)
     \<and> pe_epid entry = ci_epid i"

section \<open>Matching representations\<close>

definition cache_key_identity_matches :: "media_cache_key \<Rightarrow> media_cache_key \<Rightarrow> bool" where
  "cache_key_identity_matches accepted candidate \<longleftrightarrow>
     mk_content_id accepted = mk_content_id candidate
     \<and> mk_media_kind accepted = mk_media_kind candidate
     \<and> mk_stream_id accepted = mk_stream_id candidate
     \<and> mk_codecs accepted = mk_codecs candidate"

definition request_matches_accepted :: "adapter_request \<Rightarrow> adapter_request \<Rightarrow> bool" where
  "request_matches_accepted accepted candidate \<longleftrightarrow>
     mr_kind accepted = mr_kind candidate
     \<and> mr_stream_id accepted = mr_stream_id candidate
     \<and> mr_mime_type accepted = mr_mime_type candidate
     \<and> mr_codecs accepted = mr_codecs candidate
     \<and> mr_bandwidth accepted = mr_bandwidth candidate
     \<and> mr_width accepted = mr_width candidate
     \<and> mr_height accepted = mr_height candidate
     \<and> mr_frame_rate accepted = mr_frame_rate candidate
     \<and> mr_size accepted = mr_size candidate
     \<and> mr_duration_seconds accepted = mr_duration_seconds candidate
     \<and> mk_media_kind (mr_cache_key accepted) = mr_kind accepted
     \<and> mk_stream_id (mr_cache_key accepted) = mr_stream_id accepted
     \<and> mk_codecs (mr_cache_key accepted) = mr_codecs accepted
     \<and> mk_media_kind (mr_cache_key candidate) = mr_kind candidate
     \<and> mk_stream_id (mr_cache_key candidate) = mr_stream_id candidate
     \<and> mk_codecs (mr_cache_key candidate) = mr_codecs candidate
     \<and> cache_key_identity_matches (mr_cache_key accepted) (mr_cache_key candidate)"

definition variant_matches_accepted ::
  "hls_variant \<Rightarrow> variant_metadata option \<Rightarrow> playback_variant \<Rightarrow> bool" where
  "variant_matches_accepted accepted metadata candidate =
     (if pv_kind candidate \<noteq> Dash \<or> pv_flv_segments candidate \<noteq> []
         \<or> (pv_audio candidate \<noteq> None) \<noteq> (hv_audio accepted \<noteq> None)
      then False
      else case pv_video candidate of
        None \<Rightarrow> False
      | Some video \<Rightarrow>
          if \<not> request_matches_accepted (hr_request (hv_video accepted)) video then False
          else if (case (hv_audio accepted, pv_audio candidate) of
                     (Some a, Some b) \<Rightarrow> \<not> request_matches_accepted (hr_request a) b
                   | _ \<Rightarrow> False)
          then False
          else (case metadata of
            Some m \<Rightarrow>
              pv_content_id candidate = vm_content_id m
              \<and> pv_bandwidth candidate = vm_bandwidth m
              \<and> pv_codecs candidate = vm_codecs m
              \<and> pv_mime_types candidate = vm_mime_types m
              \<and> pv_width candidate = vm_width m
              \<and> pv_height candidate = vm_height m
              \<and> pv_frame_rate candidate = vm_frame_rate m
              \<and> pv_duration_seconds candidate = vm_duration_seconds m
          | None \<Rightarrow>
              or_unwrap (pv_bandwidth candidate) (mr_bandwidth video) DEFAULT_BANDWIDTH = hv_bandwidth accepted
              \<and> hls_variant_codecs candidate video (pv_audio candidate) = hv_codecs accepted
              \<and> pv_width candidate = hv_width accepted
              \<and> pv_height candidate = hv_height accepted
              \<and> or_unwrap (pv_duration_seconds candidate) (mr_duration_seconds video) DEFAULT_DURATION_SECONDS
                  = hv_duration_seconds accepted))"

section \<open>Refreshing the addresses\<close>

definition replace_request_candidates :: "adapter_request \<Rightarrow> adapter_request \<Rightarrow> adapter_request" where
  "replace_request_candidates fresh accepted =
     accepted\<lparr>mr_url := mr_url fresh, mr_backup_urls := mr_backup_urls fresh, mr_headers := mr_headers fresh\<rparr>"

definition refresh_resource :: "adapter_request \<Rightarrow> media_resource \<Rightarrow> media_resource" where
  "refresh_resource fresh resource =
     resource\<lparr>hr_request := replace_request_candidates fresh (hr_request resource)\<rparr>"

definition apply_candidate :: "playback_variant \<Rightarrow> hls_variant \<Rightarrow> session_error + hls_variant" where
  "apply_candidate candidate accepted =
     (case pv_video candidate of
        None \<Rightarrow> Inl SessionPanic
      | Some video \<Rightarrow>
          let v = accepted\<lparr>hv_video := refresh_resource video (hv_video accepted)\<rparr> in
          (case (hv_audio v, pv_audio candidate) of
             (Some audio, Some fresh) \<Rightarrow> Inr (v\<lparr>hv_audio := Some (refresh_resource fresh audio)\<rparr>)
           | (None, None) \<Rightarrow> Inr v
           | _ \<Rightarrow> Inl SessionPanic))"

definition refresh_accepted_variant ::
  "hls_variant \<Rightarrow> hls_session \<Rightarrow> playback_entry \<Rightarrow> session_error + hls_variant" where
  "refresh_accepted_variant accepted session entry =
     (let metadata = find (\<lambda>m. vm_id m = hv_id accepted) (ss_variants session) in
      case filter (variant_matches_accepted accepted metadata) (pe_variants entry) of
        [] \<Rightarrow> Inl (SessionError ''Refreshed playback plan is missing an accepted HLS representation.'')
      | candidate # others \<Rightarrow>
          if others \<noteq> [] then
            Inl (SessionError ''Refreshed playback plan ambiguously matches an accepted HLS representation.'')
          else apply_candidate candidate accepted)"

definition alternate_error :: "nat \<Rightarrow> session_error \<Rightarrow> session_error" where
  "alternate_error index e =
     (case e of
        SessionPanic \<Rightarrow> SessionPanic
      | SessionError m \<Rightarrow>
          SessionError (''Refreshed playback plan does not uniquely match accepted HLS alternate ''
            @ decimal index @ ''.''))"

fun refresh_alternates ::
  "nat \<Rightarrow> hls_variant list \<Rightarrow> hls_session \<Rightarrow> playback_entry \<Rightarrow> session_error + hls_variant list" where
  "refresh_alternates index [] session entry = Inr []"
| "refresh_alternates index (v # vs) session entry =
     result_bind (map_err (alternate_error index) (refresh_accepted_variant v session entry)) (\<lambda>v'.
     result_bind (refresh_alternates (Suc index) vs session entry) (\<lambda>vs'. Inr (v' # vs')))"

definition with_refreshed_media_requests ::
  "hls_session \<Rightarrow> playback_entry list \<Rightarrow> session_error + hls_session" where
  "with_refreshed_media_requests session entries =
     (case ss_accepted_identity session of
        None \<Rightarrow> Inl (SessionError ''HLS session has no accepted content identity.'')
      | Some i \<Rightarrow>
          if \<not> valid_accepted_identity i then
            Inl (SessionError ''HLS session has an invalid accepted content identity.'')
          else (case entries of
            [entry] \<Rightarrow>
              if \<not> entry_matches_identity entry i then
                Inl (SessionError ''Refreshed playback plan does not contain the accepted content.'')
              else
                result_bind (refresh_accepted_variant (ss_variant session) session entry) (\<lambda>v.
                result_bind (refresh_alternates 0 (ss_alternate_variants session) session entry) (\<lambda>vs.
                  Inr (session\<lparr>ss_variant := v, ss_alternate_variants := vs\<rparr>)))
          | _ \<Rightarrow> Inl (SessionError ''Refreshed playback plan must contain exactly one content entry.'')))"

section \<open>A refresh changes addresses only\<close>

text \<open>What is left of a session when its addresses are taken out, and the addresses of a request.\<close>

definition without_addresses :: "adapter_request \<Rightarrow> adapter_request" where
  "without_addresses r = r\<lparr>mr_url := [], mr_backup_urls := [], mr_headers := []\<rparr>"

definition resource_rep :: "media_resource \<Rightarrow> media_resource" where
  "resource_rep r = r\<lparr>hr_request := without_addresses (hr_request r)\<rparr>"

definition variant_rep :: "hls_variant \<Rightarrow> hls_variant" where
  "variant_rep v = v\<lparr>hv_video := resource_rep (hv_video v), hv_audio := map_option resource_rep (hv_audio v)\<rparr>"

definition session_rep :: "hls_session \<Rightarrow> hls_session" where
  "session_rep s =
     s\<lparr>ss_variant := variant_rep (ss_variant s), ss_alternate_variants := map variant_rep (ss_alternate_variants s)\<rparr>"

definition addresses :: "adapter_request \<Rightarrow> string \<times> string list \<times> http_header list" where
  "addresses r = (mr_url r, mr_backup_urls r, mr_headers r)"

definition session_variants :: "hls_session \<Rightarrow> hls_variant list" where
  "session_variants s = ss_variant s # ss_alternate_variants s"

definition matching_candidates :: "hls_session \<Rightarrow> playback_entry \<Rightarrow> hls_variant \<Rightarrow> playback_variant list" where
  "matching_candidates s entry v =
     filter (variant_matches_accepted v (find (\<lambda>m. vm_id m = hv_id v) (ss_variants s))) (pe_variants entry)"

definition takes_addresses_from :: "playback_variant \<Rightarrow> hls_variant \<Rightarrow> bool" where
  "takes_addresses_from c v \<longleftrightarrow>
     map_option addresses (pv_video c) = Some (addresses (hr_request (hv_video v)))
     \<and> map_option addresses (pv_audio c) = map_option (addresses \<circ> hr_request) (hv_audio v)"

lemma replace_request_candidates_rep:
  "without_addresses (replace_request_candidates fresh r) = without_addresses r"
  "addresses (replace_request_candidates fresh r) = addresses fresh"
  by (simp_all add: without_addresses_def replace_request_candidates_def addresses_def)

lemma replace_request_candidates_cong:
  "without_addresses r = without_addresses q \<Longrightarrow>
    replace_request_candidates fresh r = replace_request_candidates fresh q"
  by (cases r; cases q) (auto simp: without_addresses_def replace_request_candidates_def)

lemma refresh_resource_rep [simp]:
  "resource_rep (refresh_resource fresh r) = resource_rep r"
  "addresses (hr_request (refresh_resource fresh r)) = addresses fresh"
  by (simp_all add: resource_rep_def refresh_resource_def replace_request_candidates_rep)

lemma refresh_resource_cong:
  "resource_rep r = resource_rep q \<Longrightarrow> refresh_resource fresh r = refresh_resource fresh q"
  by (cases r; cases q)
    (auto simp: resource_rep_def refresh_resource_def intro: replace_request_candidates_cong)

lemma variant_matches_audio:
  "variant_matches_accepted v m c \<Longrightarrow> pv_video c \<noteq> None \<and> (pv_audio c = None \<longleftrightarrow> hv_audio v = None)"
  by (auto simp: variant_matches_accepted_def split: if_splits option.splits)

text \<open>A matched candidate never meets the panics of the source.\<close>

lemma apply_candidate_matched:
  assumes "variant_matches_accepted v m c"
  obtains v' where "apply_candidate c v = Inr v'" "variant_rep v' = variant_rep v" "takes_addresses_from c v'"
proof -
  obtain video where video: "pv_video c = Some video"
    using variant_matches_audio [OF assms] by auto
  show ?thesis
  proof (cases "hv_audio v")
    case None
    then have "pv_audio c = None" using variant_matches_audio [OF assms] by simp
    with None video show ?thesis
      by (intro that [of "v\<lparr>hv_video := refresh_resource video (hv_video v)\<rparr>"]) (simp_all add: apply_candidate_def Let_def variant_rep_def takes_addresses_from_def)
  next
    case (Some audio)
    then obtain fresh where "pv_audio c = Some fresh" using variant_matches_audio [OF assms] by auto
    with Some video show ?thesis
      by (intro that [of "v\<lparr>hv_video := refresh_resource video (hv_video v),
          hv_audio := Some (refresh_resource fresh audio)\<rparr>"]) (simp_all add: apply_candidate_def Let_def variant_rep_def takes_addresses_from_def)
  qed
qed

lemma refresh_accepted_variant_cases:
  "if \<exists>c. matching_candidates s entry v = [c]
   then \<exists>v'. refresh_accepted_variant v s entry = Inr v' \<and> variant_rep v' = variant_rep v
     \<and> takes_addresses_from (hd (matching_candidates s entry v)) v'
   else \<exists>msg. refresh_accepted_variant v s entry = Inl (SessionError msg)"
proof (cases "matching_candidates s entry v")
  case Nil
  then show ?thesis by (simp add: refresh_accepted_variant_def matching_candidates_def)
next
  case (Cons c cs)
  then have "c \<in> set (matching_candidates s entry v)" by simp
  then have m: "variant_matches_accepted v (find (\<lambda>m. vm_id m = hv_id v) (ss_variants s)) c"
    by (simp add: matching_candidates_def)
  obtain v' where "apply_candidate c v = Inr v'" "variant_rep v' = variant_rep v" "takes_addresses_from c v'"
    by (rule apply_candidate_matched [OF m])
  with Cons show ?thesis
    by (cases cs) (simp_all add: refresh_accepted_variant_def matching_candidates_def)
qed

definition refreshed_variant :: "hls_session \<Rightarrow> playback_entry \<Rightarrow> hls_variant \<Rightarrow> hls_variant \<Rightarrow> bool" where
  "refreshed_variant s entry old new \<longleftrightarrow>
     variant_rep new = variant_rep old
     \<and> (\<exists>c. matching_candidates s entry old = [c] \<and> takes_addresses_from c new)"

lemma refresh_accepted_variant_Inr:
  "refresh_accepted_variant v s entry = Inr v' \<Longrightarrow> refreshed_variant s entry v v'"
  using refresh_accepted_variant_cases [of s entry v]
  by (auto simp: refreshed_variant_def split: if_splits)

lemma refresh_accepted_variant_no_panic: "refresh_accepted_variant v s entry \<noteq> Inl SessionPanic"
  using refresh_accepted_variant_cases [of s entry v] by (auto split: if_splits)

lemma refresh_alternates_Inr:
  "refresh_alternates k vs s entry = Inr vs' \<Longrightarrow> list_all2 (refreshed_variant s entry) vs vs'"
  by (induction vs arbitrary: k vs')
    (auto simp: result_bind_def map_err_def split: sum.splits dest: refresh_accepted_variant_Inr)

lemma refresh_alternates_no_panic: "refresh_alternates k vs s entry \<noteq> Inl SessionPanic"
  by (induction vs arbitrary: k)
    (auto simp: result_bind_def map_err_def alternate_error_def refresh_accepted_variant_no_panic
      split: sum.splits session_error.splits)

lemma refreshed_variants_rep:
  "list_all2 (refreshed_variant s entry) vs vs' \<Longrightarrow> map variant_rep vs' = map variant_rep vs"
  by (induction rule: list_all2_induct) (auto simp: refreshed_variant_def)

text \<open>
  C30. A refresh of a session succeeds only with a plan of the accepted content, and then only the addresses
  of its media change (the URL, the backups, the headers): each variant takes those of the one planned
  variant that is the same representation. Everything else of the session is what it was, and no panic
  of the source is reached.
\<close>

theorem refresh_changes_only_addresses:
  "with_refreshed_media_requests s entries \<noteq> Inl SessionPanic
   \<and> (with_refreshed_media_requests s entries = Inr s' \<longrightarrow>
      session_rep s' = session_rep s
      \<and> (\<exists>entry i. entries = [entry] \<and> ss_accepted_identity s = Some i \<and> entry_matches_identity entry i
         \<and> list_all2 (refreshed_variant s entry) (session_variants s) (session_variants s')))"
proof (intro conjI impI)
  show "with_refreshed_media_requests s entries \<noteq> Inl SessionPanic"
    using refresh_accepted_variant_no_panic [of "ss_variant s" s] refresh_alternates_no_panic [of 0 "ss_alternate_variants s" s]
    by (auto simp: with_refreshed_media_requests_def result_bind_def split: option.splits list.splits sum.splits)
next
  assume "with_refreshed_media_requests s entries = Inr s'"
  then obtain i entry v vs where ok: "ss_accepted_identity s = Some i" "entries = [entry]"
      "entry_matches_identity entry i" "refresh_accepted_variant (ss_variant s) s entry = Inr v"
      "refresh_alternates 0 (ss_alternate_variants s) s entry = Inr vs"
      "s' = s\<lparr>ss_variant := v, ss_alternate_variants := vs\<rparr>"
    by (auto simp: with_refreshed_media_requests_def result_bind_def
        split: option.splits list.splits if_splits sum.splits)
  have "list_all2 (refreshed_variant s entry) (session_variants s) (session_variants s')"
    using ok by (simp add: session_variants_def refresh_accepted_variant_Inr refresh_alternates_Inr)
  moreover from refreshed_variants_rep [OF this] have "session_rep s' = session_rep s"
    using ok(6) by (simp add: session_rep_def session_variants_def)
  ultimately show "session_rep s' = session_rep s" and "\<exists>entry i. entries = [entry] \<and> ss_accepted_identity s = Some i \<and> entry_matches_identity entry i
         \<and> list_all2 (refreshed_variant s entry) (session_variants s) (session_variants s')"
    using ok by auto
qed

section \<open>A refreshed session can be refreshed again\<close>

lemma request_matches_rep:
  "without_addresses r = without_addresses q \<Longrightarrow> request_matches_accepted r c = request_matches_accepted q c"
  by (cases r; cases q) (auto simp: without_addresses_def request_matches_accepted_def)

lemma variant_rep_fields:
  assumes "variant_rep v = variant_rep w"
  shows "hv_id v = hv_id w" "hv_bandwidth v = hv_bandwidth w" "hv_codecs v = hv_codecs w"
    "hv_width v = hv_width w" "hv_height v = hv_height w" "hv_duration_seconds v = hv_duration_seconds w"
    "resource_rep (hv_video v) = resource_rep (hv_video w)"
    "map_option resource_rep (hv_audio v) = map_option resource_rep (hv_audio w)"
  using assms by (cases v; cases w; auto simp: variant_rep_def)+

lemma resource_rep_request:
  "resource_rep r = resource_rep q \<Longrightarrow> without_addresses (hr_request r) = without_addresses (hr_request q)"
  by (cases r; cases q) (simp add: resource_rep_def)

lemma variant_matches_rep:
  assumes "variant_rep v = variant_rep w"
  shows "variant_matches_accepted v m c = variant_matches_accepted w m c"
proof -
  note f = variant_rep_fields [OF assms]
  have video: "request_matches_accepted (hr_request (hv_video v)) r = request_matches_accepted (hr_request (hv_video w)) r" for r
    using request_matches_rep resource_rep_request [OF f(7)] by blast
  show ?thesis
  proof (cases "hv_audio v")
    case None
    then have "hv_audio w = None" using f(8) by simp
    with None show ?thesis by (simp add: variant_matches_accepted_def video f(2-6) split: option.split)
  next
    case (Some a)
    then obtain b where b: "hv_audio w = Some b" "resource_rep a = resource_rep b"
      using f(8) by (cases "hv_audio w") auto
    have "request_matches_accepted (hr_request a) r = request_matches_accepted (hr_request b) r" for r
      using request_matches_rep resource_rep_request [OF b(2)] by blast
    with Some b(1) show ?thesis
      by (simp add: variant_matches_accepted_def video f(2-6) split: option.split)
  qed
qed

lemma apply_candidate_rep:
  assumes "variant_rep v = variant_rep w"
  shows "apply_candidate c v = apply_candidate c w"
proof -
  note f = variant_rep_fields [OF assms]
  have video: "refresh_resource fresh (hv_video v) = refresh_resource fresh (hv_video w)" for fresh
    by (rule refresh_resource_cong [OF f(7)])
  show ?thesis
  proof (cases "hv_audio v")
    case None
    then have "v\<lparr>hv_video := x\<rparr> = w\<lparr>hv_video := x\<rparr>" for x
      using f by (cases v; cases w) simp
    moreover have "hv_audio w = None" using None f(8) by simp
    ultimately show ?thesis
      using None video by (simp add: apply_candidate_def Let_def split: option.split)
  next
    case (Some a)
    then obtain b where b: "hv_audio w = Some b" "resource_rep a = resource_rep b"
      using f(8) by (cases "hv_audio w") auto
    have "v\<lparr>hv_video := x, hv_audio := y\<rparr> = w\<lparr>hv_video := x, hv_audio := y\<rparr>" for x y
      using f by (cases v; cases w) simp
    then show ?thesis
      using Some b video refresh_resource_cong [OF b(2)]
      by (simp add: apply_candidate_def Let_def split: option.split)
  qed
qed

lemma refresh_accepted_variant_rep:
  assumes "variant_rep v = variant_rep w" "ss_variants s = ss_variants t"
  shows "refresh_accepted_variant v s entry = refresh_accepted_variant w t entry"
  unfolding refresh_accepted_variant_def assms(2) variant_rep_fields(1) [OF assms(1)]
    variant_matches_rep [OF assms(1), abs_def] apply_candidate_rep [OF assms(1)] ..

lemma refresh_alternates_rep:
  assumes "ss_variants s = ss_variants t" "map variant_rep vs = map variant_rep ws"
  shows "refresh_alternates k vs s entry = refresh_alternates k ws t entry"
  using assms(2)
proof (induction vs arbitrary: ws k)
  case (Cons v vs)
  then obtain w ws' where ws: "ws = w # ws'" "variant_rep v = variant_rep w" "map variant_rep vs = map variant_rep ws'"
    by (cases ws) auto
  show ?case
    using refresh_accepted_variant_rep [OF ws(2) assms(1), of entry] Cons.IH [OF ws(3), of "Suc k"] ws(1) by simp
qed simp

lemma session_rep_fields:
  assumes "session_rep s = session_rep t"
  shows "ss_accepted_identity s = ss_accepted_identity t" "ss_variants s = ss_variants t"
    "variant_rep (ss_variant s) = variant_rep (ss_variant t)"
    "map variant_rep (ss_alternate_variants s) = map variant_rep (ss_alternate_variants t)"
    "s\<lparr>ss_variant := v, ss_alternate_variants := vs\<rparr> = t\<lparr>ss_variant := v, ss_alternate_variants := vs\<rparr>"
  using assms by (cases s; cases t; simp add: session_rep_def)+

lemma refresh_depends_on_rep:
  assumes "session_rep s = session_rep t"
  shows "with_refreshed_media_requests s entries = with_refreshed_media_requests t entries"
proof -
  note f = session_rep_fields [OF assms]
  show ?thesis
    unfolding with_refreshed_media_requests_def f(1) f(5)
      refresh_accepted_variant_rep [OF f(3) f(2)] refresh_alternates_rep [OF f(2) f(4)] ..
qed

text \<open>
  The addresses of a refreshed session come from the last plan alone: refreshing it again gives what
  refreshing the first session with that plan gives, success and error alike.
\<close>

theorem refresh_forgets_old_addresses:
  assumes "with_refreshed_media_requests s earlier = Inr m"
  shows "with_refreshed_media_requests m entries = with_refreshed_media_requests s entries"
  using refresh_changes_only_addresses [of s earlier m] assms by (blast intro: refresh_depends_on_rep)

end
