(* ===== verification/Hls_Playlists.thy ===== *)
theory Hls_Playlists
  imports Hls_Sessions
begin

text \<open>
  The playlists of an HLS session (\<open>hls.rs\<close>): the master playlist with its variants and audio groups,
  the media playlists with their byte ranges, the lookup of a playlist or media resource by its name,
  and which headers of a media request may go to another origin. A playlist is its text; what a
  player reads from it is stated by parsing that text again.
\<close>

section \<open>Text\<close>

definition newline :: char where "newline = CHR 0x0A"

definition dquote :: char where "dquote = CHR 0x22"

definition quoted :: "string \<Rightarrow> string" where
  "quoted s = dquote # s @ [dquote]"

text \<open>Two \<open>replace\<close> calls: the backslashes first, then the quotes.\<close>

definition escape_quoted :: "string \<Rightarrow> string" where
  "escape_quoted v =
     concat (map (\<lambda>c. if c = dquote then [CHR 0x5C, dquote] else [c])
       (concat (map (\<lambda>c. if c = CHR 0x5C then [CHR 0x5C, CHR 0x5C] else [c]) v)))"

definition media_playlist_id :: "string \<Rightarrow> string" where
  "media_playlist_id resource_id =
     (case strip_suffix ''.m4s'' resource_id of
        Some stem \<Rightarrow> stem @ ''.m3u8''
      | None \<Rightarrow> resource_id @ ''.m3u8'')"

definition audio_group_id :: "nat \<Rightarrow> string" where
  "audio_group_id index = (if index = 0 then ''audio'' else ''audio-v'' @ decimal index)"

section \<open>Variants\<close>

definition variant_resolution :: "hls_variant \<Rightarrow> string option" where
  "variant_resolution v =
     (case (hv_width v, hv_height v) of
        (Some width, Some height) \<Rightarrow> Some (decimal width @ ''x'' @ decimal height)
      | _ \<Rightarrow> None)"

text \<open>\<open>join(",")\<close>.\<close>

fun join_comma :: "string list \<Rightarrow> string" where
  "join_comma [] = []"
| "join_comma [s] = s"
| "join_comma (s # ss) = s @ '','' @ join_comma ss"

definition codecs_attribute :: "hls_variant \<Rightarrow> string option" where
  "codecs_attribute v =
     (let own = fold push_unique_codec (hv_codecs v) [];
          codecs = (case Option.bind (hv_audio v) (\<lambda>audio. mr_codecs (hr_request audio)) of
                      Some c \<Rightarrow> push_unique_codec c own
                    | None \<Rightarrow> own) in
      if codecs = [] then None else Some (join_comma codecs))"

definition video_playlist_id :: "hls_variant \<Rightarrow> string" where
  "video_playlist_id v = media_playlist_id (hr_id (hv_video v))"

definition audio_playlist_id :: "hls_variant \<Rightarrow> string option" where
  "audio_playlist_id v = map_option (\<lambda>audio. media_playlist_id (hr_id audio)) (hv_audio v)"

definition advertised_variants :: "hls_session \<Rightarrow> hls_variant list" where
  "advertised_variants s =
     ss_variant s # (if ss_advertise_alternate_variants s then ss_alternate_variants s else [])"

definition resource_variants :: "hls_session \<Rightarrow> hls_variant list" where
  "resource_variants s = ss_variant s # ss_alternate_variants s"

definition advertised_variants_with_filter :: "hls_session \<Rightarrow> (hls_variant \<Rightarrow> bool) \<Rightarrow> hls_variant list" where
  "advertised_variants_with_filter s p =
     (let advertised = advertised_variants s; filtered = filter p advertised in
      if filtered \<noteq> [] then filtered else take 1 (sort_key hv_bandwidth advertised))"

definition variant_is_advertised_with_filter :: "hls_session \<Rightarrow> string \<Rightarrow> (hls_variant \<Rightarrow> bool) \<Rightarrow> bool" where
  "variant_is_advertised_with_filter s variant_id p =
     list_ex (\<lambda>v. hv_id v = variant_id) (advertised_variants_with_filter s p)"

section \<open>The master playlist\<close>

definition media_line :: "nat \<Rightarrow> hls_variant \<Rightarrow> string" where
  "media_line index v =
     (case audio_playlist_id v of
        None \<Rightarrow> []
      | Some playlist_id \<Rightarrow>
          let name = (if index = 0 then ''Default'' else ''Variant '' @ decimal index) in
          ''#EXT-X-MEDIA:TYPE=AUDIO,GROUP-ID='' @ quoted (escape_quoted (audio_group_id index))
          @ '',NAME='' @ quoted (escape_quoted name) @ '',DEFAULT=YES,AUTOSELECT=YES,URI=''
          @ quoted (''segments/'' @ escape_quoted playlist_id) @ [newline])"

definition stream_attributes :: "nat \<Rightarrow> hls_variant \<Rightarrow> string" where
  "stream_attributes index v =
     ''#EXT-X-STREAM-INF:BANDWIDTH='' @ decimal (hv_bandwidth v)
     @ (case variant_resolution v of Some r \<Rightarrow> '',RESOLUTION='' @ r | None \<Rightarrow> [])
     @ (case codecs_attribute v of Some c \<Rightarrow> '',CODECS='' @ quoted (escape_quoted c) | None \<Rightarrow> [])
     @ (if hv_audio v \<noteq> None then '',AUDIO='' @ quoted (escape_quoted (audio_group_id index)) else [])"

definition stream_lines :: "nat \<Rightarrow> hls_variant \<Rightarrow> string" where
  "stream_lines index v =
     stream_attributes index v @ [newline] @ ''segments/'' @ escape_quoted (video_playlist_id v) @ [newline]"

definition master_playlist_with_variant_filter :: "hls_session \<Rightarrow> (hls_variant \<Rightarrow> bool) \<Rightarrow> string" where
  "master_playlist_with_variant_filter s p =
     (let variants = enumerate 0 (advertised_variants_with_filter s p) in
      ''#EXTM3U'' @ [newline] @ ''#EXT-X-VERSION:7'' @ [newline] @ ''#EXT-X-INDEPENDENT-SEGMENTS'' @ [newline]
      @ concat (map (\<lambda>(index, v). media_line index v) variants)
      @ concat (map (\<lambda>(index, v). stream_lines index v) variants))"

section \<open>Media playlists\<close>

record hls_media_segment =
  ms_offset :: nat
  ms_length :: nat
  ms_duration_millis :: nat

text \<open>\<open>format!("{:03}")\<close>.\<close>

definition pad3 :: "nat \<Rightarrow> string" where
  "pad3 n = (let d = decimal n in replicate (3 - length d) CHR ''0'' @ d)"

definition format_duration_millis :: "nat \<Rightarrow> string" where
  "format_duration_millis m = decimal (m div 1000) @ ''.'' @ pad3 (m mod 1000)"

fun segments_chain :: "nat \<Rightarrow> nat \<Rightarrow> hls_media_segment list \<Rightarrow> bool" where
  "segments_chain previous_end total_length [] = (previous_end = total_length)"
| "segments_chain previous_end total_length (segment # segments) =
     (if ms_length segment = 0 \<or> ms_duration_millis segment = 0 \<or> ms_offset segment \<noteq> previous_end then False
      else case checked_add (ms_offset segment) (ms_length segment) of
        None \<Rightarrow> False
      | Some e \<Rightarrow> if e > total_length then False else segments_chain e total_length segments)"

definition segments_are_valid_for_resource :: "hls_media_segment list \<Rightarrow> nat \<Rightarrow> nat \<Rightarrow> bool" where
  "segments_are_valid_for_resource segments initialization_length total_length =
     segments_chain initialization_length total_length segments"

definition map_line :: "string \<Rightarrow> nat \<Rightarrow> string" where
  "map_line resource_id initialization_length =
     ''#EXT-X-MAP:URI='' @ quoted resource_id @ '',BYTERANGE=''
     @ quoted (decimal initialization_length @ ''@0'')"

definition playlist_head :: "string \<Rightarrow> nat \<Rightarrow> nat \<Rightarrow> string" where
  "playlist_head resource_id duration initialization_length =
     ''#EXTM3U'' @ [newline] @ ''#EXT-X-VERSION:7'' @ [newline] @ ''#EXT-X-PLAYLIST-TYPE:VOD'' @ [newline]
     @ ''#EXT-X-TARGETDURATION:'' @ decimal duration @ [newline]
     @ map_line resource_id initialization_length @ [newline]"

definition range_lines :: "string \<Rightarrow> string \<Rightarrow> nat \<Rightarrow> nat \<Rightarrow> string" where
  "range_lines resource_id duration len offset =
     ''#EXTINF:'' @ duration @ '','' @ [newline]
     @ ''#EXT-X-BYTERANGE:'' @ decimal len @ ''@'' @ decimal offset @ [newline] @ resource_id @ [newline]"

definition target_duration :: "hls_media_segment list \<Rightarrow> nat" where
  "target_duration segments = fold max (map (\<lambda>s. div_ceil (ms_duration_millis s) 1000) segments) 1"

definition split_media_playlist_for_resource :: "media_resource \<Rightarrow> nat \<Rightarrow> hls_media_segment list \<Rightarrow> string" where
  "split_media_playlist_for_resource resource initialization_length segments =
     playlist_head (hr_id resource) (target_duration segments) initialization_length
     @ concat (map (\<lambda>s. range_lines (hr_id resource) (format_duration_millis (ms_duration_millis s))
         (ms_length s) (ms_offset s)) segments)
     @ ''#EXT-X-ENDLIST'' @ [newline]"

definition media_playlist_for_resource ::
  "hls_variant \<Rightarrow> media_resource \<Rightarrow> nat \<Rightarrow> nat \<Rightarrow> hls_media_segment list \<Rightarrow> string option" where
  "media_playlist_for_resource v resource initialization_length total_length segments =
     (case checked_sub total_length initialization_length of
        None \<Rightarrow> None
      | Some media_length \<Rightarrow>
          if initialization_length = 0 \<or> media_length = 0 then None
          else
            let duration = max (case mr_duration_seconds (hr_request resource) of
                  Some d \<Rightarrow> d | None \<Rightarrow> hv_duration_seconds v) DEFAULT_DURATION_SECONDS in
            if length segments \<ge> 2 \<and> segments_are_valid_for_resource segments initialization_length total_length
            then Some (split_media_playlist_for_resource resource initialization_length segments)
            else Some (playlist_head (hr_id resource) duration initialization_length
              @ range_lines (hr_id resource) (decimal duration @ ''.000'') media_length initialization_length
              @ ''#EXT-X-ENDLIST'' @ [newline]))"

section \<open>Looking up by name\<close>

fun media_playlist_resource_ref_from :: "hls_variant list \<Rightarrow> string \<Rightarrow> (hls_variant \<times> media_resource) option" where
  "media_playlist_resource_ref_from [] playlist_id = None"
| "media_playlist_resource_ref_from (v # vs) playlist_id =
     (if playlist_id = video_playlist_id v then Some (v, hv_video v)
      else case hv_audio v of
        Some audio \<Rightarrow>
          if audio_playlist_id v = Some playlist_id then Some (v, audio)
          else media_playlist_resource_ref_from vs playlist_id
      | None \<Rightarrow> media_playlist_resource_ref_from vs playlist_id)"

definition lookup_media_playlist_resource :: "hls_session \<Rightarrow> string \<Rightarrow> (hls_variant \<times> media_resource) option" where
  "lookup_media_playlist_resource s playlist_id =
     media_playlist_resource_ref_from (resource_variants s) playlist_id"

definition servable_media_playlist_resource :: "hls_session \<Rightarrow> string \<Rightarrow> (hls_variant \<times> media_resource) option" where
  "servable_media_playlist_resource s playlist_id =
     media_playlist_resource_ref_from (advertised_variants s) playlist_id"

definition servable_media_playlist ::
  "hls_session \<Rightarrow> string \<Rightarrow> nat \<Rightarrow> nat \<Rightarrow> hls_media_segment list \<Rightarrow> string option" where
  "servable_media_playlist s playlist_id initialization_length total_length segments =
     Option.bind (servable_media_playlist_resource s playlist_id) (\<lambda>(v, resource).
       media_playlist_for_resource v resource initialization_length total_length segments)"

definition lookup_media_playlist ::
  "hls_session \<Rightarrow> string \<Rightarrow> nat \<Rightarrow> nat \<Rightarrow> hls_media_segment list \<Rightarrow> string option" where
  "lookup_media_playlist s playlist_id initialization_length total_length segments =
     Option.bind (lookup_media_playlist_resource s playlist_id) (\<lambda>(v, resource).
       media_playlist_for_resource v resource initialization_length total_length segments)"

fun media_resource_from :: "hls_variant list \<Rightarrow> string \<Rightarrow> (string \<times> media_resource) option" where
  "media_resource_from [] segment_id = None"
| "media_resource_from (v # vs) segment_id =
     (if segment_id = hr_id (hv_video v) then Some (hv_id v, hv_video v)
      else case hv_audio v of
        Some audio \<Rightarrow>
          if segment_id = hr_id audio then Some (hv_id v, audio) else media_resource_from vs segment_id
      | None \<Rightarrow> media_resource_from vs segment_id)"

definition media_resource_with_variant :: "hls_session \<Rightarrow> string \<Rightarrow> (string \<times> media_resource) option" where
  "media_resource_with_variant s segment_id = media_resource_from (resource_variants s) segment_id"

definition servable_media_resource_with_variant :: "hls_session \<Rightarrow> string \<Rightarrow> (string \<times> media_resource) option" where
  "servable_media_resource_with_variant s segment_id = media_resource_from (advertised_variants s) segment_id"

definition resource_content_type :: "media_resource \<Rightarrow> string" where
  "resource_content_type r =
     (case mr_mime_type (hr_request r) of
        Some v \<Rightarrow> if trim v \<noteq> [] then v else ''application/octet-stream''
      | None \<Rightarrow> ''application/octet-stream'')"

section \<open>Headers for other origins\<close>

definition known_default_port :: "string \<Rightarrow> nat option" where
  "known_default_port scheme =
     (if scheme = ''http'' \<or> scheme = ''ws'' then Some 80
      else if scheme = ''https'' \<or> scheme = ''wss'' then Some 443
      else if scheme = ''ftp'' then Some 21 else None)"

definition port_or_known_default :: "parsed_url \<Rightarrow> nat option" where
  "port_or_known_default url =
     (case pu_port url of Some p \<Rightarrow> Some p | None \<Rightarrow> known_default_port (pu_scheme url))"

definition media_request_origins_match :: "url_parser \<Rightarrow> string \<Rightarrow> string \<Rightarrow> bool" where
  "media_request_origins_match parse left right =
     (case (parse left, parse right) of
        (Some l, Some r) \<Rightarrow> pu_scheme l = pu_scheme r \<and> pu_host l = pu_host r
          \<and> port_or_known_default l = port_or_known_default r
      | _ \<Rightarrow> False)"

definition is_cross_origin_safe_media_header :: "string \<Rightarrow> bool" where
  "is_cross_origin_safe_media_header name \<longleftrightarrow>
     map ascii_lower name \<in> set [''accept'', ''accept-language'', ''origin'', ''referer'', ''referrer'', ''user-agent'']"

definition should_forward_media_request_header :: "url_parser \<Rightarrow> string \<Rightarrow> string \<Rightarrow> string \<Rightarrow> bool" where
  "should_forward_media_request_header parse name primary_url target_url =
     (if media_request_origins_match parse primary_url target_url then True
      else is_cross_origin_safe_media_header name)"

text \<open>The headers that \<open>hls_upstream_request_builder\<close> puts on a request for \<open>url\<close>.\<close>

definition forwarded_headers :: "url_parser \<Rightarrow> media_resource \<Rightarrow> string \<Rightarrow> http_header list" where
  "forwarded_headers parse resource url =
     filter (\<lambda>h. should_forward_media_request_header parse (hd_name h) (mr_url (hr_request resource)) url)
       (mr_headers (hr_request resource))"

section \<open>Lines\<close>

definition lines_text :: "string list \<Rightarrow> string" where
  "lines_text ls = concat (map (\<lambda>l. l @ [newline]) ls)"

lemma lines_text_simps [simp]:
  "lines_text [] = []" "lines_text (l # ls) = l @ newline # lines_text ls"
  "lines_text (ls @ ks) = lines_text ls @ lines_text ks"
  by (simp_all add: lines_text_def)

lemma split_lines_text:
  "\<forall>l \<in> set ls. newline \<notin> set l \<Longrightarrow> split_on newline (lines_text ls) = ls @ [[]]"
  by (induction ls) (simp_all add: split_on_append)

lemma newline_not_decimal [simp]: "newline \<notin> set (decimal n)"
  by (rule decimal_not_in) code_simp

lemma newline_literals [simp]: "newline \<notin> set ''video.m4s''" "newline \<notin> set ''audio.m4s''"
  by code_simp+

text \<open>A name that needs no escape and is not taken for a comment line.\<close>

definition plain_name :: "string \<Rightarrow> bool" where
  "plain_name s \<longleftrightarrow> s \<noteq> [] \<and> hd s \<noteq> CHR ''#'' \<and> newline \<notin> set s \<and> dquote \<notin> set s \<and> CHR 0x5C \<notin> set s"

lemma escape_plain: "dquote \<notin> set s \<Longrightarrow> CHR 0x5C \<notin> set s \<Longrightarrow> escape_quoted s = s"
proof -
  assume a: "dquote \<notin> set s" "CHR 0x5C \<notin> set s"
  have id: "\<And>c x. x \<notin> set s \<Longrightarrow> concat (map (\<lambda>c. if c = x then y else [c]) s) = s" for y :: string
    by (induction s) auto
  show ?thesis using a by (simp add: escape_quoted_def id)
qed

lemma newline_escape [simp]: "newline \<in> set (escape_quoted s) \<longleftrightarrow> newline \<in> set s"
proof -
  have "newline \<noteq> CHR 0x5C" "newline \<noteq> dquote" by code_simp+
  then show ?thesis by (auto simp: escape_quoted_def split: if_splits)
qed

lemma trim_subset: "set (trim s) \<subseteq> set s"
  by (auto simp: trim_def dest!: set_dropWhileD)

lemma decimal_value: "foldl (\<lambda>a c. a * 10 + (of_char c - 48)) 0 (decimal n) = n"
proof (induction n rule: decimal.induct)
  case (1 n)
  then show ?case by (subst decimal.simps) auto
qed

lemma decimal_inj [simp]: "decimal m = decimal n \<longleftrightarrow> m = n"
  using decimal_value by metis

section \<open>The byte ranges that a playlist lists\<close>

definition parse_extent :: "string \<Rightarrow> (nat \<times> nat) option" where
  "parse_extent s =
     (case split_once CHR ''@'' s of
        Some (len, offset) \<Rightarrow>
          (case (parse_u64 len, parse_u64 offset) of (Some n, Some k) \<Rightarrow> Some (n, k) | _ \<Rightarrow> None)
      | None \<Rightarrow> None)"

definition range_of_line :: "string \<Rightarrow> (nat \<times> nat) option" where
  "range_of_line line = Option.bind (strip_prefix ''#EXT-X-BYTERANGE:'' line) parse_extent"

definition map_of_line :: "string \<Rightarrow> (nat \<times> nat) option" where
  "map_of_line line =
     Option.bind (strip_prefix ''#EXT-X-MAP:'' line) (\<lambda>attributes.
     Option.bind (rsplit_once dquote (butlast attributes)) (\<lambda>(_, extent). parse_extent extent))"

definition playlist_ranges :: "string \<Rightarrow> (nat \<times> nat) list" where
  "playlist_ranges text = List.map_filter range_of_line (split_on newline text)"

definition playlist_maps :: "string \<Rightarrow> (nat \<times> nat) list" where
  "playlist_maps text = List.map_filter map_of_line (split_on newline text)"

text \<open>Ranges, given as length and offset, that follow each other from the first position to the last.\<close>

fun ranges_follow :: "nat \<Rightarrow> (nat \<times> nat) list \<Rightarrow> nat \<Rightarrow> bool" where
  "ranges_follow start [] e = (start = e)"
| "ranges_follow start ((len, offset) # rs) e = (0 < len \<and> offset = start \<and> ranges_follow (start + len) rs e)"

lemma parse_extent_decimal [simp]:
  "n \<le> u64_max \<Longrightarrow> k \<le> u64_max \<Longrightarrow> parse_extent (decimal n @ CHR ''@'' # decimal k) = Some (n, k)"
proof -
  have "\<not> is_digit CHR ''@''" by code_simp
  then show "n \<le> u64_max \<Longrightarrow> k \<le> u64_max \<Longrightarrow> parse_extent (decimal n @ CHR ''@'' # decimal k) = Some (n, k)"
    by (simp add: parse_extent_def split_once_append decimal_not_in)
qed

definition head_lines :: "string \<Rightarrow> nat \<Rightarrow> nat \<Rightarrow> string list" where
  "head_lines i duration n =
     [''#EXTM3U'', ''#EXT-X-VERSION:7'', ''#EXT-X-PLAYLIST-TYPE:VOD'',
      ''#EXT-X-TARGETDURATION:'' @ decimal duration, map_line i n]"

definition segment_lines :: "string \<Rightarrow> string \<Rightarrow> nat \<Rightarrow> nat \<Rightarrow> string list" where
  "segment_lines i duration len offset =
     [''#EXTINF:'' @ duration @ '','', ''#EXT-X-BYTERANGE:'' @ decimal len @ ''@'' @ decimal offset, i]"

lemma playlist_head_lines: "playlist_head i d n = lines_text (head_lines i d n)"
  by (simp add: playlist_head_def head_lines_def)

lemma range_lines_lines: "range_lines i d n k = lines_text (segment_lines i d n k)"
  by (simp add: range_lines_def segment_lines_def)

lemma newline_eq: "newline = c \<longleftrightarrow> c = CHR 0x0A"
  by (auto simp: newline_def)

lemma dquote_newline [simp]: "dquote \<noteq> CHR 0x0A"
  by code_simp

lemma range_of_other_lines [simp]:
  "range_of_line [] = None" "range_of_line ''#EXTM3U'' = None" "range_of_line ''#EXT-X-VERSION:7'' = None"
  "range_of_line ''#EXT-X-PLAYLIST-TYPE:VOD'' = None" "range_of_line ''#EXT-X-ENDLIST'' = None"
  "range_of_line (''#EXT-X-TARGETDURATION:'' @ x) = None" "range_of_line (''#EXTINF:'' @ x) = None"
  "range_of_line (map_line i n) = None"
  by (simp_all add: range_of_line_def strip_prefix_def map_line_def)

lemma range_of_name [simp]: "plain_name i \<Longrightarrow> range_of_line i = None"
  by (cases i) (simp_all add: plain_name_def range_of_line_def strip_prefix_def)

lemma range_of_range_line [simp]:
  "n \<le> u64_max \<Longrightarrow> k \<le> u64_max \<Longrightarrow>
    range_of_line (''#EXT-X-BYTERANGE:'' @ decimal n @ ''@'' @ decimal k) = Some (n, k)"
  by (simp add: range_of_line_def strip_prefix_def)

lemma head_lines_ranges: "List.map_filter range_of_line (head_lines i d n) = []"
  unfolding head_lines_def by (simp only: List.map_filter_simps range_of_other_lines option.case)

lemma segment_lines_ranges:
  "plain_name i \<Longrightarrow> n \<le> u64_max \<Longrightarrow> k \<le> u64_max \<Longrightarrow>
    List.map_filter range_of_line (segment_lines i d n k) = [(n, k)]"
  unfolding segment_lines_def
  by (simp only: List.map_filter_simps range_of_other_lines range_of_range_line range_of_name option.case)

lemma head_lines_no_newline: "plain_name i \<Longrightarrow> l \<in> set (head_lines i d n) \<Longrightarrow> newline \<notin> set l"
  by (auto simp: head_lines_def map_line_def quoted_def plain_name_def newline_eq)

lemma segment_lines_no_newline:
  "plain_name i \<Longrightarrow> newline \<notin> set d \<Longrightarrow> l \<in> set (segment_lines i d n k) \<Longrightarrow> newline \<notin> set l"
  by (auto simp: segment_lines_def plain_name_def newline_eq)

lemma duration_no_newline [simp]: "newline \<notin> set (format_duration_millis m)"
  by (simp add: format_duration_millis_def pad3_def Let_def newline_eq)

lemma valid_segments_follow:
  "segments_chain start e segments \<Longrightarrow>
    ranges_follow start (map (\<lambda>s. (ms_length s, ms_offset s)) segments) e
    \<and> (\<forall>s \<in> set segments. ms_offset s \<le> e \<and> ms_length s \<le> e)"
proof (induction segments arbitrary: start)
  case (Cons s ss)
  then have "segments_chain (ms_offset s + ms_length s) e ss" "ms_offset s = start" "0 < ms_length s"
      "ms_offset s + ms_length s \<le> e"
    by (auto split: if_splits option.splits)
  with Cons.IH [of "ms_offset s + ms_length s"] show ?case by simp
qed simp

lemma map_of_line_simps [simp]:
  "map_of_line [] = None" "map_of_line ''#EXTM3U'' = None" "map_of_line ''#EXT-X-VERSION:7'' = None"
  "map_of_line ''#EXT-X-PLAYLIST-TYPE:VOD'' = None" "map_of_line ''#EXT-X-ENDLIST'' = None"
  "map_of_line (''#EXT-X-TARGETDURATION:'' @ x) = None" "map_of_line (''#EXTINF:'' @ x) = None"
  "map_of_line (''#EXT-X-BYTERANGE:'' @ x) = None"
  "plain_name i \<Longrightarrow> map_of_line i = None"
  by (cases i; simp add: map_of_line_def strip_prefix_def plain_name_def)+

lemma map_of_map_line [simp]:
  assumes "n \<le> u64_max"
  shows "map_of_line (map_line i n) = Some (n, 0)"
proof -
  have d: "dquote \<notin> set (decimal n @ ''@0'')"
    by (simp add: dquote_def) (rule decimal_not_in, code_simp)
  let ?pre = "''URI='' @ quoted i @ '',BYTERANGE=''"
  have shape: "strip_prefix ''#EXT-X-MAP:'' (map_line i n) = Some (?pre @ dquote # (decimal n @ ''@0'') @ [dquote])"
    by (simp add: strip_prefix_def map_line_def quoted_def)
  have zero: "decimal 0 = ''0''" by code_simp
  have "parse_extent (decimal n @ CHR ''@'' # decimal 0) = Some (n, 0)"
    using assms by (intro parse_extent_decimal) auto
  then have "parse_extent (decimal n @ ''@0'') = Some (n, 0)" by (simp add: zero)
  moreover have "butlast (?pre @ dquote # (decimal n @ ''@0'') @ [dquote]) = ?pre @ dquote # (decimal n @ ''@0'')"
    by (simp add: butlast_append)
  ultimately show ?thesis
    unfolding map_of_line_def shape by (simp only: Option.bind.bind_lunit rsplit_once_append [OF d] prod.case)
qed

text \<open>Both forms of a media playlist are lines of the same shape.\<close>

lemma split_playlist_lines:
  "split_media_playlist_for_resource r n segments = lines_text (head_lines (hr_id r) (target_duration segments) n
     @ concat (map (\<lambda>s. segment_lines (hr_id r) (format_duration_millis (ms_duration_millis s)) (ms_length s) (ms_offset s)) segments)
     @ [''#EXT-X-ENDLIST''])"
proof -
  have "concat (map (\<lambda>s. range_lines (hr_id r) (d s) (ms_length s) (ms_offset s)) segments)
      = lines_text (concat (map (\<lambda>s. segment_lines (hr_id r) (d s) (ms_length s) (ms_offset s)) segments))" for d
    by (induction segments) (simp_all add: range_lines_lines)
  then show ?thesis by (simp add: split_media_playlist_for_resource_def playlist_head_lines)
qed

lemma map_filter_append: "List.map_filter f (xs @ ys) = List.map_filter f xs @ List.map_filter f ys"
  by (simp add: List.map_filter_def)

lemma map_filter_concat: "List.map_filter f (concat xss) = concat (map (List.map_filter f) xss)"
  by (induction xss) (simp_all add: map_filter_append List.map_filter_simps)

lemma head_lines_maps:
  "plain_name i \<Longrightarrow> n \<le> u64_max \<Longrightarrow> List.map_filter map_of_line (head_lines i d n) = [(n, 0)]"
  unfolding head_lines_def by (simp only: List.map_filter_simps map_of_line_simps map_of_map_line option.case)

lemma segment_lines_maps: "plain_name i \<Longrightarrow> List.map_filter map_of_line (segment_lines i d n k) = []"
  unfolding segment_lines_def by (simp only: List.map_filter_simps map_of_line_simps option.case)

lemma playlist_of_lines:
  assumes i: "plain_name i" and n: "n \<le> u64_max"
    and t: "text = lines_text (head_lines i d n @ concat (map (\<lambda>(e, l, k). segment_lines i e l k) xs) @ [''#EXT-X-ENDLIST''])"
    and e: "\<And>e l k. (e, l, k) \<in> set xs \<Longrightarrow> newline \<notin> set e \<and> l \<le> u64_max \<and> k \<le> u64_max"
  shows "playlist_ranges text = map snd xs \<and> playlist_maps text = [(n, 0)]"
proof -
  let ?ls = "head_lines i d n @ concat (map (\<lambda>(e, l, k). segment_lines i e l k) xs) @ [''#EXT-X-ENDLIST'']"
  have "\<forall>l \<in> set ?ls. newline \<notin> set l"
    using head_lines_no_newline [OF i] segment_lines_no_newline [OF i] e by (fastforce simp: newline_eq)
  then have lines: "split_on newline text = ?ls @ [[]]" unfolding t by (rule split_lines_text)
  have "concat (map (List.map_filter range_of_line) (map (\<lambda>(e, l, k). segment_lines i e l k) xs)) = map snd xs"
    using e by (induction xs) (force simp: segment_lines_ranges [OF i])+
  moreover have "concat (map (List.map_filter map_of_line) (map (\<lambda>(e, l, k). segment_lines i e l k) xs)) = []"
    by (induction xs) (auto simp: segment_lines_maps [OF i])
  ultimately show ?thesis
    unfolding playlist_ranges_def playlist_maps_def lines map_filter_append map_filter_concat
      head_lines_ranges head_lines_maps [OF i n]
    by (simp only: List.map_filter_simps range_of_other_lines map_of_line_simps option.case append_Nil append_Nil2 append_Cons)
qed

lemma media_playlist_ranges:
  assumes i: "plain_name (hr_id r)" and some: "media_playlist_for_resource v r n tot segments = Some text"
    and tl: "tot \<le> u64_max"
  shows "playlist_maps text = [(n, 0)] \<and> ranges_follow n (playlist_ranges text) tot \<and> 0 < n \<and> n < tot
    \<and> (length segments \<ge> 2 \<and> segments_are_valid_for_resource segments n tot \<longrightarrow>
        playlist_ranges text = map (\<lambda>s. (ms_length s, ms_offset s)) segments)"
proof -
  have n: "0 < n" "n < tot"
    using some by (auto simp: media_playlist_for_resource_def Let_def split: option.splits if_splits)
  show ?thesis
  proof (cases "length segments \<ge> 2 \<and> segments_are_valid_for_resource segments n tot")
    case True
    then have chain: "segments_chain n tot segments" by (simp add: segments_are_valid_for_resource_def)
    note follow = valid_segments_follow [OF chain]
    let ?xs = "map (\<lambda>s. (format_duration_millis (ms_duration_millis s), ms_length s, ms_offset s)) segments"
    have "text = split_media_playlist_for_resource r n segments"
      using some True by (auto simp: media_playlist_for_resource_def Let_def split: option.splits if_splits)
    then have "playlist_ranges text = map snd ?xs \<and> playlist_maps text = [(n, 0)]"
      using follow tl n
      by (intro playlist_of_lines [OF i, where d = "target_duration segments"])
        (auto simp: split_playlist_lines comp_def intro: le_trans)
    then show ?thesis using follow n by (simp add: comp_def)
  next
    case False
    then obtain d where "text = playlist_head (hr_id r) d n
        @ range_lines (hr_id r) (decimal d @ ''.000'') (tot - n) n @ ''#EXT-X-ENDLIST'' @ [newline]"
      using some by (auto simp: media_playlist_for_resource_def Let_def split: option.splits if_splits)
    then have "text = lines_text (head_lines (hr_id r) d n
        @ concat (map (\<lambda>(e, l, k). segment_lines (hr_id r) e l k) [(decimal d @ ''.000'', tot - n, n)])
        @ [''#EXT-X-ENDLIST''])"
      by (simp add: playlist_head_lines range_lines_lines)
    then have "playlist_ranges text = map snd [(decimal d @ ''.000'', tot - n, n)] \<and> playlist_maps text = [(n, 0)]"
      using tl n by (intro playlist_of_lines [OF i]) (auto simp: newline_eq)
    then show ?thesis using False n by auto
  qed
qed

end
