(* ===== verification/Hls_Names.thy ===== *)
theory Hls_Names
  imports Hls_Playlists
begin

text \<open>
  The names of an HLS session: the resource names that a session is built with are distinct and need
  no escape, a refresh keeps them, and so every address that a playlist shows leads to the variant
  and resource it was made for.
\<close>

section \<open>Distinct names\<close>

definition resources_of :: "hls_variant \<Rightarrow> media_resource list" where
  "resources_of v = hv_video v # option_list (hv_audio v)"

definition playlist_ids :: "hls_variant \<Rightarrow> string list" where
  "playlist_ids v = map (\<lambda>r. media_playlist_id (hr_id r)) (resources_of v)"

definition names_ok :: "hls_variant list \<Rightarrow> bool" where
  "names_ok vs \<longleftrightarrow> distinct (concat (map playlist_ids vs))
     \<and> (\<forall>v \<in> set vs. \<forall>r \<in> set (resources_of v). plain_name (hr_id r) \<and> plain_name (media_playlist_id (hr_id r)))"

lemma playlist_ids_simps:
  "playlist_ids v = video_playlist_id v # option_list (audio_playlist_id v)"
  by (simp add: playlist_ids_def resources_of_def video_playlist_id_def audio_playlist_id_def option_list_def
      split: option.split)

lemma names_ok_Cons: "names_ok (v # vs) \<Longrightarrow> names_ok vs"
  by (auto simp: names_ok_def)

lemma names_ok_prefix: "names_ok (xs @ ys) \<Longrightarrow> names_ok xs"
  by (auto simp: names_ok_def)

lemma lookup_found:
  "distinct (concat (map playlist_ids vs)) \<Longrightarrow> v \<in> set vs \<Longrightarrow>
    media_playlist_resource_ref_from vs (video_playlist_id v) = Some (v, hv_video v)
    \<and> (\<forall>audio. hv_audio v = Some audio \<longrightarrow>
        media_playlist_resource_ref_from vs (media_playlist_id (hr_id audio)) = Some (v, audio))"
proof (induction vs)
  case (Cons w ws)
  show ?case
  proof (cases "v = w")
    case True
    then show ?thesis
      using Cons.prems(1) by (auto simp: playlist_ids_simps audio_playlist_id_def option_list_def)
  next
    case False
    then have v: "v \<in> set ws" using Cons.prems(2) by simp
    have "set (playlist_ids w) \<inter> set (concat (map playlist_ids ws)) = {}" using Cons.prems(1) by simp
    moreover have "set (playlist_ids v) \<subseteq> set (concat (map playlist_ids ws))" using v by auto
    ultimately have other: "x \<in> set (playlist_ids v) \<Longrightarrow> x \<notin> set (playlist_ids w)" for x by blast
    have skip: "media_playlist_resource_ref_from (w # ws) x = media_playlist_resource_ref_from ws x"
      if "x \<in> set (playlist_ids v)" for x
      using other [OF that] by (auto simp: playlist_ids_simps option_list_def split: option.splits)
    have audio: "hv_audio v = Some audio \<Longrightarrow> media_playlist_id (hr_id audio) \<in> set (playlist_ids v)" for audio
      by (simp add: playlist_ids_simps audio_playlist_id_def option_list_def)
    have video: "video_playlist_id v \<in> set (playlist_ids v)" by (simp add: playlist_ids_simps)
    have ih: "media_playlist_resource_ref_from ws (video_playlist_id v) = Some (v, hv_video v)"
        "hv_audio v = Some audio \<Longrightarrow> media_playlist_resource_ref_from ws (media_playlist_id (hr_id audio)) = Some (v, audio)"
        for audio
      using Cons.IH [OF _ v] Cons.prems(1) by simp_all
    show ?thesis
      using skip [OF video] skip [OF audio] ih by (metis (no_types))
  qed
qed simp

lemma lookup_in:
  "media_playlist_resource_ref_from vs x = Some (v, r) \<Longrightarrow> v \<in> set vs \<and> r \<in> set (resources_of v)"
  by (induction vs)
    (auto simp: resources_of_def option_list_def split: if_splits option.splits)

section \<open>The names that a session is built with\<close>

fun numbered_from :: "nat \<Rightarrow> hls_variant list \<Rightarrow> bool" where
  "numbered_from k [] = True"
| "numbered_from k (v # vs) \<longleftrightarrow>
     hr_id (hv_video v) = alternate_video_id k
     \<and> (\<forall>audio. hv_audio v = Some audio \<longrightarrow> hr_id audio = alternate_audio_id k)
     \<and> numbered_from (Suc k) vs"

definition session_names :: "hls_session \<Rightarrow> bool" where
  "session_names s \<longleftrightarrow>
     hr_id (hv_video (ss_variant s)) = VIDEO_SEGMENT_ID
     \<and> (\<forall>audio. hv_audio (ss_variant s) = Some audio \<longrightarrow> hr_id audio = AUDIO_SEGMENT_ID)
     \<and> numbered_from 1 (ss_alternate_variants s)"

lemma from_adapter_ids:
  "from_adapter_with_resource_ids variant i j = Inr v \<Longrightarrow>
    hr_id (hv_video v) = i \<and> (\<forall>audio. hv_audio v = Some audio \<longrightarrow> hr_id audio = j)"
  by (auto simp: from_adapter_with_resource_ids_def split: option.splits)

lemma numbered_from_append:
  "numbered_from k (vs @ ws) \<longleftrightarrow> numbered_from k vs \<and> numbered_from (k + length vs) ws"
  by (induction vs arbitrary: k) auto

lemma push_alternates_numbered:
  "push_alternates selected variants alternates = Inr vs \<Longrightarrow> numbered_from 1 alternates \<Longrightarrow> numbered_from 1 vs"
proof (induction selected variants alternates rule: push_alternates.induct)
  case (2 selected variant variants alternates)
  show ?case
  proof (cases "is_playable_alternate selected variant")
    case True
    let ?n = "length alternates + 1"
    obtain v where v: "from_adapter_with_resource_ids variant (alternate_video_id ?n) (alternate_audio_id ?n) = Inr v"
        "push_alternates selected variants (alternates @ [v]) = Inr vs"
      using 2(3) True by (auto simp: Let_def result_bind_def split: sum.splits)
    moreover have "numbered_from 1 (alternates @ [v])"
      using 2(4) from_adapter_ids [OF v(1)] by (simp add: numbered_from_append)
    ultimately show ?thesis using 2(2) [of ?n v] True by simp
  next
    case False
    then show ?thesis using 2 by simp
  qed
qed simp

lemma built_session_names:
  assumes "from_playback_entry_with_policy i title selected abr variants policy = Inr s"
  shows "session_names s"
proof -
  obtain s0 alternates where s0: "from_selected_variant i title selected = Inr s0"
      and alts: "playable_alternate_variants selected variants = Inr alternates"
      and s: "ss_variant s = ss_variant s0" "ss_alternate_variants s = alternates"
    using assms
    by (auto simp: from_playback_entry_with_policy_def result_bind_def Let_def split: sum.splits)
  have "numbered_from 1 alternates"
    using alts push_alternates_numbered [of selected variants "[]" alternates]
    by (auto simp: playable_alternate_variants_def split: if_splits)
  moreover obtain v where "variant_from_adapter selected = Inr v" "ss_variant s0 = v"
    using s0 by (auto simp: from_selected_variant_def result_bind_def split: if_splits sum.splits)
  ultimately show ?thesis
    using s from_adapter_ids [of selected VIDEO_SEGMENT_ID AUDIO_SEGMENT_ID v]
    by (simp add: session_names_def variant_from_adapter_def)
qed

text \<open>A refresh keeps the names.\<close>

lemma resource_rep_id: "resource_rep r = resource_rep q \<Longrightarrow> hr_id r = hr_id q"
  by (cases r; cases q) (simp add: resource_rep_def)

lemma variant_rep_ids:
  assumes "variant_rep v = variant_rep w"
  shows "hr_id (hv_video v) = hr_id (hv_video w)
    \<and> map_option hr_id (hv_audio v) = map_option hr_id (hv_audio w)"
  using variant_rep_fields(7,8) [OF assms]
  by (cases "hv_audio v"; cases "hv_audio w") (auto dest: resource_rep_id)

lemma audio_ids_iff:
  "(\<forall>audio. x = Some audio \<longrightarrow> hr_id audio = i) \<longleftrightarrow> map_option hr_id x \<in> {None, Some i}"
  by (cases x) auto

lemma numbered_from_rep:
  "map variant_rep vs = map variant_rep ws \<Longrightarrow> numbered_from k vs = numbered_from k ws"
proof (induction vs arbitrary: ws k)
  case (Cons v vs)
  then obtain w ws' where ws: "ws = w # ws'" "variant_rep v = variant_rep w" "map variant_rep vs = map variant_rep ws'"
    by (cases ws) auto
  then show ?case
    using Cons.IH [OF ws(3)] variant_rep_ids [OF ws(2)] by (simp add: audio_ids_iff)
qed simp

lemma session_names_rep: "session_rep s = session_rep t \<Longrightarrow> session_names s = session_names t"
  using session_rep_fields(3,4) [of s t] variant_rep_ids [of "ss_variant s" "ss_variant t"]
    numbered_from_rep [of "ss_alternate_variants s" "ss_alternate_variants t"]
  by (simp add: session_names_def audio_ids_iff)

lemma refreshed_session_names:
  "with_refreshed_media_requests s entries = Inr s' \<Longrightarrow> session_names s \<Longrightarrow> session_names s'"
  using refresh_changes_only_addresses [of s entries s'] session_names_rep [of s' s] by simp

section \<open>These names are distinct and plain\<close>

lemma media_playlist_id_m4s: "media_playlist_id (stem @ ''.m4s'') = stem @ ''.m3u8''"
proof -
  have "strip_suffix ''.m4s'' (stem @ ''.m4s'') = Some stem" by (simp add: strip_suffix_Some_iff)
  then show ?thesis by (simp add: media_playlist_id_def)
qed

lemma main_playlist_ids:
  "media_playlist_id VIDEO_SEGMENT_ID = ''video.m3u8''" "media_playlist_id AUDIO_SEGMENT_ID = ''audio.m3u8''"
  by code_simp+

lemma alternate_playlist_ids:
  "media_playlist_id (alternate_video_id n) = ''v'' @ decimal n @ ''-video.m3u8''"
  "media_playlist_id (alternate_audio_id n) = ''v'' @ decimal n @ ''-audio.m3u8''"
  using media_playlist_id_m4s [of "''v'' @ decimal n @ ''-video''"] media_playlist_id_m4s [of "''v'' @ decimal n @ ''-audio''"]
  by (simp_all add: alternate_video_id_def alternate_audio_id_def)

lemma alternate_playlist_ids_inj:
  "''v'' @ decimal m @ ''-video.m3u8'' = ''v'' @ decimal n @ ''-video.m3u8'' \<longleftrightarrow> m = n"
  "''v'' @ decimal m @ ''-audio.m3u8'' = ''v'' @ decimal n @ ''-audio.m3u8'' \<longleftrightarrow> m = n"
  "''v'' @ decimal m @ ''-video.m3u8'' \<noteq> ''v'' @ decimal n @ ''-audio.m3u8''"
proof -
  show "''v'' @ decimal m @ ''-video.m3u8'' = ''v'' @ decimal n @ ''-video.m3u8'' \<longleftrightarrow> m = n"
    "''v'' @ decimal m @ ''-audio.m3u8'' = ''v'' @ decimal n @ ''-audio.m3u8'' \<longleftrightarrow> m = n"
    by simp_all
  have "decimal m @ ''-video.m3u8'' \<noteq> decimal n @ ''-audio.m3u8''"
  proof
    assume "decimal m @ ''-video.m3u8'' = decimal n @ ''-audio.m3u8''"
    then have "take 11 (rev (decimal m @ ''-video.m3u8'')) = take 11 (rev (decimal n @ ''-audio.m3u8''))" by simp
    then show False by simp
  qed
  then show "''v'' @ decimal m @ ''-video.m3u8'' \<noteq> ''v'' @ decimal n @ ''-audio.m3u8''" by simp
qed

lemma alternate_not_main:
  "''v'' @ decimal n @ x \<noteq> ''video.m3u8''" "''v'' @ decimal n @ x \<noteq> ''audio.m3u8''"
proof -
  obtain c cs where c: "decimal n = c # cs" by (cases "decimal n") auto
  then have "is_digit c" using decimal_digits [of n] by simp
  moreover have "\<not> is_digit CHR ''i''" by code_simp
  ultimately show "''v'' @ decimal n @ x \<noteq> ''video.m3u8''" "''v'' @ decimal n @ x \<noteq> ''audio.m3u8''"
    using c by auto
qed

definition alternate_playlists_from :: "nat \<Rightarrow> string set" where
  "alternate_playlists_from k =
     (\<Union>n \<in> {k..}. {''v'' @ decimal n @ ''-video.m3u8'', ''v'' @ decimal n @ ''-audio.m3u8''})"

lemma numbered_playlist_ids:
  "numbered_from k vs \<Longrightarrow> distinct (concat (map playlist_ids vs))
    \<and> set (concat (map playlist_ids vs)) \<subseteq> alternate_playlists_from k"
proof (induction vs arbitrary: k)
  case (Cons v vs)
  let ?video = "''v'' @ decimal k @ ''-video.m3u8''" and ?audio = "''v'' @ decimal k @ ''-audio.m3u8''"
  have ids: "playlist_ids v = [?video] \<or> playlist_ids v = [?video, ?audio]"
    using Cons.prems
    by (cases "hv_audio v") (simp_all add: playlist_ids_def resources_of_def option_list_def alternate_playlist_ids)
  have rest: "set (concat (map playlist_ids vs)) \<subseteq> alternate_playlists_from (Suc k)"
      "distinct (concat (map playlist_ids vs))"
    using Cons by auto
  have "?video \<notin> alternate_playlists_from (Suc k)" "?audio \<notin> alternate_playlists_from (Suc k)"
    by (auto simp: alternate_playlists_from_def alternate_playlist_ids_inj simp del: append_Cons append_Nil
        dest: alternate_playlist_ids_inj(3) [THEN notE] alternate_playlist_ids_inj(3) [THEN notE, OF sym])
  moreover have "?video \<noteq> ?audio" by (rule alternate_playlist_ids_inj(3))
  moreover have "alternate_playlists_from (Suc k) \<subseteq> alternate_playlists_from k"
    "?video \<in> alternate_playlists_from k" "?audio \<in> alternate_playlists_from k"
    by (auto simp: alternate_playlists_from_def simp del: append_Cons append_Nil)
  ultimately show ?case using ids rest by fastforce
qed simp

lemma plain_alternate:
  "plain_name (''v'' @ decimal n @ ''-video.m4s'')" "plain_name (''v'' @ decimal n @ ''-audio.m4s'')"
  "plain_name (''v'' @ decimal n @ ''-video.m3u8'')" "plain_name (''v'' @ decimal n @ ''-audio.m3u8'')"
proof -
  have "CHR 0x22 \<notin> set (decimal n)" "CHR 0x5C \<notin> set (decimal n)" by (rule decimal_not_in, code_simp)+
  then show "plain_name (''v'' @ decimal n @ ''-video.m4s'')" "plain_name (''v'' @ decimal n @ ''-audio.m4s'')"
    "plain_name (''v'' @ decimal n @ ''-video.m3u8'')" "plain_name (''v'' @ decimal n @ ''-audio.m3u8'')"
    by (simp_all add: plain_name_def newline_eq dquote_def)
qed

lemma numbered_plain:
  "numbered_from k vs \<Longrightarrow> \<forall>v \<in> set vs. \<forall>r \<in> set (resources_of v).
    plain_name (hr_id r) \<and> plain_name (media_playlist_id (hr_id r))"
proof (induction vs arbitrary: k)
  case (Cons v vs)
  then have "\<forall>r \<in> set (resources_of v). hr_id r \<in> {alternate_video_id k, alternate_audio_id k}"
    by (auto simp: resources_of_def option_list_def split: option.splits)
  moreover have "plain_name i \<and> plain_name (media_playlist_id i)" if "i \<in> {alternate_video_id k, alternate_audio_id k}" for i
    using that plain_alternate [of k] alternate_playlist_ids [of k]
    by (auto simp: alternate_video_id_def alternate_audio_id_def)
  ultimately show ?case using Cons by auto
qed simp

lemma session_names_ok: "session_names s \<Longrightarrow> names_ok (resource_variants s)"
proof -
  assume s: "session_names s"
  let ?v = "ss_variant s" and ?vs = "ss_alternate_variants s"
  have n: "numbered_from 1 ?vs" using s by (simp add: session_names_def)
  have main: "\<forall>r \<in> set (resources_of ?v). hr_id r \<in> {VIDEO_SEGMENT_ID, AUDIO_SEGMENT_ID}"
    using s by (auto simp: session_names_def resources_of_def option_list_def split: option.splits)
  have ids: "playlist_ids ?v = [''video.m3u8''] \<or> playlist_ids ?v = [''video.m3u8'', ''audio.m3u8'']"
    using s by (cases "hv_audio ?v") (simp_all add: session_names_def playlist_ids_def resources_of_def option_list_def main_playlist_ids)
  have "''video.m3u8'' \<notin> alternate_playlists_from 1" "''audio.m3u8'' \<notin> alternate_playlists_from 1"
    using alternate_not_main by (auto simp: alternate_playlists_from_def simp del: append_Cons append_Nil dest: sym)
  then have "distinct (concat (map playlist_ids (?v # ?vs)))"
    using ids numbered_playlist_ids [OF n] by auto
  moreover have "plain_name VIDEO_SEGMENT_ID \<and> plain_name AUDIO_SEGMENT_ID
      \<and> plain_name ''video.m3u8'' \<and> plain_name ''audio.m3u8''"
    by (simp add: plain_name_def newline_eq dquote_def VIDEO_SEGMENT_ID_def AUDIO_SEGMENT_ID_def)
  ultimately show ?thesis
    using main numbered_plain [OF n] main_playlist_ids by (auto simp: names_ok_def resource_variants_def)
qed

lemma advertised_names_ok: "session_names s \<Longrightarrow> names_ok (advertised_variants s)"
  using session_names_ok [of s] names_ok_prefix [of "[ss_variant s]" "ss_alternate_variants s"]
  by (auto simp: advertised_variants_def resource_variants_def)

lemma advertised_with_filter_subset:
  "set (advertised_variants_with_filter s p) \<subseteq> set (advertised_variants s)"
  by (auto simp: advertised_variants_with_filter_def Let_def dest: in_set_takeD)

lemma advertised_with_filter_cases:
  assumes "v \<in> set (advertised_variants_with_filter s p)"
  shows "p v \<or> (\<forall>w \<in> set (advertised_variants s). \<not> p w \<and> hv_bandwidth v \<le> hv_bandwidth w)"
proof (cases "filter p (advertised_variants s) = []")
  case False
  then show ?thesis using assms by (auto simp: advertised_variants_with_filter_def Let_def)
next
  case True
  let ?vs = "sort_key hv_bandwidth (advertised_variants s)"
  obtain w ws where ws: "?vs = w # ws"
    by (cases ?vs) (metis advertised_variants_def length_0_conv length_sort list.distinct(1))
  then have "v = w" using assms True by (simp add: advertised_variants_with_filter_def Let_def)
  moreover have "sorted (map hv_bandwidth ?vs)" by simp
  then have "\<forall>u \<in> set ?vs. hv_bandwidth w \<le> hv_bandwidth u" using ws by auto
  moreover have "\<forall>u \<in> set (advertised_variants s). \<not> p u" using True by (simp add: filter_empty_conv)
  ultimately show ?thesis by simp
qed

lemma advertised_with_filter_not_empty: "advertised_variants_with_filter s p \<noteq> []"
  by (simp add: advertised_variants_with_filter_def Let_def)
    (metis advertised_variants_def length_0_conv length_sort list.distinct(1))

section \<open>The addresses of a master playlist\<close>

text \<open>The lines that are no tags: the addresses.\<close>

definition is_uri_line :: "string \<Rightarrow> bool" where
  "is_uri_line line \<longleftrightarrow> line \<noteq> [] \<and> hd line \<noteq> CHR ''#''"

definition playlist_uris :: "string \<Rightarrow> string list" where
  "playlist_uris text = filter is_uri_line (split_on newline text)"

definition variant_uri :: "hls_variant \<Rightarrow> string" where
  "variant_uri v = ''segments/'' @ video_playlist_id v"

text \<open>No codec text of the variant breaks a line.\<close>

definition codecs_on_one_line :: "hls_variant \<Rightarrow> bool" where
  "codecs_on_one_line v \<longleftrightarrow>
     list_all (\<lambda>c. newline \<notin> set c) (hv_codecs v)
     \<and> (case Option.bind (hv_audio v) (\<lambda>audio. mr_codecs (hr_request audio)) of
          Some c \<Rightarrow> newline \<notin> set c | None \<Rightarrow> True)"

definition all_on_one_line :: "string list \<Rightarrow> bool" where
  "all_on_one_line cs \<longleftrightarrow> (\<forall>c \<in> set cs. newline \<notin> set c)"

lemma push_unique_codec_one_line:
  "all_on_one_line cs \<Longrightarrow> newline \<notin> set c \<Longrightarrow> all_on_one_line (push_unique_codec c cs)"
  using trim_subset [of c] by (auto simp: push_unique_codec_def all_on_one_line_def Let_def)

lemma fold_push_one_line:
  "all_on_one_line ds \<Longrightarrow> all_on_one_line cs \<Longrightarrow> all_on_one_line (fold push_unique_codec ds cs)"
proof (induction ds arbitrary: cs)
  case (Cons d ds)
  then have "all_on_one_line ds" "newline \<notin> set d" by (simp_all add: all_on_one_line_def)
  with Cons show ?case by (simp add: push_unique_codec_one_line)
qed simp

lemma join_comma_one_line: "all_on_one_line cs \<Longrightarrow> newline \<notin> set (join_comma cs)"
  by (induction cs rule: join_comma.induct) (auto simp: all_on_one_line_def newline_eq)

lemma codecs_attribute_one_line:
  assumes "codecs_on_one_line v" "codecs_attribute v = Some c"
  shows "newline \<notin> set c"
proof -
  have own: "all_on_one_line (fold push_unique_codec (hv_codecs v) [])"
    using assms(1) by (intro fold_push_one_line) (auto simp: codecs_on_one_line_def all_on_one_line_def list_all_iff)
  then have "all_on_one_line (case Option.bind (hv_audio v) (\<lambda>audio. mr_codecs (hr_request audio)) of
      Some c \<Rightarrow> push_unique_codec c (fold push_unique_codec (hv_codecs v) [])
    | None \<Rightarrow> fold push_unique_codec (hv_codecs v) [])"
    using assms(1) by (auto simp: codecs_on_one_line_def push_unique_codec_one_line split: option.splits)
  from join_comma_one_line [OF this] show ?thesis
    using assms(2) by (simp add: codecs_attribute_def Let_def split: if_splits)
qed

lemma newline_group [simp]: "newline \<notin> set (audio_group_id n)"
  by (simp add: audio_group_id_def newline_eq)

lemma stream_attributes_one_line: "codecs_on_one_line v \<Longrightarrow> newline \<notin> set (stream_attributes n v)"
  using codecs_attribute_one_line [of v]
  by (auto simp: stream_attributes_def variant_resolution_def quoted_def newline_eq
      split: option.splits if_splits)

definition media_lines :: "nat \<Rightarrow> hls_variant \<Rightarrow> string list" where
  "media_lines n v = (if hv_audio v = None then [] else [butlast (media_line n v)])"

lemma media_line_lines: "media_line n v = lines_text (media_lines n v)"
  by (simp add: media_line_def media_lines_def audio_playlist_id_def Let_def butlast_append split: option.split)

lemma media_lines_one_line:
  assumes "\<forall>r \<in> set (resources_of v). plain_name (media_playlist_id (hr_id r))" "l \<in> set (media_lines n v)"
  shows "newline \<notin> set l \<and> \<not> is_uri_line l"
proof (cases "hv_audio v")
  case (Some audio)
  then have "newline \<notin> set (media_playlist_id (hr_id audio))"
    using assms(1) by (simp add: resources_of_def option_list_def plain_name_def)
  then show ?thesis
    using assms(2) Some
    by (auto simp: media_lines_def media_line_def audio_playlist_id_def Let_def butlast_append quoted_def
        newline_eq is_uri_line_def)
qed (use assms in \<open>simp add: media_lines_def\<close>)

lemma stream_lines_lines:
  assumes "plain_name (video_playlist_id v)"
  shows "stream_lines n v = lines_text [stream_attributes n v, variant_uri v]"
  using assms escape_plain [of "video_playlist_id v"]
  by (simp add: stream_lines_def variant_uri_def plain_name_def)

lemma stream_line_kinds:
  "plain_name (video_playlist_id v) \<Longrightarrow>
    \<not> is_uri_line (stream_attributes n v) \<and> is_uri_line (variant_uri v) \<and> newline \<notin> set (variant_uri v)"
  by (simp add: is_uri_line_def stream_attributes_def variant_uri_def plain_name_def newline_eq)

definition master_lines :: "(nat \<times> hls_variant) list \<Rightarrow> string list" where
  "master_lines ivs =
     [''#EXTM3U'', ''#EXT-X-VERSION:7'', ''#EXT-X-INDEPENDENT-SEGMENTS'']
     @ concat (map (\<lambda>(n, v). media_lines n v) ivs)
     @ concat (map (\<lambda>(n, v). [stream_attributes n v, variant_uri v]) ivs)"

lemma concat_lines_text:
  "(\<And>x. x \<in> set xs \<Longrightarrow> f x = lines_text (g x)) \<Longrightarrow> concat (map f xs) = lines_text (concat (map g xs))"
  by (induction xs) simp_all

lemma master_playlist_uris:
  assumes names: "\<And>v. v \<in> set vs \<Longrightarrow> \<forall>r \<in> set (resources_of v). plain_name (media_playlist_id (hr_id r))"
    and codecs: "\<And>v. v \<in> set vs \<Longrightarrow> codecs_on_one_line v"
    and vs: "vs = advertised_variants_with_filter s p"
  shows "playlist_uris (master_playlist_with_variant_filter s p) = map variant_uri vs"
proof -
  let ?ivs = "enumerate 0 vs"
  have mem: "v \<in> set vs" if "(n, v) \<in> set ?ivs" for n v
    using that unfolding enumerate_eq_zip by (rule set_zip_rightD)
  have video: "plain_name (video_playlist_id v)" if "v \<in> set vs" for v
    using names [OF that] by (simp add: resources_of_def video_playlist_id_def)
  have streams: "concat (map (\<lambda>(n, v). stream_lines n v) ?ivs)
      = lines_text (concat (map (\<lambda>(n, v). [stream_attributes n v, variant_uri v]) ?ivs))"
    by (rule concat_lines_text) (auto dest!: mem video simp: stream_lines_lines)
  have media: "concat (map (\<lambda>(n, v). media_line n v) ?ivs) = lines_text (concat (map (\<lambda>(n, v). media_lines n v) ?ivs))"
    by (rule concat_lines_text) (auto simp: media_line_lines)
  have shape: "master_playlist_with_variant_filter s p = lines_text (master_lines ?ivs)"
    unfolding master_playlist_with_variant_filter_def Let_def vs [symmetric] streams media
    by (simp add: master_lines_def)
  have one: "\<forall>l \<in> set (master_lines ?ivs). newline \<notin> set l"
  proof -
    have "newline \<notin> set l" if "l \<in> set (media_lines n v)" "(n, v) \<in> set ?ivs" for l n v
      using media_lines_one_line [OF names [OF mem [OF that(2)]] that(1)] by simp
    moreover have "newline \<notin> set (stream_attributes n v) \<and> newline \<notin> set (variant_uri v)" if "(n, v) \<in> set ?ivs" for n v
      using stream_attributes_one_line [OF codecs [OF mem [OF that]]] stream_line_kinds [OF video [OF mem [OF that]]] by simp
    ultimately show ?thesis by (fastforce simp: master_lines_def newline_eq)
  qed
  have media_none: "filter is_uri_line (concat (map (\<lambda>(n, v). media_lines n v) ivs)) = []"
    if "set ivs \<subseteq> set ?ivs" for ivs
  proof -
    have "\<not> is_uri_line l" if "l \<in> set (media_lines n v)" "(n, v) \<in> set ivs" for l n v
      using media_lines_one_line [OF names [OF mem] that(1)] that(2) \<open>set ivs \<subseteq> set ?ivs\<close> by blast
    then show ?thesis by (fastforce simp: filter_empty_conv)
  qed
  have uris: "filter is_uri_line (concat (map (\<lambda>(n, v). [stream_attributes n v, variant_uri v]) ivs))
      = map (variant_uri \<circ> snd) ivs" if "set ivs \<subseteq> set ?ivs" for ivs
    using that
  proof (induction ivs)
    case (Cons iv ivs)
    obtain n v where iv: "iv = (n, v)" by (cases iv)
    with Cons.prems have "v \<in> set vs" by (auto intro: mem)
    from stream_line_kinds [OF video [OF this]] Cons iv show ?case by simp
  qed simp
  have heads: "\<not> is_uri_line ''#EXTM3U''" "\<not> is_uri_line ''#EXT-X-VERSION:7''"
      "\<not> is_uri_line ''#EXT-X-INDEPENDENT-SEGMENTS''" "\<not> is_uri_line []"
    by (simp_all add: is_uri_line_def)
  have "playlist_uris (master_playlist_with_variant_filter s p) = map (variant_uri \<circ> snd) ?ivs"
    unfolding playlist_uris_def shape split_lines_text [OF one]
    by (simp add: master_lines_def heads media_none uris)
  also have "\<dots> = map variant_uri vs"
    unfolding map_map [symmetric] by (simp only: map_snd_enumerate)
  finally show ?thesis .
qed

end
