(* ===== verification/Hls_Registry.thy ===== *)
theory Hls_Registry
  imports Hls_Sessions
begin

text \<open>
  The registry of HLS playback sessions (\<open>HlsPlaybackRegistry\<close> in \<open>hls.rs\<close>): sessions by identifier, the
  generation each insertion gets, and the replacement that takes a session's place at a deadline
  (\<open>pending scrub\<close>). Every method holds the registry's lock; a read that finds a scrub due lets
  go of the read lock and takes the write lock, so it is two steps with other calls possible
  between them. The closures that callers pass are what they answer. \<open>None\<close> is the panic when the
  generations are used up. Times are natural numbers.
\<close>

section \<open>State and operations\<close>

record pending_scrub =
  sc_generation :: nat
  sc_deadline :: nat
  sc_replacement :: hls_session

record session_handle =
  sh_session :: hls_session
  sh_generation :: nat

record hls_registry =
  hx_sessions :: "(string, hls_session) hmap"
  hx_generations :: "(string, nat) hmap"
  hx_pending_scrubs :: "(string, pending_scrub) hmap"
  hx_next_generation :: nat

definition empty_hls_registry :: hls_registry where
  "empty_hls_registry =
     \<lparr>hx_sessions = [], hx_generations = [], hx_pending_scrubs = [], hx_next_generation = 0\<rparr>"

definition session_handle_of :: "hls_registry \<Rightarrow> string \<Rightarrow> session_handle option" where
  "session_handle_of r session_id =
     (case (hm_get (hx_sessions r) session_id, hm_get (hx_generations r) session_id) of
        (Some s, Some g) \<Rightarrow> Some \<lparr>sh_session = s, sh_generation = g\<rparr>
      | _ \<Rightarrow> None)"

definition registry_insert :: "hls_session \<Rightarrow> hls_registry \<Rightarrow> (nat \<times> hls_registry) option" where
  "registry_insert session r =
     map_option (\<lambda>generation.
       (generation, r\<lparr>hx_next_generation := generation,
         hx_sessions := hm_insert (ss_id session) session (hx_sessions r),
         hx_generations := hm_insert (ss_id session) generation (hx_generations r),
         hx_pending_scrubs := hm_remove (ss_id session) (hx_pending_scrubs r)\<rparr>))
       (checked_add (hx_next_generation r) 1)"

definition registry_insert_with_scrub_deadline ::
  "hls_session \<Rightarrow> hls_session \<Rightarrow> nat \<Rightarrow> hls_registry \<Rightarrow> (nat \<times> hls_registry) option" where
  "registry_insert_with_scrub_deadline session replacement deadline r =
     map_option (\<lambda>generation.
       (generation, r\<lparr>hx_next_generation := generation,
         hx_sessions := hm_insert (ss_id session) session (hx_sessions r),
         hx_generations := hm_insert (ss_id session) generation (hx_generations r),
         hx_pending_scrubs := hm_insert (ss_id session)
           \<lparr>sc_generation = generation, sc_deadline = deadline, sc_replacement = replacement\<rparr>
           (hx_pending_scrubs r)\<rparr>))
       (checked_add (hx_next_generation r) 1)"

definition registry_remove :: "string \<Rightarrow> hls_registry \<Rightarrow> nat option \<times> hls_registry" where
  "registry_remove session_id r =
     (hm_get (hx_generations r) session_id,
      r\<lparr>hx_sessions := hm_remove session_id (hx_sessions r),
        hx_generations := hm_remove session_id (hx_generations r),
        hx_pending_scrubs := hm_remove session_id (hx_pending_scrubs r)\<rparr>)"

definition apply_pending_scrub :: "string \<Rightarrow> nat option \<Rightarrow> hls_registry \<Rightarrow> bool \<times> hls_registry" where
  "apply_pending_scrub session_id expected_generation r =
     (case hm_get (hx_pending_scrubs r) session_id of
        None \<Rightarrow> (False, r)
      | Some scrub \<Rightarrow>
          if hm_get (hx_generations r) session_id \<noteq> Some (sc_generation scrub)
             \<or> (case expected_generation of Some g \<Rightarrow> g \<noteq> sc_generation scrub | None \<Rightarrow> False)
          then (False, r)
          else (True, r\<lparr>hx_sessions := hm_insert session_id (sc_replacement scrub) (hx_sessions r),
                        hx_pending_scrubs := hm_remove session_id (hx_pending_scrubs r)\<rparr>))"

definition scrub_expired_session :: "string \<Rightarrow> nat \<Rightarrow> hls_registry \<Rightarrow> bool \<times> hls_registry" where
  "scrub_expired_session session_id now r =
     (case hm_get (hx_pending_scrubs r) session_id of
        None \<Rightarrow> (False, r)
      | Some scrub \<Rightarrow>
          if now < sc_deadline scrub then (False, r) else apply_pending_scrub session_id None r)"

text \<open>The two steps of \<open>get_with_generation\<close>: an answer under the read lock, or a scrub that is due.\<close>

datatype read_answer = Answered_read "session_handle option" | Scrub_due

definition get_read :: "string \<Rightarrow> nat \<Rightarrow> hls_registry \<Rightarrow> read_answer" where
  "get_read session_id now r =
     (if (case hm_get (hx_pending_scrubs r) session_id of Some scrub \<Rightarrow> sc_deadline scrub \<le> now | None \<Rightarrow> False)
      then Scrub_due else Answered_read (session_handle_of r session_id))"

definition get_write :: "string \<Rightarrow> nat \<Rightarrow> hls_registry \<Rightarrow> session_handle option \<times> hls_registry" where
  "get_write session_id now r =
     (let r' = snd (scrub_expired_session session_id now r) in (session_handle_of r' session_id, r'))"

definition with_network_policy_update :: "string \<Rightarrow> nat \<Rightarrow> hls_registry \<Rightarrow> bool" where
  "with_network_policy_update session_id expected_generation r =
     (hm_get (hx_generations r) session_id = Some expected_generation
      \<and> (case hm_get (hx_sessions r) session_id of
           Some session \<Rightarrow> ss_advertise_alternate_variants session | None \<Rightarrow> False))"

definition scrub_generation :: "string \<Rightarrow> nat \<Rightarrow> hls_registry \<Rightarrow> bool \<times> hls_registry" where
  "scrub_generation session_id expected_generation r =
     apply_pending_scrub session_id (Some expected_generation) r"

text \<open>\<open>persists\<close>: whether the caller's closure wrote the replacement; \<open>Inl\<close> is its error.\<close>

definition replace_media_requests_if_current ::
  "session_handle \<Rightarrow> hls_session \<Rightarrow> bool \<Rightarrow> hls_registry \<Rightarrow> (unit + bool) \<times> hls_registry" where
  "replace_media_requests_if_current expected replacement persists r =
     (let i = ss_id (sh_session expected) in
      if ss_id replacement \<noteq> i
         \<or> hm_get (hx_sessions r) i \<noteq> Some (sh_session expected)
         \<or> hm_get (hx_generations r) i \<noteq> Some (sh_generation expected)
         \<or> hm_get (hx_pending_scrubs r) i \<noteq> None
      then (Inr False, r)
      else if \<not> persists then (Inl (), r)
      else (Inr True, r\<lparr>hx_sessions := hm_insert i replacement (hx_sessions r)\<rparr>))"

section \<open>Sequences of calls\<close>

datatype registry_call =
    CallInsert hls_session
  | CallInsertScrub hls_session hls_session nat
  | CallRemove string
  | CallGetRead string nat
  | CallGetWrite string nat
  | CallNetworkUpdate string nat
  | CallScrub string nat
  | CallReplace session_handle hls_session bool

text \<open>A panic while the lock is held poisons it: every later call panics too, so the run ends there.\<close>

fun call_effect :: "registry_call \<Rightarrow> hls_registry \<Rightarrow> hls_registry option" where
  "call_effect (CallInsert session) r = map_option snd (registry_insert session r)"
| "call_effect (CallInsertScrub session replacement deadline) r =
     map_option snd (registry_insert_with_scrub_deadline session replacement deadline r)"
| "call_effect (CallRemove i) r = Some (snd (registry_remove i r))"
| "call_effect (CallGetRead i now) r = Some r"
| "call_effect (CallGetWrite i now) r = Some (snd (get_write i now r))"
| "call_effect (CallNetworkUpdate i g) r = Some r"
| "call_effect (CallScrub i g) r = Some (snd (scrub_generation i g r))"
| "call_effect (CallReplace h replacement persists) r =
     Some (snd (replace_media_requests_if_current h replacement persists r))"

definition hls_registry_step :: "hls_registry \<Rightarrow> registry_call \<Rightarrow> hls_registry \<Rightarrow> bool" where
  "hls_registry_step r c r' \<longleftrightarrow> call_effect c r = Some r'"

definition starts_without_sessions :: "hls_registry \<Rightarrow> bool" where
  "starts_without_sessions r \<longleftrightarrow> r = empty_hls_registry"

definition hls_registry_inv :: "hls_registry \<Rightarrow> bool" where
  "hls_registry_inv r \<longleftrightarrow>
     (\<forall>i. hm_get (hx_sessions r) i = None \<longleftrightarrow> hm_get (hx_generations r) i = None)
     \<and> (\<forall>i g. hm_get (hx_generations r) i = Some g \<longrightarrow> 0 < g \<and> g \<le> hx_next_generation r)
     \<and> (\<forall>i j g. hm_get (hx_generations r) i = Some g \<and> hm_get (hx_generations r) j = Some g \<longrightarrow> i = j)
     \<and> (\<forall>i scrub. hm_get (hx_pending_scrubs r) i = Some scrub \<longrightarrow>
          hm_get (hx_generations r) i = Some (sc_generation scrub))
     \<and> hx_next_generation r \<le> u64_max"

section \<open>The invariant\<close>

lemma apply_pending_scrub_cases:
  obtains "apply_pending_scrub i e r = (False, r)"
  | scrub where "hm_get (hx_pending_scrubs r) i = Some scrub" "e = None \<or> e = Some (sc_generation scrub)"
    "hm_get (hx_generations r) i = Some (sc_generation scrub)"
    "apply_pending_scrub i e r =
       (True, r\<lparr>hx_sessions := hm_insert i (sc_replacement scrub) (hx_sessions r),
                hx_pending_scrubs := hm_remove i (hx_pending_scrubs r)\<rparr>)"
proof (cases "hm_get (hx_pending_scrubs r) i")
  case None
  then show ?thesis by (intro that(1)) (simp add: apply_pending_scrub_def)
next
  case (Some scrub)
  show ?thesis
  proof (cases "hm_get (hx_generations r) i = Some (sc_generation scrub) \<and> (e = None \<or> e = Some (sc_generation scrub))")
    case True
    then show ?thesis
      using Some by (intro that(2) [of scrub]) (auto simp: apply_pending_scrub_def)
  next
    case False
    then show ?thesis
      using Some by (intro that(1)) (auto simp: apply_pending_scrub_def split: option.split)
  qed
qed

lemma scrub_inv:
  assumes "hls_registry_inv r"
  shows "hls_registry_inv (snd (apply_pending_scrub i e r))"
  using assms by (cases rule: apply_pending_scrub_cases [of i e r]) (auto simp: hls_registry_inv_def)

lemma insert_inv:
  assumes inv: "hls_registry_inv r" and eq: "checked_add (hx_next_generation r) 1 = Some g"
    and p: "p = hm_remove i (hx_pending_scrubs r)
      \<or> p = hm_insert i \<lparr>sc_generation = g, sc_deadline = d, sc_replacement = x\<rparr> (hx_pending_scrubs r)"
  shows "hls_registry_inv (r\<lparr>hx_next_generation := g, hx_sessions := hm_insert i s (hx_sessions r),
    hx_generations := hm_insert i g (hx_generations r), hx_pending_scrubs := p\<rparr>)"
proof -
  have g: "g = Suc (hx_next_generation r)" "g \<le> u64_max" using eq by auto
  have fresh: "hm_get (hx_generations r) j \<noteq> Some g" for j
    using inv g(1) by (fastforce simp: hls_registry_inv_def)
  have old: "hm_get (hx_generations r) j = Some h \<Longrightarrow> 0 < h \<and> h \<le> g" for j h
    using inv g(1) by (fastforce simp: hls_registry_inv_def)
  show ?thesis
    using inv p g fresh old unfolding hls_registry_inv_def
    by (elim disjE) (auto split: if_splits)
qed

lemma remove_inv: "hls_registry_inv r \<Longrightarrow> hls_registry_inv (snd (registry_remove i r))"
  by (auto simp: hls_registry_inv_def registry_remove_def)

lemma replace_inv:
  "hls_registry_inv r \<Longrightarrow> hls_registry_inv (snd (replace_media_requests_if_current h x p r))"
  by (auto simp: hls_registry_inv_def replace_media_requests_if_current_def Let_def)

lemma hls_registry_inv_step:
  assumes "hls_registry_inv r" "hls_registry_step r c r'"
  shows "hls_registry_inv r'"
proof (cases c)
  case (CallInsert session)
  then show ?thesis
    using assms by (auto simp: hls_registry_step_def registry_insert_def intro: insert_inv)
next
  case (CallInsertScrub session replacement deadline)
  then show ?thesis
    using assms
    by (auto simp: hls_registry_step_def registry_insert_with_scrub_deadline_def intro: insert_inv)
next
  case (CallGetWrite i now)
  then show ?thesis
    using assms scrub_inv [of r i None]
    by (auto simp: hls_registry_step_def get_write_def scrub_expired_session_def Let_def split: option.splits)
qed (use assms in \<open>auto simp: hls_registry_step_def scrub_generation_def remove_inv replace_inv scrub_inv\<close>)

interpretation sessions: step_system starts_without_sessions hls_registry_step hls_registry_inv
proof unfold_locales
  fix r :: hls_registry assume "starts_without_sessions r"
  then show "hls_registry_inv r"
    by (simp add: starts_without_sessions_def hls_registry_inv_def empty_hls_registry_def)
qed (rule hls_registry_inv_step)

section \<open>Generations name insertions\<close>

text \<open>A call that registers or removes the session \<open>i\<close>.\<close>

fun touches :: "string \<Rightarrow> registry_call \<Rightarrow> bool" where
  "touches i (CallInsert session) = (ss_id session = i)"
| "touches i (CallInsertScrub session replacement deadline) = (ss_id session = i)"
| "touches i (CallRemove j) = (j = i)"
| "touches i _ = False"

lemma apply_pending_scrub_generations [simp]:
  "hx_generations (snd (apply_pending_scrub i e r)) = hx_generations r"
  "hx_next_generation (snd (apply_pending_scrub i e r)) = hx_next_generation r"
  by (cases rule: apply_pending_scrub_cases [of i e r]; simp)+

lemma get_write_generations [simp]:
  "hx_generations (snd (get_write i now r)) = hx_generations r"
  "hx_next_generation (snd (get_write i now r)) = hx_next_generation r"
  by (auto simp: get_write_def scrub_expired_session_def Let_def split: option.split)

lemma replace_generations [simp]:
  "hx_generations (snd (replace_media_requests_if_current h x p r)) = hx_generations r"
  "hx_next_generation (snd (replace_media_requests_if_current h x p r)) = hx_next_generation r"
  by (auto simp: replace_media_requests_if_current_def Let_def)

lemma untouched_generation:
  "hls_registry_step r c r' \<Longrightarrow> \<not> touches i c \<Longrightarrow> hm_get (hx_generations r') i = hm_get (hx_generations r) i"
  by (cases c)
    (auto simp: hls_registry_step_def registry_insert_def registry_insert_with_scrub_deadline_def
      registry_remove_def scrub_generation_def)

text \<open>The generation \<open>g\<close> of \<open>i\<close> is over.\<close>

definition generation_over :: "string \<Rightarrow> nat \<Rightarrow> hls_registry \<Rightarrow> bool" where
  "generation_over i g r \<longleftrightarrow> g \<le> hx_next_generation r
     \<and> (\<forall>g'. hm_get (hx_generations r) i = Some g' \<longrightarrow> g < g')"

lemma touched_generation_over:
  "hls_registry_step r c r' \<Longrightarrow> touches i c \<Longrightarrow> g \<le> hx_next_generation r \<Longrightarrow> generation_over i g r'"
  by (cases c)
    (auto simp: hls_registry_step_def registry_insert_def registry_insert_with_scrub_deadline_def
      registry_remove_def generation_over_def)

lemma next_generation_mono:
  "hls_registry_step r c r' \<Longrightarrow> hx_next_generation r \<le> hx_next_generation r'"
  by (cases c)
    (auto simp: hls_registry_step_def registry_insert_def registry_insert_with_scrub_deadline_def
      registry_remove_def scrub_generation_def)

lemma generation_over_step:
  assumes "hls_registry_step r c r'" "generation_over i g r"
  shows "generation_over i g r'"
proof (cases "touches i c")
  case True
  moreover have "g \<le> hx_next_generation r" using assms(2) by (simp add: generation_over_def)
  ultimately show ?thesis using touched_generation_over [OF assms(1)] by blast
next
  case False
  with assms show ?thesis
    using untouched_generation [OF assms(1) False] next_generation_mono [OF assms(1)]
    by (auto simp: generation_over_def)
qed

lemma generation_over_run:
  "exec_run hls_registry_step r cs r' \<Longrightarrow> generation_over i g r \<Longrightarrow> generation_over i g r'"
  by (induction rule: exec_run.induct) (auto dest: generation_over_step)

lemma same_generation_untouched:
  assumes "exec_run hls_registry_step r cs r'" "hm_get (hx_generations r') i = Some g" "g \<le> hx_next_generation r"
  shows "\<forall>c \<in> set cs. \<not> touches i c"
  using assms
proof (induction rule: exec_run.induct)
  case (exec_cons r c t cs u)
  have "\<not> generation_over i g u" using exec_cons.prems by (auto simp: generation_over_def)
  then have "\<not> touches i c"
    using generation_over_run [OF exec_cons.hyps(2)] touched_generation_over [OF exec_cons.hyps(1)] exec_cons.prems
    by blast
  with exec_cons next_generation_mono [OF exec_cons.hyps(1)] show ?case by simp
qed simp

text \<open>
  C31. Refreshed addresses are written into a session only if it is still the session that was read: when a
  handle read earlier is accepted, the session was neither registered again nor removed since, no
  scrub is waiting, and what is replaced is exactly the session of the handle.
\<close>

theorem refresh_only_into_read_session:
  assumes "reachable starts_without_sessions hls_registry_step r"
    "session_handle_of r i = Some h" "ss_id (sh_session h) = i"
    "exec_run hls_registry_step r calls m"
    "replace_media_requests_if_current h replacement persists m = (Inr True, r')"
  shows "persists \<and> (\<forall>c \<in> set calls. \<not> touches i c) \<and> session_handle_of m i = Some h
    \<and> hm_get (hx_pending_scrubs m) i = None \<and> ss_id replacement = i
    \<and> session_handle_of r' i = Some (h\<lparr>sh_session := replacement\<rparr>)"
proof -
  have h: "hm_get (hx_generations r) i = Some (sh_generation h)"
    using assms(2) by (auto simp: session_handle_of_def split: option.splits)
  then have "sh_generation h \<le> hx_next_generation r"
    using sessions.reachable_inv [OF assms(1)] by (simp add: hls_registry_inv_def)
  moreover have m: "hm_get (hx_sessions m) i = Some (sh_session h)" "hm_get (hx_generations m) i = Some (sh_generation h)"
      "hm_get (hx_pending_scrubs m) i = None" "ss_id replacement = i" "persists"
      "r' = m\<lparr>hx_sessions := hm_insert i replacement (hx_sessions m)\<rparr>"
    using assms(3,5) by (auto simp: replace_media_requests_if_current_def Let_def split: if_splits)
  ultimately show ?thesis
    using same_generation_untouched [OF assms(4)] by (cases h) (auto simp: session_handle_of_def)
qed

section \<open>A scrub takes effect at its deadline\<close>

text \<open>The sessions that accepted refreshes of \<open>i\<close> can have put in place, and a call that can apply a scrub early.\<close>

definition published :: "string \<Rightarrow> registry_call list \<Rightarrow> hls_session list" where
  "published i calls =
     concat (map (\<lambda>c. case c of
        CallReplace h x persists \<Rightarrow> if ss_id x = i \<and> persists then [x] else [] | _ \<Rightarrow> []) calls)"

fun may_scrub :: "string \<Rightarrow> nat \<Rightarrow> nat \<Rightarrow> registry_call \<Rightarrow> bool" where
  "may_scrub i g d (CallGetWrite j now) = (j = i \<and> d \<le> now)"
| "may_scrub i g d (CallScrub j h) = (j = i \<and> h = g)"
| "may_scrub i g d _ = False"

definition scrub_waits :: "string \<Rightarrow> nat \<Rightarrow> nat \<Rightarrow> hls_session \<Rightarrow> hls_session \<Rightarrow> hls_registry \<Rightarrow> bool" where
  "scrub_waits i g d session replacement r \<longleftrightarrow>
     hm_get (hx_generations r) i = Some g \<and> hm_get (hx_sessions r) i = Some session
     \<and> hm_get (hx_pending_scrubs r) i
         = Some \<lparr>sc_generation = g, sc_deadline = d, sc_replacement = replacement\<rparr>"

definition scrub_done :: "string \<Rightarrow> nat \<Rightarrow> hls_session list \<Rightarrow> hls_registry \<Rightarrow> bool" where
  "scrub_done i g allowed r \<longleftrightarrow>
     hm_get (hx_generations r) i = Some g \<and> hm_get (hx_pending_scrubs r) i = None
     \<and> (\<exists>x \<in> set allowed. hm_get (hx_sessions r) i = Some x)"

lemma published_Nil [simp]: "published i [] = []"
  by (simp add: published_def)

lemma published_Cons: "published i (c # cs) = published i [c] @ published i cs"
  by (simp add: published_def)

lemma scrub_waits_apply:
  assumes "scrub_waits i g d session replacement r"
  shows "if j = i \<and> (e = None \<or> e = Some g) then scrub_done i g [replacement] (snd (apply_pending_scrub j e r))
    else scrub_waits i g d session replacement (snd (apply_pending_scrub j e r))"
  using assms
  by (auto simp: apply_pending_scrub_def scrub_waits_def scrub_done_def split: option.splits)

lemma scrub_done_apply:
  "scrub_done i g allowed r \<Longrightarrow> scrub_done i g allowed (snd (apply_pending_scrub j e r))"
  by (cases rule: apply_pending_scrub_cases [of j e r]) (auto simp: scrub_done_def)

lemma scrub_expired_eq:
  "snd (scrub_expired_session j now r) =
     (if (case hm_get (hx_pending_scrubs r) j of Some scrub \<Rightarrow> sc_deadline scrub \<le> now | None \<Rightarrow> False)
      then snd (apply_pending_scrub j None r) else r)"
  by (auto simp: scrub_expired_session_def split: option.split)

lemma get_write_effect: "snd (get_write j now r) = snd (scrub_expired_session j now r)"
  "fst (get_write j now r) = session_handle_of (snd (scrub_expired_session j now r)) j"
  by (simp_all add: get_write_def Let_def)

lemma scrub_waits_get_write:
  assumes "scrub_waits i g d session replacement r"
  shows "if j = i \<and> d \<le> now then scrub_done i g [replacement] (snd (scrub_expired_session j now r))
    else scrub_waits i g d session replacement (snd (scrub_expired_session j now r))"
  using assms scrub_waits_apply [OF assms, of j None]
  by (auto simp: scrub_expired_eq scrub_waits_def split: option.splits if_splits)

lemma scrub_waits_step:
  assumes "hls_registry_step r c r'" "\<not> touches i c" "scrub_waits i g d session replacement r"
  shows "if may_scrub i g d c then scrub_done i g [replacement] r' else scrub_waits i g d session replacement r'"
proof (cases c)
  case (CallGetWrite j now)
  then show ?thesis
    using assms scrub_waits_get_write [OF assms(3), of j now] by (auto simp: hls_registry_step_def get_write_effect)
next
  case (CallScrub j h)
  then show ?thesis
    using assms scrub_waits_apply [OF assms(3), of j "Some h"]
    by (auto simp: hls_registry_step_def scrub_generation_def)
next
  case (CallReplace h x p)
  then show ?thesis
    using assms by (auto simp: hls_registry_step_def replace_media_requests_if_current_def Let_def scrub_waits_def)
qed (use assms in \<open>auto simp: hls_registry_step_def registry_insert_def registry_insert_with_scrub_deadline_def
      registry_remove_def scrub_waits_def\<close>)

lemma scrub_done_step:
  assumes "hls_registry_step r c r'" "\<not> touches i c" "scrub_done i g allowed r"
  shows "scrub_done i g (allowed @ published i [c]) r'"
proof (cases c)
  case (CallGetWrite j now)
  then show ?thesis
    using assms scrub_done_apply [OF assms(3), of j None]
    by (auto simp: hls_registry_step_def get_write_effect scrub_expired_eq published_def)
next
  case (CallScrub j h)
  then show ?thesis
    using assms scrub_done_apply [OF assms(3), of j "Some h"]
    by (auto simp: hls_registry_step_def scrub_generation_def published_def)
next
  case (CallReplace h x p)
  then show ?thesis
    using assms
    by (auto simp: hls_registry_step_def replace_media_requests_if_current_def Let_def scrub_done_def published_def)
qed (use assms in \<open>auto simp: hls_registry_step_def registry_insert_def registry_insert_with_scrub_deadline_def
      registry_remove_def scrub_done_def published_def\<close>)

lemma scrub_done_run:
  "exec_run hls_registry_step r cs r' \<Longrightarrow> \<forall>c \<in> set cs. \<not> touches i c \<Longrightarrow> scrub_done i g allowed r \<Longrightarrow>
    scrub_done i g (allowed @ published i cs) r'"
proof (induction arbitrary: allowed rule: exec_run.induct)
  case (exec_cons r c t cs u)
  have "scrub_done i g (allowed @ published i [c]) t"
    using exec_cons.hyps(1) exec_cons.prems by (intro scrub_done_step) auto
  from exec_cons.IH [OF _ this] exec_cons.prems show ?case by (simp add: published_Cons [of i c cs])
qed simp

lemma scrub_done_more: "scrub_done i g a r \<Longrightarrow> set a \<subseteq> set b \<Longrightarrow> scrub_done i g b r"
  by (auto simp: scrub_done_def)

lemma scrub_waits_run:
  "exec_run hls_registry_step r cs r' \<Longrightarrow> \<forall>c \<in> set cs. \<not> touches i c \<Longrightarrow> scrub_waits i g d session replacement r \<Longrightarrow>
    if list_ex (may_scrub i g d) cs then scrub_done i g (replacement # published i cs) r'
    else scrub_waits i g d session replacement r'"
proof (induction rule: exec_run.induct)
  case (exec_cons r c t cs u)
  show ?case
  proof (cases "may_scrub i g d c")
    case True
    then have "scrub_done i g [replacement] t"
      using scrub_waits_step [OF exec_cons.hyps(1) _ exec_cons.prems(2)] exec_cons.prems(1) by auto
    then have "scrub_done i g ([replacement] @ published i cs) u"
      using exec_cons.prems(1) by (intro scrub_done_run [OF exec_cons.hyps(2)]) auto
    then have "scrub_done i g (replacement # published i (c # cs)) u"
      by (rule scrub_done_more) (auto simp: published_Cons [of i c cs])
    with True show ?thesis by simp
  next
    case False
    then have "scrub_waits i g d session replacement t"
      using scrub_waits_step [OF exec_cons.hyps(1) _ exec_cons.prems(2)] exec_cons.prems(1) by auto
    with exec_cons.IH exec_cons.prems(1) False show ?thesis
      by (auto simp: published_Cons [of i c cs] split: if_splits elim: scrub_done_more)
  qed
qed simp

text \<open>An answer of \<open>get_with_generation\<close>, under the read lock or under the write lock.\<close>

definition answers :: "hls_registry \<Rightarrow> string \<Rightarrow> nat \<Rightarrow> session_handle \<Rightarrow> bool" where
  "answers r i now h \<longleftrightarrow>
     get_read i now r = Answered_read (Some h) \<or> fst (get_write i now r) = Some h"

text \<open>
  C32. A session registered with a deadline is served until then as it is, unless its scrub is asked for,
  and from the deadline on never again: every later answer in its generation is the replacement or an
  accepted refresh, whatever other calls come in between.
\<close>

theorem scrub_takes_effect:
  assumes "registry_insert_with_scrub_deadline session replacement d r = Some (g, m)"
    "exec_run hls_registry_step m calls r'" "\<forall>c \<in> set calls. \<not> touches (ss_id session) c"
    "answers r' (ss_id session) now h"
  shows "sh_generation h = g
    \<and> (d \<le> now \<longrightarrow> sh_session h \<in> set (replacement # published (ss_id session) calls))
    \<and> (now < d \<and> \<not> list_ex (may_scrub (ss_id session) g d) calls \<longrightarrow> sh_session h = session)"
proof -
  let ?i = "ss_id session" and ?allowed = "replacement # published (ss_id session) calls"
  have "scrub_waits ?i g d session replacement m"
    using assms(1) by (auto simp: registry_insert_with_scrub_deadline_def scrub_waits_def)
  from scrub_waits_run [OF assms(2,3) this]
  consider "\<not> list_ex (may_scrub ?i g d) calls" "scrub_waits ?i g d session replacement r'"
    | "list_ex (may_scrub ?i g d) calls" "scrub_done ?i g ?allowed r'"
    by (auto split: if_splits)
  then show ?thesis
  proof cases
    case 1
    then show ?thesis
      using assms(4) scrub_waits_get_write [OF 1(2), of ?i now]
      by (auto simp: answers_def get_read_def get_write_effect session_handle_of_def scrub_waits_def
          scrub_done_def split: if_splits)
  next
    case 2
    moreover from 2(2) have "snd (scrub_expired_session ?i now r') = r'"
      by (simp add: scrub_expired_eq scrub_done_def)
    ultimately show ?thesis
      using assms(4) by (auto simp: answers_def get_read_def get_write_effect session_handle_of_def scrub_done_def)
  qed
qed

end
