(* ===== verification/Hls_Answers.thy ===== *)
theory Hls_Answers
  imports Hls_Names Hls_Registry Http_Resource Hls_Stream
begin

text \<open>
  The handlers that serve an HLS session (\<open>media.rs\<close>): the master playlist, the media playlists and the
  choice how a media resource is delivered. What the session registry, the cache, the network policy
  and the probe of an upstream answer are the fields of \<open>serving_env\<close>; the delivery that a choice
  starts is the value of \<open>segment_answer\<close>. The events for the network policy are listed.
\<close>

section \<open>Answers with a text\<close>

definition text_response :: "nat \<Rightarrow> string \<Rightarrow> bool \<Rightarrow> http_response" where
  "text_response status body head_only =
     \<lparr>hp_status = status, hp_headers = [], hp_body = (if head_only then [] else body)\<rparr>"

definition playlist_response :: "string \<Rightarrow> bool \<Rightarrow> http_response" where
  "playlist_response playlist head_only =
     \<lparr>hp_status = 200,
      hp_headers = [(''content-type'', ''application/vnd.apple.mpegurl''), (''cache-control'', ''no-store'')],
      hp_body = (if head_only then [] else playlist)\<rparr>"

definition weak_network_variant_unavailable_response :: "bool \<Rightarrow> http_response" where
  "weak_network_variant_unavailable_response head_only =
     \<lparr>hp_status = 503, hp_headers = [(''cache-control'', ''no-store'')],
      hp_body = (if head_only then []
        else ''HLS variant unavailable under the active weak-network policy.'' @ [newline])\<rparr>"

definition hls_range_not_satisfiable_response :: "nat option \<Rightarrow> http_response" where
  "hls_range_not_satisfiable_response sz =
     with_header ''content-range''
       (''bytes */'' @ (case sz of Some n \<Rightarrow> decimal n | None \<Rightarrow> ''*'')) (empty_response 416)"

section \<open>The master playlist\<close>

definition resource_has_upstream :: "media_resource \<Rightarrow> bool" where
  "resource_has_upstream r \<longleftrightarrow>
     trim (mr_url (hr_request r)) \<noteq> [] \<or> list_ex (\<lambda>u. trim u \<noteq> []) (mr_backup_urls (hr_request r))"

text \<open>A variant that can be delivered: each of its resources has an address or is in the cache.\<close>

definition variant_available :: "(string \<Rightarrow> bool) \<Rightarrow> hls_variant \<Rightarrow> bool" where
  "variant_available is_cached v =
     list_all (\<lambda>r. resource_has_upstream r \<or> is_cached (hr_id r)) (hv_video v # option_list (hv_audio v))"

text \<open>\<open>position(..).unwrap_or(0)\<close>.\<close>

fun position_or_zero :: "('a \<Rightarrow> bool) \<Rightarrow> 'a list \<Rightarrow> nat \<Rightarrow> nat" where
  "position_or_zero P [] n = 0"
| "position_or_zero P (x # xs) n = (if P x then n else position_or_zero P xs (Suc n))"

definition playlist_session :: "hls_session \<Rightarrow> hls_variant list \<Rightarrow> hls_session" where
  "playlist_session session variants =
     (let selected_index = position_or_zero (\<lambda>v. hv_id v = hv_id (ss_variant session)) variants 0 in
      session\<lparr>ss_variant := variants ! selected_index,
        ss_alternate_variants := take selected_index variants @ drop (Suc selected_index) variants,
        ss_advertise_alternate_variants := True\<rparr>)"

definition hls_master_playlist_response ::
  "session_handle option \<Rightarrow> (string \<Rightarrow> bool) \<Rightarrow> (hls_variant \<Rightarrow> bool) \<Rightarrow> bool \<Rightarrow> http_response" where
  "hls_master_playlist_response serving is_cached is_advertisable head_only =
     (case serving of
        None \<Rightarrow> empty_response 404
      | Some handle \<Rightarrow>
          let session = sh_session handle;
              variants = filter (variant_available is_cached) (advertised_variants session) in
          if variants = [] then
            text_response 503 (''No complete HLS representation is available offline.'' @ [newline]) head_only
          else playlist_response
            (master_playlist_with_variant_filter (playlist_session session variants) is_advertisable) head_only)"

section \<open>Media playlists and resources\<close>

record mp4_initialization =
  in_length :: nat
  in_total_length :: nat
  in_segments :: "hls_media_segment list"

record prewarmed_file =
  pf_content :: string
  pf_seek_ok :: bool
  pf_content_type :: string
  pf_prefix_length :: nat
  pf_total_length :: nat
  pf_last_modified :: int

record serving_env =
  en_serving :: "session_handle option"
  en_advertisable :: "hls_variant \<Rightarrow> bool"
  en_cached :: "string \<Rightarrow> mp4_initialization option"
  en_prewarmed :: "string \<Rightarrow> mp4_initialization option"
  en_probe :: "media_resource \<Rightarrow> mp4_initialization option"
  en_open_cached :: "string \<Rightarrow> opened_media_file option"
  en_open_prewarmed :: "string \<Rightarrow> prewarmed_file option"

definition hls_variant_is_servable_for_request ::
  "(hls_variant \<Rightarrow> bool) \<Rightarrow> hls_session \<Rightarrow> string \<Rightarrow> bool \<Rightarrow> bool" where
  "hls_variant_is_servable_for_request is_advertisable session variant_id advertised_resource =
     (if \<not> advertised_resource
         \<or> pp_weak_network_preference (ss_effective_policy session) \<noteq> HoldDowngrade then True
      else variant_is_advertised_with_filter session variant_id is_advertisable)"

datatype segment_answer =
    Answer http_response
  | PrewarmedSplice string media_resource prewarmed_file byte_range
  | Proxied string media_resource
  | ForegroundRange string media_resource

text \<open>An event for the network policy; a failure is recorded for a variant, a cache hit for the session.\<close>

type_synonym recorded_event = "string option \<times> policy_event"

definition initialization_for ::
  "serving_env \<Rightarrow> bool \<Rightarrow> string \<Rightarrow> media_resource \<Rightarrow> (http_response + mp4_initialization) \<times> recorded_event list" where
  "initialization_for env head_only variant_id resource =
     (case en_probe env resource of
        Some i \<Rightarrow> (Inr i, [])
      | None \<Rightarrow> (Inl (text_response 502 (''HLS upstream MP4 initialization probe failed.'' @ [newline]) head_only),
                 [(Some variant_id, UpstreamFailure)]))"

text \<open>The answer once the playlist's resource is found; \<open>write\<close> writes the playlist.\<close>

definition playlist_answer_for ::
  "serving_env \<Rightarrow> hls_session \<Rightarrow> bool \<Rightarrow> string \<Rightarrow> media_resource \<Rightarrow> bool
     \<Rightarrow> (mp4_initialization \<Rightarrow> string option) \<Rightarrow> segment_answer \<times> recorded_event list" where
  "playlist_answer_for env session head_only variant_id resource advertised_resource write =
     (if \<not> hls_variant_is_servable_for_request (en_advertisable env) session variant_id advertised_resource
      then (Answer (weak_network_variant_unavailable_response head_only), [])
      else
        let (initialization, events) =
          (case en_cached env (hr_id resource) of
             Some c \<Rightarrow> (Inr c, [(None, CacheHit)])
           | None \<Rightarrow>
               if \<not> advertised_resource \<and> \<not> resource_has_upstream resource
               then (Inl (empty_response 404), [])
               else (case en_prewarmed env (hr_id resource) of
                 Some c \<Rightarrow> (Inr (c\<lparr>in_segments := []\<rparr>), [(None, CacheHit)])
               | None \<Rightarrow> initialization_for env head_only variant_id resource)) in
        case initialization of
          Inl r \<Rightarrow> (Answer r, events)
        | Inr i \<Rightarrow>
            (case write i of
               None \<Rightarrow> (Answer (text_response 502
                   (''HLS upstream MP4 initialization range was invalid.'' @ [newline]) head_only), events)
             | Some playlist \<Rightarrow> (Answer (playlist_response playlist head_only), events)))"

definition media_playlist_answer ::
  "serving_env \<Rightarrow> hls_session \<Rightarrow> string \<Rightarrow> bool \<Rightarrow> segment_answer \<times> recorded_event list" where
  "media_playlist_answer env session segment_id head_only =
     (case servable_media_playlist_resource session segment_id of
        Some (v, r) \<Rightarrow>
          playlist_answer_for env session head_only (hv_id v) r True (\<lambda>i.
            servable_media_playlist session segment_id (in_length i) (in_total_length i) (in_segments i))
      | None \<Rightarrow>
          (case lookup_media_playlist_resource session segment_id of
             Some (v, r) \<Rightarrow>
               playlist_answer_for env session head_only (hv_id v) r False (\<lambda>i.
                 lookup_media_playlist session segment_id (in_length i) (in_total_length i) (in_segments i))
           | None \<Rightarrow> (Answer (empty_response 404), [])))"

definition build_prewarmed_file_response ::
  "(int \<Rightarrow> string) \<Rightarrow> prewarmed_file \<Rightarrow> byte_range \<Rightarrow> bool \<Rightarrow> http_response" where
  "build_prewarmed_file_response fmt_http_date file r head_only =
     (if \<not> head_only \<and> \<not> pf_seek_ok file then empty_response 404
      else with_header ''cache-control'' ''no-store''
        \<lparr>hp_status = 206,
         hp_headers = [(''content-type'', content_type_header_value (pf_content_type file)),
           (''accept-ranges'', ''bytes''), (''content-length'', decimal (range_length r)),
           (''content-range'', content_range_text (br_start r) (br_end r) (pf_total_length file)),
           (''last-modified'', fmt_http_date (pf_last_modified file))],
         hp_body = (if head_only then [] else take (range_length r) (drop (br_start r) (pf_content file)))\<rparr>)"

text \<open>The refusals of a HEAD request whose range header cannot be served.\<close>

definition head_refusal :: "header_map \<Rightarrow> nat option \<Rightarrow> http_response option" where
  "head_refusal headers sz =
     (case single_range_header headers of
        Inl _ \<Rightarrow> Some (hls_range_not_satisfiable_response sz)
      | Inr None \<Rightarrow> None
      | Inr (Some header) \<Rightarrow>
          if \<not> range_header_is_well_formed header then Some (hls_range_not_satisfiable_response sz)
          else (case sz of
            None \<Rightarrow> None
          | Some n \<Rightarrow>
              (case parse_range (Some header) n of
                 Inl _ \<Rightarrow> Some (hls_range_not_satisfiable_response (Some n))
               | Inr _ \<Rightarrow> None)))"

definition cached_file_answer ::
  "(int \<Rightarrow> string) \<Rightarrow> opened_media_file \<Rightarrow> media_resource \<Rightarrow> header_map \<Rightarrow> bool \<Rightarrow> http_response \<times> policy_event list" where
  "cached_file_answer fmt_http_date file resource headers head_only =
     (case single_range_header headers of
        Inl _ \<Rightarrow> (resource_range_not_satisfiable_response (of_size_bytes file) (resource_content_type resource) True [], [])
      | Inr range_header \<Rightarrow>
          (case parse_range range_header (of_size_bytes file) of
             Inl _ \<Rightarrow> (with_header ''content-range'' (unsatisfiable_text (of_size_bytes file)) (empty_response 416), [])
           | Inr r \<Rightarrow> (build_file_response fmt_http_date file r head_only, [CacheHit])))"

text \<open>\<open>None\<close>: the prewarmed prefix does not answer the request (it has no range).\<close>

definition prewarmed_answer ::
  "(int \<Rightarrow> string) \<Rightarrow> prewarmed_file \<Rightarrow> string \<Rightarrow> media_resource \<Rightarrow> header_map \<Rightarrow> bool
     \<Rightarrow> (segment_answer \<times> policy_event list) option" where
  "prewarmed_answer fmt_http_date file variant_id resource headers head_only =
     (let unsatisfiable = Answer (with_header ''content-range'' (unsatisfiable_text (pf_total_length file)) (empty_response 416)) in
      case single_range_header headers of
        Inl _ \<Rightarrow> Some (unsatisfiable, [])
      | Inr None \<Rightarrow> None
      | Inr (Some header) \<Rightarrow>
          Some (case parse_range (Some header) (pf_total_length file) of
             Inl _ \<Rightarrow> (unsatisfiable, [])
           | Inr (Some r) \<Rightarrow>
               if br_end r < pf_prefix_length file
               then (Answer (build_prewarmed_file_response fmt_http_date file r head_only), [CacheHit])
               else if br_start r < pf_prefix_length file
               then (PrewarmedSplice variant_id resource file r, [])
               else (Proxied variant_id resource, [])
           | Inr None \<Rightarrow> (Proxied variant_id resource, [])))"

definition media_segment_answer ::
  "(int \<Rightarrow> string) \<Rightarrow> serving_env \<Rightarrow> hls_session \<Rightarrow> string \<Rightarrow> header_map \<Rightarrow> bool
     \<Rightarrow> segment_answer \<times> recorded_event list" where
  "media_segment_answer fmt_http_date env session segment_id headers head_only =
     (let found = (case servable_media_resource_with_variant session segment_id of
            Some (i, r) \<Rightarrow> Some (i, r, True)
          | None \<Rightarrow> (case media_resource_with_variant session segment_id of
              Some (i, r) \<Rightarrow> Some (i, r, False) | None \<Rightarrow> None)) in
      case found of
        None \<Rightarrow> (Answer (empty_response 404), [])
      | Some (variant_id, resource, advertised_resource) \<Rightarrow>
          if \<not> hls_variant_is_servable_for_request (en_advertisable env) session variant_id advertised_resource
          then (Answer (weak_network_variant_unavailable_response head_only), [])
          else case (if head_only then head_refusal headers (mr_size (hr_request resource)) else None) of
            Some refusal \<Rightarrow> (Answer refusal, [])
          | None \<Rightarrow>
              (case en_open_cached env (hr_id resource) of
                 Some file \<Rightarrow>
                   (case cached_file_answer fmt_http_date file resource headers head_only of
                      (r, events) \<Rightarrow> (Answer r, map (Pair None) events))
               | None \<Rightarrow>
                   if \<not> advertised_resource \<and> \<not> resource_has_upstream resource
                   then (Answer (empty_response 404), [])
                   else
                     (case Option.bind (en_open_prewarmed env (hr_id resource))
                         (\<lambda>file. prewarmed_answer fmt_http_date file variant_id resource headers head_only) of
                        Some (a, events) \<Rightarrow> (a, map (Pair None) events)
                      | None \<Rightarrow>
                          (if head_only then Proxied variant_id resource else ForegroundRange variant_id resource, []))))"

definition hls_segment_response ::
  "(int \<Rightarrow> string) \<Rightarrow> serving_env \<Rightarrow> string \<Rightarrow> header_map \<Rightarrow> bool \<Rightarrow> segment_answer \<times> recorded_event list" where
  "hls_segment_response fmt_http_date env segment_id headers head_only =
     (case en_serving env of
        None \<Rightarrow> (Answer (empty_response 404), [])
      | Some handle \<Rightarrow>
          if strip_suffix ''.m3u8'' segment_id \<noteq> None
          then media_playlist_answer env (sh_session handle) segment_id head_only
          else media_segment_answer fmt_http_date env (sh_session handle) segment_id headers head_only)"

text \<open>
  \<open>build_prewarmed_spliced_file_response\<close>: the local bytes, and then the body of the tail. \<open>None\<close>: the
  request is passed on to the upstream as a whole.
\<close>

definition build_prewarmed_spliced_file_response ::
  "(int \<Rightarrow> string) \<Rightarrow> prewarmed_file \<Rightarrow> byte_range \<Rightarrow> upstream_tail option \<Rightarrow> bool
     \<Rightarrow> (http_response \<times> upstream_tail option) option" where
  "build_prewarmed_spliced_file_response fmt_http_date file r tail head_only =
     (if head_only then None
      else case tail of
        None \<Rightarrow> None
      | Some t \<Rightarrow>
          if \<not> pf_seek_ok file then Some (empty_response 404, None)
          else Some (with_header ''cache-control'' ''no-store''
            \<lparr>hp_status = 206,
             hp_headers = [(''content-type'', content_type_header_value (pf_content_type file)),
               (''accept-ranges'', ''bytes''), (''content-length'', decimal (range_length r)),
               (''content-range'', content_range_text (br_start r) (br_end r) (pf_total_length file)),
               (''last-modified'', fmt_http_date (pf_last_modified file))],
             hp_body = take (pf_prefix_length file - br_start r) (drop (br_start r) (pf_content file))\<rparr>,
             Some t))"

section \<open>The addresses that the master playlist shows\<close>

lemma position_or_zero_less: "position_or_zero P xs n < n + length xs \<or> position_or_zero P xs n = 0"
proof (induction xs arbitrary: n)
  case (Cons x xs)
  show ?case using Cons.IH [of "Suc n"] by auto
qed simp

lemma position_or_zero_bound: "xs \<noteq> [] \<Longrightarrow> position_or_zero P xs 0 < length xs"
  using position_or_zero_less [of P xs 0] by (cases xs) auto

lemma playlist_session_variants:
  assumes "vs \<noteq> []"
  shows "mset (advertised_variants (playlist_session s vs)) = mset vs"
proof -
  let ?k = "position_or_zero (\<lambda>v. hv_id v = hv_id (ss_variant s)) vs 0"
  have "?k < length vs" by (rule position_or_zero_bound [OF assms])
  then have "vs = take ?k vs @ vs ! ?k # drop (Suc ?k) vs" by (rule id_take_nth_drop)
  then have "mset vs = mset (take ?k vs @ vs ! ?k # drop (Suc ?k) vs)" by simp
  then show ?thesis by (simp add: playlist_session_def Let_def advertised_variants_def)
qed

lemma servable_found:
  assumes "session_names s" "v \<in> set (advertised_variants s)"
  shows "servable_media_playlist_resource s (video_playlist_id v) = Some (v, hv_video v)
    \<and> (\<forall>audio. hv_audio v = Some audio \<longrightarrow>
        servable_media_playlist_resource s (media_playlist_id (hr_id audio)) = Some (v, audio))"
  using advertised_names_ok [OF assms(1)] lookup_found [OF _ assms(2)]
  by (simp add: servable_media_playlist_resource_def names_ok_def)

text \<open>
  What a shown variant promises: each of its resources has an address or is in the cache, and the
  session finds them under the names in the playlist.
\<close>

definition leads_to_media :: "hls_session \<Rightarrow> (string \<Rightarrow> bool) \<Rightarrow> hls_variant \<Rightarrow> bool" where
  "leads_to_media s is_cached v \<longleftrightarrow>
     v \<in> set (advertised_variants s)
     \<and> (\<forall>r \<in> set (resources_of v). resource_has_upstream r \<or> is_cached (hr_id r))
     \<and> servable_media_playlist_resource s (video_playlist_id v) = Some (v, hv_video v)
     \<and> (\<forall>audio. hv_audio v = Some audio \<longrightarrow>
          servable_media_playlist_resource s (media_playlist_id (hr_id audio)) = Some (v, audio))"

text \<open>
  C33. Every address that a master playlist shows leads, in the session it was made for, to the media
  playlist of exactly that variant, which can be delivered; the same holds for the audio of the
  variant. The variants shown are those that the network policy lets through, or the one with the
  lowest bandwidth when it lets none through, and there is always one.
\<close>

theorem master_playlist_leads_to_media:
  assumes "session_names (sh_session h)"
    "\<forall>v \<in> set (advertised_variants (sh_session h)). codecs_on_one_line v"
    "hp_status (hls_master_playlist_response (Some h) is_cached advertisable False) = 200"
  shows "\<exists>vs. vs \<noteq> []
    \<and> playlist_uris (hp_body (hls_master_playlist_response (Some h) is_cached advertisable False)) = map variant_uri vs
    \<and> (\<forall>v \<in> set vs. leads_to_media (sh_session h) is_cached v
        \<and> (advertisable v
           \<or> (\<forall>w. leads_to_media (sh_session h) is_cached w \<longrightarrow>
                \<not> advertisable w \<and> hv_bandwidth v \<le> hv_bandwidth w)))"
proof -
  let ?s = "sh_session h"
  define available where "available = filter (variant_available is_cached) (advertised_variants ?s)"
  have some: "available \<noteq> []"
    using assms(3) by (auto simp: hls_master_playlist_response_def available_def Let_def text_response_def)
  let ?p = "playlist_session ?s available"
  define vs where "vs = advertised_variants_with_filter ?p advertisable"
  have body: "hp_body (hls_master_playlist_response (Some h) is_cached advertisable False)
      = master_playlist_with_variant_filter ?p advertisable"
    using some by (simp add: hls_master_playlist_response_def available_def [symmetric] playlist_response_def)
  have all: "set (advertised_variants ?p) = set available"
    by (rule mset_eq_setD) (rule playlist_session_variants [OF some])
  have "set vs \<subseteq> set available" using advertised_with_filter_subset [of ?p advertisable] all by (simp add: vs_def)
  then have mem: "v \<in> set vs \<Longrightarrow> v \<in> set (advertised_variants ?s)" for v by (auto simp: available_def)
  have leads: "leads_to_media ?s is_cached v \<longleftrightarrow> v \<in> set available" for v
    using servable_found [OF assms(1)] by (auto simp: leads_to_media_def available_def variant_available_def resources_of_def list_all_iff)
  have "playlist_uris (master_playlist_with_variant_filter ?p advertisable) = map variant_uri vs"
  proof (rule master_playlist_uris [OF _ _ vs_def])
    fix v assume "v \<in> set vs"
    from mem [OF this] show "codecs_on_one_line v" using assms(2) by blast
    show "\<forall>r \<in> set (resources_of v). plain_name (media_playlist_id (hr_id r))"
      using advertised_names_ok [OF assms(1)] mem [OF \<open>v \<in> set vs\<close>] by (auto simp: names_ok_def)
  qed
  moreover have "vs \<noteq> []" by (simp add: vs_def advertised_with_filter_not_empty)
  moreover have "leads_to_media ?s is_cached v \<and> (advertisable v
      \<or> (\<forall>w. leads_to_media ?s is_cached w \<longrightarrow> \<not> advertisable w \<and> hv_bandwidth v \<le> hv_bandwidth w))"
    if "v \<in> set vs" for v
    using that \<open>set vs \<subseteq> set available\<close> advertised_with_filter_cases [of v ?p advertisable] all
    unfolding leads vs_def by blast
  ultimately show ?thesis unfolding body by blast
qed

section \<open>The bytes that a media playlist lists\<close>

lemma ref_from_append:
  "media_playlist_resource_ref_from vs x = Some y \<Longrightarrow> media_playlist_resource_ref_from (vs @ ws) x = Some y"
  by (induction vs) (auto split: if_splits option.splits)

lemma servable_is_found:
  "servable_media_playlist_resource s x = Some y \<Longrightarrow> lookup_media_playlist_resource s x = Some y"
  using ref_from_append [of "[ss_variant s]" x y "ss_alternate_variants s"]
  by (auto simp: servable_media_playlist_resource_def lookup_media_playlist_resource_def
      advertised_variants_def resource_variants_def split: if_splits)

text \<open>Where the description of a resource's bytes comes from.\<close>

definition described_by :: "serving_env \<Rightarrow> media_resource \<Rightarrow> mp4_initialization \<Rightarrow> bool" where
  "described_by env r i \<longleftrightarrow> en_cached env (hr_id r) = Some i
     \<or> (\<exists>p. en_prewarmed env (hr_id r) = Some p \<and> i = p\<lparr>in_segments := []\<rparr>)
     \<or> en_probe env r = Some i"

lemma playlist_answer_for_200:
  assumes "playlist_answer_for env s False variant_id r adv write = (Answer response, events)" "hp_status response = 200"
  obtains i where "described_by env r i" "write i = Some (hp_body response)"
proof -
  have "\<exists>i. described_by env r i \<and> write i = Some (hp_body response)"
  proof (cases "en_cached env (hr_id r)")
    case (Some c)
    then show ?thesis
      using assms
      by (auto simp: playlist_answer_for_def described_by_def text_response_def playlist_response_def
          weak_network_variant_unavailable_response_def split: if_splits option.splits)
  next
    case None
    show ?thesis
    proof (cases "en_prewarmed env (hr_id r)")
      case (Some c)
      then show ?thesis
        using assms None
        by (auto simp: playlist_answer_for_def described_by_def text_response_def playlist_response_def empty_response_def
            weak_network_variant_unavailable_response_def split: if_splits option.splits)
    next
      case none: None
      show ?thesis
        using assms None none
        by (cases "en_probe env r")
          (auto simp: playlist_answer_for_def described_by_def text_response_def playlist_response_def empty_response_def
            initialization_for_def weak_network_variant_unavailable_response_def split: if_splits option.splits)
    qed
  qed
  then show thesis using that by blast
qed

lemma media_playlist_answer_200:
  assumes "media_playlist_answer env s segment_id False = (Answer response, events)" "hp_status response = 200"
  obtains v r i where "lookup_media_playlist_resource s segment_id = Some (v, r)" "described_by env r i"
    "media_playlist_for_resource v r (in_length i) (in_total_length i) (in_segments i) = Some (hp_body response)"
proof (cases "servable_media_playlist_resource s segment_id")
  case (Some vr)
  obtain v r where vr: "vr = (v, r)" by (cases vr)
  from assms(1) Some vr have "playlist_answer_for env s False (hv_id v) r True (\<lambda>i.
      media_playlist_for_resource v r (in_length i) (in_total_length i) (in_segments i)) = (Answer response, events)"
    by (simp add: media_playlist_answer_def servable_media_playlist_def)
  from playlist_answer_for_200 [OF this assms(2)] servable_is_found [OF Some] vr show thesis
    using that by blast
next
  case None
  then obtain vr where some: "lookup_media_playlist_resource s segment_id = Some vr"
    using assms by (cases "lookup_media_playlist_resource s segment_id")
      (auto simp: media_playlist_answer_def empty_response_def)
  obtain v r where vr: "vr = (v, r)" by (cases vr)
  from assms(1) None some vr have "playlist_answer_for env s False (hv_id v) r False (\<lambda>i.
      media_playlist_for_resource v r (in_length i) (in_total_length i) (in_segments i)) = (Answer response, events)"
    by (simp add: media_playlist_answer_def lookup_media_playlist_def)
  from playlist_answer_for_200 [OF this assms(2)] some vr show thesis
    using that by blast
qed

lemma lookup_plain:
  "session_names s \<Longrightarrow> lookup_media_playlist_resource s x = Some (v, r) \<Longrightarrow> plain_name (hr_id r)"
  using session_names_ok [of s] lookup_in [of "resource_variants s" x v r]
  by (auto simp: lookup_media_playlist_resource_def names_ok_def)

text \<open>
  C34. A media playlist that is served names the bytes of its resource exactly once: the initialisation part
  from the first byte, and then ranges that follow each other without a gap to the last byte, whether
  they are the segments of the file or one range. A player that reads what is listed reads the file.
\<close>

theorem media_playlist_covers_resource:
  assumes "en_serving env = Some h" "session_names (sh_session h)" "strip_suffix ''.m3u8'' segment_id \<noteq> None"
    "hls_segment_response fmt env segment_id headers False = (Answer response, events)" "hp_status response = 200"
    "\<And>r i. described_by env r i \<Longrightarrow> in_total_length i \<le> u64_max"
  shows "\<exists>v r i. lookup_media_playlist_resource (sh_session h) segment_id = Some (v, r) \<and> described_by env r i
    \<and> playlist_maps (hp_body response) = [(in_length i, 0)] \<and> 0 < in_length i
    \<and> ranges_follow (in_length i) (playlist_ranges (hp_body response)) (in_total_length i)
    \<and> in_length i < in_total_length i"
proof -
  have "media_playlist_answer env (sh_session h) segment_id False = (Answer response, events)"
    using assms(1,3,4) by (simp add: hls_segment_response_def)
  from media_playlist_answer_200 [OF this assms(5)] obtain v r i where
    found: "lookup_media_playlist_resource (sh_session h) segment_id = Some (v, r)" "described_by env r i"
      "media_playlist_for_resource v r (in_length i) (in_total_length i) (in_segments i) = Some (hp_body response)"
    by blast
  from media_playlist_ranges [OF lookup_plain [OF assms(2) found(1)] found(3) assms(6) [OF found(2)]] found(1,2)
  show ?thesis by blast
qed

end
