(* ===== verification/Mp4_Init.thy ===== *)
theory Mp4_Init
  imports Mp4_Segments
begin

text \<open>
  The length of the initialisation part of a fragmented MP4 file, read from the bytes at its front
  (\<open>mp4_initialization_length\<close> in \<open>hls.rs\<close>): the walk over the top-level boxes up to the end of \<open>moov\<close>.
\<close>

text \<open>The bytes from \<open>offset\<close>, and one box: its type and the position of its end.\<close>

definition init_box :: "byte list \<Rightarrow> nat \<Rightarrow> (byte list \<times> nat) option" where
  "init_box bytes offset =
     (let size32 = from_be_bytes (take 4 (drop offset bytes));
          box_type = take 4 (drop (offset + 4) bytes);
          sized = (if size32 = 0 then None
                   else if size32 = 1 then
                     (case checked_add offset 16 of
                        None \<Rightarrow> None
                      | Some e \<Rightarrow> if e > length bytes then None
                                else Some (16, from_be_bytes (take 8 (drop (offset + 8) bytes))))
                   else Some (8, size32)) in
      case sized of
        None \<Rightarrow> None
      | Some (header_length, box_size) \<Rightarrow>
          if box_size < header_length then None
          else (case checked_add offset box_size of
            None \<Rightarrow> None
          | Some e \<Rightarrow> if e > length bytes then None else Some (box_type, e)))"

lemma init_box_progress:
  "init_box bytes offset = Some (kind, e) \<Longrightarrow> offset + 8 \<le> e \<and> e \<le> length bytes"
  by (auto simp: init_box_def Let_def dest!: checked_add_SomeD split: if_splits option.splits)

function mp4_init_loop :: "byte list \<Rightarrow> nat \<Rightarrow> nat option" where
  "mp4_init_loop bytes offset =
     (case checked_add offset 8 of
        None \<Rightarrow> None
      | Some header_end \<Rightarrow>
          if header_end > length bytes then None
          else (case init_box bytes offset of
            None \<Rightarrow> None
          | Some (box_type, e) \<Rightarrow>
              if box_type = fourcc ''moov'' then Some e
              else if box_type = fourcc ''moof'' \<or> box_type = fourcc ''mdat'' then None
              else mp4_init_loop bytes e))"
  by pat_completeness auto
termination
  by (relation "measure (\<lambda>(bytes, offset). length bytes - offset)") (auto dest!: init_box_progress)

declare mp4_init_loop.simps [simp del]

definition mp4_initialization_length :: "byte list \<Rightarrow> nat option" where
  "mp4_initialization_length bytes = mp4_init_loop bytes 0"

section \<open>The answer does not change when more bytes arrive\<close>

lemma take_drop_extend:
  assumes "a + k \<le> n" "n \<le> length xs"
  shows "take k (drop a (take n xs @ ys)) = take k (drop a xs)"
proof -
  have "drop a (take n xs @ ys) = drop a (take n xs) @ ys" using assms by simp
  moreover have "length (drop a (take n xs)) = n - a" using assms(2) by simp
  moreover have "k \<le> n - a" using assms(1) by linarith
  ultimately have "take k (drop a (take n xs @ ys)) = take k (drop a (take n xs))" by simp
  with \<open>k \<le> n - a\<close> show ?thesis by (simp add: drop_take min_def)
qed

lemma init_box_extend:
  assumes "init_box bytes offset = Some (kind, e)" "offset + 8 \<le> length bytes" "e \<le> n" "n \<le> length bytes"
  shows "init_box (take n bytes @ later) offset = Some (kind, e)"
proof -
  let ?b = "take n bytes @ later"
  note p = init_box_progress [OF assms(1)]
  have "offset + 8 \<le> n" using p assms(3) by simp
  then have small: "take 4 (drop offset ?b) = take 4 (drop offset bytes)"
      "take 4 (drop (offset + 4) ?b) = take 4 (drop (offset + 4) bytes)"
    using assms(4) by - (rule take_drop_extend; linarith)+
  show ?thesis
  proof (cases "from_be_bytes (take 4 (drop offset bytes)) = 1")
    case True
    then have large: "offset + 16 \<le> e"
      using assms(1) by (auto simp: init_box_def Let_def dest!: checked_add_SomeD split: if_splits option.splits)
    then have "take 8 (drop (offset + 8) ?b) = take 8 (drop (offset + 8) bytes)"
      by (intro take_drop_extend) (use assms(3,4) in linarith)+
    then show ?thesis
      using assms small True large by (auto simp: init_box_def Let_def split: if_splits option.splits)
  next
    case False
    then show ?thesis
      using assms small by (auto simp: init_box_def Let_def split: if_splits option.splits)
  qed
qed

lemma mp4_init_loop_bounds:
  "mp4_init_loop bytes offset = Some n \<Longrightarrow> offset + 8 \<le> n \<and> n \<le> length bytes"
proof (induction bytes offset rule: mp4_init_loop.induct)
  case (1 bytes offset)
  then show ?case
    by (subst (asm) mp4_init_loop.simps)
      (fastforce split: option.splits if_splits prod.splits dest: init_box_progress)
qed

lemma mp4_init_loop_extend:
  "mp4_init_loop bytes offset = Some n \<Longrightarrow> mp4_init_loop (take n bytes @ later) offset = Some n"
proof (induction bytes offset rule: mp4_init_loop.induct)
  case (1 bytes offset)
  note bounds = mp4_init_loop_bounds [OF "1.prems"]
  obtain kind e where box: "checked_add offset 8 = Some (offset + 8)" "offset + 8 \<le> length bytes"
      "init_box bytes offset = Some (kind, e)"
    using "1.prems" by (subst (asm) mp4_init_loop.simps) (auto split: option.splits if_splits prod.splits)
  have rest: "kind = fourcc ''moov'' \<and> n = e
      \<or> kind \<noteq> fourcc ''moov'' \<and> kind \<noteq> fourcc ''moof'' \<and> kind \<noteq> fourcc ''mdat'' \<and> mp4_init_loop bytes e = Some n"
    using "1.prems" box by (subst (asm) mp4_init_loop.simps) (auto split: if_splits)
  then have "e \<le> n" using mp4_init_loop_bounds [of bytes e n] by auto
  then have box': "init_box (take n bytes @ later) offset = Some (kind, e)"
    using box bounds by (intro init_box_extend) auto
  have len: "offset + 8 \<le> length (take n bytes @ later)" using bounds by simp
  show ?case
    using rest
  proof
    assume "kind = fourcc ''moov'' \<and> n = e"
    then show ?thesis using box(1) box' len by (subst mp4_init_loop.simps) simp
  next
    assume r: "kind \<noteq> fourcc ''moov'' \<and> kind \<noteq> fourcc ''moof'' \<and> kind \<noteq> fourcc ''mdat'' \<and> mp4_init_loop bytes e = Some n"
    have "mp4_init_loop (take n bytes @ later) e = Some n"
      using "1.IH" [OF box(1) _ box(3) refl] box(2) r by simp
    then show ?thesis using box(1) box' len r by (subst mp4_init_loop.simps) simp
  qed
qed

text \<open>
  The initialisation length that is read from the front of a file is settled by the bytes it covers:
  it is at most what has arrived, and any continuation of the bytes up to it gives the same answer, so
  probing with more or with fewer bytes cannot change it.
\<close>

theorem initialization_length_settled:
  assumes "mp4_initialization_length bytes = Some n"
  shows "8 \<le> n \<and> n \<le> length bytes \<and> mp4_initialization_length (take n bytes @ later) = Some n"
  using mp4_init_loop_bounds [of bytes 0 n] mp4_init_loop_extend [of bytes 0 n later] assms
  by (simp add: mp4_initialization_length_def)

theorem initialization_length_settled_witness:
  "mp4_initialization_length demo_mp4 = Some (the (mp4_initialization_length demo_mp4))
   \<and> mp4_initialization_length (take (the (mp4_initialization_length demo_mp4)) demo_mp4 @ [1, 2, 3])
     = Some (the (mp4_initialization_length demo_mp4))"
proof -
  have "mp4_initialization_length demo_mp4 = Some (the (mp4_initialization_length demo_mp4))"
    by code_simp
  from initialization_length_settled [OF this, of "[1, 2, 3]"] this show ?thesis by simp
qed

end
