(* ===== verification/Hls_Segments.thy ===== *)
theory Hls_Segments
  imports Mp4_Init Hls_Playlists
begin

text \<open>
  From the fragments of a file to its media playlist: the segments that the cache stores
  (\<open>hls_segments_from_mp4_ranges\<close>, \<open>validated_cached_segments\<close> in \<open>hls_cache.rs\<close>) are the segments that
  the playlist lists.
\<close>

definition hls_segments_from_mp4_ranges :: "mp4_segment_range list \<Rightarrow> hls_media_segment list" where
  "hls_segments_from_mp4_ranges ranges =
     map (\<lambda>r. \<lparr>ms_offset = sg_offset r, ms_length = sg_length r, ms_duration_millis = sg_duration_millis r\<rparr>) ranges"

record persisted_segment =
  ps_byte_range_offset :: nat
  ps_byte_range_length :: nat
  ps_duration_millis :: nat

definition persisted_from_segment :: "hls_media_segment \<Rightarrow> persisted_segment" where
  "persisted_from_segment s =
     \<lparr>ps_byte_range_offset = ms_offset s, ps_byte_range_length = ms_length s, ps_duration_millis = ms_duration_millis s\<rparr>"

fun validate_segments_loop ::
  "nat \<Rightarrow> nat \<Rightarrow> persisted_segment list \<Rightarrow> hls_media_segment list \<Rightarrow> hls_media_segment list" where
  "validate_segments_loop previous_end total_length [] validated =
     (if previous_end = total_length then validated else [])"
| "validate_segments_loop previous_end total_length (s # ss) validated =
     (if ps_byte_range_length s = 0 \<or> ps_duration_millis s = 0 \<or> ps_byte_range_offset s \<noteq> previous_end then []
      else case checked_add (ps_byte_range_offset s) (ps_byte_range_length s) of
        None \<Rightarrow> []
      | Some e \<Rightarrow>
          if e > total_length then []
          else validate_segments_loop e total_length ss
            (validated @ [\<lparr>ms_offset = ps_byte_range_offset s, ms_length = ps_byte_range_length s,
               ms_duration_millis = ps_duration_millis s\<rparr>]))"

definition validated_cached_segments :: "persisted_segment list \<Rightarrow> nat \<Rightarrow> nat \<Rightarrow> hls_media_segment list" where
  "validated_cached_segments segments initialization_length total_length =
     (if segments = [] then [] else validate_segments_loop initialization_length total_length segments [])"

lemma persisted_segment_fields [simp]:
  "ps_byte_range_offset (persisted_from_segment s) = ms_offset s"
  "ps_byte_range_length (persisted_from_segment s) = ms_length s"
  "ps_duration_millis (persisted_from_segment s) = ms_duration_millis s"
  by (simp_all add: persisted_from_segment_def)

lemma validate_segments_loop_eq:
  "validate_segments_loop a tot (map persisted_from_segment ss) validated =
     (if segments_chain a tot ss then validated @ ss else [])"
  by (induction ss arbitrary: a validated) (auto split: option.splits)

lemma validated_cached_segments_eq:
  "validated_cached_segments (map persisted_from_segment ss) a tot =
     (if ss \<noteq> [] \<and> segments_are_valid_for_resource ss a tot then ss else [])"
  by (simp add: validated_cached_segments_def validate_segments_loop_eq segments_are_valid_for_resource_def)

lemma seg_chain_end: "seg_chain a segs tot \<Longrightarrow> a \<le> tot"
  by (induction segs arbitrary: a) (fastforce dest: add_leD1)+

lemma seg_chain_segments_chain:
  "seg_chain a segs tot \<Longrightarrow> tot \<le> u64_max \<Longrightarrow> segments_chain a tot (hls_segments_from_mp4_ranges segs)"
proof (induction segs arbitrary: a)
  case (Cons s ss)
  then have "a + sg_length s \<le> tot" using seg_chain_end by auto
  with Cons show ?case
    by (simp add: hls_segments_from_mp4_ranges_def checked_add_def)
qed (simp add: hls_segments_from_mp4_ranges_def)

text \<open>
  C35. The fragments that are found in a file reach the player: written to the cache's metadata and read
  back they are the same segments, and the media playlist lists exactly their byte ranges, in order.
\<close>

theorem fragments_reach_playlist:
  assumes "mp4_fragment_ranges file init tot = Inr ranges" "ranges \<noteq> []" "0 < init" "tot \<le> u64_max"
    "plain_name (hr_id r)"
  shows "validated_cached_segments (map persisted_from_segment (hls_segments_from_mp4_ranges ranges)) init tot
      = hls_segments_from_mp4_ranges ranges
    \<and> (\<exists>playlist. media_playlist_for_resource v r init tot (hls_segments_from_mp4_ranges ranges) = Some playlist
        \<and> playlist_maps playlist = [(init, 0)]
        \<and> playlist_ranges playlist = map (\<lambda>s. (sg_length s, sg_offset s)) ranges)"
proof -
  let ?ss = "hls_segments_from_mp4_ranges ranges"
  note p = mp4_segments_partition_of [OF assms(1,2)]
  have valid: "segments_are_valid_for_resource ?ss init tot" "2 \<le> length ?ss" "?ss \<noteq> []"
    using p assms(2,4) seg_chain_segments_chain
    by (auto simp: segments_are_valid_for_resource_def hls_segments_from_mp4_ranges_def)
  have "init < tot" using assms(1,2) by (auto simp: mp4_fragment_ranges_def split: if_splits)
  then obtain playlist where some: "media_playlist_for_resource v r init tot ?ss = Some playlist"
    using valid assms(3) by (auto simp: media_playlist_for_resource_def checked_sub_def)
  have "map (\<lambda>s. (ms_length s, ms_offset s)) ?ss = map (\<lambda>s. (sg_length s, sg_offset s)) ranges"
    by (simp add: hls_segments_from_mp4_ranges_def)
  with media_playlist_ranges [OF assms(5) some assms(4)] valid some show ?thesis
    by (simp add: validated_cached_segments_eq)
qed

end
