(* ===== verification/Hls_Examples.thy ===== *)
theory Hls_Examples
  imports Hls_Answers Hls_Segments "HOL-Library.Code_Target_Nat"
begin

text \<open>
  The HLS session properties at a concrete session: two variants of a video with audio that are in one
  switchable group, their refresh from a later plan, the registry and the handlers.
\<close>

section \<open>A session\<close>

definition demo_media :: "media_request_kind \<Rightarrow> nat \<Rightarrow> string \<Rightarrow> string \<Rightarrow> nat \<Rightarrow> adapter_request" where
  "demo_media kind stream codec url bandwidth =
     \<lparr>mr_kind = kind, mr_stream_id = Some stream, mr_url = url, mr_backup_urls = [], mr_codecs = Some codec,
      mr_bandwidth = Some bandwidth, mr_width = (if kind = Video then Some 1280 else None),
      mr_height = (if kind = Video then Some 720 else None), mr_size = Some 10, mr_duration_seconds = Some 60,
      mr_cache_key = \<lparr>mk_content_id = ''7'', mk_media_kind = kind, mk_stream_id = Some stream,
        mk_codecs = Some codec, mk_source_hash = ''h''\<rparr>,
      mr_headers = [], mr_mime_type = Some ''video/mp4'',
      mr_frame_rate = (if kind = Video then Some ''30000/1001'' else None)\<rparr>"

definition demo_variant :: "string \<Rightarrow> nat \<Rightarrow> nat \<Rightarrow> string \<Rightarrow> playback_variant" where
  "demo_variant i stream bandwidth host =
     \<lparr>pv_id = i, pv_kind = Dash, pv_content_id = ''7'', pv_bandwidth = Some bandwidth,
      pv_codecs = [''avc1.640028'', ''mp4a.40.2''], pv_mime_types = [''video/mp4''],
      pv_width = Some 1280, pv_height = Some 720, pv_frame_rate = Some ''30'', pv_duration_seconds = Some 60,
      pv_abr = Some \<lparr>al_group_id = ''g'', al_level_index = 0, al_level_count = 2, al_switchable = True\<rparr>,
      pv_video = Some (demo_media Video stream ''avc1.640028'' (host @ ''/v'') bandwidth),
      pv_audio = Some (demo_media Audio 9 ''mp4a.40.2'' (host @ ''/a'') 5), pv_flv_segments = []\<rparr>"

definition demo_variants :: "string \<Rightarrow> playback_variant list" where
  "demo_variants host = [demo_variant ''hi'' 64 20 host, demo_variant ''lo'' 32 10 host]"

definition demo_built :: "session_error + hls_session" where
  "demo_built = from_playback_entry_with_policy ''s1'' ''Title'' (hd (demo_variants ''http://a'')) []
     (demo_variants ''http://a'') default_playback_policy"

definition demo_identity :: content_identity where
  "demo_identity = \<lparr>ci_kind = VideoPage, ci_aid = Some 5, ci_bvid = None, ci_cid = Some 7, ci_epid = None\<rparr>"

definition demo_hls_variant :: "string \<Rightarrow> nat \<Rightarrow> nat \<Rightarrow> string \<Rightarrow> string \<Rightarrow> string \<Rightarrow> hls_variant" where
  "demo_hls_variant i stream bandwidth host video_id audio_id =
     \<lparr>hv_id = i, hv_bandwidth = bandwidth, hv_codecs = [''avc1.640028'', ''mp4a.40.2''],
      hv_width = Some 1280, hv_height = Some 720, hv_duration_seconds = 60,
      hv_video = \<lparr>hr_id = video_id, hr_request = demo_media Video stream ''avc1.640028'' (host @ ''/v'') bandwidth\<rparr>,
      hv_audio = Some \<lparr>hr_id = audio_id, hr_request = demo_media Audio 9 ''mp4a.40.2'' (host @ ''/a'') 5\<rparr>\<rparr>"

text \<open>The session whose media are at a host.\<close>

definition demo_session_at :: "string \<Rightarrow> hls_session" where
  "demo_session_at host =
     \<lparr>ss_id = ''s1'', ss_title = ''Title'', ss_accepted_identity = Some demo_identity,
      ss_variant = demo_hls_variant ''hi'' 64 20 host ''video.m4s'' ''audio.m4s'',
      ss_alternate_variants = [demo_hls_variant ''lo'' 32 10 host ''v1-video.m4s'' ''v1-audio.m4s''],
      ss_advertise_alternate_variants = True, ss_abr = [],
      ss_variants = map variant_metadata_from_adapter (demo_variants host),
      ss_transcoding = default_transcoding_plan, ss_effective_policy = default_playback_policy\<rparr>"

definition demo_hls_session :: hls_session where
  "demo_hls_session = demo_session_at ''http://a''"

definition demo_refreshed :: hls_session where
  "demo_refreshed = demo_session_at ''http://b''"

definition demo_entry :: playback_entry where
  "demo_entry = \<lparr>pe_aid = 5, pe_bvid = None, pe_cid = 7, pe_epid = None, pe_variants = demo_variants ''http://b''\<rparr>"

lemma demo_built_ok: "demo_built = Inr (demo_hls_session\<lparr>ss_accepted_identity := None\<rparr>)"
  by code_simp

lemma demo_refreshed_ok: "with_refreshed_media_requests demo_hls_session [demo_entry] = Inr demo_refreshed"
  by code_simp

lemma demo_session_names: "session_names demo_hls_session"
proof -
  have "session_names (demo_hls_session\<lparr>ss_accepted_identity := None\<rparr>)"
    using built_session_names demo_built_ok unfolding demo_built_def by blast
  then show ?thesis by (simp add: session_names_def)
qed

theorem refresh_changes_only_addresses_witness:
  "with_refreshed_media_requests demo_hls_session [demo_entry] = Inr demo_refreshed
   \<and> session_rep demo_refreshed = session_rep demo_hls_session \<and> demo_refreshed \<noteq> demo_hls_session"
proof -
  have "demo_refreshed \<noteq> demo_hls_session" by code_simp
  then show ?thesis
    using demo_refreshed_ok refresh_changes_only_addresses [of demo_hls_session "[demo_entry]" demo_refreshed] by blast
qed

theorem refresh_forgets_old_addresses_witness:
  "with_refreshed_media_requests demo_refreshed [demo_entry]
     = with_refreshed_media_requests demo_hls_session [demo_entry]"
  by (rule refresh_forgets_old_addresses [OF demo_refreshed_ok])

section \<open>The registry\<close>

definition demo_registry :: hls_registry where
  "demo_registry = snd (the (registry_insert demo_hls_session empty_hls_registry))"

lemma demo_registry_reachable: "reachable starts_without_sessions hls_registry_step demo_registry"
proof -
  have "hls_registry_step empty_hls_registry (CallInsert demo_hls_session) demo_registry"
    by (simp add: hls_registry_step_def demo_registry_def registry_insert_def checked_add_def empty_hls_registry_def)
  moreover have "reachable starts_without_sessions hls_registry_step empty_hls_registry"
    by (rule reach_init) (simp add: starts_without_sessions_def)
  ultimately show ?thesis by (rule reach_step [rotated])
qed

definition demo_handle :: session_handle where
  "demo_handle = \<lparr>sh_session = demo_hls_session, sh_generation = 1\<rparr>"

lemma demo_handle_read: "session_handle_of demo_registry ''s1'' = Some demo_handle"
  by code_simp

theorem refresh_only_into_read_session_witness:
  "list_all (\<lambda>c. \<not> touches ''s1'' c) [CallGetRead ''s1'' 3]
   \<and> session_handle_of (snd (replace_media_requests_if_current demo_handle demo_refreshed True demo_registry)) ''s1''
      = Some (demo_handle\<lparr>sh_session := demo_refreshed\<rparr>)"
proof -
  have run: "exec_run hls_registry_step demo_registry [CallGetRead ''s1'' 3] demo_registry"
    by (rule exec_cons [OF _ exec_nil]) (simp add: hls_registry_step_def)
  have "ss_id (sh_session demo_handle) = ''s1''" by code_simp
  moreover have "fst (replace_media_requests_if_current demo_handle demo_refreshed True demo_registry) = Inr True"
    by code_simp
  then have "replace_media_requests_if_current demo_handle demo_refreshed True demo_registry
      = (Inr True, snd (replace_media_requests_if_current demo_handle demo_refreshed True demo_registry))"
    by (metis prod.collapse)
  ultimately show ?thesis
    using refresh_only_into_read_session [OF demo_registry_reachable demo_handle_read _ run] by (simp add: list_all_iff)
qed

definition demo_scrub :: "nat \<times> hls_registry" where
  "demo_scrub = the (registry_insert_with_scrub_deadline demo_hls_session demo_refreshed 10 empty_hls_registry)"

theorem scrub_takes_effect_witness:
  "sh_session (the (fst (get_write ''s1'' 12 (snd demo_scrub)))) = demo_refreshed"
proof -
  have i: "ss_id demo_hls_session = ''s1''" by code_simp
  have "registry_insert_with_scrub_deadline demo_hls_session demo_refreshed 10 empty_hls_registry
      = Some (fst demo_scrub, snd demo_scrub)"
    by (simp add: demo_scrub_def registry_insert_with_scrub_deadline_def checked_add_def empty_hls_registry_def)
  moreover have "answers (snd demo_scrub) (ss_id demo_hls_session) 12 (the (fst (get_write ''s1'' 12 (snd demo_scrub))))"
  proof -
    have "fst (get_write ''s1'' 12 (snd demo_scrub)) \<noteq> None" by code_simp
    then show ?thesis by (auto simp: answers_def i)
  qed
  ultimately show ?thesis
    using scrub_takes_effect [OF _ exec_nil, of demo_hls_session demo_refreshed 10 empty_hls_registry
        "fst demo_scrub" "snd demo_scrub" 12] by (simp add: published_def)
qed

section \<open>The handlers\<close>

lemma demo_codecs: "\<forall>v \<in> set (advertised_variants (sh_session demo_handle)). codecs_on_one_line v"
  unfolding Ball_set by code_simp

theorem master_playlist_leads_to_media_witness:
  "\<exists>vs. vs \<noteq> []
    \<and> playlist_uris (hp_body (hls_master_playlist_response (Some demo_handle) (\<lambda>i. False) (\<lambda>v. hv_id v = ''lo'') False))
        = map variant_uri vs
    \<and> list_all (leads_to_media (sh_session demo_handle) (\<lambda>i. False)) vs"
proof -
  have names: "session_names (sh_session demo_handle)" by (simp add: demo_handle_def demo_session_names)
  have "hp_status (hls_master_playlist_response (Some demo_handle) (\<lambda>i. False) (\<lambda>v. hv_id v = ''lo'') False) = 200"
    by code_simp
  note master_playlist_leads_to_media [OF names demo_codecs this]
  then show ?thesis
    by (elim exE conjE) (intro exI conjI; (assumption | fastforce simp: list_all_iff))
qed

definition demo_env :: serving_env where
  "demo_env = \<lparr>en_serving = Some demo_handle, en_advertisable = (\<lambda>v. True),
     en_cached = (\<lambda>i. Some \<lparr>in_length = 10, in_total_length = 100, in_segments =
       [\<lparr>ms_offset = 10, ms_length = 40, ms_duration_millis = 2500\<rparr>,
        \<lparr>ms_offset = 50, ms_length = 50, ms_duration_millis = 1000\<rparr>]\<rparr>),
     en_prewarmed = (\<lambda>i. None), en_probe = (\<lambda>r. None), en_open_cached = (\<lambda>i. None),
     en_open_prewarmed = (\<lambda>i. None)\<rparr>"

definition demo_answer :: http_response where
  "demo_answer = (case fst (hls_segment_response (\<lambda>t. []) demo_env ''v1-audio.m3u8'' [] False) of
     Answer r \<Rightarrow> r | _ \<Rightarrow> empty_response 500)"

theorem media_playlist_covers_resource_witness:
  "\<exists>v r i. lookup_media_playlist_resource (sh_session demo_handle) ''v1-audio.m3u8'' = Some (v, r)
    \<and> described_by demo_env r i
    \<and> playlist_maps (hp_body demo_answer) = [(in_length i, 0)] \<and> 0 < in_length i
    \<and> ranges_follow (in_length i) (playlist_ranges (hp_body demo_answer)) (in_total_length i)
    \<and> in_length i < in_total_length i"
proof (rule media_playlist_covers_resource [where env = demo_env and headers = "[]" and fmt = "\<lambda>t. []"])
  show "en_serving demo_env = Some demo_handle" by (simp add: demo_env_def)
  show "session_names (sh_session demo_handle)" by (simp add: demo_handle_def demo_session_names)
  show "strip_suffix ''.m3u8'' ''v1-audio.m3u8'' \<noteq> None" by code_simp
  show "hp_status demo_answer = 200" by code_simp
  show "hls_segment_response (\<lambda>t. []) demo_env ''v1-audio.m3u8'' [] False = (Answer demo_answer, [(None, CacheHit)])"
    by code_simp
  show "\<And>r i. described_by demo_env r i \<Longrightarrow> in_total_length i \<le> u64_max"
    by (auto simp: described_by_def demo_env_def)
qed

section \<open>From a file to its playlist\<close>

theorem fragments_reach_playlist_witness:
  "\<exists>playlist ranges. mp4_fragment_ranges demo_mp4 72 192 = Inr ranges \<and> length ranges = 2
    \<and> media_playlist_for_resource (ss_variant demo_hls_session) (hv_video (ss_variant demo_hls_session)) 72 192
        (hls_segments_from_mp4_ranges ranges) = Some playlist
    \<and> playlist_ranges playlist = [(60, 72), (60, 132)]"
proof -
  have "plain_name (hr_id (hv_video (ss_variant demo_hls_session)))"
    by (simp add: plain_name_def newline_eq dquote_def demo_hls_session_def demo_session_at_def demo_hls_variant_def)
  then show ?thesis
    using fragments_reach_playlist [OF demo_mp4_ranges _ _ _,
        of "hv_video (ss_variant demo_hls_session)" "ss_variant demo_hls_session"] demo_mp4_ranges
    by auto
qed

end
