(* ===== verification/Rust_Path.thy ===== *)
theory Rust_Path
  imports Rust_Text Ranking
begin

text \<open>
  Rust's \<open>Path\<close> on Unix: the components of a path, the name of a file with its stem and extension, and
  paths below a directory as lists of names. A path is a string of bytes.
\<close>

section \<open>Components\<close>

datatype component = RootDir | CurDir | ParentDir | Normal string

definition component_of :: "string \<Rightarrow> component list" where
  "component_of s =
     (if s = [] \<or> s = ''.'' then [] else if s = ''..'' then [ParentDir] else [Normal s])"

text \<open>A leading separator is the root; \<open>.\<close> counts only as the first component.\<close>

definition components :: "string \<Rightarrow> component list" where
  "components path =
     (if path = [] then []
      else case split_on CHR ''/'' path of
        [] \<Rightarrow> []
      | first # rest \<Rightarrow>
          (if first = [] then [RootDir] else if first = ''.'' then [CurDir] else component_of first)
          @ concat (map component_of rest))"

definition is_absolute :: "string \<Rightarrow> bool" where
  "is_absolute path = (case path of c # _ \<Rightarrow> c = CHR ''/'' | [] \<Rightarrow> False)"

fun normal_names :: "component list \<Rightarrow> string list option" where
  "normal_names [] = Some []"
| "normal_names (Normal n # cs) = map_option (\<lambda>ns. n # ns) (normal_names cs)"
| "normal_names (_ # cs) = None"

text \<open>The path that consists of these names.\<close>

fun join_path :: "string list \<Rightarrow> string" where
  "join_path [] = []"
| "join_path [n] = n"
| "join_path (n # ns) = n @ CHR ''/'' # join_path ns"

text \<open>\<open>starts_with\<close> for paths of names, and the paths that a path goes through, itself included.\<close>

definition path_starts_with :: "string list \<Rightarrow> string list \<Rightarrow> bool" where
  "path_starts_with path p \<longleftrightarrow> take (length p) path = p"

definition path_ancestors :: "string list \<Rightarrow> string list list" where
  "path_ancestors path = map (\<lambda>k. take k path) (rev [0..<Suc (length path)])"

section \<open>File names\<close>

definition file_stem_of :: "string \<Rightarrow> string" where
  "file_stem_of name =
     (case rsplit_once CHR ''.'' name of
        Some (before, after) \<Rightarrow> if before = [] then name else before
      | None \<Rightarrow> name)"

definition extension_of :: "string \<Rightarrow> string option" where
  "extension_of name =
     (case rsplit_once CHR ''.'' name of
        Some (before, after) \<Rightarrow> if before = [] then None else Some after
      | None \<Rightarrow> None)"

definition file_stem :: "string list \<Rightarrow> string option" where
  "file_stem path = (if path = [] then None else Some (file_stem_of (last path)))"

definition path_extension :: "string list \<Rightarrow> string option" where
  "path_extension path = (if path = [] then None else extension_of (last path))"

section \<open>Names\<close>

text \<open>The names that an entry of a directory can have.\<close>

definition entry_name :: "string \<Rightarrow> bool" where
  "entry_name n \<longleftrightarrow> n \<noteq> [] \<and> n \<noteq> ''.'' \<and> n \<noteq> ''..'' \<and> CHR ''/'' \<notin> set n"

lemma entry_nameD: "entry_name n \<Longrightarrow> n \<noteq> [] \<and> CHR ''/'' \<notin> set n"
  by (simp add: entry_name_def)

lemma component_of_entry: "entry_name n \<Longrightarrow> component_of n = [Normal n]"
  by (simp add: component_of_def entry_name_def)

lemma split_join_path:
  "ns \<noteq> [] \<Longrightarrow> \<forall>n \<in> set ns. CHR ''/'' \<notin> set n \<Longrightarrow> split_on CHR ''/'' (join_path ns) = ns"
  by (induction ns rule: join_path.induct) (auto simp: split_on_absent split_on_append)

lemma concat_component_of: "\<forall>n \<in> set ns. entry_name n \<Longrightarrow> concat (map component_of ns) = map Normal ns"
  by (induction ns) (auto simp: component_of_entry)

lemma join_path_hd: "entry_name n \<Longrightarrow> \<exists>c cs. join_path (n # ns) = c # cs \<and> c \<noteq> CHR ''/''"
  by (cases n; cases ns) (auto dest: entry_nameD)

lemma join_path_Nil_iff: "\<forall>n \<in> set ns. entry_name n \<Longrightarrow> join_path ns = [] \<longleftrightarrow> ns = []"
  using join_path_hd [of "hd ns" "tl ns"] by (cases ns) auto

lemma components_join_path:
  assumes "\<forall>n \<in> set ns. entry_name n"
  shows "components (join_path ns) = map Normal ns"
proof (cases ns)
  case (Cons n rest)
  have "split_on CHR ''/'' (join_path ns) = ns"
    by (rule split_join_path) (use Cons assms in \<open>auto simp: entry_name_def\<close>)
  moreover have "join_path ns \<noteq> []" using join_path_Nil_iff [OF assms] Cons by simp
  moreover have "concat (map component_of rest) = map Normal rest"
    by (rule concat_component_of) (use Cons assms in simp)
  moreover have "entry_name n" using Cons assms by simp
  ultimately show ?thesis
    using Cons by (simp add: components_def component_of_entry) (simp add: entry_name_def)
qed (simp add: components_def)

lemma normal_names_map [simp]: "normal_names (map Normal ns) = Some ns"
  by (induction ns) auto

lemma is_absolute_join_path: "\<forall>n \<in> set ns. entry_name n \<Longrightarrow> \<not> is_absolute (join_path ns)"
  using join_path_hd [of "hd ns" "tl ns"] by (cases ns) (auto simp: is_absolute_def)

lemma utf8_valid_join_path:
  "\<forall>n \<in> set ns. utf8_valid (map of_char n) \<Longrightarrow> utf8_valid (map of_char (join_path ns))"
  by (induction ns rule: join_path.induct)
    (auto intro!: utf8_valid_append simp: utf8_valid_ascii)

lemma join_path_inj:
  assumes "join_path a = join_path b" "\<forall>n \<in> set a. entry_name n" "\<forall>n \<in> set b. entry_name n"
  shows "a = b"
proof -
  have "map Normal a = map Normal b"
    using components_join_path [OF assms(2)] components_join_path [OF assms(3)] assms(1) by simp
  then show ?thesis by (simp add: inj_map_eq_map inj_on_def)
qed

text \<open>A path starts with another exactly when the other is one of its ancestors.\<close>

lemma ancestor_iff: "p \<in> set (path_ancestors path) \<longleftrightarrow> path_starts_with path p"
proof
  assume "p \<in> set (path_ancestors path)"
  then obtain k where "p = take k path" by (auto simp: path_ancestors_def simp del: upt_Suc)
  then show "path_starts_with path p" by (simp add: path_starts_with_def min_def)
next
  assume "path_starts_with path p"
  then have p: "take (length p) path = p" by (simp add: path_starts_with_def)
  then have "length p < Suc (length path)"
    by (metis length_take less_Suc_eq_le min.cobounded1)
  then have "take (length p) path \<in> set (path_ancestors path)"
    by (auto simp: path_ancestors_def simp del: upt_Suc)
  with p show "p \<in> set (path_ancestors path)" by simp
qed

lemma path_starts_with_append: "path_starts_with path p \<Longrightarrow> path_starts_with (path @ rest) p"
  by (metis append_take_drop_id append_assoc append_eq_conv_conj path_starts_with_def)

end
