(* ===== verification/File_Tree.thy ===== *)
theory File_Tree
  imports Rust_Path
begin

text \<open>
  The directory tree below the root of the media library, as the calls of \<open>library.rs\<close> see it:
  \<open>symlink_metadata\<close>, \<open>read_dir\<close> and the removal of one entry without following links. Names are
  compared byte for byte, so a path below the root has one spelling and \<open>canonicalize\<close> keeps it (the
  aliases of a file system that ignores case are not represented). The tree does not change while
  one operation reads it. An entry that cannot be examined, or that lies below a directory without
  search permission, is not part of the tree: the scan passes over such entries.
\<close>

section \<open>Trees\<close>

text \<open>The kinds of \<open>io::Error\<close> that the sources tell apart.\<close>

datatype io_kind = NotFound | PermissionDenied | NotADirectory | Interrupted | InvalidInput | WouldBlock | OtherIo

text \<open>Times are nanoseconds from the epoch; \<open>fi_open_error\<close> is the answer when the file is opened.\<close>

record file_info =
  fi_created :: int
  fi_modified :: int
  fi_size :: nat
  fi_open_error :: "io_kind option"

text \<open>
  A directory comes with the error of listing it, if any, and its entries. A link comes with what it
  leads to; what is neither is special.
\<close>

datatype tree_node =
    FileNode file_info
  | DirNode "io_kind option" "(string \<times> tree_node) list"
  | LinkNode "tree_node option"
  | SpecialNode

text \<open>\<open>symlink_metadata\<close>: links are followed on the way to the last name, but not there.\<close>

fun lstat :: "tree_node \<Rightarrow> string list \<Rightarrow> io_kind + tree_node" where
  "lstat node [] = Inr node"
| "lstat (DirNode e es) (n # ns) = (case map_of es n of None \<Rightarrow> Inl NotFound | Some c \<Rightarrow> lstat c ns)"
| "lstat (LinkNode target) (n # ns) = (case target of None \<Rightarrow> Inl NotFound | Some c \<Rightarrow> lstat c (n # ns))"
| "lstat (FileNode f) (n # ns) = Inl NotADirectory"
| "lstat SpecialNode (n # ns) = Inl NotADirectory"

definition is_link :: "tree_node \<Rightarrow> string list \<Rightarrow> bool" where
  "is_link tree path = (case lstat tree path of Inl _ \<Rightarrow> True | Inr (LinkNode _) \<Rightarrow> True | Inr _ \<Rightarrow> False)"

text \<open>From the path upwards to below the root.\<close>

definition link_below_root :: "tree_node \<Rightarrow> string list \<Rightarrow> bool" where
  "link_below_root tree path = list_ex (is_link tree) (filter (\<lambda>p. p \<noteq> []) (path_ancestors path))"

section \<open>Removing an entry\<close>

record removal =
  rv_unlink :: "io_kind option"
  rv_sync :: "io_kind option"

definition set_entry :: "string \<Rightarrow> tree_node \<Rightarrow> (string \<times> tree_node) list \<Rightarrow> (string \<times> tree_node) list" where
  "set_entry n c es = map (\<lambda>(m, d). if m = n then (m, c) else (m, d)) es"

definition synced :: "removal \<Rightarrow> bool \<Rightarrow> io_kind + bool" where
  "synced a removed = (case rv_sync a of Some k \<Rightarrow> Inl k | None \<Rightarrow> Inr removed)"

text \<open>
  \<open>remove_entry_no_follow_at_with_parent_sync\<close>: the directories are opened without following links,
  the last name is unlinked, and the directory is synced. The answers of \<open>unlinkat\<close> and of the sync
  are given.
\<close>

fun remove_entry :: "removal \<Rightarrow> tree_node \<Rightarrow> string list \<Rightarrow> (io_kind + bool) \<times> tree_node" where
  "remove_entry a (DirNode e es) [n] =
     (case map_of es n of
        None \<Rightarrow> (synced a False, DirNode e es)
      | Some c \<Rightarrow>
          (case c of
             DirNode _ _ \<Rightarrow> (Inl OtherIo, DirNode e es)
           | _ \<Rightarrow>
             (case rv_unlink a of
                Some NotFound \<Rightarrow> (synced a False, DirNode e es)
              | Some k \<Rightarrow> (Inl k, DirNode e es)
              | None \<Rightarrow> (synced a True, DirNode e (filter (\<lambda>(m, _). m \<noteq> n) es)))))"
| "remove_entry a (DirNode e es) (n # m # ns) =
     (case map_of es n of
        None \<Rightarrow> (synced a False, DirNode e es)
      | Some c \<Rightarrow>
          (case c of
             DirNode _ _ \<Rightarrow> (case remove_entry a c (m # ns) of (r, c') \<Rightarrow> (r, DirNode e (set_entry n c' es)))
           | _ \<Rightarrow> (Inl NotADirectory, DirNode e es)))"
| "remove_entry a node path = (Inl InvalidInput, node)"

section \<open>Files that a walk reaches\<close>

text \<open>The file below a node, on a way through directories that can be listed.\<close>

inductive reaches :: "tree_node \<Rightarrow> string list \<Rightarrow> file_info \<Rightarrow> bool" where
  reaches_file: "reaches (FileNode f) [] f"
| reaches_entry: "(n, c) \<in> set es \<Longrightarrow> reaches c ns f \<Longrightarrow> reaches (DirNode None es) (n # ns) f"

inductive_simps reaches_Nil: "reaches node [] f"
inductive_simps reaches_Cons: "reaches node (n # ns) f"
inductive_simps reaches_File: "reaches (FileNode g) ns f"
inductive_simps reaches_Dir: "reaches (DirNode e es) ns f"
inductive_simps reaches_Link: "reaches (LinkNode t) ns f"
inductive_simps reaches_Special: "reaches SpecialNode ns f"

text \<open>A directory lists each name once, and each is a name in UTF-8.\<close>

inductive well_named :: "tree_node \<Rightarrow> bool" where
  "well_named (FileNode f)"
| "well_named (LinkNode t)"
| "well_named SpecialNode"
| "distinct (map fst es) \<Longrightarrow> \<forall>(n, c) \<in> set es. entry_name n \<and> utf8_valid (map of_char n) \<and> well_named c
     \<Longrightarrow> well_named (DirNode e es)"

inductive_simps well_named_Dir [simp]: "well_named (DirNode e es)"

lemma reaches_named:
  "reaches node ns f \<Longrightarrow> well_named node \<Longrightarrow> \<forall>n \<in> set ns. entry_name n \<and> utf8_valid (map of_char n)"
  by (induction rule: reaches.induct) fastforce+

lemma lstat_append: "lstat node p = Inr c \<Longrightarrow> \<not> (\<exists>t. c = LinkNode t) \<Longrightarrow> lstat node (p @ q) = lstat c q"
  by (induction node p rule: lstat.induct) (auto split: option.splits)

lemma reaches_lstat: "reaches node ns f \<Longrightarrow> well_named node \<Longrightarrow> lstat node ns = Inr (FileNode f)"
  by (induction rule: reaches.induct) (fastforce simp: map_of_eq_Some_iff)+

lemma reaches_prefix:
  "reaches node ns f \<Longrightarrow> well_named node \<Longrightarrow> p \<noteq> ns \<Longrightarrow> path_starts_with ns p \<Longrightarrow>
     \<exists>es. lstat node p = Inr (DirNode None es)"
proof (induction arbitrary: p rule: reaches.induct)
  case (reaches_entry n c es ns f)
  show ?case
  proof (cases p)
    case (Cons m q)
    with reaches_entry.prems have m: "m = n" "q \<noteq> ns" "path_starts_with ns q"
      by (auto simp: path_starts_with_def)
    have "well_named c" "map_of es n = Some c"
      using reaches_entry.prems(1) reaches_entry.hyps(1) by (fastforce simp: map_of_eq_Some_iff)+
    with reaches_entry.IH [of q] m Cons show ?thesis by simp
  qed simp
qed (simp add: path_starts_with_def)

lemma reaches_no_link:
  assumes "reaches node ns f" "well_named node"
  shows "\<not> link_below_root node ns"
proof -
  have "\<not> is_link node p" if "path_starts_with ns p" for p
    using reaches_prefix [OF assms _ that] reaches_lstat [OF assms]
    by (cases "p = ns") (auto simp: is_link_def)
  then show ?thesis by (auto simp: link_below_root_def list_ex_iff ancestor_iff)
qed

section \<open>What a removal does\<close>

lemma set_entry_iff:
  "distinct (map fst es) \<Longrightarrow> (n, d) \<in> set es \<Longrightarrow>
     (m, x) \<in> set (set_entry n c es) \<longleftrightarrow> (if m = n then x = c else (m, x) \<in> set es)"
  by (force simp: set_entry_def split: if_splits)

lemma map_of_set_entry: "map_of es n \<noteq> None \<Longrightarrow> map_of (set_entry n c es) n = Some c"
  by (induction es) (auto simp: set_entry_def split: if_splits)

lemma map_fst_set_entry [simp]: "map fst (set_entry n c es) = map fst es"
  by (auto simp: set_entry_def case_prod_unfold)

lemma synced_cases: "synced a removed = Inr x \<Longrightarrow> x = removed"
  by (auto simp: synced_def split: option.splits)

definition without :: "tree_node \<Rightarrow> string list \<Rightarrow> tree_node \<Rightarrow> bool" where
  "without t p t' \<longleftrightarrow> lstat t' p = Inl NotFound \<and> (\<forall>q g. reaches t' q g \<longleftrightarrow> reaches t q g \<and> q \<noteq> p)"

lemma remove_entry_without:
  "remove_entry a t p = (r, t') \<Longrightarrow> well_named t \<Longrightarrow> (t' = t \<and> r \<noteq> Inr True) \<or> (without t p t' \<and> r \<noteq> Inr False)"
proof (induction a t p arbitrary: r t' rule: remove_entry.induct)
  case (1 a e es n)
  show ?case
  proof (cases "\<exists>c. map_of es n = Some c \<and> \<not> (\<exists>k cs. c = DirNode k cs) \<and> rv_unlink a = None")
    case False
    have "t' = DirNode e es \<and> (r = synced a False \<or> isl r)"
    proof (cases "map_of es n")
      case None
      with "1.prems"(1) show ?thesis by simp
    next
      case (Some c)
      with "1.prems"(1) False show ?thesis
        by (cases c; cases "rv_unlink a"; cases "the (rv_unlink a)") auto
    qed
    then show ?thesis using synced_cases [of a False True] by auto
  next
    case True
    then obtain c where c: "map_of es n = Some c" "\<not> (\<exists>k cs. c = DirNode k cs)" and u: "rv_unlink a = None"
      by blast
    have t': "t' = DirNode e (filter (\<lambda>(m, _). m \<noteq> n) es)" "r = synced a True"
      using "1.prems"(1) c u by (cases c; simp)+
    have "map_of (filter (\<lambda>(m, _). m \<noteq> n) es) n = None" by (auto simp: map_of_eq_None_iff)
    moreover have "reaches t' q g \<longleftrightarrow> reaches (DirNode e es) q g \<and> q \<noteq> [n]" for q g
    proof -
      have "qs = []" if "(n, d) \<in> set es" "reaches d qs g" for d qs
      proof -
        have "map_of es n = Some d" using that(1) "1.prems"(2) by (simp add: map_of_eq_Some_iff)
        with c(1) have "d = c" by simp
        then show ?thesis using c(2) that(2) by (cases c) (auto simp: reaches_File reaches_Link reaches_Special)
      qed
      then show ?thesis by (auto simp: t' reaches_Dir; blast)
    qed
    moreover have "r \<noteq> Inr False" using t'(2) synced_cases [of a True False] by auto
    ultimately show ?thesis using t'(1) by (simp add: without_def)
  qed
next
  case (2 a e es n m ns)
  show ?case
  proof (cases "map_of es n")
    case None
    with "2.prems" show ?thesis by (auto dest!: synced_cases)
  next
    case (Some c)
    show ?thesis
    proof (cases "\<exists>k cs. c = DirNode k cs")
      case False
      with "2.prems" Some show ?thesis by (cases c) auto
    next
      case True
      then obtain k cs where c: "c = DirNode k cs" by blast
      obtain c' where rec: "remove_entry a c (m # ns) = (r, c')" and t': "t' = DirNode e (set_entry n c' es)"
        using "2.prems"(1) Some c by (auto split: prod.splits)
      have mem: "(n, c) \<in> set es" using Some by (rule map_of_SomeD)
      then have named: "well_named c" "distinct (map fst es)" using "2.prems"(2) by auto
      from "2.IH" [OF Some c rec named(1)]
      consider "c' = c" "r \<noteq> Inr True" | "without c (m # ns) c'" "r \<noteq> Inr False" by blast
      then show ?thesis
      proof cases
        case 1
        have "set_entry n c es = es"
          unfolding set_entry_def by (rule map_idI) (use mem named(2) in \<open>auto dest: eq_key_imp_eq_value\<close>)
        with 1 t' show ?thesis by simp
      next
        case 2
        have "reaches t' q g \<longleftrightarrow> reaches (DirNode e es) q g \<and> q \<noteq> n # m # ns" for q g
        proof (cases q)
          case (Cons x qs)
          have entry: "(x, d) \<in> set (set_entry n c' es) \<longleftrightarrow> (if x = n then d = c' else (x, d) \<in> set es)" for d
            by (rule set_entry_iff [OF named(2) mem])
          have old: "(n, d) \<in> set es \<longleftrightarrow> d = c" for d
            using mem named(2) by (metis eq_key_imp_eq_value)
          show ?thesis
          proof (cases "x = n")
            case True
            have "(n, d) \<in> set (set_entry n c' es) \<longleftrightarrow> d = c'" for d using entry [of d] True by simp
            then show ?thesis using 2(1) True by (simp add: t' reaches_Cons Cons old without_def)
          next
            case False
            then show ?thesis by (simp add: t' reaches_Cons Cons entry)
          qed
        qed (simp add: reaches_Nil t')
        moreover have "lstat t' (n # m # ns) = Inl NotFound"
          using 2(1) Some by (simp add: t' map_of_set_entry without_def)
        ultimately show ?thesis using 2(2) by (simp add: without_def)
      qed
    qed
  qed
qed (auto)

end
