(* ===== verification/Library.thy ===== *)
theory Library
  imports File_Tree "HOL-Library.Char_ord" "HOL-Library.List_Lexorder"
begin

text \<open>
  The media library (\<open>library.rs\<close>): the gate that hides files that are not published yet, the
  identifiers of items, the scan of the directory tree, pages of items, the lookup of one item and its
  removal. The model is the Unix build. \<open>str::to_lowercase\<close> with its Unicode tables and the base64
  engine are parameters.
\<close>

section \<open>The publication gate\<close>

datatype gate_state = GateUnknown "string list" | GateKnown "string list list"

text \<open>The version stands for the identity of the \<open>Arc\<close> that holds the state.\<close>

record publication_gate =
  pb_state :: gate_state
  pb_version :: nat
  pb_managed_output_prefix :: "string list option"

definition known_empty :: publication_gate where
  "known_empty = \<lparr>pb_state = GateKnown [], pb_version = 0, pb_managed_output_prefix = None\<rparr>"

definition normalized_gate_path :: "string \<Rightarrow> io_kind + string list" where
  "normalized_gate_path path =
     (case normal_names (components path) of
        None \<Rightarrow> Inl InvalidInput
      | Some names \<Rightarrow> if names = [] then Inl InvalidInput else Inr names)"

text \<open>\<open>output\<close>: the output directory relative to the cache root, if it lies in it.\<close>

definition gate_output_prefix :: "string option \<Rightarrow> io_kind + string list" where
  "gate_output_prefix output =
     (case output of
        None \<Rightarrow> Inl InvalidInput
      | Some path \<Rightarrow> if path = [] then Inr [] else normalized_gate_path path)"

definition unknown_until_restore :: "string option \<Rightarrow> io_kind + publication_gate" where
  "unknown_until_restore output =
     (case gate_output_prefix output of
        Inl e \<Rightarrow> Inl e
      | Inr prefix \<Rightarrow>
          Inr \<lparr>pb_state = GateUnknown [], pb_version = 0, pb_managed_output_prefix = Some prefix\<rparr>)"

definition restoration_is_pending :: "publication_gate \<Rightarrow> bool" where
  "restoration_is_pending g = (case pb_state g of GateUnknown _ \<Rightarrow> True | GateKnown _ \<Rightarrow> False)"

fun collect_paths :: "string list \<Rightarrow> io_kind + string list list" where
  "collect_paths [] = Inr []"
| "collect_paths (p # ps) =
     (case normalized_gate_path p of
        Inl e \<Rightarrow> Inl e
      | Inr names \<Rightarrow> (case collect_paths ps of Inl e \<Rightarrow> Inl e | Inr rest \<Rightarrow> Inr (names # rest)))"

definition install_durable_blocked_paths :: "string list \<Rightarrow> publication_gate \<Rightarrow> (io_kind + unit) \<times> publication_gate" where
  "install_durable_blocked_paths paths g =
     (case collect_paths paths of
        Inl e \<Rightarrow> (Inl e, g)
      | Inr blocked_paths \<Rightarrow>
          if (case pb_state g of GateKnown current \<Rightarrow> set current = set blocked_paths | GateUnknown _ \<Rightarrow> False)
          then (Inr (), g)
          else (Inr (), g\<lparr>pb_state := GateKnown blocked_paths, pb_version := Suc (pb_version g)\<rparr>))"

definition gate_blocks :: "gate_state \<Rightarrow> string list \<Rightarrow> bool" where
  "gate_blocks state path =
     (case state of
        GateUnknown blocked_prefix \<Rightarrow> path_starts_with path blocked_prefix
      | GateKnown blocked_paths \<Rightarrow>
          list_ex (\<lambda>p. p \<in> set blocked_paths) (filter (\<lambda>p. p \<noteq> []) (path_ancestors path)))"

text \<open>
  One attempt of an operation: the gate when the snapshot is taken, the gate when it is compared again,
  and how many looks at the cancellation flag still find it unset.
\<close>

record gate_attempt =
  ga_before :: publication_gate
  ga_after :: publication_gate
  ga_ticks :: "nat option"

definition MAX_STABILIZATION_ATTEMPTS :: nat where "MAX_STABILIZATION_ATTEMPTS = 8"

fun stable_loop :: "gate_attempt list \<Rightarrow> (gate_state \<Rightarrow> nat option \<Rightarrow> 'a) \<Rightarrow> 'a option" where
  "stable_loop [] operation = None"
| "stable_loop (a # attempts) operation =
     (let result = operation (pb_state (ga_before a)) (ga_ticks a) in
      if pb_version (ga_after a) = pb_version (ga_before a) then Some result
      else stable_loop attempts operation)"

definition with_stable_snapshot :: "gate_attempt list \<Rightarrow> (gate_state \<Rightarrow> nat option \<Rightarrow> 'a) \<Rightarrow> 'a option" where
  "with_stable_snapshot attempts = stable_loop (take MAX_STABILIZATION_ATTEMPTS attempts)"

section \<open>The library\<close>

text \<open>
  \<open>lb_root_link\<close>: whether the path of the root goes through a link; \<open>lb_encode\<close> and \<open>lb_decode\<close> are the
  base64 engine on bytes.
\<close>

record media_library =
  lb_lower :: "string \<Rightarrow> string"
  lb_encode :: "string \<Rightarrow> string"
  lb_decode :: "string \<Rightarrow> string option"
  lb_extensions :: "string list"
  lb_root_link :: bool
  lb_tree :: "io_kind + tree_node"

definition LIBRARY_ROOT_ID :: string where "LIBRARY_ROOT_ID = ''default''"

definition LIBRARY_VARIANT_ID :: string where "LIBRARY_VARIANT_ID = ''original''"

definition INTERNAL_CACHE_DIR :: string where "INTERNAL_CACHE_DIR = ''.tvos-net-player''"

definition is_dir :: "io_kind + tree_node \<Rightarrow> bool" where
  "is_dir t = (case t of Inr (DirNode _ _) \<Rightarrow> True | _ \<Rightarrow> False)"

definition is_root_available :: "media_library \<Rightarrow> bool" where
  "is_root_available lib \<longleftrightarrow> is_dir (lb_tree lib) \<and> \<not> lb_root_link lib"

definition ensure_deletable_root :: "media_library \<Rightarrow> io_kind + unit" where
  "ensure_deletable_root lib =
     (case lb_tree lib of
        Inl e \<Rightarrow> Inl e
      | Inr t \<Rightarrow> if \<not> is_dir (lb_tree lib) then Inl NotADirectory
                else if lb_root_link lib then Inl PermissionDenied else Inr ())"

definition lib_lstat :: "media_library \<Rightarrow> string list \<Rightarrow> io_kind + tree_node" where
  "lib_lstat lib path = (case lb_tree lib of Inl e \<Rightarrow> Inl e | Inr t \<Rightarrow> lstat t path)"

definition path_contains_link :: "media_library \<Rightarrow> string list \<Rightarrow> bool" where
  "path_contains_link lib path =
     (lb_root_link lib \<or> (case lb_tree lib of Inl _ \<Rightarrow> path \<noteq> [] | Inr t \<Rightarrow> link_below_root t path))"

definition allowed_extensions :: "media_library \<Rightarrow> string list" where
  "allowed_extensions lib =
     map (\<lambda>extension. let e = lb_lower lib (trim extension) in
       if strip_prefix ''.'' e \<noteq> None then e else CHR ''.'' # e) (lb_extensions lib)"

definition extension_with_dot :: "media_library \<Rightarrow> string list \<Rightarrow> string" where
  "extension_with_dot lib path =
     (case path_extension path of Some e \<Rightarrow> CHR ''.'' # lb_lower lib e | None \<Rightarrow> [])"

definition content_type :: "media_library \<Rightarrow> string list \<Rightarrow> string" where
  "content_type lib path =
     (let e = extension_with_dot lib path in
      if e = ''.m4a'' then ''audio/mp4'' else if e = ''.m4v'' then ''video/x-m4v''
      else if e = ''.mov'' then ''video/quicktime'' else ''video/mp4'')"

definition is_internal_cache_path :: "string list \<Rightarrow> bool" where
  "is_internal_cache_path path =
     (case path of
        n # _ \<Rightarrow> map ascii_lower n = map ascii_lower INTERNAL_CACHE_DIR
      | [] \<Rightarrow> False)"

section \<open>Identifiers\<close>

definition item_id_prefix :: string where
  "item_id_prefix = ''local.'' @ LIBRARY_ROOT_ID @ ''.''"

definition create_item_id :: "media_library \<Rightarrow> string \<Rightarrow> string" where
  "create_item_id lib relative_path = item_id_prefix @ lb_encode lib relative_path"

definition decode_item_id :: "media_library \<Rightarrow> string \<Rightarrow> string list option" where
  "decode_item_id lib item_id =
     (case strip_prefix item_id_prefix item_id of
        None \<Rightarrow> None
      | Some encoded \<Rightarrow>
          (case lb_decode lib encoded of
             None \<Rightarrow> None
           | Some bytes \<Rightarrow>
               if \<not> utf8_valid (map of_char bytes) then None
               else if is_absolute bytes then None
               else normal_names (components bytes)))"

text \<open>
  The decoded path stays as it is written: with a last \<open>/\<close> or \<open>/.\<close> it names a directory, which \<open>open\<close> and
  \<open>symlink_metadata\<close> follow, and a file with such a name is not found.
\<close>

definition names_directory :: "string \<Rightarrow> bool" where
  "names_directory path \<longleftrightarrow> path \<noteq> [] \<and> (last (split_on CHR ''/'' path) = [] \<or> last (split_on CHR ''/'' path) = ''.'')"

definition decoded_as_directory :: "media_library \<Rightarrow> string \<Rightarrow> bool" where
  "decoded_as_directory lib item_id =
     (case Option.bind (strip_prefix item_id_prefix item_id) (lb_decode lib) of
        Some bytes \<Rightarrow> names_directory bytes
      | None \<Rightarrow> False)"

fun directory_metadata :: "tree_node \<Rightarrow> io_kind + unit" where
  "directory_metadata (DirNode e es) = Inr ()"
| "directory_metadata (LinkNode None) = Inl NotFound"
| "directory_metadata (LinkNode (Some c)) = directory_metadata c"
| "directory_metadata _ = Inl NotADirectory"

section \<open>Files and items\<close>

record media_file =
  ml_path :: "string list"
  ml_relative_path :: string
  ml_content_type :: string
  ml_created_at :: int
  ml_last_modified :: int
  ml_size_bytes :: nat

text \<open>A path below the root without links is its own canonical path.\<close>

definition media_file_at :: "media_library \<Rightarrow> string list \<Rightarrow> file_info \<Rightarrow> media_file" where
  "media_file_at lib path f =
     \<lparr>ml_path = path, ml_relative_path = join_path path, ml_content_type = content_type lib path,
      ml_created_at = fi_created f, ml_last_modified = fi_modified f, ml_size_bytes = fi_size f\<rparr>"

definition try_create_media_file :: "media_library \<Rightarrow> string list \<Rightarrow> media_file option" where
  "try_create_media_file lib path =
     (case lib_lstat lib path of
        Inr (FileNode f) \<Rightarrow>
          if path_contains_link lib path then None
          else if extension_with_dot lib path \<notin> set (allowed_extensions lib) then None
          else if is_internal_cache_path path then None
          else if fi_open_error f \<noteq> None then None
          else Some (media_file_at lib path f)
      | _ \<Rightarrow> None)"

record library_variant =
  lv_id :: string
  lv_container :: string
  lv_size_bytes :: int

record library_item =
  li_id :: string
  li_title :: string
  li_subtitle :: string
  li_source_id :: string
  li_variants :: "library_variant list"
  li_created_at :: "int \<times> int"
  li_updated_at :: "int \<times> int"

definition i64_max :: int where "i64_max = 2 ^ 63 - 1"

text \<open>Times before the epoch count as the epoch.\<close>

definition timestamp_from_system_time :: "int \<Rightarrow> int \<times> int" where
  "timestamp_from_system_time t =
     (let d = max 0 t in (min i64_max (d div 1000000000), d mod 1000000000))"

definition create_library_item :: "media_library \<Rightarrow> media_file \<Rightarrow> library_item" where
  "create_library_item lib f =
     \<lparr>li_id = create_item_id lib (ml_relative_path f),
      li_title = (case file_stem (ml_path f) of Some s \<Rightarrow> s | None \<Rightarrow> []),
      li_subtitle = ml_relative_path f, li_source_id = ml_relative_path f,
      li_variants =
        [\<lparr>lv_id = LIBRARY_VARIANT_ID,
          lv_container = (case path_extension (ml_path f) of
            Some e \<Rightarrow> lb_lower lib (dropWhile (\<lambda>c. c = CHR ''.'') e) | None \<Rightarrow> []),
          lv_size_bytes = min i64_max (int (ml_size_bytes f))\<rparr>],
      li_created_at = timestamp_from_system_time (ml_created_at f),
      li_updated_at = timestamp_from_system_time (ml_last_modified f)\<rparr>"

definition relative_components :: "string \<Rightarrow> string list" where
  "relative_components path = (case normal_names (components path) of Some ns \<Rightarrow> ns | None \<Rightarrow> [])"

definition gate_blocks_text :: "gate_state \<Rightarrow> string \<Rightarrow> bool" where
  "gate_blocks_text state path = gate_blocks state (relative_components path)"

definition resolve_media_file :: "media_library \<Rightarrow> gate_state \<Rightarrow> string \<Rightarrow> string \<Rightarrow> media_file option" where
  "resolve_media_file lib state item_id variant_id =
     (if variant_id \<noteq> LIBRARY_VARIANT_ID then None
      else case decode_item_id lib item_id of
        None \<Rightarrow> None
      | Some path \<Rightarrow>
          if decoded_as_directory lib item_id then None
          else (case try_create_media_file lib path of
             None \<Rightarrow> None
           | Some f \<Rightarrow> if gate_blocks_text state (ml_relative_path f) then None else Some f))"

definition get_item :: "media_library \<Rightarrow> gate_attempt list \<Rightarrow> string \<Rightarrow> library_item option" where
  "get_item lib attempts item_id =
     Option.bind (with_stable_snapshot attempts (\<lambda>state ticks.
       map_option (create_library_item lib) (resolve_media_file lib state item_id LIBRARY_VARIANT_ID))) (\<lambda>x. x)"

definition get_media_file :: "media_library \<Rightarrow> gate_attempt list \<Rightarrow> string \<Rightarrow> string \<Rightarrow> media_file option" where
  "get_media_file lib attempts item_id variant_id =
     Option.bind (with_stable_snapshot attempts (\<lambda>state ticks.
       resolve_media_file lib state item_id variant_id)) (\<lambda>x. x)"

end
