(* ===== verification/Library_Scan.thy ===== *)
theory Library_Scan
  imports Library
begin

text \<open>
  The scan of the media library (\<open>library.rs\<close>): the candidates below the root in the order of their
  titles, pages of items, the count, and the removal of one item.
\<close>

section \<open>Candidates\<close>

record media_candidate =
  mc_path :: "string list"
  mc_title :: string
  mc_subtitle :: string

text \<open>Paths are compared name by name, names byte by byte.\<close>

definition candidate_order :: "(string \<Rightarrow> string) \<Rightarrow> media_candidate \<Rightarrow> media_candidate \<Rightarrow> ordering" where
  "candidate_order lower a b =
     then_with (then_with (cmp (lower (mc_title a)) (lower (mc_title b)))
       (cmp (lower (mc_subtitle a)) (lower (mc_subtitle b))))
       (cmp (mc_path a) (mc_path b))"

record library_filter =
  lf_sources :: "int list"
  lf_search_text :: string

definition SOURCE_LOCAL_CACHE :: int where "SOURCE_LOCAL_CACHE = 1"

text \<open>What a scan is given: the library, the gate and the text that is searched for.\<close>

record scan_input =
  si_library :: media_library
  si_gate :: gate_state
  si_search_text :: "string option"

text \<open>The cancellation flag is seen unset \<open>n\<close> more times (\<open>Some n\<close>), or always (\<open>None\<close>).\<close>

definition is_cancelled :: "nat option \<Rightarrow> bool" where
  "is_cancelled ticks \<longleftrightarrow> ticks = Some 0"

definition next_tick :: "nat option \<Rightarrow> nat option" where
  "next_tick ticks = map_option (\<lambda>n. n - 1) ticks"

definition candidate_at :: "string list \<Rightarrow> media_candidate" where
  "candidate_at path =
     \<lparr>mc_path = path, mc_title = (case file_stem path of Some s \<Rightarrow> s | None \<Rightarrow> []), mc_subtitle = join_path path\<rparr>"

definition search_matches :: "scan_input \<Rightarrow> media_candidate \<Rightarrow> bool" where
  "search_matches si c =
     (case si_search_text si of
        None \<Rightarrow> True
      | Some search_text \<Rightarrow>
          contains_text search_text (lb_lower (si_library si) (mc_title c))
          \<or> contains_text search_text (lb_lower (si_library si) (mc_subtitle c)))"

lemma entries_smaller:
  "2 * size_list (\<lambda>e. size (snd e)) es < Suc (Suc (Suc (2 * size_list (size_prod (\<lambda>_. 0) size) es + m)))"
proof -
  have "size_list (\<lambda>e. size (snd e)) es \<le> size_list (size_prod (\<lambda>_. 0) size) es"
    by (rule size_list_pointwise) auto
  then show ?thesis
    by simp
qed

text \<open>
  \<open>collect_media_candidates\<close> for the directory at \<open>dir\<close> with its listing, and its loop over the
  entries; the candidates are pushed to the end.
\<close>

function collect_media_candidates ::
    "scan_input \<Rightarrow> nat option \<Rightarrow> string list \<Rightarrow> io_kind option \<Rightarrow> (string \<times> tree_node) list \<Rightarrow> media_candidate list
       \<Rightarrow> (io_kind + media_candidate list) \<times> nat option"
  and collect_entries ::
    "scan_input \<Rightarrow> nat option \<Rightarrow> string list \<Rightarrow> (string \<times> tree_node) list \<Rightarrow> media_candidate list
       \<Rightarrow> (io_kind + media_candidate list) \<times> nat option"
where
  "collect_media_candidates si ticks dir err es acc =
     (if is_cancelled ticks then (Inl Interrupted, ticks)
      else case err of
        None \<Rightarrow> collect_entries si (next_tick ticks) dir es acc
      | Some k \<Rightarrow>
          if k = NotFound \<or> k = PermissionDenied then (Inr acc, next_tick ticks) else (Inl k, next_tick ticks))"
| "collect_entries si ticks dir [] acc = (Inr acc, ticks)"
| "collect_entries si ticks dir ((n, node) # es) acc =
     (if is_cancelled ticks then (Inl Interrupted, ticks)
      else
        let path = dir @ [n]; ticks1 = next_tick ticks in
        if gate_blocks (si_gate si) path then collect_entries si ticks1 dir es acc
        else case node of
          DirNode err children \<Rightarrow>
            if is_internal_cache_path path then collect_entries si ticks1 dir es acc
            else (case collect_media_candidates si ticks1 path err children acc of
                (Inl e, ticks2) \<Rightarrow> (Inl e, ticks2)
              | (Inr acc1, ticks2) \<Rightarrow> collect_entries si ticks2 dir es acc1)
        | FileNode f \<Rightarrow>
            if extension_with_dot (si_library si) path \<notin> set (allowed_extensions (si_library si))
            then collect_entries si ticks1 dir es acc
            else if search_matches si (candidate_at path)
            then collect_entries si ticks1 dir es (acc @ [candidate_at path])
            else collect_entries si ticks1 dir es acc
        | LinkNode t \<Rightarrow> collect_entries si ticks1 dir es acc
        | SpecialNode \<Rightarrow> collect_entries si ticks1 dir es acc)"
  by pat_completeness auto
termination
  by (relation "measure (case_sum (\<lambda>(_, _, _, _, es, _). 2 * size_list (\<lambda>e. size (snd e)) es + 1)
      (\<lambda>(_, _, _, es, _). 2 * size_list (\<lambda>e. size (snd e)) es))")
    (auto intro: entries_smaller)

text \<open>\<open>read_dir\<close> of the root itself.\<close>

definition collect_from_root ::
  "scan_input \<Rightarrow> nat option \<Rightarrow> (io_kind + media_candidate list) \<times> nat option" where
  "collect_from_root si ticks =
     (case lb_tree (si_library si) of
        Inl k \<Rightarrow> collect_media_candidates si ticks [] (Some k) [] []
      | Inr (DirNode err es) \<Rightarrow> collect_media_candidates si ticks [] err es []
      | Inr _ \<Rightarrow> collect_media_candidates si ticks [] (Some NotADirectory) [] [])"

fun dedup_paths :: "media_candidate list \<Rightarrow> media_candidate list" where
  "dedup_paths (a # b # cs) =
     (if mc_path b = mc_path a then dedup_paths (a # cs) else a # dedup_paths (b # cs))"
| "dedup_paths cs = cs"

definition filter_search_text :: "media_library \<Rightarrow> library_filter option \<Rightarrow> string option" where
  "filter_search_text lib filter_by =
     (case filter_by of
        None \<Rightarrow> None
      | Some f \<Rightarrow>
          let t = lb_lower lib (trim (lf_search_text f)) in if t = [] then None else Some t)"

definition filter_excludes_local :: "library_filter option \<Rightarrow> bool" where
  "filter_excludes_local filter_by =
     (case filter_by of
        None \<Rightarrow> False
      | Some f \<Rightarrow> lf_sources f \<noteq> [] \<and> SOURCE_LOCAL_CACHE \<notin> set (lf_sources f))"

definition enumerate_media_candidates ::
  "media_library \<Rightarrow> library_filter option \<Rightarrow> nat option \<Rightarrow> gate_state
     \<Rightarrow> (io_kind + media_candidate list) \<times> nat option" where
  "enumerate_media_candidates lib filter_by ticks state =
     (if filter_excludes_local filter_by then (Inr [], ticks)
      else
        let si = \<lparr>si_library = lib, si_gate = state, si_search_text = filter_search_text lib filter_by\<rparr> in
        case collect_from_root si ticks of
          (Inl e, ticks1) \<Rightarrow> (Inl e, ticks1)
        | (Inr cs, ticks1) \<Rightarrow> (Inr (dedup_paths (sort_by (candidate_order (lb_lower lib)) cs)), ticks1))"

section \<open>Pages\<close>

record library_item_page =
  lp_items :: "library_item list"
  lp_next_page_offset :: "int option"

definition empty_page :: library_item_page where
  "empty_page = \<lparr>lp_items = [], lp_next_page_offset = None\<rparr>"

definition try_create_library_item :: "media_library \<Rightarrow> string list \<Rightarrow> library_item option" where
  "try_create_library_item lib path = map_option (create_library_item lib) (try_create_media_file lib path)"

definition i32_max :: int where "i32_max = 2 ^ 31 - 1"

definition checked_add_i64 :: "int \<Rightarrow> int \<Rightarrow> int option" where
  "checked_add_i64 a b = (if a + b \<le> i64_max then Some (a + b) else None)"

fun page_loop ::
  "media_library \<Rightarrow> gate_state \<Rightarrow> int \<Rightarrow> nat \<Rightarrow> nat option \<Rightarrow> int \<Rightarrow> library_item list \<Rightarrow> media_candidate list
     \<Rightarrow> library_item_page" where
  "page_loop lib state offset size_limit ticks skipped items [] =
     \<lparr>lp_items = items, lp_next_page_offset = None\<rparr>"
| "page_loop lib state offset size_limit ticks skipped items (c # cs) =
     (if is_cancelled ticks then empty_page
      else
        let ticks1 = next_tick ticks in
        case try_create_library_item lib (mc_path c) of
          None \<Rightarrow> page_loop lib state offset size_limit ticks1 skipped items cs
        | Some item \<Rightarrow>
            if gate_blocks_text state (li_source_id item)
            then page_loop lib state offset size_limit ticks1 skipped items cs
            else if skipped < offset
            then page_loop lib state offset size_limit ticks1 (skipped + 1) items cs
            else if length items < size_limit
            then page_loop lib state offset size_limit ticks1 skipped (items @ [item]) cs
            else \<lparr>lp_items = items,
                  lp_next_page_offset = checked_add_i64 offset (min i64_max (int size_limit))\<rparr>)"

definition list_items_page ::
  "media_library \<Rightarrow> gate_attempt list \<Rightarrow> library_filter option \<Rightarrow> int \<Rightarrow> nat \<Rightarrow> library_item_page" where
  "list_items_page lib attempts filter_by offset size_limit =
     (if offset < 0 \<or> size_limit = 0 \<or> offset > i32_max \<or> \<not> is_root_available lib then empty_page
      else case with_stable_snapshot attempts (\<lambda>state ticks.
          case enumerate_media_candidates lib filter_by ticks state of
            (Inl e, _) \<Rightarrow> empty_page
          | (Inr cs, ticks1) \<Rightarrow> page_loop lib state offset size_limit ticks1 0 [] cs) of
        Some page \<Rightarrow> page
      | None \<Rightarrow> empty_page)"

definition count_items :: "media_library \<Rightarrow> gate_attempt list \<Rightarrow> int" where
  "count_items lib attempts =
     (if \<not> is_root_available lib then 0
      else case with_stable_snapshot attempts (\<lambda>state ticks.
          case enumerate_media_candidates lib None ticks state of
            (Inl e, _) \<Rightarrow> 0
          | (Inr cs, _) \<Rightarrow>
              min i32_max (int (length (filter (\<lambda>f. \<not> gate_blocks_text state (ml_relative_path f))
                (List.map_filter (\<lambda>c. try_create_media_file lib (mc_path c)) cs))))) of
        Some n \<Rightarrow> n
      | None \<Rightarrow> 0)"

section \<open>Removal\<close>

definition resolve_deletable_media_file ::
  "media_library \<Rightarrow> string \<Rightarrow> gate_state \<Rightarrow> io_kind + media_file option" where
  "resolve_deletable_media_file lib item_id state =
     (case ensure_deletable_root lib of
        Inl e \<Rightarrow> Inl e
      | Inr _ \<Rightarrow>
          (case decode_item_id lib item_id of
             None \<Rightarrow> Inr None
           | Some path \<Rightarrow>
               (case lib_lstat lib path of
                  Inl e \<Rightarrow> if e = NotFound then Inr None else Inl e
                | Inr (FileNode f) \<Rightarrow>
                    if decoded_as_directory lib item_id then Inl NotADirectory
                    else if path_contains_link lib path then Inr None
                    else if gate_blocks state path then Inr None
                    else if extension_with_dot lib path \<notin> set (allowed_extensions lib) then Inr None
                    else if is_internal_cache_path path then Inr None
                    else (case fi_open_error f of
                      Some e \<Rightarrow> if e = NotFound then Inr None else Inl e
                    | None \<Rightarrow> Inr (Some (media_file_at lib path f)))
                | Inr node \<Rightarrow>
                    if decoded_as_directory lib item_id
                    then (case directory_metadata node of
                      Inl e \<Rightarrow> if e = NotFound then Inr None else Inl e
                    | Inr _ \<Rightarrow> Inr None)
                    else Inr None)))"

definition remove_file_no_follow ::
  "media_library \<Rightarrow> removal \<Rightarrow> string \<Rightarrow> (io_kind + bool) \<times> media_library" where
  "remove_file_no_follow lib answers relative_path =
     (case lb_tree lib of
        Inl e \<Rightarrow> (Inl e, lib)
      | Inr t \<Rightarrow>
          (case normal_names (components relative_path) of
             None \<Rightarrow> (Inl InvalidInput, lib)
           | Some ns \<Rightarrow>
               if ns = [] then (Inl InvalidInput, lib)
               else (case remove_entry answers t ns of (r, t') \<Rightarrow> (r, lib\<lparr>lb_tree := Inr t'\<rparr>))))"

fun delete_loop ::
  "media_library \<Rightarrow> removal \<Rightarrow> gate_attempt list \<Rightarrow> string \<Rightarrow> (io_kind + bool) \<times> media_library" where
  "delete_loop lib answers [] item_id = (Inl WouldBlock, lib)"
| "delete_loop lib answers (a # attempts) item_id =
     (case resolve_deletable_media_file lib item_id (pb_state (ga_before a)) of
        Inl e \<Rightarrow> (Inl e, lib)
      | Inr found \<Rightarrow>
          if pb_version (ga_after a) \<noteq> pb_version (ga_before a) then delete_loop lib answers attempts item_id
          else (case found of
            None \<Rightarrow> (Inr False, lib)
          | Some f \<Rightarrow> remove_file_no_follow lib answers (ml_relative_path f)))"

definition delete_item ::
  "media_library \<Rightarrow> removal \<Rightarrow> gate_attempt list \<Rightarrow> string \<Rightarrow> (io_kind + bool) \<times> media_library" where
  "delete_item lib answers attempts item_id =
     delete_loop lib answers (take MAX_STABILIZATION_ATTEMPTS attempts) item_id"

fun parent_has_unsafe_component :: "media_library \<Rightarrow> string list \<Rightarrow> string list \<Rightarrow> io_kind + bool" where
  "parent_has_unsafe_component lib dir [] = Inr False"
| "parent_has_unsafe_component lib dir (n # ns) =
     (case lib_lstat lib (dir @ [n]) of
        Inl e \<Rightarrow> if e = NotFound then Inr False else Inl e
      | Inr (DirNode _ _) \<Rightarrow> parent_has_unsafe_component lib (dir @ [n]) ns
      | Inr _ \<Rightarrow> Inr True)"

text \<open>The item to delete, under its canonical identifier; a file that is gone already can be named too.\<close>

definition canonical_deletable_item_id_for_snapshot ::
  "media_library \<Rightarrow> string \<Rightarrow> gate_state \<Rightarrow> io_kind + (string \<times> string) option" where
  "canonical_deletable_item_id_for_snapshot lib item_id state =
     (case ensure_deletable_root lib of
        Inl e \<Rightarrow> Inl e
      | Inr _ \<Rightarrow>
          (case decode_item_id lib item_id of
             None \<Rightarrow> Inr None
           | Some path \<Rightarrow>
               if path = [] \<or> gate_blocks state path \<or> is_internal_cache_path path then Inr None
               else (case lib_lstat lib path of
                 Inr _ \<Rightarrow>
                   (case resolve_deletable_media_file lib item_id state of
                      Inl e \<Rightarrow> Inl e
                    | Inr found \<Rightarrow>
                        Inr (map_option (\<lambda>f. (create_item_id lib (ml_relative_path f), ml_relative_path f)) found))
               | Inl e \<Rightarrow>
                   if e \<noteq> NotFound then Inl e
                   else if extension_with_dot lib path \<notin> set (allowed_extensions lib) then Inr None
                   else (case parent_has_unsafe_component lib [] (butlast path) of
                     Inl k \<Rightarrow> Inl k
                   | Inr True \<Rightarrow> Inr None
                   | Inr False \<Rightarrow> Inr (Some (create_item_id lib (join_path path), join_path path))))))"

end
