(* ===== verification/Library_Listing.thy ===== *)
theory Library_Listing
  imports Library_Scan
begin

text \<open>
  What the media library shows: the scan finds exactly the files that may be seen, pages split their
  list, an item is found again under its identifier, and a removal takes away one such file.
\<close>

section \<open>The gate\<close>

lemma gate_blocks_iff:
  "gate_blocks (GateKnown ps) path \<longleftrightarrow> (\<exists>p \<in> set ps. p \<noteq> [] \<and> path_starts_with path p)"
  by (auto simp: gate_blocks_def list_ex_iff ancestor_iff)

lemma gate_blocks_append: "gate_blocks state path \<Longrightarrow> gate_blocks state (path @ rest)"
proof (cases state)
  case (GateKnown ps)
  then show "gate_blocks state path \<Longrightarrow> gate_blocks state (path @ rest)"
    by (auto simp: gate_blocks_iff intro: path_starts_with_append)
qed (auto simp: gate_blocks_def intro: path_starts_with_append)

section \<open>The scan\<close>

text \<open>The files that a scan shows as candidates.\<close>

definition listed :: "scan_input \<Rightarrow> string list \<Rightarrow> bool" where
  "listed si path \<longleftrightarrow>
     \<not> gate_blocks (si_gate si) path
     \<and> extension_with_dot (si_library si) path \<in> set (allowed_extensions (si_library si))
     \<and> search_matches si (candidate_at path)
     \<and> \<not> (2 \<le> length path \<and> is_internal_cache_path path)"

definition lists_node :: "scan_input \<Rightarrow> string list \<Rightarrow> tree_node \<Rightarrow> media_candidate list \<Rightarrow> bool" where
  "lists_node si dir node cs \<longleftrightarrow>
     (\<forall>c. c \<in> set cs \<longleftrightarrow> (\<exists>p f. reaches node p f \<and> listed si (dir @ p) \<and> c = candidate_at (dir @ p)))
     \<and> distinct (map mc_path cs)"

definition lists_entries ::
  "scan_input \<Rightarrow> string list \<Rightarrow> (string \<times> tree_node) list \<Rightarrow> media_candidate list \<Rightarrow> bool" where
  "lists_entries si dir es cs \<longleftrightarrow>
     (\<forall>c. c \<in> set cs \<longleftrightarrow> (\<exists>n node p f. (n, node) \<in> set es \<and> reaches node p f
        \<and> listed si (dir @ n # p) \<and> c = candidate_at (dir @ n # p)))
     \<and> distinct (map mc_path cs)"

lemma mc_path_candidate [simp]: "mc_path (candidate_at p) = p"
  by (simp add: candidate_at_def)

lemma lists_entries_Nil [simp]: "lists_entries si dir [] []"
  by (simp add: lists_entries_def)

lemma lists_directory: "lists_entries si dir es cs \<longleftrightarrow> lists_node si dir (DirNode None es) cs"
proof -
  have "(\<exists>n node p f. (n, node) \<in> set es \<and> reaches node p f \<and> listed si (dir @ n # p) \<and> c = candidate_at (dir @ n # p))
      \<longleftrightarrow> (\<exists>p f. reaches (DirNode None es) p f \<and> listed si (dir @ p) \<and> c = candidate_at (dir @ p))" for c
    unfolding reaches_Dir by blast
  then show ?thesis unfolding lists_entries_def lists_node_def by simp
qed

lemma lists_nodeD:
  "lists_node si dir node cs \<Longrightarrow> c \<in> set cs \<Longrightarrow>
     \<exists>p f. reaches node p f \<and> listed si (dir @ p) \<and> c = candidate_at (dir @ p)"
  by (simp add: lists_node_def)

lemma lists_entriesD:
  "lists_entries si dir es cs \<Longrightarrow> c \<in> set cs \<Longrightarrow>
     \<exists>n node p f. (n, node) \<in> set es \<and> reaches node p f \<and> listed si (dir @ n # p) \<and> c = candidate_at (dir @ n # p)"
  by (simp add: lists_entries_def)

lemma lists_entries_Cons:
  assumes "lists_node si (dir @ [n]) node a" "lists_entries si dir es b" "n \<notin> fst ` set es"
  shows "lists_entries si dir ((n, node) # es) (a @ b)"
proof -
  have "mc_path x \<noteq> mc_path y" if xy: "x \<in> set a" "y \<in> set b" for x y
  proof -
    obtain p where "x = candidate_at ((dir @ [n]) @ p)"
      using lists_nodeD [OF assms(1) xy(1)] by blast
    moreover obtain m c q where "y = candidate_at (dir @ m # q)" and "(m, c) \<in> set es"
      using lists_entriesD [OF assms(2) xy(2)] by blast
    moreover have "n \<noteq> m" using assms(3) \<open>(m, c) \<in> set es\<close> by force
    ultimately show ?thesis by simp
  qed
  then have "distinct (map mc_path (a @ b))"
    using assms(1,2) by (auto simp: lists_node_def lists_entries_def)
  moreover have "c \<in> set (a @ b) \<longleftrightarrow> (\<exists>m c' p f. (m, c') \<in> set ((n, node) # es) \<and> reaches c' p f
      \<and> listed si (dir @ m # p) \<and> c = candidate_at (dir @ m # p))" for c
    using assms(1,2) by (auto simp: lists_node_def lists_entries_def; blast)
  ultimately show ?thesis by (simp add: lists_entries_def)
qed

lemma lists_nothing:
  assumes "\<And>p f. reaches node p f \<Longrightarrow> \<not> listed si (dir @ p)"
  shows "lists_node si dir node []"
  using assms by (auto simp: lists_node_def)

lemma lists_file:
  "lists_node si path (FileNode f) (if listed si path then [candidate_at path] else [])"
  by (auto simp: lists_node_def reaches_File)

lemma collect_lists:
  "collect_media_candidates si ticks dir err es acc = (Inr r, u) \<Longrightarrow> well_named (DirNode err es) \<Longrightarrow>
     dir = [] \<or> \<not> is_internal_cache_path dir \<Longrightarrow>
     \<exists>new. r = acc @ new \<and> lists_node si dir (DirNode err es) new"
  "collect_entries si ticks dir es acc = (Inr r, u) \<Longrightarrow> well_named (DirNode None es) \<Longrightarrow>
     dir = [] \<or> \<not> is_internal_cache_path dir \<Longrightarrow>
     \<exists>new. r = acc @ new \<and> lists_entries si dir es new"
proof (induction si ticks dir err es acc and si ticks dir es acc arbitrary: r u and r u
    rule: collect_media_candidates_collect_entries.induct)
  case (1 si ticks dir err es acc)
  show ?case
  proof (cases err)
    case None
    with 1 show ?thesis by (auto simp: lists_directory split: if_splits)
  next
    case (Some k)
    with "1.prems" have "r = acc" by (auto split: if_splits)
    moreover have "lists_node si dir (DirNode (Some k) es) []"
      by (rule lists_nothing) (simp add: reaches_Dir)
    ultimately show ?thesis using Some by simp
  qed
next
  case (2 si ticks dir acc)
  then show ?case by auto
next
  case (3 si ticks dir n node es acc)
  let ?path = "dir @ [n]" and ?t = "next_tick ticks"
  have go: "\<not> is_cancelled ticks" using "3.prems"(1) by (auto split: if_splits)
  have named: "well_named (DirNode None es)" "well_named node" "n \<notin> fst ` set es"
    using "3.prems"(2) by auto
  have skip: "\<exists>new. r = acc @ new \<and> lists_entries si dir ((n, node) # es) new"
    if "\<exists>new. r = acc @ new \<and> lists_entries si dir es new"
      "\<And>p f. reaches node p f \<Longrightarrow> \<not> listed si (?path @ p)"
    using that(1) lists_entries_Cons [OF lists_nothing [OF that(2)] _ named(3)] by fastforce
  show ?case
  proof (cases "gate_blocks (si_gate si) ?path")
    case True
    then have "\<not> listed si (?path @ p)" for p
      using gate_blocks_append [OF True, of p] by (simp add: listed_def)
    moreover have "collect_entries si ?t dir es acc = (Inr r, u)"
      using "3.prems"(1) go True by (simp add: Let_def)
    then have "\<exists>new. r = acc @ new \<and> lists_entries si dir es new"
      using "3.IH"(1) [OF go refl refl True _ named(1) "3.prems"(3)] by blast
    ultimately show ?thesis by (intro skip)
  next
    case open_gate: False
    show ?thesis
    proof (cases node)
      case (FileNode f)
      let ?new = "if listed si ?path then [candidate_at ?path] else []"
      have "\<not> (2 \<le> length ?path \<and> is_internal_cache_path ?path)"
        using "3.prems"(3) by (cases dir) (auto simp: is_internal_cache_path_def)
      then have l: "listed si ?path \<longleftrightarrow>
          extension_with_dot (si_library si) ?path \<in> set (allowed_extensions (si_library si))
          \<and> search_matches si (candidate_at ?path)"
        using open_gate by (simp add: listed_def)
      have run: "collect_entries si ?t dir es (acc @ ?new) = (Inr r, u)"
        using "3.prems"(1) go open_gate FileNode l by (auto simp: Let_def split: if_splits)
      have "\<exists>new. r = (acc @ ?new) @ new \<and> lists_entries si dir es new"
      proof (cases "listed si ?path")
        case True
        then have "\<not> extension_with_dot (si_library si) ?path \<notin> set (allowed_extensions (si_library si))"
          "search_matches si (candidate_at ?path)"
          using l by simp_all
        from "3.IH"(3) [OF go refl refl open_gate FileNode this _ named(1) "3.prems"(3)] run True
        show ?thesis by simp
      next
        case False
        show ?thesis
        proof (cases "extension_with_dot (si_library si) ?path \<in> set (allowed_extensions (si_library si))")
          case True
          with False l have "\<not> search_matches si (candidate_at ?path)" by simp
          from "3.IH"(4) [OF go refl refl open_gate FileNode _ this _ named(1) "3.prems"(3)] run True False
          show ?thesis by simp
        next
          case no_ext: False
          from "3.IH"(2) [OF go refl refl open_gate FileNode no_ext _ named(1) "3.prems"(3)] run False
          show ?thesis by simp
        qed
      qed
      then show ?thesis
        using lists_entries_Cons [OF lists_file _ named(3)] FileNode by fastforce
    next
      case (DirNode err children)
      show ?thesis
      proof (cases "is_internal_cache_path ?path")
        case True
        have "\<not> listed si (?path @ p)" if r: "reaches node p g" for p g
        proof -
          have "p \<noteq> []" using r DirNode by (auto simp: reaches_Nil)
          with True show ?thesis by (cases dir; cases p) (auto simp: listed_def is_internal_cache_path_def)
        qed
        moreover have "collect_entries si ?t dir es acc = (Inr r, u)"
          using "3.prems"(1) go open_gate DirNode True by (simp add: Let_def)
        then have "\<exists>new. r = acc @ new \<and> lists_entries si dir es new"
          using "3.IH"(5) [OF go refl refl open_gate DirNode True _ named(1) "3.prems"(3)] by blast
        ultimately show ?thesis by (intro skip)
      next
        case outside: False
        obtain acc1 t2 where one: "collect_media_candidates si ?t ?path err children acc = (Inr acc1, t2)"
          and rest: "collect_entries si t2 dir es acc1 = (Inr r, u)"
          using "3.prems"(1) go open_gate DirNode outside
          by (auto simp: Let_def split: prod.splits sum.splits)
        have "\<exists>new. acc1 = acc @ new \<and> lists_node si ?path (DirNode err children) new"
          using "3.IH"(6) [OF go refl refl open_gate DirNode outside one] named(2) DirNode outside by simp
        moreover have "\<exists>new. r = acc1 @ new \<and> lists_entries si dir es new"
          using "3.IH"(7) [OF go refl refl open_gate DirNode outside one [symmetric] refl rest named(1) "3.prems"(3)] .
        ultimately show ?thesis
          using lists_entries_Cons [OF _ _ named(3)] DirNode by fastforce
      qed
    next
      case (LinkNode t)
      have "\<not> listed si (?path @ p)" if "reaches node p g" for p g
        using that LinkNode by (simp add: reaches_Link)
      moreover have "collect_entries si ?t dir es acc = (Inr r, u)"
        using "3.prems"(1) go open_gate LinkNode by (simp add: Let_def)
      then have "\<exists>new. r = acc @ new \<and> lists_entries si dir es new"
        using "3.IH"(8) [OF go refl refl open_gate LinkNode _ named(1) "3.prems"(3)] by blast
      ultimately show ?thesis by (intro skip)
    next
      case SpecialNode
      have "\<not> listed si (?path @ p)" if "reaches node p g" for p g
        using that SpecialNode by (simp add: reaches_Special)
      moreover have "collect_entries si ?t dir es acc = (Inr r, u)"
        using "3.prems"(1) go open_gate SpecialNode by (simp add: Let_def)
      then have "\<exists>new. r = acc @ new \<and> lists_entries si dir es new"
        using "3.IH"(9) [OF go refl refl open_gate SpecialNode _ named(1) "3.prems"(3)] by blast
      ultimately show ?thesis by (intro skip)
    qed
  qed
qed

section \<open>The order of the candidates\<close>

interpretation candidates: comparison "candidate_order lower" for lower
  unfolding candidate_order_def
  by (intro comparison_then_with comparison_by_key [of cmp "\<lambda>c. lower (mc_title c)"]
      comparison_by_key [of cmp "\<lambda>c. lower (mc_subtitle c)"] comparison_by_key [of cmp mc_path]
      natural.comparison_axioms)

lemma dedup_distinct: "distinct (map mc_path cs) \<Longrightarrow> dedup_paths cs = cs"
  by (induction cs rule: dedup_paths.induct) auto

definition in_title_order :: "(string \<Rightarrow> string) \<Rightarrow> media_candidate list \<Rightarrow> bool" where
  "in_title_order lower cs \<longleftrightarrow> sorted_wrt (\<lambda>a b. candidate_order lower a b \<noteq> Greater) cs"

definition scan_of :: "media_library \<Rightarrow> library_filter option \<Rightarrow> gate_state \<Rightarrow> scan_input" where
  "scan_of lib filter_by state =
     \<lparr>si_library = lib, si_gate = state, si_search_text = filter_search_text lib filter_by\<rparr>"

definition tree_named :: "media_library \<Rightarrow> bool" where
  "tree_named lib \<longleftrightarrow> (\<exists>t. lb_tree lib = Inr t \<and> well_named t)"

definition library_reaches :: "media_library \<Rightarrow> string list \<Rightarrow> file_info \<Rightarrow> bool" where
  "library_reaches lib path f \<longleftrightarrow> (\<exists>t. lb_tree lib = Inr t \<and> reaches t path f)"

text \<open>The files that a request may see.\<close>

definition file_visible :: "media_library \<Rightarrow> library_filter option \<Rightarrow> gate_state \<Rightarrow> string list \<Rightarrow> file_info \<Rightarrow> bool" where
  "file_visible lib filter_by state path f \<longleftrightarrow>
     library_reaches lib path f \<and> \<not> filter_excludes_local filter_by
     \<and> listed (scan_of lib filter_by state) path \<and> \<not> is_internal_cache_path path \<and> fi_open_error f = None"

lemma root_available_dir:
  "is_root_available lib \<Longrightarrow> \<exists>err es. lb_tree lib = Inr (DirNode err es) \<and> \<not> lb_root_link lib"
  by (auto simp: is_root_available_def is_dir_def split: sum.splits tree_node.splits)

lemma enumerate_lists:
  assumes "enumerate_media_candidates lib filter_by ticks state = (Inr cs, u)"
    "is_root_available lib" "tree_named lib"
  shows "distinct (map mc_path cs)" "in_title_order (lb_lower lib) cs"
    "\<And>c. c \<in> set cs \<longleftrightarrow> (\<exists>p f. library_reaches lib p f \<and> \<not> filter_excludes_local filter_by
        \<and> listed (scan_of lib filter_by state) p \<and> c = candidate_at p)"
proof -
  obtain err es where t: "lb_tree lib = Inr (DirNode err es)" using root_available_dir [OF assms(2)] by blast
  have named: "well_named (DirNode err es)" using assms(3) t by (auto simp: tree_named_def)
  have "distinct (map mc_path cs) \<and> in_title_order (lb_lower lib) cs
    \<and> (\<forall>c. c \<in> set cs \<longleftrightarrow> (\<exists>p f. library_reaches lib p f \<and> \<not> filter_excludes_local filter_by
        \<and> listed (scan_of lib filter_by state) p \<and> c = candidate_at p))"
  proof (cases "filter_excludes_local filter_by")
    case True
    then show ?thesis using assms(1) by (simp add: enumerate_media_candidates_def in_title_order_def)
  next
    case False
    let ?si = "scan_of lib filter_by state"
    obtain r where r: "collect_media_candidates ?si ticks [] err es [] = (Inr r, u)"
      and cs: "cs = dedup_paths (sort_by (candidate_order (lb_lower lib)) r)"
      using assms(1) False t
      by (auto simp: enumerate_media_candidates_def collect_from_root_def scan_of_def Let_def
          split: prod.splits sum.splits)
    from collect_lists(1) [OF r named] have l: "lists_node ?si [] (DirNode err es) r" by simp
    have d: "distinct (map mc_path (sort_by (candidate_order (lb_lower lib)) r))"
    proof -
      have "mset (map mc_path (sort_by (candidate_order (lb_lower lib)) r)) = mset (map mc_path r)"
        by (simp add: mset_map)
      then show ?thesis using l unfolding lists_node_def by (metis mset_eq_imp_distinct_iff)
    qed
    have "c \<in> set cs \<longleftrightarrow> (\<exists>p f. library_reaches lib p f \<and> listed ?si p \<and> c = candidate_at p)" for c
      using l t by (simp add: cs dedup_distinct [OF d] lists_node_def library_reaches_def)
    then show ?thesis
      using d False candidates.sort_by_sorted [of "lb_lower lib" r]
      by (simp add: cs dedup_distinct [OF d] in_title_order_def)
  qed
  then show "distinct (map mc_path cs)" "in_title_order (lb_lower lib) cs"
    "\<And>c. c \<in> set cs \<longleftrightarrow> (\<exists>p f. library_reaches lib p f \<and> \<not> filter_excludes_local filter_by
        \<and> listed (scan_of lib filter_by state) p \<and> c = candidate_at p)"
    by blast+
qed

section \<open>Files at a path\<close>

lemma relative_components_join: "\<forall>n \<in> set ns. entry_name n \<Longrightarrow> relative_components (join_path ns) = ns"
  by (simp add: relative_components_def components_join_path)

lemma gate_blocks_text_join: "\<forall>n \<in> set ns. entry_name n \<Longrightarrow> gate_blocks_text state (join_path ns) = gate_blocks state ns"
  by (simp add: gate_blocks_text_def relative_components_join)

text \<open>The file at a path may be served: what every way to it checks.\<close>

definition servable_file :: "media_library \<Rightarrow> gate_state \<Rightarrow> string list \<Rightarrow> file_info \<Rightarrow> bool" where
  "servable_file lib state path f \<longleftrightarrow>
     lib_lstat lib path = Inr (FileNode f) \<and> \<not> path_contains_link lib path
     \<and> extension_with_dot lib path \<in> set (allowed_extensions lib) \<and> \<not> is_internal_cache_path path
     \<and> fi_open_error f = None \<and> \<not> gate_blocks state path"

lemma try_create_iff:
  "try_create_media_file lib path = Some m \<longleftrightarrow>
     (\<exists>f. lib_lstat lib path = Inr (FileNode f) \<and> \<not> path_contains_link lib path
       \<and> extension_with_dot lib path \<in> set (allowed_extensions lib) \<and> \<not> is_internal_cache_path path
       \<and> fi_open_error f = None \<and> m = media_file_at lib path f)"
  by (auto simp: try_create_media_file_def split: sum.splits tree_node.splits)

lemma reaches_names:
  assumes "library_reaches lib path f" "tree_named lib"
  shows "\<forall>n \<in> set path. entry_name n" "\<forall>n \<in> set path. utf8_valid (map of_char n)"
  using reaches_named assms by (fastforce simp: library_reaches_def tree_named_def)+

lemma reaches_servable:
  assumes "library_reaches lib path f" "tree_named lib" "is_root_available lib"
  shows "lib_lstat lib path = Inr (FileNode f)" "\<not> path_contains_link lib path"
  using assms reaches_lstat reaches_no_link
  by (auto simp: library_reaches_def tree_named_def lib_lstat_def path_contains_link_def is_root_available_def)

lemma visible_servable:
  assumes "file_visible lib filter_by state path f" "tree_named lib" "is_root_available lib"
  shows "servable_file lib state path f" "\<forall>n \<in> set path. entry_name n" "\<forall>n \<in> set path. utf8_valid (map of_char n)"
  using assms reaches_servable [of lib path f] reaches_names [of lib path f]
  by (auto simp: file_visible_def servable_file_def listed_def scan_of_def)

definition item_at :: "media_library \<Rightarrow> string list \<Rightarrow> file_info \<Rightarrow> library_item" where
  "item_at lib path f = create_library_item lib (media_file_at lib path f)"

lemma item_at_source [simp]: "li_source_id (item_at lib path f) = join_path path"
  by (simp add: item_at_def create_library_item_def media_file_at_def)

lemma item_at_id: "li_id (item_at lib path f) = create_item_id lib (join_path path)"
  by (simp add: item_at_def create_library_item_def media_file_at_def)

end
