(* ===== verification/Library_Pages.thy ===== *)
theory Library_Pages
  imports Library_Listing
begin

text \<open>
  The properties of the media library: pages that are read one after the other list every visible file
  once, an item is found under its identifier, a removal takes one file, and every answer belongs to a
  state of the publication gate that still held when it was given.
\<close>

section \<open>Pages\<close>

definition shown :: "media_library \<Rightarrow> gate_state \<Rightarrow> media_candidate \<Rightarrow> library_item option" where
  "shown lib state c =
     (case try_create_library_item lib (mc_path c) of
        None \<Rightarrow> None
      | Some item \<Rightarrow> if gate_blocks_text state (li_source_id item) then None else Some item)"

lemma no_ticks [simp]: "\<not> is_cancelled None" "next_tick None = None"
  by (simp_all add: is_cancelled_def next_tick_def)

lemma page_loop_eq:
  "skipped \<le> offset \<Longrightarrow> length items \<le> k \<Longrightarrow>
   page_loop lib state offset k None skipped items cs =
     (let rest = drop (nat (offset - skipped)) (List.map_filter (shown lib state) cs) in
      \<lparr>lp_items = items @ take (k - length items) rest,
       lp_next_page_offset = (if k - length items < length rest
         then checked_add_i64 offset (min i64_max (int k)) else None)\<rparr>)"
proof (induction cs arbitrary: skipped items)
  case (Cons c cs)
  show ?case
  proof (cases "shown lib state c")
    case None
    then show ?thesis
      using Cons by (auto simp: shown_def Let_def split: option.splits if_splits)
  next
    case (Some item)
    then have item: "try_create_library_item lib (mc_path c) = Some item"
      "\<not> gate_blocks_text state (li_source_id item)"
      by (auto simp: shown_def split: option.splits if_splits)
    show ?thesis
    proof (cases "skipped < offset")
      case True
      then have "nat (offset - skipped) = Suc (nat (offset - (skipped + 1)))" by simp
      then show ?thesis using Cons.IH [of "skipped + 1" items] Cons.prems True Some item by (simp add: Let_def)
    next
      case False
      then have "skipped = offset" using Cons.prems by simp
      show ?thesis
      proof (cases "length items < k")
        case True
        then have "k - length items = Suc (k - Suc (length items))" by simp
        then show ?thesis
          using Cons.IH [of skipped "items @ [item]"] Cons.prems Some item True \<open>skipped = offset\<close>
          by (simp add: Let_def)
      qed (use Cons.prems Some item \<open>skipped = offset\<close> in \<open>simp add: Let_def\<close>)
    qed
  qed
qed (simp add: Let_def)

definition file_info_at :: "media_library \<Rightarrow> string list \<Rightarrow> file_info option" where
  "file_info_at lib path = (case lib_lstat lib path of Inr (FileNode f) \<Rightarrow> Some f | _ \<Rightarrow> None)"

lemma shown_visible:
  assumes "library_reaches lib p f" "listed (scan_of lib filter_by state) p" "\<not> filter_excludes_local filter_by"
    "tree_named lib" "is_root_available lib"
  shows "shown lib state (candidate_at p)
      = (if file_visible lib filter_by state p f then Some (item_at lib p f) else None)"
proof -
  note r = reaches_servable [OF assms(1,4,5)] reaches_names [OF assms(1,4)]
  have l: "extension_with_dot lib p \<in> set (allowed_extensions lib)" "\<not> gate_blocks state p"
    using assms(2) by (auto simp: listed_def scan_of_def)
  have v: "file_visible lib filter_by state p f \<longleftrightarrow> \<not> is_internal_cache_path p \<and> fi_open_error f = None"
    using assms by (simp add: file_visible_def)
  have "try_create_media_file lib p
      = (if \<not> is_internal_cache_path p \<and> fi_open_error f = None then Some (media_file_at lib p f) else None)"
    using r l by (auto simp: try_create_media_file_def)
  then show ?thesis
    using l r(3) item_at_source [of lib p f]
    by (simp add: v shown_def try_create_library_item_def gate_blocks_text_join item_at_def [symmetric]
        del: item_at_source)
qed

lemma shown_list:
  assumes "\<forall>c \<in> set cs. \<exists>p f. library_reaches lib p f \<and> \<not> filter_excludes_local filter_by
      \<and> listed (scan_of lib filter_by state) p \<and> c = candidate_at p"
    "tree_named lib" "is_root_available lib"
  shows "\<exists>files. List.map_filter (shown lib state) cs = map (\<lambda>(p, f). item_at lib p f) files
    \<and> map fst files = map mc_path (filter (\<lambda>c. \<exists>f. file_visible lib filter_by state (mc_path c) f) cs)
    \<and> (\<forall>(p, f) \<in> set files. file_visible lib filter_by state p f)"
  using assms(1)
proof (induction cs)
  case Nil
  show ?case by (rule exI [of _ "[]"]) (simp add: List.map_filter_def)
next
  case (Cons c cs)
  then obtain files where files: "List.map_filter (shown lib state) cs = map (\<lambda>(p, f). item_at lib p f) files"
    "map fst files = map mc_path (filter (\<lambda>c. \<exists>f. file_visible lib filter_by state (mc_path c) f) cs)"
    "\<forall>(p, f) \<in> set files. file_visible lib filter_by state p f"
    by auto
  obtain p f where c: "library_reaches lib p f" "\<not> filter_excludes_local filter_by"
    "listed (scan_of lib filter_by state) p" "c = candidate_at p"
    using Cons.prems by auto
  note s = shown_visible [OF c(1,3,2) assms(2,3)]
  have u: "(\<exists>g. file_visible lib filter_by state p g) \<longleftrightarrow> file_visible lib filter_by state p f"
  proof -
    have "g = f" if "library_reaches lib p g" for g
      using reaches_servable(1) [OF that assms(2,3)] reaches_servable(1) [OF c(1) assms(2,3)] by simp
    then show ?thesis by (auto simp: file_visible_def)
  qed
  show ?case
  proof (cases "file_visible lib filter_by state p f")
    case True
    then show ?thesis
      using files s u c(4) by (intro exI [of _ "(p, f) # files"]) (simp add: List.map_filter_def)
  next
    case False
    then show ?thesis
      using files s u c(4) by (intro exI [of _ files]) (simp add: List.map_filter_def)
  qed
qed

text \<open>A client that reads page after page, at most \<open>n\<close> of them.\<close>

fun follow_pages :: "nat \<Rightarrow> (int \<Rightarrow> library_item_page) \<Rightarrow> int \<Rightarrow> library_item list option" where
  "follow_pages 0 page offset = None"
| "follow_pages (Suc n) page offset =
     (case lp_next_page_offset (page offset) of
        None \<Rightarrow> Some (lp_items (page offset))
      | Some next_offset \<Rightarrow> map_option (append (lp_items (page offset))) (follow_pages n page next_offset))"

lemma follow_pages_all:
  assumes pages: "\<And>offset. int offset \<le> i32_max \<Longrightarrow> page (int offset) =
      \<lparr>lp_items = take k (drop offset xs),
       lp_next_page_offset = (if offset + k < length xs then Some (int offset + int k) else None)\<rparr>"
    and "0 < k" "int (length xs) \<le> i32_max"
  shows "length xs - offset < n \<Longrightarrow> int offset \<le> i32_max \<Longrightarrow> follow_pages n page (int offset) = Some (drop offset xs)"
proof (induction n arbitrary: offset)
  case (Suc n)
  show ?case
  proof (cases "offset + k < length xs")
    case True
    have "follow_pages n page (int (offset + k)) = Some (drop (offset + k) xs)"
      by (rule Suc.IH) (use True Suc.prems assms(2,3) in linarith)+
    then show ?thesis
      using True pages [OF Suc.prems(2)]
      by (simp add: add.commute [of k]) (metis append_take_drop_id drop_drop add.commute)
  next
    case False
    then show ?thesis using pages [OF Suc.prems(2)] by simp
  qed
qed simp

text \<open>The gate does not change while the first attempt runs, and the request is not cancelled.\<close>

definition undisturbed :: "gate_attempt list \<Rightarrow> gate_state \<Rightarrow> bool" where
  "undisturbed attempts state \<longleftrightarrow>
     (\<exists>a rest. attempts = a # rest \<and> pb_version (ga_after a) = pb_version (ga_before a)
        \<and> ga_ticks a = None \<and> pb_state (ga_before a) = state)"

lemma undisturbed_snapshot: "undisturbed attempts state \<Longrightarrow> with_stable_snapshot attempts operation = Some (operation state None)"
  by (auto simp: undisturbed_def with_stable_snapshot_def MAX_STABILIZATION_ATTEMPTS_def)

lemma collect_no_ticks:
  "ticks = None \<Longrightarrow> snd (collect_media_candidates si ticks dir err es acc) = None"
  "ticks = None \<Longrightarrow> snd (collect_entries si ticks dir es acc) = None"
proof (induction si ticks dir err es acc and si ticks dir es acc
    rule: collect_media_candidates_collect_entries.induct)
  case (1 si ticks dir err es acc)
  then show ?case by (cases err) auto
next
  case (3 si ticks dir n node es acc)
  note none = "3.prems"
  have t: "next_tick ticks = None" "\<not> is_cancelled ticks" using none by simp_all
  show ?case
  proof (cases "gate_blocks (si_gate si) (dir @ [n])")
    case True
    then show ?thesis using "3.IH"(1) [OF t(2) refl refl True t(1)] t(2) by (simp add: Let_def)
  next
    case g: False
    show ?thesis
    proof (cases node)
      case (FileNode f)
      note i = "3.IH"(2) [OF t(2) refl refl g FileNode _ t(1)] "3.IH"(3) [OF t(2) refl refl g FileNode _ _ t(1)]
        "3.IH"(4) [OF t(2) refl refl g FileNode _ _ t(1)]
      show ?thesis using i t(2) g FileNode by (auto simp: Let_def)
    next
      case (DirNode err children)
      show ?thesis
      proof (cases "is_internal_cache_path (dir @ [n])")
        case True
        then show ?thesis using "3.IH"(5) [OF t(2) refl refl g DirNode True t(1)] t(2) g DirNode by (simp add: Let_def)
      next
        case False
        note i = "3.IH"(6) [OF t(2) refl refl g DirNode False t(1)]
        obtain r u where run: "collect_media_candidates si (next_tick ticks) (dir @ [n]) err children acc = (r, u)"
          by (cases "collect_media_candidates si (next_tick ticks) (dir @ [n]) err children acc")
        then have u: "u = None" using i by simp
        then show ?thesis
          using "3.IH"(7) [OF t(2) refl refl g DirNode False run [symmetric] _ u] t(2) g DirNode False run
          by (cases r) (simp_all add: Let_def del: collect_media_candidates.simps)
      qed
    next
      case (LinkNode l)
      then show ?thesis using "3.IH"(8) [OF t(2) refl refl g LinkNode t(1)] t(2) g by (simp add: Let_def)
    next
      case SpecialNode
      then show ?thesis using "3.IH"(9) [OF t(2) refl refl g SpecialNode t(1)] t(2) g by (simp add: Let_def)
    qed
  qed
qed simp

lemma enumerate_no_ticks: "enumerate_media_candidates lib filter_by None state = (r, u) \<Longrightarrow> u = None"
  using collect_no_ticks(1) [OF refl]
  by (auto simp: enumerate_media_candidates_def collect_from_root_def Let_def
      simp del: collect_media_candidates.simps
      split: if_splits prod.splits sum.splits tree_node.splits) (metis snd_conv)+

lemma visible_unique:
  "file_visible lib filter_by state p f \<Longrightarrow> file_visible lib filter_by state p g \<Longrightarrow> tree_named lib \<Longrightarrow>
     is_root_available lib \<Longrightarrow> f = g"
  by (metis Inr_inject tree_node.inject(1) reaches_servable(1) file_visible_def)

text \<open>
  C37. A client that reads the pages of the library one after the other, with any page size, gets each
  file that it may see exactly once and no other, in the order of the titles: files below the root that
  no link leads to, published, outside the server's own directory, of an allowed kind, that open and
  match what is searched for.
\<close>

theorem library_pages_list_visible:
  assumes "is_root_available lib" "tree_named lib" "undisturbed attempts state"
    "enumerate_media_candidates lib filter_by None state = (Inr cs, u)" "int (length cs) \<le> i32_max" "0 < k"
  shows "\<exists>files.
    follow_pages (Suc (length cs)) (\<lambda>offset. list_items_page lib attempts filter_by offset k) 0
      = Some (map (\<lambda>(p, f). item_at lib p f) files)
    \<and> distinct (map fst files) \<and> in_title_order (lb_lower lib) (map (\<lambda>(p, f). candidate_at p) files)
    \<and> (\<forall>p f. (p, f) \<in> set files \<longleftrightarrow> file_visible lib filter_by state p f)"
proof -
  note e = enumerate_lists [OF assms(4,1,2)]
  obtain files where files: "List.map_filter (shown lib state) cs = map (\<lambda>(p, f). item_at lib p f) files"
    "map fst files = map mc_path (filter (\<lambda>c. \<exists>f. file_visible lib filter_by state (mc_path c) f) cs)"
    "\<forall>(p, f) \<in> set files. file_visible lib filter_by state p f"
    using shown_list [OF _ assms(2,1), of cs filter_by state] e(3) by blast
  let ?xs = "map (\<lambda>(p, f). item_at lib p f) files"
  have "length files = length (map mc_path (filter (\<lambda>c. \<exists>f. file_visible lib filter_by state (mc_path c) f) cs))"
    using files(2) by (metis length_map)
  then have short: "length files \<le> length cs" by simp
  have "list_items_page lib attempts filter_by (int offset) k =
      \<lparr>lp_items = take k (drop offset ?xs),
       lp_next_page_offset = (if offset + k < length ?xs then Some (int offset + int k) else None)\<rparr>"
    if "int offset \<le> i32_max" for offset
  proof -
    have "list_items_page lib attempts filter_by (int offset) k = page_loop lib state (int offset) k None 0 [] cs"
      using assms that enumerate_no_ticks [OF assms(4)]
      by (simp add: list_items_page_def undisturbed_snapshot [OF assms(3)])
    moreover have "k < length files - offset \<Longrightarrow> int k \<le> i64_max \<and> int offset + int k \<le> i64_max"
      using short assms(5) by (auto simp: i32_max_def i64_max_def)
    ultimately show ?thesis
      by (auto simp: page_loop_eq files(1) Let_def checked_add_i64_def min_def less_diff_conv add.commute)
  qed
  from follow_pages_all [OF this assms(6), of 0 "Suc (length cs)"] short assms(5)
  have "follow_pages (Suc (length cs)) (\<lambda>offset. list_items_page lib attempts filter_by offset k) 0 = Some ?xs"
    by (simp add: i32_max_def)
  moreover have "distinct (map fst files)"
    using e(1) by (simp add: files(2) distinct_map_filter)
  moreover have "in_title_order (lb_lower lib) (map (\<lambda>(p, f). candidate_at p) files)"
  proof -
    let ?vs = "filter (\<lambda>c. \<exists>f. file_visible lib filter_by state (mc_path c) f) cs"
    have "map (\<lambda>(p, f). candidate_at p) files = map candidate_at (map fst files)" by (simp add: case_prod_unfold)
    also have "... = map (\<lambda>c. candidate_at (mc_path c)) ?vs" by (simp add: files(2))
    also have "... = ?vs" by (rule map_idI) (use e(3) in auto)
    finally show ?thesis
      using e(2) by (simp add: in_title_order_def sorted_wrt_filter)
  qed
  moreover have "(p, f) \<in> set files" if v: "file_visible lib filter_by state p f" for p f
  proof -
    have "candidate_at p \<in> set cs" using v e(3) by (auto simp: file_visible_def)
    then have "p \<in> set (map fst files)" using v by (force simp: files(2))
    then obtain g where "(p, g) \<in> set files" by auto
    then show ?thesis using files(3) visible_unique [OF v _ assms(2,1)] by auto
  qed
  ultimately show ?thesis using files(3) by blast
qed

section \<open>Answers and the gate\<close>

definition gate_step :: "publication_gate \<Rightarrow> string list \<Rightarrow> publication_gate \<Rightarrow> bool" where
  "gate_step g paths g' \<longleftrightarrow> snd (install_durable_blocked_paths paths g) = g'"

lemma gate_step_cases: "gate_step g paths g' \<Longrightarrow> g' = g \<or> pb_version g' = Suc (pb_version g)"
  by (auto simp: gate_step_def install_durable_blocked_paths_def split: sum.splits)

lemma gate_run_version: "exec_run gate_step g calls g' \<Longrightarrow> pb_version g \<le> pb_version g' \<and> (pb_version g = pb_version g' \<longrightarrow> g = g')"
proof (induction rule: exec_run.induct)
  case (exec_cons g paths h calls u)
  from gate_step_cases [OF exec_cons.hyps(1)] show ?case
  proof
    assume "pb_version h = Suc (pb_version g)"
    with exec_cons.IH have "pb_version g < pb_version u" by linarith
    then show ?case by simp
  qed (use exec_cons.IH in blast)
qed simp

text \<open>Between the two looks at the gate others may install what they like.\<close>

definition gate_history :: "gate_attempt list \<Rightarrow> bool" where
  "gate_history attempts \<longleftrightarrow> (\<forall>a \<in> set attempts. \<exists>calls. exec_run gate_step (ga_before a) calls (ga_after a))"

text \<open>
  C40. What the library answers was computed from the state of the gate that is installed at the moment it is
  given out, however often the state changed while it was computed; an operation gives up only after
  the state changed during each of eight attempts.
\<close>

theorem library_answers_for_current_gate:
  assumes "gate_history attempts" "8 \<le> length attempts"
  shows "case with_stable_snapshot attempts operation of
      Some r \<Rightarrow> \<exists>a \<in> set (take 8 attempts). ga_after a = ga_before a \<and> r = operation (pb_state (ga_after a)) (ga_ticks a)
    | None \<Rightarrow> (\<forall>a \<in> set (take 8 attempts). ga_after a \<noteq> ga_before a)"
proof -
  have "case stable_loop as operation of
      Some r \<Rightarrow> \<exists>a \<in> set as. ga_after a = ga_before a \<and> r = operation (pb_state (ga_after a)) (ga_ticks a)
    | None \<Rightarrow> (\<forall>a \<in> set as. ga_after a \<noteq> ga_before a)" if "gate_history as" for as
    using that
  proof (induction as)
    case (Cons a as)
    obtain calls where "exec_run gate_step (ga_before a) calls (ga_after a)"
      using Cons.prems by (auto simp: gate_history_def)
    note v = gate_run_version [OF this]
    have "gate_history as" using Cons.prems by (simp add: gate_history_def)
    then have rest: "case stable_loop as operation of
        Some r \<Rightarrow> \<exists>a \<in> set as. ga_after a = ga_before a \<and> r = operation (pb_state (ga_after a)) (ga_ticks a)
      | None \<Rightarrow> (\<forall>a \<in> set as. ga_after a \<noteq> ga_before a)"
      by (rule Cons.IH)
    show ?case
    proof (cases "pb_version (ga_after a) = pb_version (ga_before a)")
      case True
      then have "ga_after a = ga_before a" using v by simp
      then show ?thesis by (simp add: Let_def)
    next
      case False
      then have "ga_after a \<noteq> ga_before a" by auto
      with False rest show ?thesis by (cases "stable_loop as operation") (simp_all add: Let_def)
    qed
  qed simp
  moreover have "gate_history (take 8 attempts)" using assms(1) by (auto simp: gate_history_def dest: in_set_takeD)
  ultimately show ?thesis by (simp add: with_stable_snapshot_def MAX_STABILIZATION_ATTEMPTS_def)
qed

section \<open>Looking up and removing\<close>

lemma split_on_parts: "p \<in> set (split_on c s) \<Longrightarrow> c \<notin> set p"
  by (induction s arbitrary: p) (auto split: list.splits if_splits)

lemma component_entry: "CHR ''/'' \<notin> set s \<Longrightarrow> Normal n \<in> set (component_of s) \<Longrightarrow> entry_name n"
  by (auto simp: component_of_def entry_name_def split: if_splits)

lemma components_entry: "Normal n \<in> set (components path) \<Longrightarrow> entry_name n"
  using split_on_parts [of _ "CHR ''/''" path]
  by (auto simp: components_def split: list.splits if_splits intro: component_entry)

lemma normal_names_iff: "normal_names cs = Some ns \<longleftrightarrow> cs = map Normal ns"
  by (induction cs arbitrary: ns rule: normal_names.induct) (auto simp: Cons_eq_map_conv)

lemma decode_names: "decode_item_id lib i = Some ns \<Longrightarrow> \<forall>n \<in> set ns. entry_name n"
  by (auto simp: decode_item_id_def normal_names_iff split: option.splits if_splits)
    (metis components_entry imageI list.set_map)

lemma decode_create:
  assumes "\<And>s. lb_decode lib (lb_encode lib s) = Some s" "\<forall>n \<in> set ns. entry_name n"
    "\<forall>n \<in> set ns. utf8_valid (map of_char n)"
  shows "decode_item_id lib (create_item_id lib (join_path ns)) = Some ns"
  using assms components_join_path [OF assms(2)] is_absolute_join_path [OF assms(2)] utf8_valid_join_path [OF assms(3)]
  by (simp add: decode_item_id_def create_item_id_def)

lemma created_not_directory:
  assumes "\<And>s. lb_decode lib (lb_encode lib s) = Some s" "\<forall>n \<in> set ns. entry_name n"
  shows "\<not> decoded_as_directory lib (create_item_id lib (join_path ns))"
proof (cases "ns = []")
  case False
  then have "last (split_on CHR ''/'' (join_path ns)) = last ns" "entry_name (last ns)"
    using split_join_path [OF False] assms(2) False by (simp_all add: entry_nameD)
  then have "\<not> names_directory (join_path ns)" by (auto simp: names_directory_def entry_name_def)
  then show ?thesis using assms(1) by (simp add: decoded_as_directory_def create_item_id_def)
qed (use assms(1) in \<open>simp add: decoded_as_directory_def create_item_id_def names_directory_def\<close>)

lemma resolve_iff:
  "resolve_media_file lib state i LIBRARY_VARIANT_ID = Some m \<longleftrightarrow> \<not> decoded_as_directory lib i \<and>
     (\<exists>p f. decode_item_id lib i = Some p \<and> servable_file lib state p f \<and> m = media_file_at lib p f)"
proof (cases "decode_item_id lib i")
  case (Some p)
  have names: "\<forall>n \<in> set p. entry_name n" by (rule decode_names [OF Some])
  then have "gate_blocks_text state (ml_relative_path (media_file_at lib p f)) = gate_blocks state p" for f
    by (simp add: media_file_at_def gate_blocks_text_join)
  with Some show ?thesis
    by (cases "try_create_media_file lib p")
      (auto simp: resolve_media_file_def servable_file_def try_create_iff try_create_media_file_def
        split: if_splits sum.splits tree_node.splits)
qed (simp add: resolve_media_file_def)

lemma get_item_snapshot:
  "undisturbed attempts state \<Longrightarrow>
     get_item lib attempts i = map_option (create_library_item lib) (resolve_media_file lib state i LIBRARY_VARIANT_ID)"
  by (simp add: get_item_def undisturbed_snapshot)

lemma deletable_iff:
  "ensure_deletable_root lib = Inr u \<Longrightarrow>
   resolve_deletable_media_file lib i state = Inr (Some m) \<longleftrightarrow> \<not> decoded_as_directory lib i \<and>
     (\<exists>p f. decode_item_id lib i = Some p \<and> servable_file lib state p f \<and> m = media_file_at lib p f)"
  by (cases "decode_item_id lib i")
    (auto simp: resolve_deletable_media_file_def servable_file_def split: sum.splits tree_node.splits option.splits if_splits)

text \<open>
  C39. Each item of a listing is found again under its identifier, the same item, as long as the file is
  published, and the deletion of an item resolves the identifier to the same file.
\<close>

theorem listed_item_found:
  assumes "is_root_available lib" "tree_named lib" "undisturbed attempts state"
    "file_visible lib filter_by state p f" "\<And>s. lb_decode lib (lb_encode lib s) = Some s"
  shows "get_item lib attempts (li_id (item_at lib p f)) = Some (item_at lib p f)
    \<and> canonical_deletable_item_id_for_snapshot lib (li_id (item_at lib p f)) state
        = Inr (Some (li_id (item_at lib p f), join_path p))"
proof -
  note v = visible_servable [OF assms(4,2,1)]
  have d: "decode_item_id lib (li_id (item_at lib p f)) = Some p"
    unfolding item_at_id by (rule decode_create [OF assms(5) v(2,3)])
  have nd: "\<not> decoded_as_directory lib (li_id (item_at lib p f))"
    unfolding item_at_id by (rule created_not_directory [OF assms(5) v(2)])
  have root: "ensure_deletable_root lib = Inr ()"
    using assms(1) by (auto simp: ensure_deletable_root_def is_root_available_def is_dir_def split: sum.splits)
  have "resolve_media_file lib state (li_id (item_at lib p f)) LIBRARY_VARIANT_ID = Some (media_file_at lib p f)"
    using d nd v(1) by (auto simp: resolve_iff)
  moreover have "resolve_deletable_media_file lib (li_id (item_at lib p f)) state = Inr (Some (media_file_at lib p f))"
    using d nd v(1) by (auto simp: deletable_iff [OF root])
  moreover have "p \<noteq> []"
    using v(1) root_available_dir [OF assms(1)] by (auto simp: servable_file_def lib_lstat_def)
  ultimately show ?thesis
    using d root v(1)
    by (simp add: get_item_snapshot [OF assms(3)] canonical_deletable_item_id_for_snapshot_def servable_file_def
        item_at_id item_at_def [symmetric] media_file_at_def)
      (simp add: item_at_def media_file_at_def)
qed

text \<open>
  C38. A removal takes away at most one file: a published file of the library that the identifier names, below
  the root on a way without links and outside the server's own directory. Every other file stays, and
  an answer that the item was removed is given only then.
\<close>

theorem removal_takes_one_published_file:
  assumes "delete_item lib answers attempts i = (r, lib')" "tree_named lib" "gate_history attempts"
  shows "(lib' = lib \<and> r \<noteq> Inr True)
    \<or> (\<exists>a \<in> set attempts. \<exists>p f. ga_after a = ga_before a \<and> decode_item_id lib i = Some p
        \<and> servable_file lib (pb_state (ga_after a)) p f
        \<and> lib_lstat lib' p = Inl NotFound
        \<and> (\<forall>q g. library_reaches lib' q g \<longleftrightarrow> library_reaches lib q g \<and> q \<noteq> p)
        \<and> r \<noteq> Inr False)"
proof -
  have "(lib' = lib \<and> r \<noteq> Inr True)
    \<or> (\<exists>a \<in> set as. \<exists>p f. ga_after a = ga_before a \<and> decode_item_id lib i = Some p
        \<and> servable_file lib (pb_state (ga_after a)) p f
        \<and> lib_lstat lib' p = Inl NotFound
        \<and> (\<forall>q g. library_reaches lib' q g \<longleftrightarrow> library_reaches lib q g \<and> q \<noteq> p)
        \<and> r \<noteq> Inr False)"
    if "delete_loop lib answers as i = (r, lib')" "gate_history as" for as
    using that
  proof (induction as)
    case (Cons a as)
    obtain calls where "exec_run gate_step (ga_before a) calls (ga_after a)"
      using Cons.prems(2) by (auto simp: gate_history_def)
    note v = gate_run_version [OF this]
    show ?case
    proof (cases "resolve_deletable_media_file lib i (pb_state (ga_before a))")
      case (Inl e)
      with Cons.prems(1) show ?thesis by auto
    next
      case (Inr found)
      show ?thesis
      proof (cases "pb_version (ga_after a) = pb_version (ga_before a)")
        case False
        then have "delete_loop lib answers as i = (r, lib')" using Cons.prems(1) Inr by simp
        moreover have "gate_history as" using Cons.prems(2) by (simp add: gate_history_def)
        ultimately show ?thesis using Cons.IH by (auto 4 3)
      next
        case same: True
        then have gate: "ga_after a = ga_before a" using v by simp
        show ?thesis
        proof (cases found)
          case None
          with Cons.prems(1) Inr same show ?thesis by auto
        next
          case (Some m)
          have "\<exists>u. ensure_deletable_root lib = Inr u"
            using Inr by (auto simp: resolve_deletable_media_file_def split: sum.splits)
          then obtain p f where p: "decode_item_id lib i = Some p"
            "servable_file lib (pb_state (ga_before a)) p f" "m = media_file_at lib p f"
            using Inr Some deletable_iff [of lib _ i "pb_state (ga_before a)" m] by blast
          obtain t where t: "lb_tree lib = Inr t" "well_named t"
            using assms(2) by (auto simp: tree_named_def)
          have "normal_names (components (ml_relative_path m)) = Some p"
            using decode_names [OF p(1)] by (simp add: p(3) media_file_at_def components_join_path)
          moreover have "remove_file_no_follow lib answers (ml_relative_path m) = (r, lib')"
            using Cons.prems(1) Inr same Some by simp
          ultimately consider "lib' = lib" "r \<noteq> Inr True"
            | t' where "remove_entry answers t p = (r, t')" "lib' = lib\<lparr>lb_tree := Inr t'\<rparr>"
            using t(1) by (auto simp: remove_file_no_follow_def split: if_splits prod.splits)
          then show ?thesis
          proof cases
            case 2
            from remove_entry_without [OF 2(1) t(2)]
            consider "t' = t" "r \<noteq> Inr True" | "without t p t'" "r \<noteq> Inr False" by blast
            then show ?thesis
            proof cases
              case 1
              then show ?thesis using 2(2) t(1) by simp
            next
              case w: 2
              have "lib_lstat lib' p = Inl NotFound"
                "\<forall>q g. library_reaches lib' q g \<longleftrightarrow> library_reaches lib q g \<and> q \<noteq> p"
                using w(1) t(1) by (simp_all add: 2(2) lib_lstat_def library_reaches_def without_def)
              then show ?thesis using p w(2) gate by auto
            qed
          qed simp
        qed
      qed
    qed
  qed auto
  moreover have "gate_history (take MAX_STABILIZATION_ATTEMPTS attempts)"
    using assms(3) by (auto simp: gate_history_def dest: in_set_takeD)
  ultimately show ?thesis
    using assms(1) unfolding delete_item_def by (meson in_set_takeD)
qed

section \<open>A small library\<close>

definition demo_media_file :: "nat \<Rightarrow> tree_node" where
  "demo_media_file n = FileNode \<lparr>fi_created = 0, fi_modified = 0, fi_size = n, fi_open_error = None\<rparr>"

definition demo_tree :: tree_node where
  "demo_tree = DirNode None
     [(''b.mp4'', demo_media_file 5), (''.tvos-net-player'', DirNode None [(''x.mp4'', demo_media_file 1)]),
      (''sub'', DirNode None [(''a.mp4'', demo_media_file 7), (''new.mp4'', demo_media_file 2), (''note.txt'', demo_media_file 3)]),
      (''link.mp4'', LinkNode (Some (demo_media_file 4)))]"

definition demo_library :: media_library where
  "demo_library = \<lparr>lb_lower = (\<lambda>s. s), lb_encode = (\<lambda>s. s), lb_decode = Some, lb_extensions = [''mp4''],
     lb_root_link = False, lb_tree = Inr demo_tree\<rparr>"

definition demo_gate :: publication_gate where
  "demo_gate = \<lparr>pb_state = GateKnown [[''sub'', ''new.mp4'']], pb_version = 1, pb_managed_output_prefix = None\<rparr>"

definition demo_attempts :: "gate_attempt list" where
  "demo_attempts = replicate 8 \<lparr>ga_before = demo_gate, ga_after = demo_gate, ga_ticks = None\<rparr>"

lemma demo_undisturbed: "undisturbed demo_attempts (pb_state demo_gate)"
  by (simp add: undisturbed_def demo_attempts_def eval_nat_numeral)

lemma demo_history: "gate_history demo_attempts"
  by (auto simp: gate_history_def demo_attempts_def intro: exec_nil)

lemma demo_names:
  "list_all (\<lambda>n. entry_name n \<and> utf8_valid (map of_char n))
     [''b.mp4'', ''.tvos-net-player'', ''x.mp4'', ''sub'', ''a.mp4'', ''new.mp4'', ''note.txt'', ''link.mp4'']"
  by code_simp

lemma well_named_Cons:
  "well_named (DirNode e ((n, c) # es)) \<longleftrightarrow>
     entry_name n \<and> utf8_valid (map of_char n) \<and> well_named c \<and> n \<notin> fst ` set es \<and> well_named (DirNode e es)"
  by auto

lemma demo_file_named: "well_named (demo_media_file n)" "well_named (LinkNode t)" "well_named (DirNode e [])"
  by (simp_all add: demo_media_file_def well_named.intros)

lemma demo_tree_named: "well_named demo_tree"
  using demo_names by (simp add: demo_tree_def well_named_Cons demo_file_named del: well_named_Dir of_char_Char)

lemma demo_library_ok: "is_root_available demo_library" "tree_named demo_library"
  using demo_tree_named
  by (simp_all add: is_root_available_def is_dir_def demo_library_def tree_named_def) (simp add: demo_tree_def)

lemma demo_scan:
  "enumerate_media_candidates demo_library None None (pb_state demo_gate)
     = (Inr [candidate_at [''sub'', ''a.mp4''], candidate_at [''b.mp4'']], None)"
  by code_simp

theorem library_pages_list_visible_witness:
  "\<exists>files. follow_pages 3 (\<lambda>offset. list_items_page demo_library demo_attempts None offset 1) 0
      = Some (map (\<lambda>(p, f). item_at demo_library p f) files) \<and> distinct (map fst files)"
  using library_pages_list_visible [OF demo_library_ok demo_undisturbed demo_scan, of 1]
  by (auto simp: i32_max_def numeral_3_eq_3)

lemma demo_visible:
  "file_visible demo_library None (pb_state demo_gate) [''sub'', ''a.mp4'']
     \<lparr>fi_created = 0, fi_modified = 0, fi_size = 7, fi_open_error = None\<rparr>"
proof -
  have "listed (scan_of demo_library None (pb_state demo_gate)) [''sub'', ''a.mp4'']" by code_simp
  moreover have "\<not> is_internal_cache_path [''sub'', ''a.mp4'']" by code_simp
  ultimately show ?thesis
    by (auto simp: file_visible_def filter_excludes_local_def library_reaches_def demo_library_def demo_tree_def
        demo_media_file_def reaches_Cons reaches_Nil)
qed

theorem listed_item_found_witness:
  "\<exists>item. get_item demo_library demo_attempts (li_id item) = Some item \<and> li_source_id item = ''sub/a.mp4''"
  using listed_item_found [OF demo_library_ok demo_undisturbed demo_visible]
  by (intro exI [of _ "item_at demo_library [''sub'', ''a.mp4''] _"]) (auto simp: demo_library_def)

theorem library_answers_for_current_gate_witness:
  "with_stable_snapshot demo_attempts (\<lambda>state ticks. state) = Some (pb_state demo_gate)"
  using library_answers_for_current_gate [OF demo_history, of "\<lambda>state ticks. state"]
  by (cases "with_stable_snapshot demo_attempts (\<lambda>state ticks. state)") (auto simp: demo_attempts_def dest: in_set_takeD)

definition demo_item_removal :: "(io_kind + bool) \<times> media_library" where
  "demo_item_removal = delete_item demo_library \<lparr>rv_unlink = None, rv_sync = None\<rparr> demo_attempts
     (create_item_id demo_library ''b.mp4'')"

theorem removal_takes_one_published_file_witness:
  "fst demo_item_removal = Inr True \<and> (\<exists>p. lib_lstat (snd demo_item_removal) p = Inl NotFound
     \<and> (\<forall>q g. library_reaches (snd demo_item_removal) q g \<longleftrightarrow> library_reaches demo_library q g \<and> q \<noteq> p))"
proof -
  have r: "fst demo_item_removal = Inr True" by code_simp
  have "delete_item demo_library \<lparr>rv_unlink = None, rv_sync = None\<rparr> demo_attempts
      (create_item_id demo_library ''b.mp4'') = (fst demo_item_removal, snd demo_item_removal)"
    by (simp add: demo_item_removal_def)
  then show ?thesis
    using removal_takes_one_published_file [OF _ demo_library_ok(2) demo_history] r by fastforce
qed

end
