(* ===== verification/Spec2Isabelle.thy ===== *)
theory Spec2Isabelle
  imports Prelude Ranking Fill_Scheduler Range_Extents Range_Manifest Range_Cache Network_Policy
    Mp4_Segments Rust_Text Resolver_Health Cdn_History Cdn_Ranking Cdn_Reload
    Http_Ranges Http_Resource Hls_Stream
    Private_File Resolver_Settings Route_Memory Route_Probe Playback_Progress Task_Examples Hls_Examples
    Library_Pages
begin

text \<open>
  Verification of the cache server of tvOS-net-player (\<open>src/CacheServer/RustCacheServer/src\<close>). The
  server resolves media on the network, downloads it, cuts it into HLS segments and serves them to
  the player, while it keeps what it has in a cache of byte ranges. The development models the
  parts that decide: each is a theory of its own with the state, the operations in the order the
  source has them, and the properties that make it correct. A file name below is relative to that
  directory.

  The shared theories:

  \<^item> \<open>Prelude\<close>: Rust's unsigned arithmetic on \<open>nat\<close> with saturation, checks and wrap-around
    written out; hash maps as association lists with distinct keys and the interface
    \<open>keyed_store\<close> they implement; runs, reachable states and the interface \<open>step_system\<close> of a
    transition system with an invariant, which every stateful component interprets.
  \<^item> \<open>Ranking\<close>: \<open>Ordering\<close>, \<open>then_with\<close>, the stable \<open>sort_by\<close> and \<open>BTreeMap\<close>. The interface
    \<open>comparison\<close> states when a comparison may be sorted by; sorting is proved correct from it once,
    and each comparison of the components interprets it.
  \<^item> \<open>Rust_Text\<close>: Rust's string functions (\<open>trim\<close>, \<open>strip_prefix\<close>, \<open>split_once\<close>, parsing and
    printing of numbers) with their laws.

  \<^item> \<open>Private_File\<close>: a state file that is replaced through a temporary file, with the answer of the
    operating system to each call as an argument, and the interface \<open>persistent_state\<close>: what was
    saved is loaded again, a failed save changes nothing. The settings and the route memory
    interpret it.

  The components:

  \<^item> \<open>Fill_Scheduler\<close> (\<open>hls_fill_scheduler.rs\<close>): the queue of cache fills with foreground and
    background jobs, preemption, pause, cancellation of a task and shutdown. Steps are the critical
    sections of the scheduler's lock; the theorems are the invariant over all interleavings, the
    selection order, and what cancellation, preemption, promotion and shutdown guarantee.
  \<^item> \<open>Range_Extents\<close> (\<open>hls_cache.rs\<close>, \<open>hls_range_cache.rs\<close>): which byte ranges of a resource are
    there, which are missing, how a download is split into chunks and what compaction does. The
    reference for all of it is the set of bytes covered.
  \<^item> \<open>Range_Manifest\<close> (\<open>hls_cache.rs\<close>): when a stored manifest is accepted, and when a newer
    description of a resource may replace an older one, equal to a declarative relation.
  \<^item> \<open>Range_Cache\<close> (\<open>hls_range_cache.rs\<close>): the coordination of readers, downloads, publication and
    removal of sessions. The state is the source's, together with the guards handed out; dropping a
    guard is a step. Besides the counters and the exclusion of removal and publication, two theorems
    show defects: a removal that is dropped while it waits blocks its session for good, and a late
    reader of an earlier flight takes away the interest of a reader that joined the next one.
  \<^item> \<open>Network_Policy\<close> (\<open>hls_network_policy.rs\<close>): which variants of a session are hidden after
    failures and slow answers, and for how long.
  \<^item> \<open>Mp4_Segments\<close> (\<open>mp4_segments.rs\<close>): the parser that finds the fragments of an MP4 file and
    their durations. Every loop moves forward by at least one box header, so the definitions are
    total; the measure is the rest of the file.
  \<^item> \<open>Resolver_Health\<close> (\<open>resolver_health.rs\<close>, host identifiers of \<open>resolver_settings.rs\<close>): health,
    backoff and ranking of the resolver hosts.
  \<^item> \<open>Resolver_Settings\<close> (\<open>resolver_catalog.rs\<close>, \<open>resolver_settings.rs\<close>): the catalog, the user's
    settings, the candidates that follow from both, and the store with its revision number.
  \<^item> \<open>Route_Memory\<close>, \<open>Route_Probe\<close> (\<open>resolver_routing.rs\<close>): the routes that worked before, in memory
    and on disk, and the round of concurrent probes that chooses the resolvers to ask. The probes
    end in any order; the events that the loop sees are a list.
  \<^item> \<open>Playback_Progress\<close> (\<open>hls_playback_progress.rs\<close>, the playlist address of \<open>playback.rs\<close>): the
    reports of the players and the session that each belongs to.
  \<^item> \<open>Cdn_History\<close>, \<open>Cdn_Ranking\<close>, \<open>Cdn_Reload\<close> (\<open>cdn_history.rs\<close>): what was observed of the
    content delivery origins, how addresses are ranked and rotated from it, and that a stored
    history is accepted again.
  \<^item> \<open>Http_Ranges\<close>, \<open>Http_Resource\<close> (\<open>media.rs\<close>): the range headers, the answers that serve a file or
    a task resource, entity tags and conditional requests, and the validation of the answers of
    other servers. The reference of a header is the set of positions, or of tags, that it names.
  \<^item> \<open>Hls_Stream\<close> (\<open>media.rs\<close>): the streams that deliver cached ranges and passed-through bodies as
    state machines with one step per chunk, and what they report to the network policy and to the
    history of the origins. Of the fallback request nothing is assumed but its headers: its body may be
    short, and the stream delivers what that body has.

  \<^item> \<open>Rust_Float\<close>, \<open>Playback_Variants\<close> (\<open>codecs.rs\<close>, \<open>playback_policy.rs\<close>, the planned variants of
    \<open>bbdown_adapter.rs\<close>): \<open>f64\<close> with parsing and division rounded as the format has it, the codec
    tests, the policy with its message, and the test that a variant stays within the profile that the
    player can play.
  \<^item> \<open>Lan_Transcoding\<close> (\<open>transcoding.rs\<close>): when a session is converted, the command line, the loop
    over the converter with its timeout, and the end of its error output that is kept.
  \<^item> \<open>Hls_Sessions\<close>, \<open>Hls_Registry\<close> (\<open>hls.rs\<close>): how a session is built from a plan and how its
    addresses are refreshed from a later one; the registry with generations and scrubs, one step per
    hold of its lock. The theorems: a refresh changes only addresses, is written only into the session
    that was read, and a scrub takes effect at its deadline.
  \<^item> \<open>Hls_Playlists\<close>, \<open>Hls_Names\<close>, \<open>Hls_Answers\<close> (\<open>hls.rs\<close>, \<open>media.rs\<close>): the playlists as texts,
    the lookup of resources by name, the headers sent to other origins, and the handlers. The reference
    of a playlist is what a player reads from its lines. \<open>Hls_Names\<close> shows that the names in a session
    are different from each other, before and after a refresh, so an address leads to one resource.
  \<^item> \<open>Mp4_Init\<close>, \<open>Hls_Segments\<close> (\<open>hls.rs\<close>, \<open>hls_cache.rs\<close>): the length of the initialisation part,
    and the way of the fragments from \<open>Mp4_Segments\<close> over the stored metadata into the playlist.
    \<open>Hls_Examples\<close> has a concrete session and what the theorems say of it.

  \<^item> \<open>Rust_Path\<close>, \<open>File_Tree\<close>, \<open>Library\<close>, \<open>Library_Scan\<close> (\<open>library.rs\<close>): paths and their components,
    the directory tree below the root with links and unreadable directories, the gate that hides what is
    not published, the scan, pages, lookup and removal. \<open>Library_Listing\<close>, \<open>Library_Pages\<close>: the scan
    finds exactly the files that may be seen, pages split them, identifiers lead back, a removal takes
    one of them, and an answer belongs to the gate as it is when it is given. The tree does not change
    while one operation reads it; the gate may, and each attempt has the gate at both looks.

  \<^item> The task registry (\<open>task_registry.rs\<close>). \<open>Task_Model\<close>: tasks, options and the key of a request.
    \<open>Task_Registry\<close>, \<open>Task_Playback\<close>, \<open>Task_Restore\<close>: the registry with its live and visible tasks, its
    commit to the snapshot on disk, and its operations, those that fail or change a task after its work
    in \<open>Task_Restore\<close>. \<open>Task_Commit\<close>, \<open>Task_Safety\<close>, \<open>Task_Loss\<close>, \<open>Task_Life\<close>: a commit either makes live,
    visible and saved tasks the same or takes the change back; from it the invariant and the life of a
    task over all sequences of operations and answers of the disk. Each operation is bound by an order
    of states: \<open>may_become\<close>, under which an ended task keeps its state, or one of the two weaker ones for
    the operations that reject cached sessions and delete media. \<open>Task_Keys\<close>,
    \<open>Task_Limits\<close>, \<open>Task_Sessions\<close>: duplicate requests, refused creations, retention, subscriptions and
    the sessions whose data may be deleted. \<open>Task_Examples\<close>: all of it at concrete runs. An operation
    holds the mutation lock of the source and is one step; identifiers are drawn new; the registry
    starts empty with a store.

  Bounds: the numeric limits (\<open>u64\<close>, \<open>u32\<close>, table sizes, sizes of boxes) are those of the source and
  are written out in the definitions. No definition has fuel; every loop is structural or has a
  measure.

  Parameters: the URL parser, the SHA-256 function, base64 and the date format (third-party crates),
  Unicode's lower case, the payload type of the scheduled jobs, what the file system, the converter and other servers answer, and
  what other threads do between two critical sections. The hypotheses on them are stated in the
  theorems and hold for the functions of the witnesses.

  Not modelled: sockets, files and their permissions, the JSON and protobuf encodings, the
  asynchronous runtime (waiting is a step that is enabled or not), the gRPC services, the login and
  the download adapters, the session directories of the cache, the task store, the output records with
  their resource files (leases, bodies, storage checks; the registry sees what they answer), and the
  start of the registry from a stored snapshot; they call the parts above.
\<close>

end
